(* ===== verification/Prelude.thy ===== *)
theory Prelude
  imports Main "HOL-Library.Word"
begin

section \<open>Machine types, byte memory and shared lemmas\<close>

text \<open>
  What every component of the development shares: the widths of the C integer types of an
  x86-64 Linux build, byte-addressed memory with little-endian loads and stores, and the
  list, word and option lemmas the component proofs rest on.

  A C pointer is an \<^typ>\<open>int\<close> (\<open>0\<close> is \<open>NULL\<close>, \<open>-1\<close> is \<open>(void *) -1\<close>): pointer arithmetic is
  exact, and the theorems show that the addresses the code computes stay inside the heap.
  Sizes (\<open>size_t\<close>) and words stored in memory (\<open>unsigned int\<close>) keep their width.
\<close>

unbundle bit_operations_syntax

type_synonym u8 = "8 word"
type_synonym u16 = "16 word"
type_synonym u32 = "32 word"
type_synonym u64 = "64 word"
type_synonym addr = int
type_synonym bytes = "addr \<Rightarrow> u8"

named_theorems mem_simps \<open>reading memory after a write\<close>
named_theorems word_size_simps \<open>words read as numbers\<close>
named_theorems state_simps \<open>definitions that only name fields of a state\<close>

subsection \<open>Little-endian byte strings\<close>

fun le_decode :: "u8 list \<Rightarrow> nat" where
  "le_decode [] = 0"
| "le_decode (b # bs) = unat b + 256 * le_decode bs"

fun le_encode :: "nat \<Rightarrow> nat \<Rightarrow> u8 list" where
  "le_encode 0 v = []"
| "le_encode (Suc n) v = word_of_nat (v mod 256) # le_encode n (v div 256)"

lemma length_le_encode [simp]: "length (le_encode n v) = n"
  by (induction n arbitrary: v) auto

lemma unat_u8_of_mod [simp]: "unat (word_of_nat (v mod 256) :: u8) = v mod 256"
  by (simp add: unat_of_nat)

lemma le_decode_encode: "le_decode (le_encode n v) = v mod 256 ^ n"
proof (induction n arbitrary: v)
  case 0
  then show ?case by simp
next
  case (Suc n)
  have "v mod 256 + 256 * (v div 256 mod 256 ^ n) = v mod (256 * 256 ^ n)"
    by (simp add: mod_mult2_eq)
  with Suc show ?case by simp
qed

lemma le_decode_less: "le_decode bs < 256 ^ length bs"
proof (induction bs)
  case Nil
  then show ?case by simp
next
  case (Cons b bs)
  have "unat b < 256"
    using unsigned_less [of b] by simp
  with Cons show ?case by simp
qed

lemma le_encode_decode: "length bs = n \<Longrightarrow> le_encode n (le_decode bs) = bs"
proof (induction bs arbitrary: n)
  case Nil
  then show ?case by simp
next
  case (Cons b bs)
  have "unat b < 256"
    using unsigned_less [of b] by simp
  with Cons show ?case by auto
qed

subsection \<open>Reading and writing runs of bytes\<close>

definition read_mem :: "bytes \<Rightarrow> addr \<Rightarrow> nat \<Rightarrow> u8 list" where
  "read_mem m p n = map (\<lambda>i. m (p + int i)) [0..<n]"

fun write_mem :: "bytes \<Rightarrow> addr \<Rightarrow> u8 list \<Rightarrow> bytes" where
  "write_mem m p [] = m"
| "write_mem m p (b # bs) = write_mem (m(p := b)) (p + 1) bs"

lemma length_read_mem [simp]: "length (read_mem m p n) = n"
  by (simp add: read_mem_def)

lemma nth_read_mem [simp]: "i < n \<Longrightarrow> read_mem m p n ! i = m (p + int i)"
  by (simp add: read_mem_def)

lemma write_mem_apply:
  "write_mem m p bs a =
     (if p \<le> a \<and> a < p + int (length bs) then bs ! nat (a - p) else m a)"
proof (induction bs arbitrary: m p)
  case Nil
  then show ?case by auto
next
  case (Cons b bs)
  have "nat (a - p) = Suc (nat (a - (p + 1)))" if "p + 1 \<le> a"
    using that by simp
  with Cons show ?case by (auto simp: nth_Cons')
qed

lemma write_mem_other [mem_simps]:
  "a < p \<or> p + int (length bs) \<le> a \<Longrightarrow> write_mem m p bs a = m a"
  by (auto simp: write_mem_apply)

lemma read_write_same [mem_simps]:
  "n = length bs \<Longrightarrow> read_mem (write_mem m p bs) p n = bs"
  by (rule nth_equalityI) (auto simp: write_mem_apply)

lemma read_mem_cong:
  "(\<And>a. p \<le> a \<Longrightarrow> a < p + int n \<Longrightarrow> m a = m' a) \<Longrightarrow> read_mem m p n = read_mem m' p n"
  by (auto simp: read_mem_def)

lemma read_write_disjoint [mem_simps]:
  "q + int n \<le> p \<or> p + int (length bs) \<le> q \<Longrightarrow>
     read_mem (write_mem m p bs) q n = read_mem m q n"
  by (rule read_mem_cong) (auto simp: write_mem_apply)

lemma read_write_prefix:
  "n \<le> length bs \<Longrightarrow> read_mem (write_mem m p bs) p n = take n bs"
  by (rule nth_equalityI) (auto simp: write_mem_apply)

text \<open>\<open>memcpy\<close> between regions that do not overlap and \<open>memset\<close>, as the standard library has
  them: the bytes of the source are read before any is written.\<close>

definition memcpy :: "bytes \<Rightarrow> addr \<Rightarrow> addr \<Rightarrow> nat \<Rightarrow> bytes" where
  "memcpy m dst src n = write_mem m dst (read_mem m src n)"

definition memset :: "bytes \<Rightarrow> addr \<Rightarrow> u8 \<Rightarrow> nat \<Rightarrow> bytes" where
  "memset m p c n = write_mem m p (replicate n c)"

subsection \<open>Words in memory\<close>

definition load32 :: "bytes \<Rightarrow> addr \<Rightarrow> u32" where
  "load32 m p = word_of_nat (le_decode (read_mem m p 4))"

definition store32 :: "bytes \<Rightarrow> addr \<Rightarrow> u32 \<Rightarrow> bytes" where
  "store32 m p v = write_mem m p (le_encode 4 (unat v))"

definition load64 :: "bytes \<Rightarrow> addr \<Rightarrow> u64" where
  "load64 m p = word_of_nat (le_decode (read_mem m p 8))"

definition store64 :: "bytes \<Rightarrow> addr \<Rightarrow> u64 \<Rightarrow> bytes" where
  "store64 m p v = write_mem m p (le_encode 8 (unat v))"

lemma load32_store32_same [mem_simps]: "load32 (store32 m p v) p = v"
proof -
  have "unat v < 256 ^ 4"
    using unsigned_less [of v] by simp
  then show ?thesis
    by (simp add: load32_def store32_def mem_simps le_decode_encode)
qed

lemma load32_store32_other [mem_simps]:
  "q + 4 \<le> p \<or> p + 4 \<le> q \<Longrightarrow> load32 (store32 m p v) q = load32 m q"
  by (simp add: load32_def store32_def mem_simps)

lemma store32_other [mem_simps]: "a < p \<or> p + 4 \<le> a \<Longrightarrow> store32 m p v a = m a"
  by (simp add: store32_def mem_simps)

lemma load32_cong:
  "(\<And>a. p \<le> a \<Longrightarrow> a < p + 4 \<Longrightarrow> m a = m' a) \<Longrightarrow> load32 m p = load32 m' p"
  unfolding load32_def using read_mem_cong [of p 4 m m'] by simp

lemma load64_store64_same [mem_simps]: "load64 (store64 m p v) p = v"
proof -
  have "unat v < 256 ^ 8"
    using unsigned_less [of v] by simp
  then show ?thesis
    by (simp add: load64_def store64_def mem_simps le_decode_encode)
qed

lemma load64_store64_other [mem_simps]:
  "q + 8 \<le> p \<or> p + 8 \<le> q \<Longrightarrow> load64 (store64 m p v) q = load64 m q"
  by (simp add: load64_def store64_def mem_simps)

lemma load64_cong:
  "(\<And>a. p \<le> a \<Longrightarrow> a < p + 8 \<Longrightarrow> m a = m' a) \<Longrightarrow> load64 m p = load64 m' p"
  unfolding load64_def using read_mem_cong [of p 8 m m'] by simp

lemma store64_other [mem_simps]: "a < p \<or> p + 8 \<le> a \<Longrightarrow> store64 m p v a = m a"
  by (simp add: store64_def mem_simps)

subsection \<open>Conversions between the C integer types\<close>

text \<open>A \<open>size_t\<close> passed where an \<open>int\<close> is expected keeps its low 32 bits, read as a two's
  complement number.\<close>

definition size_to_int :: "u64 \<Rightarrow> int" where
  "size_to_int w = sint (ucast w :: u32)"

lemma size_to_int_small: "uint w < 2 ^ 31 \<Longrightarrow> size_to_int w = uint w"
proof -
  assume a: "uint w < 2 ^ 31"
  have u: "uint (ucast w :: u32) = uint w"
    using a by (simp add: unsigned_ucast_eq take_bit_int_eq_self)
  have "- (2 ^ 31) \<le> uint w"
    by (rule order_trans [of _ 0]) simp_all
  then have "sint (ucast w :: u32) = uint (ucast w :: u32)"
    using a u by (simp add: sint_uint signed_take_bit_int_eq_self_iff)
  with u show ?thesis by (simp add: size_to_int_def)
qed

lemma less_unat_iff [word_size_simps]: "j < unat w \<longleftrightarrow> int j < uint w"
  by (simp add: zless_nat_eq_int_zless flip: nat_uint_eq)

lemma of_nat_unat [word_size_simps]: "int (unat w) = uint w"
  by (simp flip: nat_uint_eq)

subsection \<open>Calls that may not return\<close>

text \<open>How a call of a C function can end other than by returning: \<open>app_error\<close>, \<open>unix_error\<close> or
  another call of \<open>exit\<close>, a failed \<open>assert\<close>, undefined behaviour (an access outside an array or
  through \<open>NULL\<close>), or never.\<close>

datatype fault = Exits int | Assert_fails | Undefined | Diverges

type_synonym 'a result = "fault + 'a"

definition and_then :: "'a result \<Rightarrow> ('a \<Rightarrow> 'b result) \<Rightarrow> 'b result" where
  "and_then r f = (case r of Inl e \<Rightarrow> Inl e | Inr x \<Rightarrow> f x)"

lemma and_then_simps [simp]:
  "and_then (Inl e) f = Inl e" "and_then (Inr x) f = f x"
  by (simp_all add: and_then_def)

lemma and_then_Inr:
  "and_then r f = Inr y \<longleftrightarrow> (\<exists>x. r = Inr x \<and> f x = Inr y)"
  by (cases r) simp_all

text \<open>A call whose model returns an option, \<open>None\<close> when it never returns.\<close>

definition returns :: "'a option \<Rightarrow> 'a result" where
  "returns r = (case r of None \<Rightarrow> Inl Diverges | Some x \<Rightarrow> Inr x)"

lemma returns_simps [simp]: "returns None = Inl Diverges" "returns (Some x) = Inr x"
  by (simp_all add: returns_def)

text \<open>Array access with the bounds C leaves unchecked.\<close>

definition array_get :: "'a list \<Rightarrow> int \<Rightarrow> 'a result" where
  "array_get xs i = (if 0 \<le> i \<and> i < int (length xs) then Inr (xs ! nat i) else Inl Undefined)"

definition array_set :: "'a list \<Rightarrow> int \<Rightarrow> 'a \<Rightarrow> 'a list result" where
  "array_set xs i x =
     (if 0 \<le> i \<and> i < int (length xs) then Inr (xs[nat i := x]) else Inl Undefined)"

lemma array_get_ok [simp]: "0 \<le> i \<Longrightarrow> i < int (length xs) \<Longrightarrow> array_get xs i = Inr (xs ! nat i)"
  by (simp add: array_get_def)

lemma array_set_ok [simp]:
  "0 \<le> i \<Longrightarrow> i < int (length xs) \<Longrightarrow> array_set xs i x = Inr (xs[nat i := x])"
  by (simp add: array_set_def)

end
