(* ===== verification/Memlib.thy ===== *)
theory Memlib
  imports Prelude
begin

section \<open>The simulated memory system (malloclab-handout/memlib.c)\<close>

text \<open>
  \<open>memlib.c\<close> keeps three pointers: the start of the region \<open>mmap\<close> returned, the simulated
  break and the end of the region. The state here adds the bytes of the region and a counter
  of the calls made to the C library's own \<open>sbrk\<close>, whose outcomes are the parameter \<open>sb\<close> of
  \<open>mem_sbrk\<close>: \<open>sb k n\<close> says whether the \<open>k\<close>-th call, \<open>sbrk(n)\<close>, succeeds. Messages on
  \<open>stderr\<close> and \<open>errno\<close> are not part of the state.
\<close>

record memsys =
  store :: bytes
  heap :: addr
  mem_brk :: addr
  mem_max_addr :: addr
  sbrk_calls :: nat

text \<open>\<open>MAX_HEAP\<close> of \<open>config.h\<close>: 100 MB.\<close>

definition MAX_HEAP :: int where
  "MAX_HEAP = 100 * 2 ^ 20"

text \<open>\<open>mem_init\<close>: \<open>base\<close> is the address \<open>mmap\<close> returns and \<open>m0\<close> the memory it maps. After
  \<open>mem_deinit\<close> the pointers keep their values.\<close>

definition mem_init :: "addr \<Rightarrow> bytes \<Rightarrow> 'a memsys_scheme \<Rightarrow> 'a memsys_scheme" where
  "mem_init base m0 s =
     s\<lparr>store := m0, heap := base, mem_brk := base, mem_max_addr := base + MAX_HEAP\<rparr>"

definition mem_reset_brk :: "'a memsys_scheme \<Rightarrow> 'a memsys_scheme" where
  "mem_reset_brk s = s\<lparr>mem_brk := heap s\<rparr>"

definition mem_sbrk :: "(nat \<Rightarrow> int \<Rightarrow> bool) \<Rightarrow> 'a memsys_scheme \<Rightarrow> int \<Rightarrow> addr \<times> 'a memsys_scheme"
  where
  "mem_sbrk sb s incr =
     (let old_brk = mem_brk s in
      if incr < 0 \<or> mem_brk s + incr > mem_max_addr s then (-1, s)
      else if \<not> sb (sbrk_calls s) incr then (-1, s\<lparr>sbrk_calls := Suc (sbrk_calls s)\<rparr>)
      else (old_brk, s\<lparr>sbrk_calls := Suc (sbrk_calls s), mem_brk := mem_brk s + incr\<rparr>))"

definition mem_heap_lo :: "'a memsys_scheme \<Rightarrow> addr" where
  "mem_heap_lo s = heap s"

definition mem_heap_hi :: "'a memsys_scheme \<Rightarrow> addr" where
  "mem_heap_hi s = mem_brk s - 1"

definition mem_heapsize :: "'a memsys_scheme \<Rightarrow> u64" where
  "mem_heapsize s = word_of_int (mem_brk s - heap s)"

subsection \<open>The break only grows and stays inside the region\<close>

definition brk_ok :: "'a memsys_scheme \<Rightarrow> bool" where
  "brk_ok s \<longleftrightarrow> 0 < heap s \<and> heap s \<le> mem_brk s \<and> mem_brk s \<le> mem_max_addr s
     \<and> mem_max_addr s = heap s + MAX_HEAP"

lemma mem_init_brk_ok: "0 < base \<Longrightarrow> brk_ok (mem_init base m0 s)"
  by (simp add: brk_ok_def mem_init_def MAX_HEAP_def)

lemma mem_reset_brk_ok: "brk_ok s \<Longrightarrow> brk_ok (mem_reset_brk s)"
  by (simp add: brk_ok_def mem_reset_brk_def)

lemma mem_sbrk_cases:
  assumes "mem_sbrk sb s incr = (p, s')"
  obtains
    (fail) "p = -1" and "s' = s \<or> s' = s\<lparr>sbrk_calls := Suc (sbrk_calls s)\<rparr>"
      and "\<not> (0 \<le> incr \<and> mem_brk s + incr \<le> mem_max_addr s \<and> sb (sbrk_calls s) incr)"
  | (ok) "p = mem_brk s" and "0 \<le> incr" and "mem_brk s + incr \<le> mem_max_addr s"
      and "sb (sbrk_calls s) incr"
      and "s' = s\<lparr>sbrk_calls := Suc (sbrk_calls s), mem_brk := mem_brk s + incr\<rparr>"
proof (cases "incr < 0 \<or> mem_brk s + incr > mem_max_addr s")
  case True
  with assms have "p = -1" and "s' = s"
    by (simp_all add: mem_sbrk_def Let_def)
  then show thesis using True by (intro fail) auto
next
  case guard: False
  show thesis
  proof (cases "sb (sbrk_calls s) incr")
    case True
    with guard assms show thesis by (intro ok) (auto simp: mem_sbrk_def Let_def)
  next
    case False
    with guard assms show thesis by (intro fail) (simp_all add: mem_sbrk_def Let_def)
  qed
qed

lemma mem_sbrk_success:
  assumes "0 \<le> incr" and "mem_brk s + incr \<le> mem_max_addr s" and "sb (sbrk_calls s) incr"
  shows "mem_sbrk sb s incr =
    (mem_brk s, s\<lparr>sbrk_calls := Suc (sbrk_calls s), mem_brk := mem_brk s + incr\<rparr>)"
  using assms by (simp add: mem_sbrk_def Let_def)

lemma mem_sbrk_brk_ok:
  assumes "brk_ok s" and "mem_sbrk sb s incr = (p, s')"
  shows "brk_ok s'" and "mem_brk s \<le> mem_brk s'"
  using assms(2,1) by (cases rule: mem_sbrk_cases; auto simp: brk_ok_def)+

end
