(* ===== verification/Alloc_Spec.thy ===== *)
theory Alloc_Spec
  imports Memlib
begin

section \<open>What a malloc package promises its callers\<close>

text \<open>
  The interface between the trace driver and a malloc package: a relation \<open>rel s L\<close> that says
  the package's heap in state \<open>s\<close> is in order and owes its callers the payloads \<open>L\<close> (start and
  usable length), and the laws of the calls. \<open>mm.c\<close> provides the first contract, \<open>mm-naive.c\<close>
  also the second.
\<close>

type_synonym live = "(addr \<times> int) set"

definition in_payload :: "live \<Rightarrow> addr \<Rightarrow> bool" where
  "in_payload L a \<longleftrightarrow> (\<exists>(p, k) \<in> L. p \<le> a \<and> a < p + k)"

definition fresh_in :: "live \<Rightarrow> addr \<Rightarrow> int \<Rightarrow> bool" where
  "fresh_in L p k \<longleftrightarrow> (\<forall>(q, t) \<in> L. p + k \<le> q \<or> q + t \<le> p)"

definition same_on :: "live \<Rightarrow> bytes \<Rightarrow> bytes \<Rightarrow> bool" where
  "same_on L m m' \<longleftrightarrow> (\<forall>a. in_payload L a \<longrightarrow> m' a = m a)"

lemma in_payloadI: "(p, k) \<in> L \<Longrightarrow> p \<le> a \<Longrightarrow> a < p + k \<Longrightarrow> in_payload L a"
  by (auto simp: in_payload_def)

lemma in_payload_mono: "in_payload L a \<Longrightarrow> L \<subseteq> L' \<Longrightarrow> in_payload L' a"
  by (auto simp: in_payload_def)

lemma same_onD: "same_on L m m' \<Longrightarrow> (p, k) \<in> L \<Longrightarrow> p \<le> a \<Longrightarrow> a < p + k \<Longrightarrow> m' a = m a"
  by (auto simp: same_on_def in_payload_def)

lemma same_on_refl [simp]: "same_on L m m"
  by (simp add: same_on_def)

lemma same_on_mono: "same_on L m m' \<Longrightarrow> L' \<subseteq> L \<Longrightarrow> same_on L' m m'"
  by (auto simp: same_on_def dest: in_payload_mono)

lemma same_on_trans: "same_on L a b \<Longrightarrow> same_on L b c \<Longrightarrow> same_on L a c"
  by (simp add: same_on_def)

lemma fresh_in_mono: "fresh_in L p k \<Longrightarrow> L' \<subseteq> L \<Longrightarrow> fresh_in L' p k"
  by (auto simp: fresh_in_def)

subsection \<open>Allocation\<close>

definition alloc_result ::
  "('x memsys_scheme \<Rightarrow> live \<Rightarrow> bool) \<Rightarrow> 'x memsys_scheme \<Rightarrow> live \<Rightarrow> int \<Rightarrow> addr
     \<Rightarrow> 'x memsys_scheme \<Rightarrow> bool" where
  "alloc_result rel s L n p s' \<longleftrightarrow> same_on L (store s) (store s') \<and>
     (if p = 0 then rel s' L
      else \<exists>k. n \<le> k \<and> fresh_in L p k \<and> rel s' (insert (p, k) L))"

locale allocator =
  fixes rel :: "'x memsys_scheme \<Rightarrow> live \<Rightarrow> bool"
    and al :: "'x memsys_scheme \<Rightarrow> u64 \<Rightarrow> (addr \<times> 'x memsys_scheme) option"
    and ini :: "'x memsys_scheme \<Rightarrow> int \<times> 'x memsys_scheme"
    and ck :: "'x memsys_scheme \<Rightarrow> 'x memsys_scheme option"
    and lim :: int
  assumes lim_int: "lim < 2 ^ 31"
    and ini_rel: "brk_ok s \<Longrightarrow> 8 dvd heap s \<Longrightarrow> mem_brk s = heap s \<Longrightarrow> ini s = (r, s') \<Longrightarrow> 0 \<le> r
      \<Longrightarrow> rel s' {}"
    and al_returns: "rel s L \<Longrightarrow> 0 < uint n \<Longrightarrow> uint n \<le> lim
      \<Longrightarrow> \<exists>p s'. al s n = Some (p, s') \<and> alloc_result rel s L (uint n) p s'"
    and rel_write: "rel s L \<Longrightarrow> (p, k) \<in> L \<Longrightarrow> p \<le> a \<Longrightarrow> a < p + k
      \<Longrightarrow> rel (s\<lparr>store := (store s)(a := v)\<rparr>) L"
    and rel_inside: "rel s L \<Longrightarrow> (p, k) \<in> L
      \<Longrightarrow> heap s \<le> p \<and> p + k \<le> mem_brk s \<and> 8 dvd p \<and> 0 < p"
    and ck_returns: "rel s L \<Longrightarrow> ck s = Some s"
begin

text \<open>A caller may write the bytes of a payload, one after the other.\<close>

lemma rel_write_mem:
  "rel s L \<Longrightarrow> (p, k) \<in> L \<Longrightarrow> p \<le> q \<Longrightarrow> q + int (length bs) \<le> p + k
     \<Longrightarrow> rel (s\<lparr>store := write_mem (store s) q bs\<rparr>) L"
proof (induction bs arbitrary: s q)
  case Nil
  then show ?case by simp
next
  case (Cons b bs)
  have "rel (s\<lparr>store := (store s)(q := b)\<rparr>) L"
    using Cons.prems by (intro rel_write) auto
  from Cons.IH [OF this, of "q + 1"] Cons.prems show ?case by (simp add: fun_upd_def)
qed

text \<open>A run of requests: the addresses returned, failed requests included.\<close>

fun alloc_all :: "'x memsys_scheme \<Rightarrow> u64 list \<Rightarrow> (addr list \<times> 'x memsys_scheme) option" where
  "alloc_all s [] = Some ([], s)"
| "alloc_all s (n # ns) =
     (case al s n of None \<Rightarrow> None
      | Some (p, s1) \<Rightarrow> (case alloc_all s1 ns of None \<Rightarrow> None
          | Some (ps, s2) \<Rightarrow> Some (p # ps, s2)))"

lemma alloc_all_returns:
  "rel s L \<Longrightarrow> (\<And>n. n \<in> set ns \<Longrightarrow> 0 < uint n \<and> uint n \<le> lim)
     \<Longrightarrow> \<exists>ps s' L'. alloc_all s ns = Some (ps, s') \<and> rel s' L' \<and> L \<subseteq> L'
          \<and> same_on L (store s) (store s') \<and> (\<forall>p \<in> set ps. p \<noteq> 0 \<longrightarrow> (\<exists>k. (p, k) \<in> L' - L))"
proof (induction ns arbitrary: s L)
  case Nil
  then show ?case by auto
next
  case (Cons n ns)
  obtain p s1 where a: "al s n = Some (p, s1)" "alloc_result rel s L (uint n) p s1"
    using al_returns [OF Cons.prems(1), of n] Cons.prems(2) [of n] by auto
  show ?case
  proof (cases "p = 0")
    case True
    with a(2) have r: "rel s1 L" and sm: "same_on L (store s) (store s1)"
      by (simp_all add: alloc_result_def)
    with Cons.IH [OF r] Cons.prems(2) True a(1) show ?thesis
      by (fastforce intro: same_on_trans)
  next
    case False
    with a(2) obtain k where k: "uint n \<le> k" "fresh_in L p k" "rel s1 (insert (p, k) L)"
      and sm: "same_on L (store s) (store s1)" by (auto simp: alloc_result_def)
    have n: "0 < uint n" using Cons.prems(2) [of n] by simp
    have new: "(p, k) \<notin> L" using k n by (force simp: fresh_in_def)
    obtain ps s2 L' where r: "alloc_all s1 ns = Some (ps, s2)" "rel s2 L'" "insert (p, k) L \<subseteq> L'"
      "same_on (insert (p, k) L) (store s1) (store s2)"
      "\<forall>p' \<in> set ps. p' \<noteq> 0 \<longrightarrow> (\<exists>k'. (p', k') \<in> L' - insert (p, k) L)"
      using Cons.IH [OF k(3)] Cons.prems(2) by force
    have "same_on L (store s) (store s2)"
      using sm r(4) by (blast intro: same_on_trans same_on_mono)
    with a(1) r new show ?thesis by (intro exI [of _ "p # ps"] exI [of _ s2] exI [of _ L']) auto
  qed
qed

end

subsection \<open>Reclaiming\<close>

locale reclaimer = allocator rel al ini ck lim
  for rel :: "'x memsys_scheme \<Rightarrow> live \<Rightarrow> bool" and al and ini and ck and lim +
  fixes fr :: "'x memsys_scheme \<Rightarrow> addr \<Rightarrow> 'x memsys_scheme"
    and re :: "'x memsys_scheme \<Rightarrow> addr \<Rightarrow> u64 \<Rightarrow> (addr \<times> 'x memsys_scheme) option"
  assumes fr_rel: "rel s L \<Longrightarrow> (p, k) \<in> L
      \<Longrightarrow> rel (fr s p) (L - {(p, k)}) \<and> same_on (L - {(p, k)}) (store s) (store (fr s p))"
    and fr_null: "rel s L \<Longrightarrow> rel (fr s 0) L \<and> same_on L (store s) (store (fr s 0))"
    and re_returns: "rel s L \<Longrightarrow> (p, k) \<in> L \<Longrightarrow> 0 < uint n \<Longrightarrow> uint n \<le> lim
      \<Longrightarrow> \<exists>p' s'. re s p n = Some (p', s')
           \<and> alloc_result rel s (if p' = 0 then L else L - {(p, k)}) (uint n) p' s'
           \<and> (p' \<noteq> 0 \<longrightarrow> (\<forall>i. 0 \<le> i \<and> i < min k (uint n) \<longrightarrow> store s' (p' + i) = store s (p + i)))"

end
