(* ===== verification/Mdriver.thy ===== *)
theory Mdriver
  imports Alloc_Spec Complex_Main
begin

section \<open>The trace driver (malloclab-handout/mdriver.c)\<close>

text \<open>
  The driver replays a trace of requests against a malloc package and checks every block it is
  given. The package is a record of its entry points, so that the same driver runs \<open>mm.c\<close> and
  \<open>mm-naive.c\<close>, as linking \<open>mdriver.c\<close> with either file does.

  The linked list of ranges is a list, newest first. Arrays of the trace are lists whose bounds
  are checked: an index outside them is the fault \<open>Undefined\<close>. \<open>random()\<close> and the driver's
  own calls of the C library's \<open>malloc\<close> for range records are functions of the number of calls
  made so far. Other output is not modelled.
\<close>

datatype optype = ALLOC | FREE | REALLOC

datatype dbg = DBG_NONE | DBG_CHEAP | DBG_EXPENSIVE

record range_t =
  lo :: addr
  hi :: addr
  r_index :: int

record traceop_t =
  op_type :: optype
  op_index :: int
  op_size :: u64

record trace_t =
  filename :: string
  ignore_ranges :: int
  num_ids :: int
  num_ops :: int
  weight :: int
  ops :: "traceop_t list"
  blocks :: "addr list"
  block_sizes :: "u64 list"
  block_rand_base :: "int list"

record 'x pkg =
  pk_init :: "'x memsys_scheme \<Rightarrow> int \<times> 'x memsys_scheme"
  pk_malloc :: "'x memsys_scheme \<Rightarrow> u64 \<Rightarrow> (addr \<times> 'x memsys_scheme) option"
  pk_realloc :: "'x memsys_scheme \<Rightarrow> addr \<Rightarrow> u64 \<Rightarrow> (addr \<times> 'x memsys_scheme) option"
  pk_free :: "'x memsys_scheme \<Rightarrow> addr \<Rightarrow> 'x memsys_scheme"
  pk_checkheap :: "'x memsys_scheme \<Rightarrow> 'x memsys_scheme option"

record env =
  debug_mode :: dbg
  random_of :: "nat \<Rightarrow> int"
  node_ok :: "nat \<Rightarrow> bool"

text \<open>The messages \<open>malloc_error\<close> prints, newest first in the log of the driver.\<close>

datatype err_msg = Init_failed | Malloc_failed | Realloc_failed | Realloc_zero_not_null
  | Not_aligned | Outside_heap | Overlaps_another | Garbled

record 'x driver =
  sys :: "'x memsys_scheme"
  ranges :: "range_t list"
  trace :: trace_t
  errors :: int
  err_log :: "err_msg list"
  random_data :: "nat \<Rightarrow> u8"
  random_calls :: nat
  node_allocs :: nat

definition malloc_error :: "'x driver \<Rightarrow> err_msg \<Rightarrow> 'x driver" where
  "malloc_error d msg = d\<lparr>errors := errors d + 1, err_log := msg # err_log d\<rparr>"

definition IS_ALIGNED :: "addr \<Rightarrow> bool" where
  "IS_ALIGNED p \<longleftrightarrow> p mod 8 = 0"

definition RANDOM_DATA_LEN :: int where
  "RANDOM_DATA_LEN = 65536"

subsection \<open>The range list\<close>

definition outside_heap :: "'x memsys_scheme \<Rightarrow> addr \<Rightarrow> addr \<Rightarrow> bool" where
  "outside_heap s l h \<longleftrightarrow> l < mem_heap_lo s \<or> l > mem_heap_hi s
     \<or> h < mem_heap_lo s \<or> h > mem_heap_hi s"

definition overlaps :: "addr \<Rightarrow> addr \<Rightarrow> range_t \<Rightarrow> bool" where
  "overlaps l h p \<longleftrightarrow> (l \<ge> lo p \<and> l \<le> hi p) \<or> (h \<ge> lo p \<and> h \<le> hi p)"

text \<open>\<open>add_range\<close>: the result tells whether the block passed (1 in the code).\<close>

definition add_range :: "env \<Rightarrow> 'x driver \<Rightarrow> addr \<Rightarrow> int \<Rightarrow> int \<Rightarrow> (bool \<times> 'x driver) result" where
  "add_range e d l sz ix =
     (let h = l + sz - 1 in
      if \<not> sz > 0 then Inl Assert_fails
      else if \<not> IS_ALIGNED l then Inr (False, malloc_error d Not_aligned)
      else if outside_heap (sys d) l h then Inr (False, malloc_error d Outside_heap)
      else if ignore_ranges (trace d) \<noteq> 0 \<or> debug_mode e = DBG_NONE then Inr (True, d)
      else if \<exists>p \<in> set (ranges d). overlaps l h p then Inr (False, malloc_error d Overlaps_another)
      else if \<not> node_ok e (node_allocs d) then Inl (Exits 1)
      else Inr (True, d\<lparr>ranges := \<lparr>lo = l, hi = h, r_index = ix\<rparr> # ranges d,
                        node_allocs := Suc (node_allocs d)\<rparr>))"

fun remove_range :: "range_t list \<Rightarrow> addr \<Rightarrow> range_t list" where
  "remove_range [] l = []"
| "remove_range (p # ps) l = (if lo p = l then ps else p # remove_range ps l)"

definition clear_ranges :: "'x driver \<Rightarrow> 'x driver" where
  "clear_ranges d = d\<lparr>ranges := []\<rparr>"

subsection \<open>Random data in the blocks\<close>

definition init_random_data :: "env \<Rightarrow> 'x driver \<Rightarrow> 'x driver" where
  "init_random_data e d =
     (if debug_mode e = DBG_NONE then d
      else d\<lparr>random_data := (\<lambda>i. if int i < RANDOM_DATA_LEN
                then word_of_int (random_of e (random_calls d + i)) else random_data d i),
             random_calls := random_calls d + nat RANDOM_DATA_LEN\<rparr>)"

definition rand_byte :: "'x driver \<Rightarrow> int \<Rightarrow> nat \<Rightarrow> u8" where
  "rand_byte d base i = random_data d (nat ((base + int i) mod RANDOM_DATA_LEN))"

definition randomize_block :: "env \<Rightarrow> 'x driver \<Rightarrow> int \<Rightarrow> 'x driver result" where
  "randomize_block e d ix =
     (if debug_mode e = DBG_NONE then Inr d
      else
        let base = random_of e (random_calls d) in
        and_then (array_set (block_rand_base (trace d)) ix base) (\<lambda>bases.
        and_then (array_get (blocks (trace d)) ix) (\<lambda>block.
        and_then (array_get (block_sizes (trace d)) ix) (\<lambda>sz.
          Inr (d\<lparr>random_calls := Suc (random_calls d),
                 trace := (trace d)\<lparr>block_rand_base := bases\<rparr>,
                 sys := (sys d)\<lparr>store := write_mem (store (sys d)) block
                          (map (rand_byte d base) [0..<unat sz])\<rparr>\<rparr>)))))"

definition garbled :: "'x driver \<Rightarrow> addr \<Rightarrow> int \<Rightarrow> nat \<Rightarrow> nat list" where
  "garbled d block base n =
     filter (\<lambda>i. store (sys d) (block + int i) \<noteq> rand_byte d base i) [0..<n]"

definition check_index :: "env \<Rightarrow> 'x driver \<Rightarrow> int \<Rightarrow> 'x driver result" where
  "check_index e d ix =
     (if ix < 0 then Inr d
      else if debug_mode e = DBG_NONE then Inr d
      else
        and_then (array_get (blocks (trace d)) ix) (\<lambda>block.
        and_then (array_get (block_sizes (trace d)) ix) (\<lambda>sz.
        and_then (array_get (block_rand_base (trace d)) ix) (\<lambda>base.
          Inr (if garbled d block base (unat sz) \<noteq> [] then malloc_error d Garbled else d)))))"

subsection \<open>eval_mm_valid\<close>

definition reinit_trace :: "trace_t \<Rightarrow> trace_t" where
  "reinit_trace t = t\<lparr>blocks := replicate (length (blocks t)) 0,
                      block_sizes := replicate (length (block_sizes t)) 0\<rparr>"

definition set_block :: "'x driver \<Rightarrow> int \<Rightarrow> addr \<Rightarrow> 'x driver result" where
  "set_block d ix p = and_then (array_set (blocks (trace d)) ix p)
     (\<lambda>bs. Inr (d\<lparr>trace := (trace d)\<lparr>blocks := bs\<rparr>\<rparr>))"

definition set_size :: "'x driver \<Rightarrow> int \<Rightarrow> u64 \<Rightarrow> 'x driver result" where
  "set_size d ix n = and_then (array_set (block_sizes (trace d)) ix n)
     (\<lambda>bs. Inr (d\<lparr>trace := (trace d)\<lparr>block_sizes := bs\<rparr>\<rparr>))"

fun check_all :: "env \<Rightarrow> 'x driver \<Rightarrow> range_t list \<Rightarrow> 'x driver result" where
  "check_all e d [] = Inr d"
| "check_all e d (r # rs) = and_then (check_index e d (r_index r)) (\<lambda>d1. check_all e d1 rs)"

text \<open>Before each request with the expensive checks on: the package's own check and the data of
  every block.\<close>

definition valid_pre :: "env \<Rightarrow> 'x pkg \<Rightarrow> 'x driver \<Rightarrow> 'x driver result" where
  "valid_pre e pk d =
     (if debug_mode e = DBG_EXPENSIVE then
        and_then (returns (pk_checkheap pk (sys d))) (\<lambda>s. check_all e (d\<lparr>sys := s\<rparr>) (ranges d))
      else Inr d)"

definition valid_alloc :: "env \<Rightarrow> 'x pkg \<Rightarrow> 'x driver \<Rightarrow> int \<Rightarrow> u64 \<Rightarrow> (bool \<times> 'x driver) result" where
  "valid_alloc e pk d ix sz =
     and_then (returns (pk_malloc pk (sys d) sz)) (\<lambda>(p, s).
       let d1 = d\<lparr>sys := s\<rparr> in
       if p = 0 then Inr (False, malloc_error d1 Malloc_failed)
       else and_then (add_range e d1 p (size_to_int sz) ix) (\<lambda>(ok, d2).
         if \<not> ok then Inr (False, d2)
         else and_then (set_block d2 ix p) (\<lambda>d3.
              and_then (set_size d3 ix sz) (\<lambda>d4.
              and_then (randomize_block e d4 ix) (\<lambda>d5. Inr (True, d5))))))"

definition valid_realloc :: "env \<Rightarrow> 'x pkg \<Rightarrow> 'x driver \<Rightarrow> int \<Rightarrow> u64 \<Rightarrow> (bool \<times> 'x driver) result" where
  "valid_realloc e pk d ix sz =
     and_then (check_index e d ix) (\<lambda>d0.
     and_then (array_get (blocks (trace d0)) ix) (\<lambda>oldp.
     and_then (returns (pk_realloc pk (sys d0) oldp sz)) (\<lambda>(newp, s).
       let d1 = d0\<lparr>sys := s\<rparr> in
       if newp = 0 \<and> sz \<noteq> 0 then Inr (False, malloc_error d1 Realloc_failed)
       else if newp \<noteq> 0 \<and> sz = 0 then Inr (False, malloc_error d1 Realloc_zero_not_null)
       else
         let d2 = d1\<lparr>ranges := remove_range (ranges d1) oldp\<rparr> in
         and_then (if sz > 0 then add_range e d2 newp (size_to_int sz) ix else Inr (True, d2))
           (\<lambda>(ok, d3).
             if \<not> ok then Inr (False, d3)
             else and_then (set_block d3 ix newp) (\<lambda>d4.
               and_then (array_get (block_sizes (trace d4)) ix) (\<lambda>old.
               and_then (if sz < old then set_size d4 ix sz else Inr d4) (\<lambda>d5.
               and_then (check_index e d5 ix) (\<lambda>d6.
               and_then (set_size d6 ix sz) (\<lambda>d7.
               and_then (randomize_block e d7 ix) (\<lambda>d8. Inr (True, d8)))))))))))"

definition valid_free :: "env \<Rightarrow> 'x pkg \<Rightarrow> 'x driver \<Rightarrow> int \<Rightarrow> 'x driver result" where
  "valid_free e pk d ix =
     and_then (check_index e d ix) (\<lambda>d0.
       if ix = -1 then Inr (d0\<lparr>sys := pk_free pk (sys d0) 0\<rparr>)
       else and_then (array_get (blocks (trace d0)) ix) (\<lambda>p.
         Inr (d0\<lparr>ranges := remove_range (ranges d0) p, sys := pk_free pk (sys d0) p\<rparr>)))"

definition valid_op :: "env \<Rightarrow> 'x pkg \<Rightarrow> 'x driver \<Rightarrow> traceop_t \<Rightarrow> (bool \<times> 'x driver) result" where
  "valid_op e pk d t =
     and_then (valid_pre e pk d) (\<lambda>d0.
       case op_type t of
         ALLOC \<Rightarrow> valid_alloc e pk d0 (op_index t) (op_size t)
       | REALLOC \<Rightarrow> valid_realloc e pk d0 (op_index t) (op_size t)
       | FREE \<Rightarrow> and_then (valid_free e pk d0 (op_index t)) (\<lambda>d1. Inr (True, d1)))"

fun valid_loop :: "env \<Rightarrow> 'x pkg \<Rightarrow> 'x driver \<Rightarrow> traceop_t list \<Rightarrow> (bool \<times> 'x driver) result" where
  "valid_loop e pk d [] = Inr (True, d)"
| "valid_loop e pk d (t # ts) =
     and_then (valid_op e pk d t) (\<lambda>(ok, d1). if ok then valid_loop e pk d1 ts else Inr (False, d1))"

definition eval_mm_valid :: "env \<Rightarrow> 'x pkg \<Rightarrow> 'x driver \<Rightarrow> (bool \<times> 'x driver) result" where
  "eval_mm_valid e pk d =
     (let d1 = clear_ranges (d\<lparr>sys := mem_reset_brk (sys d)\<rparr>);
          d2 = d1\<lparr>trace := reinit_trace (trace d1)\<rparr>
      in case pk_init pk (sys d2) of (r, s) \<Rightarrow>
        let d3 = d2\<lparr>sys := s\<rparr> in
        if r < 0 then Inr (False, malloc_error d3 Init_failed)
        else valid_loop e pk d3 (ops (trace d3)))"

end
