(* ===== verification/Mm.thy ===== *)
theory Mm
  imports Memlib
begin

section \<open>The allocator of malloclab-handout/mm.c\<close>

text \<open>
  An implicit free list with boundary tags. Every block starts with a 4-byte header and ends
  with a 4-byte footer holding its size (a multiple of 8) and, in bit 0, whether it is
  allocated; a block pointer is the address after the header. A prologue block of 8 bytes and
  an epilogue header of size 0 delimit the heap.

  The definitions follow the C text: the macros read and write the bytes of the simulated
  heap, \<open>size_t\<close> is a 64-bit word, the stored tags are 32-bit words, and a \<open>size_t\<close> handed to
  \<open>mem_sbrk(int)\<close> is truncated. \<open>find_fit\<close> and \<open>mm_checkheap\<close> are loops that a corrupted heap
  could keep from ending, so they (and \<open>malloc\<close>) return an option, \<open>None\<close> for no return.
  Debug output is not modelled.
\<close>

record mm = memsys +
  heap_head :: addr

subsection \<open>Macros\<close>

definition WSIZE :: int where "WSIZE = 4"
definition DSIZE :: int where "DSIZE = 8"
definition CHUNKSIZE :: u64 where "CHUNKSIZE = push_bit 12 1"

definition ALIGN :: "u64 \<Rightarrow> u64" where
  "ALIGN p = (p + (8 - 1)) AND NOT 7"

definition PACK :: "u64 \<Rightarrow> u64 \<Rightarrow> u64" where
  "PACK sz alloc = sz OR alloc"

definition PUT :: "bytes \<Rightarrow> addr \<Rightarrow> u64 \<Rightarrow> bytes" where
  "PUT m p val = store32 m p (ucast val)"

definition GET :: "bytes \<Rightarrow> addr \<Rightarrow> u32" where
  "GET m p = load32 m p"

definition GETSIZE :: "bytes \<Rightarrow> addr \<Rightarrow> u32" where
  "GETSIZE m p = GET m p AND NOT 7"

definition GETALLOC :: "bytes \<Rightarrow> addr \<Rightarrow> u32" where
  "GETALLOC m p = GET m p AND 1"

definition HDRP :: "addr \<Rightarrow> addr" where
  "HDRP p = p - WSIZE"

definition FTRP :: "bytes \<Rightarrow> addr \<Rightarrow> addr" where
  "FTRP m p = p + uint (GETSIZE m (HDRP p)) - DSIZE"

definition NEXT_BLKP :: "bytes \<Rightarrow> addr \<Rightarrow> addr" where
  "NEXT_BLKP m p = p + uint (GETSIZE m (HDRP p))"

definition PREV_BLKP :: "bytes \<Rightarrow> addr \<Rightarrow> addr" where
  "PREV_BLKP m p = p - uint (GETSIZE m (p - DSIZE))"

subsection \<open>Operations\<close>

definition coalesce :: "bytes \<Rightarrow> addr \<Rightarrow> addr \<times> bytes" where
  "coalesce m bp =
     (let sz = ucast (GETSIZE m (HDRP bp)) :: u64;
          prev = PREV_BLKP m bp;
          nxt = NEXT_BLKP m bp;
          prevA = GETALLOC m (HDRP prev);
          nextA = GETALLOC m (HDRP nxt)
      in if prevA = 1 \<and> nextA = 1 then (bp, m)
         else if prevA = 0 \<and> nextA = 1 then
           (let newSize = ucast (GETSIZE m (HDRP prev)) + sz;
                m1 = PUT m (HDRP prev) (PACK newSize 0);
                m2 = PUT m1 (FTRP m1 prev) (PACK newSize 0)
            in (prev, m2))
         else if prevA = 1 \<and> nextA = 0 then
           (let newSize = ucast (GETSIZE m (HDRP prev)) + sz;
                m1 = PUT m (HDRP bp) (PACK newSize 0);
                m2 = PUT m1 (FTRP m1 bp) (PACK newSize 0)
            in (bp, m2))
         else if prevA = 0 \<and> nextA = 0 then
           (let newSize = ucast (GETSIZE m (HDRP prev)) + ucast (GETSIZE m (HDRP nxt)) + sz;
                m1 = PUT m (HDRP prev) (PACK newSize 0);
                m2 = PUT m1 (FTRP m1 prev) (PACK newSize 0)
            in (prev, m2))
         else (bp, m))"

definition expend_heap :: "(nat \<Rightarrow> int \<Rightarrow> bool) \<Rightarrow> mm \<Rightarrow> u64 \<Rightarrow> addr \<times> mm" where
  "expend_heap sb s sz0 =
     (let sz = ALIGN sz0 in
      case mem_sbrk sb s (size_to_int sz) of (bp, s1) \<Rightarrow>
        if bp = -1 then (0, s1)
        else
          let m1 = PUT (store s1) (HDRP bp) (PACK sz 0);
              m2 = PUT m1 (FTRP m1 bp) (PACK sz 0);
              m3 = PUT m2 (HDRP (NEXT_BLKP m2 bp)) (PACK 0 1);
              (bp', m4) = coalesce m3 bp
          in (bp', s1\<lparr>store := m4\<rparr>))"

definition mm_init :: "(nat \<Rightarrow> int \<Rightarrow> bool) \<Rightarrow> mm \<Rightarrow> int \<times> mm" where
  "mm_init sb s =
     (case mem_sbrk sb s (4 * WSIZE) of (h, s1) \<Rightarrow>
        if h = -1 then (-1, s1\<lparr>heap_head := h\<rparr>)
        else
          let m1 = PUT (store s1) h 0;
              m2 = PUT m1 (h + WSIZE) (PACK 8 1);
              m3 = PUT m2 (h + WSIZE * 2) (PACK 8 1);
              m4 = PUT m3 (h + WSIZE * 3) (PACK 0 1);
              s2 = s1\<lparr>store := m4, heap_head := h + WSIZE * 2\<rparr>;
              (bp, s3) = expend_heap sb s2 CHUNKSIZE
          in if bp = 0 then (-1, s3) else (0, s3))"

definition place :: "bytes \<Rightarrow> addr \<Rightarrow> u64 \<Rightarrow> bytes" where
  "place m bp sz =
     (let block_size = ucast (GETSIZE m (HDRP bp)) :: u64 in
      if block_size < sz then m
      else if block_size - sz \<le> 8 then PUT m (HDRP bp) (PACK block_size 1)
      else
        let m1 = PUT m (HDRP bp) (PACK sz 1);
            m2 = PUT m1 (FTRP m1 bp) (PACK sz 1);
            m3 = PUT m2 (HDRP (NEXT_BLKP m2 bp)) (PACK (block_size - sz) 0);
            m4 = PUT m3 (FTRP m3 (NEXT_BLKP m3 bp)) (PACK (block_size - sz) 0)
        in m4)"

partial_function (option) find_fit_loop :: "bytes \<Rightarrow> u64 \<Rightarrow> addr \<Rightarrow> addr option" where
  "find_fit_loop m sz cur_p =
     (if 0 < GETSIZE m (HDRP cur_p) then
        if sz \<le> ucast (GETSIZE m (HDRP cur_p)) \<and> GETALLOC m (HDRP cur_p) = 0
        then Some cur_p
        else find_fit_loop m sz (NEXT_BLKP m cur_p)
      else Some 0)"

definition find_fit :: "mm \<Rightarrow> u64 \<Rightarrow> addr option" where
  "find_fit s sz = find_fit_loop (store s) sz (NEXT_BLKP (store s) (heap_head s))"

definition asize_of :: "u64 \<Rightarrow> u64" where
  "asize_of sz = 8 * ((sz + 8 + (8 - 1)) div 8)"

definition malloc :: "(nat \<Rightarrow> int \<Rightarrow> bool) \<Rightarrow> mm \<Rightarrow> u64 \<Rightarrow> (addr \<times> mm) option" where
  "malloc sb s sz =
     (if sz = 0 then Some (0, s)
      else
        let asize = asize_of sz in
        case find_fit s asize of
          None \<Rightarrow> None
        | Some bp \<Rightarrow>
            if bp \<noteq> 0 then Some (bp, s\<lparr>store := place (store s) bp asize\<rparr>)
            else
              let extendSize = (if asize > CHUNKSIZE then asize else CHUNKSIZE);
                  (bp1, s1) = expend_heap sb s extendSize
              in if bp1 = 0 then Some (0, s1)
                 else Some (bp1, s1\<lparr>store := place (store s1) bp1 asize\<rparr>))"

definition free :: "mm \<Rightarrow> addr \<Rightarrow> mm" where
  "free s ptr =
     (if ptr = 0 then s
      else
        let m = store s;
            sz = ucast (GETSIZE m (HDRP ptr)) :: u64;
            m1 = PUT m (HDRP ptr) (PACK sz 0);
            m2 = PUT m1 (FTRP m1 ptr) (PACK sz 0)
        in s\<lparr>store := snd (coalesce m2 ptr)\<rparr>)"

definition realloc :: "mm \<Rightarrow> addr \<Rightarrow> u64 \<Rightarrow> addr \<times> mm" where
  "realloc s oldptr sz = (0, s)"

definition calloc :: "mm \<Rightarrow> u64 \<Rightarrow> u64 \<Rightarrow> addr \<times> mm" where
  "calloc s nmemb sz = (0, s)"

definition in_heap :: "mm \<Rightarrow> addr \<Rightarrow> bool" where
  "in_heap s p \<longleftrightarrow> p \<le> mem_heap_hi s \<and> p \<ge> mem_heap_lo s"

definition aligned :: "addr \<Rightarrow> bool" where
  "aligned p \<longleftrightarrow> ALIGN (word_of_int p) = word_of_int p"

text \<open>\<open>mm_checkheap\<close> walks the blocks to the epilogue; \<open>Some ()\<close> is its return.\<close>

partial_function (option) checkheap_loop :: "bytes \<Rightarrow> addr \<Rightarrow> unit option" where
  "checkheap_loop m cur_p =
     (if GETSIZE m (HDRP cur_p) = 0 then Some ()
      else checkheap_loop m (cur_p + uint (GETSIZE m (HDRP cur_p))))"

definition mm_checkheap :: "mm \<Rightarrow> unit option" where
  "mm_checkheap s = checkheap_loop (store s) (heap_head s)"

end
