(* ===== verification/Mm_Heap.thy ===== *)
theory Mm_Heap
  imports Mm
begin

section \<open>Boundary tags and chains of blocks\<close>

text \<open>
  The abstract view of the heap of \<open>mm.c\<close>: a list of blocks \<open>(size, allocated)\<close> laid out one
  after the other, each with its header and footer in memory. The lemmas say how the macros
  read such a chain, which writes leave it alone, and how chains split and join.
\<close>

subsection \<open>Tags\<close>

definition tag :: "int \<Rightarrow> bool \<Rightarrow> u32" where
  "tag s a = word_of_int (s + (if a then 1 else 0))"

lemma low_bits_multiple_8: "8 dvd (s::int) \<Longrightarrow> n < 3 \<Longrightarrow> \<not> bit s n"
proof -
  assume "8 dvd s" and n: "n < 3"
  then obtain t where "s = push_bit 3 t"
    by (auto simp: push_bit_eq_mult dvd_def)
  with n show ?thesis by (simp add: bit_push_bit_iff)
qed

lemma bit_multiple_8: "8 dvd (s::int) \<Longrightarrow> bit s n \<Longrightarrow> 3 \<le> n"
  by (metis low_bits_multiple_8 not_less)

lemma add_flag_eq_or: "8 dvd s \<Longrightarrow> s + (if a then 1 else 0) = s OR (if a then 1 else 0 :: int)"
  by (rule disjunctive_add_eq_or, rule bit_eqI)
    (auto simp: bit_and_iff bit_1_iff dest: bit_multiple_8)

lemma bit_tag:
  "8 dvd s \<Longrightarrow> bit (tag s a) n \<longleftrightarrow> n < 32 \<and> (bit s n \<or> a \<and> n = 0)"
  by (auto simp: tag_def add_flag_eq_or bit_word_of_int_iff bit_or_iff bit_1_iff)

lemma bit_minus_8: "bit (- 8 :: 'a::len word) n \<longleftrightarrow> n < LENGTH('a) \<and> 3 \<le> n"
proof -
  have "(- 8 :: 'a word) = NOT (mask 3)"
    by (simp add: mask_eq_exp_minus_1 not_eq_complement)
  then show ?thesis
    by (simp only: bit_not_iff bit_mask_iff) auto
qed

lemma tag_size: "8 dvd s \<Longrightarrow> tag s a AND - 8 = word_of_int s"
proof (rule bit_word_eqI)
  fix n
  assume s: "8 dvd s" and n: "n < LENGTH(32)"
  have "bit s n \<or> a \<and> n = 0 \<Longrightarrow> 3 \<le> n \<Longrightarrow> bit s n" by auto
  with n bit_multiple_8 [OF s, of n] show "bit (tag s a AND - 8) n = bit (word_of_int s :: u32) n"
    unfolding bit_and_iff bit_minus_8 bit_tag [OF s] bit_word_of_int_iff by auto
qed

lemma tag_alloc: "8 dvd s \<Longrightarrow> tag s a AND 1 = (if a then 1 else 0)"
  by (rule bit_word_eqI)
    (auto simp: bit_and_iff bit_tag bit_1_iff dest: bit_multiple_8)

lemma uint_tag_size:
  "8 dvd s \<Longrightarrow> 0 \<le> s \<Longrightarrow> s < 2 ^ 32 \<Longrightarrow> uint (tag s a AND - 8) = s"
  by (simp add: tag_size uint_word_of_int take_bit_int_eq_self)

lemma ucast_tag_size:
  "8 dvd s \<Longrightarrow> 0 \<le> s \<Longrightarrow> s < 2 ^ 32 \<Longrightarrow> ucast (tag s a AND - 8) = (word_of_int s :: u64)"
  by (rule word_uint_eqI)
    (simp add: uint_tag_size unsigned_ucast_eq uint_word_of_int take_bit_int_eq_self)

lemma ucast_PACK: "8 dvd s \<Longrightarrow> ucast (PACK (word_of_int s) (if a then 1 else 0)) = tag s a"
  by (rule bit_word_eqI)
    (auto simp: PACK_def bit_ucast_iff bit_or_iff bit_word_of_int_iff bit_1_iff bit_tag)

lemmas ucast_PACK_free = ucast_PACK [where a = False, simplified]
lemmas ucast_PACK_used = ucast_PACK [where a = True, simplified]

subsection \<open>The macros on memory\<close>

lemma GET_PUT_same [mem_simps]: "q = p \<Longrightarrow> GET (PUT m p v) q = ucast v"
  by (simp add: GET_def PUT_def mem_simps)

lemma GET_PUT_other [mem_simps]:
  "q + 4 \<le> p \<or> p + 4 \<le> q \<Longrightarrow> GET (PUT m p v) q = GET m q"
  by (simp add: GET_def PUT_def mem_simps)

lemma PUT_other [mem_simps]: "a < p \<or> p + 4 \<le> a \<Longrightarrow> PUT m p v a = m a"
  by (simp add: PUT_def mem_simps)

lemma GET_cong: "(\<And>a. p \<le> a \<Longrightarrow> a < p + 4 \<Longrightarrow> m a = m' a) \<Longrightarrow> GET m p = GET m' p"
  unfolding GET_def by (rule load32_cong)

lemmas macro_defs = HDRP_def FTRP_def NEXT_BLKP_def PREV_BLKP_def GETSIZE_def GETALLOC_def
  WSIZE_def DSIZE_def

subsection \<open>One block\<close>

definition size_ok :: "int \<Rightarrow> bool" where
  "size_ok s \<longleftrightarrow> 8 dvd s \<and> 8 \<le> s \<and> s < 2 ^ 32"

lemma size_ok_D [dest]: "size_ok s \<Longrightarrow> 8 dvd s" "size_ok s \<Longrightarrow> 8 \<le> s" "size_ok s \<Longrightarrow> s < 2 ^ 32"
  by (auto simp: size_ok_def)

definition blk_ok :: "bytes \<Rightarrow> addr \<Rightarrow> int \<Rightarrow> bool \<Rightarrow> bool" where
  "blk_ok m p s a \<longleftrightarrow> size_ok s \<and> GET m (p - 4) = tag s a
     \<and> GET m (p + s - 8) AND - 8 = word_of_int s"

lemma blk_okD:
  assumes "blk_ok m p s a"
  shows "size_ok s" "GET m (p - 4) = tag s a" "GET m (p + s - 8) AND - 8 = word_of_int s"
  using assms by (auto simp: blk_ok_def)

lemma blk_reads:
  assumes "blk_ok m p s a"
  shows "uint (GETSIZE m (HDRP p)) = s"
    and "ucast (GETSIZE m (HDRP p)) = (word_of_int s :: u64)"
    and "GETALLOC m (HDRP p) = (if a then 1 else 0)"
    and "NEXT_BLKP m p = p + s"
    and "FTRP m p = p + s - 8"
    and "PREV_BLKP m (p + s) = p"
proof -
  have s: "8 dvd s" "0 \<le> s" "s < 2 ^ 32"
    using assms by (auto simp: blk_ok_def size_ok_def)
  note hd = blk_okD(2,3) [OF assms]
  have w: "uint (word_of_int s :: u32) = s"
    using s by (simp add: uint_word_of_int take_bit_int_eq_self)
  show "uint (GETSIZE m (HDRP p)) = s" "NEXT_BLKP m p = p + s" "FTRP m p = p + s - 8"
    using s hd by (simp_all add: macro_defs uint_tag_size)
  show "ucast (GETSIZE m (HDRP p)) = (word_of_int s :: u64)"
    using s hd by (simp add: macro_defs ucast_tag_size)
  show "GETALLOC m (HDRP p) = (if a then 1 else 0)"
    using s hd by (simp add: macro_defs tag_alloc)
  show "PREV_BLKP m (p + s) = p"
    using hd w by (simp add: macro_defs)
qed

lemma blk_ok_cong:
  assumes "\<And>a. p - 4 \<le> a \<Longrightarrow> a < p + s - 4 \<Longrightarrow> m a = m' a"
  shows "blk_ok m p s a \<longleftrightarrow> blk_ok m' p s a"
proof (cases "size_ok s")
  case True
  then have "GET m (p - 4) = GET m' (p - 4)" "GET m (p + s - 8) = GET m' (p + s - 8)"
    using assms by (auto intro!: GET_cong simp: size_ok_def)
  then show ?thesis by (simp add: blk_ok_def)
qed (simp add: blk_ok_def)

text \<open>Writing a header and a footer.\<close>

definition flag :: "bool \<Rightarrow> u64" where
  "flag a = (if a then 1 else 0)"

definition put_block :: "bytes \<Rightarrow> addr \<Rightarrow> int \<Rightarrow> bool \<Rightarrow> bytes" where
  "put_block m p s a =
     PUT (PUT m (p - 4) (PACK (word_of_int s) (flag a)))
       (p + s - 8) (PACK (word_of_int s) (flag a))"

lemma ucast_PACK_flag: "8 dvd s \<Longrightarrow> ucast (PACK (word_of_int s) (flag a)) = tag s a"
  by (simp add: flag_def ucast_PACK)

lemma put_block_ok: "size_ok s \<Longrightarrow> blk_ok (put_block m p s a) p s a"
proof -
  assume "size_ok s"
  then have s: "8 dvd s" "8 \<le> s" by auto
  then show ?thesis
    using \<open>size_ok s\<close> by (simp add: blk_ok_def put_block_def mem_simps ucast_PACK_flag tag_size)
qed

lemma put_block_other [mem_simps]:
  "8 \<le> s \<Longrightarrow> a < p - 4 \<or> p + s - 4 \<le> a \<Longrightarrow> put_block m p s b a = m a"
  by (auto simp: put_block_def mem_simps)

lemma put_block_payload [mem_simps]:
  "8 \<le> s \<Longrightarrow> p \<le> a \<Longrightarrow> a < p + s - 8 \<Longrightarrow> put_block m p s b a = m a"
  by (simp add: put_block_def mem_simps)

text \<open>The C text writes the footer through \<open>FTRP\<close>, which reads the header just written.\<close>

lemma put_block_macros:
  assumes "size_ok s" and "v = PACK (word_of_int s) (flag a)"
  shows "PUT (PUT m (HDRP p) v) (FTRP (PUT m (HDRP p) v) p) v = put_block m p s a"
proof -
  have "8 dvd s" "0 \<le> s" "s < 2 ^ 32"
    using assms(1) by (auto simp: size_ok_def)
  then show ?thesis
    by (simp add: assms(2) put_block_def macro_defs mem_simps ucast_PACK_flag uint_tag_size)
qed

subsection \<open>Chains\<close>

type_synonym blocks = "(int \<times> bool) list"

definition span :: "blocks \<Rightarrow> int" where
  "span bs = sum_list (map fst bs)"

lemma span_simps [simp]:
  "span [] = 0" "span ((s, a) # bs) = s + span bs" "span (xs @ ys) = span xs + span ys"
  by (simp_all add: span_def)

fun chain :: "bytes \<Rightarrow> addr \<Rightarrow> blocks \<Rightarrow> bool" where
  "chain m p [] = True"
| "chain m p ((s, a) # bs) = (blk_ok m p s a \<and> chain m (p + s) bs)"

lemma chain_append [simp]:
  "chain m p (xs @ ys) \<longleftrightarrow> chain m p xs \<and> chain m (p + span xs) ys"
  by (induction m p xs rule: chain.induct) (auto simp: add.assoc)

lemma chain_size_ok: "chain m p bs \<Longrightarrow> (s, a) \<in> set bs \<Longrightarrow> size_ok s"
  by (induction m p bs rule: chain.induct) (auto dest: blk_okD)

lemma span_nonneg: "chain m p bs \<Longrightarrow> 0 \<le> span bs"
  by (induction m p bs rule: chain.induct) (auto simp: blk_ok_def size_ok_def)

lemma span_multiple_8: "chain m p bs \<Longrightarrow> 8 dvd span bs"
  by (induction m p bs rule: chain.induct) (auto simp: blk_ok_def size_ok_def)

lemma chain_cong:
  "(\<And>a. p - 4 \<le> a \<Longrightarrow> a < p + span bs - 4 \<Longrightarrow> m a = m' a) \<Longrightarrow> chain m p bs \<Longrightarrow> chain m' p bs"
proof (induction bs arbitrary: p)
  case Nil
  then show ?case by simp
next
  case (Cons b bs)
  obtain s a where b: "b = (s, a)" by force
  with Cons.prems have blk: "blk_ok m p s a" and rest: "chain m (p + s) bs" by auto
  have s: "8 \<le> s" and n: "0 \<le> span bs"
    using blk span_nonneg [OF rest] by (auto dest: blk_okD)
  have "blk_ok m' p s a"
    using blk Cons.prems(1) s n b by (subst blk_ok_cong [of p s m' m]) auto
  moreover have "chain m' (p + s) bs"
    using Cons.prems(1) s n b rest by (intro Cons.IH) auto
  ultimately show ?case by (simp add: b)
qed

lemma chain_PUT:
  "chain m p bs \<Longrightarrow> x + 4 \<le> p - 4 \<or> p + span bs - 4 \<le> x \<Longrightarrow> chain (PUT m x v) p bs"
  by (erule chain_cong [rotated]) (auto simp: mem_simps)

lemma chain_put_block_frame:
  "chain m p bs \<Longrightarrow> 8 \<le> s \<Longrightarrow> q + s \<le> p \<or> p + span bs \<le> q \<Longrightarrow>
     chain (put_block m q s a) p bs"
  by (erule chain_cong [rotated]) (auto simp: mem_simps)

text \<open>Replacing the blocks of a stretch of the chain by one block of the same extent.\<close>

lemma chain_put_block:
  assumes "chain m p xs" and "q = p + span xs" and "size_ok s" and "chain m (q + s) zs"
  shows "chain (put_block m q s a) p (xs @ (s, a) # zs)"
proof -
  have "8 \<le> s" using assms(3) by auto
  with assms show ?thesis
    by (auto simp: put_block_ok intro!: chain_put_block_frame)
qed

lemma chain_put_hdr:
  assumes "chain m p (xs @ (s, b) # zs)" and "q = p + span xs"
  shows "chain (PUT m (q - 4) (PACK (word_of_int s) (flag a))) p (xs @ (s, a) # zs)"
proof -
  let ?m = "PUT m (q - 4) (PACK (word_of_int s) (flag a))"
  have blk: "blk_ok m q s b" and xs: "chain m p xs" and zs: "chain m (q + s) zs"
    using assms by auto
  then have s: "8 dvd s" "8 \<le> s" by (auto dest: blk_okD)
  have "blk_ok ?m q s a"
    using blk s by (auto simp: blk_ok_def mem_simps ucast_PACK_flag)
  moreover have "chain ?m p xs" "chain ?m (q + s) zs"
    using xs zs s assms(2) by (auto intro: chain_PUT)
  ultimately show ?thesis using assms(2) by simp
qed

end
