(* ===== verification/Mm_Correct.thy ===== *)
theory Mm_Correct
  imports Mm_Heap
begin

section \<open>Correctness of the allocator of mm.c\<close>

text \<open>
  The heap invariant, the effect of every operation of \<open>mm.c\<close> on the abstract list of blocks,
  and the two places where the code leaves the specification: the "next block is free" case of
  \<open>coalesce\<close> and requests whose rounded size does not fit the conversions.
\<close>

definition heap_ok :: "mm \<Rightarrow> blocks \<Rightarrow> bool" where
  "heap_ok s bs \<longleftrightarrow> brk_ok s \<and> 8 dvd heap s \<and> heap_head s = heap s + 8
     \<and> chain (store s) (heap_head s) ((8, True) # bs)
     \<and> mem_brk s = heap_head s + 8 + span bs
     \<and> GET (store s) (mem_brk s - 4) = tag 0 True"

subsection \<open>Words as numbers\<close>

lemma word64_le_iff:
  "0 \<le> a \<Longrightarrow> a < 2 ^ 64 \<Longrightarrow> 0 \<le> b \<Longrightarrow> b < 2 ^ 64 \<Longrightarrow>
     (word_of_int a :: u64) \<le> word_of_int b \<longleftrightarrow> a \<le> b"
  by (simp add: word_le_def uint_word_of_int take_bit_int_eq_self)

lemma word64_less_iff:
  "0 \<le> a \<Longrightarrow> a < 2 ^ 64 \<Longrightarrow> 0 \<le> b \<Longrightarrow> b < 2 ^ 64 \<Longrightarrow>
     (word_of_int a :: u64) < word_of_int b \<longleftrightarrow> a < b"
  by (simp add: word_less_def uint_word_of_int take_bit_int_eq_self)

lemma bit_seven_int: "bit (7::int) n \<longleftrightarrow> n < 3"
proof -
  have "(7::int) = mask 3" by (simp add: mask_eq_exp_minus_1)
  then show ?thesis by (simp only: bit_mask_iff) simp
qed

lemma ALIGN_multiple_8:
  assumes "8 dvd s"
  shows "ALIGN (word_of_int s) = word_of_int s"
proof -
  have s7: "s + 7 = s OR 7"
    by (rule disjunctive_add_eq_or, rule bit_eqI)
      (auto simp: bit_and_iff bit_seven_int dest: bit_multiple_8 [OF assms])
  have "ALIGN (word_of_int s) = word_of_int (s + 7) AND - 8"
    by (simp add: ALIGN_def wi_hom_add)
  also have "\<dots> = word_of_int s"
  proof (rule bit_word_eqI)
    fix n assume "n < LENGTH(64)"
    with bit_multiple_8 [OF assms, of n]
    show "bit (word_of_int (s + 7) AND - 8 :: u64) n = bit (word_of_int s :: u64) n"
      unfolding bit_and_iff bit_minus_8 bit_word_of_int_iff s7 bit_or_iff bit_seven_int by auto
  qed
  finally show ?thesis .
qed

definition asize :: "int \<Rightarrow> int" where
  "asize n = 8 * ((n + 15) div 8)"

lemma asize_bounds: "n + 8 \<le> asize n" "asize n \<le> n + 15" "8 dvd asize n"
  by (simp_all add: asize_def)

lemma asize_of_small:
  assumes "uint sz < 2 ^ 64 - 15"
  shows "asize_of sz = word_of_int (asize (uint sz))"
proof -
  have u: "uint (sz + 15) = uint sz + 15"
    using assms by (simp add: uint_word_ariths mod_pos_pos_trivial)
  have "0 \<le> uint sz" by simp
  then have "0 \<le> asize (uint sz)"
    using asize_bounds(1) [of "uint sz"] by linarith
  moreover have "asize (uint sz) < 2 ^ 64"
    using assms asize_bounds(2) [of "uint sz"] by linarith
  ultimately have "uint (8 * ((sz + 15) div 8)) = asize (uint sz)"
    by (simp add: uint_word_ariths uint_div_distrib u asize_def mod_pos_pos_trivial)
  then have "8 * ((sz + 15) div 8) = (word_of_int (asize (uint sz)) :: u64)"
    by (metis word_of_int_uint)
  then show ?thesis by (simp add: asize_of_def add.assoc)
qed

subsection \<open>First fit\<close>

fun first_fit :: "int \<Rightarrow> addr \<Rightarrow> blocks \<Rightarrow> addr" where
  "first_fit n p [] = 0"
| "first_fit n p ((s, a) # bs) = (if n \<le> s \<and> \<not> a then p else first_fit n (p + s) bs)"

lemma find_fit_loop_chain:
  assumes "0 \<le> n" and "n < 2 ^ 64"
  shows "chain m p bs \<Longrightarrow> GET m (p + span bs - 4) = tag 0 True \<Longrightarrow>
    find_fit_loop m (word_of_int n) p = Some (first_fit n p bs)"
proof (induction bs arbitrary: p)
  case Nil
  then have "GETSIZE m (HDRP p) = 0"
    by (simp add: macro_defs tag_size)
  then show ?case by (subst find_fit_loop.simps) simp
next
  case (Cons b bs)
  obtain s a where b: "b = (s, a)" by force
  with Cons.prems have blk: "blk_ok m p s a" and rest: "chain m (p + s) bs" by auto
  then have s: "8 \<le> s" "s < 2 ^ 32" by (auto simp: blk_ok_def size_ok_def)
  have pos: "0 < GETSIZE m (HDRP p)"
    using blk_reads(1) [OF blk] s by (simp add: word_less_def)
  have le: "word_of_int n \<le> (ucast (GETSIZE m (HDRP p)) :: u64) \<longleftrightarrow> n \<le> s"
    using s assms by (simp add: blk_reads(2) [OF blk] word64_le_iff)
  have "find_fit_loop m (word_of_int n) (p + s) = Some (first_fit n (p + s) bs)"
    using Cons.prems(2) rest b by (intro Cons.IH) (simp_all add: add.assoc)
  with pos le show ?case
    by (subst find_fit_loop.simps) (auto simp: b blk_reads(3,4) [OF blk])
qed

lemma first_fit_cases:
  assumes "chain m p bs" and "0 < p"
  obtains (none) "first_fit n p bs = 0" and "\<forall>(s, a) \<in> set bs. a \<or> s < n"
  | (found) xs s zs where "bs = xs @ (s, False) # zs" and "n \<le> s"
      and "first_fit n p bs = p + span xs" and "\<forall>(s, a) \<in> set xs. a \<or> s < n"
  using assms
proof (induction bs arbitrary: p thesis)
  case Nil
  then show ?case by simp
next
  case (Cons b bs)
  obtain s a where b: "b = (s, a)" by force
  with Cons.prems have blk: "blk_ok m p s a" and rest: "chain m (p + s) bs" by auto
  then have s: "8 \<le> s" by (auto dest: blk_okD)
  show ?case
  proof (cases "n \<le> s \<and> \<not> a")
    case True
    with b show ?thesis using Cons.prems(2) [of "[]" s bs] by simp
  next
    case False
    show ?thesis
    proof (rule Cons.IH [OF _ _ rest])
      assume "first_fit n (p + s) bs = 0" "\<forall>(s, a) \<in> set bs. a \<or> s < n"
      with False b show ?thesis by (intro Cons.prems(1)) auto
    next
      fix xs t zs
      assume "bs = xs @ (t, False) # zs" "n \<le> t" "first_fit n (p + s) bs = p + s + span xs"
        "\<forall>(s, a) \<in> set xs. a \<or> s < n"
      with False b show ?thesis
        by (intro Cons.prems(2) [of "b # xs" t zs]) auto
    next
      show "0 < p + s" using Cons.prems(4) s by simp
    qed
  qed
qed

subsection \<open>Placing a block\<close>

definition split_blk :: "int \<Rightarrow> int \<Rightarrow> blocks" where
  "split_blk n b = (if b - n \<le> 8 then [(b, True)] else [(n, True), (b - n, False)])"

lemma span_split_blk [simp]: "span (split_blk n b) = b"
  by (simp add: split_blk_def)

lemma place_eq:
  assumes blk: "blk_ok m q b False" and n: "size_ok n" "n \<le> b"
  shows "place m q (word_of_int n) =
    (if b - n \<le> 8 then PUT m (q - 4) (PACK (word_of_int b) (flag True))
     else put_block (put_block m q n True) (q + n) (b - n) False)"
proof -
  have b: "size_ok b" using blk by (rule blk_okD)
  have lt: "\<not> (word_of_int b :: u64) < word_of_int n"
    using b n by (subst word64_less_iff) (auto simp: size_ok_def)
  have le: "word_of_int b - word_of_int n \<le> (8 :: u64) \<longleftrightarrow> b - n \<le> 8"
    using b n word64_le_iff [of "b - n" 8] by (simp add: size_ok_def)
  show ?thesis
  proof (cases "b - n \<le> 8")
    case True
    with lt le show ?thesis
      by (simp add: place_def Let_def blk_reads(2) [OF blk, unfolded HDRP_def WSIZE_def]
          flag_def HDRP_def WSIZE_def)
  next
    case False
    then have rest: "size_ok (b - n)" using b n by (auto simp: size_ok_def)
    let ?m2 = "put_block m q n True"
    have m2: "PUT (PUT m (HDRP q) (PACK (word_of_int n) 1))
        (FTRP (PUT m (HDRP q) (PACK (word_of_int n) 1)) q) (PACK (word_of_int n) 1) = ?m2"
      by (rule put_block_macros) (simp_all add: n flag_def)
    have nx: "NEXT_BLKP ?m2 q = q + n"
      using put_block_ok [OF n(1)] by (rule blk_reads)
    let ?v = "PACK (word_of_int (b - n)) 0"
    let ?m3 = "PUT ?m2 (HDRP (q + n)) ?v"
    have "blk_ok ?m3 q n True"
      using put_block_ok [OF n(1), of m q True] n(1)
      by (subst blk_ok_cong [of q n _ ?m2]) (auto simp: mem_simps HDRP_def WSIZE_def)
    then have nx3: "NEXT_BLKP ?m3 q = q + n" by (rule blk_reads)
    have "PUT ?m3 (FTRP ?m3 (q + n)) ?v = put_block ?m2 (q + n) (b - n) False"
      by (rule put_block_macros) (simp_all add: rest flag_def)
    with False lt le m2 nx nx3 show ?thesis
      by (simp add: place_def Let_def blk_reads(2) [OF blk])
  qed
qed

lemma chain_place:
  assumes ch: "chain m p (xs @ (b, False) # zs)" and q: "q = p + span xs"
    and n: "size_ok n" "n \<le> b"
  shows "chain (place m q (word_of_int n)) p (xs @ split_blk n b @ zs)"
proof -
  have blk: "blk_ok m q b False" and xs: "chain m p xs" and zs: "chain m (q + b) zs"
    using ch q by auto
  show ?thesis
  proof (cases "b - n \<le> 8")
    case True
    then show ?thesis
      using chain_put_hdr [OF ch q] by (simp add: place_eq [OF blk n] split_blk_def)
  next
    case False
    then have rest: "size_ok (b - n)"
      using blk n by (auto simp: size_ok_def blk_ok_def)
    let ?m = "put_block m q n True"
    have c1: "chain ?m p (xs @ [(n, True)])"
      using chain_put_block [OF xs q n(1), of "[]"] by simp
    have c2: "chain ?m (q + n + (b - n)) zs"
      using zs n by (intro chain_put_block_frame) auto
    have
      "chain (put_block ?m (q + n) (b - n) False) p ((xs @ [(n, True)]) @ (b - n, False) # zs)"
      by (rule chain_put_block [OF c1 _ rest c2]) (simp add: q)
    with False show ?thesis by (simp add: place_eq [OF blk n] split_blk_def)
  qed
qed

text \<open>\<open>place\<close> writes only tags inside the block it is given, and never its payload-to-be.\<close>

lemma place_frame:
  assumes blk: "blk_ok m q b False" and n: "size_ok n" "n \<le> b"
    and a: "a < q - 4 \<or> q + b - 4 \<le> a"
  shows "place m q (word_of_int n) a = m a"
proof -
  have "8 \<le> n" "8 \<le> b" using blk n by (auto dest: blk_okD)
  moreover have "8 \<le> b - n" if "\<not> b - n \<le> 8" using that by simp
  ultimately show ?thesis
    using a n by (auto simp: place_eq [OF blk n] mem_simps)
qed

subsection \<open>Coalescing\<close>

text \<open>The four cases of \<open>coalesce\<close> on a block \<open>(s, False)\<close> at \<open>p\<close> whose left neighbour is
  \<open>(ps, pa)\<close> and whose right neighbour has header \<open>(ns, na)\<close>.\<close>

lemma coalesce_eq:
  assumes prev: "blk_ok m (p - ps) ps pa" and blk: "blk_ok m p s a"
    and nxt: "GET m (p + s - 4) = tag ns na" "8 dvd ns" "0 \<le> ns" "ns < 2 ^ 32"
    and sum: "ps + s + ns < 2 ^ 32"
  shows "coalesce m p =
    (if pa \<and> na then (p, m)
     else if na then (p - ps, put_block m (p - ps) (ps + s) False)
     else if pa then (p, put_block m p (ps + s) False)
     else (p - ps, put_block m (p - ps) (ps + s + ns) False))"
proof -
  have so: "size_ok ps" "size_ok s" using prev blk by (auto dest: blk_okD)
  have pv: "PREV_BLKP m p = p - ps" using blk_reads(6) [OF prev] by simp
  have nx: "NEXT_BLKP m p = p + s" by (rule blk_reads) (rule blk)
  have pA: "GETALLOC m (HDRP (p - ps)) = (if pa then 1 else 0)" by (rule blk_reads) (rule prev)
  have nA: "GETALLOC m (HDRP (p + s)) = (if na then 1 else 0)"
    using nxt by (simp add: macro_defs tag_alloc)
  have sizes: "ucast (GETSIZE m (HDRP (p - ps))) = (word_of_int ps :: u64)"
      "ucast (GETSIZE m (HDRP p)) = (word_of_int s :: u64)"
      "ucast (GETSIZE m (HDRP (p + s))) = (word_of_int ns :: u64)"
    using nxt blk_reads(2) [OF prev] blk_reads(2) [OF blk]
    by (simp_all add: macro_defs ucast_tag_size)
  have s1: "size_ok (ps + s)" and s2: "size_ok (ps + s + ns)"
    using so nxt sum by (auto simp: size_ok_def)
  have w1: "PACK (word_of_int ps + word_of_int s) 0 = PACK (word_of_int (ps + s)) (flag False)"
    by (simp add: flag_def)
  have w2: "PACK (word_of_int ps + word_of_int ns + word_of_int s) 0
      = PACK (word_of_int (ps + s + ns)) (flag False)"
    by (simp add: flag_def add.commute add.left_commute)
  show ?thesis
    by (simp add: coalesce_def Let_def pv nx pA nA sizes w1 w2 put_block_macros [OF s1]
      put_block_macros [OF s2])
qed

subsection \<open>Growing the heap\<close>

definition grow :: "int \<Rightarrow> blocks \<Rightarrow> blocks" where
  "grow n bs =
     (if bs = [] \<or> snd (last bs) then bs @ [(n, False)]
      else butlast bs @ [(fst (last bs) + n, False)])"

lemma grow_snoc:
  "grow n [] = [(n, False)]"
  "grow n (bs @ [(s, True)]) = bs @ [(s, True), (n, False)]"
  "grow n (bs @ [(s, False)]) = bs @ [(s + n, False)]"
  by (simp_all add: grow_def)

text \<open>The memory after the three \<open>PUT\<close>s of \<open>expend_heap\<close>.\<close>

definition new_top :: "bytes \<Rightarrow> addr \<Rightarrow> int \<Rightarrow> bytes" where
  "new_top m bp n = PUT (put_block m bp n False) (bp + n - 4) (PACK 0 1)"

lemma PACK_0_1: "ucast (PACK 0 1) = tag 0 True"
  by (simp add: PACK_def tag_def)

lemma new_top_chain:
  assumes ch: "chain m hh fb" and bp: "bp = hh + span fb" and n: "size_ok n"
  shows "chain (new_top m bp n) hh (fb @ [(n, False)])"
    and "GET (new_top m bp n) (bp + n - 4) = tag 0 True"
proof -
  have "chain (put_block m bp n False) hh (fb @ [(n, False)])"
    using chain_put_block [OF ch bp n, of "[]"] by simp
  then show "chain (new_top m bp n) hh (fb @ [(n, False)])"
    unfolding new_top_def by (rule chain_PUT) (simp add: bp)
  show "GET (new_top m bp n) (bp + n - 4) = tag 0 True"
    by (simp add: new_top_def mem_simps PACK_0_1)
qed

lemma coalesce_new_top:
  assumes ch: "chain m hh (xs @ [(ps, pa)])" and bp: "bp = hh + span xs + ps"
    and n: "size_ok n" and sum: "ps + n < 2 ^ 32"
  shows "coalesce (new_top m bp n) bp =
    (if pa then (bp, new_top m bp n)
     else (bp - ps, put_block (new_top m bp n) (bp - ps) (ps + n) False))"
proof -
  let ?m = "new_top m bp n"
  have c: "chain ?m hh ((xs @ [(ps, pa)]) @ [(n, False)])"
    and e: "GET ?m (bp + n - 4) = tag 0 True"
    using new_top_chain [OF ch _ n, of bp] bp by simp_all
  from c bp have "blk_ok ?m (bp - ps) ps pa" "blk_ok ?m bp n False"
    by (simp_all add: add.assoc)
  from coalesce_eq [OF this e] sum show ?thesis by simp
qed

lemma coalesced_top_chain:
  assumes ch: "chain m hh (xs @ [(ps, pa)])" and bp: "bp = hh + span xs + ps"
    and n: "size_ok n" and sum: "ps + n < 2 ^ 32"
  defines "m' \<equiv> put_block (new_top m bp n) (bp - ps) (ps + n) False"
  shows "chain m' hh (xs @ [(ps + n, False)])" and "GET m' (bp + n - 4) = tag 0 True"
proof -
  have so: "size_ok ps" using ch by (auto dest: blk_okD)
  then have pn: "size_ok (ps + n)" using n sum by (auto simp: size_ok_def)
  have c: "chain (new_top m bp n) hh ((xs @ [(ps, pa)]) @ [(n, False)])"
    and e: "GET (new_top m bp n) (bp + n - 4) = tag 0 True"
    using new_top_chain [OF ch _ n, of bp] bp by simp_all
  from c have xs: "chain (new_top m bp n) hh xs" by simp
  show "chain m' hh (xs @ [(ps + n, False)])"
    unfolding m'_def using chain_put_block [OF xs _ pn, of "bp - ps" "[]"] bp by simp
  have "GET m' (bp + n - 4) = GET (new_top m bp n) (bp + n - 4)"
    unfolding m'_def using pn by (intro GET_cong) (auto simp: mem_simps)
  with e show "GET m' (bp + n - 4) = tag 0 True" by simp
qed

lemma new_top_frame: "8 \<le> n \<Longrightarrow> a < bp - 4 \<Longrightarrow> new_top m bp n a = m a"
  by (simp add: new_top_def mem_simps)

text \<open>The C text of \<open>expend_heap\<close>, for sizes that survive the conversion to \<open>int\<close>.\<close>

lemma expend_heap_unfold:
  assumes n: "size_ok n" "n < 2 ^ 31"
  shows "expend_heap sb s (word_of_int n) =
    (case mem_sbrk sb s n of (bp, s1) \<Rightarrow>
       if bp = -1 then (0, s1)
       else (case coalesce (new_top (store s1) bp n) bp of (bp', m) \<Rightarrow> (bp', s1\<lparr>store := m\<rparr>)))"
proof -
  have al: "ALIGN (word_of_int n) = word_of_int n"
    using n by (intro ALIGN_multiple_8) auto
  have si: "size_to_int (word_of_int n) = n"
    using n by (subst size_to_int_small) (auto simp: size_ok_def uint_word_of_int take_bit_int_eq_self)
  have top: "(let m1 = PUT m (HDRP bp) (PACK (word_of_int n) 0);
      m2 = PUT m1 (FTRP m1 bp) (PACK (word_of_int n) 0);
      m3 = PUT m2 (HDRP (NEXT_BLKP m2 bp)) (PACK 0 1) in m3) = new_top m bp n" for m bp
  proof -
    have m2: "PUT (PUT m (HDRP bp) (PACK (word_of_int n) 0))
        (FTRP (PUT m (HDRP bp) (PACK (word_of_int n) 0)) bp) (PACK (word_of_int n) 0)
        = put_block m bp n False"
      by (rule put_block_macros) (simp_all add: n flag_def)
    have "NEXT_BLKP (put_block m bp n False) bp = bp + n"
      using put_block_ok [OF n(1)] by (rule blk_reads)
    then show ?thesis unfolding Let_def m2 by (simp add: new_top_def HDRP_def WSIZE_def)
  qed
  show ?thesis
    unfolding expend_heap_def Let_def al si top [unfolded Let_def] ..
qed

lemma heap_okD:
  assumes "heap_ok s bs"
  shows "brk_ok s" "8 dvd heap s" "heap_head s = heap s + 8"
    "chain (store s) (heap_head s) ((8, True) # bs)"
    "mem_brk s = heap_head s + 8 + span bs" "GET (store s) (mem_brk s - 4) = tag 0 True"
    "0 \<le> span bs" "span bs \<le> MAX_HEAP" "0 < heap s"
proof -
  show all: "brk_ok s" "8 dvd heap s" "heap_head s = heap s + 8"
    "chain (store s) (heap_head s) ((8, True) # bs)"
    "mem_brk s = heap_head s + 8 + span bs" "GET (store s) (mem_brk s - 4) = tag 0 True"
    using assms by (auto simp: heap_ok_def)
  then show "0 \<le> span bs" by (auto dest: span_nonneg)
  show "span bs \<le> MAX_HEAP" "0 < heap s"
    using all by (auto simp: brk_ok_def)
qed

lemma heap_ok_grown:
  assumes ok: "heap_ok s bs" and n: "size_ok n" and mx: "mem_brk s + n \<le> mem_max_addr s"
    and m: "chain m (heap_head s) ((8, True) # bs')" "span bs' = span bs + n"
      "GET m (mem_brk s + n - 4) = tag 0 True"
  shows "heap_ok (s\<lparr>sbrk_calls := k, mem_brk := mem_brk s + n, store := m\<rparr>) bs'"
  using heap_okD [OF ok] n mx m by (auto simp: heap_ok_def brk_ok_def)

text \<open>What \<open>coalesce\<close> makes of the new top block, whatever the last block was.\<close>

lemma coalesce_grows_used:
  assumes ch: "chain m hh (xs @ [(ps, True)])" and p: "p = hh + span xs + ps"
    and n: "size_ok n" and sum: "ps + n < 2 ^ 32"
  shows "\<exists>m'. coalesce (new_top m p n) p = (p, m') \<and>
    chain m' hh (xs @ [(ps, True), (n, False)]) \<and>
    GET m' (p + n - 4) = tag 0 True \<and> (\<forall>a < p - 4. m' a = m a)"
proof (intro exI conjI allI impI)
  show "coalesce (new_top m p n) p = (p, new_top m p n)"
    using coalesce_new_top [OF ch p n sum] by simp
  show "chain (new_top m p n) hh (xs @ [(ps, True), (n, False)])"
    "GET (new_top m p n) (p + n - 4) = tag 0 True"
    using new_top_chain [OF ch _ n, of p] p by simp_all
  show "new_top m p n a = m a" if "a < p - 4" for a
    using n that by (intro new_top_frame) auto
qed

lemma coalesce_grows_free:
  assumes ch: "chain m hh (xs @ [(ps, False)])" and p: "p = hh + span xs + ps"
    and n: "size_ok n" and sum: "ps + n < 2 ^ 32"
  shows "\<exists>m'. coalesce (new_top m p n) p = (p - ps, m') \<and>
    chain m' hh (xs @ [(ps + n, False)]) \<and>
    GET m' (p + n - 4) = tag 0 True \<and> (\<forall>a < p - ps - 4. m' a = m a)"
proof (intro exI conjI allI impI)
  let ?m = "put_block (new_top m p n) (p - ps) (ps + n) False"
  have ps: "8 \<le> ps" using ch by (auto dest: blk_okD)
  show "coalesce (new_top m p n) p = (p - ps, ?m)"
    using coalesce_new_top [OF ch p n sum] by simp
  show "chain ?m hh (xs @ [(ps + n, False)])" "GET ?m (p + n - 4) = tag 0 True"
    by (rule coalesced_top_chain [OF ch p n sum])+
  show "?m a = m a" if "a < p - ps - 4" for a
    using n that ps by (auto simp: mem_simps new_top_frame size_ok_def)
qed

lemma coalesce_grows:
  assumes ch: "chain m hh ((8, True) # bs)" and p: "p = hh + 8 + span bs"
    and n: "size_ok n" and sum: "span bs + 8 + n < 2 ^ 32"
  shows "\<exists>bp m'. coalesce (new_top m p n) p = (bp, m') \<and>
    chain m' hh ((8, True) # grow n bs) \<and> GET m' (p + n - 4) = tag 0 True \<and>
    bp = hh + 8 + span (butlast (grow n bs)) \<and> (\<forall>a < bp - 4. m' a = m a)"
proof (cases bs rule: rev_cases)
  case Nil
  with coalesce_grows_used [of m hh "[]" 8 p n] ch p n sum show ?thesis
    by (auto simp: grow_snoc)
next
  case (snoc ys b)
  obtain ps pa where b: "b = (ps, pa)" by force
  have c: "chain m hh (((8, True) # ys) @ [(ps, pa)])" using ch snoc b by simp
  have "0 \<le> span ys" using ch snoc by (auto dest: span_nonneg)
  with sum snoc b have s: "ps + n < 2 ^ 32" by simp
  have pp: "p = hh + span ((8, True) # ys) + ps" using p snoc b by simp
  show ?thesis
  proof (cases pa)
    case True
    with coalesce_grows_used [of m hh "(8, True) # ys" ps p n] c pp n s show ?thesis
      by (auto simp: snoc b grow_snoc butlast_append)
  next
    case False
    with coalesce_grows_free [of m hh "(8, True) # ys" ps p n] c pp n s show ?thesis
      by (auto simp: snoc b grow_snoc)
  qed
qed

lemma span_grow: "span (grow n bs) = span bs + n"
proof (cases bs rule: rev_cases)
  case (snoc ys b)
  then show ?thesis by (cases b; cases "snd b") (auto simp: grow_def)
qed (simp add: grow_def)

lemma expend_heap_spec:
  assumes ok: "heap_ok s bs" and n: "size_ok n" "n < 2 ^ 31"
  obtains
    (fail) s' where "expend_heap sb s (word_of_int n) = (0, s')" "heap_ok s' bs"
      "store s' = store s" "heap_head s' = heap_head s" "heap s' = heap s"
      "\<not> (mem_brk s + n \<le> mem_max_addr s \<and> sb (sbrk_calls s) n)"
  | (grown) bp s' where "expend_heap sb s (word_of_int n) = (bp, s')" "heap_ok s' (grow n bs)"
      "bp = heap_head s + 8 + span (butlast (grow n bs))" "heap_head s' = heap_head s"
      "heap s' = heap s" "\<forall>a < bp - 4. store s' a = store s a"
      "mem_brk s + n \<le> mem_max_addr s \<and> sb (sbrk_calls s) n"
proof -
  note h = heap_okD [OF ok]
  obtain p s1 where sb: "mem_sbrk sb s n = (p, s1)" by force
  from sb show thesis
  proof (cases rule: mem_sbrk_cases)
    case fail
    with sb have ex: "expend_heap sb s (word_of_int n) = (0, s1)"
      by (simp add: expend_heap_unfold [OF n])
    have "heap_ok s1 bs" "store s1 = store s" "heap_head s1 = heap_head s" "heap s1 = heap s"
      using fail(2) ok by (elim disjE; simp add: heap_ok_def brk_ok_def)+
    then show thesis using fail(3) n by (intro that(1) [OF ex]) auto
  next
    case grown: ok
    have p: "p = heap_head s + 8 + span bs" "p \<noteq> -1"
      using h grown(1) by (auto simp: brk_ok_def)
    have "span bs + 8 + n < 2 ^ 32" using h(8) n by (simp add: MAX_HEAP_def)
    from coalesce_grows [OF h(4) p(1) n(1) this] obtain bp m where
      co: "coalesce (new_top (store s) p n) p = (bp, m)"
      and m: "chain m (heap_head s) ((8, True) # grow n bs)" "GET m (p + n - 4) = tag 0 True"
      and bp: "bp = heap_head s + 8 + span (butlast (grow n bs))" "\<forall>a < bp - 4. m a = store s a"
      by blast
    let ?s = "s\<lparr>sbrk_calls := Suc (sbrk_calls s), mem_brk := mem_brk s + n, store := m\<rparr>"
    have ex: "expend_heap sb s (word_of_int n) = (bp, ?s)"
      using grown(5) p(2) by (simp add: expend_heap_unfold [OF n] sb co)
    have "heap_ok ?s (grow n bs)"
      using ok n(1) grown(3) m(1) span_grow m(2) grown(1) by (intro heap_ok_grown) simp_all
    from that(2) [OF ex this] bp grown(3,4) show thesis by simp
  qed
qed

subsection \<open>Allocated blocks\<close>

fun used :: "addr \<Rightarrow> blocks \<Rightarrow> (addr \<times> int) list" where
  "used p [] = []"
| "used p ((s, a) # bs) = (if a then [(p, s)] else []) @ used (p + s) bs"

lemma used_append [simp]: "used p (xs @ ys) = used p xs @ used (p + span xs) ys"
  by (induction p xs rule: used.induct) (auto simp: add.assoc)

lemma used_grow [simp]: "used p (grow n bs) = used p bs"
proof (cases bs rule: rev_cases)
  case (snoc ys b)
  then show ?thesis by (cases b; cases "snd b") (auto simp: grow_def)
qed (simp add: grow_def)

lemma used_in_chain:
  "chain m p bs \<Longrightarrow> (q, t) \<in> set (used p bs) \<Longrightarrow> p \<le> q \<and> q + t \<le> p + span bs \<and> size_ok t"
proof (induction m p bs rule: chain.induct)
  case (2 m p s a bs)
  then have "8 \<le> s" "size_ok s" "0 \<le> span bs" by (auto dest: blk_okD span_nonneg)
  with 2 show ?case by (fastforce split: if_splits)
qed simp

lemma used_aligned: "chain m p bs \<Longrightarrow> 8 dvd p \<Longrightarrow> (q, t) \<in> set (used p bs) \<Longrightarrow> 8 dvd q"
proof (induction m p bs rule: chain.induct)
  case (2 m p s a bs)
  then have "8 dvd p + s" by (auto simp: blk_ok_def size_ok_def)
  with 2 show ?case by (auto split: if_splits)
qed simp

text \<open>Where the first block of the heap starts.\<close>

abbreviation first_blk :: "mm \<Rightarrow> addr" where
  "first_blk s \<equiv> heap_head s + 8"

text \<open>The bytes that belong to the callers: the payloads of the allocated blocks.\<close>

definition payloads_same :: "(addr \<times> int) list \<Rightarrow> bytes \<Rightarrow> bytes \<Rightarrow> bool" where
  "payloads_same us m m' \<longleftrightarrow> (\<forall>(q, t) \<in> set us. \<forall>a. q \<le> a \<and> a < q + t - 8 \<longrightarrow> m' a = m a)"

definition apart :: "addr \<Rightarrow> int \<Rightarrow> (addr \<times> int) list \<Rightarrow> bool" where
  "apart p b us \<longleftrightarrow> (\<forall>(q, t) \<in> set us. p + b \<le> q \<or> q + t \<le> p)"

text \<open>What a successful \<open>malloc\<close> does to the list of blocks: a new allocated block \<open>(p, b)\<close>,
  nothing else changes for the callers.\<close>

definition allocates :: "mm \<Rightarrow> blocks \<Rightarrow> int \<Rightarrow> addr \<Rightarrow> mm \<Rightarrow> blocks \<Rightarrow> bool" where
  "allocates s bs n p s' bs' \<longleftrightarrow> heap_ok s' bs' \<and> heap_head s' = heap_head s \<and> heap s' = heap s
     \<and> 8 dvd p \<and> first_blk s \<le> p
     \<and> (\<exists>b. n + 8 \<le> b \<and> p + b \<le> mem_brk s' \<and> apart p b (used (first_blk s) bs)
          \<and> set (used (first_blk s) bs') = insert (p, b) (set (used (first_blk s) bs)))
     \<and> payloads_same (used (first_blk s) bs) (store s) (store s')"

lemma payloads_same_trans:
  "payloads_same us a b \<Longrightarrow> payloads_same us b c \<Longrightarrow> payloads_same us a c"
  unfolding payloads_same_def by (fastforce simp: split_beta)

lemma allocates_mono:
  assumes "allocates s bs n p s' bs'" and "k \<le> n"
  shows "allocates s bs k p s' bs'"
proof -
  from assms(1) obtain b where b: "n + 8 \<le> b" "p + b \<le> mem_brk s'"
    "apart p b (used (first_blk s) bs)"
    "set (used (first_blk s) bs') = insert (p, b) (set (used (first_blk s) bs))"
    unfolding allocates_def by blast
  from b(1) assms(2) have "k + 8 \<le> b" by simp
  with b(2-) have "\<exists>b. k + 8 \<le> b \<and> p + b \<le> mem_brk s' \<and> apart p b (used (first_blk s) bs)
      \<and> set (used (first_blk s) bs') = insert (p, b) (set (used (first_blk s) bs))"
    by blast
  with assms(1) show ?thesis unfolding allocates_def by simp
qed

lemma place_allocates:
  assumes ok: "heap_ok s bs" and bs: "bs = xs @ (b, False) # zs" and p: "p = first_blk s + span xs"
    and n: "size_ok n" "n \<le> b"
  shows "allocates s bs (n - 8) p (s\<lparr>store := place (store s) p (word_of_int n)\<rparr>)
    (xs @ split_blk n b @ zs)"
proof -
  let ?m = "place (store s) p (word_of_int n)" and ?bs = "xs @ split_blk n b @ zs"
  let ?t = "if b - n \<le> 8 then b else n"
  note h = heap_okD [OF ok]
  from h(4) bs have c: "chain (store s) (heap_head s) (((8, True) # xs) @ (b, False) # zs)" by simp
  from c p have blk: "blk_ok (store s) p b False"
    and cx: "chain (store s) (first_blk s) xs" and cz: "chain (store s) (p + b) zs"
    by (simp_all add: add.assoc)
  have b: "size_ok b" using blk by (rule blk_okD)
  have sz: "0 \<le> span xs" "8 dvd span xs" "0 \<le> span zs"
    using cx cz by (auto dest: span_nonneg span_multiple_8)
  have hd: "chain ?m (heap_head s) (((8, True) # xs) @ split_blk n b @ zs)"
    by (rule chain_place [OF c _ n]) (simp add: p)
  have frame: "?m a = store s a" if "a < p - 4 \<or> p + b - 4 \<le> a" for a
    using blk n that by (rule place_frame)
  have "GET ?m (mem_brk s - 4) = GET (store s) (mem_brk s - 4)"
    using h(5) bs p sz by (intro GET_cong frame) simp
  then have ok': "heap_ok (s\<lparr>store := ?m\<rparr>) ?bs"
    using h hd bs by (simp add: heap_ok_def brk_ok_def)
  have u: "used (first_blk s) ?bs =
      used (first_blk s) xs @ (p, ?t) # used (p + b) zs"
    "used (first_blk s) bs = used (first_blk s) xs @ used (p + b) zs"
    using p bs by (auto simp: split_blk_def)
  have old: "q + t \<le> p \<or> p + b \<le> q" if "(q, t) \<in> set (used (first_blk s) bs)" for q t
    using that used_in_chain [OF cx, of q t] used_in_chain [OF cz, of q t] p u(2) by auto
  have t: "n \<le> ?t" "?t \<le> b" using n by auto
  have "apart p ?t (used (first_blk s) bs)"
    using old t unfolding apart_def by fastforce
  moreover have "payloads_same (used (first_blk s) bs) (store s) ?m"
    using old unfolding payloads_same_def by (fastforce intro!: frame)
  moreover have "p + ?t \<le> mem_brk s" using h(5) bs p sz t by simp
  moreover have "8 dvd p" using h(2,3) p sz by simp
  ultimately show ?thesis
    using ok' u t sz p unfolding allocates_def by (auto intro!: exI [of _ ?t])
qed

lemma grow_last:
  assumes "chain m p bs" and "0 \<le> n"
  obtains ys g where "grow n bs = ys @ [(g, False)]" and "butlast (grow n bs) = ys" and "n \<le> g"
proof (cases bs rule: rev_cases)
  case Nil
  then show thesis by (intro that [of "[]" n]) (simp_all add: grow_def)
next
  case (snoc xs b)
  obtain t a where b: "b = (t, a)" by force
  have "8 \<le> t" using assms snoc b by (auto dest: blk_okD)
  then show thesis
    using assms(2) by (cases a; intro that) (auto simp: snoc b grow_snoc butlast_append)
qed

lemma expend_place_allocates:
  assumes ok: "heap_ok s bs" and n: "size_ok n" "size_ok k" "n \<le> k"
    and grown: "heap_ok s1 (grow k bs)" "bp = first_blk s + span (butlast (grow k bs))"
      "heap_head s1 = heap_head s" "heap s1 = heap s" "\<forall>a < bp - 4. store s1 a = store s a"
  shows "\<exists>bs'. allocates s bs (n - 8) bp (s1\<lparr>store := place (store s1) bp (word_of_int n)\<rparr>) bs'"
proof -
  have k: "8 \<le> k" and ch: "chain (store s) (first_blk s) bs"
    using n heap_okD(4) [OF ok] by auto
  then obtain ys g where g: "grow k bs = ys @ [(g, False)]" "butlast (grow k bs) = ys" "k \<le> g"
    using grow_last [OF ch, of k] by auto
  have ch1: "chain (store s1) (first_blk s) ys"
    using heap_okD(4) [OF grown(1)] g grown(3) by simp
  have us: "used (first_blk s) bs = used (first_blk s) ys"
    using used_grow [of "first_blk s" k bs] g by simp
  have al: "allocates s1 (grow k bs) (n - 8) bp
      (s1\<lparr>store := place (store s1) bp (word_of_int n)\<rparr>) (ys @ split_blk n g @ [])"
    using grown g n by (intro place_allocates) auto
  have "payloads_same (used (first_blk s) bs) (store s) (store s1)"
    using used_in_chain [OF ch1] grown(2,5) g(2) us
    unfolding payloads_same_def by fastforce
  then have "payloads_same (used (first_blk s) bs) (store s) (place (store s1) bp (word_of_int n))"
    using al grown(3) unfolding allocates_def by (auto intro: payloads_same_trans)
  with al grown(3,4) show ?thesis
    unfolding allocates_def by (intro exI [of _ "ys @ split_blk n g"]) simp
qed

lemma asize_size_ok:
  assumes "0 < n" and "n \<le> 2 ^ 31 - 16"
  shows "size_ok (asize n)" and "asize n < 2 ^ 31" and "16 \<le> asize n"
  using assms asize_bounds [of n] by (auto simp: size_ok_def asize_def)

lemma CHUNKSIZE_eq: "CHUNKSIZE = word_of_int 4096"
  by (simp add: CHUNKSIZE_def)

text \<open>\<open>malloc\<close> on every request up to 2 GB: it returns, and either it reports failure and leaves
  the heap as it was, or it hands out a fresh block.\<close>

lemma malloc_spec:
  assumes ok: "heap_ok s bs" and sz: "0 < uint sz" "uint sz \<le> 2 ^ 31 - 16"
  obtains
    (null) s' where "malloc sb s sz = Some (0, s')" "heap_ok s' bs" "store s' = store s"
      "heap_head s' = heap_head s" "heap s' = heap s"
      "\<forall>(t, a) \<in> set bs. a \<or> t < asize (uint sz)"
      "\<not> (mem_brk s + max (asize (uint sz)) 4096 \<le> mem_max_addr s
          \<and> sb (sbrk_calls s) (max (asize (uint sz)) 4096))"
  | (block) p s' bs' where "malloc sb s sz = Some (p, s')" "p \<noteq> 0"
      "allocates s bs (uint sz) p s' bs'"
proof -
  let ?n = "asize (uint sz)"
  note h = heap_okD [OF ok]
  have n: "size_ok ?n" "?n < 2 ^ 31" "16 \<le> ?n" using sz by (intro asize_size_ok; simp)+
  have nz: "sz \<noteq> 0" using sz(1) by auto
  have as: "asize_of sz = word_of_int ?n" using sz by (intro asize_of_small) simp
  have mono: "allocates s bs (?n - 8) p s' bs' \<Longrightarrow> allocates s bs (uint sz) p s' bs'" for p s' bs'
    by (erule allocates_mono) (use asize_bounds(1) [of "uint sz"] in simp)
  have nx: "NEXT_BLKP (store s) (heap_head s) = first_blk s"
    using h(4) blk_reads(4) [of "store s" "heap_head s" 8 True] by simp
  have ch: "chain (store s) (first_blk s) bs" using h(4) by simp
  have pos: "0 < first_blk s" using h by simp
  have ff: "find_fit s (word_of_int ?n) = Some (first_fit ?n (first_blk s) bs)"
    unfolding find_fit_def nx using n ch h(5,6) by (intro find_fit_loop_chain) simp_all
  from ch pos show thesis
  proof (cases rule: first_fit_cases [where n = ?n])
    case (found xs b zs)
    let ?p = "first_blk s + span xs"
    have "0 \<le> span xs" using ch found(1) by (auto dest: span_nonneg)
    then have p: "?p \<noteq> 0" using pos by simp
    have "malloc sb s sz = Some (?p, s\<lparr>store := place (store s) ?p (word_of_int ?n)\<rparr>)"
      using nz p by (simp add: malloc_def as ff found(3))
    then show thesis
      using p by (rule block) (rule mono, rule place_allocates [OF ok found(1) _ n(1) found(2)], simp)
  next
    case none
    define k where "k = max ?n 4096"
    have k: "size_ok k" "k < 2 ^ 31" "?n \<le> k" using n by (auto simp: k_def size_ok_def max_def)
    have ext: "(if asize_of sz > CHUNKSIZE then asize_of sz else CHUNKSIZE) = word_of_int k"
      using n word64_less_iff [of 4096 ?n] by (auto simp: as CHUNKSIZE_eq k_def)
    have m: "malloc sb s sz = (case expend_heap sb s (word_of_int k) of (bp1, s1) \<Rightarrow>
        if bp1 = 0 then Some (0, s1)
        else Some (bp1, s1\<lparr>store := place (store s1) bp1 (word_of_int ?n)\<rparr>))"
      using nz unfolding malloc_def Let_def ext unfolding as ff none(1) by simp
    from ok k(1,2) show thesis
    proof (cases rule: expend_heap_spec [where sb = sb])
      case (fail s')
      then show thesis using m none(2) unfolding k_def by (intro null [of s']) simp_all
    next
      case (grown bp s1)
      have "0 \<le> k" using k(1) by (auto simp: size_ok_def)
      with ch obtain ys g where g: "grow k bs = ys @ [(g, False)]" "butlast (grow k bs) = ys"
        by (rule grow_last)
      have "chain (store s1) (first_blk s) (grow k bs)"
        using heap_okD(4) [OF grown(2)] grown(4) by simp
      with g have ys: "butlast (grow k bs) = ys" "chain (store s1) (first_blk s) ys" by simp_all
      then have "0 < bp" using grown(3) pos span_nonneg [OF ys(2)] by simp
      moreover obtain bs' where
        "allocates s bs (?n - 8) bp (s1\<lparr>store := place (store s1) bp (word_of_int ?n)\<rparr>) bs'"
        using expend_place_allocates [OF ok n(1) k(1,3) grown(2-6)] by blast
      ultimately show thesis using m grown(1) by (intro block) (auto intro: mono)
    qed
  qed
qed

subsection \<open>Initialisation\<close>

lemma mm_init_prologue:
  fixes m :: bytes and h :: addr
  defines "m4 \<equiv> PUT (PUT (PUT (PUT m h 0) (h + 4) (PACK 8 1)) (h + 8) (PACK 8 1)) (h + 12) (PACK 0 1)"
  shows "blk_ok m4 (h + 8) 8 True" and "GET m4 (h + 12) = tag 0 True"
proof -
  have "ucast (PACK 8 1 :: u64) = tag 8 True" by (simp add: PACK_def tag_def)
  moreover have "tag 8 True AND - 8 = 8" by (simp add: tag_size)
  ultimately show "blk_ok m4 (h + 8) 8 True" "GET m4 (h + 12) = tag 0 True"
    by (simp_all add: blk_ok_def m4_def mem_simps size_ok_def PACK_0_1 add.commute)
qed

text \<open>On an empty heap \<open>mm_init\<close> succeeds exactly when both extensions of the heap do, and then
  leaves one free block of 4096 bytes.\<close>

lemma mm_init_spec:
  assumes s: "brk_ok s" "8 dvd heap s" "mem_brk s = heap s"
  obtains
    (fail) s' where "mm_init sb s = (-1, s')"
      "\<not> (sb (sbrk_calls s) 16 \<and> sb (Suc (sbrk_calls s)) 4096)"
  | (ok) s' where "mm_init sb s = (0, s')" "heap_ok s' [(4096, False)]"
      "sb (sbrk_calls s) 16 \<and> sb (Suc (sbrk_calls s)) 4096" "heap s' = heap s"
proof -
  obtain h s1 where sb: "mem_sbrk sb s 16 = (h, s1)" by force
  from sb show thesis
  proof (cases rule: mem_sbrk_cases)
    case fail
    then show thesis
      using sb s by (intro that(1)) (auto simp: mm_init_def WSIZE_def brk_ok_def MAX_HEAP_def)
  next
    case step: ok
    define m4 where "m4 = PUT (PUT (PUT (PUT (store s) h 0) (h + 4) (PACK 8 1)) (h + 8)
      (PACK 8 1)) (h + 12) (PACK 0 1)"
    define s2 where "s2 = s1\<lparr>store := m4, heap_head := h + 8\<rparr>"
    have h: "h = heap s" "h \<noteq> -1" using step s by (auto simp: brk_ok_def)
    have s2: "heap_ok s2 []" "heap s2 = heap s" "sbrk_calls s2 = Suc (sbrk_calls s)"
      using step s h mm_init_prologue [of "store s" h]
      by (simp_all add: s2_def m4_def heap_ok_def brk_ok_def MAX_HEAP_def add.commute)
    have init: "mm_init sb s = (case expend_heap sb s2 CHUNKSIZE of (bp, s3) \<Rightarrow>
        if bp = 0 then (-1, s3) else (0, s3))"
      using step(5) h(2) by (simp add: mm_init_def WSIZE_def sb Let_def s2_def m4_def)
    have room: "mem_brk s2 + 4096 \<le> mem_max_addr s2"
      using step(5) s h by (simp add: s2_def brk_ok_def MAX_HEAP_def)
    have n: "size_ok 4096" "(4096::int) < 2 ^ 31" by (simp_all add: size_ok_def)
    from s2(1) n show thesis
    proof (cases rule: expend_heap_spec [where sb = sb])
      case (fail s')
      then show thesis using init room s2(3) by (intro that(1) [of s']) (simp_all add: CHUNKSIZE_eq)
    next
      case (grown bp s')
      have "0 < bp" using grown(3) heap_okD [OF s2(1)] by (simp add: grow_snoc)
      then show thesis
        using init grown s2(2,3) step(4) by (intro that(2) [of s']) (simp_all add: CHUNKSIZE_eq grow_snoc)
    qed
  qed
qed

end
