(* ===== verification/Mm_Free.thy ===== *)
theory Mm_Free
  imports Mm_Correct
begin

section \<open>free and coalesce of mm.c\<close>

text \<open>
  \<open>free\<close> clears the tags of a block and merges it with its free neighbours. The abstract effect
  is \<open>freed\<close>; it is what the code does except in the case "previous block allocated, next
  block free", where \<open>coalesce\<close> adds the size of the previous block instead of the next one.
\<close>

subsection \<open>The abstract effect\<close>

fun right_free :: "blocks \<Rightarrow> int" where
  "right_free ((ns, False) # zs) = ns"
| "right_free zs = 0"

fun right_rest :: "blocks \<Rightarrow> blocks" where
  "right_rest ((ns, False) # zs) = zs"
| "right_rest zs = zs"

text \<open>The blocks around the freed block \<open>t\<close>: \<open>xs\<close>, its left neighbour \<open>(ps, pa)\<close>, and \<open>zs\<close> on
  the right.\<close>

definition freed :: "blocks \<Rightarrow> int \<Rightarrow> bool \<Rightarrow> int \<Rightarrow> blocks \<Rightarrow> blocks" where
  "freed xs ps pa t zs =
     (if pa then xs @ [(ps, True), (t + right_free zs, False)]
      else xs @ [(ps + t + right_free zs, False)]) @ right_rest zs"

lemma right_split:
  "span zs = right_free zs + span (right_rest zs)"
  "used (p + right_free zs) (right_rest zs) = used p zs"
  "chain m p zs \<Longrightarrow> chain m (p + right_free zs) (right_rest zs)"
  by (cases zs rule: right_free.cases; simp)+

lemma right_free_ok:
  "chain m p zs \<Longrightarrow> 8 dvd right_free zs \<and> 0 \<le> right_free zs \<and> right_free zs \<le> span zs"
  by (cases zs rule: right_free.cases) (auto simp: blk_ok_def size_ok_def dest: span_nonneg)

lemma span_freed: "span (freed xs ps pa t zs) = span xs + ps + t + span zs"
  using right_split(1) [of zs] by (simp add: freed_def)

lemma used_freed:
  "used p (freed xs ps pa t zs)
     = used p (xs @ [(ps, pa)]) @ used (p + span xs + ps + t) zs"
  using right_split(2) [of "p + span xs + ps + t" zs]
  by (auto simp: freed_def add.assoc)

text \<open>The header after the freed block: a block, or the epilogue.\<close>

lemma right_header:
  assumes "chain m p zs" and "GET m (p + span zs - 4) = tag 0 True"
  obtains ns na where "GET m (p - 4) = tag ns na" "8 dvd ns" "0 \<le> ns" "ns \<le> span zs"
    "\<not> na \<longleftrightarrow> right_free zs \<noteq> 0" "\<not> na \<longrightarrow> ns = right_free zs"
proof (cases zs)
  case Nil
  then show thesis using assms by (intro that [of 0 True]) simp_all
next
  case (Cons b ys)
  obtain s a where b: "b = (s, a)" by force
  from assms Cons b have blk: "blk_ok m p s a" and "0 \<le> span ys" by (auto dest: span_nonneg)
  then show thesis
    using Cons b by (intro that [of s a]) (cases a; auto simp: blk_ok_def size_ok_def)+
qed

subsection \<open>The code\<close>

definition merge_store :: "bytes \<Rightarrow> addr \<Rightarrow> int \<Rightarrow> bool \<Rightarrow> int \<Rightarrow> int \<Rightarrow> bytes" where
  "merge_store m p ps pa t ns =
     (let m1 = put_block m p t False in
      if pa \<and> ns = 0 then m1
      else if pa then put_block m1 p (t + ns) False
      else put_block m1 (p - ps) (ps + t + ns) False)"

lemma free_eq_coalesce:
  assumes "p \<noteq> 0" and blk: "blk_ok (store s) p t a"
  shows "free s p = s\<lparr>store := snd (coalesce (put_block (store s) p t False) p)\<rparr>"
proof -
  have "size_ok t" using blk by (rule blk_okD)
  from put_block_macros [OF this, of _ False "store s" p] assms(1) show ?thesis
    by (simp add: free_def Let_def blk_reads(2) [OF blk] flag_def)
qed

lemma chain_freed:
  assumes ch: "chain m hh (xs @ (ps, pa) # (t, True) # zs)" and p: "p = hh + span xs + ps"
    and sum: "ps + t + right_free zs < 2 ^ 32"
  shows "chain (merge_store m p ps pa t (right_free zs)) hh (freed xs ps pa t zs)"
proof -
  let ?ns = "right_free zs" and ?m = "put_block m p t False"
  have so: "size_ok ps" "size_ok t" and zs: "chain m (p + t) zs"
    and xs: "chain m hh xs" "blk_ok m (hh + span xs) ps pa"
    using ch p by (auto simp: add.assoc dest: blk_okD)
  have s8: "8 \<le> t" "8 \<le> ps" "ps < 2 ^ 32" "t < 2 ^ 32" using so by (auto simp: size_ok_def)
  note ns = right_free_ok [OF zs]
  have tn: "size_ok (t + ?ns)" "size_ok (ps + t + ?ns)" using so ns sum by (auto simp: size_ok_def)
  have m: "chain ?m hh (xs @ [(ps, pa)])" "chain ?m hh xs"
    using xs s8 p by (auto intro!: chain_put_block_frame simp: blk_ok_cong [of "hh + span xs" ps m ?m])
      (subst blk_ok_cong [of _ _ _ m]; auto simp: mem_simps)
  have r: "chain ?m (p + t + ?ns) (right_rest zs)"
    using right_split(3) [OF zs] s8 ns by (intro chain_put_block_frame) auto
  have aa: "chain ?m hh ((xs @ [(ps, pa)]) @ (t, False) # zs)"
    using xs zs so p by (intro chain_put_block) auto
  have a: "chain (put_block ?m p (t + ?ns) False) hh
      ((xs @ [(ps, pa)]) @ (t + ?ns, False) # right_rest zs)"
    using m r tn p by (intro chain_put_block) (auto simp: add.assoc)
  have f: "chain (put_block ?m (p - ps) (ps + t + ?ns) False) hh
      (xs @ (ps + t + ?ns, False) # right_rest zs)"
    using m r tn p by (intro chain_put_block) (auto simp: algebra_simps)
  show ?thesis
  proof (cases "pa \<and> ?ns = 0")
    case True
    then have "right_rest zs = zs"
      using zs by (cases zs rule: right_free.cases) (auto simp: blk_ok_def size_ok_def)
    with True aa show ?thesis by (simp add: merge_store_def freed_def)
  next
    case False
    with a f show ?thesis by (cases pa) (simp_all add: merge_store_def freed_def Let_def add.assoc)
  qed
qed

lemma merge_store_frame:
  assumes "8 \<le> t" "8 \<le> ps" "0 \<le> ns" and "q = (if pa then p else p - ps)"
    and "a < q - 4 \<or> p + t + ns - 4 \<le> a"
  shows "merge_store m p ps pa t ns a = m a"
  using assms by (cases pa) (auto simp: merge_store_def Let_def mem_simps)

text \<open>Both ends of a heap: the freed block has a left neighbour (perhaps the prologue) and a
  header after it (perhaps the epilogue).\<close>

lemma heap_ok_around:
  assumes ok: "heap_ok s bs" and bs: "(8, True) # bs = xs @ (ps, pa) # (t, True) # zs"
    and p: "p = heap_head s + span xs + ps"
  shows "chain (store s) (heap_head s) (xs @ (ps, pa) # (t, True) # zs)"
    "blk_ok (store s) (p - ps) ps pa" "blk_ok (store s) p t True" "chain (store s) (p + t) zs"
    "GET (store s) (p + t + span zs - 4) = tag 0 True" "mem_brk s = p + t + span zs"
    "ps + t + span zs < 2 ^ 32" "0 < p"
proof -
  note h = heap_okD [OF ok]
  have sp: "8 + span bs = span xs + ps + t + span zs"
    using arg_cong [OF bs, of span] by simp
  show ch: "chain (store s) (heap_head s) (xs @ (ps, pa) # (t, True) # zs)"
    using h(4) bs by simp
  from ch p show "blk_ok (store s) (p - ps) ps pa" "blk_ok (store s) p t True"
    "chain (store s) (p + t) zs" by (simp_all add: add.assoc)
  show brk: "mem_brk s = p + t + span zs" using h(5) sp p by simp
  show "GET (store s) (p + t + span zs - 4) = tag 0 True" using h(6) brk by simp
  have xs: "0 \<le> span xs" "0 \<le> ps" using ch by (auto simp: blk_ok_def size_ok_def dest: span_nonneg)
  then show "ps + t + span zs < 2 ^ 32" using h(8) sp by (simp add: MAX_HEAP_def)
  show "0 < p" using h(3,9) xs p by simp
qed

text \<open>Every branch of \<open>free\<close>, the faulty one included.\<close>

lemma free_store:
  assumes ok: "heap_ok s bs" and bs: "(8, True) # bs = xs @ (ps, pa) # (t, True) # zs"
    and p: "p = heap_head s + span xs + ps"
  shows "free s p = s\<lparr>store :=
    (if pa \<and> right_free zs \<noteq> 0 then put_block (put_block (store s) p t False) p (ps + t) False
     else merge_store (store s) p ps pa t (right_free zs))\<rparr>"
proof -
  note a = heap_ok_around [OF assms]
  let ?m = "put_block (store s) p t False"
  have t: "size_ok t" "8 \<le> t" and ps: "8 \<le> ps" using a(2,3) by (auto simp: blk_ok_def size_ok_def)
  have prev: "blk_ok ?m (p - ps) ps pa"
    using a(2) ps t by (subst blk_ok_cong [of _ _ _ "store s"]) (auto simp: mem_simps)
  obtain ns na where n: "GET (store s) (p + t - 4) = tag ns na" "8 dvd ns" "0 \<le> ns"
    "ns \<le> span zs" "\<not> na \<longleftrightarrow> right_free zs \<noteq> 0" "\<not> na \<longrightarrow> ns = right_free zs"
    using right_header [OF a(4,5)] by blast
  have "GET ?m (p + t - 4) = GET (store s) (p + t - 4)"
    using t by (intro GET_cong) (auto simp: mem_simps)
  with n(1) have nxt: "GET ?m (p + t - 4) = tag ns na" by simp
  have lim: "ns < 2 ^ 32" "ps + t + ns < 2 ^ 32" using a(7) n t ps by auto
  show ?thesis
    unfolding free_eq_coalesce [OF less_imp_neq [OF a(8), symmetric] a(3)]
      coalesce_eq [OF prev put_block_ok [OF t(1)] nxt n(2,3) lim]
    using n(5,6) by (auto simp: merge_store_def Let_def)
qed

text \<open>\<open>free\<close> refines \<open>freed\<close> when the faulty branch is not taken, or happens to add the
  right number.\<close>

lemma free_refines:
  assumes ok: "heap_ok s bs" and bs: "(8, True) # bs = xs @ (ps, pa) # (t, True) # zs"
    and p: "p = heap_head s + span xs + ps"
    and good: "pa \<Longrightarrow> right_free zs = 0 \<or> right_free zs = ps"
  shows "heap_ok (free s p) (tl (freed xs ps pa t zs))"
    and "payloads_same (used (heap_head s) (freed xs ps pa t zs)) (store s) (store (free s p))"
proof -
  note h = heap_okD [OF ok] and a = heap_ok_around [OF ok bs p]
  let ?m = "merge_store (store s) p ps pa t (right_free zs)"
  note ns = right_free_ok [OF a(4)]
  have f: "free s p = s\<lparr>store := ?m\<rparr>"
    using free_store [OF ok bs p] good by (auto simp: merge_store_def Let_def add.commute)
  have s8: "8 \<le> t" "8 \<le> ps" using a(2,3) by (auto simp: blk_ok_def size_ok_def)
  have c: "chain ?m (heap_head s) (freed xs ps pa t zs)"
    using a(1,7) p ns by (intro chain_freed) auto
  have frame: "?m b = store s b"
    if "b < (if pa then p else p - ps) - 4 \<or> p + t + right_free zs - 4 \<le> b" for b
    using s8 ns that by (intro merge_store_frame) auto
  have "GET ?m (mem_brk s - 4) = GET (store s) (mem_brk s - 4)"
    using a(6) ns by (intro GET_cong frame) auto
  moreover have hd: "(8, True) # tl (freed xs ps pa t zs) = freed xs ps pa t zs"
    using bs by (cases xs) (auto simp: freed_def)
  moreover have "span (tl (freed xs ps pa t zs)) = span bs"
    using arg_cong [OF hd, of span] arg_cong [OF bs, of span] by (simp add: span_freed)
  ultimately show "heap_ok (free s p) (tl (freed xs ps pa t zs))"
    using h c unfolding f by (simp add: heap_ok_def brk_ok_def)
  have "used (p + t + right_free zs) (right_rest zs) = used (p + t) zs" by (rule right_split)
  then have us: "used (heap_head s) (freed xs ps pa t zs) =
      used (heap_head s) (xs @ [(ps, pa)]) @ used (p + t + right_free zs) (right_rest zs)"
    using p by (simp add: used_freed)
  have cx: "chain (store s) (heap_head s) (xs @ [(ps, pa)])" "chain (store s) (heap_head s) xs"
    using a(1) by simp_all
  have "?m b = store s b" if "(q, k) \<in> set (used (heap_head s) (freed xs ps pa t zs))"
    "q \<le> b" "b < q + k - 8" for q k b
  proof (rule frame)
    have "used (heap_head s) (xs @ [(ps, pa)]) = used (heap_head s) xs" if "\<not> pa" using that by simp
    with that us show "b < (if pa then p else p - ps) - 4 \<or> p + t + right_free zs - 4 \<le> b"
      using used_in_chain [OF cx(1), of q k] used_in_chain [OF cx(2), of q k] p
        used_in_chain [OF right_split(3) [OF a(4)], of q k] by (cases pa) auto
  qed
  then show "payloads_same (used (heap_head s) (freed xs ps pa t zs)) (store s) (store (free s p))"
    unfolding f payloads_same_def by auto
qed

text \<open>The faulty branch: the header of the freed block gets the size of the previous block
  added, so the heap is no chain with the right block there.\<close>

lemma free_faulty_header:
  assumes ok: "heap_ok s bs" and bs: "(8, True) # bs = xs @ (ps, True) # (t, True) # (ns, False) # zs"
    and p: "p = heap_head s + span xs + ps"
  shows "GETSIZE (store (free s p)) (HDRP p) = word_of_int (ps + t)"
proof -
  note a = heap_ok_around [OF ok bs p]
  have "8 \<le> ns" "0 \<le> span zs" using a(4) by (auto simp: blk_ok_def size_ok_def dest: span_nonneg)
  with a(2,3,7) have so: "size_ok (ps + t)" by (auto simp: blk_ok_def size_ok_def)
  have "blk_ok (put_block (put_block (store s) p t False) p (ps + t) False) p (ps + t) False"
    by (rule put_block_ok [OF so])
  from blk_okD(2) [OF this] so \<open>8 \<le> ns\<close> show ?thesis
    by (simp add: free_store [OF ok bs p] macro_defs tag_size size_ok_def)
qed

end
