(* ===== verification/Mm_Limits.thy ===== *)
theory Mm_Limits
  imports Mm_Free
begin

section \<open>Where mm.c leaves its specification\<close>

text \<open>
  Exact runs of \<open>mm.c\<close> outside the contract of \<open>Mm_Correct\<close>: two live blocks that overlap
  after the faulty branch of \<open>coalesce\<close>, and requests whose rounded size does not survive
  the \<open>size_t\<close> arithmetic or the conversion to the \<open>int\<close> argument of \<open>mem_sbrk\<close>.
\<close>

subsection \<open>Exact runs\<close>

lemma find_fit_loop_skip:
  assumes "GET m (p - 4) = tag t a" "8 dvd t" "0 < t" "t < 2 ^ 32" "0 \<le> n" "n < 2 ^ 64"
    and "a \<or> t < n"
  shows "find_fit_loop m (word_of_int n) p = find_fit_loop m (word_of_int n) (p + t)"
proof -
  have u: "uint (GETSIZE m (HDRP p)) = t" "ucast (GETSIZE m (HDRP p)) = (word_of_int t :: u64)"
    "GETALLOC m (HDRP p) = (if a then 1 else 0)"
    using assms by (simp_all add: macro_defs uint_tag_size ucast_tag_size tag_alloc)
  then have "0 < GETSIZE m (HDRP p)" using assms by (simp add: word_less_def)
  moreover have "(word_of_int n :: u64) \<le> word_of_int t \<longleftrightarrow> n \<le> t"
    using assms by (intro word64_le_iff) auto
  ultimately show ?thesis
    using assms(7) u by (subst find_fit_loop.simps) (auto simp: NEXT_BLKP_def)
qed

lemma find_fit_loop_take:
  assumes "GET m (p - 4) = tag t False" "8 dvd t" "0 < t" "t < 2 ^ 32" "0 \<le> n" "n \<le> t"
  shows "find_fit_loop m (word_of_int n) p = Some p"
proof -
  have u: "uint (GETSIZE m (HDRP p)) = t" "ucast (GETSIZE m (HDRP p)) = (word_of_int t :: u64)"
    "GETALLOC m (HDRP p) = 0"
    using assms by (simp_all add: macro_defs uint_tag_size ucast_tag_size tag_alloc)
  then have "0 < GETSIZE m (HDRP p)" using assms by (simp add: word_less_def)
  moreover have "(word_of_int n :: u64) \<le> word_of_int t"
    using assms by (subst word64_le_iff) auto
  ultimately show ?thesis using u by (subst find_fit_loop.simps) simp
qed

lemma find_fit_loop_end: "GET m (p - 4) AND - 8 = 0 \<Longrightarrow> find_fit_loop m n p = Some 0"
  by (subst find_fit_loop.simps) (simp add: macro_defs)

lemma heap_ok_first: "heap_ok s bs \<Longrightarrow> NEXT_BLKP (store s) (heap_head s) = first_blk s"
  using heap_okD(4) blk_reads(4) [of "store s" "heap_head s" 8 True] by simp

subsection \<open>Overlapping blocks\<close>

text \<open>A heap as two calls of \<open>malloc\<close> on a fresh heap leave it: 104 bytes, 8 bytes, and the rest
  free. The second block is then freed and two more are requested.\<close>

lemma demo_tags:
  assumes "heap_ok s [(112, True), (16, True), (3968, False)]"
  shows "GET (store s) (heap s + 4) = tag 8 True" "GET (store s) (heap s + 12) = tag 112 True"
    "GET (store s) (heap s + 140) = tag 3968 False"
    "GET (store s) (heap s + 4104) AND - 8 = 3968" "mem_brk s = heap s + 4112"
    "heap_head s = heap s + 8" "0 < heap s"
  using heap_okD(3,4,5,9) [OF assms] by (auto simp: blk_ok_def add.commute)

lemma faulty_reuse:
  assumes ok: "heap_ok s [(112, True), (16, True), (3968, False)]"
  shows "malloc sb (free s (heap s + 128)) 120 = Some (heap s + 128,
    s\<lparr>store := PUT (put_block (put_block (store s) (heap s + 128) 16 False) (heap s + 128) 128 False)
       (heap s + 124) (PACK 128 1)\<rparr>)"
proof -
  let ?h = "heap s" and ?p = "heap s + 128"
  let ?m = "put_block (put_block (store s) ?p 16 False) ?p 128 False"
  note h = heap_okD [OF ok] and blks = demo_tags [OF ok]
  have f: "free s ?p = s\<lparr>store := ?m\<rparr>"
    using free_store [OF ok, of "[(8, True)]" 112 True 16 "[(3968, False)]" ?p] h(3) by simp
  have g: "GET ?m (?h + 4) = tag 8 True" "GET ?m (?h + 12) = tag 112 True"
    using blks by (simp_all add: put_block_def mem_simps)
  have b: "blk_ok ?m ?p 128 False" by (rule put_block_ok) (simp add: size_ok_def)
  then have g2: "GET ?m (?h + 124) = tag 128 False" by (simp add: blk_ok_def add.commute)
  have n: "NEXT_BLKP ?m (?h + 8) = ?h + 16" using g by (simp add: macro_defs uint_tag_size add.commute)
  have "find_fit_loop ?m (word_of_int 128) (?h + 16) = Some ?p"
    using g(2) g2 find_fit_loop_skip [of ?m "?h + 16" 112 True 128]
      find_fit_loop_take [of ?m ?p 128 128] by (simp add: add.commute)
  moreover have "asize_of 120 = word_of_int 128"
    by (simp add: asize_of_def)
  moreover have "place ?m ?p (word_of_int 128) = PUT ?m (?h + 124) (PACK 128 1)"
    using place_eq [OF b, of 128] by (simp add: size_ok_def flag_def add.commute)
  ultimately show ?thesis
    using h(9) by (simp add: malloc_def f find_fit_def h(3) n)
qed

lemma faulty_second:
  fixes s :: mm
  defines "m \<equiv> PUT (put_block (put_block (store s) (heap s + 128) 16 False) (heap s + 128) 128 False)
       (heap s + 124) (PACK 128 1)"
  assumes ok: "heap_ok s [(112, True), (16, True), (3968, False)]"
    and zero: "GET (store s) (heap s + 252) = 0"
    and room: "mem_brk s + 4096 \<le> mem_max_addr s" "sb (sbrk_calls s) 4096"
  shows "\<exists>s'. malloc sb (s\<lparr>store := m\<rparr>) 200 = Some (heap s + 144, s')"
proof -
  let ?h = "heap s" and ?s = "s\<lparr>store := m\<rparr>" and ?n = "new_top m (heap s + 4112) 4096"
  note d = demo_tags [OF ok]
  have p128: "ucast (PACK 128 1 :: u64) = tag 128 True" by (simp add: PACK_def tag_def)
  have g: "GET m (?h + 4) = tag 8 True" "GET m (?h + 12) = tag 112 True"
    "GET m (?h + 124) = tag 128 True" "GET m (?h + 252) = 0"
    "GET m (?h + 140) = tag 3968 False" "GET m (?h + 4104) AND - 8 = 3968"
    using d zero by (simp_all add: m_def put_block_def mem_simps p128)
  have nx: "NEXT_BLKP m (?h + 8) = ?h + 16" using g by (simp add: macro_defs uint_tag_size add.commute)
  have as: "asize_of 200 = word_of_int 208" by (simp add: asize_of_def)
  have "find_fit_loop m (word_of_int 208) (?h + 16) = Some 0"
    using g find_fit_loop_skip [of m "?h + 16" 112 True 208]
      find_fit_loop_skip [of m "?h + 128" 128 True 208]
      find_fit_loop_end [of m "?h + 256"] by (simp add: add.commute)
  then have ff: "find_fit ?s (word_of_int 208) = Some 0" by (simp add: find_fit_def d nx)
  have k: "size_ok 4096" by (simp add: size_ok_def)
  have "blk_ok ?n (?h + 144) 3968 False"
    using g by (simp add: blk_ok_def new_top_def put_block_def mem_simps size_ok_def add.commute)
  moreover have "blk_ok ?n (?h + 4112) 4096 False"
    using put_block_ok [OF k, of m "?h + 4112" False]
    by (subst blk_ok_cong [of _ _ _ "put_block m (?h + 4112) 4096 False"])
      (simp_all add: new_top_def mem_simps)
  moreover have "GET ?n (?h + 4112 + 4096 - 4) = tag 0 True"
    by (simp add: new_top_def mem_simps PACK_0_1)
  ultimately have co: "coalesce ?n (?h + 4112) =
      (?h + 144, put_block ?n (?h + 144) (3968 + 4096) False)"
    using coalesce_eq [of ?n "?h + 4112" 3968 False 4096 False 0 True] by (simp add: add.commute)
  have "mem_sbrk sb ?s 4096 = (?h + 4112,
      ?s\<lparr>sbrk_calls := Suc (sbrk_calls s), mem_brk := ?h + 8208\<rparr>)"
    using room d by (simp add: mem_sbrk_def)
  then have "\<exists>s1. expend_heap sb ?s CHUNKSIZE = (?h + 144, s1)"
    using d co by (simp add: CHUNKSIZE_eq expend_heap_unfold [OF k, simplified])
  then obtain s1 where "expend_heap sb ?s CHUNKSIZE = (?h + 144, s1)" by blast
  moreover have "\<not> CHUNKSIZE < (word_of_int 208 :: u64)"
    unfolding CHUNKSIZE_eq by (subst word64_less_iff) simp_all
  ultimately show ?thesis
    unfolding malloc_def Let_def as ff using d by simp
qed

subsection \<open>Requests that do not survive the arithmetic\<close>

lemma asize_of_wraps: "2 ^ 64 - 7 \<le> uint sz \<Longrightarrow> asize_of sz = word_of_int 8"
proof -
  assume big: "2 ^ 64 - 7 \<le> uint sz"
  have lt: "uint sz < 2 ^ 64" using unsigned_less [of sz] by simp
  have "uint (sz + 15) = (uint sz + 15) mod 2 ^ 64" by (simp add: uint_word_ariths)
  also have "\<dots> = uint sz + 15 - 2 ^ 64"
    using big lt by (simp add: mod_pos_geq)
  finally have u: "uint (sz + 15) div 8 = 1" using big lt by simp
  have "uint ((sz + 15) div 8) = 1" by (simp add: uint_div_distrib u)
  then have "(sz + 15) div 8 = 1" by (metis word_of_int_uint of_int_1)
  then show ?thesis by (simp add: asize_of_def add.assoc)
qed

lemma malloc_unfold:
  assumes "sz \<noteq> 0" and "asize_of sz = word_of_int n" and ok: "heap_ok s bs"
    and "0 \<le> n" "n < 2 ^ 64"
  shows "malloc sb s sz =
    (let p = first_fit n (first_blk s) bs in
     if p \<noteq> 0 then Some (p, s\<lparr>store := place (store s) p (word_of_int n)\<rparr>)
     else (case expend_heap sb s (word_of_int (max n 4096)) of (bp1, s1) \<Rightarrow>
        if bp1 = 0 then Some (0, s1)
        else Some (bp1, s1\<lparr>store := place (store s1) bp1 (word_of_int n)\<rparr>)))"
proof -
  note h = heap_okD [OF ok]
  have ff: "find_fit s (word_of_int n) = Some (first_fit n (first_blk s) bs)"
    unfolding find_fit_def heap_ok_first [OF ok] using assms h(4,5,6)
    by (intro find_fit_loop_chain) simp_all
  have ext: "(if word_of_int n > CHUNKSIZE then word_of_int n else CHUNKSIZE)
      = word_of_int (max n 4096)"
    using assms word64_less_iff [of 4096 n] by (auto simp: CHUNKSIZE_eq)
  show ?thesis
    using assms(1) unfolding malloc_def assms(2) Let_def ff ext by simp
qed

lemma malloc_wraps:
  assumes ok: "heap_ok s bs" and big: "2 ^ 64 - 7 \<le> uint sz" and free: "(b, False) \<in> set bs"
  shows "\<exists>p s'. malloc sb s sz = Some (p, s') \<and> p \<noteq> 0 \<and> mem_brk s' < p + uint sz"
proof -
  note h = heap_okD [OF ok]
  have ch: "chain (store s) (first_blk s) bs" and pos: "0 < first_blk s" using h by simp_all
  from big have nz: "sz \<noteq> 0" by auto
  note m = malloc_unfold [OF nz asize_of_wraps [OF big] ok]
  from ch pos show ?thesis
  proof (cases rule: first_fit_cases [where n = 8])
    case none
    with free chain_size_ok [OF ch free] show ?thesis by (auto simp: size_ok_def)
  next
    case (found xs t zs)
    have "0 \<le> span xs" using ch found(1) by (auto dest: span_nonneg)
    then have "0 < first_blk s + span xs" using pos by simp
    moreover have "mem_brk s < first_blk s + span xs + uint sz"
      using h(3,5,8) big \<open>0 \<le> span xs\<close> by (simp add: MAX_HEAP_def)
    ultimately show ?thesis using m found(3) by (simp add: Let_def)
  qed
qed

text \<open>A size of \<open>2 ^ 32\<close> becomes 0 in the tags and in the argument of \<open>mem_sbrk\<close>.\<close>

lemma ucast_2_32: "ucast (PACK 4294967296 0 :: u64) = (0 :: u32)"
  by (simp add: PACK_def)

lemma coalesce_zero:
  assumes "GET m (p - 4) = tag 0 True" and "GET m (p - 8) = 0"
  shows "coalesce m p = (p, m)"
  using assms by (simp add: coalesce_def Let_def macro_defs tag_size tag_alloc)

lemma expend_heap_2_32:
  assumes room: "sb (sbrk_calls s) 0" and brk: "brk_ok s"
  defines "p \<equiv> mem_brk s"
  defines "m \<equiv> PUT (PUT (PUT (store s) (p - 4) (PACK 4294967296 0))
      (p - 8) (PACK 4294967296 0)) (p - 4) (PACK 0 1)"
  shows "expend_heap sb s 4294967296
    = (p, s\<lparr>sbrk_calls := Suc (sbrk_calls s), store := m\<rparr>)"
proof -
  have z: "ALIGN 4294967296 = 4294967296" using ALIGN_multiple_8 [of 4294967296] by simp
  have i: "size_to_int 4294967296 = 0" by (simp add: size_to_int_def)
  have sb: "mem_sbrk sb s 0 = (p, s\<lparr>sbrk_calls := Suc (sbrk_calls s)\<rparr>)"
    using room brk by (simp add: mem_sbrk_def p_def brk_ok_def)
  have p: "p \<noteq> -1" using brk by (auto simp: p_def brk_ok_def)
  have g: "GET m (p - 4) = tag 0 True" "GET m (p - 8) = 0"
    by (simp_all add: m_def mem_simps PACK_0_1 ucast_2_32)
  show ?thesis
    using p unfolding expend_heap_def Let_def z i sb
    by (simp add: FTRP_def NEXT_BLKP_def HDRP_def WSIZE_def DSIZE_def GETSIZE_def mem_simps ucast_2_32
        m_def [symmetric] coalesce_zero [OF g])
qed

lemma malloc_2_32:
  assumes ok: "heap_ok s bs" and room: "sb (sbrk_calls s) 0"
  shows "\<exists>s'. malloc sb s 4294967288 = Some (mem_brk s, s') \<and> mem_brk s' = mem_brk s"
proof -
  note h = heap_okD [OF ok]
  have ch: "chain (store s) (first_blk s) bs" and pos: "0 < first_blk s" using h by simp_all
  have as: "asize_of 4294967288 = word_of_int 4294967296" by (simp add: asize_of_def)
  have ff: "first_fit 4294967296 (first_blk s) bs = 0"
    using ch pos
  proof (cases rule: first_fit_cases [where n = 4294967296])
    case (found xs b zs)
    then have "size_ok b" using chain_size_ok [OF ch, of b False] by simp
    with found(2) show ?thesis by (simp add: size_ok_def)
  qed simp
  have "mem_brk s \<noteq> 0" using h(1) by (auto simp: brk_ok_def)
  with malloc_unfold [OF _ as ok, of sb] expend_heap_2_32 [of sb s, OF room h(1)] ff show ?thesis
    by (simp add: Let_def)
qed

end
