(* ===== verification/Mm_Props.thy ===== *)
theory Mm_Props
  imports Mm_Limits
begin

section \<open>What mm.c guarantees\<close>

text \<open>
  The properties of \<open>mm.c\<close>, stated over the definitions of \<open>Mm\<close> and the abstract list of
  blocks, with a concrete heap at which each applies.
\<close>

subsection \<open>A concrete heap\<close>

text \<open>An empty region at the address \<open>memlib.c\<close> asks for, and a heap in it with a block of 112
  bytes, one of 16 and 3968 free bytes.\<close>

definition empty_mem :: mm where
  "empty_mem = \<lparr>store = (\<lambda>_. 0), heap = 0x800000000, mem_brk = 0x800000000,
     mem_max_addr = 0x800000000 + MAX_HEAP, sbrk_calls = 0, heap_head = 0\<rparr>"

definition demo_store :: "addr \<Rightarrow> bytes" where
  "demo_store h =
     PUT (put_block (put_block (put_block (put_block (\<lambda>_. 0) (h + 8) 8 True)
       (h + 16) 112 True) (h + 128) 16 True) (h + 144) 3968 False) (h + 4108) (PACK 0 1)"

definition demo :: mm where
  "demo = empty_mem\<lparr>store := demo_store 0x800000000, mem_brk := 0x800000000 + 4112,
     heap_head := 0x800000000 + 8\<rparr>"

lemma GET_zero: "GET (\<lambda>_. 0) p = 0"
  by (simp add: GET_def load32_def read_mem_def numeral_eq_Suc)

lemma demo_ok: "heap_ok demo [(112, True), (16, True), (3968, False)]"
proof -
  have c: "chain (demo_store h) (h + 8) [(8, True), (112, True), (16, True), (3968, False)]"
    and e: "GET (demo_store h) (h + 4108) = tag 0 True" for h
    by (simp_all add: demo_store_def blk_ok_def size_ok_def put_block_def mem_simps
        ucast_PACK_flag [of 8, simplified] ucast_PACK_flag [of 112, simplified]
        ucast_PACK_flag [of 16, simplified] ucast_PACK_flag [of 3968, simplified] tag_size
        PACK_0_1)
  show ?thesis
    using c [of 34359738368] e [of 34359738368]
    by (simp add: heap_ok_def demo_def empty_mem_def brk_ok_def MAX_HEAP_def)
qed

lemma demo_zero: "GET (store demo) (heap demo + 252) = 0"
  by (simp add: demo_def empty_mem_def demo_store_def put_block_def mem_simps GET_zero)

lemma checkheap_chain:
  "chain m p bs \<Longrightarrow> GET m (p + span bs - 4) = tag 0 True \<Longrightarrow> checkheap_loop m p = Some ()"
proof (induction bs arbitrary: p)
  case Nil
  then show ?case by (subst checkheap_loop.simps) (simp add: macro_defs tag_size)
next
  case (Cons b bs)
  obtain s a where b: "b = (s, a)" by force
  with Cons.prems have blk: "blk_ok m p s a" by simp
  have "checkheap_loop m (p + s) = Some ()"
    using Cons b by (intro Cons.IH) (simp_all add: add.assoc)
  then show ?case
    by (subst checkheap_loop.simps) (simp add: blk_reads(1) [OF blk])
qed

lemma heap_ok_checkheap: "heap_ok s bs \<Longrightarrow> mm_checkheap s = Some ()"
  unfolding mm_checkheap_def using heap_okD(4-6) [of s bs]
  by (intro checkheap_chain [of _ _ "(8, True) # bs"]) (auto simp: algebra_simps)

subsection \<open>malloc\<close>

text \<open>C1. On a well-formed heap and any request of 1 to \<open>2^31 - 16\<close> bytes, \<open>malloc\<close> of \<open>mm.c\<close>
  returns. Either it returns NULL, with the bytes of the heap and its blocks unchanged, and then no
  free block is large enough and the heap cannot be extended; or it returns an 8-aligned block
  of enough bytes inside the heap, apart from every allocated block, the heap is again
  well-formed with exactly that block added to the allocated ones, and no byte of an older
  payload has changed.\<close>

theorem malloc_contract:
  assumes "heap_ok s bs" and "0 < uint sz" and "uint sz \<le> 2 ^ 31 - 16"
  shows "(\<exists>s'. malloc sb s sz = Some (0, s') \<and> heap_ok s' bs \<and> store s' = store s
      \<and> (\<forall>(t, a) \<in> set bs. a \<or> t < asize (uint sz))
      \<and> \<not> (mem_brk s + max (asize (uint sz)) 4096 \<le> mem_max_addr s
          \<and> sb (sbrk_calls s) (max (asize (uint sz)) 4096)))
    \<or> (\<exists>p s' bs'. malloc sb s sz = Some (p, s') \<and> p \<noteq> 0 \<and> allocates s bs (uint sz) p s' bs')"
  using assms by (cases rule: malloc_spec [where sb = sb]) blast+

theorem malloc_contract_witness:
  "\<exists>p s' bs'. malloc (\<lambda>_ _. True) demo 5000 = Some (p, s') \<and> p \<noteq> 0
     \<and> allocates demo [(112, True), (16, True), (3968, False)] 5000 p s' bs'"
proof -
  have "mem_brk demo + max (asize 5000) 4096 \<le> mem_max_addr demo"
    by (simp add: demo_def empty_mem_def asize_def MAX_HEAP_def)
  with malloc_contract [OF demo_ok, of 5000 "\<lambda>_ _. True"] show ?thesis by auto
qed

subsection \<open>free\<close>

text \<open>C2. Freeing the allocated block \<open>(p, t)\<close> of a well-formed heap, whose left neighbour is
  \<open>(ps, pa)\<close> and whose right neighbours are \<open>zs\<close>: unless the left neighbour is allocated and the
  right one is a free block of a size other than \<open>ps\<close>, the heap is well-formed afterwards, the
  freed block has been merged with its free neighbours, exactly that block has left the list of
  allocated blocks, and no byte of another payload has changed.\<close>

theorem free_contract:
  assumes "heap_ok s bs" and "(8, True) # bs = xs @ (ps, pa) # (t, True) # zs"
    and "p = heap_head s + span xs + ps"
    and "pa \<Longrightarrow> right_free zs = 0 \<or> right_free zs = ps"
  defines "us \<equiv> used (heap_head s) (xs @ [(ps, pa)])" and "vs \<equiv> used (p + t) zs"
  shows "heap_ok (free s p) (tl (freed xs ps pa t zs))
    \<and> used (heap_head s) ((8, True) # bs) = us @ (p, t) # vs
    \<and> used (heap_head s) (freed xs ps pa t zs) = us @ vs
    \<and> payloads_same (us @ vs) (store s) (store (free s p))"
proof -
  have u: "used (heap_head s) (freed xs ps pa t zs) = us @ vs"
    by (simp add: used_freed us_def vs_def assms(3))
  moreover have "used (heap_head s) ((8, True) # bs) = us @ (p, t) # vs"
    unfolding assms(2) by (simp add: us_def vs_def assms(3) add.assoc)
  ultimately show ?thesis
    using free_refines [OF assms(1-4)] by simp
qed

theorem free_contract_witness:
  "heap_ok (free demo (0x800000000 + 16)) [(112, False), (16, True), (3968, False)]"
  using free_contract [OF demo_ok, of "[]" 8 True 112 "[(16, True), (3968, False)]"
      "0x800000000 + 16"]
  by (simp add: demo_def empty_mem_def freed_def)

text \<open>When the block before the freed one is allocated, the block after it is free, and their
  sizes differ, \<open>coalesce\<close> writes the wrong size: the freed block gets the size of itself plus
  the previous block, and the heap is not the well-formed heap it should be.\<close>

theorem free_wrong_size:
  assumes "heap_ok s bs" and "(8, True) # bs = xs @ (ps, True) # (t, True) # (ns, False) # zs"
    and "p = heap_head s + span xs + ps" and "ns \<noteq> ps"
  shows "GETSIZE (store (free s p)) (HDRP p) = word_of_int (ps + t)
    \<and> \<not> heap_ok (free s p) (tl (freed xs ps True t ((ns, False) # zs)))"
proof -
  note a = heap_ok_around [OF assms(1-3)]
  have hdr: "GETSIZE (store (free s p)) (HDRP p) = word_of_int (ps + t)"
    using assms(1-3) by (rule free_faulty_header)
  have hd: "(8, True) # tl (freed xs ps True t ((ns, False) # zs))
      = (xs @ [(ps, True)]) @ (t + ns, False) # zs"
    using assms(2) by (cases xs) (auto simp: freed_def)
  have hh: "heap_head (free s q) = heap_head s" for q by (simp add: free_def Let_def)
  have False if "heap_ok (free s p) (tl (freed xs ps True t ((ns, False) # zs)))"
  proof -
    have "blk_ok (store (free s p)) p (t + ns) False"
      using heap_okD(4) [OF that] unfolding hd hh assms(3) by (simp add: add.assoc)
    from blk_reads(1) [OF this] hdr have "uint (word_of_int (ps + t) :: u32) = t + ns" by simp
    moreover have "size_ok ps" "size_ok t" "ps + t < 2 ^ 32"
      using a(2,3,4,7) by (auto simp: blk_ok_def size_ok_def dest: span_nonneg)
    moreover from this have "uint (word_of_int (ps + t) :: u32) = ps + t"
      unfolding uint_word_of_int by (intro mod_pos_pos_trivial) (auto simp: size_ok_def)
    ultimately show False using assms(4) by simp
  qed
  with hdr show ?thesis by blast
qed

theorem free_wrong_size_witness:
  "GETSIZE (store (free demo (0x800000000 + 128))) (HDRP (0x800000000 + 128)) = 128"
  using free_wrong_size [OF demo_ok, of "[(8, True)]" 112 16 3968 "[]" "0x800000000 + 128"]
  by (simp add: demo_def empty_mem_def)

text \<open>C33. After such a \<open>free\<close> two calls of \<open>malloc\<close> can hand out overlapping memory: with blocks
  of 112 and 16 bytes in front of 3968 free bytes (bytes \<open>252..255\<close> of them zero) and room to extend
  the heap, freeing the second block, then asking for 120 and for 200 bytes returns the
  addresses \<open>heap + 128\<close> and \<open>heap + 144\<close>, so that the second lies inside the 120 bytes of the
  first.\<close>

theorem free_overlap:
  assumes "heap_ok s [(112, True), (16, True), (3968, False)]"
    and "GET (store s) (heap s + 252) = 0"
    and "mem_brk s + 4096 \<le> mem_max_addr s" and "sb (sbrk_calls s) 4096"
  shows "\<exists>s1 s2. malloc sb (free s (heap s + 128)) 120 = Some (heap s + 128, s1)
    \<and> malloc sb s1 200 = Some (heap s + 144, s2)"
  using faulty_reuse [OF assms(1), of sb] faulty_second [OF assms(1-3), of sb] assms(4) by auto

theorem free_overlap_witness:
  "\<exists>s1 s2. malloc (\<lambda>_ _. True) (free demo (heap demo + 128)) 120 = Some (heap demo + 128, s1)
    \<and> malloc (\<lambda>_ _. True) s1 200 = Some (heap demo + 144, s2)"
  using free_overlap [OF demo_ok demo_zero, of "\<lambda>_ _. True"]
  by (simp add: demo_def empty_mem_def MAX_HEAP_def)

subsection \<open>Initialisation and walks\<close>

text \<open>On an empty region \<open>mm_init\<close> returns 0 exactly when both extensions of the heap succeed,
  and then leaves a well-formed heap with one free block of 4096 bytes; otherwise it returns
  -1.\<close>

theorem mm_init_contract:
  assumes "brk_ok s" and "8 dvd heap s" and "mem_brk s = heap s"
  shows "\<exists>s'. if sb (sbrk_calls s) 16 \<and> sb (Suc (sbrk_calls s)) 4096
    then mm_init sb s = (0, s') \<and> heap_ok s' [(4096, False)] \<and> heap s' = heap s
    else mm_init sb s = (-1, s')"
  using assms by (cases rule: mm_init_spec [where sb = sb]) auto

theorem mm_init_contract_witness:
  "\<exists>s'. mm_init (\<lambda>_ _. True) empty_mem = (0, s') \<and> heap_ok s' [(4096, False)]"
  using mm_init_contract [of empty_mem "\<lambda>_ _. True"]
  by (auto simp: empty_mem_def brk_ok_def MAX_HEAP_def)

text \<open>C22. On a well-formed heap the walks over the blocks end: \<open>mm_checkheap\<close> returns, and
  \<open>find_fit\<close> returns the address of the first free block of at least \<open>n\<close> bytes, or 0 when there
  is none.\<close>

theorem walks_return:
  assumes "heap_ok s bs" and "0 \<le> n" and "n < 2 ^ 64"
  shows "mm_checkheap s = Some () \<and> find_fit s (word_of_int n) = Some (first_fit n (first_blk s) bs)"
proof
  note h = heap_okD [OF assms(1)]
  show "mm_checkheap s = Some ()" using assms(1) by (rule heap_ok_checkheap)
  show "find_fit s (word_of_int n) = Some (first_fit n (first_blk s) bs)"
    unfolding find_fit_def heap_ok_first [OF assms(1)] using h(4-6) assms(2,3)
    by (intro find_fit_loop_chain) simp_all
qed

theorem walks_return_witness:
  "mm_checkheap demo = Some () \<and> find_fit demo 1000 = Some (0x800000000 + 144)"
  using walks_return [OF demo_ok, of 1000] by (simp add: demo_def empty_mem_def)

subsection \<open>Requests beyond the contract\<close>

text \<open>C32. A request within 7 bytes of the largest \<open>size_t\<close> wraps around when it is rounded up: when
  the heap has any free block, \<open>malloc\<close> returns a block, and the requested extent reaches
  beyond the end of the heap.\<close>

theorem malloc_size_wraps:
  assumes "heap_ok s bs" and "2 ^ 64 - 7 \<le> uint sz" and "(b, False) \<in> set bs"
  shows "\<exists>p s'. malloc sb s sz = Some (p, s') \<and> p \<noteq> 0 \<and> mem_brk s' < p + uint sz"
  using assms by (rule malloc_wraps)

theorem malloc_size_wraps_witness:
  "\<exists>p s'. malloc (\<lambda>_ _. True) demo (- 1) = Some (p, s') \<and> p \<noteq> 0
     \<and> mem_brk s' < p + uint (- 1 :: u64)"
  by (rule malloc_size_wraps [OF demo_ok, of _ 3968]) (simp_all add: unsigned_minus_1_eq_mask mask_eq_exp_minus_1)

text \<open>A request of \<open>2^32 - 8\<close> bytes is rounded to \<open>2^32\<close>, which \<open>mem_sbrk\<close> receives as 0: if
  the empty extension succeeds, \<open>malloc\<close> returns the end of the heap as a block without having
  extended the heap.\<close>

theorem malloc_size_truncates:
  assumes "heap_ok s bs" and "sb (sbrk_calls s) 0"
  shows "\<exists>s'. malloc sb s (2 ^ 32 - 8) = Some (mem_brk s, s') \<and> mem_brk s' = mem_brk s"
  using malloc_2_32 [of s bs sb] assms by simp

theorem malloc_size_truncates_witness:
  "\<exists>s'. malloc (\<lambda>_ _. True) demo (2 ^ 32 - 8) = Some (mem_brk demo, s')
     \<and> mem_brk s' = mem_brk demo"
  by (rule malloc_size_truncates [OF demo_ok]) simp

end
