(* ===== verification/Mm_Alloc.thy ===== *)
theory Mm_Alloc
  imports Mm_Props Alloc_Spec
begin

section \<open>mm.c provides the allocation contract\<close>

text \<open>
  The abstraction from the list of blocks of \<open>mm.c\<close> to the payloads its callers own, and the
  interpretation of the allocation interface on the definitions of \<open>Mm\<close>.
\<close>

definition payload :: "addr \<times> int \<Rightarrow> addr \<times> int" where
  "payload b = (fst b, snd b - 8)"

definition mm_rel :: "mm \<Rightarrow> live \<Rightarrow> bool" where
  "mm_rel s L \<longleftrightarrow> (\<exists>bs. heap_ok s bs \<and> L = payload ` set (used (first_blk s) bs))"

definition mm_lim :: int where
  "mm_lim = 2 ^ 31 - 16"

subsection \<open>Callers may write their payloads\<close>

lemma chain_payload_write:
  "chain m p bs \<Longrightarrow> (q, t) \<in> set (used p bs) \<Longrightarrow> q \<le> a \<Longrightarrow> a < q + t - 8
     \<Longrightarrow> chain (m(a := v)) p bs"
proof (induction bs arbitrary: p)
  case Nil
  then show ?case by simp
next
  case (Cons b bs)
  obtain s al where b: "b = (s, al)" by force
  with Cons.prems have blk: "blk_ok m p s al" and rest: "chain m (p + s) bs" by auto
  have s: "8 \<le> s" using blk by (auto dest: blk_okD)
  show ?case
  proof (cases "(q, t) \<in> set (used (p + s) bs)")
    case True
    then have "p + s \<le> q" using used_in_chain [OF rest] by blast
    then have "blk_ok (m(a := v)) p s al"
      using blk Cons.prems(3) by (subst blk_ok_cong [of p s _ m]) auto
    moreover have "chain (m(a := v)) (p + s) bs"
      using rest True Cons.prems(3,4) by (rule Cons.IH)
    ultimately show ?thesis unfolding b chain.simps by blast
  next
    case False
    with Cons.prems(2) b have h: "q = p" "t = s" "al" by (auto split: if_splits)
    have "GET (m(a := v)) (p - 4) = GET m (p - 4)"
      "GET (m(a := v)) (p + s - 8) = GET m (p + s - 8)"
      using Cons.prems h by (auto intro!: GET_cong)
    then have "blk_ok (m(a := v)) p s al" using blk by (simp add: blk_ok_def)
    moreover have "chain (m(a := v)) (p + s) bs"
      by (rule chain_cong [OF _ rest]) (use Cons.prems h in auto)
    ultimately show ?thesis unfolding b chain.simps by blast
  qed
qed

lemma mm_rel_write:
  assumes "mm_rel s L" and "(p, k) \<in> L" and a: "p \<le> a" "a < p + k"
  shows "mm_rel (s\<lparr>store := (store s)(a := v)\<rparr>) L"
proof -
  from assms(1,2) obtain bs where ok: "heap_ok s bs"
    and L: "L = payload ` set (used (first_blk s) bs)"
    and u: "(p, k + 8) \<in> set (used (first_blk s) bs)"
    by (force simp: mm_rel_def payload_def)
  note h = heap_okD [OF ok]
  have ch: "chain (store s) (first_blk s) bs" and pro: "blk_ok (store s) (heap_head s) 8 True"
    using h(4) by simp_all
  note i = used_in_chain [OF ch u]
  have "chain ((store s)(a := v)) (first_blk s) bs"
    using ch u a by (intro chain_payload_write) auto
  moreover have "blk_ok ((store s)(a := v)) (heap_head s) 8 True"
    using pro a i by (subst blk_ok_cong [of _ _ _ "store s"]) auto
  moreover have "GET ((store s)(a := v)) (mem_brk s - 4) = GET (store s) (mem_brk s - 4)"
    using a i h(5) by (intro GET_cong) auto
  ultimately have "heap_ok (s\<lparr>store := (store s)(a := v)\<rparr>) bs"
    using h by (simp add: heap_ok_def brk_ok_def)
  with L show ?thesis by (auto simp: mm_rel_def)
qed

subsection \<open>malloc and mm_init\<close>

lemma allocates_result:
  assumes al: "allocates s bs n p s' bs'" and p: "p \<noteq> 0"
  shows "alloc_result mm_rel s (payload ` set (used (first_blk s) bs)) n p s'"
proof -
  from al obtain b where b: "n + 8 \<le> b" "apart p b (used (first_blk s) bs)"
    "set (used (first_blk s) bs') = insert (p, b) (set (used (first_blk s) bs))"
    and ok: "heap_ok s' bs'" "heap_head s' = heap_head s"
    and same: "payloads_same (used (first_blk s) bs) (store s) (store s')"
    unfolding allocates_def by blast
  have "mm_rel s' (insert (p, b - 8) (payload ` set (used (first_blk s) bs)))"
    using ok b(3) unfolding mm_rel_def by (intro exI [of _ bs']) (simp add: payload_def)
  moreover have "fresh_in (payload ` set (used (first_blk s) bs)) p (b - 8)"
    using b(2) by (fastforce simp: fresh_in_def apart_def payload_def)
  moreover have "same_on (payload ` set (used (first_blk s) bs)) (store s) (store s')"
    using same by (fastforce simp: same_on_def in_payload_def payloads_same_def payload_def)
  ultimately show ?thesis
    using b(1) p by (auto simp: alloc_result_def intro!: exI [of _ "b - 8"])
qed

lemma mm_malloc_result:
  assumes "mm_rel s L" and n: "0 < uint n" "uint n \<le> mm_lim"
  shows "\<exists>p s'. malloc sb s n = Some (p, s') \<and> alloc_result mm_rel s L (uint n) p s'"
proof -
  from assms(1) obtain bs where ok: "heap_ok s bs"
    and L: "L = payload ` set (used (first_blk s) bs)" by (auto simp: mm_rel_def)
  from ok n(1) n(2) [unfolded mm_lim_def] show ?thesis
  proof (cases rule: malloc_spec [where sb = sb])
    case (null s')
    then have "mm_rel s' L" using L by (auto simp: mm_rel_def)
    with null show ?thesis by (simp add: alloc_result_def)
  next
    case (block p s' bs')
    with L show ?thesis by (auto dest: allocates_result)
  qed
qed

lemma mm_rel_inside:
  assumes "mm_rel s L" and "(p, k) \<in> L"
  shows "heap s \<le> p \<and> p + k \<le> mem_brk s \<and> 8 dvd p \<and> 0 < p"
proof -
  from assms obtain bs where ok: "heap_ok s bs" and u: "(p, k + 8) \<in> set (used (first_blk s) bs)"
    by (force simp: mm_rel_def payload_def)
  note h = heap_okD [OF ok]
  have ch: "chain (store s) (first_blk s) bs" using h(4) by simp
  have "8 dvd p" using used_aligned [OF ch _ u] h(2,3) by simp
  with used_in_chain [OF ch u] h(3,5,9) show ?thesis by simp
qed

lemma mm_init_rel:
  assumes "brk_ok s" "8 dvd heap s" "mem_brk s = heap s" "mm_init sb s = (r, s')" "0 \<le> r"
  shows "mm_rel s' {}"
  using assms(1-3)
proof (cases rule: mm_init_spec [where sb = sb])
  case (ok t)
  with assms(4) show ?thesis
    unfolding mm_rel_def by (intro exI [of _ "[(4096, False)]"]) simp
next
  case fail
  with assms(4,5) show ?thesis by simp
qed

definition mm_check :: "mm \<Rightarrow> mm option" where
  "mm_check s = map_option (\<lambda>_. s) (mm_checkheap s)"

lemma mm_check_returns: "mm_rel s L \<Longrightarrow> mm_check s = Some s"
  by (auto simp: mm_rel_def mm_check_def dest: heap_ok_checkheap)

interpretation mm_alloc: allocator mm_rel "malloc sb" "mm_init sb" mm_check mm_lim for sb
proof
  show "mm_lim < 2 ^ 31" by (simp add: mm_lim_def)
qed (fact mm_init_rel mm_malloc_result mm_rel_write mm_rel_inside mm_check_returns)+

end
