(* ===== verification/Mm_Naive.thy ===== *)
theory Mm_Naive
  imports Alloc_Spec Mm_Correct
begin

section \<open>The naive allocator (malloclab-handout/mm-naive.c)\<close>

text \<open>
  \<open>mm-naive.c\<close> extends the heap for every request and never reuses a block: eight bytes in front
  of each payload hold the requested size, which \<open>realloc\<close> reads back. The names carry the
  prefix \<open>naive\<close>, since the file defines the same functions as \<open>mm.c\<close>.

  \<open>ALIGN\<close> is the macro of \<open>mm.c\<close> (the two files define it alike). \<open>calloc\<close> writes through
  \<open>NULL\<close> when the request fails, so its model returns a result.
\<close>

definition SIZE_T_SIZE :: int where
  "SIZE_T_SIZE = uint (ALIGN 8)"

definition SIZE_PTR :: "addr \<Rightarrow> addr" where
  "SIZE_PTR p = p - SIZE_T_SIZE"

definition naive_init :: "memsys \<Rightarrow> int \<times> memsys" where
  "naive_init s = (0, s)"

definition naive_malloc :: "(nat \<Rightarrow> int \<Rightarrow> bool) \<Rightarrow> memsys \<Rightarrow> u64 \<Rightarrow> addr \<times> memsys" where
  "naive_malloc sb s sz =
     (let newsize = size_to_int (ALIGN (sz + word_of_int SIZE_T_SIZE)) in
      case mem_sbrk sb s newsize of (p, s1) \<Rightarrow>
        if p < 0 then (0, s1)
        else (let p1 = p + SIZE_T_SIZE
              in (p1, s1\<lparr>store := store64 (store s1) (SIZE_PTR p1) sz\<rparr>)))"

definition naive_free :: "memsys \<Rightarrow> addr \<Rightarrow> memsys" where
  "naive_free s ptr = s"

definition naive_realloc :: "(nat \<Rightarrow> int \<Rightarrow> bool) \<Rightarrow> memsys \<Rightarrow> addr \<Rightarrow> u64 \<Rightarrow> addr \<times> memsys" where
  "naive_realloc sb s oldptr sz =
     (if sz = 0 then (0, naive_free s oldptr)
      else if oldptr = 0 then naive_malloc sb s sz
      else (case naive_malloc sb s sz of (newptr, s1) \<Rightarrow>
        if newptr = 0 then (0, s1)
        else
          let oldsize0 = load64 (store s1) (SIZE_PTR oldptr);
              oldsize = (if sz < oldsize0 then sz else oldsize0);
              s2 = s1\<lparr>store := memcpy (store s1) newptr oldptr (unat oldsize)\<rparr>
          in (newptr, naive_free s2 oldptr)))"

definition naive_calloc :: "(nat \<Rightarrow> int \<Rightarrow> bool) \<Rightarrow> memsys \<Rightarrow> u64 \<Rightarrow> u64 \<Rightarrow> (addr \<times> memsys) result" where
  "naive_calloc sb s nmemb sz =
     (let bytes = nmemb * sz in
      case naive_malloc sb s bytes of (newptr, s1) \<Rightarrow>
        if newptr = 0 \<and> bytes \<noteq> 0 then Inl Undefined
        else Inr (newptr, s1\<lparr>store := memset (store s1) newptr 0 (unat bytes)\<rparr>))"

definition naive_checkheap :: "memsys \<Rightarrow> memsys" where
  "naive_checkheap s = s"

subsection \<open>The payloads\<close>

definition naive_lim :: int where
  "naive_lim = 2 ^ 31 - 16"

definition naive_rel :: "memsys \<Rightarrow> live \<Rightarrow> bool" where
  "naive_rel s L \<longleftrightarrow> brk_ok s \<and> 8 dvd heap s \<and> 8 dvd mem_brk s
     \<and> (\<forall>(p, k) \<in> L. heap s + 8 \<le> p \<and> p + k \<le> mem_brk s \<and> 8 dvd p \<and> 0 < k
          \<and> uint (load64 (store s) (p - 8)) = k)
     \<and> (\<forall>(p, k) \<in> L. \<forall>(q, t) \<in> L. q + t \<le> p - 8 \<or> p \<le> q)"

lemma SIZE_T_SIZE_eq [simp]: "SIZE_T_SIZE = 8"
proof -
  have "ALIGN 8 = (8 :: u64)" using ALIGN_multiple_8 [of 8] by simp
  then show ?thesis by (simp add: SIZE_T_SIZE_def)
qed

text \<open>\<open>ALIGN\<close> rounds up to a multiple of 8.\<close>

lemma and_minus_8: "word_of_int x AND - 8 = (word_of_int (8 * (x div 8)) :: u64)"
proof (rule bit_word_eqI)
  fix n assume n: "n < LENGTH(64)"
  have "8 * (x div 8) = push_bit 3 (drop_bit 3 x)"
    by (simp add: push_bit_eq_mult drop_bit_eq_div)
  with n show "bit (word_of_int x AND - 8 :: u64) n = bit (word_of_int (8 * (x div 8)) :: u64) n"
    unfolding bit_and_iff bit_minus_8 bit_word_of_int_iff
    by (auto simp: bit_push_bit_iff bit_drop_bit_eq)
qed

lemma naive_newsize:
  assumes "uint sz \<le> naive_lim"
  shows "size_to_int (ALIGN (sz + word_of_int SIZE_T_SIZE)) = asize (uint sz)"
proof -
  have b: "0 \<le> asize (uint sz)" "asize (uint sz) < 2 ^ 31"
  proof -
    have "0 \<le> uint sz" by simp
    with asize_bounds(1) [of "uint sz"] show "0 \<le> asize (uint sz)" by linarith
    show "asize (uint sz) < 2 ^ 31"
      using assms asize_bounds(2) [of "uint sz"] by (simp add: naive_lim_def)
  qed
  have "sz = word_of_int (uint sz)" by simp
  then have "ALIGN (sz + word_of_int SIZE_T_SIZE) = word_of_int (uint sz + 15) AND - 8"
    by (simp add: ALIGN_def add.assoc)
  also have "\<dots> = word_of_int (asize (uint sz))" by (simp only: and_minus_8 asize_def)
  finally have "ALIGN (sz + word_of_int SIZE_T_SIZE) = word_of_int (asize (uint sz))" .
  moreover have "uint (word_of_int (asize (uint sz)) :: u64) = asize (uint sz)"
    unfolding uint_word_of_int using b by (intro mod_pos_pos_trivial) auto
  ultimately show ?thesis using b by (simp add: size_to_int_small)
qed

lemma naive_relD:
  assumes "naive_rel s L" and "(p, k) \<in> L"
  shows "heap s + 8 \<le> p" "p + k \<le> mem_brk s" "8 dvd p" "0 < k"
    "uint (load64 (store s) (p - 8)) = k" "(q, t) \<in> L \<Longrightarrow> q + t \<le> p - 8 \<or> p \<le> q"
  using assms by (auto simp: naive_rel_def)

lemma naive_rel_brk:
  assumes "naive_rel s L"
  shows "brk_ok s" "8 dvd heap s" "8 dvd mem_brk s" "0 < heap s"
  using assms by (auto simp: naive_rel_def brk_ok_def)

lemma naive_rel_subset: "naive_rel s L \<Longrightarrow> L' \<subseteq> L \<Longrightarrow> naive_rel s L'"
  unfolding naive_rel_def split_beta by (elim conjE, intro conjI) (meson subsetD)+

text \<open>Writes that miss the headers keep the relation.\<close>

lemma naive_rel_frame:
  assumes rel: "naive_rel s L"
    and hdr: "\<And>p k a. (p, k) \<in> L \<Longrightarrow> p - 8 \<le> a \<Longrightarrow> a < p \<Longrightarrow> m a = store s a"
  shows "naive_rel (s\<lparr>store := m\<rparr>) L"
proof -
  have "load64 m (p - 8) = load64 (store s) (p - 8)" if "(p, k) \<in> L" for p k
    using hdr [OF that] by (intro load64_cong) auto
  then have "\<forall>(p, k) \<in> L. uint (load64 m (p - 8)) = k"
    using naive_relD(5) [OF rel] by fastforce
  with rel show ?thesis unfolding naive_rel_def split_beta by (simp add: brk_ok_def)
qed

lemma naive_rel_write:
  assumes rel: "naive_rel s L" and p: "(p, k) \<in> L" and a: "p \<le> a" "a < p + k"
  shows "naive_rel (s\<lparr>store := (store s)(a := v)\<rparr>) L"
  using rel
proof (rule naive_rel_frame)
  fix q t b
  assume "(q, t) \<in> L" "q - 8 \<le> b" "b < q"
  with naive_relD(6) [OF rel this(1) p] a show "((store s)(a := v)) b = store s b" by auto
qed

lemma naive_malloc_cases:
  assumes rel: "naive_rel s L" and n: "0 < uint n" "uint n \<le> naive_lim"
  obtains
    (null) s' where "naive_malloc sb s n = (0, s')" "naive_rel s' L" "store s' = store s"
  | (block) p s' where "naive_malloc sb s n = (p, s')" "p = mem_brk s + 8"
      "store s' = store64 (store s) (p - 8) n" "heap s' = heap s"
      "naive_rel s' (insert (p, uint n) L)" "p + uint n \<le> mem_brk s'"
proof -
  let ?b = "asize (uint n)"
  note h = naive_rel_brk [OF rel] and ab = asize_bounds [of "uint n"]
  obtain q s1 where sb: "mem_sbrk sb s ?b = (q, s1)" by force
  have ns: "size_to_int (ALIGN (n + word_of_int SIZE_T_SIZE)) = ?b"
    using n(2) by (rule naive_newsize)
  from sb show thesis
  proof (cases rule: mem_sbrk_cases)
    case fail
    then have "naive_rel s1 L" "store s1 = store s"
      using rel by (auto simp: naive_rel_def brk_ok_def)
    moreover have "naive_malloc sb s n = (0, s1)"
      using fail(1) unfolding naive_malloc_def Let_def ns sb by simp
    ultimately show thesis by (intro null [of s1]) auto
  next
    case ok
    let ?p = "mem_brk s + 8"
    let ?s = "s1\<lparr>store := store64 (store s) (mem_brk s) n\<rparr>"
    have m: "naive_malloc sb s n = (?p, ?s)"
      using ok h(1) unfolding naive_malloc_def Let_def ns sb by (simp add: SIZE_PTR_def brk_ok_def)
    have old: "q + t \<le> mem_brk s" "load64 (store64 (store s) (mem_brk s) n) (q - 8)
        = load64 (store s) (q - 8)" if "(q, t) \<in> L" for q t
    proof -
      show "q + t \<le> mem_brk s" using rel that by (rule naive_relD)
      moreover have "0 < t" using rel that by (rule naive_relD)
      ultimately show "load64 (store64 (store s) (mem_brk s) n) (q - 8) = load64 (store s) (q - 8)"
        by (intro load64_store64_other) simp
    qed
    have bk: "brk_ok s1" "8 dvd mem_brk s1" "heap s1 = heap s" "mem_brk s1 = mem_brk s + ?b"
      using mem_sbrk_brk_ok [OF h(1) sb] ok h ab by auto
    have "naive_rel ?s (insert (?p, uint n) L)"
      using bk h ab n old naive_relD [OF rel] unfolding naive_rel_def
      by (auto simp: brk_ok_def mem_simps) (smt (verit))+
    with m bk ab show thesis by (intro block [of ?p ?s]) auto
  qed
qed

lemma naive_fresh:
  assumes rel: "naive_rel s L"
  shows "fresh_in L (mem_brk s + 8) k"
  using naive_relD(2) [OF rel] by (fastforce simp: fresh_in_def)

lemma store_above_same:
  assumes rel: "naive_rel s L" and m: "\<And>a. a < mem_brk s \<Longrightarrow> m a = store s a"
  shows "same_on L (store s) m"
  using naive_relD(2) [OF rel] m by (fastforce simp: same_on_def in_payload_def)

lemma naive_malloc_result:
  assumes rel: "naive_rel s L" and n: "0 < uint n" "uint n \<le> naive_lim"
  shows "\<exists>p s'. Some (naive_malloc sb s n) = Some (p, s') \<and> alloc_result naive_rel s L (uint n) p s'"
  using rel n
proof (cases rule: naive_malloc_cases [where sb = sb])
  case (null s')
  then show ?thesis by (simp add: alloc_result_def)
next
  case (block p s')
  have "0 < mem_brk s" using naive_rel_brk(1) [OF rel] by (auto simp: brk_ok_def)
  with block(2) have "p \<noteq> 0" by simp
  moreover have "same_on L (store s) (store s')"
    using rel block(2,3) by (intro store_above_same) (simp_all add: mem_simps)
  ultimately show ?thesis
    using block(1,2,5) naive_fresh [OF rel]
    by (auto simp: alloc_result_def intro!: exI [of _ "uint n"])
qed

lemma naive_rel_inside:
  assumes "naive_rel s L" and "(p, k) \<in> L"
  shows "heap s \<le> p \<and> p + k \<le> mem_brk s \<and> 8 dvd p \<and> 0 < p"
  using naive_relD(1-3) [OF assms] naive_rel_brk(4) [OF assms(1)] by simp

lemma naive_init_rel:
  assumes "brk_ok s" "8 dvd heap s" "mem_brk s = heap s" "naive_init s = (r, s')" "0 \<le> r"
  shows "naive_rel s' {}"
  using assms by (simp add: naive_rel_def naive_init_def)

lemma naive_check_returns: "naive_rel s L \<Longrightarrow> Some (naive_checkheap s) = Some s"
  by (simp add: naive_checkheap_def)

interpretation naive_alloc: allocator naive_rel "\<lambda>s n. Some (naive_malloc sb s n)" naive_init
  "\<lambda>s. Some (naive_checkheap s)" naive_lim for sb
proof
  show "naive_lim < 2 ^ 31" by (simp add: naive_lim_def)
qed (fact naive_init_rel naive_malloc_result naive_rel_write naive_rel_inside naive_check_returns)+

subsection \<open>realloc\<close>

text \<open>The copy \<open>realloc\<close> makes: the smaller of the two sizes, read from the header.\<close>

lemma naive_realloc_block:
  assumes rel: "naive_rel s L" and p: "(p, k) \<in> L" and n: "0 < uint n"
    and m: "naive_malloc sb s n = (q, s1)" "q = mem_brk s + 8"
      "store s1 = store64 (store s) (q - 8) n"
  shows "naive_realloc sb s p n =
    (q, s1\<lparr>store := memcpy (store s1) q p (nat (min k (uint n)))\<rparr>)"
proof -
  note r = naive_relD [OF rel p]
  have nz: "n \<noteq> 0" "p \<noteq> 0" "q \<noteq> 0"
    using n r naive_rel_brk [OF rel] m(2) by (auto simp: brk_ok_def)
  have "load64 (store s1) (p - 8) = load64 (store s) (p - 8)"
    unfolding m(3) using r m(2) by (intro load64_store64_other) auto
  then have k: "uint (load64 (store s1) (SIZE_PTR p)) = k" using r(5) by (simp add: SIZE_PTR_def)
  have "nat (min k (uint n)) =
      unat (if n < load64 (store s1) (SIZE_PTR p) then n else load64 (store s1) (SIZE_PTR p))"
    by (auto simp: word_less_def k simp flip: nat_uint_eq)
  with nz m(1) show ?thesis
    unfolding naive_realloc_def by (simp add: naive_free_def Let_def)
qed

lemma naive_realloc_result:
  assumes rel: "naive_rel s L" and p: "(p, k) \<in> L" and n: "0 < uint n" "uint n \<le> naive_lim"
  shows "\<exists>p' s'. Some (naive_realloc sb s p n) = Some (p', s')
    \<and> alloc_result naive_rel s (if p' = 0 then L else L - {(p, k)}) (uint n) p' s'
    \<and> (p' \<noteq> 0 \<longrightarrow> (\<forall>i. 0 \<le> i \<and> i < min k (uint n) \<longrightarrow> store s' (p' + i) = store s (p + i)))"
  using rel n
proof (cases rule: naive_malloc_cases [where sb = sb])
  case (null s')
  have "n \<noteq> 0" "p \<noteq> 0" using n naive_rel_inside [OF rel p] by auto
  with null(1) have "naive_realloc sb s p n = (0, s')" by (simp add: naive_realloc_def)
  with null show ?thesis by (simp add: alloc_result_def)
next
  case (block q s1)
  let ?c = "min k (uint n)"
  let ?m = "memcpy (store s1) q p (nat ?c)" and ?L = "L - {(p, k)}"
  note r = naive_relD [OF rel p]
  have c: "0 \<le> ?c" "?c \<le> uint n" using r n by auto
  have bk: "0 < mem_brk s" using naive_rel_brk(1) [OF rel] by (auto simp: brk_ok_def)
  have re: "naive_realloc sb s p n = (q, s1\<lparr>store := ?m\<rparr>)"
    using rel p n(1) block(1-3) by (rule naive_realloc_block)
  have low: "?m a = store s a" if "a < mem_brk s" for a
    using that block(2,3) c by (simp add: memcpy_def mem_simps)
  have new: "?m (q + i) = store s (p + i)" if "0 \<le> i" "i < ?c" for i
    using that block(2,3) r(2)
    by (simp add: memcpy_def write_mem_apply mem_simps read_mem_def)
  have "naive_rel s1 (insert (q, uint n) ?L)"
    using block(5) by (rule naive_rel_subset) auto
  then have "naive_rel (s1\<lparr>store := ?m\<rparr>) (insert (q, uint n) ?L)"
  proof (rule naive_rel_frame)
    fix x t a
    assume x: "(x, t) \<in> insert (q, uint n) ?L" "x - 8 \<le> a" "a < x"
    then have "a < q"
      using naive_relD(2,4) [OF rel, of x t] block(2) by auto
    then show "?m a = store s1 a" by (simp add: memcpy_def mem_simps)
  qed
  moreover have "fresh_in ?L q (uint n)"
    using naive_fresh [OF rel] block(2) by (auto intro: fresh_in_mono)
  moreover have "same_on ?L (store s) ?m"
    using store_above_same [OF rel low] by (rule same_on_mono) auto
  ultimately show ?thesis
    using re bk block(2) new by (auto simp: alloc_result_def intro!: exI [of _ "uint n"])
qed

lemma naive_free_rel:
  assumes "naive_rel s L" and "(p, k) \<in> L"
  shows "naive_rel (naive_free s p) (L - {(p, k)})
    \<and> same_on (L - {(p, k)}) (store s) (store (naive_free s p))"
  using assms(1) by (auto simp: naive_free_def intro: naive_rel_subset)

lemma naive_free_null:
  assumes "naive_rel s L"
  shows "naive_rel (naive_free s 0) L \<and> same_on L (store s) (store (naive_free s 0))"
  using assms by (simp add: naive_free_def)

interpretation naive_reclaim: reclaimer naive_rel "\<lambda>s n. Some (naive_malloc sb s n)" naive_init
  "\<lambda>s. Some (naive_checkheap s)" naive_lim naive_free "\<lambda>s p n. Some (naive_realloc sb s p n)" for sb
  by unfold_locales (fact naive_free_rel naive_free_null naive_realloc_result)+

end
