(* ===== verification/Mdriver_Correct.thy ===== *)
theory Mdriver_Correct
  imports Mdriver Mm_Alloc Mm_Naive
begin

section \<open>The driver accepts correct packages\<close>

text \<open>
  The client side of the allocation interface: on a package that keeps the contract the driver
  never reports a misplaced, overlapping or garbled block. The invariant \<open>tracks\<close> ties the
  driver's arrays and range list to the payloads the package owes.
\<close>

subsection \<open>The invariant\<close>

abbreviation blk_at :: "'x driver \<Rightarrow> int \<Rightarrow> addr" where
  "blk_at d i \<equiv> blocks (trace d) ! nat i"

abbreviation size_at :: "'x driver \<Rightarrow> int \<Rightarrow> u64" where
  "size_at d i \<equiv> block_sizes (trace d) ! nat i"

abbreviation base_at :: "'x driver \<Rightarrow> int \<Rightarrow> int" where
  "base_at d i \<equiv> block_rand_base (trace d) ! nat i"

definition ids_ok :: "'x driver \<Rightarrow> int \<Rightarrow> bool" where
  "ids_ok d n \<longleftrightarrow> int (length (blocks (trace d))) = n \<and> int (length (block_sizes (trace d))) = n
     \<and> int (length (block_rand_base (trace d))) = n"

text \<open>Block \<open>i\<close> is one of the payloads \<open>L\<close>, of usable length \<open>K i\<close>, and holds its data.\<close>

definition holds_data :: "env \<Rightarrow> 'x driver \<Rightarrow> int \<Rightarrow> bool" where
  "holds_data e d i \<longleftrightarrow> debug_mode e \<noteq> DBG_NONE \<longrightarrow>
     (\<forall>j < unat (size_at d i). store (sys d) (blk_at d i + int j) = rand_byte d (base_at d i) j)"

definition owns :: "env \<Rightarrow> 'x driver \<Rightarrow> int \<Rightarrow> live \<Rightarrow> (int \<Rightarrow> int) \<Rightarrow> int \<Rightarrow> bool" where
  "owns e d n L K i \<longleftrightarrow> 0 \<le> i \<and> i < n \<and> (blk_at d i, K i) \<in> L \<and> 0 < uint (size_at d i)
     \<and> uint (size_at d i) \<le> K i \<and> holds_data e d i"

definition separate :: "'x driver \<Rightarrow> (int \<Rightarrow> int) \<Rightarrow> int \<Rightarrow> int \<Rightarrow> bool" where
  "separate d K i j \<longleftrightarrow> blk_at d i + K i \<le> blk_at d j \<or> blk_at d j + K j \<le> blk_at d i"

definition range_of :: "'x driver \<Rightarrow> int \<Rightarrow> range_t" where
  "range_of d i = \<lparr>lo = blk_at d i, hi = blk_at d i + uint (size_at d i) - 1, r_index = i\<rparr>"

definition tracks :: "env \<Rightarrow> 'x driver \<Rightarrow> int \<Rightarrow> int set \<Rightarrow> live \<Rightarrow> (int \<Rightarrow> int) \<Rightarrow> bool" where
  "tracks e d n I L K \<longleftrightarrow> ids_ok d n \<and> (\<forall>i \<in> I. owns e d n L K i)
     \<and> (\<forall>i \<in> I. \<forall>j \<in> I. i \<noteq> j \<longrightarrow> separate d K i j)
     \<and> (\<exists>is. set is \<subseteq> I \<and> distinct is \<and> ranges d = map (range_of d) is)"

lemma tracksD:
  assumes "tracks e d n I L K"
  shows "ids_ok d n" "i \<in> I \<Longrightarrow> owns e d n L K i"
    "i \<in> I \<Longrightarrow> j \<in> I \<Longrightarrow> i \<noteq> j \<Longrightarrow> separate d K i j"
  using assms by (auto simp: tracks_def)

lemma check_index_ok:
  assumes "tracks e d n I L K" and "i \<in> I"
  shows "check_index e d i = Inr d"
proof -
  have o: "owns e d n L K i" and l: "ids_ok d n" using assms by (auto dest: tracksD)
  then have "garbled d (blk_at d i) (base_at d i) (unat (size_at d i)) = []"
    if "debug_mode e \<noteq> DBG_NONE"
    using that by (simp add: owns_def holds_data_def garbled_def filter_empty_conv)
  with o l show ?thesis by (simp add: check_index_def owns_def ids_ok_def)
qed

lemma check_all_ok:
  assumes t: "tracks e d n I L K"
  shows "set is \<subseteq> I \<Longrightarrow> check_all e d (map (range_of d) is) = Inr d"
  by (induction "is") (simp_all add: range_of_def check_index_ok [OF t])

lemma valid_pre_ok:
  assumes t: "tracks e d n I L K" and ck: "pk_checkheap pk (sys d) = Some (sys d)"
  shows "valid_pre e pk d = Inr d"
proof -
  from t obtain "is" where "set is \<subseteq> I" "ranges d = map (range_of d) is"
    by (auto simp: tracks_def)
  with check_all_ok [OF t, of "is"] ck show ?thesis by (simp add: valid_pre_def)
qed

text \<open>What the invariant depends on.\<close>

lemma tracks_cong:
  assumes t: "tracks e d n I L K"
    and same: "trace d' = trace d" "random_data d' = random_data d" "ranges d' = ranges d"
    and L': "\<And>i. i \<in> I \<Longrightarrow> (blk_at d i, K i) \<in> L'"
    and m: "\<And>i a. i \<in> I \<Longrightarrow> blk_at d i \<le> a \<Longrightarrow> a < blk_at d i + K i
        \<Longrightarrow> store (sys d') a = store (sys d) a"
  shows "tracks e d' n I L' K"
proof -
  have r: "range_of d' = range_of d" by (rule ext) (simp add: range_of_def same)
  have b: "rand_byte d' = rand_byte d" by (intro ext) (simp add: rand_byte_def same)
  have "holds_data e d' i" if i: "i \<in> I" for i
    unfolding holds_data_def same b
  proof (intro impI allI)
    fix j assume dbg: "debug_mode e \<noteq> DBG_NONE" and j: "j < unat (size_at d i)"
    have o: "owns e d n L K i" using t i by (rule tracksD)
    have "int j < uint (size_at d i)" using j by (simp add: word_size_simps)
    then have "store (sys d') (blk_at d i + int j) = store (sys d) (blk_at d i + int j)"
      using o by (intro m [OF i]) (auto simp: owns_def)
    with o dbg j show "store (sys d') (blk_at d i + int j) = rand_byte d (base_at d i) j"
      by (simp add: owns_def holds_data_def)
  qed
  with t L' show ?thesis
    unfolding tracks_def owns_def ids_ok_def separate_def same r by auto
qed

subsection \<open>Entering a block\<close>

text \<open>The three steps after a block has passed \<open>add_range\<close>.\<close>

definition enter :: "env \<Rightarrow> 'x driver \<Rightarrow> int \<Rightarrow> addr \<Rightarrow> u64 \<Rightarrow> 'x driver result" where
  "enter e d i p sz =
     and_then (set_block d i p) (\<lambda>d1. and_then (set_size d1 i sz) (\<lambda>d2. randomize_block e d2 i))"

definition entered :: "env \<Rightarrow> 'x driver \<Rightarrow> int \<Rightarrow> addr \<Rightarrow> u64 \<Rightarrow> 'x driver" where
  "entered e d i p sz =
     (let t = (trace d)\<lparr>blocks := (blocks (trace d))[nat i := p],
                        block_sizes := (block_sizes (trace d))[nat i := sz]\<rparr>;
          base = random_of e (random_calls d)
      in if debug_mode e = DBG_NONE then d\<lparr>trace := t\<rparr>
         else d\<lparr>random_calls := Suc (random_calls d),
                trace := t\<lparr>block_rand_base := (block_rand_base (trace d))[nat i := base]\<rparr>,
                sys := (sys d)\<lparr>store := write_mem (store (sys d)) p
                         (map (rand_byte d base) [0..<unat sz])\<rparr>\<rparr>)"

lemma enter_eq:
  assumes "ids_ok d n" and "0 \<le> i" and "i < n"
  shows "enter e d i p sz = Inr (entered e d i p sz)"
  using assms
  by (auto simp: enter_def entered_def set_block_def set_size_def randomize_block_def ids_ok_def
      Let_def rand_byte_def cong: map_cong)

lemma entered_fields:
  assumes "ids_ok d n" and "0 \<le> i" and "i < n"
  shows "ids_ok (entered e d i p sz) n" "ranges (entered e d i p sz) = ranges d"
    "blk_at (entered e d i p sz) i = p" "size_at (entered e d i p sz) i = sz"
    "rand_byte (entered e d i p sz) = rand_byte d"
    "0 \<le> j \<Longrightarrow> j \<noteq> i \<Longrightarrow> blk_at (entered e d i p sz) j = blk_at d j"
    "0 \<le> j \<Longrightarrow> j \<noteq> i \<Longrightarrow> size_at (entered e d i p sz) j = size_at d j"
    "0 \<le> j \<Longrightarrow> j \<noteq> i \<Longrightarrow> base_at (entered e d i p sz) j = base_at d j"
    "a < p \<or> p + uint sz \<le> a \<Longrightarrow> store (sys (entered e d i p sz)) a = store (sys d) a"
    "err_log (entered e d i p sz) = err_log d" "errors (entered e d i p sz) = errors d"
  using assms
  by (auto simp: entered_def ids_ok_def Let_def rand_byte_def fun_eq_iff nat_eq_iff2 mem_simps
      word_size_simps)

lemma entered_data:
  assumes "ids_ok d n" and "0 \<le> i" and "i < n"
  shows "holds_data e (entered e d i p sz) i"
  using assms
  by (auto simp: holds_data_def entered_def ids_ok_def Let_def write_mem_apply rand_byte_def
      word_size_simps)

lemma entered_tracks:
  assumes t: "tracks e d n I L K" and i: "i \<notin> I" "0 \<le> i" "i < n"
    and p: "(p, k) \<in> L'" "0 < uint sz" "uint sz \<le> k" "L \<subseteq> L'"
    and sep: "\<And>j. j \<in> I \<Longrightarrow> p + k \<le> blk_at d j \<or> blk_at d j + K j \<le> p"
    and d2: "trace d2 = trace d" "random_data d2 = random_data d" "sys d2 = sys d"
      "ranges d2 = ranges d \<or>
       ranges d2 = \<lparr>lo = p, hi = p + uint sz - 1, r_index = i\<rparr> # ranges d"
  shows "tracks e (entered e d2 i p sz) n (insert i I) L' (K(i := k))"
proof -
  let ?d = "entered e d2 i p sz"
  have ids: "ids_ok d2 n" using tracksD(1) [OF t] d2(1) by (simp add: ids_ok_def)
  note f = entered_fields [OF ids i(2,3), where e = e and p = p and sz = sz]
  have pos: "0 \<le> j" "j \<noteq> i" if "j \<in> I" for j
    using tracksD(2) [OF t that] that i(1) by (auto simp: owns_def)
  have rb: "rand_byte d2 = rand_byte d" by (simp add: rand_byte_def fun_eq_iff d2)
  have old: "owns e ?d n L' (K(i := k)) j" if j: "j \<in> I" for j
  proof -
    have o: "owns e d n L K j" using t j by (rule tracksD)
    have "store (sys ?d) (blk_at d j + int x) = store (sys d) (blk_at d j + int x)"
      if "x < unat (size_at d j)" for x
      unfolding d2(3) [symmetric] using that sep [OF j] p o
      by (intro f(9)) (auto simp: owns_def word_size_simps)
    with o p(4) pos [OF j] show ?thesis
      by (auto simp: owns_def holds_data_def f d2 rb)
  qed
  have new: "owns e ?d n L' (K(i := k)) i"
    using i p entered_data [OF ids i(2,3)] by (simp add: owns_def f)
  have sp: "separate ?d (K(i := k)) a b" if "a \<in> insert i I" "b \<in> insert i I" "a \<noteq> b" for a b
    using that sep [of a] sep [of b] tracksD(3) [OF t, of a b] pos i(1)
    by (auto simp: separate_def f d2)
  obtain "is" where "is": "set is \<subseteq> I" "distinct is" "ranges d = map (range_of d) is"
    using t by (auto simp: tracks_def)
  have ro: "range_of ?d j = range_of d j" if "j \<in> I" for j
    using pos [OF that] by (simp add: range_of_def f d2)
  have r: "ranges d = map (range_of ?d) is" unfolding "is"(3) using "is"(1) ro by auto
  have "range_of ?d i = \<lparr>lo = p, hi = p + uint sz - 1, r_index = i\<rparr>"
    by (simp add: range_of_def f)
  with r d2(4) f(2) have "ranges ?d = map (range_of ?d) is \<or> ranges ?d = map (range_of ?d) (i # is)"
    by auto
  moreover have "set (i # is) \<subseteq> insert i I" "set is \<subseteq> insert i I" "distinct (i # is)"
    using "is" i(1) by auto
  ultimately have "\<exists>js. set js \<subseteq> insert i I \<and> distinct js \<and> ranges ?d = map (range_of ?d) js"
    using "is"(2) by blast
  with old new sp f(1) show ?thesis by (simp add: tracks_def)
qed

subsection \<open>The checks pass\<close>

lemma range_no_overlap:
  assumes t: "tracks e d n I L K" and p: "0 < sz" "sz \<le> k"
    and sep: "\<And>j. j \<in> I \<Longrightarrow> p + k \<le> blk_at d j \<or> blk_at d j + K j \<le> p"
  shows "\<not> (\<exists>r \<in> set (ranges d). overlaps p (p + sz - 1) r)"
proof
  assume "\<exists>r \<in> set (ranges d). overlaps p (p + sz - 1) r"
  then obtain j where j: "j \<in> I" and o: "overlaps p (p + sz - 1) (range_of d j)"
    using t by (fastforce simp: tracks_def)
  have "uint (size_at d j) \<le> K j" using tracksD(2) [OF t j] by (simp add: owns_def)
  with o sep [OF j] p show False by (auto simp: overlaps_def range_of_def)
qed

lemma add_range_ok:
  assumes al: "8 dvd p" and inside: "heap (sys d) \<le> p" "p + k \<le> mem_brk (sys d)"
    and sz: "0 < sz" "sz \<le> k" and nodes: "\<And>c. node_ok e c"
    and no: "\<not> (\<exists>r \<in> set (ranges d). overlaps p (p + sz - 1) r)"
  obtains d2 where "add_range e d p sz i = Inr (True, d2)"
    "trace d2 = trace d" "random_data d2 = random_data d" "sys d2 = sys d" "err_log d2 = err_log d"
    "errors d2 = errors d"
    "ranges d2 = ranges d \<or> ranges d2 = \<lparr>lo = p, hi = p + sz - 1, r_index = i\<rparr> # ranges d"
proof -
  have "IS_ALIGNED p" using al by (simp add: IS_ALIGNED_def dvd_eq_mod_eq_0)
  moreover have "\<not> outside_heap (sys d) p (p + sz - 1)"
    using inside sz by (auto simp: outside_heap_def mem_heap_lo_def mem_heap_hi_def)
  ultimately show thesis
    using sz nodes no
    by (cases "ignore_ranges (trace d) \<noteq> 0 \<or> debug_mode e = DBG_NONE") (auto simp: add_range_def intro: that)
qed

text \<open>The requests of a trace that a package can be asked.\<close>

definition request_ok :: "int \<Rightarrow> u64 \<Rightarrow> bool" where
  "request_ok lm sz \<longleftrightarrow> 0 < uint sz \<and> uint sz \<le> lm"

definition alloc_trace :: "int \<Rightarrow> int \<Rightarrow> traceop_t list \<Rightarrow> bool" where
  "alloc_trace lm n ts \<longleftrightarrow> (\<forall>t \<in> set ts. op_type t = ALLOC \<and> 0 \<le> op_index t \<and> op_index t < n
     \<and> request_ok lm (op_size t)) \<and> distinct (map op_index ts)"

context allocator
begin

lemma fresh_separate:
  assumes t: "tracks e d n I L K" and f: "fresh_in L p k" and j: "j \<in> I"
  shows "p + k \<le> blk_at d j \<or> blk_at d j + K j \<le> p"
  using tracksD(2) [OF t j] f by (auto simp: fresh_in_def owns_def)

text \<open>A block the package has just handed out is accepted and entered.\<close>

lemma accept_block:
  assumes t: "tracks e d n I L K" and i: "i \<notin> I" "0 \<le> i" "i < n"
    and sz: "request_ok lim sz" "uint sz \<le> k"
    and new: "fresh_in L p k" "rel (sys d) L'" "L' = insert (p, k) L"
    and nodes: "\<And>c. node_ok e c"
  shows "\<exists>d1 d2 K'. add_range e d p (size_to_int sz) i = Inr (True, d1)
    \<and> trace d1 = trace d \<and> random_data d1 = random_data d \<and> sys d1 = sys d
    \<and> enter e d1 i p sz = Inr d2 \<and> tracks e d2 n (insert i I) L' K' \<and> rel (sys d2) L'
    \<and> err_log d2 = err_log d \<and> errors d2 = errors d"
proof -
  have s: "0 < uint sz" "size_to_int sz = uint sz"
    using sz lim_int by (auto simp: request_ok_def size_to_int_small)
  have ins: "heap (sys d) \<le> p" "p + k \<le> mem_brk (sys d)" "8 dvd p"
    using rel_inside [OF new(2), of p k] new(3) by auto
  have no: "\<not> (\<exists>r \<in> set (ranges d). overlaps p (p + uint sz - 1) r)"
    using t s(1) sz(2) fresh_separate [OF t new(1)] by (rule range_no_overlap)
  obtain d1 where d1: "add_range e d p (uint sz) i = Inr (True, d1)"
    "trace d1 = trace d" "random_data d1 = random_data d" "sys d1 = sys d" "err_log d1 = err_log d"
    "errors d1 = errors d"
    "ranges d1 = ranges d \<or> ranges d1 = \<lparr>lo = p, hi = p + uint sz - 1, r_index = i\<rparr> # ranges d"
    using add_range_ok [OF ins(3,1,2) s(1) sz(2) nodes no] by metis
  have ids: "ids_ok d1 n" using tracksD(1) [OF t] d1(2) by (simp add: ids_ok_def)
  let ?d = "entered e d1 i p sz"
  have "tracks e ?d n (insert i I) L' (K(i := k))"
    using t i _ s(1) sz(2) _ _ d1(2-4,7)
    by (rule entered_tracks) (use new(3) fresh_separate [OF t new(1)] in auto)
  moreover have "rel (sys ?d) L'"
    using rel_write_mem [OF new(2), of p k p] new(2,3) sz(2) d1(4)
    by (auto simp: entered_def Let_def word_size_simps)
  ultimately show ?thesis
    using d1 s(2) enter_eq [OF ids i(2,3)] entered_fields(10,11) [OF ids i(2,3)]
    by (intro exI [of _ d1] exI [of _ ?d] exI [of _ "K(i := k)"]) simp
qed

lemma valid_alloc_ok:
  assumes t: "tracks e d n I L K" and r: "rel (sys d) L" and i: "i \<notin> I" "0 \<le> i" "i < n"
    and sz: "request_ok lim sz" and pk: "pk_malloc pk = al" and nodes: "\<And>c. node_ok e c"
  shows "(\<exists>d'. valid_alloc e pk d i sz = Inr (False, d') \<and> err_log d' = Malloc_failed # err_log d)
    \<or> (\<exists>d' L' K'. valid_alloc e pk d i sz = Inr (True, d') \<and> err_log d' = err_log d
        \<and> errors d' = errors d \<and> tracks e d' n (insert i I) L' K' \<and> rel (sys d') L')"
proof -
  obtain p s where a: "al (sys d) sz = Some (p, s)" "alloc_result rel (sys d) L (uint sz) p s"
    using al_returns [OF r, of sz] sz by (auto simp: request_ok_def)
  show ?thesis
  proof (cases "p = 0")
    case True
    with a show ?thesis by (simp add: valid_alloc_def pk malloc_error_def)
  next
    case False
    with a obtain k where k: "uint sz \<le> k" "fresh_in L p k" "rel s (insert (p, k) L)"
      and same: "same_on L (store (sys d)) (store s)" by (auto simp: alloc_result_def)
    let ?d = "d\<lparr>sys := s\<rparr>"
    have "tracks e ?d n I L K"
      using t by (rule tracks_cong) (use tracksD(2) [OF t] same in \<open>auto simp: owns_def dest: same_onD\<close>)
    then obtain d1 d2 K' where "add_range e ?d p (size_to_int sz) i = Inr (True, d1)"
      "enter e d1 i p sz = Inr d2" "tracks e d2 n (insert i I) (insert (p, k) L) K'"
      "rel (sys d2) (insert (p, k) L)" "err_log d2 = err_log d" "errors d2 = errors d"
      using accept_block [of e ?d n I L K i sz k p "insert (p, k) L"] i sz k nodes by auto
    moreover from this(1,2) a(1) False have "valid_alloc e pk d i sz = Inr (True, d2)"
      by (auto simp: valid_alloc_def pk enter_def and_then_Inr)
    ultimately show ?thesis by blast
  qed
qed

lemma valid_loop_allocs:
  assumes pk: "pk_malloc pk = al" "pk_checkheap pk = ck" and nodes: "\<And>c. node_ok e c"
  shows "tracks e d n I L K \<Longrightarrow> rel (sys d) L \<Longrightarrow> alloc_trace lim n ts
    \<Longrightarrow> I \<inter> op_index ` set ts = {}
    \<Longrightarrow> (\<exists>d'. valid_loop e pk d ts = Inr (False, d') \<and> err_log d' = Malloc_failed # err_log d)
      \<or> (\<exists>d'. valid_loop e pk d ts = Inr (True, d') \<and> err_log d' = err_log d \<and> errors d' = errors d)"
proof (induction ts arbitrary: d I L K)
  case Nil
  then show ?case by simp
next
  case (Cons t ts)
  note tr = Cons.prems(1) and r = Cons.prems(2)
  have pre: "valid_pre e pk d = Inr d"
    using tr by (rule valid_pre_ok) (simp add: pk ck_returns [OF r])
  have t: "op_type t = ALLOC" "0 \<le> op_index t" "op_index t < n" "request_ok lim (op_size t)"
    "op_index t \<notin> I" and ts: "alloc_trace lim n ts" "op_index t \<notin> op_index ` set ts"
    using Cons.prems(3,4) by (auto simp: alloc_trace_def)
  have op: "valid_op e pk d t = valid_alloc e pk d (op_index t) (op_size t)"
    using t(1) by (simp add: valid_op_def pre)
  from valid_alloc_ok [OF tr r t(5,2,3,4) pk(1) nodes] show ?case
  proof (elim disjE exE conjE)
    fix d' assume "valid_alloc e pk d (op_index t) (op_size t) = Inr (False, d')"
      "err_log d' = Malloc_failed # err_log d"
    then show ?thesis by (simp add: op)
  next
    fix d' L' K'
    assume d': "valid_alloc e pk d (op_index t) (op_size t) = Inr (True, d')" "err_log d' = err_log d"
      "errors d' = errors d" "tracks e d' n (insert (op_index t) I) L' K'" "rel (sys d') L'"
    have "insert (op_index t) I \<inter> op_index ` set ts = {}" using Cons.prems(4) ts(2) by auto
    from Cons.IH [OF d'(4,5) ts(1) this] d' show ?thesis by (auto simp: op)
  qed
qed

text \<open>The driver on a trace that only allocates.\<close>

lemma eval_mm_valid_allocs:
  assumes pk: "pk_malloc pk = al" "pk_checkheap pk = ck" "pk_init pk = ini"
    and nodes: "\<And>c. node_ok e c" and d: "ids_ok d n" "brk_ok (sys d)" "8 dvd heap (sys d)"
    and ts: "alloc_trace lim n (ops (trace d))"
  shows "\<exists>ok d'. eval_mm_valid e pk d = Inr (ok, d')
    \<and> (if ok then err_log d' = err_log d \<and> errors d' = errors d
       else err_log d' = Malloc_failed # err_log d \<or> err_log d' = Init_failed # err_log d)"
proof -
  define d2 where "d2 = d\<lparr>sys := mem_reset_brk (sys d), ranges := [], trace := reinit_trace (trace d)\<rparr>"
  obtain r s where ini: "ini (sys d2) = (r, s)" by force
  let ?d = "d2\<lparr>sys := s\<rparr>"
  have ev: "eval_mm_valid e pk d = (if r < 0 then Inr (False, malloc_error ?d Init_failed)
      else valid_loop e pk ?d (ops (trace d)))"
    using ini by (simp add: eval_mm_valid_def clear_ranges_def Let_def pk d2_def reinit_trace_def)
  show ?thesis
  proof (cases "r < 0")
    case True
    with ev show ?thesis by (intro exI [of _ False]) (simp add: malloc_error_def d2_def)
  next
    case False
    have "rel s {}"
      using d False by (intro ini_rel [OF _ _ _ ini])
        (auto simp: d2_def mem_reset_brk_def brk_ok_def)
    moreover have "tracks e ?d n {} {} (\<lambda>_. 0)"
      using d(1) by (simp add: tracks_def ids_ok_def d2_def reinit_trace_def)
    ultimately have
      "(\<exists>d'. valid_loop e pk ?d (ops (trace d)) = Inr (False, d') \<and> err_log d' = Malloc_failed # err_log d)
      \<or> (\<exists>d'. valid_loop e pk ?d (ops (trace d)) = Inr (True, d') \<and> err_log d' = err_log d
          \<and> errors d' = errors d)"
      using valid_loop_allocs [OF pk(1,2) nodes, where d = ?d and I = "{}" and L = "{}"
          and n = n and K = "\<lambda>_. 0" and ts = "ops (trace d)"] ts
      by (simp add: d2_def)
    with ev False show ?thesis by (elim disjE exE conjE) (fastforce simp: d2_def)+
  qed
qed

end

subsection \<open>Traces that also free and reallocate\<close>

fun wf_ops :: "int \<Rightarrow> int \<Rightarrow> int set \<Rightarrow> traceop_t list \<Rightarrow> bool" where
  "wf_ops lm n I [] = True"
| "wf_ops lm n I (t # ts) =
     (let i = op_index t in
      case op_type t of
        ALLOC \<Rightarrow> i \<notin> I \<and> 0 \<le> i \<and> i < n \<and> request_ok lm (op_size t) \<and> wf_ops lm n (insert i I) ts
      | REALLOC \<Rightarrow> i \<in> I \<and> request_ok lm (op_size t) \<and> wf_ops lm n I ts
      | FREE \<Rightarrow> (if i = -1 then wf_ops lm n I ts else i \<in> I \<and> wf_ops lm n (I - {i}) ts))"

lemma remove_range_tracked:
  assumes t: "tracks e d n I L K" and i: "i \<in> I"
  shows "set is \<subseteq> I \<Longrightarrow> distinct is
    \<Longrightarrow> remove_range (map (range_of d) is) (blk_at d i) = map (range_of d) (remove1 i is)"
proof (induction "is")
  case (Cons j "is")
  have "blk_at d j \<noteq> blk_at d i" if "j \<noteq> i"
    using tracksD(3) [OF t, of j i] tracksD(2) [OF t] Cons.prems(1) i that
    by (fastforce simp: separate_def owns_def)
  with Cons show ?case by (auto simp: range_of_def)
qed simp

lemma tracks_remove:
  assumes t: "tracks e d n I L K" and i: "i \<in> I"
  shows "tracks e (d\<lparr>ranges := remove_range (ranges d) (blk_at d i)\<rparr>) n (I - {i})
    (L - {(blk_at d i, K i)}) K"
proof -
  let ?d = "d\<lparr>ranges := remove_range (ranges d) (blk_at d i)\<rparr>"
  obtain "is" where "is": "set is \<subseteq> I" "distinct is" "ranges d = map (range_of d) is"
    using t by (auto simp: tracks_def)
  have "range_of ?d = range_of d" by (rule ext) (simp add: range_of_def)
  then have r: "ranges ?d = map (range_of ?d) (remove1 i is)"
    using remove_range_tracked [OF t i "is"(1,2)] "is"(3) by simp
  have "owns e ?d n (L - {(blk_at d i, K i)}) K j" if j: "j \<in> I" "j \<noteq> i" for j
  proof -
    have "owns e d n L K i" "owns e d n L K j" "separate d K j i"
      using t i j by (auto dest: tracksD)
    then show ?thesis by (auto simp: owns_def holds_data_def separate_def rand_byte_def)
  qed
  moreover have "set (remove1 i is) \<subseteq> I - {i}" "distinct (remove1 i is)" using "is" by auto
  ultimately show ?thesis
    using t r unfolding tracks_def by (auto simp: ids_ok_def separate_def)
qed

context reclaimer
begin

lemma valid_free_ok:
  assumes t: "tracks e d n I L K" and r: "rel (sys d) L" and i: "i \<in> I" and pk: "pk_free pk = fr"
  shows "\<exists>d'. valid_free e pk d i = Inr d' \<and> err_log d' = err_log d \<and> errors d' = errors d
    \<and> tracks e d' n (I - {i}) (L - {(blk_at d i, K i)}) K \<and> rel (sys d') (L - {(blk_at d i, K i)})"
proof -
  let ?p = "blk_at d i" and ?L = "L - {(blk_at d i, K i)}"
  let ?d = "d\<lparr>ranges := remove_range (ranges d) ?p\<rparr>"
  have o: "owns e d n L K i" and ids: "ids_ok d n" using t i by (auto dest: tracksD)
  then have mem: "(?p, K i) \<in> L" and bd: "0 \<le> i" "i < int (length (blocks (trace d)))"
    by (auto simp: owns_def ids_ok_def)
  have f: "rel (fr (sys d) ?p) ?L" "same_on ?L (store (sys d)) (store (fr (sys d) ?p))"
    using fr_rel [OF r mem] by auto
  have eq: "valid_free e pk d i = Inr (?d\<lparr>sys := fr (sys d) ?p\<rparr>)"
    using check_index_ok [OF t i] bd by (simp add: valid_free_def pk)
  have td: "tracks e ?d n (I - {i}) ?L K" using t i by (rule tracks_remove)
  have "tracks e (?d\<lparr>sys := fr (sys d) ?p\<rparr>) n (I - {i}) ?L K"
    using td by (rule tracks_cong)
      (use tracksD(2) [OF td] f(2) in \<open>auto simp: owns_def dest: same_onD\<close>)
  with eq f(1) show ?thesis by auto
qed

lemma valid_free_null:
  assumes t: "tracks e d n I L K" and r: "rel (sys d) L" and pk: "pk_free pk = fr"
  shows "\<exists>d'. valid_free e pk d (-1) = Inr d' \<and> err_log d' = err_log d \<and> errors d' = errors d
    \<and> tracks e d' n I L K \<and> rel (sys d') L"
proof -
  have f: "rel (fr (sys d) 0) L" "same_on L (store (sys d)) (store (fr (sys d) 0))"
    using fr_null [OF r] by auto
  have "valid_free e pk d (-1) = Inr (d\<lparr>sys := fr (sys d) 0\<rparr>)"
    by (simp add: valid_free_def check_index_def pk)
  moreover have "tracks e (d\<lparr>sys := fr (sys d) 0\<rparr>) n I L K"
    using t by (rule tracks_cong) (use tracksD(2) [OF t] f(2) in \<open>auto simp: owns_def dest: same_onD\<close>)
  ultimately show ?thesis using f(1) by auto
qed

text \<open>Moving a block: the copied prefix is checked against the data of the old block.\<close>

lemma move_checked:
  assumes ids: "ids_ok d n" and i: "0 \<le> i" "i < n"
    and copied: "debug_mode e \<noteq> DBG_NONE \<Longrightarrow> \<forall>j < min (unat (size_at d i)) (unat sz).
        store (sys d) (p + int j) = rand_byte d (base_at d i) j"
  shows "and_then (set_block d i p) (\<lambda>d4. and_then (array_get (block_sizes (trace d4)) i) (\<lambda>old.
      and_then (if sz < old then set_size d4 i sz else Inr d4) (\<lambda>d5.
      and_then (check_index e d5 i) (\<lambda>d6.
      and_then (set_size d6 i sz) (\<lambda>d7.
      and_then (randomize_block e d7 i) (\<lambda>d8. Inr (True, d8)))))))
    = and_then (enter e d i p sz) (\<lambda>d8. Inr (True, d8))"
proof -
  define k where "k = (if sz < size_at d i then sz else size_at d i)"
  let ?t = "(trace d)\<lparr>blocks := (blocks (trace d))[nat i := p]\<rparr>"
  let ?d5 = "d\<lparr>trace := ?t\<lparr>block_sizes := (block_sizes (trace d))[nat i := k]\<rparr>\<rparr>"
  have len: "nat i < length (blocks (trace d))" "nat i < length (block_sizes (trace d))"
    "nat i < length (block_rand_base (trace d))"
    using ids i by (auto simp: ids_ok_def)
  have b: "set_block d i p = Inr (d\<lparr>trace := ?t\<rparr>)"
    "array_get (block_sizes ?t) i = Inr (size_at d i)"
    using len i by (auto simp: set_block_def)
  have five: "(if sz < size_at d i then set_size (d\<lparr>trace := ?t\<rparr>) i sz else Inr (d\<lparr>trace := ?t\<rparr>))
      = Inr ?d5"
    using len i by (auto simp: set_size_def k_def)
  have "unat k = min (unat (size_at d i)) (unat sz)" by (simp add: word_less_nat_alt min_def k_def)
  then have "garbled ?d5 p (base_at d i) (unat k) = []" if "debug_mode e \<noteq> DBG_NONE"
    using copied [OF that] by (simp add: garbled_def filter_empty_conv rand_byte_def)
  then have "check_index e ?d5 i = Inr ?d5"
    using len i by (simp add: check_index_def)
  with b five len i show ?thesis by (simp add: enter_def set_size_def)
qed

lemma valid_realloc_ok:
  assumes t: "tracks e d n I L K" and r: "rel (sys d) L" and i: "i \<in> I"
    and sz: "request_ok lim sz" and pk: "pk_realloc pk = re" and nodes: "\<And>c. node_ok e c"
  shows "(\<exists>d'. valid_realloc e pk d i sz = Inr (False, d') \<and> err_log d' = Realloc_failed # err_log d)
    \<or> (\<exists>d' L' K'. valid_realloc e pk d i sz = Inr (True, d') \<and> err_log d' = err_log d
        \<and> errors d' = errors d \<and> tracks e d' n I L' K' \<and> rel (sys d') L')"
proof -
  let ?p = "blk_at d i" and ?k = "K i" and ?L = "L - {(blk_at d i, K i)}"
  have o: "owns e d n L K i" and ids: "ids_ok d n" using t i by (auto dest: tracksD)
  then have mem: "(?p, ?k) \<in> L" and bd: "0 \<le> i" "i < n" and sk: "uint (size_at d i) \<le> ?k"
    by (auto simp: owns_def)
  have bi: "i < int (length (blocks (trace d)))" using ids bd by (simp add: ids_ok_def)
  have nz: "sz \<noteq> 0" "sz > 0" using sz by (auto simp: request_ok_def word_less_def)
  obtain q s where q: "re (sys d) ?p sz = Some (q, s)"
    "alloc_result rel (sys d) (if q = 0 then L else ?L) (uint sz) q s"
    "q \<noteq> 0 \<longrightarrow> (\<forall>j. 0 \<le> j \<and> j < min ?k (uint sz) \<longrightarrow> store s (q + j) = store (sys d) (?p + j))"
    using re_returns [OF r mem, of sz] sz by (auto simp: request_ok_def)
  show ?thesis
  proof (cases "q = 0")
    case True
    with q(1) nz show ?thesis
      using check_index_ok [OF t i] bd bi by (simp add: valid_realloc_def pk malloc_error_def)
  next
    case False
    with q(2) obtain k where k: "uint sz \<le> k" "fresh_in ?L q k" "rel s (insert (q, k) ?L)"
      and same: "same_on ?L (store (sys d)) (store s)" by (auto simp: alloc_result_def)
    let ?d = "d\<lparr>ranges := remove_range (ranges d) ?p\<rparr>"
    let ?d2 = "d\<lparr>sys := s, ranges := remove_range (ranges d) ?p\<rparr>"
    have td: "tracks e ?d n (I - {i}) ?L K" using t i by (rule tracks_remove)
    have td2: "tracks e ?d2 n (I - {i}) ?L K"
      using td by (rule tracks_cong)
        (use tracksD(2) [OF td] same in \<open>auto simp: owns_def dest: same_onD\<close>)
    have "rel (sys ?d2) (insert (q, k) ?L)" using k(3) by simp
    from accept_block [OF td2 _ bd sz k(1,2) this refl nodes]
    obtain d3 d8 K' where a: "add_range e ?d2 q (size_to_int sz) i = Inr (True, d3)"
      "trace d3 = trace d" "random_data d3 = random_data d" "sys d3 = s"
      "enter e d3 i q sz = Inr d8" "tracks e d8 n (insert i (I - {i})) (insert (q, k) ?L) K'"
      "rel (sys d8) (insert (q, k) ?L)" "err_log d8 = err_log d" "errors d8 = errors d"
      by auto
    have "ids_ok d3 n" using ids a(2) by (simp add: ids_ok_def)
    moreover have "\<forall>j < min (unat (size_at d3 i)) (unat sz).
        store (sys d3) (q + int j) = rand_byte d3 (base_at d3 i) j" if "debug_mode e \<noteq> DBG_NONE"
      using o that q(3) False sk
      by (auto simp: owns_def holds_data_def a(2-4) word_size_simps rand_byte_def)
    ultimately have "valid_realloc e pk d i sz = Inr (True, d8)"
      using check_index_ok [OF t i] bd bi q(1) nz False a(1,5) move_checked [of d3 n i e sz q]
      by (simp add: valid_realloc_def pk)
    with a i show ?thesis by (auto simp: insert_absorb)
  qed
qed

lemma valid_loop_ok:
  assumes pk: "pk_malloc pk = al" "pk_checkheap pk = ck" "pk_free pk = fr" "pk_realloc pk = re"
    and nodes: "\<And>c. node_ok e c"
  shows "tracks e d n I L K \<Longrightarrow> rel (sys d) L \<Longrightarrow> wf_ops lim n I ts
    \<Longrightarrow> \<exists>ok d'. valid_loop e pk d ts = Inr (ok, d')
      \<and> (if ok then err_log d' = err_log d \<and> errors d' = errors d
         else err_log d' \<in> {Malloc_failed # err_log d, Realloc_failed # err_log d})"
proof (induction ts arbitrary: d I L K)
  case Nil
  then show ?case by (intro exI [of _ True]) simp
next
  case (Cons t ts)
  let ?i = "op_index t"
  note tr = Cons.prems(1) and r = Cons.prems(2)
  have pre: "valid_pre e pk d = Inr d"
    using tr by (rule valid_pre_ok) (simp add: pk ck_returns [OF r])
  have step: ?case if "valid_op e pk d t = Inr (True, d1)" "err_log d1 = err_log d"
    "errors d1 = errors d" "tracks e d1 n I1 L1 K1" "rel (sys d1) L1" "wf_ops lim n I1 ts"
    for d1 I1 L1 K1
  proof -
    from Cons.IH [OF that(4-6)] obtain ok d' where "valid_loop e pk d1 ts = Inr (ok, d')"
      "if ok then err_log d' = err_log d1 \<and> errors d' = errors d1
       else err_log d' \<in> {Malloc_failed # err_log d1, Realloc_failed # err_log d1}" by blast
    with that(1-3) show ?thesis by (intro exI [of _ ok] exI [of _ d'], cases ok) simp_all
  qed
  have stop: ?case if "valid_op e pk d t = Inr (False, d1)"
    "err_log d1 \<in> {Malloc_failed # err_log d, Realloc_failed # err_log d}" for d1
    using that by (intro exI [of _ False] exI [of _ d1]) simp
  show ?case
  proof (cases "op_type t")
    case ALLOC
    with Cons.prems(3) have w: "?i \<notin> I" "0 \<le> ?i" "?i < n" "request_ok lim (op_size t)"
      "wf_ops lim n (insert ?i I) ts" by (simp_all add: Let_def)
    have op: "valid_op e pk d t = valid_alloc e pk d ?i (op_size t)"
      using ALLOC by (simp add: valid_op_def pre)
    from valid_alloc_ok [OF tr r w(1-4) pk(1) nodes] show ?thesis
    proof (elim disjE exE conjE)
      fix d1 assume "valid_alloc e pk d ?i (op_size t) = Inr (False, d1)"
        "err_log d1 = Malloc_failed # err_log d"
      then show ?thesis using op by (intro stop [of d1]) simp_all
    next
      fix d1 L1 K1
      assume "valid_alloc e pk d ?i (op_size t) = Inr (True, d1)" "err_log d1 = err_log d"
        "errors d1 = errors d" "tracks e d1 n (insert ?i I) L1 K1" "rel (sys d1) L1"
      with op w(5) show ?thesis by (intro step) simp_all
    qed
  next
    case FREE
    show ?thesis
    proof (cases "?i = -1")
      case True
      with Cons.prems(3) FREE have "wf_ops lim n I ts" by (simp add: Let_def)
      moreover obtain d1 where "valid_free e pk d (-1) = Inr d1" "err_log d1 = err_log d"
        "errors d1 = errors d" "tracks e d1 n I L K" "rel (sys d1) L"
        using valid_free_null [OF tr r pk(3)] by blast
      ultimately show ?thesis
        using FREE True by (intro step [of d1]) (simp_all add: valid_op_def pre)
    next
      case False
      with Cons.prems(3) FREE have w: "?i \<in> I" "wf_ops lim n (I - {?i}) ts"
        by (simp_all add: Let_def)
      obtain d1 where "valid_free e pk d ?i = Inr d1" "err_log d1 = err_log d"
        "errors d1 = errors d" "tracks e d1 n (I - {?i}) (L - {(blk_at d ?i, K ?i)}) K"
        "rel (sys d1) (L - {(blk_at d ?i, K ?i)})"
        using valid_free_ok [OF tr r w(1) pk(3)] by blast
      then show ?thesis
        using FREE w(2) by (intro step [of d1]) (simp_all add: valid_op_def pre)
    qed
  next
    case REALLOC
    with Cons.prems(3) have w: "?i \<in> I" "request_ok lim (op_size t)" "wf_ops lim n I ts"
      by (simp_all add: Let_def)
    have op: "valid_op e pk d t = valid_realloc e pk d ?i (op_size t)"
      using REALLOC by (simp add: valid_op_def pre)
    from valid_realloc_ok [OF tr r w(1,2) pk(4) nodes] show ?thesis
    proof (elim disjE exE conjE)
      fix d1 assume "valid_realloc e pk d ?i (op_size t) = Inr (False, d1)"
        "err_log d1 = Realloc_failed # err_log d"
      then show ?thesis using op by (intro stop [of d1]) simp_all
    next
      fix d1 L1 K1
      assume "valid_realloc e pk d ?i (op_size t) = Inr (True, d1)" "err_log d1 = err_log d"
        "errors d1 = errors d" "tracks e d1 n I L1 K1" "rel (sys d1) L1"
      with op w(3) show ?thesis by (intro step) simp_all
    qed
  qed
qed

lemma eval_mm_valid_ok:
  assumes pk: "pk_malloc pk = al" "pk_checkheap pk = ck" "pk_free pk = fr" "pk_realloc pk = re"
      "pk_init pk = ini"
    and nodes: "\<And>c. node_ok e c" and d: "ids_ok d n" "brk_ok (sys d)" "8 dvd heap (sys d)"
    and ts: "wf_ops lim n {} (ops (trace d))"
  shows "\<exists>ok d'. eval_mm_valid e pk d = Inr (ok, d')
    \<and> (if ok then err_log d' = err_log d \<and> errors d' = errors d
       else err_log d' \<in> {Malloc_failed # err_log d, Realloc_failed # err_log d, Init_failed # err_log d})"
proof -
  define d2 where "d2 = d\<lparr>sys := mem_reset_brk (sys d), ranges := [], trace := reinit_trace (trace d)\<rparr>"
  obtain r s where ini: "ini (sys d2) = (r, s)" by force
  let ?d = "d2\<lparr>sys := s\<rparr>"
  have ev: "eval_mm_valid e pk d = (if r < 0 then Inr (False, malloc_error ?d Init_failed)
      else valid_loop e pk ?d (ops (trace d)))"
    using ini by (simp add: eval_mm_valid_def clear_ranges_def Let_def pk d2_def reinit_trace_def)
  show ?thesis
  proof (cases "r < 0")
    case True
    with ev show ?thesis by (intro exI [of _ False]) (simp add: malloc_error_def d2_def)
  next
    case False
    have "rel s {}"
      using d False by (intro ini_rel [OF _ _ _ ini])
        (auto simp: d2_def mem_reset_brk_def brk_ok_def)
    moreover have "tracks e ?d n {} {} (\<lambda>_. 0)"
      using d(1) by (simp add: tracks_def ids_ok_def d2_def reinit_trace_def)
    ultimately obtain ok d' where lp: "valid_loop e pk ?d (ops (trace d)) = Inr (ok, d')"
      "if ok then err_log d' = err_log ?d \<and> errors d' = errors ?d
       else err_log d' \<in> {Malloc_failed # err_log ?d, Realloc_failed # err_log ?d}"
      using valid_loop_ok [OF pk(1-4) nodes, where d = ?d and I = "{}" and L = "{}"
          and n = n and K = "\<lambda>_. 0" and ts = "ops (trace d)"] ts by auto
    have "err_log ?d = err_log d" "errors ?d = errors d" by (simp_all add: d2_def)
    with lp ev False show ?thesis by (intro exI [of _ ok] exI [of _ d'], cases ok) auto
  qed
qed

end

end
