(* ===== verification/Cstr.thy ===== *)
theory Cstr
  imports Prelude
begin

section \<open>C strings and decimal numbers\<close>

text \<open>
  The functions of \<open>string.h\<close>, \<open>ctype.h\<close> and \<open>stdlib.h\<close> that the programs use, on strings
  without their terminating NUL, and the decimal conversions of \<open>printf\<close> and \<open>scanf\<close> with the
  lemma that reading back what was printed gives the number.
\<close>

subsection \<open>Characters\<close>

definition isspace :: "char \<Rightarrow> bool" where
  "isspace c \<longleftrightarrow> c = CHR '' '' \<or> (9 \<le> (of_char c :: nat) \<and> (of_char c :: nat) \<le> 13)"

definition isdigit :: "char \<Rightarrow> bool" where
  "isdigit c \<longleftrightarrow> 48 \<le> (of_char c :: nat) \<and> (of_char c :: nat) \<le> 57"

definition digit_value :: "char \<Rightarrow> nat" where
  "digit_value c = of_char c - 48"

definition digit_char :: "nat \<Rightarrow> char" where
  "digit_char d = char_of (48 + d)"

lemma of_char_digit_char: "d < 10 \<Longrightarrow> of_char (digit_char d) = (48 + d :: nat)"
  by (simp add: digit_char_def of_char_of)

lemma isdigit_digit_char [simp]: "d < 10 \<Longrightarrow> isdigit (digit_char d)"
  by (simp add: isdigit_def of_char_digit_char)

lemma digit_value_digit_char [simp]: "d < 10 \<Longrightarrow> digit_value (digit_char d) = d"
  by (simp add: digit_value_def of_char_digit_char)

lemma digit_not_space: "isdigit c \<Longrightarrow> \<not> isspace c"
  by (auto simp: isdigit_def isspace_def)

lemma digit_not_minus: "isdigit c \<Longrightarrow> c \<noteq> CHR ''-'' \<and> c \<noteq> CHR ''+''"
  by (auto simp: isdigit_def)

subsection \<open>Searching\<close>

text \<open>\<open>strspn\<close> and \<open>strcspn\<close>, and \<open>strchr\<close> as the offset of the first occurrence.\<close>

definition strspn :: "string \<Rightarrow> string \<Rightarrow> nat" where
  "strspn s cs = length (takeWhile (\<lambda>c. c \<in> set cs) s)"

definition strcspn :: "string \<Rightarrow> string \<Rightarrow> nat" where
  "strcspn s cs = length (takeWhile (\<lambda>c. c \<notin> set cs) s)"

definition strchr :: "string \<Rightarrow> char \<Rightarrow> nat option" where
  "strchr s c = (if c \<in> set s then Some (length (takeWhile (\<lambda>x. x \<noteq> c) s)) else None)"

fun strstr :: "string \<Rightarrow> string \<Rightarrow> nat option" where
  "strstr [] pat = (if pat = [] then Some 0 else None)"
| "strstr (c # s) pat =
     (if take (length pat) (c # s) = pat then Some 0 else map_option Suc (strstr s pat))"

lemma strchr_Some:
  assumes "strchr s c = Some i"
  shows "i < length s" "s ! i = c" "\<And>j. j < i \<Longrightarrow> s ! j \<noteq> c"
proof -
  from assms have c: "c \<in> set s" and i: "i = length (takeWhile (\<lambda>x. x \<noteq> c) s)"
    by (auto simp: strchr_def split: if_splits)
  have "takeWhile (\<lambda>x. x \<noteq> c) s \<noteq> s"
    using c by (auto simp: takeWhile_eq_all_conv)
  then have "length (takeWhile (\<lambda>x. x \<noteq> c) s) \<noteq> length s"
    using takeWhile_eq_take [of "\<lambda>x. x \<noteq> c" s] c by auto
  with length_takeWhile_le [of "\<lambda>x. x \<noteq> c" s] show "i < length s" unfolding i by simp
  then show "s ! i = c" unfolding i using nth_length_takeWhile [of "\<lambda>x. x \<noteq> c" s] by simp
  show "s ! j \<noteq> c" if "j < i" for j
  proof -
    let ?t = "takeWhile (\<lambda>x. x \<noteq> c) s"
    have j: "j < length ?t" using that i by simp
    then have "?t ! j \<in> set ?t" by (rule nth_mem)
    with takeWhile_nth [OF j] show ?thesis by (auto dest: set_takeWhileD)
  qed
qed

lemma strstr_Some: "strstr s pat = Some i \<Longrightarrow> take (length pat) (drop i s) = pat"
  by (induction s pat arbitrary: i rule: strstr.induct) (auto split: if_splits)

lemma strstr_first:
  "strstr s pat = Some i \<Longrightarrow> j < i \<Longrightarrow> take (length pat) (drop j s) \<noteq> pat"
proof (induction s pat arbitrary: i j rule: strstr.induct)
  case (2 c s pat)
  then show ?case by (cases j) (auto split: if_splits)
qed (auto split: if_splits)

lemma strstr_None: "strstr s pat = None \<Longrightarrow> take (length pat) (drop j s) \<noteq> pat"
proof (induction s pat arbitrary: j rule: strstr.induct)
  case (2 c s pat)
  then show ?case by (cases j) (auto split: if_splits)
qed (auto split: if_splits)

subsection \<open>Decimal numbers\<close>

definition dec_value :: "string \<Rightarrow> nat" where
  "dec_value ds = foldl (\<lambda>a c. 10 * a + digit_value c) 0 ds"

fun show_nat :: "nat \<Rightarrow> string" where
  "show_nat n = (if n < 10 then [digit_char n] else show_nat (n div 10) @ [digit_char (n mod 10)])"

declare show_nat.simps [simp del]

definition show_int :: "int \<Rightarrow> string" where
  "show_int n = (if n < 0 then CHR ''-'' # show_nat (nat (- n)) else show_nat (nat n))"

text \<open>What \<open>strtol\<close>, \<open>atoi\<close> and the conversions of \<open>scanf\<close> read: white space, a sign, digits. The
  result is None when there are no digits.\<close>

definition split_sign :: "string \<Rightarrow> int \<times> string" where
  "split_sign s = (case s of [] \<Rightarrow> (1, [])
     | c # cs \<Rightarrow> if c = CHR ''-'' then (-1, cs) else if c = CHR ''+'' then (1, cs) else (1, s))"

definition scan_int :: "string \<Rightarrow> (int \<times> string) option" where
  "scan_int s =
     (case split_sign (dropWhile isspace s) of (sg, t) \<Rightarrow>
        let ds = takeWhile isdigit t in
        if ds = [] then None else Some (sg * int (dec_value ds), dropWhile isdigit t))"

definition atoi :: "string \<Rightarrow> int" where
  "atoi s = (case scan_int s of None \<Rightarrow> 0 | Some (n, _) \<Rightarrow> sint (word_of_int n :: u32))"

lemma dec_value_snoc [simp]: "dec_value (ds @ [c]) = 10 * dec_value ds + digit_value c"
  by (simp add: dec_value_def)

lemma dec_value_show_nat [simp]: "dec_value (show_nat n) = n"
proof (induction n rule: show_nat.induct)
  case (1 n)
  show ?case
  proof (cases "n < 10")
    case True
    then show ?thesis by (subst show_nat.simps) (simp add: dec_value_def)
  next
    case False
    then show ?thesis using 1 by (subst show_nat.simps) simp
  qed
qed

lemma show_nat_digits: "c \<in> set (show_nat n) \<Longrightarrow> isdigit c"
proof (induction n rule: show_nat.induct)
  case (1 n)
  show ?case
  proof (cases "n < 10")
    case True
    with 1(2) show ?thesis by (subst (asm) show_nat.simps) simp
  next
    case False
    with 1 show ?thesis by (subst (asm) show_nat.simps) auto
  qed
qed

lemma show_nat_not_Nil [simp]: "show_nat n \<noteq> []"
  by (subst show_nat.simps) simp

lemma digits_append:
  assumes "\<And>c. c \<in> set ds \<Longrightarrow> isdigit c" and "rest = [] \<or> \<not> isdigit (hd rest)"
  shows "takeWhile isdigit (ds @ rest) = ds" and "dropWhile isdigit (ds @ rest) = rest"
proof -
  have "takeWhile isdigit rest = []" "dropWhile isdigit rest = rest"
    using assms(2) by (cases rest; simp)+
  with assms(1) show "takeWhile isdigit (ds @ rest) = ds" "dropWhile isdigit (ds @ rest) = rest"
    by (simp_all add: takeWhile_append2 dropWhile_append2)
qed

lemma show_int_no_space: "dropWhile isspace (show_int n @ rest) = show_int n @ rest"
proof -
  have "show_int n \<noteq> []" by (simp add: show_int_def)
  moreover have "\<not> isspace (hd (show_int n))"
  proof (cases "n < 0")
    case False
    have "isdigit (hd (show_nat (nat n)))" by (rule show_nat_digits [of _ "nat n"]) simp
    with False show ?thesis by (simp add: show_int_def digit_not_space)
  qed (simp add: show_int_def isspace_def)
  ultimately show ?thesis by (cases "show_int n") auto
qed

lemma scan_show_int:
  assumes "rest = [] \<or> \<not> isdigit (hd rest)"
  shows "scan_int (show_int n @ rest) = Some (n, rest)"
proof -
  have ds: "\<And>k c. c \<in> set (show_nat k) \<Longrightarrow> isdigit c" by (rule show_nat_digits)
  have sp: "split_sign (show_int n @ rest) =
      (if n < 0 then (-1, show_nat (nat (- n)) @ rest) else (1, show_nat (nat n) @ rest))"
  proof (cases "n < 0")
    case False
    obtain c cs where c: "show_nat (nat n) = c # cs" by (meson neq_Nil_conv show_nat_not_Nil)
    then have "isdigit c" using ds [of c "nat n"] by simp
    with False c show ?thesis by (simp add: show_int_def split_sign_def digit_not_minus)
  qed (simp add: show_int_def split_sign_def)
  show ?thesis
    using digits_append [OF ds assms]
    by (simp add: scan_int_def show_int_no_space sp Let_def)
qed

lemma atoi_show_int:
  assumes "- (2 ^ 31) \<le> n" and "n < 2 ^ 31"
  shows "atoi (show_int n) = n"
proof -
  have "scan_int (show_int n @ []) = Some (n, [])" by (rule scan_show_int) simp
  moreover have "sint (word_of_int n :: u32) = n"
  proof -
    have "sint (word_of_int n :: u32) = signed_take_bit 31 n" by (simp add: sint_sbintrunc')
    also have "\<dots> = n" by (rule signed_take_bit_int_eq_self) (use assms in simp_all)
    finally show ?thesis .
  qed
  ultimately show ?thesis by (simp add: atoi_def)
qed

lemma show_int_chars: "c \<in> set (show_int n) \<Longrightarrow> isdigit c \<or> c = CHR ''-''"
  using show_nat_digits by (auto simp: show_int_def split: if_splits)

lemma length_show_nat: "i < 10 ^ k \<Longrightarrow> 0 < k \<Longrightarrow> length (show_nat i) \<le> k"
proof (induction i arbitrary: k rule: show_nat.induct)
  case (1 i)
  show ?case
  proof (cases "i < 10")
    case True
    then show ?thesis using 1(3) by (subst show_nat.simps) simp
  next
    case False
    then obtain j where j: "k = Suc j" "0 < j" using 1(2,3) by (cases k; cases "k - 1") auto
    then have "i div 10 < 10 ^ j" using 1(2) by (simp add: div_less_iff_less_mult mult.commute)
    from 1(1) [OF False this j(2)] show ?thesis using False j by (subst show_nat.simps) simp
  qed
qed

lemma length_show_int: "\<bar>n\<bar> < 10 ^ k \<Longrightarrow> 0 < k \<Longrightarrow> length (show_int n) \<le> Suc k"
  using length_show_nat [of "nat \<bar>n\<bar>" k] by (auto simp: show_int_def nat_less_iff)

lemma strchr_append: "c \<notin> set s \<Longrightarrow> strchr (s @ c # r) c = Some (length s)"
  by (simp add: strchr_def takeWhile_append2) (subst takeWhile_append2, auto)

lemma scan_int_space: "isspace c \<Longrightarrow> scan_int (c # s) = scan_int s"
  by (simp add: scan_int_def)

end
