(* ===== verification/Mdriver_Eval.thy ===== *)
theory Mdriver_Eval
  imports Mdriver Cstr
begin

section \<open>Reading traces and scoring (malloclab-handout/mdriver.c)\<close>

text \<open>
  The rest of the driver: \<open>read_trace\<close> on the text of a trace file, the runs that measure space
  and speed, the libc runs, the loop over the trace files and the performance index.

  A file system is a map from names to contents. The \<open>int\<close> sums of \<open>eval_mm_util\<close> are the fault
  \<open>Undefined\<close> when they overflow. \<open>fsecs\<close> (the timer) is a parameter; \<open>setjmp\<close> and the alarm,
  and allocation failures of the driver's own arrays of non-negative size, are not modelled.
\<close>

subsection \<open>fscanf\<close>

definition to_int32 :: "int \<Rightarrow> int" where
  "to_int32 v = sint (word_of_int v :: u32)"

lemma to_int32_id: "- (2 ^ 31) \<le> v \<Longrightarrow> v < 2 ^ 31 \<Longrightarrow> to_int32 v = v"
  by (simp add: to_int32_def signed_of_int signed_take_bit_int_eq_self)

definition next_token :: "string \<Rightarrow> (string \<times> string) option" where
  "next_token s =
     (let t = dropWhile isspace s in
      if t = [] then None
      else Some (takeWhile (\<lambda>c. \<not> isspace c) t, dropWhile (\<lambda>c. \<not> isspace c) t))"

text \<open>A conversion that fails leaves its variable alone and the input after the sign.\<close>

definition scan_num :: "string \<Rightarrow> int option \<times> string" where
  "scan_num s = (case scan_int s of
      Some (v, r) \<Rightarrow> (Some (to_int32 v), r)
    | None \<Rightarrow> (None, snd (split_sign (dropWhile isspace s))))"

definition scan_field :: "string \<Rightarrow> (int \<times> string) result" where
  "scan_field s = (case scan_num s of (Some v, r) \<Rightarrow> Inr (v, r) | (None, r) \<Rightarrow> Inl Undefined)"

subsection \<open>read_trace\<close>

text \<open>The variables of the loop: \<open>index\<close>, \<open>size\<close> (not initialised at first), \<open>max_index\<close> and the
  requests read so far.\<close>

record reading =
  rd_index :: int
  rd_size :: "int option"
  rd_max :: int
  rd_ops :: "traceop_t list"

definition scan_two :: "string \<Rightarrow> reading \<Rightarrow> reading \<times> string" where
  "scan_two s r =
     (case scan_num s of
        (None, s1) \<Rightarrow> (r, s1)
      | (Some i, s1) \<Rightarrow> (case scan_num s1 of
            (None, s2) \<Rightarrow> (r\<lparr>rd_index := i\<rparr>, s2)
          | (Some n, s2) \<Rightarrow> (r\<lparr>rd_index := i, rd_size := Some n\<rparr>, s2)))"

definition scan_one :: "string \<Rightarrow> reading \<Rightarrow> reading \<times> string" where
  "scan_one s r =
     (case scan_num s of
        (None, s1) \<Rightarrow> (r, s1)
      | (Some i, s1) \<Rightarrow> (r\<lparr>rd_index := i\<rparr>, if s1 \<noteq> [] \<and> hd s1 = CHR ''d'' then tl s1 else s1))"

definition add_op :: "optype \<Rightarrow> reading \<Rightarrow> reading result" where
  "add_op ty r = (case rd_size r of
      None \<Rightarrow> Inl Undefined
    | Some n \<Rightarrow> Inr (r\<lparr>rd_ops := rd_ops r @ [\<lparr>op_type = ty, op_index = rd_index r, op_size = word_of_int n\<rparr>],
                      rd_max := max (rd_index r) (rd_max r)\<rparr>))"

text \<open>The code leaves the size of a FREE request as \<open>malloc\<close> returned it and never reads it; here it is 0.\<close>

definition read_op :: "string \<Rightarrow> string \<Rightarrow> reading \<Rightarrow> (reading \<times> string) result" where
  "read_op type s r =
     (if length type \<ge> 1024 then Inl Undefined
      else if hd type = CHR ''a'' then
        (case scan_two s r of (r1, s1) \<Rightarrow> and_then (add_op ALLOC r1) (\<lambda>r2. Inr (r2, s1)))
      else if hd type = CHR ''r'' then
        (case scan_two s r of (r1, s1) \<Rightarrow> and_then (add_op REALLOC r1) (\<lambda>r2. Inr (r2, s1)))
      else if hd type = CHR ''f'' then
        (case scan_one s r of (r1, s1) \<Rightarrow>
          Inr (r1\<lparr>rd_ops := rd_ops r1 @ [\<lparr>op_type = FREE, op_index = rd_index r1, op_size = 0\<rparr>]\<rparr>, s1))
      else Inl (Exits 1))"

text \<open>\<open>k\<close> is \<open>num_ops - op_index\<close>: the loop stops when the array of requests is full.\<close>

fun read_ops :: "nat \<Rightarrow> string \<Rightarrow> reading \<Rightarrow> reading result" where
  "read_ops 0 s r = (if next_token s = None then Inr r else Inl Undefined)"
| "read_ops (Suc k) s r =
     (case next_token s of
        None \<Rightarrow> Inr r
      | Some (type, s1) \<Rightarrow> and_then (read_op type s1 r)
          (\<lambda>(r1, s2). if k = 0 then Inr r1 else read_ops k s2 r1))"

definition read_trace :: "(string \<Rightarrow> string option) \<Rightarrow> string \<Rightarrow> string \<Rightarrow> trace_t result" where
  "read_trace fs tracedir name =
     (let path = tracedir @ name in
      if length path \<ge> 1024 then Inl Undefined
      else case fs path of
        None \<Rightarrow> Inl (Exits 1)
      | Some text \<Rightarrow>
          and_then (scan_field text) (\<lambda>(w, s1).
          and_then (scan_field s1) (\<lambda>(ids, s2).
          and_then (scan_field s2) (\<lambda>(nops, s3).
          and_then (scan_field s3) (\<lambda>(ign, s4).
            if w < 0 \<or> w > 3 then Inl (Exits 1)
            else if ign \<noteq> 0 \<and> ign \<noteq> 1 then Inl (Exits 1)
            else if nops < 0 \<or> ids < 0 then Inl (Exits 1)
            else and_then (read_ops (nat nops) s4
                   \<lparr>rd_index = 0, rd_size = None, rd_max = 0, rd_ops = []\<rparr>) (\<lambda>r.
              if rd_max r \<noteq> ids - 1 then Inl Assert_fails
              else if nops \<noteq> int (length (rd_ops r)) then Inl Assert_fails
              else Inr \<lparr>filename = path, ignore_ranges = ign, num_ids = ids, num_ops = nops,
                        weight = w, ops = rd_ops r, blocks = replicate (nat ids) 0,
                        block_sizes = replicate (nat ids) 0,
                        block_rand_base = replicate (nat ids) 0\<rparr>))))))"

subsection \<open>eval_mm_util\<close>

definition checked_int :: "int \<Rightarrow> int result" where
  "checked_int v = (if - (2 ^ 31) \<le> v \<and> v < 2 ^ 31 then Inr v else Inl Undefined)"

definition util_alloc :: "'x pkg \<Rightarrow> 'x driver \<Rightarrow> traceop_t \<Rightarrow> int \<Rightarrow> ('x driver \<times> int) result" where
  "util_alloc pk d t tot =
     (let ix = op_index t; sz = size_to_int (op_size t) in
      and_then (returns (pk_malloc pk (sys d) (word_of_int sz))) (\<lambda>(p, s).
        if p = 0 then Inl (Exits 1)
        else and_then (set_block (d\<lparr>sys := s\<rparr>) ix p) (\<lambda>d1.
             and_then (set_size d1 ix (word_of_int sz)) (\<lambda>d2.
             and_then (checked_int (tot + sz)) (\<lambda>tot1. Inr (d2, tot1))))))"

definition util_realloc :: "'x pkg \<Rightarrow> 'x driver \<Rightarrow> traceop_t \<Rightarrow> int \<Rightarrow> ('x driver \<times> int) result" where
  "util_realloc pk d t tot =
     (let ix = op_index t; newsize = size_to_int (op_size t) in
      and_then (array_get (block_sizes (trace d)) ix) (\<lambda>old.
      and_then (array_get (blocks (trace d)) ix) (\<lambda>oldp.
      and_then (returns (pk_realloc pk (sys d) oldp (word_of_int newsize))) (\<lambda>(newp, s).
        if newp = 0 \<and> newsize \<noteq> 0 then Inl (Exits 1)
        else and_then (set_block (d\<lparr>sys := s\<rparr>) ix newp) (\<lambda>d1.
             and_then (set_size d1 ix (word_of_int newsize)) (\<lambda>d2.
             and_then (checked_int (newsize - size_to_int old)) (\<lambda>diff.
             and_then (checked_int (tot + diff)) (\<lambda>tot1. Inr (d2, tot1)))))))))"

definition util_free :: "'x pkg \<Rightarrow> 'x driver \<Rightarrow> traceop_t \<Rightarrow> int \<Rightarrow> ('x driver \<times> int) result" where
  "util_free pk d t tot =
     (let ix = op_index t in
      and_then (if ix < 0 then Inr 0
                else and_then (array_get (block_sizes (trace d)) ix) (\<lambda>n. Inr (size_to_int n))) (\<lambda>sz.
      and_then (if ix < 0 then Inr 0 else array_get (blocks (trace d)) ix) (\<lambda>p.
      and_then (checked_int (tot - sz)) (\<lambda>tot1.
        Inr (d\<lparr>sys := pk_free pk (sys d) p\<rparr>, tot1)))))"

fun util_loop :: "'x pkg \<Rightarrow> 'x driver \<Rightarrow> traceop_t list \<Rightarrow> int \<Rightarrow> int \<Rightarrow> ('x driver \<times> int) result" where
  "util_loop pk d [] tot mx = Inr (d, mx)"
| "util_loop pk d (t # ts) tot mx =
     and_then (case op_type t of ALLOC \<Rightarrow> util_alloc pk d t tot
                 | REALLOC \<Rightarrow> util_realloc pk d t tot | FREE \<Rightarrow> util_free pk d t tot)
       (\<lambda>(d1, tot1). util_loop pk d1 ts tot1 (if tot1 > mx then tot1 else mx))"

definition eval_mm_util :: "'x pkg \<Rightarrow> 'x driver \<Rightarrow> (real \<times> 'x driver) result" where
  "eval_mm_util pk d =
     (let d1 = d\<lparr>trace := reinit_trace (trace d), sys := mem_reset_brk (sys d)\<rparr> in
      case pk_init pk (sys d1) of (r, s) \<Rightarrow>
        if r < 0 then Inl (Exits 1)
        else and_then (util_loop pk (d1\<lparr>sys := s\<rparr>) (ops (trace d1)) 0 0) (\<lambda>(d2, mx).
          Inr (real_of_int mx / real_of_int (uint (mem_heapsize (sys d2))), d2)))"

subsection \<open>eval_mm_speed\<close>

definition speed_op :: "'x pkg \<Rightarrow> 'x driver \<Rightarrow> traceop_t \<Rightarrow> 'x driver result" where
  "speed_op pk d t =
     (let ix = op_index t; sz = word_of_int (size_to_int (op_size t)) in
      case op_type t of
        ALLOC \<Rightarrow> and_then (returns (pk_malloc pk (sys d) sz)) (\<lambda>(p, s).
          if p = 0 then Inl (Exits 1) else set_block (d\<lparr>sys := s\<rparr>) ix p)
      | REALLOC \<Rightarrow> and_then (array_get (blocks (trace d)) ix) (\<lambda>oldp.
          and_then (returns (pk_realloc pk (sys d) oldp sz)) (\<lambda>(newp, s).
            if newp = 0 \<and> size_to_int (op_size t) \<noteq> 0 then Inl (Exits 1)
            else set_block (d\<lparr>sys := s\<rparr>) ix newp))
      | FREE \<Rightarrow> and_then (if ix < 0 then Inr 0 else array_get (blocks (trace d)) ix) (\<lambda>block.
          Inr (d\<lparr>sys := pk_free pk (sys d) block\<rparr>)))"

fun speed_loop :: "'x pkg \<Rightarrow> 'x driver \<Rightarrow> traceop_t list \<Rightarrow> 'x driver result" where
  "speed_loop pk d [] = Inr d"
| "speed_loop pk d (t # ts) = and_then (speed_op pk d t) (\<lambda>d1. speed_loop pk d1 ts)"

definition eval_mm_speed :: "'x pkg \<Rightarrow> 'x driver \<Rightarrow> 'x driver result" where
  "eval_mm_speed pk d =
     (let d1 = d\<lparr>trace := reinit_trace (trace d), sys := mem_reset_brk (sys d)\<rparr> in
      case pk_init pk (sys d1) of (r, s) \<Rightarrow>
        if r < 0 then Inl (Exits 1)
        else speed_loop pk (d1\<lparr>sys := s\<rparr>) (ops (trace d1)))"

subsection \<open>The libc runs\<close>

text \<open>The allocator of the C library: its three calls on a state of its own.\<close>

record 'l libc =
  lc_malloc :: "'l \<Rightarrow> u64 \<Rightarrow> addr \<times> 'l"
  lc_realloc :: "'l \<Rightarrow> addr \<Rightarrow> u64 \<Rightarrow> addr \<times> 'l"
  lc_free :: "'l \<Rightarrow> addr \<Rightarrow> 'l"

definition put_block_ptr :: "trace_t \<Rightarrow> int \<Rightarrow> addr \<Rightarrow> trace_t result" where
  "put_block_ptr t ix p = and_then (array_set (blocks t) ix p) (\<lambda>bs. Inr (t\<lparr>blocks := bs\<rparr>))"

definition libc_valid_op :: "'l libc \<Rightarrow> trace_t \<times> 'l \<Rightarrow> traceop_t \<Rightarrow> (trace_t \<times> 'l) result" where
  "libc_valid_op lc st op =
     (case st of (t, l) \<Rightarrow>
      case op_type op of
        ALLOC \<Rightarrow> (case lc_malloc lc l (op_size op) of (p, l1) \<Rightarrow>
          if p = 0 then Inl (Exits 1)
          else and_then (put_block_ptr t (op_index op) p) (\<lambda>t1. Inr (t1, l1)))
      | REALLOC \<Rightarrow>
          (let newsize = size_to_int (op_size op) in
           and_then (array_get (blocks t) (op_index op)) (\<lambda>oldp.
           case lc_realloc lc l oldp (word_of_int newsize) of (newp, l1) \<Rightarrow>
             if newp = 0 \<and> newsize \<noteq> 0 then Inl (Exits 1)
             else and_then (put_block_ptr t (op_index op) newp) (\<lambda>t1. Inr (t1, l1))))
      | FREE \<Rightarrow>
          if op_index op \<ge> 0
          then and_then (array_get (blocks t) (op_index op)) (\<lambda>p. Inr (t, lc_free lc l p))
          else Inr (t, lc_free lc l 0))"

fun libc_valid_loop :: "'l libc \<Rightarrow> trace_t \<times> 'l \<Rightarrow> traceop_t list \<Rightarrow> (trace_t \<times> 'l) result" where
  "libc_valid_loop lc st [] = Inr st"
| "libc_valid_loop lc st (op # rest) =
     and_then (libc_valid_op lc st op) (\<lambda>st1. libc_valid_loop lc st1 rest)"

definition eval_libc_valid :: "'l libc \<Rightarrow> trace_t \<Rightarrow> 'l \<Rightarrow> (trace_t \<times> 'l) result" where
  "eval_libc_valid lc t l = libc_valid_loop lc (reinit_trace t, l) (ops t)"

definition libc_speed_op :: "'l libc \<Rightarrow> trace_t \<times> 'l \<Rightarrow> traceop_t \<Rightarrow> (trace_t \<times> 'l) result" where
  "libc_speed_op lc st op =
     (case st of (t, l) \<Rightarrow>
      let ix = op_index op; sz = size_to_int (op_size op) in
      case op_type op of
        ALLOC \<Rightarrow> (case lc_malloc lc l (word_of_int sz) of (p, l1) \<Rightarrow>
          if p = 0 then Inl (Exits 1)
          else and_then (put_block_ptr t ix p) (\<lambda>t1. Inr (t1, l1)))
      | REALLOC \<Rightarrow> and_then (array_get (blocks t) ix) (\<lambda>oldp.
           case lc_realloc lc l oldp (word_of_int sz) of (newp, l1) \<Rightarrow>
             if newp = 0 \<and> sz \<noteq> 0 then Inl (Exits 1)
             else and_then (put_block_ptr t ix newp) (\<lambda>t1. Inr (t1, l1)))
      | FREE \<Rightarrow>
          if ix \<ge> 0 then and_then (array_get (blocks t) ix) (\<lambda>block. Inr (t, lc_free lc l block))
          else Inr (t, lc_free lc l 0))"

fun libc_speed_loop :: "'l libc \<Rightarrow> trace_t \<times> 'l \<Rightarrow> traceop_t list \<Rightarrow> (trace_t \<times> 'l) result" where
  "libc_speed_loop lc st [] = Inr st"
| "libc_speed_loop lc st (op # rest) =
     and_then (libc_speed_op lc st op) (\<lambda>st1. libc_speed_loop lc st1 rest)"

definition eval_libc_speed :: "'l libc \<Rightarrow> trace_t \<Rightarrow> 'l \<Rightarrow> (trace_t \<times> 'l) result" where
  "eval_libc_speed lc t l = libc_speed_loop lc (reinit_trace t, l) (ops t)"

subsection \<open>run_tests and the performance index\<close>

record stats_t =
  st_filename :: string
  st_weight :: int
  st_ops :: real
  valid :: bool
  secs :: real
  util :: real

definition stats_of :: "trace_t \<Rightarrow> bool \<Rightarrow> stats_t" where
  "stats_of t ok = \<lparr>st_filename = filename t, st_weight = weight t, st_ops = real_of_int (num_ops t),
     valid = ok, secs = 0, util = 0\<rparr>"

text \<open>One trace file: \<open>mmap\<close> gives the region \<open>base\<close> with the bytes \<open>m0\<close>, \<open>fsecs\<close> the time of
  the speed run.\<close>

definition run_test :: "env \<Rightarrow> 'x pkg \<Rightarrow> (string \<Rightarrow> string option) \<Rightarrow> addr \<Rightarrow> bytes
    \<Rightarrow> ('x driver \<Rightarrow> real) \<Rightarrow> bool \<Rightarrow> string \<Rightarrow> 'x driver \<Rightarrow> string \<Rightarrow> (stats_t \<times> 'x driver) result" where
  "run_test e pk fs base m0 fsecs onetime tracedir d name =
     (let d0 = d\<lparr>sys := mem_init base m0 (sys d)\<rparr> in
      and_then (read_trace fs tracedir name) (\<lambda>t.
      and_then (eval_mm_valid e pk (d0\<lparr>trace := t\<rparr>)) (\<lambda>(ok, d1).
        let st = stats_of t ok in
        if onetime \<or> \<not> ok then Inr (st, d1)
        else and_then (eval_mm_util pk d1) (\<lambda>(u, d2).
             and_then (eval_mm_speed pk d2) (\<lambda>d3.
               Inr (st\<lparr>util := u, secs := fsecs d2\<rparr>, d3))))))"

fun run_tests :: "env \<Rightarrow> 'x pkg \<Rightarrow> (string \<Rightarrow> string option) \<Rightarrow> addr \<Rightarrow> bytes
    \<Rightarrow> ('x driver \<Rightarrow> real) \<Rightarrow> bool \<Rightarrow> string \<Rightarrow> 'x driver \<Rightarrow> string list
    \<Rightarrow> (stats_t list \<times> 'x driver) result" where
  "run_tests e pk fs base m0 fsecs onetime tracedir d [] = Inr ([], d)"
| "run_tests e pk fs base m0 fsecs onetime tracedir d (name # names) =
     and_then (run_test e pk fs base m0 fsecs onetime tracedir d name) (\<lambda>(st, d1).
       if onetime then Inr ([st], d1)
       else and_then (run_tests e pk fs base m0 fsecs onetime tracedir d1 names)
              (\<lambda>(sts, d2). Inr (st # sts, d2)))"

definition MIN_SPEED :: real where "MIN_SPEED = 3000 * 10 ^ 3"
definition MAX_SPEED :: real where "MAX_SPEED = 13750 * 10 ^ 3"
definition MIN_SPACE :: real where "MIN_SPACE = 60 / 100"
definition MAX_SPACE :: real where "MAX_SPACE = 91 / 100"
definition UTIL_WEIGHT :: real where "UTIL_WEIGHT = 61 / 100"

definition counts_perf :: "stats_t \<Rightarrow> bool" where
  "counts_perf st \<longleftrightarrow> st_weight st = 1 \<or> st_weight st = 3"

definition counts_util :: "stats_t \<Rightarrow> bool" where
  "counts_util st \<longleftrightarrow> st_weight st = 1 \<or> st_weight st = 2"

definition avg_mm_util :: "stats_t list \<Rightarrow> real" where
  "avg_mm_util sts =
     (let us = filter counts_util sts in
      if us = [] then 0 else sum_list (map util us) / real (length us))"

definition avg_mm_throughput :: "stats_t list \<Rightarrow> real" where
  "avg_mm_throughput sts =
     (let ps = filter counts_perf sts; t = sum_list (map secs ps); n = sum_list (map st_ops ps) in
      if ps = [] then 0 else if t = 0 then 0 else n / t)"

definition util_points :: "real \<Rightarrow> real" where
  "util_points u =
     (if u < MIN_SPACE then 0
      else if u > MAX_SPACE then UTIL_WEIGHT
      else (u - MIN_SPACE) / (MAX_SPACE - MIN_SPACE) * UTIL_WEIGHT)"

definition speed_points :: "real \<Rightarrow> real" where
  "speed_points v =
     (if v < MIN_SPEED then 0
      else if v > MAX_SPEED then 1 - UTIL_WEIGHT
      else (v - MIN_SPEED) / (MAX_SPEED - MIN_SPEED) * (1 - UTIL_WEIGHT))"

definition perfindex :: "int \<Rightarrow> stats_t list \<Rightarrow> real" where
  "perfindex errs sts =
     (if errs = 0
      then (util_points (avg_mm_util sts) + speed_points (avg_mm_throughput sts)) * 100
      else 0)"

definition numcorrect :: "stats_t list \<Rightarrow> nat" where
  "numcorrect sts = length (filter valid sts)"

end
