(* ===== verification/Mdriver_Props.thy ===== *)
theory Mdriver_Props
  imports Mdriver_Correct Mdriver_Eval
begin

section \<open>What the driver guarantees\<close>

text \<open>
  The driver linked with \<open>mm.c\<close> and with \<open>mm-naive.c\<close>, its trace files written and read back,
  and its checks and scores.
\<close>

subsection \<open>The packages\<close>

definition mm_pkg :: "(nat \<Rightarrow> int \<Rightarrow> bool) \<Rightarrow> unit mm_ext pkg" where
  "mm_pkg sb = \<lparr>pk_init = mm_init sb, pk_malloc = malloc sb,
     pk_realloc = (\<lambda>s p n. Some (realloc s p n)), pk_free = free, pk_checkheap = mm_check\<rparr>"

definition naive_pkg :: "(nat \<Rightarrow> int \<Rightarrow> bool) \<Rightarrow> unit pkg" where
  "naive_pkg sb = \<lparr>pk_init = naive_init, pk_malloc = (\<lambda>s n. Some (naive_malloc sb s n)),
     pk_realloc = (\<lambda>s p n. Some (naive_realloc sb s p n)), pk_free = naive_free,
     pk_checkheap = (\<lambda>s. Some (naive_checkheap s))\<rparr>"

subsection \<open>Trace files written and read back\<close>

definition newline :: char where
  "newline = CHR 0x0A"

definition show_op :: "traceop_t \<Rightarrow> string" where
  "show_op t =
     (case op_type t of
        ALLOC \<Rightarrow> newline # ''a '' @ show_int (op_index t) @ '' '' @ show_int (uint (op_size t))
      | REALLOC \<Rightarrow> newline # ''r '' @ show_int (op_index t) @ '' '' @ show_int (uint (op_size t))
      | FREE \<Rightarrow> newline # ''f '' @ show_int (op_index t))"

definition show_ops :: "traceop_t list \<Rightarrow> string" where
  "show_ops ts = concat (map show_op ts) @ [newline]"

definition show_trace :: "int \<Rightarrow> int \<Rightarrow> int \<Rightarrow> traceop_t list \<Rightarrow> string" where
  "show_trace w ids ign ts =
     show_int w @ newline # show_int ids @ newline # show_int (int (length ts)) @ newline #
     show_int ign @ show_ops ts"

definition op_ok :: "traceop_t \<Rightarrow> bool" where
  "op_ok t \<longleftrightarrow> - (2 ^ 31) \<le> op_index t \<and> op_index t < 2 ^ 31 \<and> uint (op_size t) < 2 ^ 31
     \<and> (op_type t = FREE \<longrightarrow> op_size t = 0)"

definition top_index :: "traceop_t list \<Rightarrow> int \<Rightarrow> int" where
  "top_index ts m = fold (\<lambda>t m. if op_type t = FREE then m else max (op_index t) m) ts m"

lemma newline_facts [simp]: "isspace newline" "\<not> isdigit newline" "newline \<noteq> CHR ''d''"
  by (simp_all add: newline_def isspace_def isdigit_def)

lemma isspace_blank [simp]: "isspace CHR '' ''" "\<not> isdigit CHR '' ''"
  by (simp_all add: isspace_def isdigit_def)

lemma show_ops_hd: "show_ops ts \<noteq> [] \<and> hd (show_ops ts) = newline"
  by (cases ts) (auto simp: show_ops_def show_op_def split: optype.splits)

lemma show_ops_Cons: "show_ops (t # ts) = show_op t @ show_ops ts"
  by (simp add: show_ops_def)

lemma scan_num_show:
  assumes "- (2 ^ 31) \<le> v" "v < 2 ^ 31" and "rest = [] \<or> \<not> isdigit (hd rest)"
  shows "scan_num (show_int v @ rest) = (Some v, rest)"
    and "isspace c \<Longrightarrow> scan_num (c # show_int v @ rest) = (Some v, rest)"
  using scan_show_int [OF assms(3), of v] assms(1,2)
  by (simp_all add: scan_num_def scan_int_space to_int32_id)

lemma next_token_letter:
  "\<not> isspace c \<Longrightarrow> next_token (newline # c # CHR '' '' # s) = Some ([c], CHR '' '' # s)"
  by (simp add: next_token_def Let_def)

lemma letters [simp]: "\<not> isspace CHR ''a''" "\<not> isspace CHR ''r''" "\<not> isspace CHR ''f''"
  by (simp_all add: isspace_def)

text \<open>One request, and then all of them.\<close>

lemma read_show_op:
  assumes "op_ok t"
  shows "\<exists>type s1 r1. next_token (show_op t @ show_ops ts) = Some (type, s1)
    \<and> read_op type s1 r = Inr (r1, show_ops ts)
    \<and> rd_ops r1 = rd_ops r @ [t] \<and> rd_max r1 = top_index [t] (rd_max r)"
proof -
  have rest: "show_ops ts = [] \<or> \<not> isdigit (hd (show_ops ts))"
    "hd (show_ops ts) \<noteq> CHR ''d''" "show_ops ts \<noteq> []"
    using show_ops_hd [of ts] by simp_all
  have ix: "- (2 ^ 31) \<le> op_index t" "op_index t < 2 ^ 31" and sz: "uint (op_size t) < 2 ^ 31"
    using assms by (auto simp: op_ok_def)
  have sz0: "- (2 ^ 31) \<le> uint (op_size t)" by (rule order_trans [of _ 0]) simp_all
  note n2 = scan_num_show(2) [OF sz0 sz rest(1), of "CHR '' ''"]
  have n1: "scan_num (CHR '' '' # show_int (op_index t) @ CHR '' '' # s) =
      (Some (op_index t), CHR '' '' # s)" for s
    using scan_num_show(2) [OF ix, of "CHR '' '' # s" "CHR '' ''"] by simp
  show ?thesis
  proof (cases "op_type t")
    case FREE
    then have "t = \<lparr>op_type = FREE, op_index = op_index t, op_size = 0\<rparr>"
      using assms by (simp add: op_ok_def)
    then show ?thesis
      using FREE scan_num_show(2) [OF ix rest(1), of "CHR '' ''"] rest
      by (simp add: show_op_def next_token_letter read_op_def scan_one_def top_index_def)
  qed (use n1 n2 in \<open>simp add: show_op_def next_token_letter read_op_def scan_two_def add_op_def
        top_index_def\<close>)+
qed

lemma read_show_ops:
  "(\<And>t. t \<in> set ts \<Longrightarrow> op_ok t)
     \<Longrightarrow> \<exists>r1. read_ops (length ts) (show_ops ts) r = Inr r1
       \<and> rd_ops r1 = rd_ops r @ ts \<and> rd_max r1 = top_index ts (rd_max r)"
proof (induction ts arbitrary: r)
  case Nil
  then show ?case by (simp add: show_ops_def next_token_def top_index_def)
next
  case (Cons t ts)
  obtain type s1 r1 where o: "next_token (show_op t @ show_ops ts) = Some (type, s1)"
    "read_op type s1 r = Inr (r1, show_ops ts)" "rd_ops r1 = rd_ops r @ [t]"
    "rd_max r1 = top_index [t] (rd_max r)"
    using read_show_op [of t ts r] Cons.prems by auto
  show ?case
  proof (cases ts)
    case Nil
    with o show ?thesis by (simp add: show_ops_Cons)
  next
    case (Cons t' ts')
    obtain r2 where "read_ops (length ts) (show_ops ts) r1 = Inr r2" "rd_ops r2 = rd_ops r1 @ ts"
      "rd_max r2 = top_index ts (rd_max r1)"
      using Cons.IH [of r1] Cons.prems by auto
    with o Cons show ?thesis by (simp add: show_ops_Cons top_index_def)
  qed
qed

lemma top_index_mono: "m \<le> top_index ts m"
  by (induction ts arbitrary: m) (auto simp: top_index_def intro: order_trans [OF max.cobounded2])

lemma scan_field_show:
  assumes "- (2 ^ 31) \<le> v" "v < 2 ^ 31" and "rest = [] \<or> \<not> isdigit (hd rest)"
  shows "scan_field (show_int v @ rest) = Inr (v, rest)"
    and "isspace c \<Longrightarrow> scan_field (c # show_int v @ rest) = Inr (v, rest)"
  using scan_num_show [OF assms] by (simp_all add: scan_field_def)

text \<open>C29. A trace file written in the format of the handout is read back by \<open>read_trace\<close> as it was:
  for a weight 0 to 3, an ignore flag 0 or 1, requests whose indices and sizes fit an \<open>int\<close>, and the
  number of ids that the requests use, the result holds exactly these values, the requests in
  order, and cleared arrays of one entry per id.\<close>

theorem read_trace_roundtrip:
  assumes "\<forall>t \<in> set ts. op_ok t" and "0 \<le> w" "w \<le> 3" and "ign = 0 \<or> ign = 1"
    and "ids = top_index ts 0 + 1" "ids < 2 ^ 31" "int (length ts) < 2 ^ 31"
    and "length (dir @ name) < 1024" "fs (dir @ name) = Some (show_trace w ids ign ts)"
  shows "read_trace fs dir name = Inr \<lparr>filename = dir @ name, ignore_ranges = ign, num_ids = ids,
    num_ops = int (length ts), weight = w, ops = ts, blocks = replicate (nat ids) 0,
    block_sizes = replicate (nat ids) 0, block_rand_base = replicate (nat ids) 0\<rparr>"
proof -
  have so: "show_ops ts = [] \<or> \<not> isdigit (hd (show_ops ts))" using show_ops_hd [of ts] by simp
  have ids: "0 \<le> ids" "0 < ids" using top_index_mono [of 0 ts] assms(5) by simp_all
  let ?s3 = "newline # show_int ign @ show_ops ts"
  let ?s2 = "newline # show_int (int (length ts)) @ ?s3"
  let ?s1 = "newline # show_int ids @ ?s2"
  have 1: "scan_field (show_trace w ids ign ts) = Inr (w, ?s1)"
    unfolding show_trace_def using assms(2,3) by (intro scan_field_show) simp_all
  have 2: "scan_field ?s1 = Inr (ids, ?s2)" "scan_field ?s2 = Inr (int (length ts), ?s3)"
    using ids assms(6,7) by (intro scan_field_show(2); simp)+
  have 3: "scan_field ?s3 = Inr (ign, show_ops ts)"
    using assms(4) so by (intro scan_field_show(2)) auto
  obtain r where "read_ops (length ts) (show_ops ts)
      \<lparr>rd_index = 0, rd_size = None, rd_max = 0, rd_ops = []\<rparr> = Inr r"
    "rd_ops r = ts" "rd_max r = top_index ts 0"
    using read_show_ops [of ts "\<lparr>rd_index = 0, rd_size = None, rd_max = 0, rd_ops = []\<rparr>"] assms(1)
    by auto
  with 1 2 3 ids assms(2-5,8,9) show ?thesis by (auto simp: read_trace_def)
qed

definition demo_ops :: "traceop_t list" where
  "demo_ops = [\<lparr>op_type = ALLOC, op_index = 0, op_size = 64\<rparr>,
     \<lparr>op_type = ALLOC, op_index = 1, op_size = 8\<rparr>, \<lparr>op_type = REALLOC, op_index = 0, op_size = 128\<rparr>,
     \<lparr>op_type = FREE, op_index = 1, op_size = 0\<rparr>, \<lparr>op_type = FREE, op_index = -1, op_size = 0\<rparr>]"

lemma demo_ops_ok:
  "\<forall>t \<in> set demo_ops. op_ok t" "top_index demo_ops 0 = 1" "length demo_ops = 5"
  "wf_ops naive_lim 2 {} demo_ops" "alloc_trace mm_lim 2 (take 2 demo_ops)"
  by (simp_all add: demo_ops_def op_ok_def top_index_def alloc_trace_def request_ok_def mm_lim_def
      naive_lim_def)

theorem read_trace_roundtrip_witness:
  "read_trace (\<lambda>_. Some (show_trace 1 2 0 demo_ops)) ''./'' ''t'' = Inr \<lparr>filename = ''./t'',
     ignore_ranges = 0, num_ids = 2, num_ops = 5, weight = 1, ops = demo_ops, blocks = [0, 0],
     block_sizes = [0, 0], block_rand_base = [0, 0]\<rparr>"
  using read_trace_roundtrip [of demo_ops 1 0 2 "''./''" "''t''" "\<lambda>_. Some (show_trace 1 2 0 demo_ops)"]
    demo_ops_ok(1-3) by (simp add: numeral_2_eq_2)

subsection \<open>The driver on the two packages\<close>

text \<open>C21. The driver linked with \<open>mm-naive.c\<close>: for every trace in which each request names an id
  correctly (allocate an unused one, reallocate or free one in use, \<open>-1\<close> for \<open>free(NULL)\<close>) and asks
  for 1 to \<open>2^31 - 16\<close> bytes, in every debug mode, \<open>eval_mm_valid\<close> returns; it either accepts the
  trace without reporting an error, or rejects it reporting a single error, that a call of the
  package failed. No block is ever reported as misaligned, outside the heap, overlapping or garbled.\<close>

theorem driver_accepts_naive:
  assumes "\<And>c. node_ok e c" and "ids_ok d n" and "brk_ok (sys d)" and "8 dvd heap (sys d)"
    and "wf_ops naive_lim n {} (ops (trace d))"
  shows "\<exists>ok d'. eval_mm_valid e (naive_pkg sb) d = Inr (ok, d')
    \<and> (if ok then err_log d' = err_log d \<and> errors d' = errors d
       else err_log d' \<in> {Malloc_failed # err_log d, Realloc_failed # err_log d, Init_failed # err_log d})"
  by (rule naive_reclaim.eval_mm_valid_ok [OF _ _ _ _ _ assms]) (simp_all add: naive_pkg_def)

definition demo_env :: env where
  "demo_env = \<lparr>debug_mode = DBG_EXPENSIVE, random_of = (\<lambda>n. int n * 7919), node_ok = (\<lambda>_. True)\<rparr>"

definition demo_trace :: "traceop_t list \<Rightarrow> trace_t" where
  "demo_trace ts = \<lparr>filename = ''t'', ignore_ranges = 0, num_ids = 2, num_ops = int (length ts),
     weight = 1, ops = ts, blocks = [0, 0], block_sizes = [0, 0], block_rand_base = [0, 0]\<rparr>"

definition demo_driver :: "'x memsys_scheme \<Rightarrow> traceop_t list \<Rightarrow> 'x driver" where
  "demo_driver s ts = \<lparr>sys = s, ranges = [], trace = demo_trace ts, errors = 0, err_log = [],
     random_data = (\<lambda>i. of_nat i), random_calls = 0, node_allocs = 0\<rparr>"

definition naive_mem :: memsys where
  "naive_mem = \<lparr>store = (\<lambda>_. 0), heap = 0x800000000, mem_brk = 0x800000000,
     mem_max_addr = 0x800000000 + MAX_HEAP, sbrk_calls = 0\<rparr>"

lemma demo_fields:
  "node_ok demo_env c" "ids_ok (demo_driver s ts) 2" "sys (demo_driver s ts) = s"
  "ops (trace (demo_driver s ts)) = ts" "err_log (demo_driver s ts) = []"
  "errors (demo_driver s ts) = 0"
  by (simp_all add: demo_driver_def demo_env_def demo_trace_def ids_ok_def)

lemma demo_mem_ok:
  "brk_ok naive_mem" "8 dvd heap naive_mem" "brk_ok empty_mem" "8 dvd heap empty_mem"
  by (simp_all add: naive_mem_def empty_mem_def brk_ok_def MAX_HEAP_def)

theorem driver_accepts_naive_witness:
  "\<exists>ok d'. eval_mm_valid demo_env (naive_pkg (\<lambda>_ _. True)) (demo_driver naive_mem demo_ops)
       = Inr (ok, d')
    \<and> (if ok then err_log d' = [] \<and> errors d' = 0
       else err_log d' \<in> {[Malloc_failed], [Realloc_failed], [Init_failed]})"
  by (rule driver_accepts_naive [of demo_env "demo_driver naive_mem demo_ops" 2, unfolded demo_fields])
    (simp_all add: demo_fields demo_mem_ok demo_ops_ok)

text \<open>The driver linked with \<open>mm.c\<close> on a trace that only allocates, with distinct ids and
  requests of 1 to \<open>2^31 - 16\<close> bytes: \<open>eval_mm_valid\<close> returns, and unless \<open>mm_init\<close> or \<open>malloc\<close>
  fails for lack of memory it accepts the trace without reporting an error.\<close>

theorem driver_accepts_mm_allocs:
  assumes "\<And>c. node_ok e c" and "ids_ok d n" and "brk_ok (sys d)" and "8 dvd heap (sys d)"
    and "alloc_trace mm_lim n (ops (trace d))"
  shows "\<exists>ok d'. eval_mm_valid e (mm_pkg sb) d = Inr (ok, d')
    \<and> (if ok then err_log d' = err_log d \<and> errors d' = errors d
       else err_log d' = Malloc_failed # err_log d \<or> err_log d' = Init_failed # err_log d)"
  by (rule mm_alloc.eval_mm_valid_allocs [OF _ _ _ assms]) (simp_all add: mm_pkg_def)

theorem driver_accepts_mm_allocs_witness:
  "\<exists>ok d'. eval_mm_valid demo_env (mm_pkg (\<lambda>_ _. True)) (demo_driver empty_mem (take 2 demo_ops))
       = Inr (ok, d')
    \<and> (if ok then err_log d' = [] \<and> errors d' = 0
       else err_log d' = [Malloc_failed] \<or> err_log d' = [Init_failed])"
  by (rule driver_accepts_mm_allocs [of demo_env "demo_driver empty_mem (take 2 demo_ops)" 2,
        unfolded demo_fields]) (simp_all add: demo_fields demo_mem_ok demo_ops_ok)

text \<open>The range check of the driver: a block that \<open>add_range\<close> accepts is 8-aligned and lies
  inside the heap, and when ranges are tracked each recorded range either is disjoint from it or
  lies strictly inside it. So no overlap is missed except a new block that encloses an old one.\<close>

theorem add_range_sound:
  assumes "add_range e d l sz ix = Inr (True, d')"
  shows "8 dvd l \<and> heap (sys d) \<le> l \<and> l + sz \<le> mem_brk (sys d) \<and> 0 < sz
    \<and> (debug_mode e \<noteq> DBG_NONE \<and> ignore_ranges (trace d) = 0 \<longrightarrow>
        ranges d' = \<lparr>lo = l, hi = l + sz - 1, r_index = ix\<rparr> # ranges d
        \<and> (\<forall>p \<in> set (ranges d). l + sz - 1 < lo p \<or> hi p < l \<or> (l < lo p \<and> hi p < l + sz - 1)))"
  using assms
  by (auto simp: add_range_def Let_def IS_ALIGNED_def outside_heap_def mem_heap_lo_def
      mem_heap_hi_def overlaps_def dvd_eq_mod_eq_0 split: if_splits)

definition inner_range :: range_t where
  "inner_range = \<lparr>lo = 0x800000020, hi = 0x800000027, r_index = 0\<rparr>"

definition wide_heap :: memsys where
  "wide_heap = naive_mem\<lparr>mem_brk := 0x800001000\<rparr>"

theorem add_range_sound_witness:
  "8 dvd (0x800000040 :: int) \<and> hi inner_range < 0x800000040"
  using add_range_sound [of demo_env "(demo_driver wide_heap [])\<lparr>ranges := [inner_range]\<rparr>"
      "0x800000040" 16 1
      "(demo_driver wide_heap [])\<lparr>ranges := [\<lparr>lo = 0x800000040, hi = 0x80000004f, r_index = 1\<rparr>, inner_range],
         node_allocs := 1\<rparr>"]
  by (simp add: add_range_def demo_driver_def demo_env_def demo_trace_def wide_heap_def naive_mem_def
      IS_ALIGNED_def outside_heap_def mem_heap_lo_def mem_heap_hi_def overlaps_def inner_range_def)

text \<open>The overlap test of \<open>add_range\<close> compares only the ends of the new block with the old
  ranges: whenever a recorded range lies strictly inside the new block and no other range overlaps
  one of its ends, the new block is accepted although the two overlap.\<close>

theorem add_range_misses_enclosed:
  assumes "\<not> outside_heap (sys d) l (l + sz - 1)" and "8 dvd l" and "0 < sz"
    and "p \<in> set (ranges d)" and "l < lo p" and "hi p < l + sz - 1" and "lo p \<le> hi p"
    and "\<forall>q \<in> set (ranges d). \<not> overlaps l (l + sz - 1) q" and "\<And>c. node_ok e c"
  shows "\<exists>d'. add_range e d l sz ix = Inr (True, d')
    \<and> (\<exists>a. lo p \<le> a \<and> a \<le> hi p \<and> l \<le> a \<and> a \<le> l + sz - 1)"
proof -
  have "IS_ALIGNED l" using assms(2) by (simp add: IS_ALIGNED_def dvd_eq_mod_eq_0)
  then have "\<exists>d'. add_range e d l sz ix = Inr (True, d')"
    using assms(1,3,8,9) by (simp add: add_range_def Let_def)
  moreover have "lo p \<le> lo p \<and> lo p \<le> hi p \<and> l \<le> lo p \<and> lo p \<le> l + sz - 1"
    using assms(5-7) by simp
  ultimately show ?thesis by blast
qed

theorem add_range_misses_enclosed_witness:
  "\<exists>d'. add_range demo_env ((demo_driver wide_heap [])\<lparr>ranges := [inner_range]\<rparr>) 0x800000010 64 1
     = Inr (True, d')"
  using add_range_misses_enclosed [of "(demo_driver wide_heap [])\<lparr>ranges := [inner_range]\<rparr>"
      "0x800000010" 64 inner_range demo_env 1]
  by (simp add: demo_driver_def demo_env_def wide_heap_def naive_mem_def outside_heap_def
      mem_heap_lo_def mem_heap_hi_def overlaps_def inner_range_def)

text \<open>\<open>realloc\<close> of \<open>mm.c\<close> is a stub: whenever the driver reaches a request to reallocate a
  known block to a size other than 0, it rejects the trace with the message that \<open>mm_realloc\<close>
  failed.\<close>

theorem driver_rejects_mm_realloc:
  assumes "check_index e d ix = Inr d0" and "array_get (blocks (trace d0)) ix = Inr p" and "sz \<noteq> 0"
  shows "\<exists>d'. valid_realloc e (mm_pkg sb) d ix sz = Inr (False, d')
    \<and> err_log d' = Realloc_failed # err_log d0"
  using assms by (simp add: valid_realloc_def mm_pkg_def realloc_def malloc_error_def)

theorem driver_rejects_mm_realloc_witness:
  "\<exists>d'. valid_realloc demo_env (mm_pkg (\<lambda>_ _. True)) (demo_driver demo demo_ops) 0 128
     = Inr (False, d') \<and> err_log d' = [Realloc_failed]"
  using driver_rejects_mm_realloc [of demo_env "demo_driver demo demo_ops" 0 "demo_driver demo demo_ops"
      0 128 "\<lambda>_ _. True"]
  by (simp add: check_index_def demo_driver_def demo_trace_def garbled_def)

subsection \<open>Scores\<close>

text \<open>The space account of a run on \<open>mm-naive.c\<close>: what the trace holds never exceeds the heap.\<close>

definition account :: "unit driver \<Rightarrow> int \<Rightarrow> int \<Rightarrow> bool" where
  "account d tot mx \<longleftrightarrow> brk_ok (sys d) \<and> tot \<le> mem_brk (sys d) - heap (sys d)
     \<and> 0 \<le> mx \<and> mx \<le> mem_brk (sys d) - heap (sys d)
     \<and> (\<forall>n \<in> set (block_sizes (trace d)). 0 \<le> size_to_int n)"

lemma naive_malloc_grows:
  assumes bk: "brk_ok s" and n: "0 \<le> uint n" "uint n \<le> naive_lim" and m: "naive_malloc sb s n = (p, s')"
  shows "brk_ok s'" "heap s' = heap s" "mem_brk s \<le> mem_brk s'"
    "p \<noteq> 0 \<Longrightarrow> mem_brk s + uint n \<le> mem_brk s'"
proof -
  obtain q s1 where sb: "mem_sbrk sb s (asize (uint n)) = (q, s1)" by force
  have s': "s' = s1 \<or> (\<exists>x. s' = s1\<lparr>store := x\<rparr>)" "p \<noteq> 0 \<Longrightarrow> \<not> q < 0"
    using m unfolding naive_malloc_def Let_def naive_newsize [OF n(2)] sb
    by (auto split: if_splits)
  have g: "brk_ok s1" "mem_brk s \<le> mem_brk s1" using mem_sbrk_brk_ok [OF bk sb] by auto
  have h: "heap s1 = heap s" "\<not> q < 0 \<Longrightarrow> mem_brk s1 = mem_brk s + asize (uint n)"
    using sb by (cases rule: mem_sbrk_cases; auto)+
  show "brk_ok s'" "heap s' = heap s" "mem_brk s \<le> mem_brk s'"
    using s'(1) g h(1) by (auto simp: brk_ok_def)
  show "mem_brk s + uint n \<le> mem_brk s'" if "p \<noteq> 0"
    using s'(1) s'(2) [OF that] h(2) asize_bounds(1) [of "uint n"] by auto
qed

lemma naive_realloc_grows:
  assumes bk: "brk_ok s" and n: "0 < uint n" "uint n \<le> naive_lim"
    and m: "naive_realloc sb s q n = (p, s')"
  shows "brk_ok s'" "heap s' = heap s" "mem_brk s \<le> mem_brk s'"
    "p \<noteq> 0 \<Longrightarrow> mem_brk s + uint n \<le> mem_brk s'"
proof -
  obtain r s1 where ma: "naive_malloc sb s n = (r, s1)" by force
  have n0: "n \<noteq> 0" using n(1) by auto
  have "p = r \<and> (s' = s1 \<or> (\<exists>x. s' = s1\<lparr>store := x\<rparr>))"
    using m ma n0 by (auto simp: naive_realloc_def naive_free_def Let_def split: if_splits)
  with naive_malloc_grows [OF bk _ n(2) ma] n(1)
  show "brk_ok s'" "heap s' = heap s" "mem_brk s \<le> mem_brk s'"
    "p \<noteq> 0 \<Longrightarrow> mem_brk s + uint n \<le> mem_brk s'"
    by (auto simp: brk_ok_def)
qed

lemma request_int:
  assumes "request_ok naive_lim sz"
  shows "size_to_int sz = uint sz" "(word_of_int (size_to_int sz) :: u64) = sz" "0 < uint sz"
    "uint sz \<le> naive_lim" "0 \<le> size_to_int sz" "sz \<noteq> 0"
proof -
  show u: "size_to_int sz = uint sz" and p: "0 < uint sz" "uint sz \<le> naive_lim"
    using assms by (auto simp: request_ok_def naive_lim_def intro!: size_to_int_small)
  then show "(word_of_int (size_to_int sz) :: u64) = sz" "0 \<le> size_to_int sz" "sz \<noteq> 0" by auto
qed

definition sizes_ok :: "traceop_t list \<Rightarrow> bool" where
  "sizes_ok ts \<longleftrightarrow> (\<forall>t \<in> set ts. op_type t \<noteq> FREE \<longrightarrow> request_ok naive_lim (op_size t))"

lemma array_set_sizes:
  assumes "array_set xs i x = Inr ys" and "\<forall>n \<in> set xs. P n" and "P x"
  shows "\<forall>n \<in> set ys. P n"
  using assms by (auto simp: array_set_def split: if_splits dest!: set_update_subset_insert [THEN subsetD])

lemma util_step_account:
  assumes a: "account d tot mx" and t: "op_type t \<noteq> FREE \<longrightarrow> request_ok naive_lim (op_size t)"
    and r: "(case op_type t of ALLOC \<Rightarrow> util_alloc (naive_pkg sb) d t tot
        | REALLOC \<Rightarrow> util_realloc (naive_pkg sb) d t tot
        | FREE \<Rightarrow> util_free (naive_pkg sb) d t tot) = Inr (d1, tot1)"
  shows "account d1 tot1 (max tot1 mx)"
proof (cases "op_type t")
  case ALLOC
  note q = request_int [OF t [THEN mp]]
  obtain p s where m: "naive_malloc sb (sys d) (op_size t) = (p, s)" by force
  note g = naive_malloc_grows [OF _ _ _ m]
  from r ALLOC m q a show ?thesis
    using g array_set_sizes [of _ _ _ _ "\<lambda>n. 0 \<le> size_to_int n"]
    by (auto simp: util_alloc_def naive_pkg_def set_block_def set_size_def and_then_Inr checked_int_def
        account_def Let_def split: if_splits)
next
  case REALLOC
  note q = request_int [OF t [THEN mp]]
  obtain old oldp where o: "array_get (block_sizes (trace d)) (op_index t) = Inr old"
    and b: "array_get (blocks (trace d)) (op_index t) = Inr oldp"
    using r REALLOC by (auto simp: util_realloc_def Let_def and_then_Inr)
  obtain newp s where m: "naive_realloc sb (sys d) oldp (op_size t) = (newp, s)" by force
  have z: "newp \<noteq> 0" and rest: "tot1 = tot + (size_to_int (op_size t) - size_to_int old)"
      "sys d1 = s" "\<exists>ys. array_set (block_sizes (trace d)) (op_index t) (op_size t) = Inr ys
        \<and> block_sizes (trace d1) = ys"
    using r REALLOC q o b m by (auto simp: util_realloc_def naive_pkg_def set_block_def set_size_def
        and_then_Inr checked_int_def Let_def split: if_splits)
  have "old \<in> set (block_sizes (trace d))" using o by (auto simp: array_get_def split: if_splits)
  then have "0 \<le> size_to_int old" using a by (auto simp: account_def)
  moreover have "brk_ok (sys d)" using a by (simp add: account_def)
  ultimately show ?thesis
    using naive_realloc_grows [OF _ _ _ m] q REALLOC a z rest
      array_set_sizes [of _ _ _ _ "\<lambda>n. 0 \<le> size_to_int n"]
    by (auto simp: account_def)
next
  case FREE
  have nn: "0 \<le> size_to_int n" if "array_get (block_sizes (trace d)) i = Inr n" for i n
    using that a by (auto simp: array_get_def account_def split: if_splits)
  have d1: "sys d1 = sys d" "trace d1 = trace d" "tot1 \<le> tot"
    using r FREE nn [of "op_index t"]
    by (auto simp: util_free_def naive_pkg_def naive_free_def and_then_Inr checked_int_def
        Let_def split: if_splits)
  with a show ?thesis by (auto simp: account_def)
qed

lemma util_loop_account:
  "util_loop (naive_pkg sb) d ts tot mx = Inr (d', m) \<Longrightarrow> account d tot mx \<Longrightarrow> sizes_ok ts
     \<Longrightarrow> 0 \<le> m \<and> m \<le> mem_brk (sys d') - heap (sys d') \<and> brk_ok (sys d')"
proof (induction ts arbitrary: d tot mx)
  case Nil
  then show ?case by (simp add: account_def)
next
  case (Cons t ts)
  then obtain d1 tot1 where s: "(case op_type t of ALLOC \<Rightarrow> util_alloc (naive_pkg sb) d t tot
        | REALLOC \<Rightarrow> util_realloc (naive_pkg sb) d t tot
        | FREE \<Rightarrow> util_free (naive_pkg sb) d t tot) = Inr (d1, tot1)"
    "util_loop (naive_pkg sb) d1 ts tot1 (max tot1 mx) = Inr (d', m)"
    by (auto simp: and_then_Inr max_def split: if_splits)
  have "account d1 tot1 (max tot1 mx)"
    using Cons.prems(2,3) by (intro util_step_account [OF _ _ s(1)]) (auto simp: sizes_ok_def)
  with Cons.IH [OF s(2)] Cons.prems(3) show ?case by (simp add: sizes_ok_def)
qed

text \<open>The utilisation that \<open>eval_mm_util\<close> computes for \<open>mm-naive.c\<close>, when it returns on a trace of
  requests of 1 to \<open>2^31 - 16\<close> bytes, is a number between 0 and 1: the peak of the bytes held never
  exceeds the heap.\<close>

theorem util_at_most_one:
  assumes "eval_mm_util (naive_pkg sb) d = Inr (u, d')" and "brk_ok (sys d)"
    and "sizes_ok (ops (trace d))"
  shows "0 \<le> u \<and> u \<le> 1"
proof -
  let ?d = "d\<lparr>trace := reinit_trace (trace d), sys := mem_reset_brk (sys d)\<rparr>"
  obtain mx where l: "util_loop (naive_pkg sb) ?d (ops (trace d)) 0 0 = Inr (d', mx)"
    and u: "u = real_of_int mx / real_of_int (uint (mem_heapsize (sys d')))"
    using assms(1) by (auto simp: eval_mm_util_def naive_pkg_def naive_init_def and_then_Inr Let_def
        reinit_trace_def)
  have "account ?d 0 0"
    using assms(2) by (auto simp: account_def brk_ok_def mem_reset_brk_def reinit_trace_def size_to_int_def
        dest: in_set_replicate [THEN iffD1])
  from util_loop_account [OF l this assms(3)] have m: "0 \<le> mx"
    "mx \<le> mem_brk (sys d') - heap (sys d')" "brk_ok (sys d')" by auto
  then have "mem_brk (sys d') - heap (sys d') < 2 ^ 64" by (simp add: brk_ok_def MAX_HEAP_def)
  then have "uint (mem_heapsize (sys d')) = mem_brk (sys d') - heap (sys d')"
    using m by (simp add: mem_heapsize_def uint_word_of_int del: of_int_diff)
  with m u show ?thesis by (auto simp: divide_le_eq_1)
qed

lemma demo_util_runs:
  "\<exists>d'. eval_mm_util (naive_pkg (\<lambda>_ _. True)) (demo_driver naive_mem (take 1 demo_ops)) = Inr (8 / 9, d')"
proof -
  have "size_to_int (ALIGN (64 + word_of_int SIZE_T_SIZE)) = 72"
    using naive_newsize [of 64] by (simp add: naive_lim_def asize_def)
  then have m: "naive_malloc (\<lambda>_ _. True) naive_mem 64 = (0x800000008,
      naive_mem\<lparr>sbrk_calls := 1, mem_brk := 0x800000048, store := store64 (\<lambda>_. 0) 0x800000000 64\<rparr>)"
    by (simp add: naive_malloc_def mem_sbrk_def naive_mem_def MAX_HEAP_def SIZE_PTR_def)
  have "size_to_int 64 = 64" by (simp add: size_to_int_small)
  with m show ?thesis
    by (simp add: eval_mm_util_def naive_pkg_def naive_init_def demo_driver_def demo_trace_def demo_ops_def
        mem_reset_brk_def naive_mem_def reinit_trace_def util_alloc_def set_block_def set_size_def
        checked_int_def mem_heapsize_def Let_def)
qed

theorem util_at_most_one_witness:
  "\<exists>u d'. eval_mm_util (naive_pkg (\<lambda>_ _. True)) (demo_driver naive_mem (take 1 demo_ops)) = Inr (u, d')
     \<and> 0 \<le> u \<and> u \<le> 1"
proof -
  from demo_util_runs obtain d' where r: "eval_mm_util (naive_pkg (\<lambda>_ _. True))
    (demo_driver naive_mem (take 1 demo_ops)) = Inr (8 / 9, d')" by blast
  have "sizes_ok (take 1 demo_ops)" by (simp add: sizes_ok_def demo_ops_def request_ok_def naive_lim_def)
  then have "0 \<le> (8 / 9 :: real) \<and> (8 / 9 :: real) \<le> 1"
    by (intro util_at_most_one [OF r]) (simp_all add: demo_fields demo_mem_ok)
  with r show ?thesis by blast
qed

text \<open>The performance index that the driver reports is between 0 and 100, whatever the
  statistics are, and it is 0 when any error was reported.\<close>

theorem perfindex_bounds:
  "0 \<le> perfindex errs sts \<and> perfindex errs sts \<le> 100 \<and> (errs \<noteq> 0 \<longrightarrow> perfindex errs sts = 0)"
proof -
  have u: "0 \<le> util_points x \<and> util_points x \<le> UTIL_WEIGHT" for x
    by (auto simp: util_points_def MIN_SPACE_def MAX_SPACE_def UTIL_WEIGHT_def field_simps)
  have v: "0 \<le> speed_points x \<and> speed_points x \<le> 1 - UTIL_WEIGHT" for x
    by (auto simp: speed_points_def MIN_SPEED_def MAX_SPEED_def UTIL_WEIGHT_def field_simps)
  from u [of "avg_mm_util sts"] v [of "avg_mm_throughput sts"] show ?thesis
    by (auto simp: perfindex_def)
qed

theorem perfindex_bounds_witness:
  "perfindex 3 [] = 0" using perfindex_bounds [of 3 "[]"] by simp

end
