(* ===== verification/Tsh_Parse.thy ===== *)
theory Tsh_Parse
  imports Cstr
begin

section \<open>Command lines of the shell (tshlab tsh.c, parseline)\<close>

text \<open>
  \<open>parseline\<close> splits a command line into arguments and redirections. The code walks a copy of
  the line with a pointer and overwrites the end of each token with NUL; here the pointer is the
  rest of the line. The parsing state is a pair of flags (\<open>ST_INFILE\<close>, \<open>ST_OUTFILE\<close>).

  The copy is made by \<open>strncpy\<close> into an array of \<open>MAXLINE_tsh\<close> bytes: a line of that length or more
  fills the array without a terminating NUL and the \<open>strlen\<close> that follows reads past its end,
  which is the error \<open>Not_terminated\<close>. The field \<open>builtins\<close> of a blank line is not set by the
  code and is \<open>None\<close> here.
\<close>

definition MAXLINE_tsh :: nat where "MAXLINE_tsh = 1024"

definition MAXARGS :: nat where "MAXARGS = 128"

definition delims :: string where
  "delims = [CHR '' '', CHR 0x09, CHR 0x0D, CHR 0x0A]"

datatype builtins_t = BUILTIN_NONE | BUILTIN_QUIT | BUILTIN_JOBS | BUILTIN_BG | BUILTIN_FG

record cmdline_tokens =
  argv :: "string list"
  infile :: "string option"
  outfile :: "string option"
  builtins :: "builtins_t option"

definition argc :: "cmdline_tokens \<Rightarrow> nat" where
  "argc tok = length (argv tok)"

record pstate =
  st_infile :: bool
  st_outfile :: bool

definition ST_NORMAL :: pstate where
  "ST_NORMAL = \<lparr>st_infile = False, st_outfile = False\<rparr>"

datatype parse_error = Ambiguous | Unmatched char | No_file_name | Not_terminated

text \<open>The next token: quoted up to the closing quote, or up to the next delimiter.\<close>

definition take_token :: "string \<Rightarrow> parse_error + string \<times> string" where
  "take_token s =
     (if hd s = CHR 0x27 \<or> hd s = CHR 0x22 then
        (case strchr (tl s) (hd s) of
           None \<Rightarrow> Inl (Unmatched (hd s))
         | Some i \<Rightarrow> Inr (take i (tl s), drop (Suc i) (tl s)))
      else let i = strcspn s delims in Inr (take i s, drop (Suc i) s))"

definition record_token :: "pstate \<Rightarrow> string \<Rightarrow> cmdline_tokens \<Rightarrow> parse_error + cmdline_tokens" where
  "record_token ps w tok =
     (if \<not> st_infile ps \<and> \<not> st_outfile ps then Inr (tok\<lparr>argv := argv tok @ [w]\<rparr>)
      else if st_infile ps \<and> \<not> st_outfile ps then Inr (tok\<lparr>infile := Some w\<rparr>)
      else if \<not> st_infile ps \<and> st_outfile ps then Inr (tok\<lparr>outfile := Some w\<rparr>)
      else Inl Ambiguous)"

lemma take_token_shorter: "s \<noteq> [] \<Longrightarrow> take_token s = Inr (w, r) \<Longrightarrow> length r < length s"
  by (cases s) (auto simp: take_token_def Let_def split: if_splits option.splits)

function parse_loop :: "string \<Rightarrow> pstate \<Rightarrow> cmdline_tokens \<Rightarrow> parse_error + pstate \<times> cmdline_tokens"
  where
  "parse_loop s0 ps tok =
     (let s = drop (strspn s0 delims) s0 in
      if s = [] then Inr (ps, tok)
      else if hd s = CHR ''<'' then
        (if infile tok \<noteq> None then Inl Ambiguous
         else parse_loop (tl s) (ps\<lparr>st_infile := True\<rparr>) tok)
      else if hd s = CHR ''>'' then
        (if outfile tok \<noteq> None then Inl Ambiguous
         else parse_loop (tl s) (ps\<lparr>st_outfile := True\<rparr>) tok)
      else (case take_token s of
          Inl e \<Rightarrow> Inl e
        | Inr (w, r) \<Rightarrow> (case record_token ps w tok of
              Inl e \<Rightarrow> Inl e
            | Inr tok1 \<Rightarrow> if argc tok1 \<ge> MAXARGS - 1 then Inr (ST_NORMAL, tok1)
                           else parse_loop r ST_NORMAL tok1)))"
  by pat_completeness auto

lemma drop_shorter: "drop n s \<noteq> [] \<Longrightarrow> length (tl (drop n s)) < length s"
  by (cases s) (auto simp: drop_eq_Nil)

termination parse_loop
proof (relation "measure (\<lambda>(s, ps, tok). length s)", goal_cases)
  case 1
  then show ?case by simp
next
  case (2 s0 ps tok s)
  then show ?case using drop_shorter by auto
next
  case (3 s0 ps tok s)
  then show ?case using drop_shorter by auto
next
  case (4 s0 ps tok s p w r tok1)
  then have "length r < length s" using take_token_shorter by blast
  moreover have "length s \<le> length s0" using 4(1) by simp
  ultimately show ?case by simp
qed

declare parse_loop.simps [simp del]

definition builtin_of :: "string \<Rightarrow> builtins_t" where
  "builtin_of w =
     (if w = ''quit'' then BUILTIN_QUIT
      else if w = ''jobs'' then BUILTIN_JOBS
      else if w = ''bg'' then BUILTIN_BG
      else if w = ''fg'' then BUILTIN_FG
      else BUILTIN_NONE)"

text \<open>The first component is the return value of the code: 1 for a background job, 0 for a foreground
  job; an error is -1 there, except that a line that overruns the buffer is undefined.\<close>

definition parseline :: "string \<Rightarrow> parse_error + int \<times> cmdline_tokens" where
  "parseline cmdline =
     (if MAXLINE_tsh \<le> length cmdline then Inl Not_terminated
      else case parse_loop cmdline ST_NORMAL
             \<lparr>argv = [], infile = None, outfile = None, builtins = None\<rparr> of
        Inl e \<Rightarrow> Inl e
      | Inr (ps, tok) \<Rightarrow>
          if ps \<noteq> ST_NORMAL then Inl No_file_name
          else if argc tok = 0 then Inr (1, tok)
          else
            let tok1 = tok\<lparr>builtins := Some (builtin_of (hd (argv tok)))\<rparr> in
            if last (argv tok1) \<noteq> [] \<and> hd (last (argv tok1)) = CHR ''&''
            then Inr (1, tok1\<lparr>argv := butlast (argv tok1)\<rparr>)
            else Inr (0, tok1))"

subsection \<open>Command lines written and parsed back\<close>

definition plain :: "string \<Rightarrow> bool" where
  "plain w \<longleftrightarrow> w \<noteq> [] \<and> set w \<inter> set delims = {}
     \<and> hd w \<notin> {CHR ''<'', CHR ''>'', CHR 0x27, CHR 0x22}"

text \<open>A word as a user writes it: quoted unless it is plain.\<close>

definition show_word :: "string \<Rightarrow> string" where
  "show_word w = (if plain w then w else CHR 0x22 # w @ [CHR 0x22])"

definition show_redirect :: "char \<Rightarrow> string option \<Rightarrow> string" where
  "show_redirect c f = (case f of None \<Rightarrow> [] | Some w \<Rightarrow> '' '' @ c # CHR '' '' # show_word w)"

definition show_words :: "string list \<Rightarrow> string" where
  "show_words ws = concat (map (\<lambda>w. '' '' @ show_word w) ws)"

definition show_cmd :: "string list \<Rightarrow> string option \<Rightarrow> string option \<Rightarrow> bool \<Rightarrow> string" where
  "show_cmd ws i out bg = show_words ws @ show_redirect CHR ''<'' i @ show_redirect CHR ''>'' out
     @ (if bg then '' &'' else [])"

definition quotable :: "string \<Rightarrow> bool" where
  "quotable w \<longleftrightarrow> CHR 0x22 \<notin> set w"

lemma drop_strspn: "drop (strspn s cs) s = dropWhile (\<lambda>c. c \<in> set cs) s"
  by (simp add: strspn_def dropWhile_eq_drop)

lemma delims_mem [simp]: "CHR '' '' \<in> set delims" "CHR ''<'' \<notin> set delims" "CHR ''>'' \<notin> set delims"
  "CHR 0x22 \<notin> set delims" "CHR ''&'' \<notin> set delims"
  by (simp_all add: delims_def)

text \<open>The rest of a line after a token is empty or starts with a blank.\<close>

definition tail_ok :: "string \<Rightarrow> bool" where
  "tail_ok r \<longleftrightarrow> r = [] \<or> hd r = CHR '' ''"

lemma parse_blank: "parse_loop (CHR '' '' # s) ps tok = parse_loop s ps tok"
  by (subst (1 2) parse_loop.simps) (simp add: drop_strspn)

lemma parse_end: "parse_loop [] ps tok = Inr (ps, tok)"
  by (subst parse_loop.simps) simp

lemma parse_less:
  "infile tok = None \<Longrightarrow> parse_loop (CHR ''<'' # s) ps tok = parse_loop s (ps\<lparr>st_infile := True\<rparr>) tok"
  by (subst parse_loop.simps) (simp add: drop_strspn)

lemma parse_greater:
  "outfile tok = None \<Longrightarrow> parse_loop (CHR ''>'' # s) ps tok = parse_loop s (ps\<lparr>st_outfile := True\<rparr>) tok"
  by (subst parse_loop.simps) (simp add: drop_strspn)

lemma strcspn_word:
  assumes "set w \<inter> set delims = {}" and "tail_ok r"
  shows "strcspn (w @ r) delims = length w"
proof -
  have "takeWhile (\<lambda>c. c \<notin> set delims) r = []" using assms(2) by (cases r) (auto simp: tail_ok_def)
  moreover have "takeWhile (\<lambda>c. c \<notin> set delims) (w @ r) = w @ takeWhile (\<lambda>c. c \<notin> set delims) r"
    using assms(1) by (intro takeWhile_append2) auto
  ultimately show ?thesis by (simp add: strcspn_def)
qed

lemma take_token_show:
  assumes "quotable w" and "tail_ok r"
  shows "take_token (show_word w @ r) = Inr (w, if plain w then tl r else r)"
proof (cases "plain w")
  case True
  then have "set w \<inter> set delims = {}" "w \<noteq> []" "hd w \<noteq> CHR 0x27" "hd w \<noteq> CHR 0x22"
    by (auto simp: plain_def)
  with True strcspn_word [OF _ assms(2), of w] show ?thesis
    by (simp add: take_token_def show_word_def Let_def drop_Suc)
next
  case False
  have "takeWhile (\<lambda>x. x \<noteq> CHR 0x22) (w @ CHR 0x22 # r) = w"
    using assms(1) by (subst takeWhile_append2) (auto simp: quotable_def)
  then have "strchr (w @ CHR 0x22 # r) CHR 0x22 = Some (length w)" by (simp add: strchr_def)
  with False show ?thesis by (simp add: take_token_def show_word_def)
qed

lemma parse_rest: "tail_ok r \<Longrightarrow> parse_loop (tl r) ps tok = parse_loop r ps tok"
  by (cases r) (auto simp: tail_ok_def parse_blank)

lemma show_word_first:
  "show_word w \<noteq> []" "hd (show_word w) \<noteq> CHR ''<''" "hd (show_word w) \<noteq> CHR ''>''"
  "hd (show_word w) \<notin> set delims"
  by (auto simp: show_word_def plain_def disjoint_iff)

text \<open>One word.\<close>

lemma parse_word:
  assumes w: "quotable w" "tail_ok r" and t: "record_token ps w tok = Inr tok1"
    and n: "argc tok1 < MAXARGS - 1"
  shows "parse_loop (show_word w @ r) ps tok = parse_loop r ST_NORMAL tok1"
proof -
  have dw: "dropWhile (\<lambda>c. c \<in> set delims) (show_word w @ r) = show_word w @ r"
    using show_word_first [of w] by (cases "show_word w") auto
  have "parse_loop (if plain w then tl r else r) ST_NORMAL tok1 = parse_loop r ST_NORMAL tok1"
    using parse_rest [OF w(2)] by simp
  then show ?thesis
    unfolding parse_loop.simps [of "show_word w @ r"] drop_strspn dw Let_def
    using show_word_first [of w] t n take_token_show [OF w] by simp
qed

lemma record_normal: "record_token ST_NORMAL w tok = Inr (tok\<lparr>argv := argv tok @ [w]\<rparr>)"
  by (simp add: record_token_def ST_NORMAL_def)

lemma tail_ok_show: "tail_ok r \<Longrightarrow> tail_ok (show_words ws @ r)"
  by (cases ws) (auto simp: tail_ok_def show_words_def)

lemma parse_words:
  assumes "tail_ok r"
  shows "(\<And>w. w \<in> set ws \<Longrightarrow> quotable w) \<Longrightarrow> argc tok + length ws < MAXARGS - 1
    \<Longrightarrow> parse_loop (show_words ws @ r) ST_NORMAL tok
      = parse_loop r ST_NORMAL (tok\<lparr>argv := argv tok @ ws\<rparr>)"
proof (induction ws arbitrary: tok)
  case Nil
  then show ?case by (simp add: show_words_def)
next
  case (Cons w ws)
  let ?tok = "tok\<lparr>argv := argv tok @ [w]\<rparr>"
  have "parse_loop (show_word w @ show_words ws @ r) ST_NORMAL tok
      = parse_loop (show_words ws @ r) ST_NORMAL ?tok"
    using Cons.prems assms by (intro parse_word) (auto simp: record_normal argc_def tail_ok_show)
  with Cons.IH [of ?tok] Cons.prems show ?case
    by (simp add: show_words_def parse_blank argc_def)
qed

lemma tail_ok_redirect: "tail_ok r \<Longrightarrow> tail_ok (show_redirect c f @ r)"
  by (cases f) (auto simp: tail_ok_def show_redirect_def)

lemma parse_redirects:
  assumes "tail_ok r" and "\<And>w. i = Some w \<Longrightarrow> quotable w" and "\<And>w. out = Some w \<Longrightarrow> quotable w"
    and tok: "infile tok = None" "outfile tok = None" "argc tok < MAXARGS - 1"
  shows "parse_loop (show_redirect CHR ''<'' i @ show_redirect CHR ''>'' out @ r) ST_NORMAL tok
    = parse_loop r ST_NORMAL (tok\<lparr>infile := i, outfile := out\<rparr>)"
proof -
  have o: "parse_loop (show_redirect CHR ''>'' out @ r) ST_NORMAL t
      = parse_loop r ST_NORMAL (t\<lparr>outfile := out\<rparr>)" if t: "outfile t = None" "argc t < MAXARGS - 1" for t
  proof (cases out)
    case None
    with t show ?thesis by (cases t) (simp add: show_redirect_def)
  next
    case (Some w)
    have "parse_loop (show_word w @ r) (ST_NORMAL\<lparr>st_outfile := True\<rparr>) t
        = parse_loop r ST_NORMAL (t\<lparr>outfile := Some w\<rparr>)"
      using assms(1,3) Some t
      by (intro parse_word) (auto simp: record_token_def ST_NORMAL_def argc_def)
    with Some t show ?thesis by (simp add: show_redirect_def parse_blank parse_greater)
  qed
  show ?thesis
  proof (cases i)
    case None
    with o [of tok] tok show ?thesis by (cases tok) (simp add: show_redirect_def)
  next
    case (Some w)
    have "parse_loop (show_word w @ show_redirect CHR ''>'' out @ r) (ST_NORMAL\<lparr>st_infile := True\<rparr>) tok
        = parse_loop (show_redirect CHR ''>'' out @ r) ST_NORMAL (tok\<lparr>infile := Some w\<rparr>)"
      using assms(1,2) Some tok
      by (intro parse_word) (auto simp: record_token_def ST_NORMAL_def argc_def tail_ok_redirect)
    with o [of "tok\<lparr>infile := Some w\<rparr>"] Some tok show ?thesis
      by (simp add: show_redirect_def parse_blank parse_less argc_def)
  qed
qed

lemma parse_cmd:
  assumes "\<And>w. w \<in> set ws \<Longrightarrow> quotable w" and "\<And>w. i = Some w \<Longrightarrow> quotable w"
    and "\<And>w. out = Some w \<Longrightarrow> quotable w" and "length ws < MAXARGS - 2"
  shows "parse_loop (show_cmd ws i out bg) ST_NORMAL
      \<lparr>argv = [], infile = None, outfile = None, builtins = None\<rparr>
    = Inr (ST_NORMAL, \<lparr>argv = ws @ (if bg then [''&''] else []), infile = i, outfile = out,
        builtins = None\<rparr>)"
proof -
  let ?r = "if bg then '' &'' else []"
  have r: "tail_ok ?r" by (simp add: tail_ok_def)
  have amp: "show_word ''&'' = ''&''" by (simp add: show_word_def plain_def delims_def)
  have "parse_loop (show_word ''&'' @ []) ST_NORMAL t
      = parse_loop [] ST_NORMAL (t\<lparr>argv := argv t @ [''&'']\<rparr>)" if "argc t < MAXARGS - 2" for t
    using that by (intro parse_word) (auto simp: record_normal argc_def quotable_def tail_ok_def)
  then have last: "parse_loop ?r ST_NORMAL t
      = Inr (ST_NORMAL, t\<lparr>argv := argv t @ (if bg then [''&''] else [])\<rparr>)"
    if "argc t < MAXARGS - 2" for t
    using that by (simp add: amp parse_blank parse_end)
  show ?thesis
    unfolding show_cmd_def
    using assms r parse_words [of "show_redirect CHR ''<'' i @ show_redirect CHR ''>'' out @ ?r" ws]
    by (simp add: parse_redirects tail_ok_redirect argc_def last)
qed

text \<open>C30. A command line written out from its parts (words, quoted where they contain blanks or
  special characters, an input file, an output file, and a final ampersand for a background job) is
  parsed back into exactly these parts: for 1 to 125 words without a double quote, the last one
  not starting with an ampersand, when the whole line has at most 1023 characters (it fits the
  buffer of \<open>parseline\<close>), \<open>parseline\<close> returns whether the job runs in the background, the
  arguments, the two files and the builtin that the first word names.\<close>

theorem parseline_roundtrip:
  assumes "\<forall>w \<in> set ws. quotable w" and "\<forall>w \<in> set_option i. quotable w"
    and "\<forall>w \<in> set_option out. quotable w" and "ws \<noteq> []" and "length ws < MAXARGS - 2"
    and "last ws = [] \<or> hd (last ws) \<noteq> CHR ''&''"
    and "length (show_cmd ws i out bg) < MAXLINE_tsh"
  shows "parseline (show_cmd ws i out bg) = Inr (if bg then 1 else 0,
    \<lparr>argv = ws, infile = i, outfile = out, builtins = Some (builtin_of (hd ws))\<rparr>)"
proof -
  have p: "parse_loop (show_cmd ws i out bg) ST_NORMAL
      \<lparr>argv = [], infile = None, outfile = None, builtins = None\<rparr>
    = Inr (ST_NORMAL, \<lparr>argv = ws @ (if bg then [''&''] else []), infile = i, outfile = out,
        builtins = None\<rparr>)"
    using assms(1-3,5) by (intro parse_cmd) auto
  show ?thesis
    unfolding parseline_def p using assms(4,6,7) by (auto simp: argc_def Let_def)
qed

theorem parseline_roundtrip_witness:
  "parseline '' /bin/echo \"a b\" < in > out &'' = Inr (1,
     \<lparr>argv = [''/bin/echo'', ''a b''], infile = Some ''in'', outfile = Some ''out'',
      builtins = Some BUILTIN_NONE\<rparr>)"
  using parseline_roundtrip [of "[''/bin/echo'', ''a b'']" "Some ''in''" "Some ''out''" True]
  by (simp add: show_cmd_def show_words_def show_redirect_def show_word_def plain_def quotable_def
      delims_def MAXARGS_def MAXLINE_tsh_def builtin_of_def)

lemma parse_loop_argc:
  "parse_loop s ps tok = Inr (ps', tok') \<Longrightarrow> argc tok \<le> MAXARGS - 1 \<Longrightarrow> argc tok < MAXARGS - 1
     \<Longrightarrow> argc tok' \<le> MAXARGS - 1"
proof (induction s ps tok rule: parse_loop.induct)
  case (1 s0 ps tok)
  have rt: "argc t \<le> argc tok + 1" if "record_token ps w tok = Inr t" for w t
    using that by (auto simp: record_token_def argc_def split: if_splits)
  from 1 show ?case
    by (subst (asm) (4) parse_loop.simps)
      (auto simp: Let_def split: if_splits sum.splits prod.splits dest!: rt)
qed

text \<open>\<open>parseline\<close> never stores more than 127 arguments in the array of 128 pointers, so the
  terminating NULL always fits, and every command line is either parsed or rejected.\<close>

theorem parseline_argc:
  "case parseline s of Inl _ \<Rightarrow> True | Inr (_, tok) \<Rightarrow> argc tok \<le> MAXARGS - 1"
proof (cases "parseline s")
  case (Inr r)
  then obtain b tok where p: "parseline s = Inr (b, tok)" by (cases r) auto
  then obtain ps tok0 where l: "parse_loop s ST_NORMAL
      \<lparr>argv = [], infile = None, outfile = None, builtins = None\<rparr> = Inr (ps, tok0)"
    and le: "argc tok \<le> argc tok0"
    by (auto simp: parseline_def argc_def Let_def split: sum.splits if_splits)
  have "argc tok0 \<le> MAXARGS - 1"
    using parse_loop_argc [OF l] by (simp add: argc_def MAXARGS_def)
  with p le show ?thesis by simp
qed simp

end
