(* ===== verification/Tsh_Jobs.thy ===== *)
theory Tsh_Jobs
  imports Cstr
begin

section \<open>The job table of the shell (tshlab tsh.c)\<close>

text \<open>
  A fixed array of 16 job records and the global \<open>nextjid\<close>. A record with pid 0 is free. The
  operations scan the array from the front, as the code does; a pointer into the array that a
  lookup returns is the index of the record. The second half gives the table as a map from
  process ids to jobs and states the interface the shell relies on as a locale. Two invariants
  of the table are kept apart: \<open>jobs_wf\<close>, which holds whatever happens, and \<open>jobs_ok\<close>, by which
  a free record also has the state \<open>UNDEF\<close>.
\<close>

definition MAXJOBS :: nat where "MAXJOBS = 16"

datatype jstate = UNDEF | FG | BG | ST

record job_t =
  pid :: int
  jid :: int
  state :: jstate
  cmdline :: string

record jobs =
  job_list :: "job_t list"
  nextjid :: int

definition clearjob :: job_t where
  "clearjob = \<lparr>pid = 0, jid = 0, state = UNDEF, cmdline = []\<rparr>"

definition initjobs :: "jobs \<Rightarrow> jobs" where
  "initjobs js = js\<lparr>job_list := replicate MAXJOBS clearjob\<rparr>"

definition maxjid :: "job_t list \<Rightarrow> int" where
  "maxjid js = fold (\<lambda>j m. if jid j > m then jid j else m) js 0"

text \<open>The scan all loops of the table share: the index of the first record that fits.\<close>

fun first_index :: "('a \<Rightarrow> bool) \<Rightarrow> 'a list \<Rightarrow> nat option" where
  "first_index P [] = None"
| "first_index P (x # xs) = (if P x then Some 0 else map_option Suc (first_index P xs))"

definition addjob :: "jobs \<Rightarrow> int \<Rightarrow> jstate \<Rightarrow> string \<Rightarrow> bool \<times> jobs" where
  "addjob js p st cmd =
     (if p < 1 then (False, js)
      else case first_index (\<lambda>j. pid j = 0) (job_list js) of
        Some i \<Rightarrow>
          let n = nextjid js + 1 in
          (True, \<lparr>job_list = (job_list js)[i := \<lparr>pid = p, jid = nextjid js, state = st, cmdline = cmd\<rparr>],
                  nextjid = (if n > int MAXJOBS then 1 else n)\<rparr>)
      | None \<Rightarrow> (False, js))"

definition deletejob :: "jobs \<Rightarrow> int \<Rightarrow> bool \<times> jobs" where
  "deletejob js p =
     (if p < 1 then (False, js)
      else case first_index (\<lambda>j. pid j = p) (job_list js) of
        Some i \<Rightarrow> (let l = (job_list js)[i := clearjob] in
                    (True, \<lparr>job_list = l, nextjid = maxjid l + 1\<rparr>))
      | None \<Rightarrow> (False, js))"

definition fgpid :: "job_t list \<Rightarrow> int" where
  "fgpid js = (case first_index (\<lambda>j. state j = FG) js of Some i \<Rightarrow> pid (js ! i) | None \<Rightarrow> 0)"

definition getjobpid :: "job_t list \<Rightarrow> int \<Rightarrow> nat option" where
  "getjobpid js p = (if p < 1 then None else first_index (\<lambda>j. pid j = p) js)"

definition getjobjid :: "job_t list \<Rightarrow> int \<Rightarrow> nat option" where
  "getjobjid js i = (if i < 1 then None else first_index (\<lambda>j. jid j = i) js)"

definition pid2jid :: "job_t list \<Rightarrow> int \<Rightarrow> int" where
  "pid2jid js p =
     (if p < 1 then 0
      else case first_index (\<lambda>j. pid j = p) js of Some i \<Rightarrow> jid (js ! i) | None \<Rightarrow> 0)"

definition setstate :: "jobs \<Rightarrow> nat \<Rightarrow> jstate \<Rightarrow> jobs" where
  "setstate js i st = js\<lparr>job_list := (job_list js)[i := (job_list js ! i)\<lparr>state := st\<rparr>]\<rparr>"

text \<open>The lines \<open>listjobs\<close> writes.\<close>

definition state_name :: "nat \<Rightarrow> jstate \<Rightarrow> string" where
  "state_name i st = (case st of BG \<Rightarrow> ''Running    '' | FG \<Rightarrow> ''Foreground ''
     | ST \<Rightarrow> ''Stopped    ''
     | UNDEF \<Rightarrow> ''listjobs: Internal error: job['' @ show_nat i @ ''].state=0 '')"

definition show_job :: "nat \<Rightarrow> job_t \<Rightarrow> string" where
  "show_job i j = ''['' @ show_int (jid j) @ ''] ('' @ show_int (pid j) @ '') ''
     @ state_name i (state j) @ cmdline j @ [CHR 0x0A]"

definition listjobs :: "job_t list \<Rightarrow> string" where
  "listjobs js = concat (map (\<lambda>(i, j). if pid j \<noteq> 0 then show_job i j else []) (enumerate 0 js))"

subsection \<open>Scanning\<close>

lemma first_index_Some:
  "first_index P xs = Some i \<longleftrightarrow> i < length xs \<and> P (xs ! i) \<and> (\<forall>k < i. \<not> P (xs ! k))"
proof (induction xs arbitrary: i)
  case (Cons x xs)
  then show ?case by (cases i) (auto simp: less_Suc_eq_0_disj)
qed simp

lemma first_index_None: "first_index P xs = None \<longleftrightarrow> (\<forall>x \<in> set xs. \<not> P x)"
  by (induction xs) auto

lemma maxjid_ge: "\<forall>j \<in> set js. jid j \<le> maxjid js" "0 \<le> maxjid js"
proof -
  have f: "m \<le> fold (\<lambda>j m. if jid j > m then jid j else m) js m
      \<and> (\<forall>j \<in> set js. jid j \<le> fold (\<lambda>j m. if jid j > m then jid j else m) js m)" for m
  proof (induction js arbitrary: m)
    case (Cons j js)
    from Cons [of "if jid j > m then jid j else m"] show ?case by (auto split: if_splits)
  qed simp
  from f [of 0] show "\<forall>j \<in> set js. jid j \<le> maxjid js" "0 \<le> maxjid js"
    by (auto simp: maxjid_def)
qed

subsection \<open>The invariant\<close>

definition slot_ok :: "job_t \<Rightarrow> bool" where
  "slot_ok j \<longleftrightarrow> (if pid j = 0 then j = clearjob else 0 < pid j \<and> 0 < jid j \<and> state j \<noteq> UNDEF)"

text \<open>The weaker invariant leaves the state of a free record open.\<close>

definition slot_wf :: "job_t \<Rightarrow> bool" where
  "slot_wf j \<longleftrightarrow> (if pid j = 0 then j\<lparr>state := UNDEF\<rparr> = clearjob
     else 0 < pid j \<and> 0 < jid j \<and> state j \<noteq> UNDEF)"

definition pids :: "job_t list \<Rightarrow> int list" where
  "pids js = map pid (filter (\<lambda>j. pid j \<noteq> 0) js)"

definition jobs_ok :: "jobs \<Rightarrow> bool" where
  "jobs_ok js \<longleftrightarrow> length (job_list js) = MAXJOBS \<and> (\<forall>j \<in> set (job_list js). slot_ok j)
     \<and> distinct (pids (job_list js)) \<and> 0 < nextjid js"

definition jobs_wf :: "jobs \<Rightarrow> bool" where
  "jobs_wf js \<longleftrightarrow> length (job_list js) = MAXJOBS \<and> (\<forall>j \<in> set (job_list js). slot_wf j)
     \<and> distinct (pids (job_list js)) \<and> 0 < nextjid js"

lemma jobs_wfD:
  assumes "jobs_wf js"
  shows "length (job_list js) = MAXJOBS" "j \<in> set (job_list js) \<Longrightarrow> slot_wf j"
    "distinct (pids (job_list js))" "0 < nextjid js"
  using assms by (auto simp: jobs_wf_def)

definition no_stale :: "job_t list \<Rightarrow> bool" where
  "no_stale l \<longleftrightarrow> (\<forall>j \<in> set l. pid j = 0 \<longrightarrow> state j = UNDEF)"

lemma slot_ok_iff: "slot_ok j \<longleftrightarrow> slot_wf j \<and> (pid j = 0 \<longrightarrow> state j = UNDEF)"
  by (cases j) (auto simp: slot_ok_def slot_wf_def clearjob_def)

lemma jobs_ok_iff: "jobs_ok js \<longleftrightarrow> jobs_wf js \<and> no_stale (job_list js)"
  by (auto simp: jobs_ok_def jobs_wf_def no_stale_def slot_ok_iff)

lemma jobs_ok_wf: "jobs_ok js \<Longrightarrow> jobs_wf js"
  by (simp add: jobs_ok_iff)

lemma clear_ok: "slot_wf clearjob" "pid clearjob = 0" "jid clearjob = 0" "state clearjob = UNDEF"
  by (simp_all add: slot_wf_def clearjob_def)

lemma slot_ok_clear: "slot_ok clearjob"
  by (simp add: slot_ok_iff clear_ok)

lemma pids_update:
  assumes "i < length js"
  shows "pids (js[i := j]) = pids (take i js) @ (if pid j \<noteq> 0 then [pid j] else []) @ pids (drop (Suc i) js)"
    and "pids js = pids (take i js) @ (if pid (js ! i) \<noteq> 0 then [pid (js ! i)] else []) @ pids (drop (Suc i) js)"
proof -
  show "pids (js[i := j]) = pids (take i js) @ (if pid j \<noteq> 0 then [pid j] else []) @ pids (drop (Suc i) js)"
    using assms by (simp add: upd_conv_take_nth_drop pids_def)
  have "js = take i js @ js ! i # drop (Suc i) js" using assms by (rule id_take_nth_drop)
  then have "pids js = pids (take i js @ js ! i # drop (Suc i) js)" by simp
  then show "pids js = pids (take i js) @ (if pid (js ! i) \<noteq> 0 then [pid (js ! i)] else []) @ pids (drop (Suc i) js)"
    by (simp add: pids_def)
qed

lemma initjobs_ok: "0 < nextjid js \<Longrightarrow> jobs_ok (initjobs js)"
  by (simp add: jobs_ok_def initjobs_def pids_def clear_ok slot_ok_clear)

lemma set_update_cases: "x \<in> set (xs[i := y]) \<Longrightarrow> x = y \<or> x \<in> set xs"
  by (auto dest!: set_update_subset_insert [THEN subsetD])

lemma addjob_wf:
  assumes ok: "jobs_wf js" and fresh: "p \<notin> set (pids (job_list js))" and st: "st \<noteq> UNDEF"
  shows "jobs_wf (snd (addjob js p st cmd))"
proof (cases "p < 1 \<or> first_index (\<lambda>j. pid j = 0) (job_list js) = None")
  case True
  with ok show ?thesis by (auto simp: addjob_def split: option.splits)
next
  case False
  then obtain i where i: "first_index (\<lambda>j. pid j = 0) (job_list js) = Some i" by auto
  then have il: "i < length (job_list js)" "pid (job_list js ! i) = 0" by (auto simp: first_index_Some)
  have "slot_wf \<lparr>pid = p, jid = nextjid js, state = st, cmdline = cmd\<rparr>"
    using False st jobs_wfD(4) [OF ok] by (simp add: slot_wf_def)
  with ok fresh False i pids_update [OF il(1)] il(2) show ?thesis
    by (auto simp: addjob_def jobs_wf_def Let_def dest!: set_update_cases)
qed

lemma deletejob_wf:
  assumes ok: "jobs_wf js"
  shows "jobs_wf (snd (deletejob js p))"
proof (cases "p < 1 \<or> first_index (\<lambda>j. pid j = p) (job_list js) = None")
  case True
  with ok show ?thesis by (auto simp: deletejob_def split: option.splits)
next
  case False
  then obtain i where i: "first_index (\<lambda>j. pid j = p) (job_list js) = Some i" by auto
  then have il: "i < length (job_list js)" by (auto simp: first_index_Some)
  have "0 < maxjid ((job_list js)[i := clearjob]) + 1" using maxjid_ge(2) [of "(job_list js)[i := clearjob]"] by simp
  with ok False i pids_update [OF il] show ?thesis
    by (auto simp: deletejob_def jobs_wf_def Let_def clear_ok dest!: set_update_cases split: if_splits)
qed

lemma setstate_wf:
  assumes ok: "jobs_wf js" and i: "i < MAXJOBS" and st: "st \<noteq> UNDEF"
  shows "jobs_wf (setstate js i st)"
proof -
  have il: "i < length (job_list js)" using ok i by (simp add: jobs_wf_def)
  have "slot_wf (job_list js ! i)" using ok il by (simp add: jobs_wf_def)
  then have "slot_wf ((job_list js ! i)\<lparr>state := st\<rparr>)" using i st by (simp add: slot_wf_def)
  with ok pids_update [OF il] show ?thesis
    by (auto simp: setstate_def jobs_wf_def dest!: set_update_cases)
qed

text \<open>The operations leave no stale state behind; \<open>setstate\<close> does when the record is free.\<close>

lemma no_stale_update: "no_stale l \<Longrightarrow> (pid j = 0 \<longrightarrow> state j = UNDEF) \<Longrightarrow> no_stale (l[i := j])"
  by (auto simp: no_stale_def dest!: set_update_cases)

lemma addjob_stale: "no_stale (job_list js) \<Longrightarrow> no_stale (job_list (snd (addjob js p st cmd)))"
  by (auto simp: addjob_def Let_def no_stale_update split: option.splits)

lemma deletejob_stale: "no_stale (job_list js) \<Longrightarrow> no_stale (job_list (snd (deletejob js p)))"
  by (auto simp: deletejob_def Let_def no_stale_update clear_ok split: option.splits)

lemma setstate_stale:
  "no_stale (job_list js) \<Longrightarrow> pid (job_list js ! i) \<noteq> 0 \<Longrightarrow> no_stale (job_list (setstate js i st))"
  by (auto simp: setstate_def no_stale_update)

lemma deletejob_ok: "jobs_ok js \<Longrightarrow> jobs_ok (snd (deletejob js p))"
  by (simp add: jobs_ok_iff deletejob_wf deletejob_stale)

subsection \<open>The table as a map\<close>

definition table :: "jobs \<Rightarrow> int \<Rightarrow> job_t option" where
  "table js p = map_option ((!) (job_list js)) (getjobpid (job_list js) p)"

lemma pids_mem: "p \<in> set (pids js) \<longleftrightarrow> p \<noteq> 0 \<and> (\<exists>j \<in> set js. pid j = p)"
  by (auto simp: pids_def)

lemma pid_index_unique:
  assumes "jobs_wf js" and "i < length (job_list js)" "k < length (job_list js)"
    and "pid (job_list js ! i) = pid (job_list js ! k)" "pid (job_list js ! i) \<noteq> 0"
  shows "i = k"
proof (rule ccontr)
  assume "i \<noteq> k"
  define a b where "a = min i k" and "b = max i k"
  have ab: "a < b" "b < length (job_list js)" "pid (job_list js ! a) = pid (job_list js ! b)"
    "pid (job_list js ! b) \<noteq> 0"
    using \<open>i \<noteq> k\<close> assms(2-5) by (auto simp: a_def b_def min_def max_def)
  have "job_list js ! a \<in> set (take b (job_list js))"
    using ab(1,2) by (auto simp: in_set_conv_nth intro!: exI [of _ a])
  then have "pid (job_list js ! b) \<in> set (pids (take b (job_list js)))"
    using ab(3,4) by (auto simp: pids_mem)
  with jobs_wfD(3) [OF assms(1)] pids_update(2) [OF ab(2)] ab(4) show False by auto
qed

lemma table_iff:
  assumes "jobs_wf js"
  shows "table js p = Some j \<longleftrightarrow> 0 < p \<and> pid j = p \<and> j \<in> set (job_list js)"
proof
  assume "table js p = Some j"
  then show "0 < p \<and> pid j = p \<and> j \<in> set (job_list js)"
    by (auto simp: table_def getjobpid_def first_index_Some split: if_splits)
next
  assume r: "0 < p \<and> pid j = p \<and> j \<in> set (job_list js)"
  then obtain i where i: "i < length (job_list js)" "job_list js ! i = j" by (auto simp: in_set_conv_nth)
  have "\<not> pid (job_list js ! k) = p" if "k < i" for k
    using pid_index_unique [OF assms, of k i] that i r by auto
  with i r have "first_index (\<lambda>j. pid j = p) (job_list js) = Some i" by (simp add: first_index_Some)
  with i r show "table js p = Some j" by (simp add: table_def getjobpid_def)
qed

lemma table_dom: "jobs_wf js \<Longrightarrow> dom (table js) = set (pids (job_list js))"
  using jobs_wfD(2) [of js] by (force simp: dom_def table_iff pids_mem slot_wf_def)

lemma table_None: "jobs_wf js \<Longrightarrow> table js p = None \<longleftrightarrow> p \<notin> set (pids (job_list js))"
  using table_dom [of js] by auto

text \<open>Updating one record.\<close>

lemma table_update:
  assumes ok: "jobs_wf js" and ok': "jobs_wf js'" and i: "i < length (job_list js)"
    and l: "job_list js' = (job_list js)[i := j]"
    and p: "pid j = p \<or> pid j = 0" "pid (job_list js ! i) = p \<or> pid (job_list js ! i) = 0" "0 < p"
    and one: "pid j = p \<or> pid (job_list js ! i) = p"
  shows "table js' = (table js)(p := if pid j = p then Some j else None)"
proof (rule ext)
  fix q
  have mem: "x \<in> set (job_list js') \<longleftrightarrow> x = j \<or> (\<exists>k < length (job_list js). k \<noteq> i \<and> x = job_list js ! k)" for x
    using i unfolding l by (auto simp: in_set_conv_nth nth_list_update)
  have other: "x \<in> set (job_list js') \<longleftrightarrow> x \<in> set (job_list js)" if "pid x \<noteq> p" "pid x \<noteq> 0" for x
    using that p i unfolding mem by (auto simp: in_set_conv_nth)
  show "table js' q = ((table js)(p := if pid j = p then Some j else None)) q"
  proof (cases "q = p")
    case True
    show ?thesis
    proof (cases "pid j = p")
      case True
      then have "table js' p = Some j" using p(3) mem by (auto simp: table_iff [OF ok'])
      with True \<open>q = p\<close> show ?thesis by simp
    next
      case False
      then have old: "pid (job_list js ! i) = p" using one by simp
      have "p \<notin> set (pids (job_list js'))"
      proof
        assume "p \<in> set (pids (job_list js'))"
        then obtain k where "k < length (job_list js)" "k \<noteq> i" "pid (job_list js ! k) = p"
          using False mem by (auto simp: pids_mem)
        with pid_index_unique [OF ok, of k i] i old p(3) show False by simp
      qed
      with False \<open>q = p\<close> show ?thesis by (simp add: table_None [OF ok'])
    qed
  next
    case False
    have "table js' q = Some x \<longleftrightarrow> table js q = Some x" for x
      using other [of x] False by (auto simp: table_iff [OF ok] table_iff [OF ok'])
    then have "table js' q = table js q" by (metis not_None_eq)
    with False show ?thesis by simp
  qed
qed

lemma free_slot_iff: "length (pids l) < length l \<longleftrightarrow> (\<exists>j \<in> set l. pid j = 0)"
proof -
  have "length (pids l) = length (filter (\<lambda>j. pid j \<noteq> 0) l)" by (simp add: pids_def)
  moreover have "length (filter (\<lambda>j. pid j \<noteq> 0) l) < length l \<longleftrightarrow> (\<exists>j \<in> set l. \<not> pid j \<noteq> 0)"
    by (metis (mono_tags, lifting) filter_True length_filter_less less_irrefl)
  ultimately show ?thesis by simp
qed

lemma card_table: "jobs_wf js \<Longrightarrow> card (dom (table js)) = length (pids (job_list js))"
  by (simp add: table_dom distinct_card jobs_wfD)

lemma addjob_table_wf:
  assumes ok: "jobs_wf js" and p: "0 < p" "table js p = None" and st: "st \<noteq> UNDEF"
    and room: "card (dom (table js)) < MAXJOBS"
  shows "fst (addjob js p st cmd)" "jobs_wf (snd (addjob js p st cmd))"
    "table (snd (addjob js p st cmd)) = (table js)(p \<mapsto> \<lparr>pid = p, jid = nextjid js, state = st, cmdline = cmd\<rparr>)"
proof -
  have "length (pids (job_list js)) < length (job_list js)"
    using room ok by (simp add: card_table jobs_wfD(1))
  then have "first_index (\<lambda>j. pid j = 0) (job_list js) \<noteq> None"
    unfolding first_index_None free_slot_iff by simp
  then obtain i where i: "first_index (\<lambda>j. pid j = 0) (job_list js) = Some i" by auto
  then have il: "i < length (job_list js)" "pid (job_list js ! i) = 0" by (auto simp: first_index_Some)
  show "fst (addjob js p st cmd)" using i p by (simp add: addjob_def Let_def)
  show ok': "jobs_wf (snd (addjob js p st cmd))"
    using ok p st by (intro addjob_wf) (simp_all add: table_None)
  show "table (snd (addjob js p st cmd)) = (table js)(p \<mapsto> \<lparr>pid = p, jid = nextjid js, state = st, cmdline = cmd\<rparr>)"
    using table_update [OF ok ok' il(1), of "\<lparr>pid = p, jid = nextjid js, state = st, cmdline = cmd\<rparr>" p]
      i p il(2) by (simp add: addjob_def Let_def)
qed

lemma addjob_full_wf:
  assumes ok: "jobs_wf js" and full: "card (dom (table js)) = MAXJOBS"
  shows "addjob js p st cmd = (False, js)"
proof -
  have "\<not> length (pids (job_list js)) < length (job_list js)"
    using full ok by (simp add: card_table jobs_wfD(1))
  then have "first_index (\<lambda>j. pid j = 0) (job_list js) = None"
    by (simp add: first_index_None free_slot_iff)
  then show ?thesis by (simp add: addjob_def)
qed

lemma deletejob_table_wf:
  assumes ok: "jobs_wf js"
  shows "table (snd (deletejob js p)) = (table js)(p := None)"
proof (cases "getjobpid (job_list js) p")
  case None
  then have "table js p = None" "snd (deletejob js p) = js"
    by (auto simp: table_def getjobpid_def deletejob_def split: if_splits)
  then show ?thesis by (simp add: fun_upd_idem)
next
  case (Some i)
  then have i: "0 < p" "first_index (\<lambda>j. pid j = p) (job_list js) = Some i"
    by (auto simp: getjobpid_def split: if_splits)
  then have il: "i < length (job_list js)" "pid (job_list js ! i) = p" by (auto simp: first_index_Some)
  show ?thesis
    using table_update [OF ok deletejob_wf [OF ok, of p] il(1), of clearjob p] i il(2)
    by (simp add: deletejob_def Let_def clear_ok)
qed

definition setstate_pid :: "jobs \<Rightarrow> int \<Rightarrow> jstate \<Rightarrow> jobs" where
  "setstate_pid js p st =
     (case getjobpid (job_list js) p of Some i \<Rightarrow> setstate js i st | None \<Rightarrow> js)"

lemma setstate_table_wf:
  assumes ok: "jobs_wf js" and p: "table js p = Some j" and st: "st \<noteq> UNDEF"
  shows "jobs_wf (setstate_pid js p st)"
    "table (setstate_pid js p st) = (table js)(p \<mapsto> j\<lparr>state := st\<rparr>)"
proof -
  obtain i where i: "getjobpid (job_list js) p = Some i" "j = job_list js ! i"
    using p by (auto simp: table_def)
  then have il: "i < length (job_list js)" "pid (job_list js ! i) = p" "0 < p"
    by (auto simp: getjobpid_def first_index_Some split: if_splits)
  have "jobs_wf (setstate js i st)"
    using ok il st by (intro setstate_wf) (auto simp: jobs_wfD(1) [symmetric])
  with i show ok': "jobs_wf (setstate_pid js p st)" by (simp add: setstate_pid_def)
  show "table (setstate_pid js p st) = (table js)(p \<mapsto> j\<lparr>state := st\<rparr>)"
    using table_update [OF ok ok' il(1), of "j\<lparr>state := st\<rparr>" p] i il
    by (simp add: setstate_pid_def setstate_def)
qed

text \<open>The same for a table without stale states.\<close>

lemma addjob_table:
  assumes "jobs_ok js" and "0 < p" "table js p = None" and "st \<noteq> UNDEF"
    and "card (dom (table js)) < MAXJOBS"
  shows "fst (addjob js p st cmd)" "jobs_ok (snd (addjob js p st cmd))"
    "table (snd (addjob js p st cmd)) = (table js)(p \<mapsto> \<lparr>pid = p, jid = nextjid js, state = st, cmdline = cmd\<rparr>)"
  using addjob_table_wf [of js p st cmd] assms addjob_stale [of js p st cmd] by (simp_all add: jobs_ok_iff)

lemmas addjob_full = addjob_full_wf [OF jobs_ok_wf]
  and deletejob_table = deletejob_table_wf [OF jobs_ok_wf]

lemma setstate_table:
  assumes "jobs_ok js" and "table js p = Some j" and "st \<noteq> UNDEF"
  shows "jobs_ok (setstate_pid js p st)"
    "table (setstate_pid js p st) = (table js)(p \<mapsto> j\<lparr>state := st\<rparr>)"
proof -
  have "no_stale (job_list (setstate_pid js p st))"
    using assms(1) setstate_stale [of js _ st]
    by (auto simp: setstate_pid_def jobs_ok_iff getjobpid_def first_index_Some split: option.splits if_splits)
  with setstate_table_wf [of js p j st] assms
  show "jobs_ok (setstate_pid js p st)" "table (setstate_pid js p st) = (table js)(p \<mapsto> j\<lparr>state := st\<rparr>)"
    by (simp_all add: jobs_ok_iff)
qed

subsection \<open>The interface the shell relies on\<close>

datatype wstatus = WExited int | WStopped int | WSignaled int

definition terminated :: "wstatus \<Rightarrow> bool" where
  "terminated w \<longleftrightarrow> (case w of WStopped _ \<Rightarrow> False | _ \<Rightarrow> True)"

text \<open>The reports of \<open>waitpid\<close> about a set of children: each is about a child not yet reaped.\<close>

fun reports_ok :: "int set \<Rightarrow> (int \<times> wstatus) list \<Rightarrow> bool" where
  "reports_ok C [] = True"
| "reports_ok C ((p, w) # rs) = (p \<in> C \<and> reports_ok (if terminated w then C - {p} else C) rs)"

fun survivors :: "int set \<Rightarrow> (int \<times> wstatus) list \<Rightarrow> int set" where
  "survivors C [] = C"
| "survivors C ((p, w) # rs) = survivors (if terminated w then C - {p} else C) rs"

locale job_table =
  fixes inv :: "'t \<Rightarrow> bool"
    and look :: "'t \<Rightarrow> int \<Rightarrow> job_t option"
    and add :: "'t \<Rightarrow> int \<Rightarrow> jstate \<Rightarrow> string \<Rightarrow> bool \<times> 't"
    and del :: "'t \<Rightarrow> int \<Rightarrow> 't"
    and setst :: "'t \<Rightarrow> int \<Rightarrow> jstate \<Rightarrow> 't"
    and cap :: nat
  assumes look_entry: "inv t \<Longrightarrow> look t p = Some j \<Longrightarrow> 0 < p \<and> pid j = p \<and> state j \<noteq> UNDEF"
    and add_entry: "inv t \<Longrightarrow> 0 < p \<Longrightarrow> look t p = None \<Longrightarrow> st \<noteq> UNDEF \<Longrightarrow> card (dom (look t)) < cap
      \<Longrightarrow> fst (add t p st c) \<and> inv (snd (add t p st c))
        \<and> (\<exists>j. look (snd (add t p st c)) = (look t)(p \<mapsto> j) \<and> state j = st)"
    and add_full: "inv t \<Longrightarrow> card (dom (look t)) = cap \<Longrightarrow> add t p st c = (False, t)"
    and del_entry: "inv t \<Longrightarrow> inv (del t p) \<and> look (del t p) = (look t)(p := None)"
    and set_entry: "inv t \<Longrightarrow> look t p = Some j \<Longrightarrow> st \<noteq> UNDEF
      \<Longrightarrow> inv (setst t p st) \<and> look (setst t p st) = (look t)(p \<mapsto> j\<lparr>state := st\<rparr>)"
begin

text \<open>Reaping: what a SIGCHLD handler does with the reports of \<open>waitpid\<close>; None when a report is
  about a process that is not in the table.\<close>

fun reap :: "'t \<Rightarrow> (int \<times> wstatus) list \<Rightarrow> 't option" where
  "reap t [] = Some t"
| "reap t ((p, w) # rs) =
     (if look t p = None then None
      else reap (if terminated w then del t p else setst t p ST) rs)"

lemma entry_step:
  fixes w :: wstatus
  assumes "inv t" and "look t p = Some j"
  defines "t1 \<equiv> if terminated w then del t p else setst t p ST"
  shows "inv t1" "dom (look t1) = (if terminated w then dom (look t) - {p} else dom (look t))"
    "look t1 q = Some k \<Longrightarrow> state k = FG \<Longrightarrow> look t q = Some k"
  using del_entry [OF assms(1), of p] set_entry [OF assms(1,2), of ST] assms(2)
  by (auto simp: t1_def split: if_splits)

lemma reap_Some:
  "reap t rs = Some t' \<Longrightarrow> inv t \<Longrightarrow> inv t' \<and> dom (look t') = survivors (dom (look t)) rs
     \<and> (\<forall>p j. look t' p = Some j \<longrightarrow> state j = FG \<longrightarrow> look t p = Some j)"
proof (induction t rs rule: reap.induct)
  case (2 t p w rs)
  then obtain j where j: "look t p = Some j" by (auto split: if_splits)
  note e = entry_step [OF 2(3) j, where w = w]
  show ?case using 2(1,2) j e by simp
qed simp

lemma reap_returns: "inv t \<Longrightarrow> reports_ok (dom (look t)) rs \<Longrightarrow> \<exists>t'. reap t rs = Some t'"
proof (induction t rs rule: reap.induct)
  case (2 t p w rs)
  then obtain j where j: "look t p = Some j" by auto
  note e = entry_step [OF 2(2) j, where w = w]
  show ?case using 2(1,3) j e(1,2) by simp
qed simp

lemma reap_unknown: "look t p = None \<Longrightarrow> reap t ((p, w) # rs) = None"
  by simp

text \<open>A process that found the table full is unknown when it is reaped.\<close>

lemma full_then_unknown:
  assumes "inv t" "card (dom (look t)) = cap" "look t p = None"
  shows "reap (snd (add t p st c)) ((p, w) # rs) = None"
  using assms add_full [of t p st c] by simp

end

lemma table_entry: "jobs_wf js \<Longrightarrow> table js p = Some j \<Longrightarrow> 0 < p \<and> pid j = p \<and> state j \<noteq> UNDEF"
  using jobs_wfD(2) [of js j] by (auto simp: table_iff slot_wf_def)

text \<open>The array implements the interface under both invariants.\<close>

interpretation wtbl: job_table jobs_wf table addjob "\<lambda>js p. snd (deletejob js p)" setstate_pid MAXJOBS
proof
  fix js p j
  assume "jobs_wf js" "table js p = Some j"
  then show "0 < p \<and> pid j = p \<and> state j \<noteq> UNDEF" by (rule table_entry)
qed (use addjob_table_wf in \<open>auto simp: addjob_full_wf deletejob_wf deletejob_table_wf setstate_table_wf\<close>)

interpretation tbl: job_table jobs_ok table addjob "\<lambda>js p. snd (deletejob js p)" setstate_pid MAXJOBS
proof
  fix js p j
  assume "jobs_ok js" "table js p = Some j"
  then show "0 < p \<and> pid j = p \<and> state j \<noteq> UNDEF" using jobs_ok_wf table_entry by blast
qed (use addjob_table in \<open>auto simp: addjob_full deletejob_ok deletejob_table setstate_table\<close>)

end
