(* ===== verification/Tsh.thy ===== *)
theory Tsh
  imports Tsh_Parse Tsh_Jobs
begin

section \<open>The shell (tshlab tsh.c)\<close>

text \<open>
  The state of the shell is its job table, where its control is, what it has printed and the
  signals it has sent. The kernel is represented by the set of children that exist and are not
  reaped; \<open>fork\<close> yields a new process id or -1, and the SIGCHLD handler gets the reports of its
  calls of \<open>waitpid\<close>.

  Signals interleave with the main program as steps of a relation. Between \<open>fork\<close> and \<open>addjob\<close>
  the code blocks them, so that part of \<open>eval\<close> is one step. Everywhere else they can arrive, and
  \<open>eval\<close> is cut where a handler could change what it does next: after the new job has been added
  and the signals are unblocked (\<open>Added\<close>), before its line is printed (\<open>Announcing\<close>); in \<open>bg\<close> and
  \<open>fg\<close> after the job has been looked up (\<open>Found\<close>), after its state has been tested (\<open>Printing\<close>,
  \<open>Continuing\<close>) and after SIGCONT has been sent (\<open>Signalled\<close>), where the state of the record the
  pointer points to, which the SIGCHLD handler may have cleared meanwhile, is assigned. One scan of
  the table (\<open>getjobpid\<close>, \<open>getjobjid\<close>, \<open>fgpid\<close>, \<open>listjobs\<close>) is one step, and a handler runs to its
  end before anything else happens. Output that depends on \<open>verbose\<close> is left out.
\<close>

datatype ctl = Prompt
  | Added int int string
  | Announcing int int string
  | Found jstate nat
  | Printing nat
  | Continuing jstate nat
  | Signalled jstate nat
  | Wait_fg
  | Gone fault

datatype signal = SIGINT | SIGTSTP | SIGCONT | SIGQUIT

record shell =
  jobs :: jobs
  ctl :: ctl
  out :: "string list"
  sent :: "(int \<times> signal) list"
  children :: "int set"

definition say :: "shell \<Rightarrow> string \<Rightarrow> shell" where
  "say s line = s\<lparr>out := out s @ [line]\<rparr>"

definition die :: "shell \<Rightarrow> fault \<Rightarrow> shell" where
  "die s f = s\<lparr>ctl := Gone f\<rparr>"

definition kill_group :: "shell \<Rightarrow> int \<Rightarrow> signal \<Rightarrow> shell" where
  "kill_group s p sg = s\<lparr>sent := sent s @ [(- p, sg)]\<rparr>"

subsection \<open>Signal handlers\<close>

definition report_line :: "job_t \<Rightarrow> string \<Rightarrow> int \<Rightarrow> string" where
  "report_line j what sg = ''Job ['' @ show_int (jid j) @ ''] ('' @ show_int (pid j) @ '') ''
     @ what @ '' by signal '' @ show_int sg @ [CHR 0x0A]"

fun sigchld_handler :: "shell \<Rightarrow> (int \<times> wstatus) list \<Rightarrow> shell" where
  "sigchld_handler s [] = s"
| "sigchld_handler s ((wpid, w) # rs) =
     (case getjobpid (job_list (jobs s)) wpid of
        None \<Rightarrow> die (say s (''sigchld getjobpid error'' @ [CHR 0x0A])) (Exits 1)
      | Some i \<Rightarrow>
          let job = job_list (jobs s) ! i in
          case w of
            WExited c \<Rightarrow> sigchld_handler (s\<lparr>jobs := snd (deletejob (jobs s) wpid)\<rparr>) rs
          | WStopped sg \<Rightarrow>
              sigchld_handler (say (s\<lparr>jobs := setstate (jobs s) i ST\<rparr>) (report_line job ''stopped'' sg)) rs
          | WSignaled sg \<Rightarrow>
              sigchld_handler ((say s (report_line job ''terminated'' sg))
                \<lparr>jobs := snd (deletejob (jobs s) wpid)\<rparr>) rs)"

text \<open>\<open>kills\<close> tells whether \<open>kill\<close> succeeds.\<close>

definition sigint_handler :: "shell \<Rightarrow> bool \<Rightarrow> shell" where
  "sigint_handler s kills =
     (let fid = fgpid (job_list (jobs s)) in
      if fid = 0 then s
      else if \<not> kills then die s (Exits 1)
      else kill_group s fid SIGINT)"

definition sigtstp_handler :: "shell \<Rightarrow> bool \<Rightarrow> shell" where
  "sigtstp_handler s kills =
     (let fid = fgpid (job_list (jobs s)) in
      if fid = 0 then s
      else if \<not> kills then die s (Exits 1)
      else kill_group s fid SIGTSTP)"

definition sigquit_handler :: "shell \<Rightarrow> shell" where
  "sigquit_handler s = die (say s (''Terminating after receipt of SIGQUIT signal'' @ [CHR 0x0A])) (Exits 1)"

subsection \<open>eval\<close>

text \<open>What the child does after \<open>fork\<close>: it runs the program, exits, or returns from \<open>eval\<close> and goes
  on as a second shell. \<open>can_open\<close>, \<open>can_dup\<close> and \<open>can_exec\<close> are the outcomes of the system calls.\<close>

datatype child = Child_execs "string list" "string option" "string option" | Child_exits int
  | Child_returns

definition child_action :: "(string \<Rightarrow> bool) \<Rightarrow> (int \<Rightarrow> bool) \<Rightarrow> (string \<Rightarrow> bool) \<Rightarrow> cmdline_tokens \<Rightarrow> child" where
  "child_action can_open can_dup can_exec tok =
     (let bad_in = (case infile tok of None \<Rightarrow> False | Some f \<Rightarrow> \<not> can_open f \<or> \<not> can_dup 0);
          bad_out = (case outfile tok of None \<Rightarrow> False | Some f \<Rightarrow> \<not> can_open f \<or> \<not> can_dup 1)
      in if bad_in \<or> bad_out then Child_returns
         else if can_exec (hd (argv tok)) then Child_execs (argv tok) (infile tok) (outfile tok)
         else Child_exits 1)"

definition eval_external :: "shell \<Rightarrow> int \<Rightarrow> int \<Rightarrow> string \<Rightarrow> shell" where
  "eval_external s newpid bg line =
     (if newpid = -1 then die s (Exits 1)
      else s\<lparr>jobs := snd (addjob (jobs s) newpid (if bg + 1 = 1 then FG else BG) line),
             children := insert newpid (children s), ctl := Added bg newpid line\<rparr>)"

text \<open>After the signals are unblocked: the job id is read, then the shell waits or prints.\<close>

definition job_added :: "shell \<Rightarrow> int \<Rightarrow> int \<Rightarrow> string \<Rightarrow> shell" where
  "job_added s bg newpid line =
     (let j = pid2jid (job_list (jobs s)) newpid in
      s\<lparr>ctl := (if bg = 0 then Wait_fg else Announcing j newpid line)\<rparr>)"

definition announce :: "shell \<Rightarrow> int \<Rightarrow> int \<Rightarrow> string \<Rightarrow> shell" where
  "announce s j newpid line =
     (say s (''['' @ show_int j @ ''] ('' @ show_int newpid @ '') '' @ line @ [CHR 0x0A]))\<lparr>ctl := Prompt\<rparr>"

definition find_job :: "job_t list \<Rightarrow> string \<Rightarrow> nat option" where
  "find_job js arg =
     (if arg \<noteq> [] \<and> hd arg = CHR ''%'' then getjobjid js (atoi (tl arg)) else getjobpid js (atoi arg))"

text \<open>\<open>bg\<close> and \<open>fg\<close>: when no job is found, the code prints a message and then reads through the null
  pointer. Otherwise the pointer is kept, as the index of the record, across the steps below.\<close>

definition running_line :: "job_t \<Rightarrow> string" where
  "running_line j = ''['' @ show_int (jid j) @ ''] '' @ show_int (pid j) @ '' is running now'' @ [CHR 0x0A]"

definition eval_bg :: "shell \<Rightarrow> cmdline_tokens \<Rightarrow> shell" where
  "eval_bg s tok =
     (if argc tok \<noteq> 2 then say s ''wrong input''
      else case find_job (job_list (jobs s)) (argv tok ! 1) of
        None \<Rightarrow> die (say s (''No Such Job'' @ [CHR 0x0A])) Undefined
      | Some i \<Rightarrow> s\<lparr>ctl := Found BG i\<rparr>)"

definition eval_fg :: "shell \<Rightarrow> cmdline_tokens \<Rightarrow> shell" where
  "eval_fg s tok =
     (if argc tok \<noteq> 2 then say s ''wrong input''
      else case find_job (job_list (jobs s)) (argv tok ! 1) of
        None \<Rightarrow> die (say s (''No Such Job'' @ [CHR 0x0A])) Undefined
      | Some i \<Rightarrow> s\<lparr>ctl := Found FG i\<rparr>)"

text \<open>The test of the state; \<open>bg\<close> goes on to print the job, \<open>fg\<close> to continue it.\<close>

definition test_job :: "shell \<Rightarrow> jstate \<Rightarrow> nat \<Rightarrow> shell" where
  "test_job s st i =
     (let j = job_list (jobs s) ! i in
      if state j \<noteq> ST then (say s (running_line j))\<lparr>ctl := Prompt\<rparr>
      else s\<lparr>ctl := (if st = BG then Printing i else Continuing st i)\<rparr>)"

definition print_job :: "shell \<Rightarrow> nat \<Rightarrow> shell" where
  "print_job s i =
     (let j = job_list (jobs s) ! i in
      (say s (''['' @ show_int (jid j) @ ''] ('' @ show_int (pid j) @ '') '' @ cmdline j))
        \<lparr>ctl := Continuing BG i\<rparr>)"

definition continue_job :: "shell \<Rightarrow> jstate \<Rightarrow> nat \<Rightarrow> shell" where
  "continue_job s st i = (kill_group s (pid (job_list (jobs s) ! i)) SIGCONT)\<lparr>ctl := Signalled st i\<rparr>"

definition restart_job :: "shell \<Rightarrow> jstate \<Rightarrow> nat \<Rightarrow> shell" where
  "restart_job s st i =
     s\<lparr>jobs := setstate (jobs s) i st, ctl := (if st = FG then Wait_fg else Prompt)\<rparr>"

text \<open>\<open>newpid\<close> is what \<open>fork\<close> returns in the parent, \<open>can_write\<close> whether the output file of \<open>jobs\<close> can
  be opened; its contents then are the list.\<close>

definition eval :: "shell \<Rightarrow> int \<Rightarrow> (string \<Rightarrow> bool) \<Rightarrow> string \<Rightarrow> shell" where
  "eval s newpid can_write line =
     (case parseline line of
        Inl Not_terminated \<Rightarrow> die s Undefined
      | Inl e \<Rightarrow> s
      | Inr (bg, tok) \<Rightarrow>
          if argv tok = [] then s
          else case builtins tok of
            Some BUILTIN_NONE \<Rightarrow> eval_external s newpid bg line
          | Some BUILTIN_QUIT \<Rightarrow> sigquit_handler (s\<lparr>sent := sent s @ [(0, SIGQUIT)]\<rparr>)
          | Some BUILTIN_JOBS \<Rightarrow>
              (case outfile tok of
                 Some f \<Rightarrow> if can_write f then s else say s ''jobs output error''
               | None \<Rightarrow> say s (listjobs (job_list (jobs s))))
          | Some BUILTIN_BG \<Rightarrow> eval_bg s tok
          | Some BUILTIN_FG \<Rightarrow> eval_fg s tok
          | None \<Rightarrow> s)"

subsection \<open>The shell as a state machine\<close>

definition init_shell :: shell where
  "init_shell = \<lparr>jobs = initjobs \<lparr>job_list = [], nextjid = 1\<rparr>, ctl = Prompt, out = [], sent = [], children = {}\<rparr>"

definition alive :: "shell \<Rightarrow> bool" where
  "alive s \<longleftrightarrow> (case ctl s of Gone _ \<Rightarrow> False | _ \<Rightarrow> True)"

text \<open>A line is what \<open>fgets\<close> stores, at most \<open>MAXLINE_tsh - 1\<close> characters, less its last one.\<close>

inductive step :: "shell \<Rightarrow> shell \<Rightarrow> bool" where
  command: "ctl s = Prompt \<Longrightarrow> newpid = -1 \<or> (0 < newpid \<and> newpid \<notin> children s)
    \<Longrightarrow> length line < MAXLINE_tsh - 1 \<Longrightarrow> step s (eval s newpid can_write line)"
| added: "ctl s = Added bg newpid line \<Longrightarrow> step s (job_added s bg newpid line)"
| announcing: "ctl s = Announcing j newpid line \<Longrightarrow> step s (announce s j newpid line)"
| found: "ctl s = Found st i \<Longrightarrow> step s (test_job s st i)"
| printing: "ctl s = Printing i \<Longrightarrow> step s (print_job s i)"
| continuing: "ctl s = Continuing st i \<Longrightarrow> step s (continue_job s st i)"
| signalled: "ctl s = Signalled st i \<Longrightarrow> step s (restart_job s st i)"
| end_of_input: "ctl s = Prompt \<Longrightarrow> step s (die s (Exits 0))"
| sigchld: "alive s \<Longrightarrow> reports_ok (children s) rs
    \<Longrightarrow> step s (sigchld_handler (s\<lparr>children := survivors (children s) rs\<rparr>) rs)"
| sigint: "alive s \<Longrightarrow> step s (sigint_handler s kills)"
| sigtstp: "alive s \<Longrightarrow> step s (sigtstp_handler s kills)"
| sigquit: "alive s \<Longrightarrow> step s (sigquit_handler s)"
| resume: "ctl s = Wait_fg \<Longrightarrow> fgpid (job_list (jobs s)) = 0 \<Longrightarrow> step s (s\<lparr>ctl := Prompt\<rparr>)"

inductive reachable :: "shell \<Rightarrow> bool" where
  start: "reachable init_shell"
| steps: "reachable s \<Longrightarrow> step s s' \<Longrightarrow> reachable s'"

end
