(* ===== verification/Tsh_Correct.thy ===== *)
theory Tsh_Correct
  imports Tsh
begin

section \<open>What the shell guarantees\<close>

text \<open>
  The invariants of the shell under every interleaving of commands and signals. A weak one,
  \<open>shell_wf\<close>, holds in every reachable state. The full one, \<open>shell_ok\<close>, holds as long as no job is
  reaped while \<open>bg\<close> or \<open>fg\<close> is about to assign its state (\<open>calm\<close>): the code does not block
  SIGCHLD there, and such a report leaves a state in a record that is free.
\<close>

inductive_cases step_elims: "step s s'"

lemmas shell_ops = say_def die_def kill_group_def

subsection \<open>Foreground jobs\<close>

definition fg_jobs :: "jobs \<Rightarrow> int set" where
  "fg_jobs js = {p. \<exists>j. table js p = Some j \<and> state j = FG}"

text \<open>The first record in the foreground state is a foreground job, unless it is free.\<close>

lemma fgpid_weak:
  assumes "jobs_wf js"
  shows "fgpid (job_list js) = 0 \<or> fgpid (job_list js) \<in> fg_jobs js"
proof (cases "first_index (\<lambda>j. state j = FG) (job_list js)")
  case (Some i)
  then have m: "job_list js ! i \<in> set (job_list js)" "state (job_list js ! i) = FG"
    by (auto simp: first_index_Some)
  then have "slot_wf (job_list js ! i)" using assms by (simp add: jobs_wfD)
  with m Some show ?thesis
    by (auto simp: fgpid_def fg_jobs_def table_iff [OF assms] slot_wf_def split: if_splits)
qed (simp add: fgpid_def)

lemma fgpid_none: "jobs_wf js \<Longrightarrow> fg_jobs js = {} \<Longrightarrow> fgpid (job_list js) = 0"
  using fgpid_weak by blast

lemma fgpid_zero_iff:
  assumes "jobs_ok js"
  shows "fgpid (job_list js) = 0 \<longleftrightarrow> fg_jobs js = {}"
proof
  assume z: "fgpid (job_list js) = 0"
  show "fg_jobs js = {}"
  proof (rule ccontr)
    assume "fg_jobs js \<noteq> {}"
    then obtain p j where j: "table js p = Some j" "state j = FG" by (auto simp: fg_jobs_def)
    then have "j \<in> set (job_list js)" by (simp add: table_iff [OF jobs_ok_wf [OF assms]])
    with j(2) obtain i where i: "first_index (\<lambda>j. state j = FG) (job_list js) = Some i"
      using first_index_None [of "\<lambda>j. state j = FG" "job_list js"] by fastforce
    then have "job_list js ! i \<in> set (job_list js)" "state (job_list js ! i) = FG"
      by (auto simp: first_index_Some)
    then have "pid (job_list js ! i) \<noteq> 0" using assms by (auto simp: jobs_ok_iff no_stale_def)
    with z i show False by (simp add: fgpid_def)
  qed
qed (use fgpid_none [OF jobs_ok_wf [OF assms]] in simp)

lemma fg_jobs_add:
  assumes ok: "jobs_wf js" and p: "0 < p" "table js p = None" and st: "st \<noteq> UNDEF"
  shows "jobs_wf (snd (addjob js p st c))"
    "dom (table (snd (addjob js p st c))) \<subseteq> insert p (dom (table js))"
    "fg_jobs (snd (addjob js p st c)) \<subseteq> fg_jobs js \<union> (if st = FG then {p} else {})"
proof -
  have "card (dom (table js)) \<le> MAXJOBS"
    using jobs_wfD(1) [OF ok] length_filter_le [of "\<lambda>j. pid j \<noteq> 0" "job_list js"]
    by (simp add: card_table [OF ok] pids_def)
  then consider "card (dom (table js)) < MAXJOBS" | "card (dom (table js)) = MAXJOBS" by linarith
  then show "jobs_wf (snd (addjob js p st c))"
    "dom (table (snd (addjob js p st c))) \<subseteq> insert p (dom (table js))"
    "fg_jobs (snd (addjob js p st c)) \<subseteq> fg_jobs js \<union> (if st = FG then {p} else {})"
    using addjob_table_wf [OF ok p st] addjob_full_wf [OF ok] ok
    by (cases; auto simp: fg_jobs_def split: if_splits)+
qed

lemma pids_image: "set (pids l) = pid ` set l - {0}"
  by (auto simp: pids_def)

lemma find_job_less: "find_job js a = Some i \<Longrightarrow> i < length js"
  by (auto simp: find_job_def getjobjid_def getjobpid_def first_index_Some split: if_splits)

text \<open>Assigning the state of a record that may have been freed: a free record stays free, a job
  changes its state.\<close>

lemma setstate_at:
  assumes ok: "jobs_wf js" and i: "i < MAXJOBS" and st: "st \<noteq> UNDEF"
  shows "jobs_wf (setstate js i st)" "dom (table (setstate js i st)) = dom (table js)"
    "fg_jobs (setstate js i st) \<subseteq> fg_jobs js \<union> (if st = FG then {pid (job_list js ! i)} else {})"
proof -
  show ok': "jobs_wf (setstate js i st)" using ok i st by (rule setstate_wf)
  have il: "i < length (job_list js)" using ok i by (simp add: jobs_wfD)
  have mem: "x \<in> set (job_list (setstate js i st)) \<longleftrightarrow> x = (job_list js ! i)\<lparr>state := st\<rparr>
      \<or> (\<exists>k < length (job_list js). k \<noteq> i \<and> x = job_list js ! k)" for x
    using il by (auto simp: setstate_def in_set_conv_nth nth_list_update)
  have "map pid (job_list (setstate js i st)) = map pid (job_list js)"
    using list_update_id [of "map pid (job_list js)" i] il by (simp add: setstate_def map_update)
  then have p: "pid ` set (job_list (setstate js i st)) = pid ` set (job_list js)"
    by (metis list.set_map)
  show "dom (table (setstate js i st)) = dom (table js)"
    by (simp add: table_dom [OF ok] table_dom [OF ok'] pids_image p)
  show "fg_jobs (setstate js i st) \<subseteq> fg_jobs js \<union> (if st = FG then {pid (job_list js ! i)} else {})"
    by (auto simp: fg_jobs_def table_iff [OF ok] table_iff [OF ok'] mem)
qed

subsection \<open>The SIGCHLD handler reaps\<close>

lemma sigchld_reap:
  "jobs_wf (jobs s) \<Longrightarrow>
     (\<forall>js. tbl.reap (jobs s) rs = Some js
        \<longrightarrow> jobs (sigchld_handler s rs) = js \<and> ctl (sigchld_handler s rs) = ctl s)
     \<and> (tbl.reap (jobs s) rs = None \<longrightarrow> ctl (sigchld_handler s rs) = Gone (Exits 1))
     \<and> children (sigchld_handler s rs) = children s \<and> sent (sigchld_handler s rs) = sent s"
proof (induction s rs rule: sigchld_handler.induct)
  case (2 s wpid w rs)
  show ?case
  proof (cases "getjobpid (job_list (jobs s)) wpid")
    case None
    then have "table (jobs s) wpid = None" by (simp add: table_def)
    with None show ?thesis by (simp add: shell_ops)
  next
    case (Some i)
    then have t: "table (jobs s) wpid = Some (job_list (jobs s) ! i)"
      and st: "setstate_pid (jobs s) wpid ST = setstate (jobs s) i ST"
      by (simp_all add: table_def setstate_pid_def)
    have ok: "jobs_wf (snd (deletejob (jobs s) wpid))" "jobs_wf (setstate (jobs s) i ST)"
      using 2(4) setstate_table_wf(1) [OF 2(4) t, of ST] st by (simp_all add: deletejob_wf)
    show ?thesis
      using 2(1-3) [OF Some refl] t st ok Some
      by (cases w) (simp_all add: terminated_def say_def)
  qed
qed simp

subsection \<open>Every interleaving keeps the invariant\<close>

text \<open>The record \<open>bg\<close> or \<open>fg\<close> points to, once its state has been tested.\<close>

fun pending :: "ctl \<Rightarrow> nat option" where
  "pending (Printing i) = Some i"
| "pending (Continuing st i) = Some i"
| "pending (Signalled st i) = Some i"
| "pending _ = None"

fun target_ok :: "ctl \<Rightarrow> bool" where
  "target_ok (Found st i) = (i < MAXJOBS \<and> st \<in> {FG, BG})"
| "target_ok (Printing i) = (i < MAXJOBS)"
| "target_ok (Continuing st i) = (i < MAXJOBS \<and> st \<in> {FG, BG})"
| "target_ok (Signalled st i) = (i < MAXJOBS \<and> st \<in> {FG, BG})"
| "target_ok _ = True"

fun waits :: "ctl \<Rightarrow> bool" where
  "waits Wait_fg = True"
| "waits (Added bg p line) = (bg = 0)"
| "waits _ = False"

definition shell_wf :: "shell \<Rightarrow> bool" where
  "shell_wf s \<longleftrightarrow> jobs_wf (jobs s) \<and> dom (table (jobs s)) \<subseteq> children s
     \<and> (\<forall>p \<in> children s. 0 < p) \<and> target_ok (ctl s)"

definition shell_ok :: "shell \<Rightarrow> bool" where
  "shell_ok s \<longleftrightarrow> shell_wf s \<and> no_stale (job_list (jobs s))
     \<and> (\<exists>p. fg_jobs (jobs s) \<subseteq> {p}) \<and> (\<not> waits (ctl s) \<longrightarrow> fg_jobs (jobs s) = {})
     \<and> (\<forall>i. pending (ctl s) = Some i \<longrightarrow> pid (job_list (jobs s) ! i) \<noteq> 0)"

lemma shell_wfD:
  assumes "shell_wf s"
  shows "jobs_wf (jobs s)" "dom (table (jobs s)) \<subseteq> children s" "\<forall>p \<in> children s. 0 < p"
    "target_ok (ctl s)"
  using assms by (simp_all add: shell_wf_def)

lemma shell_okD:
  assumes "shell_ok s"
  shows "shell_wf s" "jobs_ok (jobs s)" "\<exists>p. fg_jobs (jobs s) \<subseteq> {p}"
    "\<not> waits (ctl s) \<Longrightarrow> fg_jobs (jobs s) = {}"
    "pending (ctl s) = Some i \<Longrightarrow> pid (job_list (jobs s) ! i) \<noteq> 0"
  using assms by (auto simp: shell_ok_def shell_wf_def jobs_ok_iff)

text \<open>A step that frees the record whose state is about to be assigned.\<close>

definition reaps_pending :: "shell \<Rightarrow> shell \<Rightarrow> bool" where
  "reaps_pending s s' \<longleftrightarrow> (case pending (ctl s) of None \<Rightarrow> False
     | Some i \<Rightarrow> pid (job_list (jobs s) ! i) \<noteq> 0 \<and> pid (job_list (jobs s') ! i) = 0)"

inductive calm :: "shell \<Rightarrow> bool" where
  start: "calm init_shell"
| steps: "calm s \<Longrightarrow> step s s' \<Longrightarrow> \<not> reaps_pending s s' \<Longrightarrow> calm s'"

lemma calm_reachable: "calm s \<Longrightarrow> reachable s"
  by (induction rule: calm.induct) (auto intro: reachable.intros)

subsubsection \<open>The SIGCHLD handler\<close>

lemma survivors_mono: "A \<subseteq> B \<Longrightarrow> survivors A rs \<subseteq> survivors B rs"
proof (induction A rs arbitrary: B rule: survivors.induct)
  case (2 C p w rs)
  then have "(if terminated w then C - {p} else C) \<subseteq> (if terminated w then B - {p} else B)" by auto
  from 2(1) [OF this] show ?case by simp
qed simp

lemma survivors_sub: "survivors A rs \<subseteq> A"
  by (induction A rs rule: survivors.induct) auto

lemma sigchld_alive:
  assumes wf: "jobs_wf (jobs s)"
    and alive: "alive (sigchld_handler (s\<lparr>children := survivors (children s) rs\<rparr>) rs)"
  defines "s' \<equiv> sigchld_handler (s\<lparr>children := survivors (children s) rs\<rparr>) rs"
  shows "tbl.reap (jobs s) rs = Some (jobs s')" "ctl s' = ctl s" "children s' = survivors (children s) rs"
proof -
  note c = sigchld_reap [of "s\<lparr>children := survivors (children s) rs\<rparr>" rs]
  from c wf alive obtain js where "tbl.reap (jobs s) rs = Some js"
    by (cases "tbl.reap (jobs s) rs") (auto simp: alive_def)
  with c wf show "tbl.reap (jobs s) rs = Some (jobs s')" "ctl s' = ctl s"
    "children s' = survivors (children s) rs"
    by (auto simp: s'_def)
qed

lemma sigchld_wf:
  assumes wf: "shell_wf s"
    and alive: "alive (sigchld_handler (s\<lparr>children := survivors (children s) rs\<rparr>) rs)"
  shows "shell_wf (sigchld_handler (s\<lparr>children := survivors (children s) rs\<rparr>) rs)"
proof -
  note d = shell_wfD [OF wf]
  note a = sigchld_alive [OF d(1) alive]
  note t = wtbl.reap_Some [OF a(1) d(1)]
  have "survivors (dom (table (jobs s))) rs \<subseteq> survivors (children s) rs" using d(2) by (rule survivors_mono)
  then show ?thesis
    using t d(3,4) survivors_sub [of "children s" rs] unfolding shell_wf_def a(2,3) by auto
qed

lemma sigchld_ok:
  assumes ok: "shell_ok s"
    and alive: "alive (sigchld_handler (s\<lparr>children := survivors (children s) rs\<rparr>) rs)"
    and calm: "\<not> reaps_pending s (sigchld_handler (s\<lparr>children := survivors (children s) rs\<rparr>) rs)"
  shows "shell_ok (sigchld_handler (s\<lparr>children := survivors (children s) rs\<rparr>) rs)"
proof -
  note d = shell_okD [OF ok]
  note a = sigchld_alive [OF shell_wfD(1) [OF d(1)] alive]
  note t = tbl.reap_Some [OF a(1) d(2)]
  let ?s' = "sigchld_handler (s\<lparr>children := survivors (children s) rs\<rparr>) rs"
  have "fg_jobs (jobs ?s') \<subseteq> fg_jobs (jobs s)" using t by (auto simp: fg_jobs_def)
  then have "\<exists>p. fg_jobs (jobs ?s') \<subseteq> {p}" "\<not> waits (ctl s) \<longrightarrow> fg_jobs (jobs ?s') = {}"
    using d(3,4) by blast+
  moreover have "pid (job_list (jobs ?s') ! i) \<noteq> 0" if "pending (ctl s) = Some i" for i
    using calm d(5) [OF that] that by (simp add: reaps_pending_def)
  moreover have "no_stale (job_list (jobs ?s'))" using t by (simp add: jobs_ok_iff)
  ultimately show ?thesis
    using sigchld_wf [OF d(1) alive] unfolding shell_ok_def a(2) by blast
qed

subsubsection \<open>Evaluating a command\<close>

text \<open>Printing, dying and moving control do not touch what the weak invariant says of the table.\<close>

lemma shell_wf_cong:
  "shell_wf s \<Longrightarrow> jobs s' = jobs s \<Longrightarrow> children s' = children s \<Longrightarrow> target_ok (ctl s') \<Longrightarrow> shell_wf s'"
  by (simp add: shell_wf_def)

lemma shell_ok_cong:
  "shell_ok s \<Longrightarrow> jobs s' = jobs s \<Longrightarrow> children s' = children s \<Longrightarrow> target_ok (ctl s')
    \<Longrightarrow> (waits (ctl s) \<Longrightarrow> waits (ctl s'))
    \<Longrightarrow> (\<And>i. pending (ctl s') = Some i \<Longrightarrow> pid (job_list (jobs s) ! i) \<noteq> 0) \<Longrightarrow> shell_ok s'"
  by (auto simp: shell_ok_def shell_wf_def)

lemma eval_external_ok:
  assumes wf: "shell_wf s" and p: "newpid = -1 \<or> 0 < newpid \<and> newpid \<notin> children s"
    and alive: "alive (eval_external s newpid b line)"
  shows "shell_wf (eval_external s newpid b line)"
    and "shell_ok s \<Longrightarrow> ctl s = Prompt \<Longrightarrow> shell_ok (eval_external s newpid b line)"
proof -
  have np: "0 < newpid" "newpid \<notin> children s"
    using p alive by (auto simp: eval_external_def alive_def die_def)
  note d = shell_wfD [OF wf]
  have fresh: "table (jobs s) newpid = None" using d(2) np by blast
  let ?st = "if b + 1 = 1 then FG else BG"
  have "?st \<noteq> UNDEF" by simp
  note f = fg_jobs_add [OF d(1) np(1) fresh this, of line]
  have "dom (table (snd (addjob (jobs s) newpid ?st line))) \<subseteq> insert newpid (children s)"
    using f(2) d(2) by blast
  with f(1) d(3) np show w: "shell_wf (eval_external s newpid b line)"
    by (simp add: eval_external_def shell_wf_def)
  assume ok: "shell_ok s" "ctl s = Prompt"
  then have e: "fg_jobs (jobs s) = {}" "no_stale (job_list (jobs s))" by (auto simp: shell_ok_def)
  then have "fg_jobs (jobs (eval_external s newpid b line)) \<subseteq> (if b = 0 then {newpid} else {})"
    using f(3) np by (auto simp: eval_external_def)
  with w e np show "shell_ok (eval_external s newpid b line)"
    by (auto simp: shell_ok_def eval_external_def addjob_stale split: if_splits)
qed

lemma eval_bg_fg:
  assumes "jobs_wf (jobs s)" "ctl s = Prompt"
  defines "f \<equiv> (\<lambda>x. jobs x = jobs s \<and> children x = children s \<and> target_ok (ctl x)
    \<and> pending (ctl x) = None)"
  shows "f (eval_bg s tok)" "f (eval_fg s tok)"
  using assms find_job_less [of "job_list (jobs s)" "argv tok ! 1"]
  by (auto simp: f_def eval_bg_def eval_fg_def shell_ops jobs_wfD split: option.splits)

lemma eval_wf:
  assumes ok: "shell_wf s" "ctl s = Prompt" and p: "newpid = -1 \<or> 0 < newpid \<and> newpid \<notin> children s"
    and alive: "alive (eval s newpid cw line)"
  shows "shell_wf (eval s newpid cw line)"
    and "shell_ok s \<Longrightarrow> shell_ok (eval s newpid cw line)"
proof -
  note d = shell_wfD [OF ok(1)]
  have bg: "shell_wf (eval_bg s tok)" and fg: "shell_wf (eval_fg s tok)" for tok
    using ok eval_bg_fg [OF d(1) ok(2), of tok] shell_wf_cong by blast+
  show "shell_wf (eval s newpid cw line)"
    using ok bg fg alive eval_external_ok(1) [OF ok(1) p]
    by (auto simp: eval_def sigquit_handler_def shell_ops alive_def shell_wf_def
        split: sum.splits prod.splits option.splits builtins_t.splits if_splits parse_error.splits)
  assume o: "shell_ok s"
  have bg: "shell_ok (eval_bg s tok)" and fg: "shell_ok (eval_fg s tok)" for tok
    using o ok(2) eval_bg_fg [OF d(1) ok(2), of tok] by (auto intro: shell_ok_cong [OF o])
  show "shell_ok (eval s newpid cw line)"
    using ok o bg fg alive eval_external_ok(2) [OF ok(1) p _ o ok(2)]
    by (auto simp: eval_def sigquit_handler_def shell_ops alive_def shell_ok_def shell_wf_def
        split: sum.splits prod.splits option.splits builtins_t.splits if_splits parse_error.splits)
qed

lemma restart_ok:
  assumes "shell_wf s" "ctl s = Signalled st i"
  shows "shell_wf (restart_job s st i)" "shell_ok s \<Longrightarrow> shell_ok (restart_job s st i)"
proof -
  note d = shell_wfD [OF assms(1)]
  have i: "i < MAXJOBS" "st \<in> {FG, BG}" using d(4) assms(2) by auto
  then have "st \<noteq> UNDEF" by auto
  note t = setstate_at [OF d(1) i(1) this]
  show w: "shell_wf (restart_job s st i)"
    using t(1,2) d(2,3) by (auto simp: restart_job_def shell_wf_def)
  assume ok: "shell_ok s"
  then have "no_stale (job_list (setstate (jobs s) i st))"
    using assms(2) by (auto simp: shell_ok_def intro: setstate_stale)
  moreover have "fg_jobs (setstate (jobs s) i st) \<subseteq> (if st = FG then {pid (job_list (jobs s) ! i)} else {})"
    using t(3) ok assms(2) by (auto simp: shell_ok_def)
  then have "\<exists>p. fg_jobs (setstate (jobs s) i st) \<subseteq> {p}" "st \<noteq> FG \<Longrightarrow> fg_jobs (setstate (jobs s) i st) = {}"
    by (auto split: if_splits)
  ultimately show "shell_ok (restart_job s st i)"
    using w by (auto simp: shell_ok_def restart_job_def)
qed

subsubsection \<open>All steps\<close>

lemmas micro_steps = job_added_def announce_def test_job_def print_job_def continue_job_def
  sigint_handler_def sigtstp_handler_def sigquit_handler_def

lemma step_wf: "step s s' \<Longrightarrow> shell_wf s \<Longrightarrow> alive s' \<Longrightarrow> shell_wf s'"
proof (induction rule: step.induct)
  case (command s newpid line cw)
  then show ?case by (intro eval_wf) auto
next
  case (sigchld s rs)
  then show ?case by (intro sigchld_wf)
next
  case (signalled s st i)
  then show ?case by (intro restart_ok)
qed (auto simp: micro_steps shell_ops alive_def Let_def shell_wf_def)

lemma live_stopped:
  assumes "jobs_ok js" "i < MAXJOBS" "state (job_list js ! i) = ST"
  shows "pid (job_list js ! i) \<noteq> 0"
proof -
  have "job_list js ! i \<in> set (job_list js)" using assms(1,2) by (simp add: jobs_ok_def)
  with assms(1,3) show ?thesis by (auto simp: jobs_ok_iff no_stale_def)
qed

lemma step_ok: "step s s' \<Longrightarrow> \<not> reaps_pending s s' \<Longrightarrow> shell_ok s \<Longrightarrow> alive s' \<Longrightarrow> shell_ok s'"
proof (induction rule: step.induct)
  case (command s newpid line cw)
  then show ?case by (intro eval_wf) (auto dest: shell_okD)
next
  case (sigchld s rs)
  then show ?case by (intro sigchld_ok)
next
  case (signalled s st i)
  then show ?case by (intro restart_ok) (auto dest: shell_okD)
next
  case (found s st i)
  note d = shell_okD [OF found(3)]
  have "i < MAXJOBS" "st \<in> {FG, BG}" using shell_wfD(4) [OF d(1)] found(1) by auto
  then show ?case
    using found(1) d(2) live_stopped by (intro shell_ok_cong [OF found(3)]) (auto simp: test_job_def shell_ops Let_def split: if_splits)
next
  case (resume s)
  then show ?case using fgpid_zero_iff [OF shell_okD(2)] by (auto simp: shell_ok_def shell_wf_def)
qed (auto simp: micro_steps shell_ops alive_def Let_def shell_ok_def shell_wf_def split: if_splits)

lemma step_alive: "step s s' \<Longrightarrow> alive s"
  by (induction rule: step.induct) (auto simp: alive_def)

lemma init_ok: "shell_ok init_shell"
proof -
  have ok: "jobs_ok (jobs init_shell)" by (simp add: init_shell_def initjobs_ok)
  have "pids (job_list (jobs init_shell)) = []"
    by (simp add: init_shell_def initjobs_def pids_def clear_ok)
  then have "dom (table (jobs init_shell)) = {}" using table_dom [OF jobs_ok_wf [OF ok]] by simp
  with ok show ?thesis by (auto simp: shell_ok_def shell_wf_def jobs_ok_iff fg_jobs_def init_shell_def)
qed

lemma reachable_wf: "reachable s \<Longrightarrow> alive s \<Longrightarrow> shell_wf s"
proof (induction rule: reachable.induct)
  case (steps s s')
  then show ?case using step_alive step_wf by blast
qed (rule shell_okD(1) [OF init_ok])

lemma calm_ok: "calm s \<Longrightarrow> alive s \<Longrightarrow> shell_ok s"
proof (induction rule: calm.induct)
  case (steps s s')
  then show ?case using step_alive step_ok by blast
qed (rule init_ok)

end
