(* ===== verification/Tsh_Props.thy ===== *)
theory Tsh_Props
  imports Tsh_Correct
begin

section \<open>Properties of the shell\<close>

text \<open>
  The claims about the shell of \<open>tshlab\<close>, each at the state machine of \<open>Tsh\<close> or at the job
  table, with a concrete shell at which it applies.
\<close>

subsection \<open>A concrete shell\<close>

definition run_ls :: shell where
  "run_ls = job_added (eval init_shell 42 (\<lambda>_. True) ''/bin/ls'') 0 42 ''/bin/ls''"

lemma parse_ls: "parseline ''/bin/ls'' = Inr (0, \<lparr>argv = [''/bin/ls''], infile = None, outfile = None,
    builtins = Some BUILTIN_NONE\<rparr>)"
  by code_simp

lemma run_ls_eq:
  "jobs run_ls = snd (addjob (jobs init_shell) 42 FG ''/bin/ls'')" "ctl run_ls = Wait_fg"
  "children run_ls = {42}" "sent run_ls = []"
  by (simp_all add: run_ls_def eval_def parse_ls eval_external_def job_added_def init_shell_def Let_def)

lemma run_ls_calm: "calm run_ls"
proof -
  let ?s = "eval init_shell 42 (\<lambda>_. True) ''/bin/ls''"
  have "step init_shell ?s" by (rule step.command) (simp_all add: init_shell_def MAXLINE_tsh_def)
  moreover have c: "ctl ?s = Added 0 42 ''/bin/ls''"
    by (simp add: eval_def parse_ls eval_external_def)
  then have "step ?s run_ls" unfolding run_ls_def by (rule step.added)
  moreover have "\<not> reaps_pending init_shell ?s" "\<not> reaps_pending ?s run_ls"
    using c by (simp_all add: reaps_pending_def init_shell_def)
  ultimately show ?thesis using calm.intros by blast
qed

lemmas run_ls_reachable = calm_reachable [OF run_ls_calm]

lemma run_ls_alive: "alive run_ls"
  by (simp add: alive_def run_ls_eq)

lemma run_ls_table: "table (jobs run_ls) = [42 \<mapsto> \<lparr>pid = 42, jid = 1, state = FG, cmdline = ''/bin/ls''\<rparr>]"
proof -
  have ok: "jobs_ok (jobs init_shell)" "table (jobs init_shell) = Map.empty" "nextjid (jobs init_shell) = 1"
  proof -
    show "jobs_ok (jobs init_shell)" using init_ok by (rule shell_okD)
    have "dom (table (jobs init_shell)) \<subseteq> {}"
      using shell_wfD(2) [OF shell_okD(1) [OF init_ok]] by (simp add: init_shell_def)
    then show "table (jobs init_shell) = Map.empty" by auto
  qed (simp add: init_shell_def initjobs_def)
  show ?thesis
    unfolding run_ls_eq using addjob_table(3) [OF ok(1), of 42 FG "''/bin/ls''"] ok(2,3)
    by (simp add: MAXJOBS_def)
qed

lemma run_ls_fg: "fg_jobs (jobs run_ls) = {42}"
  by (auto simp: fg_jobs_def run_ls_table split: if_splits)

lemma run_ls_ok: "jobs_ok (jobs run_ls)"
  using calm_ok [OF run_ls_calm run_ls_alive] by (rule shell_okD)

subsection \<open>Job control\<close>

text \<open>C5. Whatever commands are typed and whatever signals arrive, in whatever order, as long as the
  shell lives: its job table has 16 records with distinct process ids, every job has a positive id
  and a state, every free record is cleared except possibly for its state, and every job in the
  table is a child that has not been reaped. If moreover no job was reaped in the interval in which
  \<open>bg\<close> or \<open>fg\<close> had tested its state and not yet assigned the new one (\<open>calm\<close>), then the free records
  are cleared entirely, at most one job is in the foreground, and at the prompt none is.\<close>

theorem shell_invariant:
  assumes "reachable s" and "alive s"
  shows "jobs_wf (jobs s) \<and> dom (table (jobs s)) \<subseteq> children s
    \<and> (calm s \<longrightarrow> jobs_ok (jobs s) \<and> (\<exists>p. fg_jobs (jobs s) \<subseteq> {p})
        \<and> (ctl s = Prompt \<longrightarrow> fg_jobs (jobs s) = {}))"
  using shell_wfD [OF reachable_wf [OF assms]] shell_okD [OF calm_ok [OF _ assms(2)]] by auto

theorem shell_invariant_witness:
  "jobs_ok (jobs run_ls) \<and> dom (table (jobs run_ls)) \<subseteq> children run_ls \<and> (\<exists>p. fg_jobs (jobs run_ls) \<subseteq> {p})"
  using shell_invariant [OF run_ls_reachable run_ls_alive] run_ls_calm by blast

text \<open>C11. The job table implements a map from process ids to jobs: on a well-formed table adding a new
  positive process id to a table that is not full enters exactly that job with the next job id and
  succeeds; adding to a full table fails and changes nothing; deleting removes exactly that process
  id; setting the state changes exactly that job; and each leaves a well-formed table.\<close>

theorem job_table_refines_map:
  assumes "jobs_ok js" and "0 < p" and "st \<noteq> UNDEF"
  shows "(table js p = None \<and> card (dom (table js)) < MAXJOBS \<longrightarrow>
      fst (addjob js p st c) \<and> jobs_ok (snd (addjob js p st c)) \<and> table (snd (addjob js p st c)) =
        (table js)(p \<mapsto> \<lparr>pid = p, jid = nextjid js, state = st, cmdline = c\<rparr>))
    \<and> (card (dom (table js)) = MAXJOBS \<longrightarrow> addjob js p st c = (False, js))
    \<and> jobs_ok (snd (deletejob js p)) \<and> table (snd (deletejob js p)) = (table js)(p := None)
    \<and> (\<forall>j. table js p = Some j \<longrightarrow> jobs_ok (setstate_pid js p st)
        \<and> table (setstate_pid js p st) = (table js)(p \<mapsto> j\<lparr>state := st\<rparr>))"
  using addjob_table [OF assms(1,2) _ assms(3)] addjob_full [OF assms(1)] deletejob_ok [OF assms(1)]
    deletejob_table [OF assms(1)] setstate_table [OF assms(1) _ assms(3)] by auto

theorem job_table_refines_map_witness:
  "table (snd (deletejob (jobs run_ls) 42)) = Map.empty"
  using job_table_refines_map [of "jobs run_ls" 42 BG "[]"] run_ls_ok
  by (simp add: run_ls_table)

text \<open>C23. The SIGCHLD handler, when every child of the shell is in the job table: it never ends the
  shell, it leaves control where it was, and afterwards the jobs in the table are exactly the
  children that have not terminated; no job comes to the foreground.\<close>

theorem sigchld_reaps:
  assumes "jobs_ok (jobs s)" and "dom (table (jobs s)) = children s" and "reports_ok (children s) rs"
  defines "s' \<equiv> sigchld_handler (s\<lparr>children := survivors (children s) rs\<rparr>) rs"
  shows "ctl s' = ctl s \<and> jobs_ok (jobs s') \<and> dom (table (jobs s')) = children s'
    \<and> children s' = survivors (children s) rs \<and> fg_jobs (jobs s') \<subseteq> fg_jobs (jobs s)"
proof -
  let ?s = "s\<lparr>children := survivors (children s) rs\<rparr>"
  obtain js where js: "tbl.reap (jobs s) rs = Some js"
    using tbl.reap_returns [OF assms(1), of rs] assms(2,3) by auto
  note t = tbl.reap_Some [OF js assms(1)]
  have "jobs s' = js" "ctl s' = ctl s" "children s' = survivors (children s) rs"
    using sigchld_reap [of ?s rs] jobs_ok_wf [OF assms(1)] js by (auto simp: s'_def)
  with t assms(2) show ?thesis by (auto simp: fg_jobs_def)
qed

theorem sigchld_reaps_witness:
  "dom (table (jobs (sigchld_handler (run_ls\<lparr>children := survivors (children run_ls) [(42, WExited 0)]\<rparr>)
     [(42, WExited 0)]))) = {}"
proof -
  have "survivors (children run_ls) [(42, WExited 0)] = {}" by (simp add: run_ls_eq terminated_def)
  moreover have "dom (table (jobs run_ls)) = children run_ls" by (simp add: run_ls_table run_ls_eq(3))
  moreover have "reports_ok (children run_ls) [(42, WExited 0)]" by (simp add: run_ls_eq)
  ultimately show ?thesis using sigchld_reaps [OF run_ls_ok, of "[(42, WExited 0)]"] by metis
qed

lemma reap_one_fg:
  assumes ok: "jobs_wf js" and p: "fg_jobs js = {p}" and r: "tbl.reap js [(p, w)] = Some js'"
  shows "fg_jobs js' = {}"
proof -
  obtain j where j: "table js p = Some j" using p by (auto simp: fg_jobs_def)
  have js': "js' = (if terminated w then snd (deletejob js p) else setstate_pid js p ST)"
    using r j by (auto split: if_splits)
  have "table js' p = None \<or> (\<exists>k. table js' p = Some k \<and> state k = ST)"
    using deletejob_table_wf [OF ok, of p] setstate_table_wf(2) [OF ok j, of ST] by (auto simp: js')
  moreover have "fg_jobs js' \<subseteq> fg_jobs js"
    using wtbl.reap_Some [OF r ok] by (auto simp: fg_jobs_def)
  ultimately show ?thesis using p by (auto simp: fg_jobs_def)
qed

text \<open>C24. The waiting loop ends: when the shell waits for its foreground job \<open>p\<close> and every child is in
  the table, the report that \<open>p\<close> has exited, been killed or been stopped is handled, whichever it is,
  and lets the shell return to the prompt.\<close>

theorem foreground_wait_ends:
  assumes "reachable s" and "ctl s = Wait_fg" and "fg_jobs (jobs s) = {p}"
    and "dom (table (jobs s)) = children s"
  shows "\<exists>s1. s1 = sigchld_handler (s\<lparr>children := survivors (children s) [(p, w)]\<rparr>) [(p, w)]
    \<and> step s s1 \<and> step s1 (s1\<lparr>ctl := Prompt\<rparr>)"
proof -
  let ?rs = "[(p, w)]"
  let ?s = "s\<lparr>children := survivors (children s) ?rs\<rparr>"
  let ?s1 = "sigchld_handler ?s ?rs"
  have al: "alive s" using assms(2) by (simp add: alive_def)
  have ok: "jobs_wf (jobs s)" using reachable_wf [OF assms(1) al] by (rule shell_wfD)
  have pc: "p \<in> children s" using assms(3,4) by (auto simp: fg_jobs_def)
  have rp: "reports_ok (children s) ?rs" using pc by simp
  obtain js where js: "tbl.reap (jobs s) ?rs = Some js"
    using wtbl.reap_returns [OF ok, of ?rs] rp assms(4) by auto
  have s1: "jobs ?s1 = js" "ctl ?s1 = Wait_fg"
    using sigchld_reap [of ?s ?rs] ok js assms(2) by auto
  have "jobs_wf js" using wtbl.reap_Some [OF js ok] by simp
  moreover have "fg_jobs js = {}" using ok assms(3) js by (rule reap_one_fg)
  ultimately have "fgpid (job_list (jobs ?s1)) = 0" using s1(1) by (simp add: fgpid_none)
  with s1(2) have "step ?s1 (?s1\<lparr>ctl := Prompt\<rparr>)" by (rule step.resume)
  moreover have "step s ?s1" using al rp by (rule step.sigchld)
  ultimately show ?thesis by blast
qed

theorem foreground_wait_ends_witness: "\<exists>s1. step run_ls s1 \<and> step s1 (s1\<lparr>ctl := Prompt\<rparr>)"
proof -
  have "dom (table (jobs run_ls)) = children run_ls" by (simp add: run_ls_table run_ls_eq(3))
  from foreground_wait_ends [OF run_ls_reachable run_ls_eq(2) run_ls_fg this, of "WExited 0"]
  show ?thesis by blast
qed

text \<open>The keyboard signals: when \<open>kill\<close> succeeds, ctrl-c sends SIGINT and ctrl-z SIGTSTP to the
  process group of the foreground job and to nobody else, and with no foreground job they do nothing
  at all; the job table and the control of the shell never change. Stated for executions in which
  no job is reaped while \<open>bg\<close> or \<open>fg\<close> is about to assign its state.\<close>

theorem keyboard_signals:
  assumes "calm s" and "alive s"
  shows "(fg_jobs (jobs s) = {} \<longrightarrow> sigint_handler s True = s \<and> sigtstp_handler s True = s)
    \<and> (\<forall>p. fg_jobs (jobs s) = {p} \<longrightarrow> sigint_handler s True = s\<lparr>sent := sent s @ [(- p, SIGINT)]\<rparr>
        \<and> sigtstp_handler s True = s\<lparr>sent := sent s @ [(- p, SIGTSTP)]\<rparr>)"
proof -
  have ok: "jobs_ok (jobs s)" using calm_ok [OF assms] by (rule shell_okD)
  note z = fgpid_zero_iff [OF ok]
  have "fgpid (job_list (jobs s)) = p" if "fg_jobs (jobs s) = {p}" for p
    using fgpid_weak [OF jobs_ok_wf [OF ok]] z that by auto
  with z show ?thesis
    by (auto simp: sigint_handler_def sigtstp_handler_def kill_group_def Let_def)
qed

theorem keyboard_signals_witness: "sent (sigint_handler run_ls True) = [(-42, SIGINT)]"
  using keyboard_signals [OF run_ls_calm run_ls_alive] by (simp add: run_ls_fg run_ls_eq(4))

subsection \<open>Where the shell fails\<close>

text \<open>A child that is started while the table is full is not entered in it, and the report of
  its end terminates the shell: \<open>eval\<close> ignores the result of \<open>addjob\<close> and the SIGCHLD handler exits when
  it does not find the job.\<close>

theorem full_table_kills_shell:
  assumes "jobs_ok (jobs s)" and "card (dom (table (jobs s))) = MAXJOBS"
    and "0 < p" and "p \<notin> dom (table (jobs s))"
  shows "ctl (sigchld_handler (eval_external s p bg line) ((p, w) # rs)) = Gone (Exits 1)"
proof -
  let ?s = "eval_external s p bg line"
  have j: "jobs ?s = jobs s"
    using addjob_full [OF assms(1,2)] assms(3) by (simp add: eval_external_def say_def Let_def)
  have "table (jobs s) p = None" using assms(4) by auto
  then have "tbl.reap (jobs ?s) ((p, w) # rs) = None" unfolding j by (rule tbl.reap_unknown)
  then show ?thesis using sigchld_reap [of ?s "(p, w) # rs"] jobs_ok_wf [OF assms(1)] j by simp
qed

definition full_jobs :: jobs where
  "full_jobs = fold (\<lambda>p js. snd (addjob js p BG ''/bin/sleep'')) [1..16] (jobs init_shell)"

lemma full_jobs_ok: "jobs_ok full_jobs"
  by code_simp

lemma full_jobs_dom: "dom (table full_jobs) = {1..16}"
proof -
  have "pids (job_list full_jobs) = [1..16]" by code_simp
  then show ?thesis using table_dom [OF jobs_ok_wf [OF full_jobs_ok]] by simp
qed

theorem full_table_kills_shell_witness:
  "ctl (sigchld_handler (eval_external (init_shell\<lparr>jobs := full_jobs\<rparr>) 99 1 ''/bin/ls'') [(99, WExited 0)])
     = Gone (Exits 1)"
  using full_table_kills_shell [of "init_shell\<lparr>jobs := full_jobs\<rparr>" 99 1 "''/bin/ls''" "WExited 0" "[]"]
  by (simp add: full_jobs_ok full_jobs_dom MAXJOBS_def del: sigchld_handler.simps)

text \<open>\<open>bg\<close> and \<open>fg\<close> with one argument that names no job read through a null pointer after printing
  their message, in every state of the shell.\<close>

theorem unknown_job_undefined:
  assumes "argc tok = 2" and "find_job (job_list (jobs s)) (argv tok ! 1) = None"
  shows "ctl (eval_bg s tok) = Gone Undefined \<and> ctl (eval_fg s tok) = Gone Undefined
    \<and> out (eval_bg s tok) = out s @ [''No Such Job'' @ [CHR 0x0A]]"
  using assms by (simp add: eval_bg_def eval_fg_def shell_ops)

theorem unknown_job_undefined_witness:
  "ctl (eval_bg init_shell \<lparr>argv = [''bg'', ''%7''], infile = None, outfile = None,
     builtins = Some BUILTIN_BG\<rparr>) = Gone Undefined"
proof -
  have "find_job (job_list (jobs init_shell)) ''%7'' = None" by code_simp
  then show ?thesis
    using unknown_job_undefined [of "\<lparr>argv = [''bg'', ''%7''], infile = None, outfile = None,
      builtins = Some BUILTIN_BG\<rparr>" init_shell] by (simp add: argc_def)
qed

text \<open>Job ids are not unique: after sixteen jobs have been started and the second and third have
  ended, the next two jobs get the ids 17 and 1, and the first job, still running, has the id 1 as
  well.\<close>

theorem job_ids_collide:
  "(let js = snd (deletejob full_jobs 2); js1 = snd (deletejob js 3);
        js2 = snd (addjob js1 21 BG ''a''); js3 = snd (addjob js2 22 BG ''b'')
    in (pid2jid (job_list js3) 21, pid2jid (job_list js3) 22, pid2jid (job_list js3) 1)) = (17, 1, 1)"
  by code_simp

subsection \<open>A job reaped while fg continues it\<close>

text \<open>An execution in steps: two jobs are started and stopped; \<open>fg\<close> finds the first one stopped and
  sends it SIGCONT, and its exit is reported before its state is assigned; the cleared record then
  carries the state \<open>FG\<close>, and \<open>fgpid\<close> finds it before every later foreground job.\<close>

definition reaped :: "shell \<Rightarrow> (int \<times> wstatus) list \<Rightarrow> shell" where
  "reaped s rs = sigchld_handler (s\<lparr>children := survivors (children s) rs\<rparr>) rs"

definition start_and_stop :: "shell \<Rightarrow> int \<Rightarrow> shell" where
  "start_and_stop s p =
     (reaped (job_added (eval s p (\<lambda>_. True) ''/a'') 0 p ''/a'') [(p, WStopped 20)])\<lparr>ctl := Prompt\<rparr>"

definition two_stopped :: shell where
  "two_stopped = start_and_stop (start_and_stop init_shell 11) 12"

definition reaped_in_fg :: shell where
  "reaped_in_fg = reaped (continue_job (test_job (eval two_stopped (-1) (\<lambda>_. True) ''fg %1'') FG 0) FG 0)
     [(11, WExited 0)]"

definition stale_fg :: shell where
  "stale_fg = (restart_job reaped_in_fg FG 0)\<lparr>ctl := Prompt\<rparr>"

definition second_fg :: shell where
  "second_fg = restart_job (continue_job (test_job (eval stale_fg (-1) (\<lambda>_. True) ''fg %2'') FG 1) FG 1) FG 1"

lemma reachable_fg:
  assumes "reachable s" "ctl s = Prompt" "length l < MAXLINE_tsh - 1"
    and "ctl (eval s (-1) (\<lambda>_. True) l) = Found st i"
    and "ctl (test_job (eval s (-1) (\<lambda>_. True) l) st i) = Continuing st i"
  shows "reachable (continue_job (test_job (eval s (-1) (\<lambda>_. True) l) st i) st i)"
proof -
  have "step s (eval s (-1) (\<lambda>_. True) l)" using assms(2,3) by (intro step.command) auto
  with assms(1,4,5) show ?thesis by (blast intro: reachable.steps step.found step.continuing)
qed

lemma reachable_start_stop:
  assumes "reachable s" "ctl s = Prompt" "0 < p" "p \<notin> children s"
    and "ctl (eval s p (\<lambda>_. True) ''/a'') = Added 0 p ''/a''"
    and "p \<in> children (job_added (eval s p (\<lambda>_. True) ''/a'') 0 p ''/a'')"
    and "ctl (reaped (job_added (eval s p (\<lambda>_. True) ''/a'') 0 p ''/a'') [(p, WStopped 20)]) = Wait_fg"
    and "fgpid (job_list (jobs (reaped (job_added (eval s p (\<lambda>_. True) ''/a'') 0 p ''/a'') [(p, WStopped 20)]))) = 0"
  shows "reachable (start_and_stop s p)"
proof -
  let ?s1 = "eval s p (\<lambda>_. True) ''/a''"
  let ?s2 = "job_added ?s1 0 p ''/a''"
  have "step s ?s1" using assms(2-4) by (intro step.command) (auto simp: MAXLINE_tsh_def)
  moreover have "step ?s1 ?s2" using assms(5) by (rule step.added)
  moreover have "step ?s2 (reaped ?s2 [(p, WStopped 20)])"
    unfolding reaped_def using assms(6) by (intro step.sigchld) (auto simp: alive_def job_added_def)
  moreover have "step (reaped ?s2 [(p, WStopped 20)]) (start_and_stop s p)"
    unfolding start_and_stop_def using assms(7,8) by (rule step.resume)
  ultimately show ?thesis using assms(1) reachable.steps by blast
qed

lemma two_stopped_reachable: "reachable two_stopped"
proof -
  have "reachable (start_and_stop init_shell 11)"
    by (rule reachable_start_stop [OF reachable.start]; code_simp)
  then show ?thesis unfolding two_stopped_def
    by (rule reachable_start_stop; code_simp)
qed

lemma stale_fg_reachable: "reachable stale_fg"
proof -
  let ?s = "continue_job (test_job (eval two_stopped (-1) (\<lambda>_. True) ''fg %1'') FG 0) FG 0"
  have "reachable ?s"
    by (rule reachable_fg [OF two_stopped_reachable]; code_simp)
  moreover have "alive ?s" "reports_ok (children ?s) [(11, WExited 0)]" by code_simp+
  then have "step ?s reaped_in_fg" unfolding reaped_in_fg_def reaped_def by (rule step.sigchld)
  moreover have "ctl reaped_in_fg = Signalled FG 0" by code_simp
  then have "step reaped_in_fg (restart_job reaped_in_fg FG 0)" by (rule step.signalled)
  moreover have "ctl (restart_job reaped_in_fg FG 0) = Wait_fg"
    "fgpid (job_list (jobs (restart_job reaped_in_fg FG 0))) = 0" by code_simp+
  then have "step (restart_job reaped_in_fg FG 0) stale_fg" unfolding stale_fg_def by (rule step.resume)
  ultimately show ?thesis using reachable.steps by blast
qed

lemma second_fg_reachable: "reachable (second_fg\<lparr>ctl := Prompt\<rparr>)"
proof -
  let ?s = "continue_job (test_job (eval stale_fg (-1) (\<lambda>_. True) ''fg %2'') FG 1) FG 1"
  have "reachable ?s"
    by (rule reachable_fg [OF stale_fg_reachable]; code_simp)
  moreover have "ctl ?s = Signalled FG 1" by code_simp
  then have "step ?s second_fg" unfolding second_fg_def by (rule step.signalled)
  moreover have "ctl second_fg = Wait_fg" "fgpid (job_list (jobs second_fg)) = 0" by code_simp+
  then have "step second_fg (second_fg\<lparr>ctl := Prompt\<rparr>)" by (rule step.resume)
  ultimately show ?thesis using reachable.steps by blast
qed

lemma second_fg_job: "map_option state (table (jobs second_fg) 12) = Some FG"
  "sigint_handler (second_fg\<lparr>ctl := Prompt\<rparr>) True = second_fg\<lparr>ctl := Prompt\<rparr>"
  by code_simp+

text \<open>SIGCHLD is not blocked while \<open>fg\<close> continues a job, and this has a lasting effect: there is an
  execution (two stopped jobs, \<open>fg\<close> of the first, which exits before its state is assigned, then \<open>fg\<close>
  of the second) after which the shell is back at its prompt although a job is still in the
  foreground, and ctrl-c is not forwarded to that job.\<close>

theorem fg_race:
  "\<exists>s. reachable s \<and> ctl s = Prompt \<and> fg_jobs (jobs s) \<noteq> {} \<and> sigint_handler s True = s"
proof -
  have "12 \<in> fg_jobs (jobs second_fg)" using second_fg_job(1) by (auto simp: fg_jobs_def)
  then have "reachable (second_fg\<lparr>ctl := Prompt\<rparr>) \<and> ctl (second_fg\<lparr>ctl := Prompt\<rparr>) = Prompt
      \<and> fg_jobs (jobs (second_fg\<lparr>ctl := Prompt\<rparr>)) \<noteq> {}"
    using second_fg_reachable by auto
  with second_fg_job(2) show ?thesis by blast
qed
end
