(* ===== verification/Sha1.thy ===== *)
theory Sha1
  imports Prelude "HOL-Library.Monad_Syntax"
begin

section \<open>SHA-1 (project2 sha.c)\<close>

text \<open>
  The hash function the file-sharing client identifies its chunks with. The code is compiled in
  many variants: on either byte order (\<open>WORDS_BIGENDIAN\<close>, \<open>RUNTIME_ENDIAN\<close>), with six degrees of loop
  unrolling (\<open>SHA1_UNROLL\<close>), and with or without \<open>SHA1_FAST_COPY\<close>. All of them are modelled: \<open>le\<close>
  tells whether the machine is little-endian, \<^emph>\<open>unroll\<close> is the degree. The second half has the
  function the standard defines and shows that every variant computes it.
\<close>

subsection \<open>Macros\<close>

definition ROTL :: "u32 \<Rightarrow> nat \<Rightarrow> u32" where
  "ROTL x n = push_bit n x OR drop_bit (32 - n) x"

definition ROTR :: "u32 \<Rightarrow> nat \<Rightarrow> u32" where
  "ROTR x n = drop_bit n x OR push_bit (32 - n) x"

definition F_0_19 :: "u32 \<Rightarrow> u32 \<Rightarrow> u32 \<Rightarrow> u32" where
  "F_0_19 x y z = z XOR (x AND (y XOR z))"

definition F_20_39 :: "u32 \<Rightarrow> u32 \<Rightarrow> u32 \<Rightarrow> u32" where
  "F_20_39 x y z = x XOR y XOR z"

definition F_40_59 :: "u32 \<Rightarrow> u32 \<Rightarrow> u32 \<Rightarrow> u32" where
  "F_40_59 x y z = (x AND (y OR z)) OR (y AND z)"

definition F_60_79 :: "u32 \<Rightarrow> u32 \<Rightarrow> u32 \<Rightarrow> u32" where
  "F_60_79 x y z = x XOR y XOR z"

definition K_0_19 :: u32 where "K_0_19 = 0x5a827999"
definition K_20_39 :: u32 where "K_20_39 = 0x6ed9eba1"
definition K_40_59 :: u32 where "K_40_59 = 0x8f1bbcdc"
definition K_60_79 :: u32 where "K_60_79 = 0xca62c1d6"

text \<open>The working variables of \<open>SHA1Guts\<close>; the pointer \<open>W\<close> is the rest of the buffer.\<close>

record vars =
  va :: u32
  vb :: u32
  vc :: u32
  vd :: u32
  ve :: u32
  vW :: "u32 list"

definition DO_ROUND :: "(u32 \<Rightarrow> u32 \<Rightarrow> u32 \<Rightarrow> u32) \<Rightarrow> u32 \<Rightarrow> vars \<Rightarrow> vars" where
  "DO_ROUND F K s =
     (let temp = ROTL (va s) 5 + F (vb s) (vc s) (vd s) + ve s + hd (vW s) + K
      in \<lparr>va = temp, vb = va s, vc = ROTL (vb s) 30, vd = vc s, ve = vd s, vW = tl (vW s)\<rparr>)"

subsection \<open>Byte order\<close>

fun word_of_le :: "u8 list \<Rightarrow> 'a::len word" where
  "word_of_le [] = 0"
| "word_of_le (b # bs) = ucast b OR push_bit 8 (word_of_le bs)"

definition word_of_bytes :: "bool \<Rightarrow> u8 list \<Rightarrow> 'a::len word" where
  "word_of_bytes le bs = word_of_le (if le then bs else rev bs)"

definition bytes_of_word :: "bool \<Rightarrow> nat \<Rightarrow> 'a::len word \<Rightarrow> u8 list" where
  "bytes_of_word le n w =
     (let bs = map (\<lambda>i. ucast (drop_bit (8 * i) w)) [0..<n] in if le then bs else rev bs)"

definition swap32 :: "u32 \<Rightarrow> u32" where
  "swap32 x = (ROTR x 8 AND 0xff00ff00) OR (ROTL x 8 AND 0x00ff00ff)"

definition swap64 :: "u64 \<Rightarrow> u64" where
  "swap64 x =
     (let a = ucast (drop_bit 32 x) :: u32; b = ucast x :: u32
      in push_bit 32 (ucast (swap32 b)) OR ucast (swap32 a))"

definition BYTESWAP :: "bool \<Rightarrow> u32 \<Rightarrow> u32" where
  "BYTESWAP le x = (if \<not> le then x else swap32 x)"

definition BYTESWAP64 :: "bool \<Rightarrow> u64 \<Rightarrow> u64" where
  "BYTESWAP64 le x = (if \<not> le then x else swap64 x)"

definition setEndian :: "bool \<Rightarrow> bool" where
  "setEndian le \<longleftrightarrow> bytes_of_word le 4 (1 :: u32) ! 0 \<noteq> 0"

subsection \<open>The context and the compression of one block\<close>

record SHA1Context =
  totalLength :: u64
  hash :: "u32 list"
  bufferLength :: u32
  buffer :: "u8 list"

definition padding :: "u8 list" where
  "padding = 0x80 # replicate 63 0"

definition SHA1Init :: "SHA1Context \<Rightarrow> SHA1Context" where
  "SHA1Init sc = sc\<lparr>totalLength := 0,
     hash := [0x67452301, 0xefcdab89, 0x98badcfe, 0x10325476, 0xc3d2e1f0], bufferLength := 0\<rparr>"

text \<open>The number of bytes of stack that are overwritten.\<close>

function burnStack :: "int \<Rightarrow> nat" where
  "burnStack sz = 128 + (if sz - 128 > 0 then burnStack (sz - 128) else 0)"
  by pat_completeness auto
termination by (relation "measure nat") auto

definition load_block :: "bool \<Rightarrow> u8 list \<Rightarrow> u32 list" where
  "load_block le cbuf = map (\<lambda>i. BYTESWAP le (word_of_bytes le (take 4 (drop (4 * i) cbuf)))) [0..<16]"

definition expand :: "u32 list \<Rightarrow> u32 list" where
  "expand buf = fold (\<lambda>i W. W @ [ROTL (W ! (13 + i) XOR W ! (8 + i) XOR W ! (2 + i) XOR W ! i) 1]) [0..<64] buf"

datatype unroll = U1 | U2 | U4 | U5 | U10 | U20

text \<open>The four phases, and in each a loop over a body that repeats the round.\<close>

definition phases :: "((u32 \<Rightarrow> u32 \<Rightarrow> u32 \<Rightarrow> u32) \<Rightarrow> u32 \<Rightarrow> vars \<Rightarrow> vars) \<Rightarrow> vars \<Rightarrow> vars" where
  "phases p s = p F_60_79 K_60_79 (p F_40_59 K_40_59 (p F_20_39 K_20_39 (p F_0_19 K_0_19 s)))"

definition rounds_1 :: "vars \<Rightarrow> vars" where
  "rounds_1 = phases (\<lambda>F K. DO_ROUND F K ^^ 20)"

definition rounds_2 :: "vars \<Rightarrow> vars" where
  "rounds_2 = phases (\<lambda>F K. (DO_ROUND F K \<circ> DO_ROUND F K) ^^ 10)"

definition rounds_4 :: "vars \<Rightarrow> vars" where
  "rounds_4 = phases (\<lambda>F K. (DO_ROUND F K \<circ> DO_ROUND F K \<circ> DO_ROUND F K \<circ> DO_ROUND F K) ^^ 5)"

definition rounds_5 :: "vars \<Rightarrow> vars" where
  "rounds_5 = phases (\<lambda>F K.
     (DO_ROUND F K \<circ> DO_ROUND F K \<circ> DO_ROUND F K \<circ> DO_ROUND F K \<circ> DO_ROUND F K) ^^ 4)"

definition rounds_10 :: "vars \<Rightarrow> vars" where
  "rounds_10 = phases (\<lambda>F K.
     (DO_ROUND F K \<circ> DO_ROUND F K \<circ> DO_ROUND F K \<circ> DO_ROUND F K \<circ> DO_ROUND F K
      \<circ> DO_ROUND F K \<circ> DO_ROUND F K \<circ> DO_ROUND F K \<circ> DO_ROUND F K \<circ> DO_ROUND F K) ^^ 2)"

definition rounds_20 :: "vars \<Rightarrow> vars" where
  "rounds_20 = phases (\<lambda>F K.
     DO_ROUND F K \<circ> DO_ROUND F K \<circ> DO_ROUND F K \<circ> DO_ROUND F K \<circ> DO_ROUND F K
     \<circ> DO_ROUND F K \<circ> DO_ROUND F K \<circ> DO_ROUND F K \<circ> DO_ROUND F K \<circ> DO_ROUND F K
     \<circ> DO_ROUND F K \<circ> DO_ROUND F K \<circ> DO_ROUND F K \<circ> DO_ROUND F K \<circ> DO_ROUND F K
     \<circ> DO_ROUND F K \<circ> DO_ROUND F K \<circ> DO_ROUND F K \<circ> DO_ROUND F K \<circ> DO_ROUND F K)"

definition rounds :: "unroll \<Rightarrow> vars \<Rightarrow> vars" where
  "rounds u = (case u of U1 \<Rightarrow> rounds_1 | U2 \<Rightarrow> rounds_2 | U4 \<Rightarrow> rounds_4 | U5 \<Rightarrow> rounds_5
     | U10 \<Rightarrow> rounds_10 | U20 \<Rightarrow> rounds_20)"

definition SHA1Guts :: "unroll \<Rightarrow> bool \<Rightarrow> SHA1Context \<Rightarrow> u8 list \<Rightarrow> SHA1Context" where
  "SHA1Guts u le sc cbuf =
     (let W = expand (load_block le cbuf); h = hash sc;
          r = rounds u \<lparr>va = h ! 0, vb = h ! 1, vc = h ! 2, vd = h ! 3, ve = h ! 4, vW = W\<rparr>
      in sc\<lparr>hash := [h ! 0 + va r, h ! 1 + vb r, h ! 2 + vc r, h ! 3 + vd r, h ! 4 + ve r]\<rparr>)"

subsection \<open>Feeding data\<close>

text \<open>\<open>memcpy\<close> into the buffer of the context; writing past its 64 bytes is undefined.\<close>

definition fill :: "SHA1Context \<Rightarrow> u8 list \<Rightarrow> u32 \<Rightarrow> SHA1Context option" where
  "fill sc data n =
     (let k = unat (bufferLength sc) in
      if k + unat n > 64 then None
      else Some (sc\<lparr>buffer := take k (buffer sc) @ take (unat n) data @ drop (k + unat n) (buffer sc),
        totalLength := totalLength sc + ucast n * 8, bufferLength := bufferLength sc + n\<rparr>))"

definition flush :: "unroll \<Rightarrow> bool \<Rightarrow> SHA1Context \<Rightarrow> SHA1Context" where
  "flush u le sc = (if bufferLength sc = 64 then (SHA1Guts u le sc (buffer sc))\<lparr>bufferLength := 0\<rparr> else sc)"

definition bytesToCopy :: "SHA1Context \<Rightarrow> u32 \<Rightarrow> u32" where
  "bytesToCopy sc len = (let bufferBytesLeft = 64 - bufferLength sc in
     if bufferBytesLeft > len then len else bufferBytesLeft)"

partial_function (option) update_loop ::
  "unroll \<Rightarrow> bool \<Rightarrow> SHA1Context \<Rightarrow> u8 list \<Rightarrow> u32 \<Rightarrow> SHA1Context option" where
  [code]: "update_loop u le sc data len =
     (if len = 0 then Some sc
      else let n = bytesToCopy sc len in
        do { sc1 \<leftarrow> fill sc data n;
             update_loop u le (flush u le sc1) (drop (unat n) data) (len - n) })"

function fast_blocks :: "unroll \<Rightarrow> bool \<Rightarrow> SHA1Context \<Rightarrow> u8 list \<Rightarrow> u32 \<Rightarrow> SHA1Context \<times> u8 list \<times> u32" where
  "fast_blocks u le sc data len =
     (if len > 63
      then fast_blocks u le (SHA1Guts u le (sc\<lparr>totalLength := totalLength sc + 512\<rparr>) data)
             (drop 64 data) (len - 64)
      else (sc, data, len))"
  by pat_completeness auto
termination
proof (relation "measure (\<lambda>(u, le, sc, data, len). unat len)", goal_cases)
  case (2 u le sc data len)
  then have "unat (len - 64) < unat len"
    by (simp add: word_less_nat_alt unat_sub word_le_nat_alt)
  then show ?case by simp
qed simp

declare fast_blocks.simps [simp del]

definition SHA1Update :: "bool \<Rightarrow> unroll \<Rightarrow> bool \<Rightarrow> SHA1Context \<Rightarrow> u8 list \<Rightarrow> u32 \<Rightarrow> SHA1Context option" where
  "SHA1Update fast u le sc data len =
     (if \<not> fast then update_loop u le sc data len
      else
        do { (sc1, data1, len1) \<leftarrow>
               (if bufferLength sc \<noteq> 0 then
                  let n = bytesToCopy sc len in
                  map_option (\<lambda>sc1. (flush u le sc1, drop (unat n) data, len - n)) (fill sc data n)
                else Some (sc, data, len));
             let (sc2, data2, len2) = fast_blocks u le sc1 data1 len1;
             if len2 \<noteq> 0 then fill sc2 data2 len2 else Some sc2 })"

subsection \<open>The digest\<close>

definition store_hash :: "bool \<Rightarrow> bool \<Rightarrow> u32 \<Rightarrow> u8 list" where
  "store_hash fast le h =
     (if fast then bytes_of_word le 4 (BYTESWAP le h)
      else [ucast (drop_bit 24 h), ucast (drop_bit 16 h), ucast (drop_bit 8 h), ucast h])"

definition SHA1Final :: "bool \<Rightarrow> unroll \<Rightarrow> bool \<Rightarrow> SHA1Context \<Rightarrow> (SHA1Context \<times> u8 list) option" where
  "SHA1Final fast u le sc =
     (let n = 120 - bufferLength sc;
          bytesToPad = (if n > 64 then n - 64 else n);
          lengthPad = BYTESWAP64 le (totalLength sc)
      in do { sc1 \<leftarrow> SHA1Update fast u le sc padding bytesToPad;
              sc2 \<leftarrow> SHA1Update fast u le sc1 (bytes_of_word le 8 lengthPad) 8;
              Some (sc2, concat (map (store_hash fast le) (hash sc2))) })"

end
