(* ===== verification/Sha1_Spec.thy ===== *)
theory Sha1_Spec
  imports Sha1
begin

section \<open>SHA-1 as the standard defines it, and the code against it\<close>

text \<open>
  The reference: the message is padded with a one bit, zeros and its length in bits, cut into
  blocks of 64 bytes, and each block is compressed by 80 steps whose functions, constants and
  message words depend on the step number. The lemmas show that the macros, the byte order, the
  message schedule, the rounds under every degree of unrolling and the buffering of the code
  compute the same.
\<close>

subsection \<open>The reference definition\<close>

definition sha_f :: "nat \<Rightarrow> u32 \<Rightarrow> u32 \<Rightarrow> u32 \<Rightarrow> u32" where
  "sha_f t x y z =
     (if t < 20 then (x AND y) XOR (NOT x AND z)
      else if t < 40 then x XOR y XOR z
      else if t < 60 then (x AND y) XOR (x AND z) XOR (y AND z)
      else x XOR y XOR z)"

definition sha_K :: "nat \<Rightarrow> u32" where
  "sha_K t = (if t < 20 then 0x5a827999 else if t < 40 then 0x6ed9eba1
     else if t < 60 then 0x8f1bbcdc else 0xca62c1d6)"

definition be32 :: "u8 list \<Rightarrow> u32" where
  "be32 bs = word_of_le (rev bs)"

fun sha_W :: "u8 list \<Rightarrow> nat \<Rightarrow> u32" where
  "sha_W M t =
     (if t < 16 then be32 (take 4 (drop (4 * t) M))
      else word_rotl 1 (sha_W M (t - 3) XOR sha_W M (t - 8) XOR sha_W M (t - 14) XOR sha_W M (t - 16)))"

declare sha_W.simps [simp del]

type_synonym quint = "u32 \<times> u32 \<times> u32 \<times> u32 \<times> u32"

definition sha_step :: "u8 list \<Rightarrow> nat \<Rightarrow> quint \<Rightarrow> quint" where
  "sha_step M t = (\<lambda>(a, b, c, d, e).
     (word_rotl 5 a + sha_f t b c d + e + sha_K t + sha_W M t, a, word_rotl 30 b, c, d))"

definition sha_compress :: "u8 list \<Rightarrow> quint \<Rightarrow> quint" where
  "sha_compress M H =
     (let (h0, h1, h2, h3, h4) = H; (a, b, c, d, e) = fold (sha_step M) [0..<80] H
      in (h0 + a, h1 + b, h2 + c, h3 + d, h4 + e))"

fun blocks64 :: "u8 list \<Rightarrow> u8 list list" where
  "blocks64 m = (if length m < 64 then [] else take 64 m # blocks64 (drop 64 m))"

fun rest64 :: "u8 list \<Rightarrow> u8 list" where
  "rest64 m = (if length m < 64 then m else rest64 (drop 64 m))"

declare blocks64.simps [simp del] rest64.simps [simp del]

definition sha_init :: quint where
  "sha_init = (0x67452301, 0xefcdab89, 0x98badcfe, 0x10325476, 0xc3d2e1f0)"

definition be_bytes :: "nat \<Rightarrow> 'a::len word \<Rightarrow> u8 list" where
  "be_bytes n w = map (\<lambda>i. ucast (drop_bit (8 * (n - 1 - i)) w)) [0..<n]"

definition sha_pad :: "u8 list \<Rightarrow> u8 list" where
  "sha_pad m = m @ [0x80] @ replicate ((119 - length m mod 64) mod 64) 0
     @ be_bytes 8 (word_of_nat (8 * length m) :: u64)"

definition sha1 :: "u8 list \<Rightarrow> u8 list" where
  "sha1 m = (let (h0, h1, h2, h3, h4) = fold sha_compress (blocks64 (sha_pad m)) sha_init
     in concat (map (be_bytes 4) [h0, h1, h2, h3, h4]))"

subsection \<open>Macros and byte order\<close>

lemma ROTL_rot:
  assumes "0 < n" "n < 32"
  shows "ROTL x n = word_rotl n x"
proof (rule bit_word_eqI)
  fix k
  assume "k < LENGTH(32)"
  then have k: "k < 32" by simp
  have m: "(k + (32 - n)) mod 32 = (if n \<le> k then k - n else k + (32 - n))"
  proof (cases "n \<le> k")
    case True
    then have "k + (32 - n) = 32 + (k - n)" using assms by simp
    then show ?thesis using k True by (simp only: mod_add_self1) simp
  qed (use assms k in simp)
  have out: "\<not> bit x j" if "32 \<le> j" for j
    using bit_imp_le_length [of x j] that by auto
  have l: "bit (ROTL x n) k \<longleftrightarrow> n \<le> k \<and> bit x (k - n) \<or> bit x ((32 - n) + k)"
    using k unfolding ROTL_def bit_or_iff bit_push_bit_iff bit_drop_bit_eq by auto
  have r: "bit (word_rotl n x) k \<longleftrightarrow> bit x ((k + (32 - n)) mod 32)"
    unfolding bit_word_rotl_iff using k assms by simp
  show "bit (ROTL x n) k = bit (word_rotl n x) k"
    unfolding l r m using out [of "32 - n + k"] by (cases "n \<le> k") (simp_all add: add.commute)
qed

lemma round_functions:
  "F_0_19 x y z = (x AND y) XOR (NOT x AND z)" "F_20_39 x y z = x XOR y XOR z"
  "F_40_59 x y z = (x AND y) XOR (x AND z) XOR (y AND z)" "F_60_79 x y z = x XOR y XOR z"
  by (rule bit_word_eqI; auto simp: F_0_19_def F_40_59_def bit_simps)
    (simp add: F_20_39_def, rule bit_word_eqI, auto simp: F_0_19_def F_40_59_def F_60_79_def bit_simps)

lemma bit_u8_out [simp]: "8 \<le> k \<Longrightarrow> \<not> bit (b :: u8) k"
  using bit_imp_le_length [of b k] by auto

lemma bits32_eqI:
  fixes x y :: u32
  assumes "\<forall>n \<in> set [0..<32]. bit x n = bit y n"
  shows "x = y"
  using assms by (intro bit_word_eqI) auto

lemma list4: "length bs = 4 \<Longrightarrow> \<exists>b0 b1 b2 b3. bs = [b0, b1, b2, b3]"
  by (auto simp: numeral_eq_Suc length_Suc_conv)

lemma swap32_le: "swap32 (word_of_le [b0, b1, b2, b3]) = word_of_le [b3, b2, b1, b0]"
proof (rule bits32_eqI)
  show "\<forall>n \<in> set [0..<32]. bit (swap32 (word_of_le [b0, b1, b2, b3])) n
      = bit (word_of_le [b3, b2, b1, b0] :: u32) n"
    unfolding swap32_def ROTL_def ROTR_def
    apply (simp add: upt_rec)
    apply (simp add: bit_simps)
    apply (simp add: numeral_eq_Suc)
    done
qed

lemma BYTESWAP_load: "length bs = 4 \<Longrightarrow> BYTESWAP le (word_of_bytes le bs) = be32 bs"
  using list4 [of bs] by (auto simp: BYTESWAP_def word_of_bytes_def be32_def swap32_le simp del: word_of_le.simps)

lemma setEndian_le: "setEndian le = le"
  by (cases le) (simp_all add: setEndian_def bytes_of_word_def Let_def upt_rec rev_nth)


lemma bits8_eqI:
  fixes x y :: u8
  assumes "\<forall>n \<in> set [0..<8]. bit x n = bit y n"
  shows "x = y"
  using assms by (intro bit_word_eqI) auto

lemma swap32_bytes:
  "(ucast (swap32 h) :: u8) = ucast (drop_bit 24 h)" "(ucast (drop_bit 8 (swap32 h)) :: u8) = ucast (drop_bit 16 h)"
  "(ucast (drop_bit 16 (swap32 h)) :: u8) = ucast (drop_bit 8 h)" "(ucast (drop_bit 24 (swap32 h)) :: u8) = ucast h"
  by (rule bits8_eqI; simp add: upt_rec; simp add: swap32_def ROTL_def ROTR_def bit_simps;
      simp add: numeral_eq_Suc)+

lemma swap64_bytes:
  "i < 4 \<Longrightarrow> (ucast (drop_bit (8 * i) (swap64 x)) :: u8) = ucast (drop_bit (8 * i) (swap32 (ucast (drop_bit 32 x))))"
  "i < 4 \<Longrightarrow> (ucast (drop_bit (8 * (i + 4)) (swap64 x)) :: u8) = ucast (drop_bit (8 * i) (swap32 (ucast x)))"
  by (rule bit_word_eqI, auto simp: swap64_def Let_def bit_simps dest: bit_imp_le_length)+

lemma upt4: "[0..<4] = [0, 1, 2, 3]" and upt8: "[0..<8] = [0, 1, 2, 3, 4, 5, 6, 7]"
  by (simp_all add: upt_rec)

lemma store_hash_be: "store_hash fast le h = be_bytes 4 h"
  by (auto simp: store_hash_def be_bytes_def bytes_of_word_def BYTESWAP_def Let_def upt4 swap32_bytes)

lemma length_pad_be: "bytes_of_word le 8 (BYTESWAP64 le x) = be_bytes 8 x"
proof (cases le)
  case True
  have d: "(ucast (drop_bit n (ucast (drop_bit 32 x) :: u32)) :: u8) = ucast (drop_bit (n + 32) x)"
    "(ucast (drop_bit n (ucast x :: u32)) :: u8) = ucast (drop_bit n x)" if "n < 32 - 7" for n
    using that by (auto intro!: bit_word_eqI simp: bit_simps ac_simps)
  show ?thesis
    using True swap64_bytes [of 0 x] swap64_bytes [of 1 x] swap64_bytes [of 2 x] swap64_bytes [of 3 x]
      d [of 0] d [of 8] d [of 16] d [of 24]
    by (simp add: be_bytes_def bytes_of_word_def BYTESWAP64_def upt8 swap32_bytes)
qed (simp add: be_bytes_def bytes_of_word_def BYTESWAP64_def upt8)


subsection \<open>The message schedule\<close>

lemma sha_W_step:
  "sha_W M (16 + i) = ROTL (sha_W M (13 + i) XOR sha_W M (8 + i) XOR sha_W M (2 + i) XOR sha_W M i) 1"
  by (subst sha_W.simps) (simp add: ROTL_rot)

lemma expand_prefix:
  "fold (\<lambda>i W. W @ [ROTL (W ! (13 + i) XOR W ! (8 + i) XOR W ! (2 + i) XOR W ! i) 1]) [0..<n]
      (map (sha_W M) [0..<16]) = map (sha_W M) [0..<16 + n]"
proof (induction n)
  case (Suc n)
  have u: "map (sha_W M) [0..<16 + Suc n] = map (sha_W M) [0..<16 + n] @ [sha_W M (16 + n)]"
    by (simp only: add_Suc_right upt_Suc) simp
  show ?case unfolding u using Suc sha_W_step [of M n] by simp
qed simp

lemma load_block_W:
  assumes "64 \<le> length M"
  shows "load_block le M = map (sha_W M) [0..<16]"
proof -
  have "BYTESWAP le (word_of_bytes le (take 4 (drop (4 * i) M))) = sha_W M i" if "i < 16" for i
    using that assms by (subst BYTESWAP_load) (simp_all add: sha_W.simps)
  then show ?thesis by (simp add: load_block_def)
qed

lemma expand_W: "64 \<le> length M \<Longrightarrow> expand (load_block le M) = map (sha_W M) [0..<80]"
  using expand_prefix [of 64 M] by (simp add: expand_def load_block_W)

subsection \<open>The rounds\<close>

definition mk_vars :: "quint \<Rightarrow> u32 list \<Rightarrow> vars" where
  "mk_vars q W = (case q of (a, b, c, d, e) \<Rightarrow> \<lparr>va = a, vb = b, vc = c, vd = d, ve = e, vW = W\<rparr>)"

lemma unrolled:
  "rounds_2 = rounds_1" "rounds_4 = rounds_1" "rounds_5 = rounds_1" "rounds_10 = rounds_1" "rounds_20 = rounds_1"
proof -
  have f: "f \<circ> f = f ^^ 2" "f \<circ> f \<circ> f \<circ> f = f ^^ 4" "f \<circ> f \<circ> f \<circ> f \<circ> f = f ^^ 5"
    "f \<circ> f \<circ> f \<circ> f \<circ> f \<circ> f \<circ> f \<circ> f \<circ> f \<circ> f = f ^^ 10"
    "f \<circ> f \<circ> f \<circ> f \<circ> f \<circ> f \<circ> f \<circ> f \<circ> f \<circ> f \<circ> f \<circ> f \<circ> f \<circ> f \<circ> f \<circ> f \<circ> f \<circ> f \<circ> f \<circ> f = f ^^ 20"
    for f :: "vars \<Rightarrow> vars"
    by (simp_all add: numeral_eq_Suc comp_assoc)
  show "rounds_2 = rounds_1" unfolding rounds_2_def rounds_1_def f(1) by (simp add: funpow_mult)
  show "rounds_4 = rounds_1" unfolding rounds_4_def rounds_1_def f(2) by (simp add: funpow_mult)
  show "rounds_5 = rounds_1" unfolding rounds_5_def rounds_1_def f(3) by (simp add: funpow_mult)
  show "rounds_10 = rounds_1" unfolding rounds_10_def rounds_1_def f(4) by (simp add: funpow_mult)
  show "rounds_20 = rounds_1" unfolding rounds_20_def rounds_1_def f(5) ..
qed

lemma rounds_any: "rounds u = rounds_1"
  by (cases u) (simp_all add: rounds_def unrolled)

lemma one_round:
  assumes "t < 80" and "F = sha_f t" and "K = sha_K t"
  shows "DO_ROUND F K (mk_vars q (map (sha_W M) [t..<80]))
    = mk_vars (sha_step M t q) (map (sha_W M) [Suc t..<80])"
  using assms by (cases q) (simp add: DO_ROUND_def mk_vars_def sha_step_def upt_conv_Cons ROTL_rot ac_simps)

lemma phase:
  assumes "t + n \<le> 80" and "\<And>k. t \<le> k \<Longrightarrow> k < t + n \<Longrightarrow> F = sha_f k \<and> K = sha_K k"
  shows "(DO_ROUND F K ^^ n) (mk_vars q (map (sha_W M) [t..<80]))
    = mk_vars (fold (sha_step M) [t..<t + n] q) (map (sha_W M) [t + n..<80])"
  using assms
proof (induction n)
  case (Suc n)
  show ?case using Suc one_round [of "t + n" F K] by simp
qed simp

lemma rounds_fold:
  "rounds u (mk_vars q (map (sha_W M) [0..<80])) = mk_vars (fold (sha_step M) [0..<80] q) []"
proof -
  have f: "F_0_19 = sha_f k" "K_0_19 = sha_K k" if "k < 20" for k
    using that by (simp_all add: fun_eq_iff sha_f_def sha_K_def round_functions K_0_19_def)
  have g: "F_20_39 = sha_f k" "K_20_39 = sha_K k" if "20 \<le> k" "k < 40" for k
    using that by (simp_all add: fun_eq_iff sha_f_def sha_K_def round_functions K_20_39_def)
  have h: "F_40_59 = sha_f k" "K_40_59 = sha_K k" if "40 \<le> k" "k < 60" for k
    using that by (simp_all add: fun_eq_iff sha_f_def sha_K_def round_functions K_40_59_def)
  have i: "F_60_79 = sha_f k" "K_60_79 = sha_K k" if "60 \<le> k" "k < 80" for k
    using that by (simp_all add: fun_eq_iff sha_f_def sha_K_def round_functions K_60_79_def)
  have split: "[0..<80] = [0..<20] @ [20..<40] @ [40..<60] @ [60..<80]" by (simp add: upt_rec)
  have p: "(DO_ROUND F_0_19 K_0_19 ^^ 20) (mk_vars q (map (sha_W M) [0..<80]))
      = mk_vars (fold (sha_step M) [0..<20] q) (map (sha_W M) [20..<80])"
    "(DO_ROUND F_20_39 K_20_39 ^^ 20) (mk_vars q (map (sha_W M) [20..<80]))
      = mk_vars (fold (sha_step M) [20..<40] q) (map (sha_W M) [40..<80])"
    "(DO_ROUND F_40_59 K_40_59 ^^ 20) (mk_vars q (map (sha_W M) [40..<80]))
      = mk_vars (fold (sha_step M) [40..<60] q) (map (sha_W M) [60..<80])"
    "(DO_ROUND F_60_79 K_60_79 ^^ 20) (mk_vars q (map (sha_W M) [60..<80]))
      = mk_vars (fold (sha_step M) [60..<80] q) []" for q
    using phase [of 0 20 F_0_19 K_0_19 q M] f phase [of 20 20 F_20_39 K_20_39 q M] g
      phase [of 40 20 F_40_59 K_40_59 q M] h phase [of 60 20 F_60_79 K_60_79 q M] i by simp_all
  show ?thesis
    unfolding rounds_any rounds_1_def phases_def p unfolding split by (simp only: fold_append comp_apply)
qed

lemma SHA1Guts_compress:
  assumes "64 \<le> length M" and "hash sc = [h0, h1, h2, h3, h4]"
  shows "SHA1Guts u le sc M = sc\<lparr>hash := (case sha_compress M (h0, h1, h2, h3, h4) of
    (a, b, c, d, e) \<Rightarrow> [a, b, c, d, e])\<rparr>"
proof -
  obtain a b c d e where f: "fold (sha_step M) [0..<80] (h0, h1, h2, h3, h4) = (a, b, c, d, e)"
    by (metis surj_pair)
  show ?thesis
    using rounds_fold [of u "(h0, h1, h2, h3, h4)" M] f assms
    by (simp add: SHA1Guts_def expand_W sha_compress_def mk_vars_def)
qed

end
