(* ===== verification/Sha1_Correct.thy ===== *)
theory Sha1_Correct
  imports Sha1_Spec
begin

section \<open>Hashing a stream\<close>

text \<open>
  The interface a client of the hash uses: a context is initialised, fed with pieces of a message
  and closed. The locale states what the three operations promise in terms of the message fed so
  far, and derives that the digest does not depend on how the message was cut. The code fulfils it
  in every variant.
\<close>

locale streaming_hash =
  fixes fed :: "'c \<Rightarrow> 'b list \<Rightarrow> bool"
    and update :: "'c \<Rightarrow> 'b list \<Rightarrow> 'c option"
    and final :: "'c \<Rightarrow> ('c \<times> 'd) option"
    and digest :: "'b list \<Rightarrow> 'd"
    and fits :: "'b list \<Rightarrow> bool"
  assumes update_fed: "fed c m \<Longrightarrow> fits d \<Longrightarrow> \<exists>c'. update c d = Some c' \<and> fed c' (m @ d)"
    and final_fed: "fed c m \<Longrightarrow> \<exists>c'. final c = Some (c', digest m)"
begin

fun feed :: "'c \<Rightarrow> 'b list list \<Rightarrow> 'c option" where
  "feed c [] = Some c"
| "feed c (d # ds) = do { c' \<leftarrow> update c d; feed c' ds }"

lemma feed_fed:
  "fed c m \<Longrightarrow> (\<And>d. d \<in> set ds \<Longrightarrow> fits d) \<Longrightarrow> \<exists>c'. feed c ds = Some c' \<and> fed c' (m @ concat ds)"
proof (induction ds arbitrary: c m)
  case (Cons d ds)
  then obtain c' where c': "update c d = Some c'" "fed c' (m @ d)" using update_fed by force
  with Cons.IH [OF c'(2)] Cons.prems(2) show ?case by simp
qed simp

lemma feed_digest:
  assumes "fed c m" and "\<And>d. d \<in> set ds \<Longrightarrow> fits d"
  shows "\<exists>c'. do { c1 \<leftarrow> feed c ds; final c1 } = Some (c', digest (m @ concat ds))"
  using feed_fed [OF assms] final_fed by fastforce

lemma cut_irrelevant:
  assumes "fed c []" and "\<And>d. d \<in> set ds \<Longrightarrow> fits d" and "\<And>d. d \<in> set ds' \<Longrightarrow> fits d"
    and "concat ds = concat ds'"
  shows "map_option snd (do { c1 \<leftarrow> feed c ds; final c1 }) = map_option snd (do { c1 \<leftarrow> feed c ds'; final c1 })"
  using feed_digest [OF assms(1,2)] feed_digest [OF assms(1,3)] assms(4) by fastforce

end

subsection \<open>Cutting into blocks\<close>

lemma rest64_less: "length (rest64 m) < 64"
  by (induction m rule: rest64.induct) (subst rest64.simps, auto)

lemma blocks64_append: "blocks64 (m @ d) = blocks64 m @ blocks64 (rest64 m @ d)"
proof (induction m rule: rest64.induct)
  case (1 m)
  show ?case
  proof (cases "length m < 64")
    case True
    then show ?thesis by (simp add: blocks64.simps [of m] rest64.simps [of m])
  next
    case False
    then show ?thesis
      using 1 by (simp add: blocks64.simps [of m] blocks64.simps [of "m @ d"] rest64.simps [of m])
  qed
qed

lemma rest64_append: "rest64 (m @ d) = rest64 (rest64 m @ d)"
proof (induction m rule: rest64.induct)
  case (1 m)
  show ?case
  proof (cases "length m < 64")
    case True
    then show ?thesis by (simp add: rest64.simps [of m])
  next
    case False
    then show ?thesis using 1 by (simp add: rest64.simps [of m] rest64.simps [of "m @ d"])
  qed
qed

lemma block_cases:
  "length b < 64 \<Longrightarrow> blocks64 b = []" "length b < 64 \<Longrightarrow> rest64 b = b"
  "length b = 64 \<Longrightarrow> blocks64 b = [b]" "length b = 64 \<Longrightarrow> rest64 b = []"
  by (simp_all add: blocks64.simps [of b] rest64.simps [of b] blocks64.simps [of "[]"] rest64.simps [of "[]"])

lemma length_rest64: "length (rest64 m) = length m mod 64"
  by (induction m rule: rest64.induct) (subst rest64.simps, simp add: mod_if [of "length _"])

subsection \<open>What a context stands for\<close>

definition list_of :: "quint \<Rightarrow> u32 list" where
  "list_of q = (case q of (a, b, c, d, e) \<Rightarrow> [a, b, c, d, e])"

definition fed :: "SHA1Context \<Rightarrow> u8 list \<Rightarrow> bool" where
  "fed sc m \<longleftrightarrow> hash sc = list_of (fold sha_compress (blocks64 m) sha_init)
     \<and> length (buffer sc) = 64 \<and> bufferLength sc = word_of_nat (length (rest64 m))
     \<and> take (length (rest64 m)) (buffer sc) = rest64 m
     \<and> totalLength sc = word_of_nat (8 * length m)"

lemma fed_init: "length (buffer sc) = 64 \<Longrightarrow> fed (SHA1Init sc) []"
  by (simp add: fed_def SHA1Init_def block_cases list_of_def sha_init_def)

lemma guts_list_of:
  assumes "64 \<le> length M" and "hash sc = list_of q"
  shows "SHA1Guts u le sc M = sc\<lparr>hash := list_of (sha_compress M q)\<rparr>"
proof -
  obtain a b c d e where q: "q = (a, b, c, d, e)" by (metis surj_pair)
  show ?thesis
    using SHA1Guts_compress [OF assms(1), of sc a b c d e] assms(2) by (simp add: q list_of_def)
qed

lemma unat_small: "n < 2 ^ 32 \<Longrightarrow> unat (word_of_nat n :: u32) = n"
  by (simp add: unat_of_nat)

lemma unat_rest: "unat (word_of_nat (length (rest64 m)) :: u32) = length (rest64 m)"
  using rest64_less [of m] by (intro unat_small) simp

lemma ucast_word_of_nat: "ucast w = word_of_nat (unat w)"
  by (simp add: unsigned_of_nat)

lemma guts_take: "SHA1Guts u le sc data = SHA1Guts u le sc (take 64 data)"
proof -
  have "take 4 (drop (4 * i) (take 64 data)) = take 4 (drop (4 * i) data)" if "i < 16" for i
    using that by (simp add: drop_take min_def)
  then have "load_block le data = load_block le (take 64 data)" by (simp add: load_block_def)
  then show ?thesis by (simp add: SHA1Guts_def)
qed

lemma fill_flush:
  assumes f: "fed sc m" and n: "n = word_of_nat (length d)" and l: "length (rest64 m) + length d \<le> 64"
    and d: "take (length d) data = d"
  shows "\<exists>sc1. fill sc data n = Some sc1 \<and> fed (flush u le sc1) (m @ d)
     \<and> (length (rest64 m) + length d < 64 \<longrightarrow> fed sc1 (m @ d))"
proof -
  let ?r = "rest64 m"
  let ?b = "?r @ d @ drop (length ?r + length d) (buffer sc)"
  have un: "unat n = length d" "unat (bufferLength sc) = length ?r"
    using f n l by (auto simp: fed_def unat_small unat_rest)
  define sc1 where "sc1 = sc\<lparr>buffer := ?b, totalLength := totalLength sc + ucast n * 8,
    bufferLength := bufferLength sc + n\<rparr>"
  have fl: "fill sc data n = Some sc1"
    using f un l d by (simp add: fill_def sc1_def fed_def Let_def)
  have tl: "totalLength sc1 = word_of_nat (8 * length (m @ d))"
  proof -
    have "(ucast n :: u64) = word_of_nat (length d)" using un(1) by (metis ucast_word_of_nat)
    then show ?thesis using f by (simp add: sc1_def fed_def algebra_simps)
  qed
  have bl: "bufferLength sc1 = word_of_nat (length ?r + length d)" using f n by (simp add: sc1_def fed_def)
  have b64: "length (buffer sc1) = 64" using f l by (simp add: sc1_def fed_def)
  have small: "fed sc1 (m @ d)" if "length ?r + length d < 64"
  proof -
    have "rest64 (m @ d) = ?r @ d" "blocks64 (m @ d) = blocks64 m"
      using that by (simp_all add: blocks64_append [of m d] rest64_append [of m d] block_cases)
    then show ?thesis using f tl bl b64 by (simp add: fed_def sc1_def)
  qed
  have ne: "bufferLength sc1 \<noteq> 64" if "length ?r + length d < 64"
  proof -
    have "unat (bufferLength sc1) < 64" using that bl by (simp add: unat_small del: of_nat_add)
    then show ?thesis by auto
  qed
  have "fed (flush u le sc1) (m @ d)"
  proof (cases "length ?r + length d < 64")
    case True
    with small ne show ?thesis by (simp add: flush_def)
  next
    case False
    with l have e: "length (?r @ d) = 64" by simp
    then have "buffer sc1 = ?r @ d" using f by (simp add: sc1_def fed_def)
    moreover have "hash sc1 = list_of (fold sha_compress (blocks64 m) sha_init)" using f by (simp add: sc1_def fed_def)
    ultimately show ?thesis
      using e bl tl guts_list_of [of "?r @ d" sc1]
      by (simp add: flush_def fed_def blocks64_append [of m d] rest64_append [of m d] block_cases)
  qed
  with fl small show ?thesis by blast
qed


lemma copy_size:
  assumes "fed sc m" and "unat len = length d"
  shows "bytesToCopy sc len = word_of_nat (min (64 - length (rest64 m)) (length d))"
    "unat (bytesToCopy sc len) = min (64 - length (rest64 m)) (length d)"
proof -
  let ?r = "length (rest64 m)"
  have r: "unat (64 - bufferLength sc) = 64 - ?r"
  proof -
    have b: "unat (bufferLength sc) = ?r" "?r < 64"
      using assms(1) rest64_less [of m] by (simp_all add: fed_def unat_rest)
    then have "bufferLength sc \<le> 64" by (simp add: word_le_nat_alt)
    with b show ?thesis by (simp add: unat_sub)
  qed
  show u: "unat (bytesToCopy sc len) = min (64 - ?r) (length d)"
    using r assms(2) by (simp add: bytesToCopy_def Let_def word_less_nat_alt)
  show "bytesToCopy sc len = word_of_nat (min (64 - ?r) (length d))"
    unfolding u [symmetric] by simp
qed

text \<open>One piece is copied up to the end of the buffer.\<close>

lemma copy_piece:
  assumes f: "fed sc m" and len: "unat len = length d" and d: "take (length d) data = d"
  defines "n \<equiv> bytesToCopy sc len"
  defines "k \<equiv> min (64 - length (rest64 m)) (length d)"
  shows "\<exists>sc1. fill sc data n = Some sc1 \<and> fed (flush u le sc1) (m @ take k d)"
    and "unat n = k" and "unat (len - n) = length (drop k d)"
    and "take (length (drop k d)) (drop k data) = drop k d"
proof -
  note n = copy_size [OF f len, folded n_def k_def]
  have k: "length (take k d) = k" by (simp add: k_def)
  have "take k data = take k d" using arg_cong [OF d, of "take k"] by (simp add: k_def min.commute)
  then show "\<exists>sc1. fill sc data n = Some sc1 \<and> fed (flush u le sc1) (m @ take k d)"
    using fill_flush [OF f, of n "take k d" data u le] n(1) unfolding k
    using rest64_less [of m] by (fastforce simp: k_def)
  show "unat n = k" by (rule n(2))
  have "n \<le> len" using n(2) len by (simp add: word_le_nat_alt k_def)
  then show "unat (len - n) = length (drop k d)" using n(2) len by (simp add: unat_sub)
  show "take (length (drop k d)) (drop k data) = drop k d"
    using arg_cong [OF d, of "drop k"] by (simp add: drop_take)
qed

lemma update_loop_fed:
  "fed sc m \<Longrightarrow> unat len = length d \<Longrightarrow> take (length d) data = d
     \<Longrightarrow> \<exists>sc'. update_loop u le sc data len = Some sc' \<and> fed sc' (m @ d)"
proof (induction "length d" arbitrary: sc m len d data rule: less_induct)
  case less
  show ?case
  proof (cases "d = []")
    case True
    with less.prems have "len = 0" by (simp add: unat_eq_zero)
    with True less.prems show ?thesis by (simp add: update_loop.simps)
  next
    case False
    let ?n = "bytesToCopy sc len"
    let ?k = "min (64 - length (rest64 m)) (length d)"
    note c = copy_piece [OF less.prems]
    have k: "0 < ?k" using False rest64_less [of m] by simp
    obtain sc1 where sc1: "fill sc data ?n = Some sc1" "fed (flush u le sc1) (m @ take ?k d)" using c(1) [of u le] by blast
    have "length (drop ?k d) < length d" using k False by (simp add: diff_less)
    from less.hyps [OF this sc1(2) c(3,4)] obtain sc' where
      "update_loop u le (flush u le sc1) (drop ?k data) (len - ?n) = Some sc'" "fed sc' (m @ d)" by auto
    moreover have "len \<noteq> 0" using False less.prems(2) by auto
    ultimately show ?thesis using sc1(1) c(2) by (simp add: update_loop.simps [of u le sc] Let_def)
  qed
qed

lemma fast_blocks_fed:
  "fed sc m \<Longrightarrow> rest64 m = [] \<Longrightarrow> unat len = length d \<Longrightarrow> take (length d) data = d
     \<Longrightarrow> \<exists>sc' d1 d2 data' len'. fast_blocks u le sc data len = (sc', data', len') \<and> d = d1 @ d2
       \<and> fed sc' (m @ d1) \<and> rest64 (m @ d1) = [] \<and> length d2 < 64 \<and> unat len' = length d2
       \<and> take (length d2) data' = d2"
proof (induction "length d" arbitrary: sc m len d data rule: less_induct)
  case less
  show ?case
  proof (cases "len > 63")
    case False
    then have "length d < 64" using less.prems(3) by (simp add: word_less_nat_alt)
    with False less.prems show ?thesis
      by (intro exI [of _ sc] exI [of _ "[]"] exI [of _ d] exI [of _ data] exI [of _ len])
        (simp add: fast_blocks.simps [of u le sc])
  next
    case True
    then have l: "64 \<le> length d" using less.prems(3) by (simp add: word_less_nat_alt)
    let ?b = "take 64 d"
    let ?sc = "SHA1Guts u le (sc\<lparr>totalLength := totalLength sc + 512\<rparr>) data"
    have db: "take 64 data = ?b" using arg_cong [OF less.prems(4), of "take 64"] l by (simp add: min_def)
    have "length data \<ge> 64" using arg_cong [OF db, of length] l by simp
    then have "?sc = sc\<lparr>totalLength := totalLength sc + 512,
        hash := list_of (sha_compress ?b (fold sha_compress (blocks64 m) sha_init))\<rparr>"
      using less.prems(1) l unfolding guts_take [of _ _ _ data] db
      by (subst guts_list_of) (auto simp: fed_def)
    with less.prems(1,2) l have "fed ?sc (m @ ?b)"
      by (simp add: fed_def blocks64_append [of m] rest64_append [of m] block_cases algebra_simps)
    moreover have "rest64 (m @ ?b) = []"
      using less.prems(2) l by (simp add: rest64_append [of m] block_cases)
    moreover have "unat (len - 64) = length (drop 64 d)"
      using True less.prems(3) by (simp add: unat_sub word_le_nat_alt word_less_nat_alt)
    moreover have "take (length (drop 64 d)) (drop 64 data) = drop 64 d"
      using arg_cong [OF less.prems(4), of "drop 64"] by (simp add: drop_take)
    moreover have "length (drop 64 d) < length d" using l by simp
    ultimately obtain sc' d1 d2 data' len' where "fast_blocks u le ?sc (drop 64 data) (len - 64) = (sc', data', len')"
      "drop 64 d = d1 @ d2" "fed sc' ((m @ ?b) @ d1)" "rest64 ((m @ ?b) @ d1) = []" "length d2 < 64"
      "unat len' = length d2" "take (length d2) data' = d2"
      using less.hyps [of "drop 64 d" ?sc "m @ ?b" "len - 64" "drop 64 data"] by metis
    moreover from this(2) have "d = (?b @ d1) @ d2" by (metis append_assoc append_take_drop_id)
    ultimately show ?thesis
      using True
      by (intro exI [of _ sc'] exI [of _ "?b @ d1"] exI [of _ d2] exI [of _ data'] exI [of _ len'])
        (simp add: fast_blocks.simps [of u le sc])
  qed
qed


subsection \<open>SHA1Update and SHA1Final\<close>

lemma SHA1Update_fed:
  assumes f: "fed sc m" and len: "unat len = length d" and d: "take (length d) data = d"
  shows "\<exists>sc'. SHA1Update fast u le sc data len = Some sc' \<and> fed sc' (m @ d)"
proof (cases fast)
  case False
  then show ?thesis using update_loop_fed [OF assms] by (simp add: SHA1Update_def)
next
  case True
  let ?n = "bytesToCopy sc len"
  let ?k = "min (64 - length (rest64 m)) (length d)"
  let ?first = "if bufferLength sc \<noteq> 0 then map_option (\<lambda>sc1. (flush u le sc1, drop (unat ?n) data, len - ?n)) (fill sc data ?n)
    else Some (sc, data, len)"
  have b0: "bufferLength sc = 0 \<longleftrightarrow> rest64 m = []"
    using f unat_rest [of m] by (auto simp: fed_def)
  obtain sc1 data1 len1 e1 e2 where one: "?first = Some (sc1, data1, len1)" "d = e1 @ e2" "fed sc1 (m @ e1)"
    "unat len1 = length e2" "take (length e2) data1 = e2" "e2 \<noteq> [] \<Longrightarrow> rest64 (m @ e1) = []"
  proof (cases "rest64 m = []")
    case True
    then show ?thesis using that [of sc data len "[]" d] f len d b0 by simp
  next
    case False
    note c = copy_piece [OF assms]
    obtain sc1 where sc1: "fill sc data ?n = Some sc1" "fed (flush u le sc1) (m @ take ?k d)"
      using c(1) [of u le] by blast
    have "rest64 (m @ take ?k d) = []" if "drop ?k d \<noteq> []"
      using that rest64_less [of m] by (simp add: rest64_append [of m] block_cases)
    then show ?thesis
      using that [of "flush u le sc1" "drop ?k data" "len - ?n" "take ?k d" "drop ?k d"] sc1 c(2-4) False b0
      by simp
  qed
  have upd: "SHA1Update fast u le sc data len = (case fast_blocks u le sc1 data1 len1 of
      (sc2, data2, len2) \<Rightarrow> if len2 \<noteq> 0 then fill sc2 data2 len2 else Some sc2)"
    using True unfolding SHA1Update_def Let_def one(1) by simp
  show ?thesis
  proof (cases "e2 = []")
    case True
    with one(4) have "len1 = 0" by (simp add: unat_eq_zero)
    with True one(2,3) show ?thesis by (simp add: upd fast_blocks.simps [of u le sc1 data1 0])
  next
    case False
    obtain sc2 d1 d2 data2 len2 where two: "fast_blocks u le sc1 data1 len1 = (sc2, data2, len2)"
      "e2 = d1 @ d2" "fed sc2 ((m @ e1) @ d1)" "rest64 ((m @ e1) @ d1) = []" "length d2 < 64"
      "unat len2 = length d2" "take (length d2) data2 = d2"
      using fast_blocks_fed [OF one(3) one(6) [OF False] one(4,5)] by metis
    have len2: "len2 = word_of_nat (length d2)" unfolding two(6) [symmetric] by simp
    obtain sc3 where three: "fill sc2 data2 len2 = Some sc3" "fed sc3 (((m @ e1) @ d1) @ d2)"
      using fill_flush [OF two(3) len2 _ two(7)] two(4,5) by auto
    show ?thesis
    proof (cases "len2 = 0")
      case True
      then have "d2 = []" using two(6) by simp
      with True one(2) two(1-3) show ?thesis by (simp add: upd)
    next
      case False
      with one(2) two(1,2) three show ?thesis by (simp add: upd)
    qed
  qed
qed

lemma pad_size:
  assumes "fed sc m"
  defines "n \<equiv> 120 - bufferLength sc"
  shows "unat (if n > 64 then n - 64 else n) = Suc ((119 - length m mod 64) mod 64)"
proof -
  let ?r = "length m mod 64"
  have b: "unat (bufferLength sc) = ?r" using assms(1) unat_rest [of m] by (simp add: fed_def length_rest64)
  have "?r < 64" by simp
  with b have n: "unat n = 120 - ?r" unfolding n_def by (subst unat_sub) (simp_all add: word_le_nat_alt)
  show ?thesis
  proof (cases "?r < 56")
    case True
    then have "n > 64" using n by (simp add: word_less_nat_alt)
    then have l: "unat (n - 64) = 56 - ?r" using n by (subst unat_sub) (auto simp: word_le_nat_alt word_less_nat_alt)
    have "119 - ?r = 64 + (55 - ?r)" using True by simp
    then have "(119 - ?r) mod 64 = 55 - ?r" by (simp only: mod_add_self1) simp
    moreover have "Suc 55 - ?r = Suc (55 - ?r)" using True by (intro Suc_diff_le) simp
    ultimately show ?thesis using \<open>n > 64\<close> l by simp
  next
    case False
    then have "\<not> n > 64" using n \<open>?r < 64\<close> by (simp add: word_less_nat_alt)
    moreover have "(119 - ?r) mod 64 = 119 - ?r" using False by (intro mod_less) simp
    ultimately show ?thesis using n False \<open>?r < 64\<close> by simp
  qed
qed

lemma SHA1Final_fed:
  assumes f: "fed sc m"
  shows "\<exists>sc'. SHA1Final fast u le sc = Some (sc', sha1 m)"
proof -
  let ?n = "120 - bufferLength sc"
  let ?p = "if ?n > 64 then ?n - 64 else ?n"
  let ?k = "(119 - length m mod 64) mod 64"
  let ?d = "(0x80 :: u8) # replicate ?k 0"
  let ?l = "be_bytes 8 (word_of_nat (8 * length m) :: u64)"
  have p: "unat ?p = length ?d" using pad_size [OF f] by simp
  have k: "?k \<le> 63" using mod_less_divisor [of 64 "119 - length m mod 64"] by simp
  have t: "take (length ?d) padding = ?d" using k by (simp add: padding_def min_def)
  obtain sc1 where sc1: "SHA1Update fast u le sc padding ?p = Some sc1" "fed sc1 (m @ ?d)"
    using SHA1Update_fed [OF f p t] by blast
  have l8: "length ?l = 8" by (simp add: be_bytes_def)
  obtain sc2 where sc2: "SHA1Update fast u le sc1 ?l 8 = Some sc2" "fed sc2 ((m @ ?d) @ ?l)"
    using SHA1Update_fed [OF sc1(2), of 8 ?l ?l fast u le] l8 by auto
  have tot: "totalLength sc = word_of_nat (8 * length m)" using f by (simp add: fed_def)
  have h: "hash sc2 = list_of (fold sha_compress (blocks64 (sha_pad m)) sha_init)"
    using sc2(2) by (simp add: fed_def sha_pad_def)
  have "concat (map (store_hash fast le) (hash sc2)) = sha1 m"
    unfolding h sha1_def list_of_def by (auto simp: store_hash_be split: prod.split)
  then show ?thesis
    using sc1(1) sc2(1) by (simp add: SHA1Final_def Let_def length_pad_be tot del: of_nat_mult)
qed

interpretation sha1: streaming_hash fed
    "\<lambda>sc d. SHA1Update fast u le sc d (word_of_nat (length d))" "SHA1Final fast u le" sha1
    "\<lambda>d. length d < 2 ^ 32" for fast u le
proof
  fix sc m and d :: "u8 list"
  assume "fed sc m" "length d < (2 :: nat) ^ 32"
  then show "\<exists>sc'. SHA1Update fast u le sc d (word_of_nat (length d)) = Some sc' \<and> fed sc' (m @ d)"
    by (intro SHA1Update_fed) (simp_all add: unat_small)
qed (rule SHA1Final_fed)

subsection \<open>Properties\<close>

text \<open>The context after a message has been fed piece by piece.\<close>

fun SHA1Feed :: "bool \<Rightarrow> unroll \<Rightarrow> bool \<Rightarrow> SHA1Context \<Rightarrow> u8 list list \<Rightarrow> SHA1Context option" where
  "SHA1Feed fast u le sc [] = Some sc"
| "SHA1Feed fast u le sc (d # ds) =
     do { sc' \<leftarrow> SHA1Update fast u le sc d (word_of_nat (length d)); SHA1Feed fast u le sc' ds }"

lemma SHA1Feed_eq: "SHA1Feed fast u le sc ds = sha1.feed fast u le sc ds"
  by (induction ds arbitrary: sc) simp_all

text \<open>C10. SHA-1: whatever the variant (little- or big-endian machine, any of the six degrees of
  unrolling, with or without the fast copy), a message of any length that is fed to
  \<open>SHA1Init\<close>, \<open>SHA1Update\<close> and \<open>SHA1Final\<close> in pieces of less than \<open>2 ^ 32\<close> bytes, however it is
  cut, is hashed to the digest the standard defines; no call fails or writes outside the buffer of
  the context.\<close>

theorem sha1_correct:
  assumes "length (buffer sc) = 64" and "\<forall>d \<in> set ds. length d < 2 ^ 32"
  shows "\<exists>sc'. do { c \<leftarrow> SHA1Feed fast u le (SHA1Init sc) ds; SHA1Final fast u le c } = Some (sc', sha1 (concat ds))"
  using sha1.feed_digest [OF fed_init [OF assms(1)], of ds fast u le] assms(2) by (simp add: SHA1Feed_eq)

theorem sha1_correct_witness:
  "\<exists>sc'. do { c \<leftarrow> SHA1Feed True U20 True (SHA1Init \<lparr>totalLength = 0, hash = [], bufferLength = 0,
       buffer = replicate 64 0\<rparr>) [[0x61], [0x62, 0x63]]; SHA1Final True U20 True c } = Some (sc', sha1 [0x61, 0x62, 0x63])"
  using sha1_correct [of "\<lparr>totalLength = 0, hash = [], bufferLength = 0, buffer = replicate 64 0\<rparr>"
    "[[0x61], [0x62, 0x63]]" True U20 True] by simp

text \<open>The compression of one block does not depend on the degree of unrolling nor on the byte
  order: every variant of \<open>SHA1Guts\<close> adds the 80 steps of the standard to the hash.\<close>

theorem guts_variants_agree:
  assumes "64 \<le> length M" and "length (hash sc) = 5"
  shows "SHA1Guts u le sc M = SHA1Guts U1 False sc M
    \<and> hash (SHA1Guts u le sc M) = list_of (sha_compress M
        (hash sc ! 0, hash sc ! 1, hash sc ! 2, hash sc ! 3, hash sc ! 4))"
proof -
  obtain h0 h1 h2 h3 h4 where h: "hash sc = [h0, h1, h2, h3, h4]"
    using assms(2) by (auto simp: numeral_eq_Suc length_Suc_conv)
  show ?thesis using SHA1Guts_compress [OF assms(1) h] h by (simp add: list_of_def numeral_eq_Suc)
qed

theorem guts_variants_agree_witness:
  "SHA1Guts U10 True \<lparr>totalLength = 0, hash = [1, 2, 3, 4, 5], bufferLength = 0, buffer = []\<rparr> (replicate 64 7)
     = SHA1Guts U1 False \<lparr>totalLength = 0, hash = [1, 2, 3, 4, 5], bufferLength = 0, buffer = []\<rparr> (replicate 64 7)"
  using guts_variants_agree [of "replicate 64 7"
    "\<lparr>totalLength = 0, hash = [1, 2, 3, 4, 5], bufferLength = 0, buffer = []\<rparr>" U10 True] by simp

end
