(* ===== verification/Chunk.thy ===== *)
theory Chunk
  imports Sha1_Correct Cstr
begin

section \<open>Chunks and their hashes (project2 chunk.c, make_chunks.c)\<close>

text \<open>
  A file is cut into chunks of 512 KB and each chunk is named by its SHA-1 hash, written as 40
  hexadecimal digits. \<open>make-chunks\<close> prints one line per chunk. A file is its list of bytes;
  \<open>fread\<close> returns fewer bytes than requested only at the end of the file. An array of strings or
  bytes is a list, and a write outside it is the fault \<open>Undefined\<close>.
\<close>

definition BT_CHUNK_SIZE :: nat where "BT_CHUNK_SIZE = 512 * 1024"

definition SHA1_HASH_SIZE :: nat where "SHA1_HASH_SIZE = 20"

text \<open>\<open>sc\<close> is the context on the stack before it is initialised. The code is built without
  \<open>SHA1_FAST_COPY\<close>, with full unrolling, for a little-endian machine.\<close>

definition shahash :: "SHA1Context \<Rightarrow> u8 list \<Rightarrow> int \<Rightarrow> u8 list result" where
  "shahash sc str len =
     (case SHA1Update False U20 True (SHA1Init sc) str (word_of_int len) of
        None \<Rightarrow> Inl Undefined
      | Some sha \<Rightarrow> (case SHA1Final False U20 True sha of
            None \<Rightarrow> Inl Undefined
          | Some (_, h) \<Rightarrow> Inr h))"

function make_chunks :: "SHA1Context \<Rightarrow> u8 list \<Rightarrow> u8 list list \<Rightarrow> nat \<Rightarrow> (nat \<times> u8 list list) result" where
  "make_chunks sc fp chunk_hashes numchunks =
     (let buffer = take BT_CHUNK_SIZE fp; numbytes = length buffer in
      if numbytes > 0 then
        and_then (shahash sc buffer (int numbytes)) (\<lambda>h.
        and_then (array_set chunk_hashes (int numchunks) h) (\<lambda>hs.
        make_chunks sc (drop BT_CHUNK_SIZE fp) hs (Suc numchunks)))
      else Inr (numchunks, chunk_hashes))"
  by pat_completeness auto
termination
  by (relation "measure (\<lambda>(sc, fp, hs, n). length fp)") (auto simp: BT_CHUNK_SIZE_def)

declare make_chunks.simps [simp del]

subsection \<open>Hexadecimal\<close>

definition hex_digit :: "nat \<Rightarrow> char" where
  "hex_digit d = (if d < 10 then char_of (48 + d) else char_of (87 + d))"

text \<open>\<open>%.2x\<close> of a byte.\<close>

definition hex_byte :: "u8 \<Rightarrow> string" where
  "hex_byte b = [hex_digit (unat (drop_bit 4 b)), hex_digit (unat (b AND 15))]"

definition binary2hex :: "u8 list \<Rightarrow> string" where
  "binary2hex buf = concat (map hex_byte buf)"

definition toupper :: "char \<Rightarrow> char" where
  "toupper c = (let n = of_char c :: nat in if 97 \<le> n \<and> n \<le> 122 then char_of (n - 32) else c)"

text \<open>A \<open>char\<close> is signed.\<close>

definition hex2binary1 :: "char \<Rightarrow> u8" where
  "hex2binary1 hex =
     (let h = of_char (toupper hex) :: u8 in
      if h \<le>s 57 then h - 48 else h - (65 - 10))"

text \<open>\<open>hex\<close> has at least \<open>len\<close> characters, and one more when \<open>len\<close> is odd.\<close>

definition hex2binary :: "string \<Rightarrow> nat \<Rightarrow> u8 list" where
  "hex2binary hex len =
     map (\<lambda>i. push_bit 4 (hex2binary1 (hex ! (2 * i))) OR hex2binary1 (hex ! (2 * i + 1))) [0..<(len + 1) div 2]"

subsection \<open>The program make-chunks\<close>

text \<open>The size of the file as a \<open>double\<close>: a number of more than 53 bits is rounded to its 53 leading ones, to the
  nearest, and to the even one of two that are equally near.\<close>

fun bit_length :: "nat \<Rightarrow> nat" where
  "bit_length n = (if n = 0 then 0 else Suc (bit_length (n div 2)))"

declare bit_length.simps [simp del]

definition double_of_size :: "nat \<Rightarrow> nat" where
  "double_of_size n =
     (let k = bit_length n - 53; q = n div 2 ^ k; r = n mod 2 ^ k; h = 2 ^ k div 2 in
      (if r > h \<or> k > 0 \<and> r = h \<and> odd q then q + 1 else q) * 2 ^ k)"

text \<open>Dividing a double by \<open>2 ^ 19\<close> is exact, and so is \<open>ceil\<close>; the conversion of its result to \<open>int\<close> is undefined when
  it does not fit. \<open>st\<close> is the size \<open>stat\<close> reports.\<close>

definition get_numchunks :: "nat option \<Rightarrow> int result" where
  "get_numchunks st =
     (case st of
        Some n \<Rightarrow>
          let c = (double_of_size n + BT_CHUNK_SIZE - 1) div BT_CHUNK_SIZE in
          if c < 2 ^ 31 then Inr (int c) else Inl Undefined
      | None \<Rightarrow> Inr (-1))"

definition chunk_line :: "nat \<Rightarrow> u8 list \<Rightarrow> string" where
  "chunk_line i h = show_nat i @ '' '' @ binary2hex h @ [CHR 0x0A]"

text \<open>\<open>fp\<close> is the contents when the file can be opened, \<open>nargs\<close> the length of the command
  line; memory does not run out.\<close>

definition make_chunks_main :: "SHA1Context \<Rightarrow> nat \<Rightarrow> nat option \<Rightarrow> u8 list option \<Rightarrow> string result" where
  "make_chunks_main sc nargs st fp =
     (if nargs < 2 then Inl (Exits (-1))
      else and_then (get_numchunks st) (\<lambda>numchunks.
        case fp of None \<Rightarrow> Inl (Exits (-1))
        | Some f \<Rightarrow>
            if numchunks < 0 then Inl (Exits (-1))
            else and_then (make_chunks sc f (replicate (nat numchunks) []) 0) (\<lambda>(n, hs).
              Inr (concat (map (\<lambda>i. chunk_line i (hs ! i)) [0..<n])))))"


subsection \<open>Reading back hexadecimal digits\<close>

lemma nat_less_16: "d < 16 \<Longrightarrow> d \<in> {0, 1, 2, 3, 4, 5, 6, 7, 8, 9, 10, 11, 12, 13, 14, 15 :: nat}"
  by (auto simp: numeral_eq_Suc less_Suc_eq)

lemma hex_digit_value:
  assumes "d < 16"
  shows "hex2binary1 (hex_digit d) = word_of_nat d"
proof -
  have t: "of_char (toupper (hex_digit d)) = (if d < 10 then 48 + d else 55 + d)"
    using nat_less_16 [OF assms] by (auto simp: hex_digit_def toupper_def of_char_of)
  have u: "(of_char (toupper (hex_digit d)) :: u8) = word_of_nat (if d < 10 then 48 + d else 55 + d)"
    unfolding t [symmetric] by (simp only: of_nat_of_char)
  show ?thesis
    unfolding hex2binary1_def u using nat_less_16 [OF assms] by auto
qed

lemma nibbles: "unat (drop_bit 4 b) < 16" "unat (b AND 15) < 16" for b :: u8
proof -
  have "unat b < 256" using unsigned_less [of b] by simp
  then show "unat (drop_bit 4 b) < 16" by (simp add: drop_bit_eq_div unat_div)
  have "unat (b AND 15) \<le> unat (15 :: u8)" using word_and_le1 [of b 15] by (simp add: word_le_nat_alt)
  then show "unat (b AND 15) < 16" by simp
qed

lemma hex_byte_value:
  "push_bit 4 (hex2binary1 (hex_byte b ! 0)) OR hex2binary1 (hex_byte b ! 1) = b"
proof -
  have "push_bit 4 (drop_bit 4 b) OR (b AND 15) = b"
  proof -
    have "b AND 15 = take_bit 4 b" by (simp add: take_bit_eq_mask mask_eq_exp_minus_1)
    then show ?thesis by (simp only:) (auto intro!: bit_word_eqI simp: bit_simps)
  qed
  then show ?thesis by (simp add: hex_byte_def hex_digit_value nibbles)
qed

lemma binary2hex_nth:
  assumes "i < length bs"
  shows "binary2hex bs ! (2 * i) = hex_byte (bs ! i) ! 0" "binary2hex bs ! (2 * i + 1) = hex_byte (bs ! i) ! 1"
  using assms
proof (induction bs arbitrary: i)
  case (Cons b bs)
  { case 1
    then show ?case using Cons by (cases i) (auto simp: binary2hex_def hex_byte_def)
  next
    case 2
    then show ?case using Cons by (cases i) (auto simp: binary2hex_def hex_byte_def) }
qed auto

lemma length_binary2hex [simp]: "length (binary2hex bs) = 2 * length bs"
  by (induction bs) (auto simp: binary2hex_def hex_byte_def)

lemma hex2binary_binary2hex: "hex2binary (binary2hex bs @ rest) (2 * length bs) = bs"
  by (rule nth_equalityI)
    (simp_all add: hex2binary_def nth_append binary2hex_nth hex_byte_value del: One_nat_def)

subsection \<open>Chunks\<close>

function pieces :: "u8 list \<Rightarrow> u8 list list" where
  "pieces f = (if f = [] then [] else take BT_CHUNK_SIZE f # pieces (drop BT_CHUNK_SIZE f))"
  by pat_completeness auto
termination
  by (relation "measure length") (auto simp: BT_CHUNK_SIZE_def)

declare pieces.simps [simp del]

lemma shahash_sha1:
  assumes "length (buffer sc) = 64" and "length d < 2 ^ 31"
  shows "shahash sc d (int (length d)) = Inr (sha1 d)"
proof -
  have u: "unat (word_of_nat (length d) :: u32) = length d" using assms(2) by (intro unat_small) simp
  obtain sha where sha: "SHA1Update False U20 True (SHA1Init sc) d (word_of_nat (length d)) = Some sha" "fed sha ([] @ d)"
    using SHA1Update_fed [OF fed_init [OF assms(1)] u, of d False U20 True] by auto
  obtain sha' where "SHA1Final False U20 True sha = Some (sha', sha1 d)"
    using SHA1Final_fed [OF sha(2), of False U20 True] by auto
  with sha(1) show ?thesis by (simp add: shahash_def)
qed

lemma make_chunks_pieces:
  assumes "length (buffer sc) = 64"
  shows "n \<le> length hs \<Longrightarrow> make_chunks sc f hs n =
    (if n + length (pieces f) \<le> length hs
     then Inr (n + length (pieces f), take n hs @ map sha1 (pieces f) @ drop (n + length (pieces f)) hs)
     else Inl Undefined)"
proof (induction f arbitrary: hs n rule: pieces.induct)
  case (1 f)
  show ?case
  proof (cases "f = []")
    case True
    with 1(2) show ?thesis by (simp add: make_chunks.simps pieces.simps)
  next
    case False
    let ?b = "take BT_CHUNK_SIZE f"
    have b: "0 < length ?b" "length ?b < 2 ^ 31" using False by (auto simp: BT_CHUNK_SIZE_def)
    note sh = shahash_sha1 [OF assms b(2)]
    show ?thesis
    proof (cases "n < length hs")
      case True
      have "make_chunks sc f hs n = make_chunks sc (drop BT_CHUNK_SIZE f) (hs[n := sha1 ?b]) (Suc n)"
        using b(1) sh True by (simp add: make_chunks.simps [of sc f])
      also have "\<dots> = (if n + length (pieces f) \<le> length hs
          then Inr (n + length (pieces f), take n hs @ map sha1 (pieces f) @ drop (n + length (pieces f)) hs)
          else Inl Undefined)"
        using 1(1) [OF False, of "Suc n" "hs[n := sha1 ?b]"] True
        by (simp add: pieces.simps [of f] False take_Suc_conv_app_nth)
      finally show ?thesis .
    next
      case n: False
      then have "make_chunks sc f hs n = Inl Undefined"
        using b(1) sh by (simp add: make_chunks.simps [of sc f] array_set_def)
      with n show ?thesis by (simp add: pieces.simps [of f] False)
    qed
  qed
qed

lemma bit_length_le: "n < 2 ^ b \<Longrightarrow> bit_length n \<le> b"
proof (induction b arbitrary: n)
  case (Suc b)
  then have "n div 2 < 2 ^ b" by (simp add: less_mult_imp_div_less)
  with Suc.IH show ?case by (subst bit_length.simps) simp
qed (simp add: bit_length.simps)

lemma double_of_size_exact: "n < 2 ^ 53 \<Longrightarrow> double_of_size n = n"
  using bit_length_le [of n 53] by (simp add: double_of_size_def)

lemma length_pieces: "length (pieces f) = (length f + BT_CHUNK_SIZE - 1) div BT_CHUNK_SIZE"
proof (induction f rule: pieces.induct)
  case (1 f)
  let ?S = "BT_CHUNK_SIZE"
  have S: "0 < ?S" by (simp add: BT_CHUNK_SIZE_def)
  show ?case
  proof (cases "f = []")
    case True
    with S show ?thesis by (simp add: pieces.simps)
  next
    case False
    have "(length f + ?S - 1) div ?S = Suc ((length f - 1) div ?S)"
      using False S div_add_self2 [of ?S "length f - 1"] by (simp add: Suc_le_eq)
    moreover have "(length f - 1) div ?S = (length f - ?S + ?S - 1) div ?S"
      using S by (cases "?S \<le> length f") auto
    ultimately show ?thesis using 1 False by (simp add: pieces.simps [of f])
  qed
qed

lemma get_numchunks_pieces:
  assumes "length f + BT_CHUNK_SIZE \<le> 2 ^ 50"
  shows "get_numchunks (Some (length f)) = Inr (int (length (pieces f)))"
proof -
  have "length (pieces f) < 2 ^ 31"
    unfolding length_pieces using assms by (intro less_mult_imp_div_less) (simp add: BT_CHUNK_SIZE_def)
  moreover have "double_of_size (length f) = length f" using assms by (intro double_of_size_exact) simp
  ultimately show ?thesis by (simp add: get_numchunks_def length_pieces)
qed

subsection \<open>Properties\<close>

text \<open>Hexadecimal text: \<open>hex2binary\<close> reads back every byte string from the digits \<open>binary2hex\<close>
  writes, whatever follows them.\<close>

theorem hex_roundtrip: "hex2binary (binary2hex bs @ rest) (2 * length bs) = bs"
  by (rule hex2binary_binary2hex)

lemma make_chunks_main_ok:
  assumes "length (buffer sc) = 64" and "2 \<le> nargs" and "length f + BT_CHUNK_SIZE \<le> 2 ^ 50"
  shows "make_chunks_main sc nargs (Some (length f)) (Some f)
    = Inr (concat (map (\<lambda>i. chunk_line i (sha1 (pieces f ! i))) [0..<length (pieces f)]))"
proof -
  let ?k = "length (pieces f)"
  have m: "make_chunks sc f (replicate ?k []) 0 = Inr (?k, map sha1 (pieces f))"
    using make_chunks_pieces [OF assms(1), of 0 "replicate ?k []" f] by simp
  have "concat (map (\<lambda>i. chunk_line i (map sha1 (pieces f) ! i)) [0..<?k])
      = concat (map (\<lambda>i. chunk_line i (sha1 (pieces f ! i))) [0..<?k])"
    by (intro arg_cong [where f = concat] map_cong) auto
  with assms(2) show ?thesis by (simp add: make_chunks_main_def get_numchunks_pieces [OF assms(3)] m)
qed

text \<open>C26. \<open>make-chunks\<close>: for a file of at most \<open>2^50 - 2^19\<close> bytes the array of hashes that \<open>main\<close> allocates from the size
  of the file, computed in floating point and converted to \<open>int\<close>, is exactly as long as the number of chunks
  \<open>make_chunks\<close> reads, so nothing is written outside it, and the program prints for the \<open>i\<close>-th chunk of 512 KB its
  number and the hexadecimal digits of its SHA-1 hash as the standard defines it. (A longer file has more chunks
  than an \<open>int\<close> can count.)\<close>

theorem make_chunks_correct:
  assumes "length (buffer sc) = 64" and "2 \<le> nargs" and "length f + BT_CHUNK_SIZE \<le> 2 ^ 50"
  shows "get_numchunks (Some (length f)) = Inr (int (length (pieces f)))
    \<and> make_chunks_main sc nargs (Some (length f)) (Some f)
      = Inr (concat (map (\<lambda>i. chunk_line i (sha1 (pieces f ! i))) [0..<length (pieces f)]))"
  using make_chunks_main_ok [OF assms] get_numchunks_pieces [OF assms(3)] by simp

theorem make_chunks_correct_witness:
  "make_chunks_main \<lparr>totalLength = 0, hash = [], bufferLength = 0, buffer = replicate 64 0\<rparr> 2
     (Some 3) (Some [0x61, 0x62, 0x63]) = Inr (''0 '' @ binary2hex (sha1 [0x61, 0x62, 0x63]) @ [CHR 0x0A])"
proof -
  have "pieces [0x61, 0x62, 0x63] = [[0x61, 0x62, 0x63]]"
    by (simp add: pieces.simps BT_CHUNK_SIZE_def)
  moreover have "show_nat 0 = ''0''" by code_simp
  ultimately show ?thesis
    using make_chunks_correct [of "\<lparr>totalLength = 0, hash = [], bufferLength = 0, buffer = replicate 64 0\<rparr>" 2
      "[0x61, 0x62, 0x63]"] by (simp add: chunk_line_def numeral_3_eq_3 BT_CHUNK_SIZE_def)
qed

end
