(* ===== verification/Bt_Packet.thy ===== *)
theory Bt_Packet
  imports Chunk
begin

section \<open>Packets of the file-sharing client (project2 job.c, processor.c)\<close>

text \<open>
  The header and payload of a packet, the conversion between host and network byte order, the
  construction of a packet and its image in memory, which is what goes over the wire. The machine
  is little-endian and the structure has no padding.
\<close>

definition PACKET_LEN :: nat where "PACKET_LEN = 1500"
definition HEADER_LEN :: nat where "HEADER_LEN = 16"
definition DATA_LEN :: nat where "DATA_LEN = PACKET_LEN - HEADER_LEN"
definition BUF_SIZE :: nat where "BUF_SIZE = 60"
definition MAX_CHUNK :: nat where "MAX_CHUNK = 74"
definition PKT_WHOHAS :: u8 where "PKT_WHOHAS = 0"

record header_t =
  magic_num :: u16
  version :: u8
  ptype :: u8
  header_len :: u16
  packet_len :: u16
  seq_num :: u32
  ack_num :: u32

record packet_t =
  header :: header_t
  pdata :: "u8 list"

text \<open>\<open>htons\<close> and \<open>htonl\<close> reverse the bytes of a word; \<open>ntohs\<close> and \<open>ntohl\<close> do the same.\<close>

definition htons :: "u16 \<Rightarrow> u16" where
  "htons w = word_of_le (rev (bytes_of_word True 2 w))"

definition htonl :: "u32 \<Rightarrow> u32" where
  "htonl w = word_of_le (rev (bytes_of_word True 4 w))"

definition swap_header :: "header_t \<Rightarrow> header_t" where
  "swap_header h = h\<lparr>magic_num := htons (magic_num h), header_len := htons (header_len h),
     packet_len := htons (packet_len h), seq_num := htonl (seq_num h), ack_num := htonl (ack_num h)\<rparr>"

definition netToHost :: "packet_t \<Rightarrow> packet_t" where
  "netToHost pkt = pkt\<lparr>header := swap_header (header pkt)\<rparr>"

definition hostToNet :: "packet_t \<Rightarrow> packet_t" where
  "hostToNet pkt = pkt\<lparr>header := swap_header (header pkt)\<rparr>"

text \<open>\<open>mem\<close> is the payload area of the block \<open>malloc\<close> returns, \<open>None\<close> when it fails. A copy longer than the
  payload, or of a negative length, is undefined.\<close>

definition init_packet :: "u8 list option \<Rightarrow> u8 \<Rightarrow> u16 \<Rightarrow> u32 \<Rightarrow> u32 \<Rightarrow> u8 list \<Rightarrow> packet_t option result" where
  "init_packet mem typ plen seqn ackn buf =
     (case mem of None \<Rightarrow> Inr None
      | Some g \<Rightarrow>
          let k = sint plen - int HEADER_LEN in
          if k < 0 \<or> k > int DATA_LEN \<or> k > int (length buf) then Inl Undefined
          else Inr (Some \<lparr>header = \<lparr>magic_num = 15441, version = 1, ptype = typ,
              header_len = word_of_nat HEADER_LEN, packet_len = plen, seq_num = seqn, ack_num = ackn\<rparr>,
            pdata = take (nat k) buf @ drop (nat k) g\<rparr>))"

text \<open>The memory image of a packet, and a packet read from memory.\<close>

definition packet_bytes :: "packet_t \<Rightarrow> u8 list" where
  "packet_bytes pkt = (let h = header pkt in
     bytes_of_word True 2 (magic_num h) @ [version h, ptype h] @ bytes_of_word True 2 (header_len h)
     @ bytes_of_word True 2 (packet_len h) @ bytes_of_word True 4 (seq_num h)
     @ bytes_of_word True 4 (ack_num h) @ pdata pkt)"

definition packet_at :: "u8 list \<Rightarrow> packet_t" where
  "packet_at m = \<lparr>header = \<lparr>magic_num = word_of_le (take 2 m), version = m ! 2, ptype = m ! 3,
       header_len = word_of_le (take 2 (drop 4 m)), packet_len = word_of_le (take 2 (drop 6 m)),
       seq_num = word_of_le (take 4 (drop 8 m)), ack_num = word_of_le (take 4 (drop 12 m))\<rparr>,
     pdata = take DATA_LEN (drop 16 m)\<rparr>"

definition parse_request :: "u8 list \<Rightarrow> packet_t" where
  "parse_request m = netToHost (packet_at m)"

text \<open>\<open>send_packet\<close> converts the packet, passes its memory to \<open>spiffy_sendto\<close> with the \<open>packet_len\<close> of the converted
  header, a signed short, as length, and converts it back. A length beyond the memory of the packet is undefined.
  A negative one becomes a huge \<open>size_t\<close>, for which \<open>malloc\<close> and \<open>sendto\<close> fail, and nothing is sent; from -16 on
  the sum with the size of the header in \<open>spiffy_sendto\<close> wraps, and the copy that follows is undefined. The result
  is the packet afterwards and the bytes that are sent, if any.\<close>

definition send_packet :: "packet_t \<Rightarrow> (packet_t \<times> u8 list option) result" where
  "send_packet pkt =
     (let net = hostToNet pkt; m = packet_bytes net; len = sint (packet_len (header net)) in
      if len < -16 then Inr (netToHost net, None)
      else if len < 0 \<or> len > int (length m) then Inl Undefined
      else Inr (netToHost net, Some (take (nat len) m)))"

text \<open>\<open>process_message\<close> checks the header and never replies.\<close>

definition process_message :: "packet_t option \<Rightarrow> string \<times> packet_t option" where
  "process_message request =
     (case request of None \<Rightarrow> (''process message request is NULL'', None)
      | Some r \<Rightarrow>
          if magic_num (header r) \<noteq> 15441 \<or> version (header r) \<noteq> 1
          then (''process message request is invalid'', None)
          else (''process message type is '' @ show_int (sint (ptype (header r))), None))"

subsection \<open>Byte order\<close>

lemma u16_bytes: "bytes_of_word True 2 (w :: u16) = [ucast w, ucast (drop_bit 8 w)]"
  by (simp add: bytes_of_word_def upt_rec)

lemma u32_bytes: "bytes_of_word True 4 (w :: u32)
    = [ucast w, ucast (drop_bit 8 w), ucast (drop_bit 16 w), ucast (drop_bit 24 w)]"
  by (simp add: bytes_of_word_def upt4)

lemma u16_le: "word_of_le [ucast w, ucast (drop_bit 8 w)] = (w :: u16)"
  by (rule bit_word_eqI) (auto simp: bit_simps not_less)

lemma u32_le: "word_of_le [ucast w, ucast (drop_bit 8 w), ucast (drop_bit 16 w), ucast (drop_bit 24 w)] = (w :: u32)"
  by (rule bits32_eqI; simp add: upt_rec; simp add: bit_simps; simp add: numeral_eq_Suc)


lemma le_u16: "(ucast (word_of_le [a, b] :: u16) :: u8) = a" "(ucast (drop_bit 8 (word_of_le [a, b] :: u16)) :: u8) = b"
  by (rule bits8_eqI; simp add: upt_rec; simp add: bit_simps; simp add: numeral_eq_Suc)+

lemma le_u32:
  "(ucast (word_of_le [a, b, c, d] :: u32) :: u8) = a" "(ucast (drop_bit 8 (word_of_le [a, b, c, d] :: u32)) :: u8) = b"
  "(ucast (drop_bit 16 (word_of_le [a, b, c, d] :: u32)) :: u8) = c" "(ucast (drop_bit 24 (word_of_le [a, b, c, d] :: u32)) :: u8) = d"
  by (rule bits8_eqI; simp add: upt_rec; simp add: bit_simps; simp add: numeral_eq_Suc)+

lemma htons_twice [simp]: "htons (htons w) = w"
  by (simp add: htons_def u16_bytes le_u16 u16_le del: word_of_le.simps)

lemma htonl_twice [simp]: "htonl (htonl w) = w"
  by (simp add: htonl_def u32_bytes le_u32 u32_le del: word_of_le.simps)

lemma swap_header_twice [simp]: "swap_header (swap_header h) = h"
  by (cases h) (simp add: swap_header_def)

lemma net_host [simp]: "netToHost (hostToNet pkt) = pkt" "hostToNet (netToHost pkt) = pkt"
  by (simp_all add: netToHost_def hostToNet_def)

lemma packet_at_bytes:
  assumes "length (pdata pkt) = DATA_LEN"
  shows "packet_at (packet_bytes pkt) = pkt"
proof -
  obtain h d where p: "pkt = \<lparr>header = h, pdata = d\<rparr>" by (cases pkt)
  obtain mn ve ty hl pl sq ak where h: "h = \<lparr>magic_num = mn, version = ve, ptype = ty, header_len = hl,
      packet_len = pl, seq_num = sq, ack_num = ak\<rparr>" by (cases h)
  show ?thesis
    using assms
    by (simp add: p h packet_at_def packet_bytes_def u16_bytes u32_bytes u16_le u32_le
        del: word_of_le.simps)
qed

lemma packet_wire:
  assumes "length (pdata pkt) = DATA_LEN"
  shows "parse_request (packet_bytes (hostToNet pkt)) = pkt"
proof -
  have "length (pdata (hostToNet pkt)) = DATA_LEN" using assms by (simp add: hostToNet_def)
  then show ?thesis by (simp add: parse_request_def packet_at_bytes)
qed

lemma length_packet_bytes: "length (packet_bytes pkt) = 16 + length (pdata pkt)"
  by (simp add: packet_bytes_def Let_def u16_bytes u32_bytes)

text \<open>Byte order: the whole memory of a packet in network byte order, read by \<open>parse_request\<close>, is the packet
  again.\<close>

theorem packet_roundtrip:
  assumes "length (pdata pkt) = DATA_LEN"
  shows "parse_request (packet_bytes (hostToNet pkt)) = pkt \<and> netToHost (hostToNet pkt) = pkt"
  using packet_wire [OF assms] by simp

theorem packet_roundtrip_witness:
  "parse_request (packet_bytes (hostToNet \<lparr>header = \<lparr>magic_num = 15441, version = 1, ptype = 0, header_len = 16,
       packet_len = 40, seq_num = 0x01020304, ack_num = 5\<rparr>, pdata = replicate DATA_LEN 7\<rparr>))
   = \<lparr>header = \<lparr>magic_num = 15441, version = 1, ptype = 0, header_len = 16,
       packet_len = 40, seq_num = 0x01020304, ack_num = 5\<rparr>, pdata = replicate DATA_LEN 7\<rparr>"
  using packet_roundtrip [of "\<lparr>header = \<lparr>magic_num = 15441, version = 1, ptype = 0, header_len = 16,
       packet_len = 40, seq_num = 0x01020304, ack_num = 5\<rparr>, pdata = replicate DATA_LEN 7\<rparr>"] by simp

text \<open>The length \<open>send_packet\<close> passes on is the byte-swapped one. A WHOHAS packet with 1 to 74 hashes is never
  sent as it is: with 12 hashes 1025 bytes go out instead of 260, with 63 hashes 5 bytes instead of 1280, and for
  every other number nothing is sent or the call is undefined.\<close>

theorem send_packet_length:
  assumes "packet_len (header pkt) = word_of_nat (20 + 20 * k)" and "1 \<le> k" and "k \<le> 74"
    and "length (pdata pkt) = DATA_LEN"
  shows "case send_packet pkt of Inl e \<Rightarrow> e = Undefined
    | Inr (p, d) \<Rightarrow> p = pkt \<and> d = (if k = 12 then Some (take 1025 (packet_bytes (hostToNet pkt)))
        else if k = 63 then Some (take 5 (packet_bytes (hostToNet pkt))) else None)"
proof -
  let ?l = "\<lambda>k. sint (htons (word_of_nat (20 + 20 * k)))"
  let ?P = "\<lambda>k. if k = 12 then ?l k = 1025 else if k = 63 then ?l k = 5 else ?l k < 0 \<or> ?l k > 1500"
  have "\<forall>k \<in> set [1..<75]. ?P k" by code_simp
  moreover have "k \<in> set [1..<75]" using assms(2,3) by simp
  ultimately have "?P k" by (rule bspec)
  moreover have "length (packet_bytes (hostToNet pkt)) = 1500"
    using assms(4) by (simp add: length_packet_bytes hostToNet_def DATA_LEN_def PACKET_LEN_def HEADER_LEN_def)
  moreover have "sint (packet_len (header (hostToNet pkt))) = ?l k"
    using assms(1) by (simp add: hostToNet_def swap_header_def)
  ultimately show ?thesis by (auto simp: send_packet_def Let_def split: if_splits)
qed

theorem send_packet_length_witness:
  "send_packet \<lparr>header = \<lparr>magic_num = 15441, version = 1, ptype = 0, header_len = 16,
     packet_len = 40, seq_num = 0, ack_num = 0\<rparr>, pdata = replicate DATA_LEN 7\<rparr> = Inl Undefined"
proof -
  let ?p = "\<lparr>header = \<lparr>magic_num = 15441, version = 1, ptype = 0, header_len = 16,
     packet_len = 40, seq_num = 0, ack_num = 0\<rparr>, pdata = replicate DATA_LEN 7\<rparr>"
  have "sint (htons 40) = 10240" by code_simp
  then have "\<forall>r. send_packet ?p \<noteq> Inr r"
    by (auto simp: send_packet_def Let_def hostToNet_def swap_header_def length_packet_bytes DATA_LEN_def
        PACKET_LEN_def HEADER_LEN_def)
  then show ?thesis using send_packet_length [of ?p 1] by (auto split: sum.splits)
qed

end
