(* ===== verification/Stdio.thy ===== *)
theory Stdio
  imports Cstr
begin

section \<open>Lines and words of C input\<close>

text \<open>
  The functions of \<open>stdio.h\<close> the network programs read text with: \<open>fgets\<close>, the conversion \<open>%s\<close> of
  \<open>sscanf\<close>, and the string in a character array. The lemmas say what is read back from a text of lines
  and from a word between blanks.
\<close>

abbreviation NL :: char where "NL \<equiv> CHR 0x0A"
abbreviation NUL :: char where "NUL \<equiv> CHR 0x00"

text \<open>The characters of an array before the first NUL.\<close>

definition cstr :: "string \<Rightarrow> string" where
  "cstr b = takeWhile (\<lambda>c. c \<noteq> CHR 0x00) b"

lemma cstr_append: "CHR 0x00 \<notin> set l \<Longrightarrow> cstr (l @ r) = l @ cstr r"
  by (induction l) (auto simp: cstr_def)

lemma cstr_NUL [simp]: "cstr (CHR 0x00 # r) = []"
  by (simp add: cstr_def)

subsection \<open>Lines of a file\<close>

definition line_of :: "string \<Rightarrow> string" where
  "line_of s = (case strchr s (CHR 0x0A) of None \<Rightarrow> s | Some i \<Rightarrow> take (Suc i) s)"

text \<open>\<open>fgets\<close> with a buffer of \<open>cap\<close> characters.\<close>

definition fgets :: "nat \<Rightarrow> string \<Rightarrow> (string \<times> string) option" where
  "fgets cap s = (if s = [] then None else let l = take (cap - 1) (line_of s) in Some (l, drop (length l) s))"

function fgets_all :: "nat \<Rightarrow> string \<Rightarrow> string list" where
  "fgets_all cap s = (if cap < 2 then [] else
     case fgets cap s of None \<Rightarrow> [] | Some (l, r) \<Rightarrow> l # fgets_all cap r)"
  by pat_completeness auto

lemma line_of_Nil [simp]: "line_of s = [] \<longleftrightarrow> s = []"
  using strchr_Some(1) by (auto simp: line_of_def split: option.splits)

lemma fgets_shorter: "fgets cap s = Some (l, r) \<Longrightarrow> 2 \<le> cap \<Longrightarrow> length r < length s"
  by (cases s) (auto simp: fgets_def Let_def split: if_splits)

termination fgets_all
  by (relation "measure (\<lambda>(cap, s). length s)") (auto dest: fgets_shorter)

declare fgets_all.simps [simp del]

text \<open>The conversion \<open>%s\<close>.\<close>

definition scan_str :: "string \<Rightarrow> (string \<times> string) option" where
  "scan_str s = (let t = dropWhile isspace s; w = takeWhile (\<lambda>c. \<not> isspace c) t in
     if w = [] then None else Some (w, dropWhile (\<lambda>c. \<not> isspace c) t))"

subsection \<open>Lines read back\<close>

lemma line_of_line:
  assumes "CHR 0x0A \<notin> set l"
  shows "line_of (l @ CHR 0x0A # r) = l @ [CHR 0x0A]"
proof -
  have "takeWhile (\<lambda>x. x \<noteq> CHR 0x0A) (l @ CHR 0x0A # r) = l"
    using assms by (subst takeWhile_append2) auto
  then show ?thesis by (simp add: line_of_def strchr_def)
qed

lemma fgets_line:
  assumes "CHR 0x0A \<notin> set l" and "length l + 1 < cap"
  shows "fgets cap (l @ CHR 0x0A # r) = Some (l @ [CHR 0x0A], r)"
proof -
  have "take (cap - 1) (l @ [CHR 0x0A]) = l @ [CHR 0x0A]" using assms(2) by simp
  then show ?thesis using line_of_line [OF assms(1)] by (simp add: fgets_def)
qed

lemma fgets_all_lines:
  assumes "\<And>l. l \<in> set ls \<Longrightarrow> CHR 0x0A \<notin> set l \<and> length l + 1 < cap" and "2 \<le> cap"
  shows "fgets_all cap (concat (map (\<lambda>l. l @ [CHR 0x0A]) ls)) = map (\<lambda>l. l @ [CHR 0x0A]) ls"
  using assms(1)
proof (induction ls)
  case Nil
  then show ?case using assms(2) by (simp add: fgets_all.simps fgets_def)
next
  case (Cons l ls)
  then show ?case using assms(2) fgets_line [of l cap] by (subst fgets_all.simps) auto
qed

lemma scan_str_word:
  assumes "w \<noteq> []" and "\<And>c. c \<in> set w \<Longrightarrow> \<not> isspace c" and "isspace c"
  shows "scan_str (CHR '' '' # w @ c # r) = Some (w, c # r)"
proof -
  have sp: "isspace (CHR '' '')" by (simp add: isspace_def)
  have d: "dropWhile isspace (w @ c # r) = w @ c # r" using assms(1,2) by (cases w) auto
  have "takeWhile (\<lambda>c. \<not> isspace c) (w @ c # r) = w" "dropWhile (\<lambda>c. \<not> isspace c) (w @ c # r) = c # r"
    using assms(2,3) by (simp_all add: takeWhile_append2 dropWhile_append2)
  with assms(1) show ?thesis by (simp add: scan_str_def sp d Let_def)
qed


end
