(* ===== verification/Bt_Parse.thy ===== *)
theory Bt_Parse
  imports Bt_Packet Stdio
begin

section \<open>Configuration of the file-sharing client (project2 bt_parse.c)\<close>

text \<open>
  The defaults, the command line and the list of peers. The options are the sequence
  \<open>getopt\<close> returns, each with its argument; name resolution and the contents of files are functions.
  \<open>id\<close> and \<open>identity\<close> are shorts, and the locals of \<open>bt_parse_peer_list\<close> that \<open>sscanf\<close> may leave
  unset keep their value from line to line; using one that was never set is undefined.
\<close>

subsection \<open>The configuration\<close>

definition BT_FILENAME_LEN :: nat where "BT_FILENAME_LEN = 255"

definition to_short :: "int \<Rightarrow> int" where
  "to_short x = sint (word_of_int x :: u16)"

record bt_peer_t =
  peer_id :: int
  sin_addr :: u32
  sin_port :: u16

record bt_config_t =
  chunk_file :: string
  has_chunk_file :: string
  output_file :: string
  peer_list_file :: string
  max_conn :: int
  identity :: int
  myport :: u16
  debug_mask :: u32
  peers :: "bt_peer_t list"

definition bt_init :: bt_config_t where
  "bt_init = \<lparr>chunk_file = [], has_chunk_file = [], output_file = ''output.dat'',
     peer_list_file = ''nodes.map'', max_conn = 0, identity = 0, myport = 0,
     debug_mask = 0, peers = []\<rparr>"

definition bt_peer_info :: "bt_config_t \<Rightarrow> int \<Rightarrow> bt_peer_t option" where
  "bt_peer_info config i = List.find (\<lambda>p. peer_id p = i) (peers config)"

subsection \<open>The peer list\<close>

record peer_locals =
  nodeid :: "int option"
  hostname :: "string option"
  port :: "int option"

text \<open>\<open>sscanf(line, "%d %s %d", ...)\<close>: the number of conversions, or -1 at the end of the input.\<close>

definition scan_peer :: "string \<Rightarrow> peer_locals \<Rightarrow> int \<times> peer_locals" where
  "scan_peer line v =
     (case scan_int line of
        None \<Rightarrow> (if dropWhile isspace line = [] then -1 else 0, v)
      | Some (i, r) \<Rightarrow>
          let v1 = v\<lparr>nodeid := Some i\<rparr> in
          case scan_str r of
            None \<Rightarrow> (1, v1)
          | Some (h, r1) \<Rightarrow>
              let v2 = v1\<lparr>hostname := Some h\<rparr> in
              case scan_int r1 of None \<Rightarrow> (2, v2) | Some (p, _) \<Rightarrow> (3, v2\<lparr>port := Some p\<rparr>))"

fun peer_loop :: "(string \<Rightarrow> u32 option) \<Rightarrow> string list \<Rightarrow> peer_locals \<Rightarrow> bt_config_t \<Rightarrow> bt_config_t result" where
  "peer_loop resolve [] v config = Inr config"
| "peer_loop resolve (line # ls) v config =
     (if line \<noteq> [] \<and> hd line = CHR ''#'' then peer_loop resolve ls v config
      else let (k, v1) = scan_peer line v in
        if k = 0 then Inl Assert_fails
        else case (nodeid v1, hostname v1, port v1) of
          (Some i, Some h, Some p) \<Rightarrow>
            (case resolve h of
               None \<Rightarrow> Inl Assert_fails
             | Some a \<Rightarrow> peer_loop resolve ls v1 (config\<lparr>peers :=
                 \<lparr>peer_id = to_short i, sin_addr = a, sin_port = htons (word_of_int p)\<rparr> # peers config\<rparr>))
        | _ \<Rightarrow> Inl Undefined)"

definition bt_parse_peer_list ::
  "(string \<Rightarrow> u32 option) \<Rightarrow> (string \<Rightarrow> string option) \<Rightarrow> bt_config_t \<Rightarrow> bt_config_t result" where
  "bt_parse_peer_list resolve files config =
     (case files (peer_list_file config) of
        None \<Rightarrow> Inl Assert_fails
      | Some f \<Rightarrow> peer_loop resolve (fgets_all BT_FILENAME_LEN f)
          \<lparr>nodeid = None, hostname = None, port = None\<rparr> config)"

subsection \<open>The command line\<close>

text \<open>\<open>set_debug\<close> of debug.c: its result and the new value of the global \<open>debug\<close>, which is kept in the
  configuration here.\<close>

definition set_debug :: "string \<Rightarrow> u32 \<Rightarrow> int \<times> u32" where
  "set_debug arg debug =
     (if arg = [] then (-1, debug)
      else if hd arg = CHR ''?'' \<or> arg = ''list'' then (-1, debug)
      else if isdigit (hd arg) then (0, debug OR word_of_int (atoi arg))
      else (0, debug))"

text \<open>A file name longer than its field is undefined.\<close>

definition parse_opt :: "char \<times> string \<Rightarrow> bt_config_t \<Rightarrow> bt_config_t result" where
  "parse_opt opt config =
     (let (c, arg) = opt in
      if c = CHR ''h'' then Inl (Exits 0)
      else if c = CHR ''d'' then
        (let (r, m) = set_debug arg (debug_mask config) in
         if r = -1 then Inl (Exits (-1)) else Inr (config\<lparr>debug_mask := m\<rparr>))
      else if c = CHR ''m'' then Inr (config\<lparr>max_conn := atoi arg\<rparr>)
      else if c = CHR ''i'' then Inr (config\<lparr>identity := to_short (atoi arg)\<rparr>)
      else if c = CHR ''p'' \<or> c = CHR ''c'' \<or> c = CHR ''f'' then
        if length arg \<ge> BT_FILENAME_LEN then Inl Undefined
        else if c = CHR ''p'' then Inr (config\<lparr>peer_list_file := arg\<rparr>)
        else if c = CHR ''c'' then Inr (config\<lparr>has_chunk_file := arg\<rparr>)
        else Inr (config\<lparr>chunk_file := arg\<rparr>)
      else Inl (Exits (-1)))"

fun parse_opts :: "(char \<times> string) list \<Rightarrow> bt_config_t \<Rightarrow> bt_config_t result" where
  "parse_opts [] config = Inr config"
| "parse_opts (opt # opts) config = and_then (parse_opt opt config) (parse_opts opts)"

definition bt_parse_command_line :: "(string \<Rightarrow> u32 option) \<Rightarrow> (string \<Rightarrow> string option)
    \<Rightarrow> (char \<times> string) list \<Rightarrow> bt_config_t \<Rightarrow> bt_config_t result" where
  "bt_parse_command_line resolve files opts config =
     and_then (parse_opts opts config) (\<lambda>c1.
     and_then (bt_parse_peer_list resolve files c1) (\<lambda>c2.
       if identity c2 = 0 then Inl (Exits (-1))
       else case bt_peer_info c2 (identity c2) of
         None \<Rightarrow> Inl (Exits (-1))
       | Some p \<Rightarrow>
           if chunk_file c2 = [] \<or> has_chunk_file c2 = [] then Inl Assert_fails
           else Inr (c2\<lparr>myport := htons (sin_port p)\<rparr>)))"

subsection \<open>Properties\<close>

text \<open>The line of a peer file for one peer.\<close>

definition peer_line :: "int \<times> string \<times> int \<Rightarrow> string" where
  "peer_line e = (case e of (i, h, p) \<Rightarrow> show_int i @ '' '' @ h @ '' '' @ show_int p)"

definition peer_entry :: "(string \<Rightarrow> u32 option) \<Rightarrow> int \<times> string \<times> int \<Rightarrow> bt_peer_t" where
  "peer_entry resolve e = (case e of (i, h, p) \<Rightarrow>
     \<lparr>peer_id = to_short i, sin_addr = the (resolve h), sin_port = htons (word_of_int p)\<rparr>)"

definition entry_ok :: "(string \<Rightarrow> u32 option) \<Rightarrow> int \<times> string \<times> int \<Rightarrow> bool" where
  "entry_ok resolve e \<longleftrightarrow> (case e of (i, h, p) \<Rightarrow> h \<noteq> [] \<and> list_all (\<lambda>c. \<not> isspace c) h
     \<and> resolve h \<noteq> None \<and> length (peer_line e) + 1 < BT_FILENAME_LEN)"

definition peer_file :: "(int \<times> string \<times> int) list \<Rightarrow> string" where
  "peer_file es = concat (map (\<lambda>l. l @ [CHR 0x0A]) (map peer_line es))"

lemma show_int_plain: "c \<in> set (show_int k) \<Longrightarrow> \<not> isspace c \<and> c \<noteq> CHR 0x0A \<and> c \<noteq> CHR ''#''"
  using show_nat_digits [of c]
  by (auto simp: show_int_def isspace_def isdigit_def split: if_splits)

lemma scan_peer_line:
  assumes "h \<noteq> []" and "list_all (\<lambda>c. \<not> isspace c) h"
  shows "scan_peer (peer_line (i, h, p) @ [CHR 0x0A]) v = (3, \<lparr>nodeid = Some i, hostname = Some h, port = Some p\<rparr>)"
proof -
  have sp: "isspace (CHR '' '')" by (simp add: isspace_def)
  have nd: "\<not> isdigit (CHR '' '')" "\<not> isdigit (CHR 0x0A)" by (simp_all add: isdigit_def)
  have 1: "scan_int (show_int i @ '' '' @ h @ '' '' @ show_int p @ [CHR 0x0A])
      = Some (i, '' '' @ h @ '' '' @ show_int p @ [CHR 0x0A])"
    by (rule scan_show_int) (simp add: nd)
  have 2: "scan_str (CHR '' '' # h @ CHR '' '' # show_int p @ [CHR 0x0A]) = Some (h, CHR '' '' # show_int p @ [CHR 0x0A])"
    using assms sp by (intro scan_str_word) (auto simp: list_all_iff)
  have 3: "scan_int (CHR '' '' # show_int p @ [CHR 0x0A]) = Some (p, [CHR 0x0A])"
    using scan_show_int [of "[CHR 0x0A]" p] by (simp add: scan_int_space sp nd)
  show ?thesis using 1 2 3 by (cases v) (simp add: scan_peer_def peer_line_def)
qed

lemma show_int_Nil [simp]: "show_int k \<noteq> []"
  by (simp add: show_int_def)

lemma peer_loop_entries:
  assumes "\<And>e. e \<in> set es \<Longrightarrow> entry_ok resolve e"
  shows "peer_loop resolve (map (\<lambda>l. l @ [CHR 0x0A]) (map peer_line es) @ ls) v config
    = peer_loop resolve ls (if es = [] then v else case last es of (i, h, p) \<Rightarrow>
        \<lparr>nodeid = Some i, hostname = Some h, port = Some p\<rparr>)
      (config\<lparr>peers := rev (map (peer_entry resolve) es) @ peers config\<rparr>)"
  using assms
proof (induction es arbitrary: v config)
  case (Cons e es)
  obtain i h p where e: "e = (i, h, p)" by (metis surj_pair)
  have h: "h \<noteq> []" "list_all (\<lambda>c. \<not> isspace c) h" and r: "resolve h \<noteq> None"
    using Cons.prems [of e] by (auto simp: entry_ok_def e)
  then obtain a where a: "resolve h = Some a" by auto
  have "peer_line e \<noteq> []" "hd (peer_line e) \<noteq> CHR ''#''"
    using show_int_plain [of "hd (show_int i)" i] by (auto simp: peer_line_def e)
  then have "peer_loop resolve ((peer_line e @ [CHR 0x0A]) # map (\<lambda>l. l @ [CHR 0x0A]) (map peer_line es) @ ls) v config
      = peer_loop resolve (map (\<lambda>l. l @ [CHR 0x0A]) (map peer_line es) @ ls)
          \<lparr>nodeid = Some i, hostname = Some h, port = Some p\<rparr>
          (config\<lparr>peers := peer_entry resolve e # peers config\<rparr>)"
    using scan_peer_line [OF h, of i p v] a by (simp add: e peer_entry_def)
  moreover have "\<And>e. e \<in> set es \<Longrightarrow> entry_ok resolve e" using Cons.prems by simp
  note Cons.IH [OF this, of "\<lparr>nodeid = Some i, hostname = Some h, port = Some p\<rparr>"
    "config\<lparr>peers := peer_entry resolve e # peers config\<rparr>"]
  ultimately show ?case by (simp add: e del: peer_loop.simps)
qed simp

lemma entry_line:
  assumes "entry_ok resolve e"
  shows "CHR 0x0A \<notin> set (peer_line e) \<and> length (peer_line e) + 1 < BT_FILENAME_LEN"
proof -
  obtain i h p where e: "e = (i, h, p)" by (metis surj_pair)
  have "isspace (CHR 0x0A)" by (simp add: isspace_def)
  then have "CHR 0x0A \<notin> set h" using assms by (auto simp: entry_ok_def e list_all_iff)
  moreover have "CHR 0x0A \<notin> set (show_int i)" "CHR 0x0A \<notin> set (show_int p)" using show_int_plain by auto
  ultimately show ?thesis using assms by (auto simp: entry_ok_def e peer_line_def)
qed

text \<open>The list of peers: a file of lines with a number, a resolvable host name and a port is read
  into exactly these peers, in reverse order, with the number as a short and the port in network
  byte order; a blank line at the end of a non-empty file adds the last peer a second time.\<close>

theorem peer_list_read:
  assumes "\<forall>e \<in> set es. entry_ok resolve e"
  shows "(files (peer_list_file config) = Some (peer_file es) \<longrightarrow>
      bt_parse_peer_list resolve files config
        = Inr (config\<lparr>peers := rev (map (peer_entry resolve) es) @ peers config\<rparr>))
    \<and> (files (peer_list_file config) = Some (peer_file es @ [CHR 0x0A]) \<and> es \<noteq> [] \<longrightarrow>
      bt_parse_peer_list resolve files config
        = Inr (config\<lparr>peers := peer_entry resolve (last es) # rev (map (peer_entry resolve) es) @ peers config\<rparr>))"
proof -
  let ?nl = "\<lambda>l. l @ [CHR 0x0A]"
  let ?v = "\<lparr>nodeid = None, hostname = None, port = None\<rparr>"
  have es: "\<And>e. e \<in> set es \<Longrightarrow> entry_ok resolve e" using assms by blast
  have len: "2 \<le> BT_FILENAME_LEN" by (simp add: BT_FILENAME_LEN_def)
  have ln: "CHR 0x0A \<notin> set l \<and> length l + 1 < BT_FILENAME_LEN" if "l \<in> set (map peer_line es)" for l
    using that es entry_line by (force simp: image_iff)
  have f1: "fgets_all BT_FILENAME_LEN (peer_file es) = map ?nl (map peer_line es)"
    unfolding peer_file_def using ln len by (rule fgets_all_lines)
  have "fgets_all BT_FILENAME_LEN (concat (map ?nl (map peer_line es @ [[]]))) = map ?nl (map peer_line es @ [[]])"
  proof (rule fgets_all_lines [OF _ len])
    fix l
    assume "l \<in> set (map peer_line es @ [[]])"
    then show "CHR 0x0A \<notin> set l \<and> length l + 1 < BT_FILENAME_LEN"
      using ln [of l] len by (cases "l = []") auto
  qed
  then have f2: "fgets_all BT_FILENAME_LEN (peer_file es @ [CHR 0x0A]) = map ?nl (map peer_line es) @ [[CHR 0x0A]]"
    by (simp add: peer_file_def)
  have blank: "peer_loop resolve [[CHR 0x0A]] \<lparr>nodeid = Some i, hostname = Some h, port = Some p\<rparr> c
      = Inr (c\<lparr>peers := peer_entry resolve (i, h, p) # peers c\<rparr>)" if "resolve h \<noteq> None" for i h p c
    using that by (auto simp: scan_peer_def scan_int_def split_sign_def isspace_def peer_entry_def)
  have "peer_loop resolve (map ?nl (map peer_line es) @ [[CHR 0x0A]]) ?v config
      = Inr (config\<lparr>peers := peer_entry resolve (last es) # rev (map (peer_entry resolve) es) @ peers config\<rparr>)"
    if "es \<noteq> []"
  proof -
    obtain i h p where l: "last es = (i, h, p)" by (metis surj_pair)
    then have "resolve h \<noteq> None" using es [of "last es"] last_in_set [OF that] by (simp add: entry_ok_def)
    note b = blank [OF this, of i p "config\<lparr>peers := rev (map (peer_entry resolve) es) @ peers config\<rparr>"]
    show ?thesis
      using peer_loop_entries [where ls = "[[CHR 0x0A]]" and es = es and v = ?v and config = config, OF es] that
      by (simp add: l b del: peer_loop.simps)
  qed
  moreover have "peer_loop resolve (map ?nl (map peer_line es)) ?v config
      = Inr (config\<lparr>peers := rev (map (peer_entry resolve) es) @ peers config\<rparr>)"
    using peer_loop_entries [where ls = "[]" and es = es, OF es] by simp
  ultimately show ?thesis by (simp add: bt_parse_peer_list_def f1 f2 del: peer_loop.simps)
qed

theorem peer_list_read_witness:
  "bt_parse_peer_list (\<lambda>h. Some 0x7f000001) (\<lambda>f. Some (peer_file [(1, ''localhost'', 80)])) bt_init
     = Inr (bt_init\<lparr>peers := [\<lparr>peer_id = 1, sin_addr = 0x7f000001, sin_port = htons 80\<rparr>]\<rparr>)"
proof -
  have "entry_ok (\<lambda>h. Some 0x7f000001) (1, ''localhost'', 80)" by code_simp
  with peer_list_read [of "[(1, ''localhost'', 80)]" "\<lambda>h. Some 0x7f000001"
    "\<lambda>f. Some (peer_file [(1, ''localhost'', 80)])" bt_init]
  show ?thesis by (simp add: peer_entry_def to_short_def bt_init_def)
qed

end
