(* ===== verification/Queue.thy ===== *)
theory Queue
  imports Prelude
begin

section \<open>The packet queue (project2 queue.c)\<close>

text \<open>
  A linked list with a head and a tail pointer. The nodes of a queue live in a store from
  addresses to nodes; address 0 is \<open>NULL\<close>. The address \<open>malloc\<close> returns is an argument, \<open>free\<close>
  removes the node from the store, and reading or writing an address that is not in the store is
  the fault \<open>Undefined\<close>. The data of a node is a pointer: \<open>None\<close> is \<open>NULL\<close>. The counter \<open>qn\<close> is an unbounded
  integer; that the code's \<open>int n\<close> overflows in a queue of \<open>2 ^ 31\<close> packets is not modelled.
\<close>

record 'a node_t =
  ndata :: "'a option"
  nxt :: addr

record queue_t =
  qhead :: addr
  qtail :: addr
  qn :: int

type_synonym 'a store = "addr \<Rightarrow> 'a node_t option"
type_synonym 'a queue = "'a store \<times> queue_t"

definition queue_init :: "'a queue" where
  "queue_init = (Map.empty, \<lparr>qhead = 0, qtail = 0, qn = 0\<rparr>)"

definition enqueue :: "'a queue \<Rightarrow> 'a option \<Rightarrow> addr \<Rightarrow> 'a queue result" where
  "enqueue hq x p =
     (let (h, q) = hq in
      if p = 0 then Inl Undefined
      else
        let h1 = h(p \<mapsto> \<lparr>ndata = x, nxt = 0\<rparr>) in
        if qtail q = 0 then Inr (h1, q\<lparr>qhead := p, qtail := p, qn := qn q + 1\<rparr>)
        else case h1 (qtail q) of
          None \<Rightarrow> Inl Undefined
        | Some t \<Rightarrow> Inr (h1(qtail q \<mapsto> t\<lparr>nxt := p\<rparr>), q\<lparr>qtail := p, qn := qn q + 1\<rparr>))"

definition dequeue :: "'a queue \<Rightarrow> ('a queue \<times> 'a option) result" where
  "dequeue hq =
     (let (h, q) = hq in
      if qn q = 0 then Inr (hq, None)
      else if qhead q = 0 then Inl Assert_fails
      else case h (qhead q) of
        None \<Rightarrow> Inl Undefined
      | Some node \<Rightarrow>
          let q1 = q\<lparr>qhead := nxt node\<rparr>;
              q2 = (if qhead q1 = 0 then q1\<lparr>qtail := 0\<rparr> else q1)
          in Inr ((h(qhead q := None), q2\<lparr>qn := qn q2 - 1\<rparr>), ndata node))"

text \<open>What is left in the store after \<open>free_queue\<close>: the code frees the first node only.\<close>

definition free_queue :: "'a queue \<Rightarrow> 'a store result" where
  "free_queue hq =
     (let (h, q) = hq; cur = qhead q in
      if cur \<noteq> 0 then (case h cur of None \<Rightarrow> Inl Undefined | Some node \<Rightarrow> Inr (h(cur := None)))
      else Inr h)"

subsection \<open>A queue as a list\<close>

fun nodes_from :: "'a store \<Rightarrow> addr \<Rightarrow> addr list \<Rightarrow> 'a option list \<Rightarrow> bool" where
  "nodes_from h p [] [] \<longleftrightarrow> p = 0"
| "nodes_from h p (a # as) (x # xs) \<longleftrightarrow>
     p = a \<and> a \<noteq> 0 \<and> (\<exists>q. h a = Some \<lparr>ndata = x, nxt = q\<rparr> \<and> nodes_from h q as xs)"
| "nodes_from h p _ _ \<longleftrightarrow> False"

definition queued :: "'a queue \<Rightarrow> 'a option list \<Rightarrow> bool" where
  "queued hq xs \<longleftrightarrow> (\<exists>as. nodes_from (fst hq) (qhead (snd hq)) as xs \<and> distinct as \<and> dom (fst hq) = set as
     \<and> qtail (snd hq) = (if as = [] then 0 else last as) \<and> qn (snd hq) = int (length xs))"

definition fresh :: "'a queue \<Rightarrow> addr \<Rightarrow> bool" where
  "fresh hq p \<longleftrightarrow> p \<noteq> 0 \<and> p \<notin> dom (fst hq)"

lemma nodes_from_length: "nodes_from h p as xs \<Longrightarrow> length as = length xs \<and> 0 \<notin> set as"
  by (induction h p as xs rule: nodes_from.induct) auto

lemma nodes_from_cong: "(\<And>a. a \<in> set as \<Longrightarrow> h a = h' a) \<Longrightarrow> nodes_from h p as xs = nodes_from h' p as xs"
  by (induction h p as xs rule: nodes_from.induct) auto

text \<open>Linking a new last node.\<close>

lemma nodes_from_snoc:
  assumes "nodes_from h p as xs" and "as \<noteq> []" and "distinct as" and "q \<notin> set as" and "q \<noteq> 0"
    and "h' q = Some \<lparr>ndata = x, nxt = 0\<rparr>" and "h' (last as) = map_option (\<lambda>t. t\<lparr>nxt := q\<rparr>) (h (last as))"
    and "\<And>a. a \<in> set as \<Longrightarrow> a \<noteq> last as \<Longrightarrow> h' a = h a"
  shows "nodes_from h' p (as @ [q]) (xs @ [x])"
  using assms
proof (induction h p as xs rule: nodes_from.induct)
  case (2 h p a as y ys)
  show ?case
  proof (cases "as = []")
    case True
    with 2 show ?thesis by (cases ys) auto
  next
    case False
    then have "a \<noteq> last as" using 2(4) by auto
    with 2(9) [of a] False 2 show ?thesis by auto
  qed
qed auto

lemma enqueue_queued:
  assumes "queued hq xs" and "fresh hq p"
  shows "\<exists>hq'. enqueue hq x p = Inr hq' \<and> queued hq' (xs @ [x]) \<and> dom (fst hq') = insert p (dom (fst hq))"
proof -
  obtain h q where hq: "hq = (h, q)" by (cases hq)
  from assms(1) obtain as where as: "nodes_from h (qhead q) as xs" "distinct as" "dom h = set as"
    "qtail q = (if as = [] then 0 else last as)" "qn q = int (length xs)"
    by (auto simp: queued_def hq)
  have p: "p \<noteq> 0" "p \<notin> set as" using assms(2) as(3) by (auto simp: fresh_def hq)
  show ?thesis
  proof (cases "as = []")
    case True
    with as(1) have "xs = []" by (cases xs) auto
    with True as p show ?thesis
      by (auto simp: enqueue_def hq queued_def intro!: exI [of _ "[p]"])
  next
    case False
    let ?h1 = "h(p \<mapsto> \<lparr>ndata = x, nxt = 0\<rparr>)"
    have l: "last as \<in> set as" "last as \<noteq> 0" "last as \<noteq> p"
      using False nodes_from_length [OF as(1)] p(2) by (metis last_in_set)+
    then obtain t where t: "h (last as) = Some t" using as(3) by blast
    let ?h2 = "?h1(last as \<mapsto> t\<lparr>nxt := p\<rparr>)"
    have "nodes_from ?h2 (qhead q) (as @ [p]) (xs @ [x])"
      using as(1) False as(2) p(2,1) by (rule nodes_from_snoc) (use l t p in auto)
    moreover have "enqueue hq x p = Inr (?h2, q\<lparr>qtail := p, qn := qn q + 1\<rparr>)"
      using False as(4) l t p by (simp add: enqueue_def hq Let_def)
    ultimately show ?thesis
      using as p l by (auto simp: queued_def hq intro!: exI [of _ "as @ [p]"])
  qed
qed

lemma dequeue_queued:
  assumes "queued hq (x # xs)"
  shows "\<exists>hq'. dequeue hq = Inr (hq', x) \<and> queued hq' xs \<and> dom (fst hq') = dom (fst hq) - {qhead (snd hq)}"
proof -
  obtain h q where hq: "hq = (h, q)" by (cases hq)
  from assms(1) obtain as where as: "nodes_from h (qhead q) as (x # xs)" "distinct as" "dom h = set as"
    "qtail q = (if as = [] then 0 else last as)" "qn q = int (length (x # xs))"
    by (auto simp: queued_def hq)
  then obtain a bs r where a: "as = a # bs" "qhead q = a" "a \<noteq> 0" "h a = Some \<lparr>ndata = x, nxt = r\<rparr>" "nodes_from h r bs xs"
    by (cases as) auto
  have c: "nodes_from (h(a := None)) r bs xs"
    using a(5) as(2) a(1) by (subst nodes_from_cong [of bs _ h]) auto
  have r: "r = 0 \<longleftrightarrow> bs = []"
    using a(5) by (cases bs; cases xs) auto
  show ?thesis
    using as a c r
    by (auto simp: dequeue_def hq queued_def Let_def intro!: exI [of _ bs])
qed

lemma dequeue_empty: "queued hq [] \<Longrightarrow> dequeue hq = Inr (hq, None)"
  by (cases hq) (auto simp: queued_def dequeue_def)

lemma queued_init: "queued queue_init []"
  by (auto simp: queued_def queue_init_def intro!: exI [of _ "[]"])


subsection \<open>The interface of a queue\<close>

locale fifo =
  fixes holds :: "'q \<Rightarrow> 'a option list \<Rightarrow> bool"
    and new :: 'q
    and enq :: "'q \<Rightarrow> 'a option \<Rightarrow> addr \<Rightarrow> 'q result"
    and deq :: "'q \<Rightarrow> ('q \<times> 'a option) result"
    and room :: "'q \<Rightarrow> addr \<Rightarrow> bool"
  assumes new_holds: "holds new []"
    and enq_holds: "holds s xs \<Longrightarrow> room s p \<Longrightarrow> \<exists>s'. enq s x p = Inr s' \<and> holds s' (xs @ [x])"
    and deq_holds: "holds s (x # xs) \<Longrightarrow> \<exists>s'. deq s = Inr (s', x) \<and> holds s' xs"
    and deq_empty: "holds s [] \<Longrightarrow> deq s = Inr (s, None)"
begin

text \<open>A loop that adds elements one after another; \<open>alloc\<close> stands for \<open>malloc\<close>.\<close>

fun enq_all :: "('q \<Rightarrow> addr) \<Rightarrow> 'q \<Rightarrow> 'a option list \<Rightarrow> 'q result" where
  "enq_all alloc s [] = Inr s"
| "enq_all alloc s (x # xs) = and_then (enq s x (alloc s)) (\<lambda>s'. enq_all alloc s' xs)"

text \<open>The loop \<open>while ((x = dequeue(q)) != NULL)\<close>: what it takes out, with at most \<open>k\<close> calls.\<close>

fun drain :: "nat \<Rightarrow> 'q \<Rightarrow> ('q \<times> 'a list) result" where
  "drain 0 s = Inl Diverges"
| "drain (Suc k) s = and_then (deq s) (\<lambda>(s', r). case r of None \<Rightarrow> Inr (s', [])
     | Some x \<Rightarrow> and_then (drain k s') (\<lambda>(s'', ys). Inr (s'', x # ys)))"

lemma enq_all_holds:
  assumes "\<And>s xs. holds s xs \<Longrightarrow> room s (alloc s)"
  shows "holds s xs \<Longrightarrow> \<exists>s'. enq_all alloc s ys = Inr s' \<and> holds s' (xs @ ys)"
proof (induction ys arbitrary: s xs)
  case (Cons y ys)
  obtain s1 where s1: "enq s y (alloc s) = Inr s1" "holds s1 (xs @ [y])"
    using enq_holds [OF Cons.prems assms [OF Cons.prems]] by blast
  from Cons.IH [OF s1(2)] s1(1) show ?case by auto
qed simp

lemma drain_holds:
  "holds s (map Some xs) \<Longrightarrow> length xs < k \<Longrightarrow> \<exists>s'. drain k s = Inr (s', xs) \<and> holds s' []"
proof (induction xs arbitrary: s k)
  case Nil
  then show ?case by (cases k) (auto simp: deq_empty)
next
  case (Cons x xs)
  then obtain j where j: "k = Suc j" "length xs < j" by (cases k) auto
  obtain s1 where s1: "deq s = Inr (s1, Some x)" "holds s1 (map Some xs)"
    using deq_holds Cons.prems(1) by fastforce
  from Cons.IH [OF s1(2) j(2)] s1(1) show ?case by (auto simp: j)
qed

lemma fill_then_drain:
  assumes "\<And>s xs. holds s xs \<Longrightarrow> room s (alloc s)" and "length xs < k"
  shows "\<exists>s'. and_then (enq_all alloc new (map Some xs)) (drain k) = Inr (s', xs) \<and> holds s' []"
proof -
  have "\<exists>s'. enq_all alloc new (map Some xs) = Inr s' \<and> holds s' ([] @ map Some xs)"
    by (rule enq_all_holds) (use assms(1) new_holds in blast)+
  then obtain s1 where s1: "enq_all alloc new (map Some xs) = Inr s1" "holds s1 (map Some xs)" by auto
  with drain_holds [OF s1(2) assms(2)] show ?thesis by simp
qed

end

text \<open>An allocator that always finds a fresh address.\<close>

definition next_addr :: "'a queue \<Rightarrow> addr" where
  "next_addr q = Max (insert 0 (dom (fst q))) + 1"

lemma next_addr_fresh: "queued q xs \<Longrightarrow> fresh q (next_addr q)"
proof -
  assume "queued q xs"
  then have "finite (dom (fst q))" by (auto simp: queued_def)
  then have "\<forall>a \<in> insert 0 (dom (fst q)). a < next_addr q"
    by (auto simp: next_addr_def less_Suc_eq_le intro: Max_ge le_imp_less_Suc)
  then show ?thesis by (auto simp: fresh_def)
qed

interpretation qu: fifo queued queue_init enqueue dequeue fresh
proof
  show "\<exists>s'. enqueue s x p = Inr s' \<and> queued s' (xs @ [x])"
    if "queued s xs" "fresh s p" for s :: "'a queue" and xs x p
    using enqueue_queued [OF that] by blast
  show "\<exists>s'. dequeue s = Inr (s', x) \<and> queued s' xs" if "queued s (x # xs)" for s :: "'a queue" and x xs
    using dequeue_queued [OF that] by blast
qed (simp_all add: queued_init dequeue_empty)

subsection \<open>Properties\<close>

text \<open>C18. The linked list is a first-in first-out queue: on a store that holds exactly the nodes of a
  queue with contents \<open>xs\<close>, \<open>enqueue\<close> with a fresh node appends, \<open>dequeue\<close> takes off the first element,
  frees its node and leaves the rest, and on the empty queue returns NULL; no assertion fails and no
  pointer is followed that is not a node.\<close>

theorem queue_refines_list:
  assumes "queued q xs"
  shows "(\<forall>p. fresh q p \<longrightarrow> (\<exists>q'. enqueue q x p = Inr q' \<and> queued q' (xs @ [x])))
    \<and> (xs = [] \<longrightarrow> dequeue q = Inr (q, None))
    \<and> (\<forall>y ys. xs = y # ys \<longrightarrow> (\<exists>q'. dequeue q = Inr (q', y) \<and> queued q' ys
        \<and> dom (fst q') = dom (fst q) - {qhead (snd q)}))"
proof (intro conjI allI impI)
  show "\<exists>q'. enqueue q x p = Inr q' \<and> queued q' (xs @ [x])" if "fresh q p" for p
    using enqueue_queued [OF assms that] by blast
  show "dequeue q = Inr (q, None)" if "xs = []"
    using assms that by (simp add: dequeue_empty)
  show "\<exists>q'. dequeue q = Inr (q', y) \<and> queued q' ys \<and> dom (fst q') = dom (fst q) - {qhead (snd q)}"
    if "xs = y # ys" for y ys
    using dequeue_queued [of q y ys] assms that by blast
qed

theorem queue_refines_list_witness:
  "\<exists>q. enqueue queue_init (Some (7 :: nat)) 16 = Inr q \<and> queued q [Some 7]"
  using queue_refines_list [OF queued_init, of "Some (7 :: nat)"] by (simp add: fresh_def queue_init_def)

text \<open>\<open>free_queue\<close> leaks: of a queue with \<open>k\<close> nodes it frees one and leaves the other \<open>k - 1\<close>
  in the store.\<close>

theorem free_queue_leaks:
  assumes "queued q xs" and "xs \<noteq> []"
  shows "\<exists>h. free_queue q = Inr h \<and> card (dom h) = length xs - 1"
proof -
  obtain as where as: "nodes_from (fst q) (qhead (snd q)) as xs" "distinct as" "dom (fst q) = set as"
    using assms(1) by (auto simp: queued_def)
  obtain a bs where a: "as = a # bs" using as(1) assms(2) by (cases as; cases xs) auto
  have l: "length as = length xs" using nodes_from_length [OF as(1)] by simp
  obtain y ys where y: "xs = y # ys" using assms(2) by (cases xs) auto
  have "dom ((fst q)(a := None)) = set bs" using as a by auto
  moreover have "card (set bs) = length xs - 1" using as(2) a l by (simp add: distinct_card)
  ultimately show ?thesis
    using as(1) a y by (cases q) (auto simp: free_queue_def)
qed

theorem free_queue_leaks_witness:
  "\<exists>h. free_queue ([16 \<mapsto> \<lparr>ndata = Some (7 :: nat), nxt = 32\<rparr>, 32 \<mapsto> \<lparr>ndata = Some 8, nxt = 0\<rparr>],
     \<lparr>qhead = 16, qtail = 32, qn = 2\<rparr>) = Inr h \<and> card (dom h) = 1"
proof -
  have "queued ([16 \<mapsto> \<lparr>ndata = Some (7 :: nat), nxt = 32\<rparr>, 32 \<mapsto> \<lparr>ndata = Some 8, nxt = 0\<rparr>],
     \<lparr>qhead = 16, qtail = 32, qn = 2\<rparr>) [Some 7, Some 8]"
    by (auto simp: queued_def intro!: exI [of _ "[16, 32]"])
  from free_queue_leaks [OF this] show ?thesis by simp
qed

end
