(* ===== verification/Input_Buffer.thy ===== *)
theory Input_Buffer
  imports Stdio
begin

section \<open>Line input of the file-sharing client (project2 input_buffer.c)\<close>

text \<open>
  What the user types is collected in a buffer of \<open>USERBUF_SIZE + 1\<close> characters and handed line
  by line to a callback. The buffer is a list with the fixed size of the allocation, and the string
  in it ends at its first NUL; a buffer with no NUL is the fault \<open>Undefined\<close>. The lines passed to the
  callback are returned as a list.
\<close>

definition USERBUF_SIZE :: nat where "USERBUF_SIZE = 8191"

record user_iobuf =
  ubuf :: string
  cur :: u32

definition create_userbuf :: "bool \<Rightarrow> bool \<Rightarrow> user_iobuf option" where
  "create_userbuf mem1 mem2 =
     (if \<not> mem1 then None
      else if \<not> mem2 then None
      else Some \<lparr>ubuf = replicate (USERBUF_SIZE + 1) (CHR 0x00), cur = 0\<rparr>)"

text \<open>\<open>memmove(buf, buf + k + 1, USERBUF_SIZE - k)\<close>, after the newline at \<open>k\<close> became a NUL.\<close>

definition shift_line :: "nat \<Rightarrow> user_iobuf \<Rightarrow> user_iobuf" where
  "shift_line k b =
     (let b1 = (ubuf b)[k := CHR 0x00]; m = USERBUF_SIZE - k
      in b\<lparr>ubuf := take m (drop (k + 1) b1) @ drop m b1, cur := cur b - word_of_nat (k + 1)\<rparr>)"

text \<open>A buffer whose first newline is at \<open>k\<close>.\<close>

lemma strchr_split:
  assumes "strchr (cstr b) c = Some k"
  shows "b = take k b @ c # drop (k + 1) b" "k < length b" "CHR 0x00 \<notin> set (take k b)" "c \<notin> set (take k b)"
    "cstr b = take k b @ c # cstr (drop (k + 1) b)"
proof -
  note s = strchr_Some [OF assms]
  let ?t = "cstr b"
  have p: "?t = take (length ?t) b" unfolding cstr_def by (rule takeWhile_eq_take)
  have le: "length ?t \<le> length b" by (simp add: cstr_def length_takeWhile_le)
  with s(1) show k: "k < length b" by simp
  have nth: "b ! j = ?t ! j" if "j < length ?t" for j
    using that unfolding cstr_def by (simp add: takeWhile_nth)
  have bk: "b ! k = c" using s(1,2) nth by simp
  then show b: "b = take k b @ c # drop (k + 1) b" using id_take_nth_drop [OF k] by simp
  have tk: "take k b = take k ?t" using arg_cong [OF p, of "take k"] s(1) by (simp add: min_def)
  have nn: "CHR 0x00 \<notin> set ?t" by (auto simp: cstr_def dest: set_takeWhileD)
  then show z: "CHR 0x00 \<notin> set (take k b)" unfolding tk by (meson in_set_takeD)
  show "c \<notin> set (take k b)"
    unfolding tk using s(3) by (auto simp: in_set_conv_nth)
  have "c \<noteq> CHR 0x00" using nn s(1,2) nth_mem by fastforce
  then show "cstr b = take k b @ c # cstr (drop (k + 1) b)"
    using cstr_append [OF z, of "c # drop (k + 1) b"] b by (simp add: cstr_def)
qed

function deliver :: "user_iobuf \<Rightarrow> (string list \<times> user_iobuf) result" where
  "deliver b =
     (if CHR 0x00 \<notin> set (ubuf b) \<or> length (ubuf b) \<noteq> USERBUF_SIZE + 1 then Inl Undefined
      else case strchr (cstr (ubuf b)) (CHR 0x0A) of
        None \<Rightarrow> Inr ([], b)
      | Some k \<Rightarrow> and_then (deliver (shift_line k b)) (\<lambda>(ls, b'). Inr (take k (ubuf b) # ls, b')))"
  by pat_completeness auto

lemma shift_line_buf:
  assumes "ubuf b = l @ c # r" and "length (ubuf b) = USERBUF_SIZE + 1"
  shows "ubuf (shift_line (length l) b) = r @ drop (length r) (l @ CHR 0x00 # r)"
proof -
  have r: "USERBUF_SIZE - length l = length r" using assms by simp
  show ?thesis unfolding shift_line_def Let_def r by (simp add: assms(1))
qed

lemma shift_shorter:
  assumes "CHR 0x00 \<in> set (ubuf b)" and "length (ubuf b) = USERBUF_SIZE + 1"
    and "strchr (cstr (ubuf b)) (CHR 0x0A) = Some k"
  shows "length (cstr (ubuf (shift_line k b))) < length (cstr (ubuf b))"
proof -
  note s = strchr_split [OF assms(3)]
  let ?l = "take k (ubuf b)"
  let ?r = "drop (k + 1) (ubuf b)"
  have kl: "length ?l = k" using s(2) by simp
  have "set (ubuf b) = insert (CHR 0x0A) (set ?l \<union> set ?r)"
    using arg_cong [OF s(1), of set] unfolding set_append list.set by simp
  with assms(1) s(3) have "CHR 0x00 \<in> set ?r" by auto
  then have "cstr (?r @ x) = cstr ?r" for x by (simp add: cstr_def takeWhile_append1)
  then show ?thesis
    using shift_line_buf [OF s(1) assms(2)] s(5) unfolding kl by simp
qed

termination deliver
  by (relation "measure (\<lambda>b. length (cstr (ubuf b)))") (auto dest: shift_shorter)

declare deliver.simps [simp del]

text \<open>\<open>input\<close> is what \<open>read\<close> delivers, at most as much as fits; \<open>None\<close> is an error.\<close>

definition process_user_input :: "user_iobuf \<Rightarrow> string option \<Rightarrow> (string list \<times> user_iobuf) result" where
  "process_user_input b input =
     (if unat (cur b) \<ge> USERBUF_SIZE - 1 then Inl (Exits (-1))
      else let k = unat (cur b);
               b1 = (case input of None \<Rightarrow> b
                 | Some s \<Rightarrow> b\<lparr>ubuf := take k (ubuf b) @ s @ drop (k + length s) (ubuf b),
                              cur := cur b + word_of_nat (length s)\<rparr>)
           in deliver b1)"


subsection \<open>Lines delivered\<close>

text \<open>A buffer that holds the text \<open>s\<close> and nothing else.\<close>

definition clean :: "user_iobuf \<Rightarrow> string \<Rightarrow> bool" where
  "clean b s \<longleftrightarrow> NUL \<notin> set s \<and> length s \<le> USERBUF_SIZE
     \<and> ubuf b = s @ replicate (USERBUF_SIZE + 1 - length s) NUL \<and> cur b = word_of_nat (length s)"

lemma strchr_first:
  assumes "c \<notin> set l"
  shows "strchr (l @ c # r) c = Some (length l)"
proof -
  have "takeWhile (\<lambda>x. x \<noteq> c) (l @ c # r) = l" using assms by (subst takeWhile_append2) auto
  then show ?thesis by (simp add: strchr_def)
qed

lemma deliver_line:
  assumes "ubuf b = l @ NL # r" and "length (ubuf b) = USERBUF_SIZE + 1" and "NUL \<notin> set l" and "NL \<notin> set l"
    and "NUL \<in> set r"
  shows "deliver b = and_then (deliver (shift_line (length l) b)) (\<lambda>(ls, b'). Inr (l # ls, b'))"
proof -
  have c: "cstr (ubuf b) = l @ NL # cstr r" using assms(1,3) cstr_append [OF assms(3)] by (simp add: cstr_def)
  have "strchr (cstr (ubuf b)) NL = Some (length l)" unfolding c by (rule strchr_first [OF assms(4)])
  moreover have "take (length l) (ubuf b) = l" using assms(1) by simp
  ultimately show ?thesis using assms(1,2,5) by (subst deliver.simps) simp
qed

lemma shift_line_cur:
  "cur b = word_of_nat (length l + 1 + k) \<Longrightarrow> cur (shift_line (length l) b) = word_of_nat k"
  by (simp add: shift_line_def Let_def)

lemma clean_shift:
  assumes "clean b (l @ NL # s)" and "length (l @ NL # s) + length l \<le> USERBUF_SIZE"
  shows "clean (shift_line (length l) b) s"
proof -
  let ?z = "\<lambda>k. replicate k NUL"
  let ?k = "USERBUF_SIZE + 1 - length (l @ NL # s)"
  have u: "ubuf b = l @ NL # (s @ ?z ?k)" and len: "length (ubuf b) = USERBUF_SIZE + 1"
    using assms(1) by (auto simp: clean_def)
  have "drop (length (s @ ?z ?k)) (l @ NUL # (s @ ?z ?k)) = ?z (length l + 1)"
  proof -
    have "l @ NUL # s @ ?z ?k = (l @ NUL # s @ ?z (?k - (length l + 1))) @ ?z (length l + 1)"
    proof -
      have "?k - (length l + 1) + (length l + 1) = ?k" using assms(2) by simp
      then have "?z ?k = ?z (?k - (length l + 1)) @ ?z (length l + 1)" by (metis replicate_add)
      then show ?thesis by (simp only: append_assoc append_Cons)
    qed
    moreover have "length (l @ NUL # s @ ?z (?k - (length l + 1))) = length (s @ ?z ?k)"
      using assms(2) by simp
    ultimately show ?thesis by (metis append_eq_conv_conj)
  qed
  then have "ubuf (shift_line (length l) b) = s @ ?z (?k + (length l + 1))"
    unfolding shift_line_buf [OF u len] by (simp only: replicate_add append_assoc)
  moreover have "cur (shift_line (length l) b) = word_of_nat (length s)"
    using assms(1) by (intro shift_line_cur) (simp add: clean_def)
  ultimately show ?thesis using assms by (simp add: clean_def Suc_diff_le)
qed

lemma deliver_clean:
  "clean b s \<Longrightarrow> 2 * length s \<le> USERBUF_SIZE \<Longrightarrow>
     \<exists>ls b' s'. deliver b = Inr (ls, b') \<and> clean b' s' \<and> s = concat (map (\<lambda>l. l @ [NL]) ls) @ s'
       \<and> NL \<notin> set s' \<and> (\<forall>l \<in> set ls. NL \<notin> set l)"
proof (induction "length s" arbitrary: b s rule: less_induct)
  case less
  have u: "NUL \<in> set (ubuf b)" "length (ubuf b) = USERBUF_SIZE + 1"
    using less.prems(1) by (auto simp: clean_def)
  have c: "cstr (ubuf b) = s"
    using less.prems(1) cstr_append [of s] by (auto simp: clean_def cstr_def Suc_diff_le)
  show ?case
  proof (cases "NL \<in> set s")
    case False
    then have "deliver b = Inr ([], b)" using u c by (subst deliver.simps) (simp add: strchr_def)
    with False less.prems(1) show ?thesis by (intro exI [of _ "[]"] exI [of _ b] exI [of _ s]) simp
  next
    case True
    then obtain l r where s: "s = l @ NL # r" "NL \<notin> set l" by (metis split_list_first)
    let ?z = "replicate (USERBUF_SIZE + 1 - length s) NUL"
    have b: "ubuf b = l @ NL # (r @ ?z)" "NUL \<notin> set l" "NUL \<in> set (r @ ?z)"
      using less.prems(1) s by (auto simp: clean_def)
    have d: "deliver b = and_then (deliver (shift_line (length l) b)) (\<lambda>(ls, b'). Inr (l # ls, b'))"
      using b u(2) s(2) by (intro deliver_line [of b l "r @ ?z"]) auto
    have cl: "clean (shift_line (length l) b) r"
      using less.prems s by (intro clean_shift) auto
    obtain ls b' s' where "deliver (shift_line (length l) b) = Inr (ls, b')" "clean b' s'"
      "r = concat (map (\<lambda>l. l @ [NL]) ls) @ s'" "NL \<notin> set s'" "\<forall>l \<in> set ls. NL \<notin> set l"
      using less.hyps [OF _ cl] less.prems(2) s(1) by auto
    with d s show ?thesis by (intro exI [of _ "l # ls"] exI [of _ b'] exI [of _ s']) simp
  qed
qed

lemma unat_cur: "clean b s \<Longrightarrow> unat (cur b) = length s"
  by (simp add: clean_def unat_of_nat USERBUF_SIZE_def)

text \<open>Line input: while the text in the buffer and what \<open>read\<close> adds to it fill at most half of the
  buffer, the callback gets exactly the complete lines of the input in order, without their newlines,
  and what follows the last newline stays in the buffer for the next call.\<close>

theorem input_lines:
  assumes "clean b s" and "NUL \<notin> set input" and "2 * (length s + length input) \<le> USERBUF_SIZE"
  shows "\<exists>ls b' s'. process_user_input b (Some input) = Inr (ls, b') \<and> clean b' s'
    \<and> s @ input = concat (map (\<lambda>l. l @ [NL]) ls) @ s' \<and> NL \<notin> set s' \<and> list_all (\<lambda>l. NL \<notin> set l) ls"
proof -
  have k: "unat (cur b) = length s" using assms(1) by (rule unat_cur)
  have le: "length s + length input \<le> USERBUF_SIZE" "\<not> length s \<ge> USERBUF_SIZE - 1"
    using assms(3) by (auto simp: USERBUF_SIZE_def)
  let ?b = "b\<lparr>ubuf := take (length s) (ubuf b) @ input @ drop (length s + length input) (ubuf b),
    cur := cur b + word_of_nat (length input)\<rparr>"
  have "clean ?b (s @ input)"
    using assms(1,2) le(1) by (simp add: clean_def)
  then obtain ls b' s' where "deliver ?b = Inr (ls, b')" "clean b' s'"
    "s @ input = concat (map (\<lambda>l. l @ [NL]) ls) @ s'" "NL \<notin> set s'" "\<forall>l \<in> set ls. NL \<notin> set l"
    using deliver_clean [of ?b "s @ input"] assms(3) by auto
  moreover have "process_user_input b (Some input) = deliver ?b"
    using le(2) by (simp add: process_user_input_def Let_def k)
  ultimately show ?thesis by (simp only: list_all_iff) blast
qed

theorem input_lines_witness:
  "\<exists>ls b' s'. process_user_input (the (create_userbuf True True)) (Some (''GET a b'' @ [NL])) = Inr (ls, b')
     \<and> ''GET a b'' @ [NL] = concat (map (\<lambda>l. l @ [NL]) ls) @ s'"
proof -
  have "clean (the (create_userbuf True True)) []" by (simp add: clean_def create_userbuf_def)
  from input_lines [OF this, of "''GET a b'' @ [NL]"] show ?thesis by (auto simp: USERBUF_SIZE_def)
qed


subsection \<open>A long input\<close>

text \<open>Two lines that fill the buffer in one call, and one more character in the next.\<close>

definition two_lines :: string where
  "two_lines = replicate 4095 (CHR ''a'') @ NL # replicate 4094 (CHR ''b'') @ [NL]"

definition phantom :: string where
  "phantom = CHR ''c'' # replicate 4094 (CHR ''b'')"

lemma long_input:
  obtains b2 t where "process_user_input (the (create_userbuf True True)) (Some two_lines)
      = Inr ([replicate 4095 (CHR ''a''), replicate 4094 (CHR ''b'')], b2)"
    "ubuf b2 = NUL # replicate 4094 (CHR ''b'') @ NL # NUL # t" "length (ubuf b2) = USERBUF_SIZE + 1" "cur b2 = 0"
proof -
  let ?A = "replicate 4095 (CHR ''a'')"
  let ?B = "replicate 4094 (CHR ''b'')"
  let ?r = "?B @ NL # [NUL]"
  let ?b0 = "\<lparr>ubuf = ?A @ NL # ?r, cur = 8191\<rparr>"
  let ?b1 = "shift_line (length ?A) ?b0"
  let ?b2 = "shift_line (length ?B) ?b1"
  have N: "USERBUF_SIZE = 8191" by (simp add: USERBUF_SIZE_def)
  have p: "process_user_input (the (create_userbuf True True)) (Some two_lines) = deliver ?b0"
  proof -
    have "(word_of_nat (length two_lines) :: u32) = 8191" by (simp add: two_lines_def)
    then show ?thesis
      by (simp add: process_user_input_def create_userbuf_def N two_lines_def Let_def)
  qed
  have l0: "length (ubuf ?b0) = USERBUF_SIZE + 1" by (simp add: N)
  have u1: "ubuf ?b1 = ?B @ NL # (NUL # ?r)"
    by (subst shift_line_buf [where l = ?A and c = NL and r = ?r]) (use l0 in simp_all)
  have c1: "cur ?b1 = 4095" by (simp add: shift_line_def Let_def)
  have l1: "length (ubuf ?b1) = USERBUF_SIZE + 1" unfolding u1 by (simp add: N)
  have u2: "ubuf ?b2 = (NUL # ?r) @ drop (length (NUL # ?r)) (?B @ NUL # NUL # ?r)"
    by (rule shift_line_buf [OF u1 l1])
  have c2: "cur ?b2 = 0" using c1 by (simp add: shift_line_def Let_def)
  have l2: "length (ubuf ?b2) = USERBUF_SIZE + 1" unfolding u2 by (simp add: N)
  have z2: "cstr (ubuf ?b2) = []" unfolding u2 by simp
  have "NUL \<in> set (ubuf ?b2)" unfolding u2 by simp
  then have "deliver ?b2 = Inr ([], ?b2)" using z2 l2 by (subst deliver.simps) (simp add: strchr_def)
  moreover have "deliver ?b1 = and_then (deliver ?b2) (\<lambda>(ls, b'). Inr (?B # ls, b'))"
    by (rule deliver_line [OF u1 l1]) auto
  moreover have "deliver ?b0 = and_then (deliver ?b1) (\<lambda>(ls, b'). Inr (?A # ls, b'))"
    by (rule deliver_line [OF _ l0]) auto
  ultimately have "deliver ?b0 = Inr ([?A, ?B], ?b2)" by simp
  moreover have "ubuf ?b2 = NUL # ?B @ NL # NUL # drop (length (NUL # ?r)) (?B @ NUL # NUL # ?r)"
    using u2 by simp
  ultimately show thesis using that p l2 c2 by metis
qed

text \<open>A line that was never typed: after two lines that fill the buffer in one call, the bytes
  left behind the end of the text are not cleared, and the single character typed next is delivered
  together with the second line once more; the position in the buffer becomes \<open>2 ^ 32 - 4095\<close>, and
  the call after that ends the program.\<close>

theorem input_phantom_line:
  "\<exists>b2 b3. process_user_input (the (create_userbuf True True)) (Some two_lines)
      = Inr ([replicate 4095 (CHR ''a''), replicate 4094 (CHR ''b'')], b2)
    \<and> process_user_input b2 (Some ''c'') = Inr ([phantom], b3)
    \<and> unat (cur b3) = 2 ^ 32 - 4095 \<and> process_user_input b3 x = Inl (Exits (-1))"
proof -
  obtain b2 t where b2: "process_user_input (the (create_userbuf True True)) (Some two_lines)
      = Inr ([replicate 4095 (CHR ''a''), replicate 4094 (CHR ''b'')], b2)"
    "ubuf b2 = NUL # replicate 4094 (CHR ''b'') @ NL # NUL # t" "length (ubuf b2) = USERBUF_SIZE + 1" "cur b2 = 0"
    by (rule long_input)
  let ?b = "\<lparr>ubuf = phantom @ NL # (NUL # t), cur = 1\<rparr>"
  let ?b3 = "shift_line (length phantom) ?b"
  have N: "USERBUF_SIZE = 8191" by (simp add: USERBUF_SIZE_def)
  have p: "process_user_input b2 (Some ''c'') = deliver ?b"
    using b2(2,4) by (cases b2) (simp add: process_user_input_def N phantom_def)
  have l: "length (ubuf ?b) = USERBUF_SIZE + 1" using b2(2,3) by (simp add: phantom_def)
  have n: "NUL \<notin> set phantom" "NL \<notin> set phantom" by (simp_all add: phantom_def)
  have d: "deliver ?b = and_then (deliver ?b3) (\<lambda>(ls, b'). Inr (phantom # ls, b'))"
    by (rule deliver_line [where r = "NUL # t", OF _ l]) (use n in simp_all)
  have u3: "ubuf ?b3 = (NUL # t) @ drop (length (NUL # t)) (phantom @ NUL # NUL # t)"
    by (rule shift_line_buf [OF _ l]) simp
  have "NUL \<in> set (ubuf ?b3)" "cstr (ubuf ?b3) = []" "length (ubuf ?b3) = USERBUF_SIZE + 1"
    unfolding u3 using l by simp_all
  then have "deliver ?b3 = Inr ([], ?b3)" by (subst deliver.simps) (simp add: strchr_def)
  then have "process_user_input b2 (Some ''c'') = Inr ([phantom], ?b3)" using p d by simp
  moreover have c: "unat (cur ?b3) = 2 ^ 32 - 4095" by (simp add: shift_line_def Let_def phantom_def)
  moreover have "process_user_input ?b3 x = Inl (Exits (-1))"
    unfolding process_user_input_def c by (simp add: N)
  ultimately show ?thesis using b2(1) by blast
qed

end
