(* ===== verification/Bt_Job.thy ===== *)
theory Bt_Job
  imports Bt_Parse Queue Input_Buffer
begin

section \<open>Download jobs of the file-sharing client (project2 job.c, peer.c)\<close>

text \<open>
  A GET command reads the file of wanted chunks, packs their hashes into WHOHAS packets, queues
  the packets and sends each to every other peer. \<open>malloc\<close> is a parameter (the uninitialised
  contents of the block, or \<open>None\<close>) for the packets and succeeds for the chunks of a job; stack
  buffers start with arbitrary contents. Writing outside a buffer is the fault \<open>Undefined\<close>; so is a
  number in a chunk file that is not an \<open>int\<close>. The counters of chunks are natural numbers.
\<close>

record chunk_t =
  cid :: "int option"
  chash :: "u8 list"
  cur_size :: int
  num_p :: int

record bt_job =
  num_chunks :: nat
  num_need :: nat
  num_living :: nat
  chunks :: "chunk_t list"
  get_chunk_file :: string

subsection \<open>Reading the chunk file\<close>

text \<open>A string written with its NUL to the start of a buffer.\<close>

definition put_str :: "string \<Rightarrow> string \<Rightarrow> string" where
  "put_str buf w = take (length buf) (w @ CHR 0x00 # drop (length w + 1) buf)"

text \<open>\<open>sscanf(read_buffer, "%d %s", ...)\<close> into the id and \<open>hash_buffer\<close>.\<close>

definition scan_chunk :: "string \<Rightarrow> string \<Rightarrow> (int option \<times> string) result" where
  "scan_chunk line buf =
     (case scan_int line of
        None \<Rightarrow> Inr (None, buf)
      | Some (i, r) \<Rightarrow>
          if i < - (2 ^ 31) \<or> i \<ge> 2 ^ 31 then Inl Undefined
          else case scan_str r of
            None \<Rightarrow> Inr (Some i, buf)
          | Some (w, _) \<Rightarrow>
              if length w + 1 > length buf then Inl Undefined else Inr (Some i, put_str buf w))"

fun read_chunks :: "string list \<Rightarrow> string \<Rightarrow> chunk_t list result" where
  "read_chunks [] buf = Inr []"
| "read_chunks (line # ls) buf =
     and_then (scan_chunk line buf) (\<lambda>(i, hash_buffer).
     and_then (read_chunks ls (replicate (2 * SHA1_HASH_SIZE) (CHR 0x00))) (\<lambda>cs.
     Inr (\<lparr>cid = i, chash = hex2binary hash_buffer (2 * SHA1_HASH_SIZE), cur_size = 0, num_p = 0\<rparr> # cs)))"

definition init_job :: "(string \<Rightarrow> string option) \<Rightarrow> string \<Rightarrow> string \<Rightarrow> string \<Rightarrow> bt_config_t \<Rightarrow> bt_job
    \<Rightarrow> (int \<times> bt_config_t \<times> bt_job) result" where
  "init_job files stack chunkFile outFile config job =
     (case files chunkFile of
        None \<Rightarrow> Inr (-1, config, job)
      | Some f \<Rightarrow>
          let ls = fgets_all BUF_SIZE f in
          and_then (read_chunks ls stack) (\<lambda>cs.
            if length outFile \<ge> BT_FILENAME_LEN \<or> length chunkFile \<ge> BT_FILENAME_LEN then Inl Undefined
            else Inr (0, config\<lparr>output_file := outFile\<rparr>,
              \<lparr>num_chunks = length ls, num_need = length ls, num_living = 0, chunks = cs,
               get_chunk_file = chunkFile\<rparr>)))"

subsection \<open>WHOHAS packets\<close>

fun put_hashes :: "chunk_t list \<Rightarrow> nat \<Rightarrow> u8 list \<Rightarrow> (nat \<times> u8 list) result" where
  "put_hashes [] j d = Inr (j, d)"
| "put_hashes (c # cs) j d =
     (if cur_size c = 512 * 1024 then put_hashes cs j d
      else let a = 4 + j * SHA1_HASH_SIZE in
        if a + SHA1_HASH_SIZE > length d then Inl Undefined
        else put_hashes cs (j + 1) (take a d @ take SHA1_HASH_SIZE (chash c) @ drop (a + SHA1_HASH_SIZE) d))"

definition make_whohas_data :: "chunk_t list \<Rightarrow> u8 list \<Rightarrow> u8 list result" where
  "make_whohas_data cs d =
     and_then (put_hashes cs 0 (replicate 4 0 @ drop 4 d)) (\<lambda>(j, d1). Inr (d1[0 := word_of_nat j]))"

text \<open>\<open>len\<close> chunks from the index \<open>off\<close> on.\<close>

definition slice :: "chunk_t list \<Rightarrow> nat \<Rightarrow> nat \<Rightarrow> chunk_t list result" where
  "slice cs off len = (if off + len > length cs then Inl Undefined else Inr (take len (drop off cs)))"

text \<open>One packet is filled and queued. \<open>d\<close> is the buffer on the stack, which keeps its contents.\<close>

definition queue_whohas :: "u8 list option \<Rightarrow> (packet_t queue \<Rightarrow> addr) \<Rightarrow> bt_job \<Rightarrow> nat \<Rightarrow> nat
    \<Rightarrow> u8 list \<times> packet_t queue \<Rightarrow> (u8 list \<times> packet_t queue) result" where
  "queue_whohas mem alloc job off len st =
     (let (d, q) = st; pkt_len = word_of_nat (HEADER_LEN + 4 + len * SHA1_HASH_SIZE) in
      and_then (slice (chunks job) off len) (\<lambda>cs.
      and_then (make_whohas_data cs d) (\<lambda>d1.
      and_then (init_packet mem PKT_WHOHAS pkt_len 0 0 d1) (\<lambda>pkt.
      and_then (enqueue q pkt (alloc q)) (\<lambda>q1. Inr (d1, q1))))))"

fun whohas_loop :: "(nat \<Rightarrow> u8 list option) \<Rightarrow> (packet_t queue \<Rightarrow> addr) \<Rightarrow> bt_job \<Rightarrow> nat \<Rightarrow> nat list
    \<Rightarrow> u8 list \<times> packet_t queue \<Rightarrow> (u8 list \<times> packet_t queue) result" where
  "whohas_loop mem alloc job k [] st = Inr st"
| "whohas_loop mem alloc job k (i # is) st =
     (let len = (if i = k then num_chunks job - k * MAX_CHUNK else MAX_CHUNK) in
      and_then (queue_whohas (mem i) alloc job (i * MAX_CHUNK) len st) (whohas_loop mem alloc job k is))"

definition make_whohas :: "(nat \<Rightarrow> u8 list option) \<Rightarrow> (packet_t queue \<Rightarrow> addr) \<Rightarrow> u8 list \<Rightarrow> bt_job
    \<Rightarrow> packet_t queue option result" where
  "make_whohas mem alloc stack job =
     (if num_chunks job = 0 then Inr None
      else if num_chunks job > MAX_CHUNK then
        let k = num_chunks job div MAX_CHUNK in
        and_then (whohas_loop mem alloc job k [0..<k + 1] (stack, queue_init)) (\<lambda>(d, q). Inr (Some q))
      else and_then (queue_whohas (mem 0) alloc job 0 (num_chunks job) (stack, queue_init))
        (\<lambda>(d, q). Inr (Some q)))"

subsection \<open>Sending\<close>

text \<open>A datagram: the peer it goes to and its bytes.\<close>

type_synonym datagram = "int \<times> u8 list"

fun send_peers :: "bt_config_t \<Rightarrow> packet_t \<Rightarrow> bt_peer_t list \<Rightarrow> datagram list result" where
  "send_peers config pkt [] = Inr []"
| "send_peers config pkt (p # ps) =
     (if peer_id p \<noteq> identity config then
        and_then (send_packet pkt) (\<lambda>(pkt1, d).
        and_then (send_peers config pkt1 ps) (\<lambda>ds.
        Inr ((case d of None \<Rightarrow> [] | Some m \<Rightarrow> [(peer_id p, m)]) @ ds)))
      else send_peers config pkt ps)"

definition send_whohas :: "bt_config_t \<Rightarrow> packet_t \<Rightarrow> datagram list result" where
  "send_whohas config pkt = send_peers config pkt (peers config)"

text \<open>The sending loop of \<open>process_get\<close>; \<open>ds\<close> is what has been sent so far.\<close>

partial_function (option) send_all :: "bt_config_t \<Rightarrow> packet_t queue \<Rightarrow> datagram list \<Rightarrow> datagram list result option" where
  [code]: "send_all config q ds =
     (case dequeue q of
        Inl e \<Rightarrow> Some (Inl e)
      | Inr (q1, None) \<Rightarrow> Some (Inr ds)
      | Inr (q1, Some pkt) \<Rightarrow>
          (case send_whohas config pkt of
             Inl e \<Rightarrow> Some (Inl e)
           | Inr d \<Rightarrow> send_all config q1 (ds @ d)))"

definition process_get :: "(string \<Rightarrow> string option) \<Rightarrow> (nat \<Rightarrow> u8 list option) \<Rightarrow> (packet_t queue \<Rightarrow> addr)
    \<Rightarrow> string \<Rightarrow> u8 list \<Rightarrow> bt_config_t \<Rightarrow> bt_job \<Rightarrow> string \<Rightarrow> string
    \<Rightarrow> (bt_config_t \<times> bt_job \<times> datagram list) result" where
  "process_get files mem alloc stack1 stack2 config globaljob chunkfile outputfile =
     and_then (init_job files stack1 chunkfile outputfile config globaljob) (\<lambda>(r, config1, job).
     and_then (make_whohas mem alloc stack2 job) (\<lambda>q. case q of
        None \<Rightarrow> Inl Undefined
      | Some q1 \<Rightarrow> (case send_all config1 q1 [] of
            None \<Rightarrow> Inl Diverges
          | Some r \<Rightarrow> and_then r (\<lambda>ds. Inr (config1, job, ds)))))"

text \<open>\<open>sscanf(line, "GET %120s %120s", ...)\<close>.\<close>

definition scan_get :: "string \<Rightarrow> string \<times> string" where
  "scan_get line =
     (if take 3 line \<noteq> ''GET'' then ([], [])
      else case scan_str (drop 3 line) of
        None \<Rightarrow> ([], [])
      | Some (w, r) \<Rightarrow>
          if length w > 120 then (take 120 w, take 120 (drop 120 w))
          else case scan_str r of None \<Rightarrow> (w, []) | Some (v, _) \<Rightarrow> (w, take 120 v))"

definition handle_user_input :: "(string \<Rightarrow> string \<Rightarrow> 'a) \<Rightarrow> 'a \<Rightarrow> string \<Rightarrow> 'a" where
  "handle_user_input get nothing line =
     (let (chunkf, outf) = scan_get line in if length outf > 0 then get chunkf outf else nothing)"

text \<open>A received datagram: the request is a pointer into the buffer on the stack, and
  \<open>destroy_packet\<close> passes it to \<open>free\<close>.\<close>

datatype 'a block = Stack 'a | Heap 'a

definition destroy_packet :: "'a block option \<Rightarrow> unit result" where
  "destroy_packet p = (case p of Some (Stack _) \<Rightarrow> Inl Undefined | _ \<Rightarrow> Inr ())"

definition process_inbound_udp :: "u8 list \<Rightarrow> string \<times> unit result" where
  "process_inbound_udp buf =
     (let request = parse_request buf; (msg, reply) = process_message (Some request)
      in (msg, and_then (destroy_packet (Some (Stack request))) (\<lambda>_. destroy_packet (map_option Heap reply))))"


subsection \<open>The main loop of the client\<close>

record peer =
  pconfig :: bt_config_t
  globaljob :: bt_job
  userbuf :: user_iobuf
  wire :: "datagram list"

text \<open>One turn of the loop in \<open>peer_run\<close>: input from the terminal or a datagram. \<open>files\<close>, \<open>mem\<close>,
  \<open>alloc\<close> and the stack contents are those of \<open>process_get\<close>.\<close>

datatype event = Stdin "string option" | Udp "u8 list"

fun peer_lines :: "(string \<Rightarrow> string \<Rightarrow> peer \<Rightarrow> peer result) \<Rightarrow> string list \<Rightarrow> peer \<Rightarrow> peer result" where
  "peer_lines get [] p = Inr p"
| "peer_lines get (l # ls) p =
     and_then (handle_user_input (\<lambda>c o'. get c o' p) (Inr p) l) (peer_lines get ls)"

definition peer_get :: "(string \<Rightarrow> string option) \<Rightarrow> (nat \<Rightarrow> u8 list option) \<Rightarrow> (packet_t queue \<Rightarrow> addr)
    \<Rightarrow> string \<Rightarrow> u8 list \<Rightarrow> string \<Rightarrow> string \<Rightarrow> peer \<Rightarrow> peer result" where
  "peer_get files mem alloc stack1 stack2 chunkf outf p =
     and_then (process_get files mem alloc stack1 stack2 (pconfig p) (globaljob p) chunkf outf)
       (\<lambda>(c, j, ds). Inr (p\<lparr>pconfig := c, globaljob := j, wire := wire p @ ds\<rparr>))"

definition peer_event :: "(string \<Rightarrow> string \<Rightarrow> peer \<Rightarrow> peer result) \<Rightarrow> event \<Rightarrow> peer \<Rightarrow> peer result" where
  "peer_event get e p =
     (case e of
        Stdin input \<Rightarrow> and_then (process_user_input (userbuf p) input)
          (\<lambda>(ls, b). peer_lines get ls (p\<lparr>userbuf := b\<rparr>))
      | Udp buf \<Rightarrow> and_then (snd (process_inbound_udp buf)) (\<lambda>_. Inr p))"

end
