(* ===== verification/Bt_Correct.thy ===== *)
theory Bt_Correct
  imports Bt_Job
begin

section \<open>What a download job announces\<close>

text \<open>
  The WHOHAS packets of a job name every chunk that is still missing exactly once, in order, and
  stay inside their buffers; the sending loop returns; and reading a chunk file as \<open>make-chunks\<close> writes it
  overruns a buffer.
\<close>

subsection \<open>The payload of a packet\<close>

definition missing :: "chunk_t list \<Rightarrow> chunk_t list" where
  "missing cs = filter (\<lambda>c. cur_size c \<noteq> 512 * 1024) cs"

definition hashes_ok :: "chunk_t list \<Rightarrow> bool" where
  "hashes_ok cs \<longleftrightarrow> (\<forall>c \<in> set cs. length (chash c) = SHA1_HASH_SIZE)"

text \<open>The hashes a receiver reads: the first byte counts them, and they follow the first four.\<close>

definition announced :: "packet_t \<Rightarrow> u8 list list" where
  "announced pkt = map (\<lambda>i. take 20 (drop (4 + 20 * i) (pdata pkt))) [0..<unat (hd (pdata pkt))]"

lemma length_hashes: "hashes_ok cs \<Longrightarrow> length (concat (map chash cs)) = 20 * length cs"
  by (induction cs) (auto simp: hashes_ok_def SHA1_HASH_SIZE_def)

lemma put_hashes_ok:
  "hashes_ok cs \<Longrightarrow> 4 + 20 * (j + length (missing cs)) \<le> length d \<Longrightarrow>
     put_hashes cs j d = Inr (j + length (missing cs),
       take (4 + 20 * j) d @ concat (map chash (missing cs)) @ drop (4 + 20 * (j + length (missing cs))) d)"
proof (induction cs arbitrary: j d)
  case (Cons c cs)
  have h: "hashes_ok cs" "length (chash c) = 20" using Cons.prems(1) by (auto simp: hashes_ok_def SHA1_HASH_SIZE_def)
  show ?case
  proof (cases "cur_size c = 512 * 1024")
    case True
    then show ?thesis using Cons.IH [OF h(1)] Cons.prems(2) by (simp add: missing_def)
  next
    case False
    let ?a = "4 + 20 * j"
    let ?d = "take ?a d @ chash c @ drop (?a + 20) d"
    have a: "?a + 20 \<le> length d" "length ?d = length d"
      using False Cons.prems(2) h(2) by (auto simp: missing_def)
    have "put_hashes (c # cs) j d = put_hashes cs (j + 1) ?d"
      using False a h(2) by (simp add: SHA1_HASH_SIZE_def mult.commute)
    moreover have "put_hashes cs (j + 1) ?d = Inr (j + 1 + length (missing cs),
        take (4 + 20 * (j + 1)) ?d @ concat (map chash (missing cs)) @ drop (4 + 20 * (j + 1 + length (missing cs))) ?d)"
      using Cons.IH [OF h(1), of "j + 1" ?d] Cons.prems(2) False a(2) by (simp add: missing_def)
    moreover have "take (4 + 20 * (j + 1)) ?d = take ?a d @ chash c" using a h(2) by simp
    moreover have "drop (4 + 20 * (j + 1 + length (missing cs))) ?d = drop (4 + 20 * (j + 1 + length (missing cs))) d"
      using a h(2) by (simp add: ac_simps)
    ultimately show ?thesis using False by (simp add: missing_def)
  qed
qed (simp add: missing_def)

lemma whohas_data_ok:
  assumes "hashes_ok cs" and "length cs \<le> MAX_CHUNK" and "length d = DATA_LEN"
  shows "make_whohas_data cs d = Inr (word_of_nat (length (missing cs)) # replicate 3 0
    @ concat (map chash (missing cs)) @ drop (4 + 20 * length (missing cs)) d)"
proof -
  have m: "length (missing cs) \<le> length cs" by (simp add: missing_def)
  have "4 + 20 * (0 + length (missing cs)) \<le> length (replicate 4 0 @ drop 4 d)"
    using m assms(2,3) by (simp add: MAX_CHUNK_def DATA_LEN_def PACKET_LEN_def HEADER_LEN_def)
  from put_hashes_ok [OF assms(1) this] show ?thesis
    by (simp add: make_whohas_data_def numeral_eq_Suc)
qed

lemma take_chunk_of_concat:
  assumes "\<And>x. x \<in> set xs \<Longrightarrow> length x = k"
  shows "map (\<lambda>i. take k (drop (k * i) (concat xs @ r))) [0..<length xs] = xs"
  using assms
proof (induction xs)
  case (Cons x xs)
  have "map (\<lambda>i. take k (drop (k * i) (concat (x # xs) @ r))) [0..<length (x # xs)]
      = take k (x @ concat xs @ r) # map (\<lambda>i. take k (drop (k * Suc i) (x @ concat xs @ r))) [0..<length xs]"
    by (simp add: upt_conv_Cons map_Suc_upt [symmetric] del: upt_Suc)
  moreover have "drop (k * Suc i) (x @ concat xs @ r) = drop (k * i) (concat xs @ r)" for i
    using Cons.prems [of x] by simp
  ultimately show ?case using Cons by simp
qed simp

lemma sint_u16: "k < 2 ^ 15 \<Longrightarrow> sint (word_of_nat k :: u16) = int k"
  by (simp add: sint_uint unsigned_of_nat take_bit_nat_eq_self signed_take_bit_int_eq_self)

lemma announced_eq:
  assumes "hashes_ok m" and "length m < 256" and "pdata pkt = word_of_nat (length m) # replicate 3 0 @ concat (map chash m) @ r"
  shows "announced pkt = map chash m"
proof -
  have u: "unat (word_of_nat (length m) :: u8) = length m" using assms(2) by (simp add: unat_of_nat)
  have d: "drop (4 + 20 * i) (pdata pkt) = drop (20 * i) (concat (map chash m) @ r)" for i
    by (simp add: assms(3) numeral_eq_Suc)
  have "map (\<lambda>i. take 20 (drop (20 * i) (concat (map chash m) @ r))) [0..<length (map chash m)] = map chash m"
    by (rule take_chunk_of_concat) (use assms(1) in \<open>auto simp: hashes_ok_def SHA1_HASH_SIZE_def\<close>)
  then show ?thesis unfolding announced_def d by (simp only: assms(3) list.sel u length_map)
qed

lemma queue_whohas_ok:
  assumes q: "queued q xs" and f: "fresh q (alloc q)" and g: "length g = DATA_LEN" and d: "length d = DATA_LEN"
    and len: "off + len \<le> length (chunks job)" "len \<le> MAX_CHUNK" and h: "hashes_ok (chunks job)"
  shows "\<exists>d' q' pkt. queue_whohas (Some g) alloc job off len (d, q) = Inr (d', q') \<and> length d' = DATA_LEN
    \<and> queued q' (xs @ [Some pkt]) \<and> announced pkt = map chash (missing (take len (drop off (chunks job))))
    \<and> packet_len (header pkt) = word_of_nat (20 + 20 * len) \<and> length (pdata pkt) = DATA_LEN"
proof -
  let ?cs = "take len (drop off (chunks job))"
  let ?m = "missing ?cs"
  let ?d1 = "word_of_nat (length ?m) # replicate 3 0 @ concat (map chash ?m) @ drop (4 + 20 * length ?m) d"
  have D: "DATA_LEN = 1484" by (simp add: DATA_LEN_def PACKET_LEN_def HEADER_LEN_def)
  have len74: "len \<le> 74" using len(2) by (simp add: MAX_CHUNK_def)
  have hc: "hashes_ok ?cs" using h by (auto simp: hashes_ok_def dest!: in_set_takeD in_set_dropD)
  then have hm: "hashes_ok ?m" by (auto simp: hashes_ok_def missing_def)
  have m: "length ?m \<le> len"
    using length_filter_le [of "\<lambda>c. cur_size c \<noteq> 512 * 1024" ?cs] by (simp add: missing_def)
  have wd: "make_whohas_data ?cs d = Inr ?d1" using hc len(2) d by (intro whohas_data_ok) auto
  have l1: "length ?d1 = DATA_LEN" using length_hashes [OF hm] m len74 d D by simp
  have s: "sint (word_of_nat (20 + 20 * len) :: u16) = int (20 + 20 * len)"
    using len74 by (intro sint_u16) simp
  let ?pkt = "\<lparr>header = \<lparr>magic_num = 15441, version = 1, ptype = PKT_WHOHAS, header_len = word_of_nat HEADER_LEN,
     packet_len = word_of_nat (20 + 20 * len), seq_num = 0, ack_num = 0\<rparr>,
     pdata = take (4 + 20 * len) ?d1 @ drop (4 + 20 * len) g\<rparr>"
  have ip: "init_packet (Some g) PKT_WHOHAS (word_of_nat (20 + 20 * len)) 0 0 ?d1 = Inr (Some ?pkt)"
  proof -
    have k: "sint (word_of_nat (20 + 20 * len) :: u16) - int HEADER_LEN = int (4 + 20 * len)"
      unfolding s by (simp add: HEADER_LEN_def)
    have "\<not> int (4 + 20 * len) < 0" "\<not> int (4 + 20 * len) > int DATA_LEN" "\<not> int (4 + 20 * len) > int (length ?d1)"
      using len74 unfolding l1 D by simp_all
    then show ?thesis unfolding init_packet_def k Let_def by (simp only: option.case if_False disj_not1 nat_int) simp
  qed
  obtain q' where q': "enqueue q (Some ?pkt) (alloc q) = Inr q'" "queued q' (xs @ [Some ?pkt])"
    using enqueue_queued [OF q f] by blast
  have "queue_whohas (Some g) alloc job off len (d, q) = Inr (?d1, q')"
    using len(1) wd ip q'(1)
    by (simp add: queue_whohas_def slice_def HEADER_LEN_def SHA1_HASH_SIZE_def mult.commute)
  moreover have "announced ?pkt = map chash ?m"
  proof (rule announced_eq [OF hm])
    show "length ?m < 256" using m len74 by simp
    show "pdata ?pkt = word_of_nat (length ?m) # replicate 3 0 @ concat (map chash ?m)
        @ (take (20 * len - 20 * length ?m) (drop (4 + 20 * length ?m) d) @ drop (4 + 20 * len) g)"
      using length_hashes [OF hm] m by (simp add: numeral_eq_Suc)
  qed
  moreover have "length (pdata ?pkt) = DATA_LEN" using l1 g len74 D by simp
  ultimately show ?thesis using l1 q' by (intro exI [of _ ?d1] exI [of _ q'] exI [of _ ?pkt]) simp
qed

subsection \<open>The queue of packets\<close>

definition whohas_ok :: "packet_t \<Rightarrow> bool" where
  "whohas_ok pkt \<longleftrightarrow> 20 \<le> unat (packet_len (header pkt)) \<and> unat (packet_len (header pkt)) \<le> PACKET_LEN
     \<and> length (pdata pkt) = DATA_LEN"

lemma whohas_ok_len: "packet_len (header pkt) = word_of_nat (20 + 20 * len) \<Longrightarrow> len \<le> MAX_CHUNK
    \<Longrightarrow> length (pdata pkt) = DATA_LEN \<Longrightarrow> whohas_ok pkt"
proof -
  assume a: "packet_len (header pkt) = word_of_nat (20 + 20 * len)" "len \<le> MAX_CHUNK" "length (pdata pkt) = DATA_LEN"
  have "unat (word_of_nat (20 + 20 * len) :: u16) = 20 + 20 * len"
    using a(2) by (simp add: unat_of_nat MAX_CHUNK_def del: of_nat_add of_nat_mult)
  with a show ?thesis by (simp add: whohas_ok_def MAX_CHUNK_def PACKET_LEN_def)
qed

lemma missing_split: "missing (take k cs) @ missing (drop k cs) = missing cs"
  by (simp add: missing_def flip: filter_append)

lemma whohas_loop_ok:
  assumes mem: "\<And>i. \<exists>g. mem i = Some g \<and> length g = DATA_LEN" and al: "\<And>q xs. queued q xs \<Longrightarrow> fresh q (alloc q)"
    and h: "hashes_ok (chunks job)" and nc: "num_chunks job = length (chunks job)"
    and k: "k = num_chunks job div MAX_CHUNK"
  shows "i \<le> k \<Longrightarrow> queued q xs \<Longrightarrow> length d = DATA_LEN \<Longrightarrow>
    \<exists>d' q' ps. whohas_loop mem alloc job k [i..<k + 1] (d, q) = Inr (d', q') \<and> queued q' (xs @ map Some ps)
      \<and> length ps = k + 1 - i \<and> concat (map announced ps) = map chash (missing (drop (i * MAX_CHUNK) (chunks job)))
      \<and> (\<forall>p \<in> set ps. whohas_ok p) \<and> announced (last ps) = map chash (missing (drop (k * MAX_CHUNK) (chunks job)))"
proof (induction "k - i" arbitrary: i q xs d)
  case 0
  then have i: "i = k" by simp
  let ?len = "num_chunks job - k * MAX_CHUNK"
  have len: "k * MAX_CHUNK + ?len \<le> length (chunks job)" "?len \<le> MAX_CHUNK"
    using nc div_times_less_eq_dividend [of "num_chunks job" MAX_CHUNK]
      mod_less_divisor [of MAX_CHUNK "num_chunks job"] minus_div_mult_eq_mod [of "num_chunks job" MAX_CHUNK]
    by (auto simp: k MAX_CHUNK_def)
  obtain g where g: "mem k = Some g" "length g = DATA_LEN" using mem by blast
  obtain d' q' pkt where r: "queue_whohas (Some g) alloc job (k * MAX_CHUNK) ?len (d, q) = Inr (d', q')"
    "queued q' (xs @ [Some pkt])" "announced pkt = map chash (missing (take ?len (drop (k * MAX_CHUNK) (chunks job))))"
    "packet_len (header pkt) = word_of_nat (20 + 20 * ?len)" "length (pdata pkt) = DATA_LEN"
    using queue_whohas_ok [of q xs alloc, OF 0(3) al [OF 0(3)] g(2) 0(4) len h] by blast
  have "take ?len (drop (k * MAX_CHUNK) (chunks job)) = drop (k * MAX_CHUNK) (chunks job)" using nc by simp
  with r i g(1) whohas_ok_len [OF r(4) len(2) r(5)] show ?case
    by (intro exI [of _ d'] exI [of _ q'] exI [of _ "[pkt]"]) simp
next
  case (Suc x)
  then have i: "i < k" by simp
  have "Suc i * MAX_CHUNK \<le> k * MAX_CHUNK" using i by (intro mult_le_mono1) simp
  also have "\<dots> \<le> length (chunks job)" using nc by (simp add: k)
  finally have len: "i * MAX_CHUNK + MAX_CHUNK \<le> length (chunks job)" by simp
  obtain g where g: "mem i = Some g" "length g = DATA_LEN" using mem by blast
  obtain d1 q1 pkt where r: "queue_whohas (Some g) alloc job (i * MAX_CHUNK) MAX_CHUNK (d, q) = Inr (d1, q1)"
    "length d1 = DATA_LEN" "queued q1 (xs @ [Some pkt])"
    "announced pkt = map chash (missing (take MAX_CHUNK (drop (i * MAX_CHUNK) (chunks job))))"
    "packet_len (header pkt) = word_of_nat (20 + 20 * MAX_CHUNK)" "length (pdata pkt) = DATA_LEN"
    using queue_whohas_ok [of q xs alloc, OF Suc(4) al [OF Suc(4)] g(2) Suc(5) len order_refl h] by blast
  have "x = k - Suc i" "Suc i \<le> k" using Suc(2) i by simp_all
  from Suc(1) [OF this r(3,2)] obtain d' q' ps where l: "whohas_loop mem alloc job k [Suc i..<k + 1] (d1, q1) = Inr (d', q')"
    "queued q' ((xs @ [Some pkt]) @ map Some ps)" "length ps = k + 1 - Suc i"
    "concat (map announced ps) = map chash (missing (drop (Suc i * MAX_CHUNK) (chunks job)))"
    "\<forall>p \<in> set ps. whohas_ok p" "announced (last ps) = map chash (missing (drop (k * MAX_CHUNK) (chunks job)))"
    by blast
  have ps: "ps \<noteq> []" using l(3) i by auto
  have "concat (map announced (pkt # ps)) = map chash (missing (drop (i * MAX_CHUNK) (chunks job)))"
    using r(4) l(4) missing_split [of MAX_CHUNK "drop (i * MAX_CHUNK) (chunks job)"]
    by (simp add: add.commute flip: map_append)
  moreover have "whohas_loop mem alloc job k [i..<k + 1] (d, q) = Inr (d', q')"
    using i r(1) l(1) g(1) by (simp add: upt_conv_Cons)
  ultimately show ?case
    using l r whohas_ok_len [OF r(5) order_refl r(6)] i ps
    by (intro exI [of _ d'] exI [of _ q'] exI [of _ "pkt # ps"]) simp
qed


lemma make_whohas_ok:
  assumes mem: "\<And>i. \<exists>g. mem i = Some g \<and> length g = DATA_LEN" and al: "\<And>q xs. queued q xs \<Longrightarrow> fresh q (alloc q)"
    and h: "hashes_ok (chunks job)" and nc: "num_chunks job = length (chunks job)" "chunks job \<noteq> []"
    and st: "length stack = DATA_LEN"
  shows "\<exists>q ps. make_whohas mem alloc stack job = Inr (Some q) \<and> queued q (map Some ps)
    \<and> concat (map announced ps) = map chash (missing (chunks job)) \<and> (\<forall>p \<in> set ps. whohas_ok p)
    \<and> length ps = (if num_chunks job > MAX_CHUNK then num_chunks job div MAX_CHUNK + 1 else 1)
    \<and> (num_chunks job > MAX_CHUNK \<longrightarrow> announced (last ps)
        = map chash (missing (drop (num_chunks job div MAX_CHUNK * MAX_CHUNK) (chunks job))))"
proof (cases "num_chunks job > MAX_CHUNK")
  case True
  let ?k = "num_chunks job div MAX_CHUNK"
  have "\<exists>d' q' ps. whohas_loop mem alloc job ?k [0..<?k + 1] (stack, queue_init) = Inr (d', q')
      \<and> queued q' ([] @ map Some ps) \<and> length ps = ?k + 1 - 0
      \<and> concat (map announced ps) = map chash (missing (drop (0 * MAX_CHUNK) (chunks job)))
      \<and> (\<forall>p \<in> set ps. whohas_ok p) \<and> announced (last ps) = map chash (missing (drop (?k * MAX_CHUNK) (chunks job)))"
    by (rule whohas_loop_ok) (use mem al h nc(1) queued_init st in auto)
  then obtain d' q' ps where l: "whohas_loop mem alloc job ?k [0..<?k + 1] (stack, queue_init) = Inr (d', q')"
    "queued q' (map Some ps)" "length ps = ?k + 1" "concat (map announced ps) = map chash (missing (chunks job))"
    "\<forall>p \<in> set ps. whohas_ok p" "announced (last ps) = map chash (missing (drop (?k * MAX_CHUNK) (chunks job)))"
    by auto
  with True show ?thesis by (intro exI [of _ q'] exI [of _ ps]) (simp add: make_whohas_def Let_def)
next
  case False
  obtain g where g: "mem 0 = Some g" "length g = DATA_LEN" using mem by blast
  have len: "0 + num_chunks job \<le> length (chunks job)" "num_chunks job \<le> MAX_CHUNK" using False nc by simp_all
  obtain d' q' pkt where r: "queue_whohas (Some g) alloc job 0 (num_chunks job) (stack, queue_init) = Inr (d', q')"
    "queued q' ([] @ [Some pkt])" "announced pkt = map chash (missing (take (num_chunks job) (drop 0 (chunks job))))"
    "packet_len (header pkt) = word_of_nat (20 + 20 * num_chunks job)" "length (pdata pkt) = DATA_LEN"
    using queue_whohas_ok [of queue_init "[]" alloc, OF queued_init al [OF queued_init] g(2) st len h] by blast
  with False nc g(1) whohas_ok_len [OF r(4) len(2) r(5)] show ?thesis
    by (intro exI [of _ q'] exI [of _ "[pkt]"]) (simp add: make_whohas_def)
qed

text \<open>The sending loop returns: it sends the packets of the queue one after another, up to the first that
  fails.\<close>

fun send_each :: "bt_config_t \<Rightarrow> packet_t list \<Rightarrow> datagram list \<Rightarrow> datagram list result" where
  "send_each config [] ds = Inr ds"
| "send_each config (p # ps) ds = and_then (send_whohas config p) (\<lambda>d. send_each config ps (ds @ d))"

lemma send_all_ok: "queued q (map Some ps) \<Longrightarrow> send_all config q ds = Some (send_each config ps ds)"
proof (induction ps arbitrary: q ds)
  case Nil
  then show ?case using qu.deq_empty [of q] by (subst send_all.simps) simp
next
  case (Cons p ps)
  obtain q1 where q1: "dequeue q = Inr (q1, Some p)" "queued q1 (map Some ps)"
    using qu.deq_holds Cons.prems(1) by fastforce
  show ?case
  proof (cases "send_whohas config p")
    case (Inr d)
    with Cons.IH [OF q1(2), of "ds @ d"] q1(1) show ?thesis by (subst send_all.simps) simp
  qed (use q1(1) in \<open>subst send_all.simps, simp\<close>)
qed

subsection \<open>The chunk file\<close>

lemma hex_digit_char: "d < 16 \<Longrightarrow> \<not> isspace (hex_digit d) \<and> hex_digit d \<noteq> CHR 0x0A"
proof -
  assume "d < 16"
  moreover have "\<forall>d \<in> set [0..<16]. \<not> isspace (hex_digit d) \<and> hex_digit d \<noteq> CHR 0x0A" by code_simp
  ultimately show ?thesis by simp
qed

lemma binary2hex_chars: "c \<in> set (binary2hex bs) \<Longrightarrow> \<not> isspace c \<and> c \<noteq> CHR 0x0A"
proof -
  assume "c \<in> set (binary2hex bs)"
  then have "\<exists>b :: u8. c = hex_digit (unat (drop_bit 4 b)) \<or> c = hex_digit (unat (b AND 15))"
    by (auto simp: binary2hex_def hex_byte_def)
  then obtain b :: u8 where b: "c = hex_digit (unat (drop_bit 4 b)) \<or> c = hex_digit (unat (b AND 15))" ..
  show ?thesis using b hex_digit_char nibbles [of b] by auto
qed

lemma scan_chunk_line:
  assumes "length h = SHA1_HASH_SIZE" and "length buf = 2 * SHA1_HASH_SIZE"
  shows "scan_chunk (chunk_line i h) buf = Inl Undefined"
proof -
  have nd: "\<not> isdigit (CHR '' '')" by (simp add: isdigit_def)
  have "show_nat i = show_int (int i)" by (simp add: show_int_def)
  then have 1: "scan_int (chunk_line i h) = Some (int i, CHR '' '' # binary2hex h @ [CHR 0x0A])"
    using scan_show_int [of "CHR '' '' # binary2hex h @ [CHR 0x0A]" "int i"] by (simp add: chunk_line_def nd)
  have ne: "binary2hex h \<noteq> []" using assms(1) by (auto simp: SHA1_HASH_SIZE_def dest!: arg_cong [of _ "[]" length])
  have 2: "scan_str (CHR '' '' # binary2hex h @ CHR 0x0A # []) = Some (binary2hex h, [CHR 0x0A])"
    using ne binary2hex_chars by (intro scan_str_word) (auto simp: isspace_def)
  show ?thesis using 1 2 assms by (simp add: scan_chunk_def)
qed

subsection \<open>Properties\<close>

definition one_chunk :: bt_job where
  "one_chunk = \<lparr>num_chunks = 1, num_need = 1, num_living = 0,
     chunks = [\<lparr>cid = Some 0, chash = replicate 20 7, cur_size = 0, num_p = 0\<rparr>],
     get_chunk_file = ''a.chunks''\<rparr>"

text \<open>C25. The WHOHAS packets of a job with at least one chunk: \<open>make_whohas\<close> returns a queue of packets
  that together announce the hashes of exactly the chunks that are not complete, each once and in the
  order of the chunk file; every packet has between 20 and 1500 bytes and nothing is written outside
  the 1484 bytes of the payload buffer. With more than 74 chunks there are \<open>n div 74 + 1\<close> packets, so
  when 74 divides the number of chunks the last packet announces nothing.\<close>

theorem whohas_announces:
  assumes "\<forall>i. \<exists>g. mem i = Some g \<and> length g = DATA_LEN" and "\<forall>q xs. queued q xs \<longrightarrow> fresh q (alloc q)"
    and "hashes_ok (chunks job)" and "num_chunks job = length (chunks job)" and "chunks job \<noteq> []"
    and "length stack = DATA_LEN"
  shows "\<exists>q ps. make_whohas mem alloc stack job = Inr (Some q) \<and> queued q (map Some ps)
    \<and> concat (map announced ps) = map chash (missing (chunks job)) \<and> (\<forall>p \<in> set ps. whohas_ok p)
    \<and> length ps = (if num_chunks job > MAX_CHUNK then num_chunks job div MAX_CHUNK + 1 else 1)
    \<and> (num_chunks job > MAX_CHUNK \<and> MAX_CHUNK dvd num_chunks job \<longrightarrow> announced (last ps) = [])"
proof -
  obtain q ps where r: "make_whohas mem alloc stack job = Inr (Some q)" "queued q (map Some ps)"
    "concat (map announced ps) = map chash (missing (chunks job))" "\<forall>p \<in> set ps. whohas_ok p"
    "length ps = (if num_chunks job > MAX_CHUNK then num_chunks job div MAX_CHUNK + 1 else 1)"
    "num_chunks job > MAX_CHUNK \<longrightarrow> announced (last ps)
        = map chash (missing (drop (num_chunks job div MAX_CHUNK * MAX_CHUNK) (chunks job)))"
    using make_whohas_ok [of mem alloc job stack] assms by blast
  have "missing (drop (num_chunks job div MAX_CHUNK * MAX_CHUNK) (chunks job)) = []" if "MAX_CHUNK dvd num_chunks job"
    using that assms(4) by (simp add: missing_def)
  with r show ?thesis by (intro exI [of _ q] exI [of _ ps]) simp
qed

theorem whohas_announces_witness:
  "\<exists>q ps. make_whohas (\<lambda>_. Some (replicate DATA_LEN 0)) next_addr (replicate DATA_LEN 0) one_chunk = Inr (Some q)
     \<and> queued q (map Some ps) \<and> concat (map announced ps) = [replicate 20 7]"
proof -
  have "hashes_ok (chunks one_chunk)" "num_chunks one_chunk = length (chunks one_chunk)" "chunks one_chunk \<noteq> []"
    "map chash (missing (chunks one_chunk)) = [replicate 20 7]"
    by (simp_all add: one_chunk_def hashes_ok_def SHA1_HASH_SIZE_def missing_def)
  with whohas_announces [of "\<lambda>_. Some (replicate DATA_LEN 0)" next_addr one_chunk "replicate DATA_LEN 0"] next_addr_fresh
  show ?thesis by fastforce
qed

text \<open>Every chunk file with a full hash overruns \<open>hash_buffer\<close>: when its first line is one that \<open>make-chunks\<close> writes, a
  GET command is undefined, because \<open>sscanf\<close> writes 40 digits and a NUL into 40 bytes.\<close>

theorem get_overruns:
  assumes "files cf = Some (chunk_line i h @ rest)" and "length h = SHA1_HASH_SIZE" and "i < 10 ^ 17"
    and "length stack1 = 2 * SHA1_HASH_SIZE"
  shows "process_get files mem alloc stack1 stack2 config job cf out = Inl Undefined"
proof -
  let ?l = "show_nat i @ '' '' @ binary2hex h"
  have "CHR 0x0A \<notin> set (show_nat i)" using show_nat_digits [of "CHR 0x0A" i] by (auto simp: isdigit_def)
  moreover have "CHR 0x0A \<notin> set (binary2hex h)" using binary2hex_chars by blast
  ultimately have "CHR 0x0A \<notin> set ?l" by simp
  moreover have "length ?l + 1 < BUF_SIZE"
    using length_show_nat [OF assms(3)] assms(2) by (simp add: BUF_SIZE_def SHA1_HASH_SIZE_def)
  ultimately have "fgets BUF_SIZE (?l @ CHR 0x0A # rest) = Some (?l @ [CHR 0x0A], rest)" by (rule fgets_line)
  then have "fgets BUF_SIZE (chunk_line i h @ rest) = Some (chunk_line i h, rest)"
    by (simp add: chunk_line_def)
  then have "fgets_all BUF_SIZE (chunk_line i h @ rest) = chunk_line i h # fgets_all BUF_SIZE rest"
    by (subst fgets_all.simps) (simp add: BUF_SIZE_def)
  then have "init_job files stack1 cf out config job = Inl Undefined"
    using assms(1) scan_chunk_line [OF assms(2,4)] by (simp add: init_job_def and_then_def)
  then show ?thesis by (simp add: process_get_def and_then_def)
qed

theorem get_overruns_witness:
  "process_get (\<lambda>_. Some (chunk_line 0 (replicate 20 7) @ [])) (\<lambda>_. None) next_addr (replicate 40 CHR 0x00) [] bt_init one_chunk
     ''a.chunks'' ''a.out'' = Inl Undefined"
  by (rule get_overruns [where i = 0 and h = "replicate 20 7" and rest = "[]"]) (simp_all add: SHA1_HASH_SIZE_def)

end
