(* ===== verification/Spiffy.thy ===== *)
theory Spiffy
  imports Bt_Parse
begin

section \<open>The simulated network (project2 spiffy.c)\<close>

text \<open>
  All datagrams of the client pass through a router: \<open>spiffy_sendto\<close> puts a header with the
  source and the destination in front and sends to the router, \<open>spiffy_recvfrom\<close> takes the header off
  and reports the source it names. Addresses and ports are in network byte order. The results of
  \<open>malloc\<close>, \<open>sendto\<close> and \<open>recvfrom\<close> are arguments, and the environment variable is the argument of
  \<open>spiffy_init\<close>.
\<close>

record endpoint =
  ep_addr :: u32
  ep_port :: u16

record spiffy =
  glSrcAddr :: u32
  gsSrcPort :: u16
  giSpiffyEnabled :: bool
  glNodeID :: u32
  gsSpiffyRouter :: endpoint

record spiffy_header =
  ID :: u32
  lSrcAddr :: u32
  lDestAddr :: u32
  lSrcPort :: u16
  lDestPort :: u16

definition SPIFFY_HEADER :: nat where "SPIFFY_HEADER = 16"

definition spiffy_bytes :: "spiffy_header \<Rightarrow> u8 list" where
  "spiffy_bytes h = bytes_of_word True 4 (ID h) @ bytes_of_word True 4 (lSrcAddr h)
     @ bytes_of_word True 4 (lDestAddr h) @ bytes_of_word True 2 (lSrcPort h) @ bytes_of_word True 2 (lDestPort h)"

definition spiffy_at :: "u8 list \<Rightarrow> spiffy_header" where
  "spiffy_at m = \<lparr>ID = word_of_le (take 4 m), lSrcAddr = word_of_le (take 4 (drop 4 m)),
     lDestAddr = word_of_le (take 4 (drop 8 m)), lSrcPort = word_of_le (take 2 (drop 12 m)),
     lDestPort = word_of_le (take 2 (drop 14 m))\<rparr>"

text \<open>The return value and what is handed to \<open>sendto\<close>, if it is called; \<open>ret\<close> is the result of
  \<open>sendto\<close>.\<close>

definition spiffy_sendto :: "spiffy \<Rightarrow> bool \<Rightarrow> bool \<Rightarrow> int \<Rightarrow> u8 list \<Rightarrow> endpoint \<Rightarrow> int \<times> (u8 list \<times> endpoint) option" where
  "spiffy_sendto st mem inet ret msg dest =
     (if \<not> giSpiffyEnabled st then (ret, Some (msg, dest))
      else if \<not> mem then (-1, None)
      else if \<not> inet then (-1, None)
      else
        let s_head = \<lparr>ID = htonl (glNodeID st), lSrcAddr = glSrcAddr st, lDestAddr = ep_addr dest,
              lSrcPort = gsSrcPort st, lDestPort = ep_port dest\<rparr>
        in (if ret > 0 then ret - int SPIFFY_HEADER else ret,
            Some (spiffy_bytes s_head @ msg, gsSpiffyRouter st)))"

text \<open>\<open>arrived\<close> is the datagram at the socket, \<open>None\<close> for an error; \<open>newbuf\<close> is the block \<open>malloc\<close> returns
  with its old contents. The result is the return value, the contents of the buffer of the caller and
  the source address it is told.\<close>

definition spiffy_recvfrom :: "spiffy \<Rightarrow> u8 list option \<Rightarrow> (u8 list \<times> endpoint) option \<Rightarrow> u8 list \<Rightarrow> endpoint
    \<Rightarrow> int \<times> u8 list \<times> endpoint" where
  "spiffy_recvfrom st mem arrived buf src =
     (let sz = length buf in
      if \<not> giSpiffyEnabled st then
        (case arrived of None \<Rightarrow> (-1, buf, src)
         | Some (d, s) \<Rightarrow> let r = take sz d in (int (length r), r @ drop (length r) buf, s))
      else case mem of None \<Rightarrow> (-1, buf, src)
      | Some old \<Rightarrow>
          (case arrived of None \<Rightarrow> (-1, buf, src)
           | Some (d, s) \<Rightarrow>
               let r = take (sz + SPIFFY_HEADER) d; newbuf = r @ drop (length r) old in
               if length r > 0 then
                 let s_head = spiffy_at newbuf in
                 (int (length r) - int SPIFFY_HEADER, take sz (drop SPIFFY_HEADER newbuf),
                  \<lparr>ep_addr = lSrcAddr s_head, ep_port = lSrcPort s_head\<rparr>)
               else (0, buf, src)))"

text \<open>\<open>inet_aton\<close> is a parameter.\<close>

definition spiffy_init :: "(string \<Rightarrow> u32 option) \<Rightarrow> string option \<Rightarrow> u32 \<Rightarrow> endpoint \<Rightarrow> spiffy \<Rightarrow> int \<times> spiffy" where
  "spiffy_init inet_aton env lNodeID addr st =
     (case env of None \<Rightarrow> (1, st)
      | Some name \<Rightarrow> (case strchr name (CHR '':'') of
            None \<Rightarrow> (-1, st)
          | Some i \<Rightarrow>
              let st1 = st\<lparr>gsSpiffyRouter := (gsSpiffyRouter st)\<lparr>ep_port := htons (word_of_int (atoi (drop (i + 1) name)))\<rparr>\<rparr> in
              (case inet_aton (take i name) of
                 None \<Rightarrow> (-1, st1)
               | Some a \<Rightarrow> (0, st1\<lparr>gsSpiffyRouter := (gsSpiffyRouter st1)\<lparr>ep_addr := a\<rparr>, giSpiffyEnabled := True,
                   glNodeID := lNodeID, glSrcAddr := ep_addr addr, gsSrcPort := ep_port addr\<rparr>))))"

subsection \<open>Sent and received\<close>

lemma length_spiffy_bytes [simp]: "length (spiffy_bytes h) = 16"
  by (simp add: spiffy_bytes_def u16_bytes u32_bytes)

lemma spiffy_at_bytes: "spiffy_at (spiffy_bytes h @ r) = h"
  by (cases h) (simp add: spiffy_at_def spiffy_bytes_def u16_bytes u32_bytes u16_le u32_le del: word_of_le.simps)

text \<open>Through the router: what a client with the router enabled sends is addressed to the router,
  and when the same bytes arrive at another client, \<open>spiffy_recvfrom\<close> returns the length of the message,
  stores the message at the start of the buffer, and reports as source the address and port the sender
  gave to \<open>spiffy_init\<close>, whoever delivered the datagram; a message longer than the buffer is cut to it.\<close>

theorem spiffy_roundtrip:
  assumes "giSpiffyEnabled st" and "giSpiffyEnabled st'" and "length old = length buf + SPIFFY_HEADER"
    and "spiffy_sendto st True True ret msg dest = (r, Some (d, via))"
  shows "via = gsSpiffyRouter st \<and> spiffy_recvfrom st' (Some old) (Some (d, s)) buf src
    = (int (min (length msg) (length buf)),
       take (length buf) (msg @ drop (SPIFFY_HEADER + length msg) old),
       \<lparr>ep_addr = glSrcAddr st, ep_port = gsSrcPort st\<rparr>)"
proof -
  let ?h = "\<lparr>ID = htonl (glNodeID st), lSrcAddr = glSrcAddr st, lDestAddr = ep_addr dest,
              lSrcPort = gsSrcPort st, lDestPort = ep_port dest\<rparr>"
  have d: "d = spiffy_bytes ?h @ msg" "via = gsSpiffyRouter st"
    using assms(1,4) by (auto simp: spiffy_sendto_def Let_def)
  have t: "take (length buf + SPIFFY_HEADER) d = spiffy_bytes ?h @ take (length buf) msg"
    by (simp add: d SPIFFY_HEADER_def)
  have "spiffy_at ((spiffy_bytes ?h @ take (length buf) msg) @ x) = ?h" for x
    using spiffy_at_bytes [of ?h "take (length buf) msg @ x"] by simp
  then show ?thesis
    using assms(2,3) d(2) unfolding spiffy_recvfrom_def Let_def option.case prod.case t
    by (simp add: SPIFFY_HEADER_def min_def)
qed

theorem spiffy_roundtrip_witness:
  "spiffy_recvfrom \<lparr>glSrcAddr = 9, gsSrcPort = 9, giSpiffyEnabled = True, glNodeID = 2, gsSpiffyRouter = \<lparr>ep_addr = 1, ep_port = 1\<rparr>\<rparr>
     (Some (replicate 20 0)) (Some (the (snd (spiffy_sendto \<lparr>glSrcAddr = 7, gsSrcPort = 8, giSpiffyEnabled = True,
        glNodeID = 1, gsSpiffyRouter = \<lparr>ep_addr = 1, ep_port = 1\<rparr>\<rparr> True True 18 [5, 6] \<lparr>ep_addr = 9, ep_port = 9\<rparr>))))
     [0, 0, 0, 0] \<lparr>ep_addr = 0, ep_port = 0\<rparr>
   = (2, [5, 6, 0, 0], \<lparr>ep_addr = 7, ep_port = 8\<rparr>)"
proof -
  let ?st = "\<lparr>glSrcAddr = 7, gsSrcPort = 8, giSpiffyEnabled = True, glNodeID = 1, gsSpiffyRouter = \<lparr>ep_addr = 1, ep_port = 1\<rparr>\<rparr>"
  obtain r d via where s: "spiffy_sendto ?st True True 18 [5, 6] \<lparr>ep_addr = 9, ep_port = 9\<rparr> = (r, Some (d, via))"
    by (simp add: spiffy_sendto_def Let_def)
  from spiffy_roundtrip [OF _ _ _ s, of "\<lparr>glSrcAddr = 9, gsSrcPort = 9, giSpiffyEnabled = True, glNodeID = 2,
      gsSpiffyRouter = \<lparr>ep_addr = 1, ep_port = 1\<rparr>\<rparr>" "replicate 20 0" "[0, 0, 0, 0]" via "\<lparr>ep_addr = 0, ep_port = 0\<rparr>"] s
  show ?thesis by (auto simp: SPIFFY_HEADER_def)
qed

end
