(* ===== verification/Rio.thy ===== *)
theory Rio
  imports Cstr "HOL-Library.Monad_Syntax"
begin

section \<open>Robust input and output (proxylab csapp.c, the Rio and Sio packages)\<close>

text \<open>
  A descriptor that is read is the sequence of answers the kernel will give: some bytes, an
  interruption by a signal (\<open>EINTR\<close>) or another error, and the end of the file after the last one. One
  call of \<open>read\<close> takes at most the bytes asked for. A descriptor that is written is the sequence of
  numbers of bytes the kernel accepts. \<open>None\<close> is the result of a call that never returns; an error
  return of -1 is \<open>Some\<close> of a state and \<open>None\<close>.
\<close>

subsection \<open>Descriptors\<close>

datatype answer = Bytes string | Eintr | Eio

type_synonym fd = "answer list"

datatype got = Got string | Again | Failed

text \<open>\<open>read(fd, buf, n)\<close>. An empty answer is an end of file, as on a terminal.\<close>

fun fd_read :: "fd \<Rightarrow> nat \<Rightarrow> fd \<times> got" where
  "fd_read [] n = ([], Got [])"
| "fd_read (Bytes d # as) n = (if length d \<le> n then (as, Got d) else (Bytes (drop n d) # as, Got (take n d)))"
| "fd_read (Eintr # as) n = (as, Again)"
| "fd_read (Eio # as) n = (as, Failed)"

subsection \<open>Reading a number of bytes\<close>

text \<open>The loop of \<open>rio_readn\<close> and \<open>rio_readnb\<close>; \<open>rd\<close> is the function that is called in it. \<open>rio_readnb\<close> never
  gets the answer \<open>Again\<close>.\<close>

partial_function (option) readn_loop ::
  "('s \<Rightarrow> nat \<Rightarrow> 's \<times> got) \<Rightarrow> 's \<Rightarrow> nat \<Rightarrow> string \<Rightarrow> ('s \<times> string option) option" where
  [code]: "readn_loop rd s nleft acc =
     (if nleft > 0 then
        (case rd s nleft of
           (s', Failed) \<Rightarrow> Some (s', None)
         | (s', Again) \<Rightarrow> readn_loop rd s' nleft acc
         | (s', Got d) \<Rightarrow> if d = [] then Some (s', Some acc) else readn_loop rd s' (nleft - length d) (acc @ d))
      else Some (s, Some acc))"

definition rio_readn :: "fd \<Rightarrow> nat \<Rightarrow> (fd \<times> string option) option" where
  "rio_readn f n = readn_loop fd_read f n []"

subsection \<open>Buffered reading\<close>

definition RIO_BUFSIZE :: nat where "RIO_BUFSIZE = 8192"

text \<open>The bytes from \<open>rio_bufptr\<close> on that are not read yet stand for \<open>rio_bufptr\<close> and \<open>rio_cnt\<close>.\<close>

record rio_t =
  rio_fd :: fd
  unread :: string

definition rio_readinitb :: "fd \<Rightarrow> rio_t" where
  "rio_readinitb f = \<lparr>rio_fd = f, unread = []\<rparr>"

text \<open>The refill loop ends: an interruption is an answer used up.\<close>

fun refill :: "fd \<Rightarrow> fd \<times> got" where
  "refill (Eintr # as) = refill as"
| "refill f = fd_read f RIO_BUFSIZE"

definition rio_read :: "rio_t \<Rightarrow> nat \<Rightarrow> rio_t \<times> got" where
  "rio_read rp n =
     (if unread rp = [] then
        (case refill (rio_fd rp) of
           (f, Got d) \<Rightarrow> if d = [] then (rp\<lparr>rio_fd := f\<rparr>, Got [])
                          else (rp\<lparr>rio_fd := f, unread := drop n d\<rparr>, Got (take n d))
         | (f, _) \<Rightarrow> (rp\<lparr>rio_fd := f\<rparr>, Failed))
      else (rp\<lparr>unread := drop n (unread rp)\<rparr>, Got (take n (unread rp))))"

definition rio_readnb :: "rio_t \<Rightarrow> nat \<Rightarrow> (rio_t \<times> string option) option" where
  "rio_readnb rp n = readn_loop rio_read rp n []"

text \<open>The loop of \<open>rio_readlineb\<close>: \<open>k\<close> more characters fit before the NUL.\<close>

fun line_loop :: "('s \<Rightarrow> nat \<Rightarrow> 's \<times> got) \<Rightarrow> 's \<Rightarrow> nat \<Rightarrow> string \<Rightarrow> 's \<times> string option" where
  "line_loop rd s 0 acc = (s, Some acc)"
| "line_loop rd s (Suc k) acc =
     (case rd s 1 of
        (s', Got (c # _)) \<Rightarrow> if c = CHR 0x0A then (s', Some (acc @ [c])) else line_loop rd s' k (acc @ [c])
      | (s', Got []) \<Rightarrow> (s', Some acc)
      | (s', _) \<Rightarrow> (s', None))"

definition rio_readlineb :: "rio_t \<Rightarrow> nat \<Rightarrow> rio_t \<times> string option" where
  "rio_readlineb rp maxlen = line_loop rio_read rp (maxlen - 1) []"

subsection \<open>Writing\<close>

datatype accept = Takes nat | W_eintr | W_error

text \<open>What has reached the descriptor, and whether all was written. After the last answer the kernel
  takes everything.\<close>

fun rio_writen :: "accept list \<Rightarrow> string \<Rightarrow> string \<times> bool" where
  "rio_writen as [] = ([], True)"
| "rio_writen [] s = (s, True)"
| "rio_writen (Takes k # as) s =
     (if k = 0 then ([], False)
      else let (w, ok) = rio_writen as (drop k s) in (take k s @ w, ok))"
| "rio_writen (W_eintr # as) s = rio_writen as s"
| "rio_writen (W_error # as) s = ([], False)"

subsection \<open>Numbers without stdio\<close>

text \<open>The swapping loop of \<open>sio_reverse\<close>.\<close>

function swap_ends :: "string \<Rightarrow> nat \<Rightarrow> nat \<Rightarrow> string" where
  "swap_ends s i j = (if i < j then swap_ends (s[i := s ! j, j := s ! i]) (i + 1) (j - 1) else s)"
  by pat_completeness auto
termination by (relation "measure (\<lambda>(s, i, j). j)") auto

declare swap_ends.simps [simp del]

definition sio_reverse :: "string \<Rightarrow> string" where
  "sio_reverse s = (if s = [] then s else swap_ends s 0 (length s - 1))"

text \<open>\<open>/\<close> and \<open>%\<close> round towards zero.\<close>

definition c_div :: "int \<Rightarrow> int \<Rightarrow> int" where
  "c_div a b = sgn a * sgn b * (\<bar>a\<bar> div \<bar>b\<bar>)"

definition c_mod :: "int \<Rightarrow> int \<Rightarrow> int" where
  "c_mod a b = a - c_div a b * b"

definition ltoa_digit :: "int \<Rightarrow> char" where
  "ltoa_digit c = (if c < 10 then char_of (nat ((c + 48) mod 256)) else char_of (nat ((c - 10 + 97) mod 256)))"

function ltoa_loop :: "int \<Rightarrow> int \<Rightarrow> string" where
  "ltoa_loop v b = ltoa_digit (c_mod v b) # (if 1 < b \<and> c_div v b > 0 then ltoa_loop (c_div v b) b else [])"
  by pat_completeness auto
termination
proof (relation "measure (\<lambda>(v, b). nat v)", goal_cases)
  case (2 v b)
  then have "0 < v"
    by (auto simp: c_div_def sgn_if pos_imp_zdiv_neg_iff split: if_splits)
  with 2 have "c_div v b < v" by (auto simp: c_div_def intro: int_div_less_self)
  with \<open>0 < v\<close> show ?case by auto
qed simp

declare ltoa_loop.simps [simp del]

definition sio_ltoa :: "int \<Rightarrow> int \<Rightarrow> string" where
  "sio_ltoa v b = sio_reverse (ltoa_loop v b)"

definition sio_putl :: "int \<Rightarrow> string" where
  "sio_putl v = sio_ltoa v 10"


subsection \<open>The interface of a source of bytes\<close>

text \<open>
  What the reading loops rely on: each call returns a non-empty beginning of the contents that are
  left, no longer than asked for, or nothing when nothing is left; and calls that return neither use
  something up. The loops are then correct for every such source.
\<close>

locale reader =
  fixes rd :: "'s \<Rightarrow> nat \<Rightarrow> 's \<times> got" and contents :: "'s \<Rightarrow> string" and ok :: "'s \<Rightarrow> bool" and left :: "'s \<Rightarrow> nat"
  assumes rd_Got: "ok s \<Longrightarrow> 0 < k \<Longrightarrow> rd s k = (s', Got d) \<Longrightarrow>
      ok s' \<and> contents s = d @ contents s' \<and> length d \<le> k \<and> (d = [] \<longrightarrow> contents s = []) \<and> (d \<noteq> [] \<longrightarrow> left s' < left s)"
    and rd_Again: "ok s \<Longrightarrow> 0 < k \<Longrightarrow> rd s k = (s', Again) \<Longrightarrow> ok s' \<and> contents s' = contents s \<and> left s' < left s"
    and rd_Failed: "ok s \<Longrightarrow> 0 < k \<Longrightarrow> rd s k \<noteq> (s', Failed)"
begin

lemma readn_contents:
  "ok s \<Longrightarrow> \<exists>s'. readn_loop rd s k acc = Some (s', Some (acc @ take k (contents s)))
     \<and> contents s' = drop k (contents s) \<and> ok s'"
proof (induction "left s" arbitrary: s k acc rule: less_induct)
  case less
  show ?case
  proof (cases "k = 0")
    case True
    then show ?thesis using less.prems by (subst readn_loop.simps) simp
  next
    case False
    obtain s1 g where r: "rd s k = (s1, g)" by fastforce
    show ?thesis
    proof (cases g)
      case (Got d)
      note g = rd_Got [OF less.prems _ r [unfolded Got]]
      show ?thesis
      proof (cases "d = []")
        case True
        then have "contents s = []" "contents s1 = []" "ok s1" using g False by auto
        with True False r Got show ?thesis by (subst readn_loop.simps) simp
      next
        case d: False
        then have "left s1 < left s" "ok s1" "contents s = d @ contents s1" "length d \<le> k" using g False by auto
        with less.hyps [of s1 "k - length d" "acc @ d"] False d r Got show ?thesis
          by (subst readn_loop.simps) simp
      qed
    next
      case Again
      note g = rd_Again [OF less.prems _ r [unfolded Again]]
      with less.hyps [of s1 k acc] False r Again show ?thesis by (subst readn_loop.simps) simp
    next
      case Failed
      with rd_Failed [OF less.prems] r False show ?thesis by blast
    qed
  qed
qed

end

text \<open>A source that never asks to call again.\<close>

locale steady_reader = reader +
  assumes steady: "ok s \<Longrightarrow> 0 < k \<Longrightarrow> rd s k \<noteq> (s', Again)"
begin

text \<open>A line: up to and with the first newline, but at most \<open>k\<close> characters.\<close>

lemma line_contents:
  "ok s \<Longrightarrow> \<exists>s' l. line_loop rd s k acc = (s', Some (acc @ l)) \<and> ok s' \<and> contents s = l @ contents s'
     \<and> length l \<le> k \<and> CHR 0x0A \<notin> set (butlast l)
     \<and> (length l < k \<and> (l = [] \<or> last l \<noteq> CHR 0x0A) \<longrightarrow> contents s' = [])"
proof (induction k arbitrary: s acc)
  case (Suc k)
  obtain s1 g where r: "rd s 1 = (s1, g)" by fastforce
  show ?case
  proof (cases g)
    case (Got d)
    note g = rd_Got [OF Suc.prems _ r [unfolded Got]]
    show ?thesis
    proof (cases d)
      case Nil
      then have "contents s = []" "contents s1 = []" "ok s1" using g by auto
      with Nil r Got show ?thesis by (intro exI [of _ s1] exI [of _ "[]"]) simp
    next
      case (Cons c d')
      then have d: "d = [c]" "ok s1" "contents s = c # contents s1" using g by auto
      show ?thesis
      proof (cases "c = CHR 0x0A")
        case True
        with d r Got show ?thesis by (intro exI [of _ s1] exI [of _ "[c]"]) simp
      next
        case False
        from Suc.IH [OF d(2), of "acc @ [c]"] obtain s' l where l: "line_loop rd s1 k (acc @ [c]) = (s', Some ((acc @ [c]) @ l))"
          "ok s'" "contents s1 = l @ contents s'" "length l \<le> k" "CHR 0x0A \<notin> set (butlast l)"
          "length l < k \<and> (l = [] \<or> last l \<noteq> CHR 0x0A) \<longrightarrow> contents s' = []" by blast
        with False d r Got show ?thesis by (intro exI [of _ s'] exI [of _ "c # l"]) auto
      qed
    qed
  next
    case Again
    with steady [OF Suc.prems] r show ?thesis by auto
  next
    case Failed
    with rd_Failed [OF Suc.prems] r show ?thesis by auto
  qed
qed (auto intro: exI [of _ "[]"])

lemma line_exact:
  "ok s \<Longrightarrow> contents s = l @ CHR 0x0A # r \<Longrightarrow> CHR 0x0A \<notin> set l \<Longrightarrow> length l < k \<Longrightarrow>
     \<exists>s'. line_loop rd s k acc = (s', Some (acc @ l @ [CHR 0x0A])) \<and> ok s' \<and> contents s' = r"
proof (induction l arbitrary: s k acc)
  case Nil
  then obtain j where k: "k = Suc j" by (cases k) auto
  obtain s1 g where g: "rd s 1 = (s1, g)" by fastforce
  with rd_Got [OF Nil.prems(1), of 1] steady [OF Nil.prems(1), of 1] rd_Failed [OF Nil.prems(1), of 1] obtain d where
    d: "g = Got d" "ok s1" "contents s = d @ contents s1" "length d \<le> 1" "d = [] \<longrightarrow> contents s = []" by (cases g) auto
  then have "d = [CHR 0x0A]" "contents s1 = r" using Nil.prems(2) by (cases d; auto)+
  with d g k show ?case by simp
next
  case (Cons c l)
  then obtain j where k: "k = Suc j" "length l < j" by (cases k) auto
  obtain s1 g where g: "rd s 1 = (s1, g)" by fastforce
  with rd_Got [OF Cons.prems(1), of 1] steady [OF Cons.prems(1), of 1] rd_Failed [OF Cons.prems(1), of 1] obtain d where
    d: "g = Got d" "ok s1" "contents s = d @ contents s1" "length d \<le> 1" "d = [] \<longrightarrow> contents s = []" by (cases g) auto
  then have "d = [c]" "contents s1 = l @ CHR 0x0A # r" using Cons.prems(2) by (cases d; auto)+
  with Cons.IH [OF d(2), of j "acc @ [c]"] Cons.prems(3) d g k show ?case by auto
qed

lemma line_at_end:
  assumes "ok s" and "contents s = []"
  shows "\<exists>s'. line_loop rd s (Suc k) acc = (s', Some acc) \<and> ok s' \<and> contents s' = []"
proof -
  obtain s1 g where g: "rd s 1 = (s1, g)" by fastforce
  with rd_Got [OF assms(1), of 1] steady [OF assms(1), of 1] rd_Failed [OF assms(1), of 1] assms(2) obtain d where
    "g = Got d" "ok s1" "d = []" "contents s1 = []" by (cases g) auto
  with g show ?thesis by simp
qed

end

subsection \<open>Descriptors and buffers are sources\<close>

fun no_error :: "fd \<Rightarrow> bool" where
  "no_error [] \<longleftrightarrow> True"
| "no_error (Bytes d # as) \<longleftrightarrow> d \<noteq> [] \<and> no_error as"
| "no_error (Eintr # as) \<longleftrightarrow> no_error as"
| "no_error (Eio # as) \<longleftrightarrow> False"

fun stream :: "fd \<Rightarrow> string" where
  "stream [] = []"
| "stream (Bytes d # as) = d @ stream as"
| "stream (_ # as) = stream as"

fun answers_left :: "fd \<Rightarrow> nat" where
  "answers_left [] = 0"
| "answers_left (Bytes d # as) = length d + 1 + answers_left as"
| "answers_left (_ # as) = 1 + answers_left as"

lemma fd_read_cases:
  assumes "no_error f" and "0 < k"
  obtains d f' where "fd_read f k = (f', Got d)" "no_error f'" "stream f = d @ stream f'" "length d \<le> k"
      "d = [] \<longrightarrow> stream f = []" "d \<noteq> [] \<longrightarrow> answers_left f' < answers_left f"
  | f' where "fd_read f k = (f', Again)" "f = Eintr # f'" "no_error f'"
proof (cases "(f, k)" rule: fd_read.cases)
  case (2 d as n)
  with assms that show ?thesis by (cases "length d \<le> k") auto
qed (use assms that in auto)

interpretation fdr: reader fd_read stream no_error answers_left
proof
  fix f f' d and k :: nat
  assume a: "no_error f" "0 < k"
  from a show "no_error f' \<and> stream f = d @ stream f' \<and> length d \<le> k \<and> (d = [] \<longrightarrow> stream f = [])
      \<and> (d \<noteq> [] \<longrightarrow> answers_left f' < answers_left f)" if "fd_read f k = (f', Got d)"
    by (cases rule: fd_read_cases) (use that in auto)
  from a show "no_error f' \<and> stream f' = stream f \<and> answers_left f' < answers_left f" if "fd_read f k = (f', Again)"
    by (cases rule: fd_read_cases) (use that in auto)
  from a show "fd_read f k \<noteq> (f', Failed)"
    by (cases rule: fd_read_cases) auto
qed

definition rio_ok :: "rio_t \<Rightarrow> bool" where
  "rio_ok rp \<longleftrightarrow> no_error (rio_fd rp)"

definition rio_contents :: "rio_t \<Rightarrow> string" where
  "rio_contents rp = unread rp @ stream (rio_fd rp)"

lemma refill_ok:
  "no_error f \<Longrightarrow> \<exists>f' d. refill f = (f', Got d) \<and> no_error f' \<and> stream f = d @ stream f' \<and> (d = [] \<longrightarrow> stream f = [])"
proof (induction f)
  case (Cons a as)
  show ?case
  proof (cases a)
    case (Bytes d)
    have "0 < RIO_BUFSIZE" by (simp add: RIO_BUFSIZE_def)
    with Bytes Cons.prems show ?thesis by (cases "length d \<le> RIO_BUFSIZE") auto
  qed (use Cons in auto)
qed simp

lemma rio_read_cases:
  assumes "rio_ok rp" and "0 < k"
  shows "\<exists>rp' d. rio_read rp k = (rp', Got d) \<and> rio_ok rp' \<and> rio_contents rp = d @ rio_contents rp' \<and> length d \<le> k
    \<and> (d = [] \<longrightarrow> rio_contents rp = [])"
proof (cases "unread rp = []")
  case True
  obtain f' d where r: "refill (rio_fd rp) = (f', Got d)" "no_error f'" "stream (rio_fd rp) = d @ stream f'"
    "d = [] \<longrightarrow> stream (rio_fd rp) = []"
    using refill_ok assms(1) unfolding rio_ok_def by blast
  with True assms(2) show ?thesis by (cases "d = []") (auto simp: rio_read_def rio_ok_def rio_contents_def)
next
  case False
  with assms show ?thesis by (auto simp: rio_read_def rio_ok_def rio_contents_def)
qed

interpretation rio: steady_reader rio_read rio_contents rio_ok "\<lambda>rp. length (rio_contents rp)"
proof
  fix rp rp' d and k :: nat
  assume a: "rio_ok rp" "0 < k"
  from rio_read_cases [OF this] show "rio_ok rp' \<and> rio_contents rp = d @ rio_contents rp' \<and> length d \<le> k
      \<and> (d = [] \<longrightarrow> rio_contents rp = []) \<and> (d \<noteq> [] \<longrightarrow> length (rio_contents rp') < length (rio_contents rp))"
    if "rio_read rp k = (rp', Got d)" using that by auto
  from rio_read_cases [OF a] show "rio_read rp k \<noteq> (rp', Failed)" "rio_read rp k \<noteq> (rp', Again)" by auto
  from rio_read_cases [OF a]
  show "rio_ok rp' \<and> rio_contents rp' = rio_contents rp \<and> length (rio_contents rp') < length (rio_contents rp)"
    if "rio_read rp k = (rp', Again)" using that by auto
qed

end
