(* ===== verification/Rio_Props.thy ===== *)
theory Rio_Props
  imports Rio
begin

section \<open>Properties of robust input and output\<close>

text \<open>
  The reading functions under every sequence of answers of the kernel, and the conversion of
  numbers, which is compared with the decimal notation of \<open>printf\<close>.
\<close>

subsection \<open>Reading\<close>

text \<open>\<open>rio_readn\<close>: whatever short counts and interruptions the kernel answers with, as long as there
  is no error it returns the next \<open>n\<close> bytes of the descriptor, or all that are left, and leaves the
  descriptor right after them; the call always returns.\<close>

theorem rio_readn_exact:
  assumes "no_error f"
  shows "\<exists>f'. rio_readn f n = Some (f', Some (take n (stream f))) \<and> stream f' = drop n (stream f) \<and> no_error f'"
  using fdr.readn_contents [OF assms, of n "[]"] by (simp add: rio_readn_def)

theorem rio_readn_exact_witness:
  "\<exists>f'. rio_readn [Bytes ''ab'', Eintr, Bytes ''cde''] 4 = Some (f', Some ''abcd'') \<and> stream f' = ''e''"
  using rio_readn_exact [of "[Bytes ''ab'', Eintr, Bytes ''cde'']" 4] by auto

text \<open>Calls on one buffered reader, in any order.\<close>

datatype request = Nb nat | Line nat

fun serve :: "rio_t \<Rightarrow> request list \<Rightarrow> (rio_t \<times> string list) option" where
  "serve rp [] = Some (rp, [])"
| "serve rp (Nb n # rs) =
     (case rio_readnb rp n of
        Some (rp', Some d) \<Rightarrow> map_option (\<lambda>(r, ds). (r, d # ds)) (serve rp' rs)
      | _ \<Rightarrow> None)"
| "serve rp (Line m # rs) =
     (case rio_readlineb rp m of
        (rp', Some d) \<Rightarrow> map_option (\<lambda>(r, ds). (r, d # ds)) (serve rp' rs)
      | _ \<Rightarrow> None)"

text \<open>What the requests should return from the bytes that are left: \<open>n\<close> bytes or all there are; a line up to
  and with its first newline, but at most \<open>maxlen - 1\<close> characters, or all there are.\<close>

fun request_length :: "request \<Rightarrow> string \<Rightarrow> nat" where
  "request_length (Nb n) cs = n"
| "request_length (Line m) cs = min (m - 1) (Suc (length (takeWhile (\<lambda>c. c \<noteq> CHR 0x0A) cs)))"

fun expected :: "request list \<Rightarrow> string \<Rightarrow> string list" where
  "expected [] cs = []"
| "expected (r # rs) cs = take (request_length r cs) cs # expected rs (drop (request_length r cs) cs)"

lemma line_take:
  fixes rp :: rio_t and m :: nat
  assumes "rio_ok rp"
  defines "n \<equiv> request_length (Line m) (rio_contents rp)"
  shows "\<exists>rp'. rio_readlineb rp m = (rp', Some (take n (rio_contents rp))) \<and> rio_ok rp'
    \<and> rio_contents rp' = drop n (rio_contents rp)"
proof -
  let ?nl = "\<lambda>c. c \<noteq> CHR 0x0A"
  obtain rp' l where l: "rio_readlineb rp m = (rp', Some l)" "rio_ok rp'" "rio_contents rp = l @ rio_contents rp'"
    "length l \<le> m - 1" "CHR 0x0A \<notin> set (butlast l)"
    "length l < m - 1 \<and> (l = [] \<or> last l \<noteq> CHR 0x0A) \<longrightarrow> rio_contents rp' = []"
    using rio.line_contents [OF assms(1), of "m - 1" "[]"] unfolding rio_readlineb_def by auto
  have "n = length l \<or> rio_contents rp' = [] \<and> length l \<le> n"
  proof (cases "l = [] \<or> last l \<noteq> CHR 0x0A")
    case True
    have "CHR 0x0A \<notin> set l"
      using True l(5) append_butlast_last_id [of l] in_set_conv_decomp [of "CHR 0x0A" l]
      by (metis Un_iff empty_iff empty_set insert_iff list.set(2) set_append)
    then have tw: "takeWhile ?nl (rio_contents rp) = l @ takeWhile ?nl (rio_contents rp')"
      unfolding l(3) by (intro takeWhile_append2) auto
    show ?thesis using True l(4,6) by (cases "length l < m - 1") (auto simp: n_def tw)
  next
    case False
    then have e: "rio_contents rp = butlast l @ CHR 0x0A # rio_contents rp'" using l(3) append_butlast_last_id [of l] by auto
    have "takeWhile ?nl (rio_contents rp) = butlast l"
      unfolding e using l(5) by (subst takeWhile_append2) auto
    then show ?thesis using False l(4) by (auto simp: n_def min_def)
  qed
  then have "take n (rio_contents rp) = l" "drop n (rio_contents rp) = rio_contents rp'" using l(3) by auto
  with l(1,2) show ?thesis by simp
qed

lemma serve_expected:
  "rio_ok rp \<Longrightarrow> \<exists>rp'. serve rp rs = Some (rp', expected rs (rio_contents rp)) \<and> rio_ok rp'
     \<and> rio_contents rp = concat (expected rs (rio_contents rp)) @ rio_contents rp'"
proof (induction rs arbitrary: rp)
  case (Cons r rs)
  let ?n = "request_length r (rio_contents rp)"
  obtain rp1 where d: "case r of Nb n \<Rightarrow> rio_readnb rp n = Some (rp1, Some (take ?n (rio_contents rp)))
      | Line m \<Rightarrow> rio_readlineb rp m = (rp1, Some (take ?n (rio_contents rp)))"
    "rio_ok rp1" "rio_contents rp1 = drop ?n (rio_contents rp)"
  proof (cases r)
    case (Nb n)
    then show ?thesis using that rio.readn_contents [OF Cons.prems, of n "[]"] by (auto simp: rio_readnb_def)
  next
    case (Line m)
    then show ?thesis using that line_take [OF Cons.prems, of m] by (auto simp del: request_length.simps)
  qed
  from Cons.IH [OF d(2)] d obtain rp' where "serve rp1 rs = Some (rp', expected rs (drop ?n (rio_contents rp)))" "rio_ok rp'"
    "drop ?n (rio_contents rp) = concat (expected rs (drop ?n (rio_contents rp))) @ rio_contents rp'" by auto
  moreover from this(3) have "rio_contents rp = take ?n (rio_contents rp) @ concat (expected rs (drop ?n (rio_contents rp))) @ rio_contents rp'"
    by (metis append_take_drop_id)
  ultimately show ?case using d(1) by (cases r) (auto simp del: request_length.simps)
qed simp

text \<open>C28. Buffered reading is exact: calls of \<open>rio_readnb\<close> and \<open>rio_readlineb\<close> on one reader, mixed in any order,
  all return, whatever short counts and interruptions the kernel answers with (and no error or early
  end of file). Each \<open>rio_readnb\<close> of \<open>n\<close> bytes gets exactly the next \<open>n\<close> bytes of the descriptor, or all that are
  left; each \<open>rio_readlineb\<close> gets exactly the characters up to and with the next newline, at most
  \<open>maxlen - 1\<close>, or all that are left; and the bytes not returned are still to be read.\<close>

theorem rio_mixed_reads:
  assumes "no_error f"
  shows "\<exists>rp. serve (rio_readinitb f) rs = Some (rp, expected rs (stream f))
    \<and> stream f = concat (expected rs (stream f)) @ rio_contents rp"
proof -
  have "rio_ok (rio_readinitb f)" "rio_contents (rio_readinitb f) = stream f"
    using assms by (simp_all add: rio_ok_def rio_readinitb_def rio_contents_def)
  then show ?thesis using serve_expected [of "rio_readinitb f" rs] by auto
qed

theorem rio_mixed_reads_witness:
  "\<exists>rp. serve (rio_readinitb [Bytes ''ab'', Eintr, Bytes [CHR ''c'', CHR 0x0A, CHR ''d'', CHR ''e'']]) [Nb 1, Line 10, Nb 5]
     = Some (rp, [''a'', [CHR ''b'', CHR ''c'', CHR 0x0A], ''de''])"
  using rio_mixed_reads [of "[Bytes ''ab'', Eintr, Bytes [CHR ''c'', CHR 0x0A, CHR ''d'', CHR ''e'']]" "[Nb 1, Line 10, Nb 5]"]
  by auto

text \<open>Writing.\<close>

lemma rio_writen_prefix:
  "rio_writen as s = (w, ok) \<Longrightarrow> \<exists>r. s = w @ r \<and> (ok \<longrightarrow> r = [])"
proof (induction as s arbitrary: w ok rule: rio_writen.induct)
  case (3 k as c cs)
  show ?case
  proof (cases "k = 0")
    case False
    obtain w' ok' where w': "rio_writen as (drop k (c # cs)) = (w', ok')" by fastforce
    with 3(1) [OF False this] obtain r where "drop k (c # cs) = w' @ r" "ok' \<longrightarrow> r = []" by blast
    moreover from 3(2) False w' have "w = take k (c # cs) @ w'" "ok = ok'" by auto
    ultimately show ?thesis using append_take_drop_id [of k "c # cs"] by (metis append_assoc)
  qed (use 3(2) in auto)
qed auto

subsection \<open>Numbers\<close>

lemma swap_ends_nth:
  "j < length s \<Longrightarrow> length (swap_ends s i j) = length s
     \<and> (\<forall>k < length s. swap_ends s i j ! k = (if i \<le> k \<and> k \<le> j then s ! (i + j - k) else s ! k))"
proof (induction s i j rule: swap_ends.induct)
  case (1 s i j)
  show ?case
  proof (cases "i < j")
    case True
    let ?s = "s[i := s ! j, j := s ! i]"
    have j: "j - 1 < length ?s" using 1(2) True by simp
    note IH = 1(1) [OF True j]
    have eq: "swap_ends s i j = swap_ends ?s (i + 1) (j - 1)" using True by (subst swap_ends.simps) simp
    have "swap_ends s i j ! k = (if i \<le> k \<and> k \<le> j then s ! (i + j - k) else s ! k)" if k: "k < length s" for k
    proof -
      have "swap_ends s i j ! k = (if i + 1 \<le> k \<and> k \<le> j - 1 then ?s ! (i + 1 + (j - 1) - k) else ?s ! k)"
        using IH k by (simp add: eq)
      then show ?thesis using True 1(2) k by (auto simp: nth_list_update)
    qed
    with IH show ?thesis by (simp add: eq)
  next
    case False
    then show ?thesis by (subst (1 2) swap_ends.simps) (auto intro: arg_cong [where f = "nth s"])
  qed
qed

lemma sio_reverse_rev: "sio_reverse s = rev s"
proof (cases "s = []")
  case False
  have "length s - 1 < length s" using False by simp
  from swap_ends_nth [OF this, of 0] show ?thesis
    using False by (auto simp: sio_reverse_def rev_nth intro!: nth_equalityI)
qed (simp add: sio_reverse_def)

lemma ltoa_decimal: "0 \<le> v \<Longrightarrow> rev (ltoa_loop v 10) = show_nat (nat v)"
proof (induction v "10 :: int" rule: ltoa_loop.induct)
  case (1 v)
  have m: "c_mod v 10 = v mod 10" "c_div v 10 = v div 10"
    using 1(2) by (auto simp: c_mod_def c_div_def sgn_if minus_div_mult_eq_mod)
  have "v mod 10 < 10" "0 \<le> v mod 10" by simp_all
  then have d: "ltoa_digit (v mod 10) = digit_char (nat (v mod 10))"
    by (auto simp: ltoa_digit_def digit_char_def nat_add_distrib add.commute)
  have n: "nat v mod 10 = nat (v mod 10)" "nat v div 10 = nat (v div 10)"
    using 1(2) by (simp_all add: nat_mod_distrib nat_div_distrib)
  show ?case
  proof (cases "v < 10")
    case True
    then have "v div 10 = 0" "v mod 10 = v" using 1(2) by (simp_all add: div_pos_pos_trivial)
    with True 1(2) d show ?thesis by (subst ltoa_loop.simps, subst show_nat.simps) (simp add: m)
  next
    case False
    then have p: "0 < v div 10" by (simp add: pos_imp_zdiv_pos_iff)
    then have "rev (ltoa_loop (v div 10) 10) = show_nat (nat (v div 10))" using 1(1) m by simp
    moreover have "\<not> nat v < 10" using False by linarith
    ultimately show ?thesis using p d n by (subst ltoa_loop.simps, subst show_nat.simps) (simp add: m)
  qed
qed

text \<open>\<open>sio_putl\<close> writes a number of type \<open>long\<close> that is not negative in decimal notation, as
  \<open>printf\<close> would; for a negative number it writes a single character, the last digit below the
  character 0, and no sign.\<close>

theorem sio_putl_decimal:
  "(0 \<le> v \<longrightarrow> sio_putl v = show_int v) \<and> (v < 0 \<longrightarrow> sio_putl v = [ltoa_digit (c_mod v 10)])"
proof -
  have "\<not> 0 < c_div v 10" if "v < 0"
    using that by (auto simp: c_div_def sgn_if pos_imp_zdiv_neg_iff)
  then show ?thesis
    using ltoa_decimal [of v] by (auto simp: sio_putl_def sio_ltoa_def sio_reverse_rev show_int_def ltoa_loop.simps [of v])
qed

theorem sio_putl_decimal_witness: "sio_putl 105 = ''105''"
proof -
  have "show_int 105 = ''105''" by code_simp
  then show ?thesis using sio_putl_decimal [of 105] by simp
qed

end
