(* ===== verification/Tiny.thy ===== *)
theory Tiny
  imports Rio Stdio
begin

section \<open>The web server (proxylab tiny.c)\<close>

text \<open>
  One transaction of the server: it reads a request through the buffered reader of \<open>Rio\<close> and
  writes the response. Files are a map from names to records, CGI programs a function from their
  name and arguments to their output; writing to the client succeeds. A string that does not fit its
  array is the fault \<open>Undefined\<close>, and so is a call of \<open>sprintf\<close> that reads the array it writes to, as in
  \<open>sprintf(buf, "%s...", buf)\<close>. \<open>None\<close> means that the server never finishes the transaction.
\<close>

definition MAXLINE :: nat where "MAXLINE = 8192"
definition MAXBUF :: nat where "MAXBUF = 8192"

record served_file =
  regular :: bool
  r_usr :: bool
  x_usr :: bool
  content :: string

definition CRLF :: string where "CRLF = [CHR 0x0D, CHR 0x0A]"

subsection \<open>Responses\<close>

text \<open>The pieces of a formatted text: characters, or \<open>%s\<close> with the destination array itself as its
  argument. The C standard leaves \<open>sprintf\<close> undefined when it copies between objects that overlap.\<close>

datatype piece = Dest | Text string

fun piece_text :: "piece \<Rightarrow> string" where
  "piece_text Dest = []"
| "piece_text (Text s) = s"

definition sprintf :: "nat \<Rightarrow> piece list \<Rightarrow> string result" where
  "sprintf cap ps =
     (let text = concat (map piece_text ps) in
      if Dest \<in> set ps \<or> length text \<ge> cap then Inl Undefined else Inr text)"

definition error_body :: "string \<Rightarrow> string \<Rightarrow> string \<Rightarrow> string \<Rightarrow> string result" where
  "error_body cause errnum shortmsg longmsg =
     and_then (sprintf MAXBUF [Text ''<html><title>Tiny Error</title>'']) (\<lambda>_.
     and_then (sprintf MAXBUF [Dest, Text (''<body bgcolor=ffffff>'' @ CRLF)]) (\<lambda>_.
     and_then (sprintf MAXBUF [Dest, Text (errnum @ '': '' @ shortmsg @ CRLF)]) (\<lambda>_.
     and_then (sprintf MAXBUF [Dest, Text (''<p>'' @ longmsg @ '': '' @ cause @ CRLF)]) (\<lambda>_.
     sprintf MAXBUF [Dest, Text (''<hr><em>The Tiny Web server</em>'' @ CRLF)]))))"

definition clienterror :: "string \<Rightarrow> string \<Rightarrow> string \<Rightarrow> string \<Rightarrow> string result" where
  "clienterror cause errnum shortmsg longmsg =
     and_then (error_body cause errnum shortmsg longmsg) (\<lambda>body.
     and_then (sprintf MAXLINE [Text (''HTTP/1.0 '' @ errnum @ '' '' @ shortmsg @ CRLF)]) (\<lambda>status.
     and_then (sprintf MAXLINE [Text (''Content-type: text/html'' @ CRLF)]) (\<lambda>ctype.
     and_then (sprintf MAXLINE [Text (''Content-length: '' @ show_nat (length body) @ CRLF @ CRLF)]) (\<lambda>len.
     Inr (status @ ctype @ len @ body)))))"

definition get_filetype :: "string \<Rightarrow> string" where
  "get_filetype filename =
     (if strstr filename ''.html'' \<noteq> None then ''text/html''
      else if strstr filename ''.gif'' \<noteq> None then ''image/gif''
      else if strstr filename ''.png'' \<noteq> None then ''image/png''
      else if strstr filename ''.jpg'' \<noteq> None then ''image/jpeg''
      else ''text/plain'')"

text \<open>The size of the file arrives as an \<open>int\<close>. \<open>mmap\<close> refuses a length of 0 and one that, read as a
  \<open>size_t\<close>, exceeds the address space; \<open>Mmap\<close> then ends the server.\<close>

definition static_header :: "string \<Rightarrow> int \<Rightarrow> string result" where
  "static_header filetype filesize =
     and_then (sprintf MAXBUF [Text (''HTTP/1.0 200 OK'' @ CRLF)]) (\<lambda>_.
     and_then (sprintf MAXBUF [Dest, Text (''Server: Tiny Web Server'' @ CRLF)]) (\<lambda>_.
     and_then (sprintf MAXBUF [Dest, Text (''Connection: close'' @ CRLF)]) (\<lambda>_.
     and_then (sprintf MAXBUF [Dest, Text (''Content-length: '' @ show_int filesize @ CRLF)]) (\<lambda>_.
     sprintf MAXBUF [Dest, Text (''Content-type: '' @ filetype @ CRLF @ CRLF)]))))"

definition serve_static :: "string \<Rightarrow> string \<Rightarrow> string result" where
  "serve_static filename body =
     (let filesize = size_to_int (word_of_nat (length body)) in
      and_then (static_header (get_filetype filename) filesize) (\<lambda>buf.
        if filesize \<le> 0 then Inl (Exits 0) else Inr (buf @ take (nat filesize) body)))"

definition serve_dynamic :: "(string \<Rightarrow> string \<Rightarrow> string) \<Rightarrow> string \<Rightarrow> string \<Rightarrow> string" where
  "serve_dynamic run filename cgiargs =
     ''HTTP/1.0 200 OK'' @ CRLF @ ''Server: Tiny Web Server'' @ CRLF @ run filename cgiargs"

subsection \<open>Requests\<close>

text \<open>Whether the content is static, the file name and the arguments. \<open>uri\<close> is not empty.\<close>

definition parse_uri :: "string \<Rightarrow> (bool \<times> string \<times> string) result" where
  "parse_uri uri =
     (let (static, filename, cgiargs) =
        (if strstr uri ''cgi-bin'' = None then
           (True, ''.'' @ uri @ (if last uri = CHR ''/'' then ''home.html'' else []), [])
         else case strchr uri (CHR ''?'') of
           Some i \<Rightarrow> (False, ''.'' @ take i uri, drop (i + 1) uri)
         | None \<Rightarrow> (False, ''.'' @ uri, []))
      in if length filename \<ge> MAXLINE then Inl Undefined else Inr (static, filename, cgiargs))"

text \<open>The loop over the headers; \<open>buf\<close> is the last line that was read. At the end of the input
  \<open>rio_readlineb\<close> returns 0 and leaves the buffer as it is.\<close>

partial_function (option) hdr_loop :: "rio_t \<Rightarrow> string \<Rightarrow> rio_t result option" where
  [code]: "hdr_loop rp buf =
     (if buf = CRLF then Some (Inr rp)
      else case rio_readlineb rp MAXLINE of
        (rp', None) \<Rightarrow> Some (Inl (Exits 0))
      | (rp', Some l) \<Rightarrow> hdr_loop rp' (if l = [] then buf else cstr l))"

definition read_requesthdrs :: "rio_t \<Rightarrow> rio_t result option" where
  "read_requesthdrs rp =
     (case rio_readlineb rp MAXLINE of
        (rp', None) \<Rightarrow> Some (Inl (Exits 0))
      | (rp', Some l) \<Rightarrow> if l = [] then Some (Inl Undefined) else hdr_loop rp' (cstr l))"

definition tolower :: "char \<Rightarrow> char" where
  "tolower c = (let k = of_char c :: nat in if 65 \<le> k \<and> k \<le> 90 then char_of (k + 32) else c)"

definition strcasecmp :: "string \<Rightarrow> string \<Rightarrow> bool" where
  "strcasecmp s t \<longleftrightarrow> map tolower s \<noteq> map tolower t"

text \<open>The second half of \<open>doit\<close>, after the headers.\<close>

definition answer_uri :: "(string \<Rightarrow> served_file option) \<Rightarrow> (string \<Rightarrow> string \<Rightarrow> string) \<Rightarrow> string \<Rightarrow> string result" where
  "answer_uri fs run uri =
     and_then (parse_uri uri) (\<lambda>(is_static, filename, cgiargs).
       case fs filename of
         None \<Rightarrow> clienterror filename ''404'' ''Not found'' ''Tiny couldn't find this file''
       | Some f \<Rightarrow>
           if is_static then
             if \<not> regular f \<or> \<not> r_usr f
             then clienterror filename ''403'' ''Forbidden'' ''Tiny couldn't read the file''
             else serve_static filename (content f)
           else
             if \<not> regular f \<or> \<not> x_usr f
             then clienterror filename ''403'' ''Forbidden'' ''Tiny couldn't run the CGI program''
             else Inr (serve_dynamic run filename cgiargs))"

definition doit :: "(string \<Rightarrow> served_file option) \<Rightarrow> (string \<Rightarrow> string \<Rightarrow> string) \<Rightarrow> fd \<Rightarrow> string result option" where
  "doit fs run f =
     (case rio_readlineb (rio_readinitb f) MAXLINE of
        (rp, None) \<Rightarrow> Some (Inl (Exits 0))
      | (rp, Some l) \<Rightarrow>
          if l = [] then Some (Inr [])
          else case scan_str (cstr l) of
            None \<Rightarrow> Some (Inl Undefined)
          | Some (meth, r) \<Rightarrow>
              if strcasecmp meth ''GET''
              then Some (clienterror meth ''501'' ''Not Implemented'' ''Tiny does not implement this method'')
              else do { h \<leftarrow> read_requesthdrs rp;
                        Some (and_then h (\<lambda>rp'. case scan_str r of
                            None \<Rightarrow> Inl Undefined
                          | Some (uri, _) \<Rightarrow> answer_uri fs run uri)) })"


subsection \<open>Requests as clients send them\<close>

abbreviation CR :: char where "CR \<equiv> CHR 0x0D"

lemma sprintf_overlap [simp]: "sprintf cap (Dest # ps) = Inl Undefined"
  by (simp add: sprintf_def)

text \<open>Every response that the server builds in place is undefined: static content and every error.\<close>

lemma static_undefined [simp]: "serve_static filename body = Inl Undefined"
  by (simp add: serve_static_def static_header_def sprintf_def [of _ "[Text t]" for t] MAXBUF_def CRLF_def)

lemma clienterror_undefined [simp]: "clienterror cause errnum shortmsg longmsg = Inl Undefined"
  by (simp add: clienterror_def error_body_def sprintf_def [of _ "[Text t]" for t] MAXBUF_def)

lemma readline_exact:
  assumes "rio_ok rp" and "rio_contents rp = l @ NL # r" and "NL \<notin> set l" and "length l + 1 < MAXLINE"
  shows "\<exists>rp'. rio_readlineb rp MAXLINE = (rp', Some (l @ [NL])) \<and> rio_ok rp' \<and> rio_contents rp' = r"
  using rio.line_exact [OF assms(1-3), of "MAXLINE - 1" "[]"] assms(4) by (simp add: rio_readlineb_def)

lemma readline_end:
  assumes "rio_ok rp" and "rio_contents rp = []"
  shows "\<exists>rp'. rio_readlineb rp MAXLINE = (rp', Some []) \<and> rio_ok rp' \<and> rio_contents rp' = []"
  using rio.line_at_end [OF assms, of 8190 "[]"] by (simp add: rio_readlineb_def MAXLINE_def)

text \<open>A header line without its line end.\<close>

definition header_ok :: "string \<Rightarrow> bool" where
  "header_ok h \<longleftrightarrow> h \<noteq> [] \<and> NL \<notin> set h \<and> NUL \<notin> set h \<and> length h + 2 < MAXLINE"

definition headers :: "string list \<Rightarrow> string" where
  "headers hs = concat (map (\<lambda>h. h @ CRLF) hs)"

lemma cstr_line: "NUL \<notin> set h \<Longrightarrow> cstr (h @ [CR] @ [NL]) = h @ CRLF"
  using cstr_append [of h "[CR, NL]"] by (simp add: cstr_def CRLF_def)

lemma header_not_end: "h \<noteq> [] \<Longrightarrow> h @ CRLF \<noteq> CRLF"
  by simp

lemma read_header:
  assumes "rio_ok rp" and "rio_contents rp = h @ CRLF @ r" and "NL \<notin> set h" "NUL \<notin> set h" "length h + 2 < MAXLINE"
  shows "\<exists>rp' l. rio_readlineb rp MAXLINE = (rp', Some l) \<and> l \<noteq> [] \<and> cstr l = h @ CRLF \<and> rio_ok rp' \<and> rio_contents rp' = r"
proof -
  have "rio_contents rp = (h @ [CR]) @ NL # r" "NL \<notin> set (h @ [CR])" "length (h @ [CR]) + 1 < MAXLINE"
    using assms(2,3,5) by (auto simp: CRLF_def)
  from readline_exact [OF assms(1) this] cstr_line [OF assms(4)] show ?thesis by auto
qed

lemma hdr_loop_ok:
  "rio_ok rp \<Longrightarrow> rio_contents rp = headers hs @ CRLF @ r \<Longrightarrow> list_all header_ok hs \<Longrightarrow> buf \<noteq> CRLF \<Longrightarrow>
     \<exists>rp'. hdr_loop rp buf = Some (Inr rp') \<and> rio_contents rp' = r"
proof (induction hs arbitrary: rp buf)
  case Nil
  obtain rp' l where l: "rio_readlineb rp MAXLINE = (rp', Some l)" "l \<noteq> []" "cstr l = CRLF" "rio_contents rp' = r"
    using read_header [OF Nil.prems(1), of "[]" r] Nil.prems(2) by (auto simp: headers_def MAXLINE_def)
  have "hdr_loop rp' CRLF = Some (Inr rp')" by (subst hdr_loop.simps) simp
  with l Nil.prems(4) show ?case by (subst hdr_loop.simps) simp
next
  case (Cons h hs)
  have h: "h \<noteq> []" "NL \<notin> set h" "NUL \<notin> set h" "length h + 2 < MAXLINE" using Cons.prems(3) by (auto simp: header_ok_def)
  have "rio_contents rp = h @ CRLF @ headers hs @ CRLF @ r" using Cons.prems(2) by (simp add: headers_def)
  from read_header [OF Cons.prems(1) this h(2-4)] obtain rp' l where l: "rio_readlineb rp MAXLINE = (rp', Some l)"
    "l \<noteq> []" "cstr l = h @ CRLF" "rio_ok rp'" "rio_contents rp' = headers hs @ CRLF @ r" by blast
  have "\<exists>rp''. hdr_loop rp' (h @ CRLF) = Some (Inr rp'') \<and> rio_contents rp'' = r"
    using Cons.IH [OF l(4,5)] Cons.prems(3) h(1) by simp
  with l Cons.prems(4) show ?case by (subst hdr_loop.simps) simp
qed

text \<open>At the end of the input the loop goes on for ever.\<close>

lemma hdr_loop_end:
  assumes "rio_ok rp" and "rio_contents rp = []" and "buf \<noteq> CRLF"
  shows "hdr_loop rp buf = None"
proof (rule ccontr)
  assume "hdr_loop rp buf \<noteq> None"
  then obtain y where y: "hdr_loop rp buf = Some y" by auto
  have "rio_ok rp \<longrightarrow> rio_contents rp = [] \<longrightarrow> buf = CRLF"
  proof (rule hdr_loop.raw_induct [where P = "\<lambda>rp buf y. rio_ok rp \<longrightarrow> rio_contents rp = [] \<longrightarrow> buf = CRLF", OF _ y])
    fix loop rp buf and y :: "rio_t result"
    assume IH: "\<And>rp buf y. loop rp buf = Some y \<Longrightarrow> rio_ok rp \<longrightarrow> rio_contents rp = [] \<longrightarrow> buf = CRLF"
      and y: "(if buf = CRLF then Some (Inr rp) else case rio_readlineb rp MAXLINE of
          (rp', None) \<Rightarrow> Some (Inl (Exits 0)) | (rp', Some l) \<Rightarrow> loop rp' (if l = [] then buf else cstr l)) = Some y"
    show "rio_ok rp \<longrightarrow> rio_contents rp = [] \<longrightarrow> buf = CRLF"
    proof (intro impI)
      assume "rio_ok rp" "rio_contents rp = []"
      then obtain rp' where r: "rio_readlineb rp MAXLINE = (rp', Some [])" "rio_ok rp'" "rio_contents rp' = []"
        using readline_end by blast
      show "buf = CRLF"
      proof (rule ccontr)
        assume b: "buf \<noteq> CRLF"
        with y r(1) have "loop rp' buf = Some y" by simp
        from IH [OF this] r(2,3) b show False by simp
      qed
    qed
  qed
  with assms show False by simp
qed

lemma hdr_loop_cut:
  "rio_ok rp \<Longrightarrow> rio_contents rp = headers hs \<Longrightarrow> list_all header_ok hs \<Longrightarrow> buf \<noteq> CRLF \<Longrightarrow> hdr_loop rp buf = None"
proof (induction hs arbitrary: rp buf)
  case Nil
  then show ?case by (intro hdr_loop_end) (simp_all add: headers_def)
next
  case (Cons h hs)
  have h: "h \<noteq> []" "NL \<notin> set h" "NUL \<notin> set h" "length h + 2 < MAXLINE" using Cons.prems(3) by (auto simp: header_ok_def)
  have "rio_contents rp = h @ CRLF @ headers hs" using Cons.prems(2) by (simp add: headers_def)
  from read_header [OF Cons.prems(1) this h(2-4)] obtain rp' l where l: "rio_readlineb rp MAXLINE = (rp', Some l)"
    "l \<noteq> []" "cstr l = h @ CRLF" "rio_ok rp'" "rio_contents rp' = headers hs" by blast
  have "hdr_loop rp' (h @ CRLF) = None" using Cons.IH [OF l(4,5)] Cons.prems(3) h(1) by simp
  with l Cons.prems(4) show ?case by (subst hdr_loop.simps) simp
qed

subsection \<open>A transaction\<close>

definition request_line :: "string \<Rightarrow> string \<Rightarrow> string" where
  "request_line uri ver = ''GET '' @ uri @ '' '' @ ver"

definition req_head_ok :: "string \<Rightarrow> string \<Rightarrow> bool" where
  "req_head_ok uri ver \<longleftrightarrow> uri \<noteq> [] \<and> list_all (\<lambda>c. \<not> isspace c \<and> c \<noteq> NUL) uri \<and> NL \<notin> set ver \<and> NUL \<notin> set ver
     \<and> length (request_line uri ver) + 2 < MAXLINE"

lemma request_start:
  assumes "no_error f" and "stream f = request_line uri ver @ CRLF @ r" and "req_head_ok uri ver"
  shows "\<exists>rp. rio_ok rp \<and> rio_contents rp = r \<and> doit fs run f =
    do { h \<leftarrow> read_requesthdrs rp; Some (and_then h (\<lambda>_. answer_uri fs run uri)) }"
proof -
  let ?l = "request_line uri ver"
  have v: "uri \<noteq> []" "\<And>c. c \<in> set uri \<Longrightarrow> \<not> isspace c \<and> c \<noteq> NUL" "NL \<notin> set ver" "NUL \<notin> set ver" "length ?l + 2 < MAXLINE"
    using assms(3) by (simp_all add: req_head_ok_def list_all_iff)
  have "isspace NL" by (simp add: isspace_def)
  then have "NL \<notin> set uri" "NUL \<notin> set uri" using v(2) by blast+
  then have u: "uri \<noteq> []" "\<And>c. c \<in> set uri \<Longrightarrow> \<not> isspace c" "NL \<notin> set ?l" "NUL \<notin> set ?l" "length ?l + 2 < MAXLINE"
    using v by (simp_all add: request_line_def)
  have "rio_ok (rio_readinitb f)" "rio_contents (rio_readinitb f) = ?l @ CRLF @ r"
    using assms(1,2) by (simp_all add: rio_ok_def rio_readinitb_def rio_contents_def)
  from read_header [OF this u(3-5)] obtain rp l where l: "rio_readlineb (rio_readinitb f) MAXLINE = (rp, Some l)"
    "l \<noteq> []" "cstr l = ?l @ CRLF" "rio_ok rp" "rio_contents rp = r" by blast
  have sp: "isspace (CHR '' '')" by (simp add: isspace_def)
  have s1: "scan_str (?l @ CRLF) = Some (''GET'', CHR '' '' # uri @ CHR '' '' # ver @ CRLF)"
    by (simp add: scan_str_def request_line_def isspace_def Let_def)
  have s2: "scan_str (CHR '' '' # uri @ CHR '' '' # ver @ CRLF) = Some (uri, CHR '' '' # ver @ CRLF)"
    using u(1,2) sp by (intro scan_str_word) auto
  have "doit fs run f = do { h \<leftarrow> read_requesthdrs rp; Some (and_then h (\<lambda>_. answer_uri fs run uri)) }"
    by (simp add: doit_def l s1 s2 strcasecmp_def)
  with l show ?thesis by blast
qed

lemma read_requesthdrs_ok:
  assumes "rio_ok rp" and "rio_contents rp = headers hs @ CRLF @ r" and "list_all header_ok hs"
  shows "\<exists>rp'. read_requesthdrs rp = Some (Inr rp')"
proof -
  obtain h hs' where h: "headers hs @ CRLF @ r = h @ CRLF @ (if hs = [] then r else headers hs' @ CRLF @ r)"
    "NL \<notin> set h" "NUL \<notin> set h" "length h + 2 < MAXLINE" "hs \<noteq> [] \<longrightarrow> h \<noteq> []" "hs = [] \<longrightarrow> h = []" "list_all header_ok hs'"
  proof (cases hs)
    case Nil
    then show ?thesis using that [of "[]" "[]"] by (simp add: headers_def MAXLINE_def)
  next
    case (Cons h hs')
    then show ?thesis using that [of h hs'] assms(3) by (auto simp: headers_def header_ok_def)
  qed
  have "rio_contents rp = h @ CRLF @ (if hs = [] then r else headers hs' @ CRLF @ r)" using h(1) assms(2) by simp
  from read_header [OF assms(1) this h(2-4)] obtain rp' l where l: "rio_readlineb rp MAXLINE = (rp', Some l)"
    "l \<noteq> []" "cstr l = h @ CRLF" "rio_ok rp'" "rio_contents rp' = (if hs = [] then r else headers hs' @ CRLF @ r)"
    by blast
  show ?thesis
  proof (cases "hs = []")
    case True
    then have "hdr_loop rp' CRLF = Some (Inr rp')" by (subst hdr_loop.simps) simp
    with True l h(6) show ?thesis by (simp add: read_requesthdrs_def)
  next
    case False
    then have "\<exists>rp''. hdr_loop rp' (h @ CRLF) = Some (Inr rp'')"
      using hdr_loop_ok [OF l(4) _ h(7), of r "h @ CRLF"] l(5) h(5) by auto
    with l show ?thesis by (simp add: read_requesthdrs_def)
  qed
qed

lemma doit_answers:
  assumes "no_error f" and "stream f = request_line uri ver @ CRLF @ headers hs @ CRLF @ r"
    and "req_head_ok uri ver" and "list_all header_ok hs"
  shows "doit fs run f = Some (answer_uri fs run uri)"
proof -
  obtain rp where rp: "rio_ok rp" "rio_contents rp = headers hs @ CRLF @ r"
    "doit fs run f = do { h \<leftarrow> read_requesthdrs rp; Some (and_then h (\<lambda>_. answer_uri fs run uri)) }"
    using request_start [OF assms(1,2,3)] by blast
  from read_requesthdrs_ok [OF rp(1,2) assms(4)] show ?thesis using rp(3) by auto
qed

text \<open>The file name and the arguments of a URI, cut at the first question mark.\<close>

definition uri_path :: "string \<Rightarrow> string" where
  "uri_path uri = takeWhile (\<lambda>c. c \<noteq> CHR ''?'') uri"

definition uri_args :: "string \<Rightarrow> string" where
  "uri_args uri = drop (Suc (length (uri_path uri))) uri"

definition runs_cgi :: "(string \<Rightarrow> served_file option) \<Rightarrow> string \<Rightarrow> bool" where
  "runs_cgi fs uri \<longleftrightarrow> strstr uri ''cgi-bin'' \<noteq> None
     \<and> (case fs (''.'' @ uri_path uri) of None \<Rightarrow> False | Some x \<Rightarrow> regular x \<and> x_usr x)"

lemma uri_path_no_query: "CHR ''?'' \<notin> set uri \<Longrightarrow> uri_path uri = uri"
  unfolding uri_path_def takeWhile_eq_all_conv by blast

lemma parse_uri_dynamic:
  assumes "strstr uri ''cgi-bin'' \<noteq> None" and "length uri + 1 < MAXLINE"
  shows "parse_uri uri = Inr (False, ''.'' @ uri_path uri, uri_args uri)"
proof (cases "CHR ''?'' \<in> set uri")
  case True
  then have "strchr uri (CHR ''?'') = Some (length (uri_path uri))" by (simp add: strchr_def uri_path_def)
  moreover have "take (length (uri_path uri)) uri = uri_path uri"
    unfolding uri_path_def by (metis takeWhile_eq_take length_takeWhile_le length_take min.absorb2 take_take)
  moreover have "length (uri_path uri) \<le> length uri" unfolding uri_path_def by (rule length_takeWhile_le)
  ultimately show ?thesis using assms by (simp add: parse_uri_def uri_args_def)
next
  case False
  then show ?thesis using assms uri_path_no_query [OF False] by (simp add: parse_uri_def strchr_def uri_args_def)
qed

lemma answer_uri_result:
  assumes "length uri + 1 < MAXLINE"
  shows "answer_uri fs run uri =
    (if runs_cgi fs uri then Inr (serve_dynamic run (''.'' @ uri_path uri) (uri_args uri)) else Inl Undefined)"
proof (cases "strstr uri ''cgi-bin'' = None")
  case True
  then show ?thesis by (auto simp: answer_uri_def runs_cgi_def parse_uri_def split: option.splits)
next
  case False
  from parse_uri_dynamic [OF this assms] False show ?thesis
    by (auto simp: answer_uri_def runs_cgi_def split: option.splits)
qed

text \<open>C27. A GET request: however the kernel cuts the bytes of the request into answers, a request
  line, any header lines and a blank line bring the server to an answer. When the URI contains cgi-bin
  and its part before the first question mark names an executable regular file, the response is the
  status line 200, the line with the server's name and the output of that program, run with the part
  after the question mark as its arguments; in every other case, a static file or an error, the
  response is built by \<open>sprintf\<close> from the array it is written to, which is undefined.\<close>

theorem tiny_get:
  assumes "no_error f" and "stream f = request_line uri ver @ CRLF @ headers hs @ CRLF @ r"
    and "req_head_ok uri ver" and "list_all header_ok hs"
  shows "doit fs run f = Some (if runs_cgi fs uri
    then Inr (''HTTP/1.0 200 OK'' @ CRLF @ ''Server: Tiny Web Server'' @ CRLF @ run (''.'' @ uri_path uri) (uri_args uri))
    else Inl Undefined)"
proof -
  have "length uri + 1 < MAXLINE" using assms(3) by (simp add: req_head_ok_def request_line_def)
  from answer_uri_result [OF this] show ?thesis
    by (simp add: doit_answers [OF assms] serve_dynamic_def)
qed

theorem tiny_get_witness:
  "doit (\<lambda>_. Some \<lparr>regular = True, r_usr = False, x_usr = True, content = []\<rparr>) (\<lambda>name args. name @ '' '' @ args)
     [Bytes ''GET /cgi-bin/adder?15&-4 HT'', Eintr, Bytes (''TP/1.0'' @ CRLF @ ''Host: a'' @ CRLF @ CRLF)]
   = Some (Inr (''HTTP/1.0 200 OK'' @ CRLF @ ''Server: Tiny Web Server'' @ CRLF @ ''./cgi-bin/adder 15&-4''))"
proof -
  let ?f = "[Bytes ''GET /cgi-bin/adder?15&-4 HT'', Eintr, Bytes (''TP/1.0'' @ CRLF @ ''Host: a'' @ CRLF @ CRLF)]"
  let ?u = "''/cgi-bin/adder?15&-4''" and ?fs = "\<lambda>_. Some \<lparr>regular = True, r_usr = False, x_usr = True, content = []\<rparr>"
  have f: "no_error ?f" "stream ?f = request_line ?u ''HTTP/1.0'' @ CRLF @ headers [''Host: a''] @ CRLF @ []"
    "req_head_ok ?u ''HTTP/1.0''" "list_all header_ok [''Host: a'']"
    by (simp_all add: request_line_def headers_def req_head_ok_def header_ok_def MAXLINE_def isspace_def)
  have u: "uri_path ?u = ''/cgi-bin/adder''" "uri_args ?u = ''15&-4''" by (simp_all add: uri_path_def uri_args_def)
  then have "runs_cgi ?fs ?u" by (simp add: runs_cgi_def)
  with tiny_get [OF f, of ?fs "\<lambda>name args. name @ '' '' @ args"] u show ?thesis by simp
qed

text \<open>C34. A client that closes the connection after some header lines, before the blank line, keeps the
  server in \<open>read_requesthdrs\<close> for ever: at the end of the input the buffer keeps the last header line.\<close>

theorem tiny_hangs:
  assumes "no_error f" and "stream f = request_line uri ver @ CRLF @ headers hs" and "req_head_ok uri ver"
    and "list_all header_ok hs" and "hs \<noteq> []"
  shows "doit fs run f = None"
proof -
  obtain rp where rp: "rio_ok rp" "rio_contents rp = headers hs"
    "doit fs run f = do { h \<leftarrow> read_requesthdrs rp; Some (and_then h (\<lambda>_. answer_uri fs run uri)) }"
    using request_start [OF assms(1,2,3)] by blast
  obtain h hs' where h: "hs = h # hs'" "header_ok h" "list_all header_ok hs'" using assms(4,5) by (cases hs) auto
  then have c: "rio_contents rp = h @ CRLF @ headers hs'" and n: "h \<noteq> []" "NL \<notin> set h" "NUL \<notin> set h" "length h + 2 < MAXLINE"
    using rp(2) by (auto simp: headers_def header_ok_def)
  from read_header [OF rp(1) c n(2-4)] obtain rp' l where l: "rio_readlineb rp MAXLINE = (rp', Some l)"
    "l \<noteq> []" "cstr l = h @ CRLF" "rio_ok rp'" "rio_contents rp' = headers hs'" by blast
  have "hdr_loop rp' (h @ CRLF) = None" using hdr_loop_cut [OF l(4,5) h(3)] n(1) by simp
  with l have "read_requesthdrs rp = None" by (simp add: read_requesthdrs_def)
  with rp(3) show ?thesis by simp
qed

theorem tiny_hangs_witness:
  "doit (\<lambda>_. None) (\<lambda>_ _. []) [Bytes (''GET / HTTP/1.0'' @ CRLF @ ''Host: a'' @ CRLF)] = None"
proof -
  have "req_head_ok ''/'' ''HTTP/1.0''" "list_all header_ok [''Host: a'']"
    by (simp_all add: req_head_ok_def request_line_def header_ok_def MAXLINE_def isspace_def)
  then show ?thesis
    using tiny_hangs [of "[Bytes (''GET / HTTP/1.0'' @ CRLF @ ''Host: a'' @ CRLF)]" "''/''" "''HTTP/1.0''" "[''Host: a'']"]
    by (simp add: request_line_def headers_def)
qed

subsection \<open>The adder (cgi-bin/adder.c)\<close>

text \<open>A query without an ampersand makes the program write through a null pointer, an argument of
  \<open>MAXLINE\<close> bytes overflows its array. A sum that is not an \<open>int\<close> is undefined.\<close>

definition adder_body :: "int \<Rightarrow> int \<Rightarrow> string result" where
  "adder_body n1 n2 =
     and_then (sprintf MAXLINE [Text ''Welcome to add.com: '']) (\<lambda>_.
     and_then (sprintf MAXLINE [Dest, Text (''THE Internet addition portal.'' @ CRLF @ ''<p>'')]) (\<lambda>_.
     and_then (sprintf MAXLINE [Dest, Text (''The answer is: '' @ show_int n1 @ '' + '' @ show_int n2
       @ '' = '' @ show_int (n1 + n2) @ CRLF @ ''<p>'')]) (\<lambda>_.
     sprintf MAXLINE [Dest, Text (''Thanks for visiting!'' @ CRLF)])))"

definition adder_args :: "string option \<Rightarrow> (int \<times> int) result" where
  "adder_args query =
     (case query of None \<Rightarrow> Inr (0, 0)
      | Some buf \<Rightarrow> (case strchr buf (CHR ''&'') of
            None \<Rightarrow> Inl Undefined
          | Some i \<Rightarrow>
              if i \<ge> MAXLINE \<or> length buf - (i + 1) \<ge> MAXLINE then Inl Undefined
              else Inr (atoi (take i buf), atoi (drop (i + 1) buf))))"

definition adder :: "string option \<Rightarrow> string result" where
  "adder query =
     and_then (adder_args query) (\<lambda>(n1, n2).
       if n1 + n2 < - (2 ^ 31) \<or> n1 + n2 \<ge> 2 ^ 31 then Inl Undefined
       else and_then (adder_body n1 n2) (\<lambda>body.
         Inr (''Connection: close'' @ CRLF @ ''Content-length: '' @ show_nat (length body) @ CRLF
           @ ''Content-type: text/html'' @ CRLF @ CRLF @ body)))"

text \<open>The numbers reach the sum as they were written, but the page is built from the array it is written
  to: whatever its arguments are, the program's behaviour is undefined.\<close>

lemma adder_args_numbers:
  assumes "- (2 ^ 31) \<le> a" "a < 2 ^ 31" "- (2 ^ 31) \<le> b" "b < 2 ^ 31"
  shows "adder_args (Some (show_int a @ CHR ''&'' # show_int b)) = Inr (a, b)"
proof -
  have "CHR ''&'' \<notin> set (show_int a)" using show_int_chars [of "CHR ''&''" a] by (auto simp: isdigit_def)
  then have "strchr (show_int a @ CHR ''&'' # show_int b) (CHR ''&'') = Some (length (show_int a))"
    by (rule strchr_append)
  moreover have "length (show_int a) \<le> 11" "length (show_int b) \<le> 11"
    using assms length_show_int [of a 10] length_show_int [of b 10] by simp_all
  ultimately have "adder_args (Some (show_int a @ CHR ''&'' # show_int b)) = Inr (atoi (show_int a), atoi (show_int b))"
    by (simp add: adder_args_def MAXLINE_def)
  also have "\<dots> = Inr (a, b)" using assms by (simp only: atoi_show_int)
  finally show ?thesis .
qed

lemma adder_undefined: "adder query = Inl Undefined"
  by (auto simp: adder_def adder_args_def adder_body_def sprintf_def [of _ "[Text t]" for t] MAXLINE_def
      split: option.splits)

subsection \<open>Connections (csapp.c)\<close>

text \<open>An address \<open>getaddrinfo\<close> returned: the result of \<open>socket\<close>, whether \<open>connect\<close> or \<open>bind\<close> succeeds, and
  whether \<open>close\<close> does.\<close>

type_synonym candidate = "int \<times> bool \<times> bool"

fun try_addresses :: "candidate list \<Rightarrow> int option result" where
  "try_addresses [] = Inr None"
| "try_addresses ((s, works, closes) # cs) =
     (if s < 0 then try_addresses cs
      else if works then Inr (Some s)
      else if \<not> closes then Inl (Exits (-1))
      else try_addresses cs)"

definition open_clientfd :: "candidate list option \<Rightarrow> int" where
  "open_clientfd info =
     (case info of None \<Rightarrow> -2
      | Some cs \<Rightarrow> (case try_addresses cs of Inl _ \<Rightarrow> -1 | Inr None \<Rightarrow> -1 | Inr (Some s) \<Rightarrow> s))"

definition open_listenfd :: "candidate list option \<Rightarrow> bool \<Rightarrow> int" where
  "open_listenfd info listens =
     (case info of None \<Rightarrow> -2
      | Some cs \<Rightarrow> (case try_addresses cs of Inl _ \<Rightarrow> -1 | Inr None \<Rightarrow> -1
          | Inr (Some s) \<Rightarrow> if listens then s else -1))"

text \<open>A descriptor is returned exactly when some address works before one whose socket cannot be closed.\<close>

definition skipped :: "candidate \<Rightarrow> bool" where
  "skipped c \<longleftrightarrow> (case c of (s, works, closes) \<Rightarrow> s < 0 \<or> \<not> works \<and> closes)"

lemma try_addresses_skip: "list_all skipped before \<Longrightarrow> try_addresses (before @ cs) = try_addresses cs"
  by (induction before) (auto simp: skipped_def)

lemma try_addresses_works:
  "try_addresses cs = Inr (Some s) \<Longrightarrow> 0 \<le> s \<and> (\<exists>before c after. cs = before @ (s, True, c) # after \<and> list_all skipped before)"
proof (induction cs rule: try_addresses.induct)
  case (2 t works closes cs)
  show ?case
  proof (cases "skipped (t, works, closes)")
    case True
    then have "try_addresses cs = try_addresses ((t, works, closes) # cs)"
      using try_addresses_skip [of "[(t, works, closes)]" cs] by simp
    from this 2(3) have s: "try_addresses cs = Inr (Some s)" by (rule trans)
    have "0 \<le> s \<and> (\<exists>before c after. cs = before @ (s, True, c) # after \<and> list_all skipped before)"
    proof (cases "t < 0")
      case True
      then show ?thesis using 2(1) s by simp
    next
      case False
      with True have "\<not> works" "\<not> \<not> closes" by (simp_all add: skipped_def)
      with False show ?thesis using 2(2) s by blast
    qed
    then obtain before c after where "0 \<le> s" "cs = before @ (s, True, c) # after" "list_all skipped before"
      by blast
    then show ?thesis using True by (intro conjI exI [of _ "(t, works, closes) # before"] exI [of _ c] exI [of _ after]) simp_all
  next
    case False
    with 2(3) show ?thesis by (intro conjI exI [of _ "[]"] exI [of _ closes] exI [of _ cs]) (auto simp: skipped_def split: if_splits)
  qed
qed simp

lemma open_clientfd_first:
  "0 \<le> open_clientfd info \<longleftrightarrow>
     (\<exists>before s c after. info = Some (before @ (s, True, c) # after) \<and> 0 \<le> s \<and> open_clientfd info = s \<and> list_all skipped before)"
proof
  assume "0 \<le> open_clientfd info"
  then obtain cs s where s: "info = Some cs" "try_addresses cs = Inr (Some s)" "open_clientfd info = s"
    by (auto simp: open_clientfd_def split: option.splits sum.splits)
  from try_addresses_works [OF s(2)] s show "\<exists>before s c after. info = Some (before @ (s, True, c) # after) \<and> 0 \<le> s
     \<and> open_clientfd info = s \<and> list_all skipped before" by blast
next
  assume "\<exists>before s c after. info = Some (before @ (s, True, c) # after) \<and> 0 \<le> s
     \<and> open_clientfd info = s \<and> list_all skipped before"
  then obtain s where "0 \<le> s" "open_clientfd info = s" by blast
  then show "0 \<le> open_clientfd info" by simp
qed

end
