(* ===== verification/Rwmutex.thy ===== *)
theory Rwmutex
  imports Prelude
begin

section \<open>The reader-writer lock (15445 include/common/rwmutex.h)\<close>

text \<open>
  Threads run the four operations of the lock concurrently. All shared variables are accessed with \<open>mutex_\<close> held, so a
  step of a thread is what it does from taking \<open>mutex_\<close> to releasing it at the end of the call or in a wait on one of
  the condition variables. A thread that is notified, or that wakes up spuriously, tests its condition again. Threads
  call \<open>WUnlock\<close> and \<open>RUnlock\<close> only with the lock held.
\<close>

record rwmutex =
  reader_count :: u32
  writer_entered :: bool

text \<open>Where a thread is: outside the lock, before the first or the second loop of \<open>WLock\<close>, before the loop of \<open>RLock\<close>,
  waiting in one of them, or holding the lock.\<close>

datatype rw_pc = Idle | W_entry | W_wait_reader | W_drain | W_wait_writer | Writing | R_entry | R_wait | Reading

definition max_readers :: u32 where
  "max_readers = 0xFFFFFFFF"

definition new_rwmutex :: rwmutex where
  "new_rwmutex = \<lparr>reader_count = 0, writer_entered = False\<rparr>"

text \<open>The second loop of \<open>WLock\<close>, and \<open>WLock\<close> from its first loop on.\<close>

definition WLock_drain :: "rwmutex \<Rightarrow> rwmutex \<times> rw_pc" where
  "WLock_drain l = (if reader_count l > 0 then (l, W_wait_writer) else (l, Writing))"

definition WLock :: "rwmutex \<Rightarrow> rwmutex \<times> rw_pc" where
  "WLock l = (if writer_entered l then (l, W_wait_reader) else WLock_drain (l\<lparr>writer_entered := True\<rparr>))"

definition RLock :: "rwmutex \<Rightarrow> rwmutex \<times> rw_pc" where
  "RLock l =
     (if writer_entered l \<or> reader_count l = max_readers then (l, R_wait)
      else (l\<lparr>reader_count := reader_count l + 1\<rparr>, Reading))"

datatype notice = No_notice | Notify_one_writer | Notify_one_reader

definition RUnlock :: "rwmutex \<Rightarrow> rwmutex \<times> notice" where
  "RUnlock l =
     (let l = l\<lparr>reader_count := reader_count l - 1\<rparr> in
      (l, if writer_entered l then (if reader_count l = 0 then Notify_one_writer else No_notice)
          else (if reader_count l = max_readers - 1 then Notify_one_reader else No_notice)))"

definition WUnlock :: "rwmutex \<Rightarrow> rwmutex" where
  "WUnlock l = l\<lparr>writer_entered := False\<rparr>"

text \<open>The condition variables: who waits on them, and where a thread goes on when it wakes up.\<close>

fun on_reader :: "rw_pc \<Rightarrow> bool" where
  "on_reader W_wait_reader = True" | "on_reader R_wait = True" | "on_reader _ = False"

fun on_writer :: "rw_pc \<Rightarrow> bool" where
  "on_writer W_wait_writer = True" | "on_writer _ = False"

fun wake :: "rw_pc \<Rightarrow> rw_pc" where
  "wake W_wait_reader = W_entry" | "wake R_wait = R_entry" | "wake W_wait_writer = W_drain" | "wake p = p"

definition notify_all :: "(rw_pc \<Rightarrow> bool) \<Rightarrow> (nat \<Rightarrow> rw_pc) \<Rightarrow> nat \<Rightarrow> rw_pc" where
  "notify_all w m = (\<lambda>t. if w (m t) then wake (m t) else m t)"

inductive notify_one :: "(rw_pc \<Rightarrow> bool) \<Rightarrow> (nat \<Rightarrow> rw_pc) \<Rightarrow> (nat \<Rightarrow> rw_pc) \<Rightarrow> bool" where
  none: "\<forall>t. \<not> w (m t) \<Longrightarrow> notify_one w m m"
| one: "w (m t) \<Longrightarrow> notify_one w m (m(t := wake (m t)))"

fun notify :: "notice \<Rightarrow> (nat \<Rightarrow> rw_pc) \<Rightarrow> (nat \<Rightarrow> rw_pc) \<Rightarrow> bool" where
  "notify No_notice m m' \<longleftrightarrow> m' = m"
| "notify Notify_one_writer m m' \<longleftrightarrow> notify_one on_writer m m'"
| "notify Notify_one_reader m m' \<longleftrightarrow> notify_one on_reader m m'"

text \<open>What a thread does with the lock; besides, it may call an operation or wake up spuriously.\<close>

inductive rw_run :: "nat \<Rightarrow> rwmutex \<times> (nat \<Rightarrow> rw_pc) \<Rightarrow> rwmutex \<times> (nat \<Rightarrow> rw_pc) \<Rightarrow> bool" where
  run_WLock: "m t = W_entry \<Longrightarrow> WLock l = (l', p) \<Longrightarrow> rw_run t (l, m) (l', m(t := p))"
| run_drain: "m t = W_drain \<Longrightarrow> WLock_drain l = (l', p) \<Longrightarrow> rw_run t (l, m) (l', m(t := p))"
| run_RLock: "m t = R_entry \<Longrightarrow> RLock l = (l', p) \<Longrightarrow> rw_run t (l, m) (l', m(t := p))"
| run_WUnlock: "m t = Writing \<Longrightarrow> rw_run t (l, m) (WUnlock l, notify_all on_reader (m(t := Idle)))"
| run_RUnlock: "m t = Reading \<Longrightarrow> RUnlock l = (l', n) \<Longrightarrow> notify n (m(t := Idle)) m' \<Longrightarrow> rw_run t (l, m) (l', m')"

inductive rw_step :: "nat \<Rightarrow> rwmutex \<times> (nat \<Rightarrow> rw_pc) \<Rightarrow> rwmutex \<times> (nat \<Rightarrow> rw_pc) \<Rightarrow> bool" where
  run: "rw_run t s s' \<Longrightarrow> rw_step t s s'"
| call_WLock: "m t = Idle \<Longrightarrow> rw_step t (l, m) (l, m(t := W_entry))"
| call_RLock: "m t = Idle \<Longrightarrow> rw_step t (l, m) (l, m(t := R_entry))"
| spurious: "rw_step t (l, m) (l, m(t := wake (m t)))"

text \<open>The states that the threads of a set reach.\<close>

inductive rw_reachable :: "nat set \<Rightarrow> rwmutex \<times> (nat \<Rightarrow> rw_pc) \<Rightarrow> bool" for T where
  start: "rw_reachable T (new_rwmutex, \<lambda>_. Idle)"
| step: "rw_reachable T s \<Longrightarrow> t \<in> T \<Longrightarrow> rw_step t s s' \<Longrightarrow> rw_reachable T s'"

subsection \<open>The invariant\<close>

fun owner :: "rw_pc \<Rightarrow> bool" where
  "owner W_drain = True" | "owner W_wait_writer = True" | "owner Writing = True" | "owner _ = False"

definition readers :: "(nat \<Rightarrow> rw_pc) \<Rightarrow> nat set" where
  "readers m = {t. m t = Reading}"

text \<open>The count is the number of readers; a writer has entered exactly when one thread owns the flag; a writer that has
  finished waiting excludes readers, and the waits have a reason.\<close>

definition rw_inv :: "rwmutex \<times> (nat \<Rightarrow> rw_pc) \<Rightarrow> bool" where
  "rw_inv s = (case s of (l, m) \<Rightarrow>
     finite (readers m) \<and> unat (reader_count l) = card (readers m)
     \<and> (\<forall>t. owner (m t) \<longrightarrow> writer_entered l) \<and> (\<forall>t u. owner (m t) \<longrightarrow> owner (m u) \<longrightarrow> t = u)
     \<and> (writer_entered l \<longrightarrow> (\<exists>t. owner (m t)))
     \<and> (\<forall>t. m t = Writing \<longrightarrow> readers m = {})
     \<and> (\<forall>t. m t = W_wait_writer \<longrightarrow> readers m \<noteq> {})
     \<and> (\<forall>t. m t = W_wait_reader \<longrightarrow> writer_entered l))"

lemma readers_upd: "readers (m(t := p)) = (if p = Reading then insert t (readers m) else readers m - {t})"
  by (auto simp: readers_def)

lemma owner_not_reader: "owner p \<Longrightarrow> p \<noteq> Reading"
  by (cases p) auto

lemma count_readers:
  assumes "rw_inv (l, m)"
  shows "reader_count l = 0 \<longleftrightarrow> readers m = {}" "m t = Reading \<Longrightarrow> unat (reader_count l - 1) = card (readers m - {t})"
    "reader_count l \<noteq> max_readers \<Longrightarrow> m t \<noteq> Reading \<Longrightarrow> unat (reader_count l + 1) = card (insert t (readers m))"
proof -
  have f: "finite (readers m)" "unat (reader_count l) = card (readers m)" using assms by (simp_all add: rw_inv_def)
  show "reader_count l = 0 \<longleftrightarrow> readers m = {}" using f by (metis card_0_eq unat_eq_zero)
  show "unat (reader_count l - 1) = card (readers m - {t})" if "m t = Reading"
  proof -
    have "t \<in> readers m" using that by (simp add: readers_def)
    then have "card (readers m) \<noteq> 0" using f(1) by auto
    then have "reader_count l \<noteq> 0" using f(2) by auto
    then have "unat (reader_count l - 1) = unat (reader_count l) - 1" by (simp add: unat_minus_one)
    then show ?thesis using f \<open>t \<in> readers m\<close> by simp
  qed
  show "unat (reader_count l + 1) = card (insert t (readers m))" if "reader_count l \<noteq> max_readers" "m t \<noteq> Reading"
  proof -
    have "unat (reader_count l) \<noteq> unat max_readers" using that(1) by (simp add: word_unat_eq_iff)
    moreover have "unat (reader_count l) < 2 ^ 32" using unsigned_less [of "reader_count l"] by simp
    ultimately have "unat (reader_count l) + 1 < 2 ^ 32" by (simp add: max_readers_def)
    then have "unat (reader_count l + 1) = unat (reader_count l) + 1" by (simp add: unat_word_ariths)
    then show ?thesis using f that(2) by (simp add: readers_def)
  qed
qed

lemma wake_simps [simp]: "owner (wake p) \<longleftrightarrow> owner p" "wake p = Reading \<longleftrightarrow> p = Reading" "wake p = Writing \<longleftrightarrow> p = Writing"
  "wake p \<noteq> W_wait_writer" "wake p \<noteq> W_wait_reader" "wake p \<noteq> R_wait" "wake p = Idle \<longleftrightarrow> p = Idle"
  by (cases p; simp)+

text \<open>Waking threads up keeps the invariant, except that the waits on \<open>writer_\<close> and \<open>reader_\<close> keep their reasons.\<close>

lemma inv_wake:
  assumes "rw_inv (l, m)"
  shows "rw_inv (l, m(t := wake (m t)))"
proof -
  have r: "readers (m(t := wake (m t))) = readers m" by (auto simp: readers_def)
  have o: "owner ((m(t := wake (m t))) u) \<longleftrightarrow> owner (m u)" for u by simp
  show ?thesis using assms unfolding rw_inv_def prod.case r o by (auto split: if_splits)
qed

text \<open>A thread that does not own the flag before and after a step.\<close>

lemma owner_upd: "\<not> owner (m t) \<Longrightarrow> \<not> owner p \<Longrightarrow> owner ((m(t := p)) u) \<longleftrightarrow> owner (m u)"
  by simp

lemma inv_other:
  assumes "rw_inv (l, m)" "\<not> owner (m t)" "\<not> owner p" "m t \<noteq> Reading" "p \<noteq> Reading" "p = W_wait_reader \<longrightarrow> writer_entered l"
  shows "rw_inv (l, m(t := p))"
proof -
  have r: "readers (m(t := p)) = readers m" using assms(4,5) by (auto simp: readers_def)
  have "p \<noteq> Writing" "p \<noteq> W_wait_writer" using assms(3) by auto
  then show ?thesis using assms(1,6) unfolding rw_inv_def prod.case r owner_upd [of m t p, OF assms(2,3)] by (auto split: if_splits)
qed

lemma inv_WLock_drain:
  assumes "rw_inv (l, m)" "m t = W_drain" "WLock_drain l = (l', p)"
  shows "rw_inv (l', m(t := p))"
proof -
  have r: "readers (m(t := p)) = readers m" "l' = l" "owner p"
    using assms(2,3) by (auto simp: readers_def WLock_drain_def split: if_splits)
  have c: "p = Writing \<longrightarrow> readers m = {}" "p = W_wait_writer \<longrightarrow> readers m \<noteq> {}" "p \<noteq> W_wait_reader"
    using assms(3) count_readers(1) [OF assms(1)] by (auto simp: WLock_drain_def word_gt_0 split: if_splits)
  have o: "owner ((m(t := p)) u) \<longleftrightarrow> owner (m u)" for u using r(3) assms(2) by simp
  show ?thesis using assms(1) c unfolding rw_inv_def prod.case r(1,2) o by (auto split: if_splits)
qed

lemma inv_WLock:
  assumes "rw_inv (l, m)" "m t = W_entry" "WLock l = (l', p)"
  shows "rw_inv (l', m(t := p))"
proof (cases "writer_entered l")
  case True
  then have "l' = l" "p = W_wait_reader" using assms(3) by (auto simp: WLock_def)
  then show ?thesis using inv_other [OF assms(1), of t] assms(2) True by simp
next
  case False
  let ?l = "l\<lparr>writer_entered := True\<rparr>" and ?m = "m(t := W_drain)"
  have "readers ?m = readers m" using assms(2) by (auto simp: readers_def)
  then have "rw_inv (?l, ?m)" using assms(1,2) False unfolding rw_inv_def prod.case by auto
  moreover have "WLock_drain ?l = (l', p)" using assms(3) False by (simp add: WLock_def)
  ultimately have "rw_inv (l', ?m(t := p))" using inv_WLock_drain [of ?l ?m t l' p] by simp
  then show ?thesis by simp
qed

lemma inv_RLock:
  assumes "rw_inv (l, m)" "m t = R_entry" "RLock l = (l', p)"
  shows "rw_inv (l', m(t := p))"
proof (cases "writer_entered l \<or> reader_count l = max_readers")
  case True
  then have "l' = l" "p = R_wait" using assms(3) by (auto simp: RLock_def)
  then show ?thesis using inv_other [OF assms(1), of t] assms(2) by simp
next
  case False
  then have l': "l' = l\<lparr>reader_count := reader_count l + 1\<rparr>" "p = Reading" using assms(3) by (auto simp: RLock_def)
  have "unat (reader_count l + 1) = card (insert t (readers m))" using count_readers(3) [OF assms(1)] False assms(2) by simp
  moreover have "\<not> owner (m u)" for u using assms(1) False by (auto simp: rw_inv_def)
  then have "m u \<noteq> Writing" "m u \<noteq> W_wait_writer" for u by (metis owner.simps)+
  ultimately show ?thesis using assms(1,2) False unfolding rw_inv_def prod.case l' readers_upd by auto
qed

lemma inv_WUnlock:
  assumes "rw_inv (l, m)" "m t = Writing"
  shows "rw_inv (WUnlock l, notify_all on_reader (m(t := Idle)))"
proof -
  let ?m = "notify_all on_reader (m(t := Idle))"
  have r: "readers ?m = readers m" using assms(2) by (auto simp: readers_def notify_all_def)
  have "owner (m u) \<Longrightarrow> u = t" for u using assms unfolding rw_inv_def prod.case by (metis owner.simps(3))
  then have o: "\<not> owner (?m u)" for u by (auto simp: notify_all_def)
  then have "?m u \<noteq> Writing" "?m u \<noteq> W_wait_writer" for u by (metis owner.simps)+
  moreover have "?m u \<noteq> W_wait_reader" for u by (auto simp: notify_all_def)
  ultimately show ?thesis using assms(1) o unfolding rw_inv_def prod.case r by (simp add: WUnlock_def)
qed

lemma inv_RUnlock:
  assumes inv: "rw_inv (l, m)" and t: "m t = Reading" and u: "RUnlock l = (l', n)" and n: "notify n (m(t := Idle)) m'"
  shows "rw_inv (l', m')"
proof -
  let ?m = "m(t := Idle)"
  have l': "l' = l\<lparr>reader_count := reader_count l - 1\<rparr>" using u by (simp add: RUnlock_def Let_def)
  have r: "readers ?m = readers m - {t}" by (simp add: readers_upd)
  have c: "unat (reader_count l') = card (readers ?m)" using count_readers(2) [OF inv t] unfolding l' r by simp
  have fin: "finite (readers ?m)" using inv r by (simp add: rw_inv_def)
  then have zero: "reader_count l' = 0 \<longleftrightarrow> readers ?m = {}" using c by (metis card_0_eq unat_eq_zero)
  have own: "\<not> owner Reading" by simp
  have w: "m v \<noteq> Writing" for v using inv t unfolding rw_inv_def prod.case readers_def by blast
  show ?thesis
  proof (cases "n = Notify_one_writer")
    case True
    then have e: "writer_entered l" using u by (auto simp: RUnlock_def Let_def split: if_splits)
    from n True have "notify_one on_writer ?m m'" by simp
    then show ?thesis
    proof cases
      case none
      then have "?m v \<noteq> W_wait_writer" for v using on_writer.simps(1) by metis
      moreover have "owner (?m v) \<longleftrightarrow> owner (m v)" for v using t by simp
      ultimately show ?thesis using inv w e c fin unfolding none(1) rw_inv_def prod.case l' by (auto split: if_splits)
    next
      case (one v)
      then have v: "m v = W_wait_writer" "v \<noteq> t" by (cases "?m v"; auto split: if_splits)+
      have r': "readers m' = readers ?m" using v by (auto simp: one(1) readers_def)
      have "owner (m v)" using v by simp
      then have only: "owner (m x) \<Longrightarrow> x = v" for x using inv unfolding rw_inv_def prod.case by blast
      have "m x \<noteq> W_wait_writer" if "x \<noteq> v" for x using only [of x] that by (metis owner.simps(2))
      moreover have "owner (m' x) \<longleftrightarrow> owner (m x)" for x using t v by (simp add: one(1))
      ultimately show ?thesis using inv w e c fin v t unfolding rw_inv_def prod.case r' l' by (auto simp: one(1) split: if_splits)
    qed
  next
    case False
    have base: "rw_inv (l', ?m)"
    proof -
      have "readers ?m \<noteq> {}" if "m v = W_wait_writer" for v
      proof -
        have "owner (m v)" using that by simp
        then have "writer_entered l" using inv unfolding rw_inv_def prod.case by blast
        then have "reader_count l' \<noteq> 0" using False u unfolding l' by (auto simp: RUnlock_def Let_def split: if_splits)
        then show ?thesis using zero by simp
      qed
      moreover have "owner (?m v) \<longleftrightarrow> owner (m v)" for v using t by simp
      ultimately show ?thesis using inv w c fin unfolding rw_inv_def prod.case l' by (auto split: if_splits)
    qed
    consider "m' = ?m" | "notify_one on_reader ?m m'" using n False by (cases n) auto
    then show ?thesis
    proof cases
      case 2
      then show ?thesis by cases (use base inv_wake [OF base] in blast)+
    qed (use base in simp)
  qed
qed

lemma inv_run: "rw_run t s s' \<Longrightarrow> rw_inv s \<Longrightarrow> rw_inv s'"
proof (induction rule: rw_run.induct)
  case (run_RUnlock m t l l' n m')
  then show ?case using inv_RUnlock [of l m t l' n m'] by simp
qed (use inv_WLock inv_WLock_drain inv_RLock inv_WUnlock in simp_all)

lemma inv_reachable: "rw_reachable T s \<Longrightarrow> rw_inv s"
proof (induction rule: rw_reachable.induct)
  case start
  show ?case by (simp add: rw_inv_def new_rwmutex_def readers_def)
next
  case (step s t s')
  from step.hyps(3) step.IH show ?case
  proof (induction rule: rw_step.induct)
    case (call_WLock m t l)
    then show ?case using inv_other [of l m t] by simp
  next
    case (call_RLock m t l)
    then show ?case using inv_other [of l m t] by simp
  qed (use inv_run inv_wake in simp_all)
qed

subsection \<open>Progress\<close>

text \<open>The threads outside the set stay idle, and a waiting reader waits for a writer unless there are as many threads as
  the lock admits readers.\<close>

definition idle_outside :: "nat set \<Rightarrow> rwmutex \<times> (nat \<Rightarrow> rw_pc) \<Rightarrow> bool" where
  "idle_outside T s \<longleftrightarrow> (\<forall>t. t \<notin> T \<longrightarrow> snd s t = Idle)"

definition waits_for_writer :: "rwmutex \<times> (nat \<Rightarrow> rw_pc) \<Rightarrow> bool" where
  "waits_for_writer s \<longleftrightarrow> (\<forall>t. snd s t = R_wait \<longrightarrow> writer_entered (fst s))"

inductive_cases notify_oneE: "notify_one w m m'"

lemma notify_idle: "notify n m m' \<Longrightarrow> m' t = Idle \<longleftrightarrow> m t = Idle"
  by (cases n) (auto elim!: notify_oneE split: if_splits)

lemma idle_run: "rw_run t s s' \<Longrightarrow> t \<in> T \<Longrightarrow> idle_outside T s \<Longrightarrow> idle_outside T s'"
proof (induction rule: rw_run.induct)
  case (run_RUnlock m t l l' n m')
  then show ?case by (auto simp: idle_outside_def notify_idle [OF run_RUnlock.hyps(3)])
qed (auto simp: idle_outside_def notify_all_def)

lemma idle_reachable: "rw_reachable T s \<Longrightarrow> idle_outside T s"
proof (induction rule: rw_reachable.induct)
  case (step s t s')
  from step.hyps(3) step.hyps(2) step.IH show ?case
  proof (induction rule: rw_step.induct)
    case (run t s s')
    then show ?case using idle_run by blast
  qed (auto simp: idle_outside_def)
qed (simp add: idle_outside_def)

lemma readers_bound:
  assumes "rw_inv (l, m)" "idle_outside T (l, m)" "finite T" "card T < 2 ^ 32 - 1"
  shows "reader_count l \<noteq> max_readers"
proof
  assume a: "reader_count l = max_readers"
  have "readers m \<subseteq> T" using assms(2) by (auto simp: readers_def idle_outside_def)
  then have "card (readers m) \<le> card T" using assms(3) by (rule card_mono [rotated])
  moreover have "unat (reader_count l) = card (readers m)" using assms(1) by (simp add: rw_inv_def)
  ultimately show False using a assms(4) by (simp add: max_readers_def)
qed

lemma notify_R_wait: "notify n m m' \<Longrightarrow> m' t = R_wait \<Longrightarrow> m t = R_wait"
  by (cases n) (auto elim!: notify_oneE split: if_splits)

lemma waits_run:
  assumes "rw_run t s s'" "waits_for_writer s" "reader_count (fst s) \<noteq> max_readers"
  shows "waits_for_writer s'"
  using assms
proof (induction rule: rw_run.induct)
  case (run_RUnlock m t l l' n m')
  then have "m' u = R_wait \<longrightarrow> m u = R_wait" for u using notify_R_wait [OF run_RUnlock.hyps(3), of u] by (auto split: if_splits)
  moreover have "writer_entered l' = writer_entered l" using run_RUnlock by (auto simp: RUnlock_def Let_def)
  ultimately show ?case using run_RUnlock by (auto simp: waits_for_writer_def)
qed (auto simp: waits_for_writer_def WLock_def WLock_drain_def RLock_def notify_all_def split: if_splits)

lemma waits_reachable:
  assumes "rw_reachable T s" "finite T" "card T < 2 ^ 32 - 1"
  shows "waits_for_writer s"
  using assms
proof (induction rule: rw_reachable.induct)
  case (step s t s')
  have "reader_count (fst s) \<noteq> max_readers"
    using readers_bound [of "fst s" "snd s" T] inv_reachable [OF step.hyps(1)] idle_reachable [OF step.hyps(1)] step.prems by simp
  moreover have "waits_for_writer s" using step.IH step.prems by simp
  ultimately show ?case using step.hyps(3)
    by - (erule rw_step.cases, blast intro: waits_run, auto simp: waits_for_writer_def split: if_splits)
qed (simp add: waits_for_writer_def)

text \<open>How far a thread is from leaving the lock.\<close>

fun left :: "rw_pc \<Rightarrow> nat" where
  "left Idle = 0" | "left Reading = 1" | "left Writing = 1" | "left W_drain = 2" | "left W_entry = 2" | "left R_entry = 2"
| "left W_wait_writer = 3" | "left W_wait_reader = 3" | "left R_wait = 3"

definition work :: "nat set \<Rightarrow> rwmutex \<times> (nat \<Rightarrow> rw_pc) \<Rightarrow> nat" where
  "work T s = (\<Sum>t\<in>T. left (snd s t))"

lemma work_less:
  assumes "finite T" "t \<in> T" "left (m' t) < left (m t)" "\<forall>u. left (m' u) \<le> left (m u)"
  shows "work T (l', m') < work T (l, m)"
  unfolding work_def snd_conv by (rule sum_strict_mono_ex1) (use assms in auto)

lemma left_wake: "left (wake p) \<le> left p"
  by (cases p) auto

lemma left_notify: "notify n m m' \<Longrightarrow> left (m' t) \<le> left (m t)"
  by (cases n) (auto elim!: notify_oneE simp: left_wake)

lemma notify_exists: "\<exists>m'. notify n m m'"
proof -
  have "\<exists>m'. notify_one w m m'" for w
    by (cases "\<exists>t. w (m t)") (auto intro: notify_one.intros)
  then show ?thesis by (cases n) auto
qed

text \<open>Some thread can run and comes closer to leaving the lock.\<close>

lemma some_thread_advances:
  assumes inv: "rw_inv (l, m)" and idle: "idle_outside T (l, m)" and wait: "waits_for_writer (l, m)"
    and T: "finite T" "card T < 2 ^ 32 - 1" and busy: "m t \<noteq> Idle"
  shows "\<exists>u s'. u \<in> T \<and> rw_run u (l, m) s' \<and> work T s' < work T (l, m)"
proof -
  have in_T: "u \<in> T" if "m u \<noteq> Idle" for u using idle that by (auto simp: idle_outside_def)
  consider (W) u where "m u = Writing" | (R) u where "m u = Reading" | (D) u where "m u = W_drain" "readers m = {}"
    | (E) u where "m u = W_entry" "readers m = {}" "\<forall>v. \<not> owner (m v)" | (F) u where "m u = R_entry" "readers m = {}" "\<forall>v. \<not> owner (m v)"
  proof (cases "readers m = {}")
    case False
    then show ?thesis using that(2) by (auto simp: readers_def)
  next
    case True
    then have nw: "m v \<noteq> W_wait_writer" "m v \<noteq> Reading" for v using inv by (auto simp: rw_inv_def readers_def)
    show ?thesis
    proof (cases "\<exists>v. owner (m v)")
      case True
      then obtain v where "owner (m v)" by blast
      then have "m v = W_drain \<or> m v = Writing" using nw [of v] by (cases "m v") auto
      then show ?thesis using that(1,3) \<open>readers m = {}\<close> by blast
    next
      case False
      then have "\<not> writer_entered l" using inv by (auto simp: rw_inv_def)
      then have "m t \<noteq> R_wait" "m t \<noteq> W_wait_reader" using wait inv by (auto simp: waits_for_writer_def rw_inv_def)
      moreover have "\<not> owner (m t)" using False by blast
      ultimately have "m t = W_entry \<or> m t = R_entry" using busy nw [of t] by (cases "m t") auto
      then show ?thesis using that(4,5) False \<open>readers m = {}\<close> by blast
    qed
  qed
  then show ?thesis
  proof cases
    case W
    let ?m = "notify_all on_reader (m(u := Idle))"
    have "left (?m v) \<le> left (m v)" for v using left_wake by (auto simp: notify_all_def)
    moreover have "left (?m u) < left (m u)" using W by (simp add: notify_all_def)
    ultimately show ?thesis using W in_T [of u] T work_less [of T u ?m m] run_WUnlock [of m u l]
      by (intro exI [of _ u] exI [of _ "(WUnlock l, ?m)"]) auto
  next
    case R
    obtain l' n where r: "RUnlock l = (l', n)" by (cases "RUnlock l")
    obtain m' where m': "notify n (m(u := Idle)) m'" using notify_exists by blast
    have "left (m' v) \<le> left (m v)" for v using left_notify [OF m', of v] by (auto split: if_splits)
    moreover have "left (m' u) < left (m u)" using left_notify [OF m', of u] R by simp
    ultimately show ?thesis using R in_T [of u] T work_less [of T u m' m] run_RUnlock [of m u, OF R r m']
      by (intro exI [of _ u] exI [of _ "(l', m')"]) auto
  next
    case D
    then have d: "WLock_drain l = (l, Writing)" using count_readers(1) [OF inv] by (simp add: WLock_drain_def)
    show ?thesis using D in_T [of u] T work_less [of T u "m(u := Writing)" m] run_drain [of m u, OF D(1) d]
      by (intro exI [of _ u] exI [of _ "(l, m(u := Writing))"]) auto
  next
    case E
    then have e: "WLock l = (l\<lparr>writer_entered := True\<rparr>, Writing)"
      using count_readers(1) [OF inv] inv by (auto simp: WLock_def WLock_drain_def rw_inv_def)
    show ?thesis using E in_T [of u] T work_less [of T u "m(u := Writing)" m] run_WLock [of m u, OF E(1) e]
      by (intro exI [of _ u] exI [of _ "(l\<lparr>writer_entered := True\<rparr>, m(u := Writing))"]) auto
  next
    case F
    have "\<not> writer_entered l" using F(3) inv by (auto simp: rw_inv_def)
    then have f: "RLock l = (l\<lparr>reader_count := reader_count l + 1\<rparr>, Reading)"
      using readers_bound [OF inv idle T] by (simp add: RLock_def)
    show ?thesis using F in_T [of u] T work_less [of T u "m(u := Reading)" m] run_RLock [of m u, OF F(1) f]
      by (intro exI [of _ u] exI [of _ "(l\<lparr>reader_count := reader_count l + 1\<rparr>, m(u := Reading))"]) auto
  qed
qed

text \<open>A sequence of steps in which the threads of the set only go on with the calls they are in.\<close>

inductive rw_finish :: "nat set \<Rightarrow> rwmutex \<times> (nat \<Rightarrow> rw_pc) \<Rightarrow> rwmutex \<times> (nat \<Rightarrow> rw_pc) \<Rightarrow> bool" for T where
  finished: "rw_finish T s s"
| more: "t \<in> T \<Longrightarrow> rw_run t s s' \<Longrightarrow> rw_finish T s' s'' \<Longrightarrow> rw_finish T s s''"

lemma can_finish:
  assumes "rw_inv s" "idle_outside T s" "waits_for_writer s" "finite T" "card T < 2 ^ 32 - 1"
  shows "\<exists>l. rw_finish T s (l, \<lambda>_. Idle)"
  using assms
proof (induction "work T s" arbitrary: s rule: less_induct)
  case less
  obtain l m where s: "s = (l, m)" by (cases s)
  show ?case
  proof (cases "\<exists>t. m t \<noteq> Idle")
    case True
    then obtain u s' where u: "u \<in> T" "rw_run u s s'" "work T s' < work T s"
      using some_thread_advances [of l m T] less.prems unfolding s by blast
    have "reader_count (fst s) \<noteq> max_readers" using readers_bound [of l m T] less.prems unfolding s by simp
    then have "\<exists>l. rw_finish T s' (l, \<lambda>_. Idle)"
      using less.hyps [OF u(3)] inv_run [OF u(2)] idle_run [OF u(2,1)] waits_run [OF u(2)] less.prems by blast
    then show ?thesis using u(1,2) rw_finish.more by blast
  next
    case False
    then have "m = (\<lambda>_. Idle)" by auto
    then show ?thesis unfolding s using rw_finish.finished by blast
  qed
qed

lemma reach_run: "rw_reachable T s \<Longrightarrow> t \<in> T \<Longrightarrow> rw_run t s s' \<Longrightarrow> rw_reachable T s'"
  using rw_reachable.step rw_step.run by blast

lemma reach_call_R: "rw_reachable T (l, m) \<Longrightarrow> t \<in> T \<Longrightarrow> m t = Idle \<Longrightarrow> rw_reachable T (l, m(t := R_entry))"
  using rw_reachable.step call_RLock by blast

lemma reach_RLock:
  assumes "rw_reachable T (l, m)" "t \<in> T" "m t = Idle" "RLock l = (l', p)"
  shows "rw_reachable T (l', m(t := p))"
proof -
  have "rw_run t (l, m(t := R_entry)) (l', (m(t := R_entry))(t := p))" using assms(4) by (intro run_RLock) auto
  then show ?thesis using reach_run [OF reach_call_R [OF assms(1-3)] assms(2)] by simp
qed

text \<open>A writer and a reader that waits for it.\<close>

lemma writer_and_reader: "rw_reachable {0, 1} (\<lparr>reader_count = 0, writer_entered = True\<rparr>, (\<lambda>_. Idle)(0 := Writing, 1 := R_wait))"
proof -
  let ?l = "\<lparr>reader_count = 0, writer_entered = True\<rparr>"
  have "rw_reachable {0, 1} (new_rwmutex, (\<lambda>_. Idle)(0 := W_entry))"
    using rw_reachable.step [OF rw_reachable.start] call_WLock [of "\<lambda>_. Idle" 0] by blast
  moreover have "rw_run 0 (new_rwmutex, (\<lambda>_. Idle)(0 := W_entry)) (?l, ((\<lambda>_. Idle)(0 := W_entry))(0 := Writing))"
    by (intro run_WLock) (simp_all add: WLock_def WLock_drain_def new_rwmutex_def)
  ultimately have "rw_reachable {0, 1} (?l, (\<lambda>_. Idle)(0 := Writing))" using reach_run by fastforce
  then show ?thesis using reach_RLock [of "{0, 1}" ?l "(\<lambda>_. Idle)(0 := Writing)" 1 ?l R_wait] by (simp add: RLock_def)
qed

subsection \<open>The contract of the lock\<close>

text \<open>C7. The lock excludes: in every state that any threads can reach, a thread that holds the lock for writing is alone, with
  no reader and no other writer, and \<open>reader_count_\<close> is the number of threads that hold it for reading, so it never
  wraps around.\<close>

theorem rwmutex_excludes:
  assumes "rw_reachable T (l, m)"
  shows "(m t = Writing \<longrightarrow> (\<forall>u. m u \<noteq> Reading \<and> (m u = Writing \<longrightarrow> u = t)))
    \<and> finite {u. m u = Reading} \<and> unat (reader_count l) = card {u. m u = Reading}"
proof -
  have inv: "rw_inv (l, m)" using inv_reachable [OF assms] .
  have "u = t" if "m t = Writing" "m u = Writing" for u
  proof -
    have "owner (m t)" "owner (m u)" using that by simp_all
    then show ?thesis using inv unfolding rw_inv_def prod.case by blast
  qed
  then show ?thesis using inv unfolding rw_inv_def prod.case readers_def by auto
qed

theorem rwmutex_excludes_witness:
  "\<exists>l m. rw_reachable {0, 1} (l, m) \<and> m 0 = Writing \<and> m 1 = R_wait \<and> unat (reader_count l) = card {u. m u = Reading}"
  using rwmutex_excludes [OF writer_and_reader] writer_and_reader
  by (intro exI [of _ "\<lparr>reader_count = 0, writer_entered = True\<rparr>"] exI [of _ "(\<lambda>_. Idle)(0 := Writing, 1 := R_wait)"]) simp

text \<open>C8. No thread is left waiting: with fewer than \<open>max_readers_\<close> threads, from every state they can reach the threads that are
  in the lock can all go on and leave it, without new calls and without spurious wake-ups.\<close>

theorem rwmutex_can_finish:
  assumes "rw_reachable T s" and "finite T" and "card T < 2 ^ 32 - 1"
  shows "\<exists>l. rw_finish T s (l, \<lambda>_. Idle)"
  using can_finish inv_reachable idle_reachable waits_reachable assms by blast

theorem rwmutex_can_finish_witness:
  "\<exists>l. rw_finish {0, 1} (\<lparr>reader_count = 0, writer_entered = True\<rparr>, (\<lambda>_. Idle)(0 := Writing, 1 := R_wait)) (l, \<lambda>_. Idle)"
  by (rule rwmutex_can_finish [OF writer_and_reader]) simp_all

subsection \<open>The lost wake-up\<close>

text \<open>The first \<open>n\<close> threads read, the others are idle.\<close>

definition first_read :: "nat \<Rightarrow> nat \<Rightarrow> rw_pc" where
  "first_read n = (\<lambda>t. if t < n then Reading else Idle)"

definition count_lock :: "nat \<Rightarrow> rwmutex" where
  "count_lock n = \<lparr>reader_count = word_of_nat n, writer_entered = False\<rparr>"

lemma count_eq: "n < 2 ^ 32 \<Longrightarrow> k < 2 ^ 32 \<Longrightarrow> (word_of_nat n :: u32) = word_of_nat k \<longleftrightarrow> n = k"
proof -
  assume a: "n < 2 ^ 32" "k < 2 ^ 32"
  then have "unat (word_of_nat n :: u32) = n" "unat (word_of_nat k :: u32) = k" by (simp_all only: unat_of_nat) simp_all
  then show ?thesis by metis
qed

lemma max_count: "n < 2 ^ 32 \<Longrightarrow> (word_of_nat n :: u32) = max_readers \<longleftrightarrow> n = 2 ^ 32 - 1"
  "n < 2 ^ 32 \<Longrightarrow> (word_of_nat n :: u32) = max_readers - 1 \<longleftrightarrow> n = 2 ^ 32 - 2"
  using count_eq [of n "2 ^ 32 - 1"] count_eq [of n "2 ^ 32 - 2"] by (simp_all add: max_readers_def)

lemma RUnlock_count: "Suc n < 2 ^ 32 \<Longrightarrow> RUnlock (count_lock (Suc n)) = (count_lock n, if n = 2 ^ 32 - 2 then Notify_one_reader else No_notice)"
  using max_count(2) [of n] by (simp add: RUnlock_def count_lock_def)

lemma RLock_count: "n < 2 ^ 32 \<Longrightarrow> RLock (count_lock n) = (if n = 2 ^ 32 - 1 then (count_lock n, R_wait) else (count_lock (Suc n), Reading))"
  using max_count(1) [of n] by (simp add: RLock_def count_lock_def add.commute)

lemma all_read: "n \<le> 2 ^ 32 - 1 \<Longrightarrow> rw_reachable UNIV (count_lock n, first_read n)"
proof (induction n)
  case 0
  have "(count_lock 0, first_read 0) = (new_rwmutex, \<lambda>_. Idle)" by (simp add: count_lock_def new_rwmutex_def first_read_def fun_eq_iff)
  then show ?case using rw_reachable.start [of UNIV] by simp
next
  case (Suc n)
  have "RLock (count_lock n) = (count_lock (Suc n), Reading)" using Suc.prems RLock_count [of n] by simp
  moreover have "rw_reachable UNIV (count_lock n, first_read n)" using Suc by simp
  ultimately have "rw_reachable UNIV (count_lock (Suc n), (first_read n)(n := Reading))"
    by (intro reach_RLock [of UNIV "count_lock n"]) (auto simp: first_read_def)
  moreover have "(first_read n)(n := Reading) = first_read (Suc n)" by (auto simp: first_read_def fun_eq_iff)
  ultimately show ?case by simp
qed

text \<open>Two readers wait, the first of them has been notified, and the readers from 2 on still read.\<close>

definition two_wait :: "nat \<Rightarrow> nat \<Rightarrow> nat \<Rightarrow> rw_pc" where
  "two_wait M k = (\<lambda>t. if 2 \<le> t \<and> t < k + 2 then Reading else if t = M then R_entry else if t = M + 1 then R_wait else Idle)"

lemma two_wait_start:
  assumes M: "M = 2 ^ 32 - 1"
  shows "rw_reachable UNIV (count_lock (M - 2), two_wait M (M - 2))"
proof -
  let ?m1 = "(first_read M)(M := R_wait)" let ?m2 = "?m1(M + 1 := R_wait)"
  let ?m3 = "(?m2(0 := Idle))(M := R_entry)" let ?m4 = "?m3(1 := Idle)"
  have w: "RLock (count_lock M) = (count_lock M, R_wait)" using RLock_count [of M] M by simp
  have "rw_reachable UNIV (count_lock M, ?m1)"
    using reach_RLock [OF all_read [of M] _ _ w, of M] M by (simp add: first_read_def)
  then have 2: "rw_reachable UNIV (count_lock M, ?m2)"
    using reach_RLock [of UNIV "count_lock M" ?m1 "M + 1", OF _ _ _ w] M by (simp add: first_read_def)
  have "RUnlock (count_lock M) = (count_lock (M - 1), Notify_one_reader)" using RUnlock_count [of "M - 1"] M by simp
  moreover have "notify Notify_one_reader (?m2(0 := Idle)) ?m3"
    using notify_one.one [of on_reader "?m2(0 := Idle)" M] M by (simp add: fun_upd_twist)
  ultimately have "rw_run 0 (count_lock M, ?m2) (count_lock (M - 1), ?m3)"
    by (rule run_RUnlock [rotated]) (simp add: first_read_def M)
  then have 3: "rw_reachable UNIV (count_lock (M - 1), ?m3)" using reach_run [OF 2] by simp
  have "RUnlock (count_lock (M - 1)) = (count_lock (M - 2), No_notice)" using RUnlock_count [of "M - 2"] M by simp
  moreover have "notify No_notice (?m3(1 := Idle)) ?m4" by simp
  ultimately have "rw_run 1 (count_lock (M - 1), ?m3) (count_lock (M - 2), ?m4)"
    by (rule run_RUnlock [rotated]) (simp add: first_read_def M)
  then have "rw_reachable UNIV (count_lock (M - 2), ?m4)" using reach_run [OF 3] by simp
  moreover have "?m4 = two_wait M (M - 2)" using M by (auto simp: two_wait_def first_read_def fun_eq_iff)
  ultimately show ?thesis by simp
qed

lemma two_wait_drain:
  assumes M: "M = 2 ^ 32 - 1"
  shows "k \<le> M - 2 \<Longrightarrow> rw_reachable UNIV (count_lock (M - 2 - k), two_wait M (M - 2 - k))"
proof (induction k)
  case 0
  show ?case using two_wait_start [OF M] by simp
next
  case (Suc k)
  define n where "n = M - 2 - Suc k"
  have n: "M - 2 - k = Suc n" "n < M - 2" using Suc.prems by (auto simp: n_def)
  have r: "rw_reachable UNIV (count_lock (Suc n), two_wait M (Suc n))" using Suc n by simp
  have "RUnlock (count_lock (Suc n)) = (count_lock n, No_notice)" using RUnlock_count [of n] n M by simp
  moreover have "notify No_notice ((two_wait M (Suc n))(n + 2 := Idle)) ((two_wait M (Suc n))(n + 2 := Idle))" by simp
  ultimately have "rw_run (n + 2) (count_lock (Suc n), two_wait M (Suc n)) (count_lock n, (two_wait M (Suc n))(n + 2 := Idle))"
    by (rule run_RUnlock [rotated]) (simp add: two_wait_def)
  moreover have "(two_wait M (Suc n))(n + 2 := Idle) = two_wait M n" using n by (auto simp: two_wait_def fun_eq_iff)
  ultimately show ?case using reach_run [OF r] unfolding n_def [symmetric] by auto
qed

text \<open>C37. A reader can wait for ever: when the count of readers has been at \<open>max_readers_\<close>, \<open>RUnlock\<close> notifies only one of the
  readers that wait, and only when the count leaves the maximum. There is a state that threads can reach in which the
  lock is free, no other thread is in it, and a reader waits that no step of a thread in the lock will wake up.\<close>

theorem rwmutex_lost_wakeup:
  "\<exists>m t. rw_reachable UNIV (new_rwmutex, m) \<and> m t = R_wait \<and> (\<forall>u. u = t \<or> m u = Idle) \<and> (\<forall>u s. \<not> rw_run u (new_rwmutex, m) s)"
proof -
  define M :: nat where "M = 2 ^ 32 - 1"
  let ?m = "(\<lambda>_. Idle)(M + 1 := R_wait)"
  have r0: "rw_reachable UNIV (count_lock 0, two_wait M 0)" using two_wait_drain [OF M_def, of "M - 2"] by simp
  have "RLock (count_lock 0) = (count_lock 1, Reading)" using RLock_count [of 0] by simp
  then have "rw_run M (count_lock 0, two_wait M 0) (count_lock 1, (two_wait M 0)(M := Reading))"
    by (intro run_RLock) (simp_all add: two_wait_def)
  then have r1: "rw_reachable UNIV (count_lock 1, (two_wait M 0)(M := Reading))" using reach_run [OF r0] by simp
  have "RUnlock (count_lock 1) = (count_lock 0, No_notice)" using RUnlock_count [of 0] by simp
  moreover have "notify No_notice ((two_wait M 0)(M := Reading, M := Idle)) ?m" by (auto simp: two_wait_def fun_eq_iff)
  ultimately have "rw_run M (count_lock 1, (two_wait M 0)(M := Reading)) (count_lock 0, ?m)"
    by (rule run_RUnlock [rotated]) simp
  moreover have "count_lock 0 = new_rwmutex" by (simp add: count_lock_def new_rwmutex_def)
  ultimately have "rw_reachable UNIV (new_rwmutex, ?m)" using reach_run [OF r1] by simp
  moreover have "\<not> rw_run u (new_rwmutex, ?m) s" for u s by (auto elim!: rw_run.cases split: if_splits)
  ultimately show ?thesis by (intro exI [of _ ?m] exI [of _ "M + 1"]) auto
qed

end
