(* ===== verification/Sql_Value.thy ===== *)
theory Sql_Value
  imports Cstr "HOL-Library.Signed_Division"
begin

section \<open>SQL values (15445 type/value.cpp, type/type.cpp)\<close>

text \<open>
  A \<open>Value\<close> has a type, a union that holds its contents and a length that is \<open>PELOTON_VALUE_NULL\<close> for a null value.
  Integers of every width are \<^typ>\<open>int\<close>; the constructors wrap them to the width of the type. Doubles are a
  type parameter with the operations of the machine in a record, so that the results that do not depend on
  floating-point arithmetic can be stated for all of them. The contents of a \<open>VARCHAR\<close> are the bytes behind its
  pointer, \<open>None\<close> when the pointer is null.
\<close>

datatype type_id = INVALID | BOOLEAN | TINYINT | SMALLINT | INTEGER | BIGINT | DECIMAL | VARCHAR | TIMESTAMP

datatype cmp_bool = CMP_FALSE | CMP_TRUE | CMP_NULL

text \<open>The exceptions of the type system, a failed assertion, and undefined behaviour.\<close>

datatype sql_error = Type_error | Out_of_range | Divide_by_zero | Decimal_error | Incompatible_type | Mismatch_type
  | Unknown_type | Not_coercable | Format_error | Not_implemented | Invalid_argument | Constraint_error | Failed_assert | Undef

type_synonym 'a sql = "sql_error + 'a"

definition bnd :: "'a sql \<Rightarrow> ('a \<Rightarrow> 'b sql) \<Rightarrow> 'b sql" where
  "bnd r f = (case r of Inl e \<Rightarrow> Inl e | Inr x \<Rightarrow> f x)"

definition require :: "bool \<Rightarrow> sql_error \<Rightarrow> 'a sql \<Rightarrow> 'a sql" where
  "require b e r = (if b then r else Inl e)"

lemma bnd_simps [simp]: "bnd (Inl e) f = Inl e" "bnd (Inr x) f = f x"
  by (simp_all add: bnd_def)

lemma require_simps [simp]: "require True e r = r" "require False e r = Inl e"
  by (simp_all add: require_def)

text \<open>The operations on \<open>double\<close>.\<close>

record 'd dbl_ops =
  dbl_of_int :: "int \<Rightarrow> 'd"
  dbl_trunc :: "'d \<Rightarrow> int"
  dbl_add :: "'d \<Rightarrow> 'd \<Rightarrow> 'd"
  dbl_sub :: "'d \<Rightarrow> 'd \<Rightarrow> 'd"
  dbl_mul :: "'d \<Rightarrow> 'd \<Rightarrow> 'd"
  dbl_div :: "'d \<Rightarrow> 'd \<Rightarrow> 'd"
  dbl_round0 :: "'d \<Rightarrow> 'd"
  dbl_sqrt :: "'d \<Rightarrow> 'd"
  dbl_eq :: "'d \<Rightarrow> 'd \<Rightarrow> bool"
  dbl_lt :: "'d \<Rightarrow> 'd \<Rightarrow> bool"
  dbl_le :: "'d \<Rightarrow> 'd \<Rightarrow> bool"
  dbl_lowest :: 'd
  dbl_max :: 'd
  flt_lowest :: 'd
  dbl_show :: "'d \<Rightarrow> string"
  dbl_parse :: "string \<Rightarrow> sql_error + 'd"
  dbl_bits :: "'d \<Rightarrow> u64"
  dbl_of_bits :: "u64 \<Rightarrow> 'd"

subsection \<open>Limits (include/type/limits.h)\<close>

fun int_width :: "type_id \<Rightarrow> nat" where
  "int_width BOOLEAN = 8" | "int_width TINYINT = 8" | "int_width SMALLINT = 16" | "int_width INTEGER = 32"
| "int_width BIGINT = 64" | "int_width _ = 0"

definition is_int :: "type_id \<Rightarrow> bool" where
  "is_int t \<longleftrightarrow> t \<in> {TINYINT, SMALLINT, INTEGER, BIGINT}"

definition PELOTON_INT_NULL :: "type_id \<Rightarrow> int" where "PELOTON_INT_NULL t = - (2 ^ (int_width t - 1))"
definition PELOTON_INT_MIN :: "type_id \<Rightarrow> int" where "PELOTON_INT_MIN t = - (2 ^ (int_width t - 1)) + 1"
definition PELOTON_INT_MAX :: "type_id \<Rightarrow> int" where "PELOTON_INT_MAX t = 2 ^ (int_width t - 1) - 1"
definition PELOTON_VALUE_NULL :: u32 where "PELOTON_VALUE_NULL = 0xFFFFFFFF"
definition PELOTON_TIMESTAMP_NULL :: int where "PELOTON_TIMESTAMP_NULL = 2 ^ 64 - 1"
definition PELOTON_TIMESTAMP_MAX :: int where "PELOTON_TIMESTAMP_MAX = 11231999986399999999"

text \<open>Conversion to a signed integer of \<open>w\<close> bits.\<close>

definition sbits :: "nat \<Rightarrow> int \<Rightarrow> int" where
  "sbits w i = signed_take_bit (w - 1) i"

subsection \<open>Values\<close>

datatype 'd val_data = Int_Val int | Dbl_Val 'd | Str_Val "string option" | Partly_Set

record 'd sql_value =
  vtype :: type_id
  vdata :: "'d val_data"
  vlen :: u32

abbreviation null_len :: "bool \<Rightarrow> u32" where
  "null_len b \<equiv> (if b then PELOTON_VALUE_NULL else 0)"

definition IsNull :: "'d sql_value \<Rightarrow> bool" where
  "IsNull v \<longleftrightarrow> vlen v = PELOTON_VALUE_NULL"

definition get_int :: "'d sql_value \<Rightarrow> int sql" where
  "get_int v = (case vdata v of Int_Val i \<Rightarrow> Inr i | _ \<Rightarrow> Inl Undef)"

definition get_dbl :: "'d sql_value \<Rightarrow> 'd sql" where
  "get_dbl v = (case vdata v of Dbl_Val d \<Rightarrow> Inr d | _ \<Rightarrow> Inl Undef)"

text \<open>The constructors from integers have the same cases; the argument has the width of their parameter.\<close>

definition int_value :: "type_id \<Rightarrow> int \<Rightarrow> 'd sql_value sql" where
  "int_value t i =
     (if is_int t \<or> t = BOOLEAN then
        let x = sbits (int_width t) i in
        Inr \<lparr>vtype = t, vdata = Int_Val x, vlen = null_len (x = PELOTON_INT_NULL t)\<rparr>
      else if t = TIMESTAMP then
        let x = take_bit 64 i in Inr \<lparr>vtype = t, vdata = Int_Val x, vlen = null_len (x = PELOTON_TIMESTAMP_NULL)\<rparr>
      else Inl Incompatible_type)"

definition Value_int8 :: "type_id \<Rightarrow> int \<Rightarrow> 'd sql_value sql" where "Value_int8 t i = int_value t (sbits 8 i)"
definition Value_int16 :: "type_id \<Rightarrow> int \<Rightarrow> 'd sql_value sql" where "Value_int16 t i = int_value t (sbits 16 i)"
definition Value_int32 :: "type_id \<Rightarrow> int \<Rightarrow> 'd sql_value sql" where "Value_int32 t i = int_value t (sbits 32 i)"
definition Value_int64 :: "type_id \<Rightarrow> int \<Rightarrow> 'd sql_value sql" where "Value_int64 t i = int_value t (sbits 64 i)"

text \<open>The constructor for an integer of the width of the type.\<close>

definition Value_of :: "type_id \<Rightarrow> int \<Rightarrow> 'd sql_value sql" where
  "Value_of t i =
     (case t of TINYINT \<Rightarrow> Value_int8 t i | SMALLINT \<Rightarrow> Value_int16 t i | INTEGER \<Rightarrow> Value_int32 t i
      | BIGINT \<Rightarrow> Value_int64 t i | BOOLEAN \<Rightarrow> Value_int8 t i | _ \<Rightarrow> Inl Incompatible_type)"

text \<open>From a \<open>uint64_t\<close>: for a \<open>BIGINT\<close> only the byte \<open>value_.boolean\<close> is set.\<close>

definition Value_uint64 :: "type_id \<Rightarrow> int \<Rightarrow> 'd sql_value sql" where
  "Value_uint64 t i =
     (case t of BIGINT \<Rightarrow> Inr \<lparr>vtype = t, vdata = Partly_Set, vlen = null_len (sbits 8 i = PELOTON_INT_NULL BOOLEAN)\<rparr>
      | TIMESTAMP \<Rightarrow> Inr \<lparr>vtype = t, vdata = Int_Val (take_bit 64 i), vlen = null_len (take_bit 64 i = PELOTON_TIMESTAMP_NULL)\<rparr>
      | _ \<Rightarrow> Inl Incompatible_type)"

definition Value_dbl :: "'d dbl_ops \<Rightarrow> type_id \<Rightarrow> 'd \<Rightarrow> 'd sql_value sql" where
  "Value_dbl F t d =
     (if t = DECIMAL then Inr \<lparr>vtype = t, vdata = Dbl_Val d, vlen = null_len (dbl_eq F d (dbl_lowest F))\<rparr>
      else Inl Incompatible_type)"

definition Value_varlen :: "type_id \<Rightarrow> string option \<Rightarrow> u32 \<Rightarrow> bool \<Rightarrow> 'd sql_value sql" where
  "Value_varlen t data len manage =
     (if t = VARCHAR then
        (case data of
           None \<Rightarrow> Inr \<lparr>vtype = t, vdata = Str_Val None, vlen = PELOTON_VALUE_NULL\<rparr>
         | Some s \<Rightarrow>
             if manage then require (len < PELOTON_VALUE_NULL) Failed_assert (require (unat len \<le> length s) Undef
               (Inr \<lparr>vtype = t, vdata = Str_Val (Some (take (unat len) s)), vlen = len\<rparr>))
             else Inr \<lparr>vtype = t, vdata = Str_Val (Some s), vlen = len\<rparr>)
      else Inl Incompatible_type)"

definition Value_string :: "type_id \<Rightarrow> string \<Rightarrow> 'd sql_value sql" where
  "Value_string t s =
     (if t = VARCHAR then Inr \<lparr>vtype = t, vdata = Str_Val (Some (s @ [CHR 0x00])), vlen = word_of_nat (length s + 1)\<rparr>
      else Inl Incompatible_type)"

definition CheckComparable :: "'d sql_value \<Rightarrow> 'd sql_value \<Rightarrow> bool" where
  "CheckComparable v w =
     (case vtype v of
        BOOLEAN \<Rightarrow> vtype w \<in> {BOOLEAN, VARCHAR}
      | VARCHAR \<Rightarrow> True
      | _ \<Rightarrow> (is_int (vtype v) \<or> vtype v = DECIMAL) \<and> (is_int (vtype w) \<or> vtype w = DECIMAL \<or> vtype w = VARCHAR))"

definition CheckInteger :: "'d sql_value \<Rightarrow> bool" where
  "CheckInteger v \<longleftrightarrow> is_int (vtype v)"

definition GetCmpBool :: "bool \<Rightarrow> cmp_bool" where
  "GetCmpBool b = (if b then CMP_TRUE else CMP_FALSE)"

subsection \<open>Facts about types (type.cpp)\<close>

definition GetTypeSize :: "type_id \<Rightarrow> int sql" where
  "GetTypeSize t =
     (case t of BOOLEAN \<Rightarrow> Inr 1 | TINYINT \<Rightarrow> Inr 1 | SMALLINT \<Rightarrow> Inr 2 | INTEGER \<Rightarrow> Inr 4 | BIGINT \<Rightarrow> Inr 8
      | DECIMAL \<Rightarrow> Inr 8 | TIMESTAMP \<Rightarrow> Inr 8 | VARCHAR \<Rightarrow> Inr 0 | INVALID \<Rightarrow> Inl Unknown_type)"

definition IsCoercableFrom :: "type_id \<Rightarrow> type_id \<Rightarrow> bool" where
  "IsCoercableFrom self t =
     (case self of
        INVALID \<Rightarrow> False
      | BOOLEAN \<Rightarrow> True
      | TIMESTAMP \<Rightarrow> t = VARCHAR \<or> t = TIMESTAMP
      | VARCHAR \<Rightarrow> t \<noteq> INVALID
      | _ \<Rightarrow> is_int t \<or> t = DECIMAL \<or> t = VARCHAR)"

definition TypeIdToString :: "type_id \<Rightarrow> string" where
  "TypeIdToString t =
     (case t of INVALID \<Rightarrow> ''INVALID'' | BOOLEAN \<Rightarrow> ''BOOLEAN'' | TINYINT \<Rightarrow> ''TINYINT'' | SMALLINT \<Rightarrow> ''SMALLINT''
      | INTEGER \<Rightarrow> ''INTEGER'' | BIGINT \<Rightarrow> ''BIGINT'' | DECIMAL \<Rightarrow> ''DECIMAL'' | TIMESTAMP \<Rightarrow> ''TIMESTAMP'' | VARCHAR \<Rightarrow> ''VARCHAR'')"

definition GetMinValue :: "'d dbl_ops \<Rightarrow> type_id \<Rightarrow> 'd sql_value sql" where
  "GetMinValue F t =
     (case t of
        BOOLEAN \<Rightarrow> Value_int32 t 0
      | DECIMAL \<Rightarrow> Value_dbl F t (flt_lowest F)
      | TIMESTAMP \<Rightarrow> Value_int32 t 0
      | VARCHAR \<Rightarrow> Value_string t ''''
      | INVALID \<Rightarrow> Inl Mismatch_type
      | _ \<Rightarrow> Value_of t (PELOTON_INT_MIN t))"

definition GetMaxValue :: "'d dbl_ops \<Rightarrow> type_id \<Rightarrow> 'd sql_value sql" where
  "GetMaxValue F t =
     (case t of
        BOOLEAN \<Rightarrow> Value_int32 t 1
      | DECIMAL \<Rightarrow> Value_dbl F t (dbl_max F)
      | TIMESTAMP \<Rightarrow> Value_uint64 t PELOTON_TIMESTAMP_MAX
      | VARCHAR \<Rightarrow> Value_varlen t None 0 False
      | INVALID \<Rightarrow> Inl Mismatch_type
      | _ \<Rightarrow> Value_of t (PELOTON_INT_MAX t))"

end
