(* ===== verification/Sql_Types.thy ===== *)
theory Sql_Types
  imports Sql_Value
begin

section \<open>The type classes (15445 type/*_type.cpp)\<close>

text \<open>
  The virtual methods of the classes below \<open>Type\<close>, in three tables per class: conversions, comparisons, arithmetic.
  The later groups call the earlier ones through the type of a value, as \<open>Type::GetInstance\<close> does. The four integer
  classes share their text up to the name of the type, so their methods are instances of one definition.
  \<open>kTypes\<close> has no entry for \<open>TIMESTAMP\<close>: a method call on such a value goes through a null pointer.
\<close>

subsection \<open>Conversions\<close>

record 'd conv =
  c_str :: "'d sql_value \<Rightarrow> string sql"
  c_ser :: "'d sql_value \<Rightarrow> u8 list sql"
  c_de :: "bytes \<Rightarrow> addr \<Rightarrow> 'd sql_value sql"
  c_copy :: "'d sql_value \<Rightarrow> 'd sql_value sql"
  c_cast :: "'d sql_value \<Rightarrow> type_id \<Rightarrow> 'd sql_value sql"
  c_len :: "'d sql_value \<Rightarrow> u32 sql"

definition null_name :: "type_id \<Rightarrow> string" where
  "null_name t = (case t of TINYINT \<Rightarrow> ''tinyint_null'' | SMALLINT \<Rightarrow> ''smallint_null'' | INTEGER \<Rightarrow> ''integer_null''
     | BIGINT \<Rightarrow> ''bigint_null'' | _ \<Rightarrow> '''')"

definition int_ToString :: "'d sql_value \<Rightarrow> string sql" where
  "int_ToString v = require (CheckInteger v) Failed_assert
     (if IsNull v then Inr (null_name (vtype v)) else bnd (get_int v) (\<lambda>i. Inr (show_int i)))"

definition int_SerializeTo :: "type_id \<Rightarrow> 'd sql_value \<Rightarrow> u8 list sql" where
  "int_SerializeTo t v = bnd (get_int v) (\<lambda>i. Inr (le_encode (int_width t div 8) (nat (take_bit (int_width t) i))))"

definition int_DeserializeFrom :: "type_id \<Rightarrow> bytes \<Rightarrow> addr \<Rightarrow> 'd sql_value sql" where
  "int_DeserializeFrom t m a = Value_of t (sbits (int_width t) (int (le_decode (read_mem m a (int_width t div 8)))))"

definition int_Copy :: "type_id \<Rightarrow> 'd sql_value \<Rightarrow> 'd sql_value sql" where
  "int_Copy t v = require (CheckInteger v) Failed_assert (bnd (get_int v) (Value_of t))"

definition null_varchar :: "'d sql_value sql" where
  "null_varchar = Value_varlen VARCHAR None 0 False"

text \<open>A value of a wider type is checked against the limits of the narrower one.\<close>

definition int_CastAs :: "'d dbl_ops \<Rightarrow> type_id \<Rightarrow> 'd sql_value \<Rightarrow> type_id \<Rightarrow> 'd sql_value sql" where
  "int_CastAs F t v to =
     (if is_int to then
        (if IsNull v then Value_of to (PELOTON_INT_NULL to)
         else bnd (get_int v) (\<lambda>i.
           if int_width to < int_width t \<and> (i > PELOTON_INT_MAX to \<or> i < PELOTON_INT_MIN to) then Inl Out_of_range
           else Value_of to i))
      else if to = DECIMAL then
        (if IsNull v then Value_dbl F to (dbl_lowest F) else bnd (get_int v) (\<lambda>i. Value_dbl F to (dbl_of_int F i)))
      else if to = VARCHAR then
        (if IsNull v then null_varchar else bnd (int_ToString v) (Value_string VARCHAR))
      else Inl Not_coercable)"

text \<open>The methods that only \<open>VarlenType\<close> implements.\<close>

definition no_length :: "'d sql_value \<Rightarrow> u32 sql" where
  "no_length v = Inl Not_implemented"

definition TinyintType_conv :: "'d dbl_ops \<Rightarrow> 'd conv" where
  "TinyintType_conv F = \<lparr>c_str = int_ToString, c_ser = int_SerializeTo TINYINT, c_de = int_DeserializeFrom TINYINT,
     c_copy = int_Copy TINYINT, c_cast = int_CastAs F TINYINT, c_len = no_length\<rparr>"

definition SmallintType_conv :: "'d dbl_ops \<Rightarrow> 'd conv" where
  "SmallintType_conv F = \<lparr>c_str = int_ToString, c_ser = int_SerializeTo SMALLINT, c_de = int_DeserializeFrom SMALLINT,
     c_copy = int_Copy SMALLINT, c_cast = int_CastAs F SMALLINT, c_len = no_length\<rparr>"

definition IntegerType_conv :: "'d dbl_ops \<Rightarrow> 'd conv" where
  "IntegerType_conv F = \<lparr>c_str = int_ToString, c_ser = int_SerializeTo INTEGER, c_de = int_DeserializeFrom INTEGER,
     c_copy = int_Copy INTEGER, c_cast = int_CastAs F INTEGER, c_len = no_length\<rparr>"

definition BigintType_conv :: "'d dbl_ops \<Rightarrow> 'd conv" where
  "BigintType_conv F = \<lparr>c_str = int_ToString, c_ser = int_SerializeTo BIGINT, c_de = int_DeserializeFrom BIGINT,
     c_copy = int_Copy BIGINT, c_cast = int_CastAs F BIGINT, c_len = no_length\<rparr>"

definition BooleanType_ToString :: "'d sql_value \<Rightarrow> string sql" where
  "BooleanType_ToString v = bnd (get_int v) (\<lambda>i. Inr (if i = 1 then ''true'' else if i = 0 then ''false'' else ''boolean_null''))"

definition BooleanType_Copy :: "'d sql_value \<Rightarrow> 'd sql_value sql" where
  "BooleanType_Copy v = bnd (get_int v) (Value_int8 BOOLEAN)"

definition BooleanType_conv :: "'d conv" where
  "BooleanType_conv = \<lparr>c_str = BooleanType_ToString, c_ser = int_SerializeTo BOOLEAN, c_de = int_DeserializeFrom BOOLEAN,
     c_copy = BooleanType_Copy,
     c_cast = (\<lambda>v to. if to = BOOLEAN then BooleanType_Copy v
       else if to = VARCHAR then (if IsNull v then null_varchar else bnd (BooleanType_ToString v) (Value_string VARCHAR))
       else Inl Not_coercable), c_len = no_length\<rparr>"

definition DecimalType_ToString :: "'d dbl_ops \<Rightarrow> 'd sql_value \<Rightarrow> string sql" where
  "DecimalType_ToString F v = (if IsNull v then Inr ''decimal_null'' else bnd (get_dbl v) (\<lambda>d. Inr (dbl_show F d)))"

definition DecimalType_CastAs :: "'d dbl_ops \<Rightarrow> 'd sql_value \<Rightarrow> type_id \<Rightarrow> 'd sql_value sql" where
  "DecimalType_CastAs F v to =
     (if is_int to then
        (if IsNull v then Value_of to (PELOTON_INT_NULL to)
         else bnd (get_dbl v) (\<lambda>d.
           if dbl_lt F (dbl_of_int F (PELOTON_INT_MAX to)) d \<or> dbl_lt F d (dbl_of_int F (PELOTON_INT_MIN to)) then Inl Out_of_range
           else if sbits (int_width to) (dbl_trunc F d) \<noteq> dbl_trunc F d then Inl Undef
           else Value_of to (dbl_trunc F d)))
      else if to = DECIMAL then bnd (get_dbl v) (Value_dbl F DECIMAL)
      else if to = VARCHAR then
        (if IsNull v then null_varchar else bnd (DecimalType_ToString F v) (Value_string VARCHAR))
      else Inl Not_coercable)"

definition DecimalType_conv :: "'d dbl_ops \<Rightarrow> 'd conv" where
  "DecimalType_conv F = \<lparr>c_str = DecimalType_ToString F,
     c_ser = (\<lambda>v. bnd (get_dbl v) (\<lambda>d. Inr (le_encode 8 (unat (dbl_bits F d))))),
     c_de = (\<lambda>m a. Value_dbl F DECIMAL (dbl_of_bits F (load64 m a))),
     c_copy = (\<lambda>v. bnd (get_dbl v) (Value_dbl F DECIMAL)), c_cast = DecimalType_CastAs F, c_len = no_length\<rparr>"

definition get_chars :: "'d sql_value \<Rightarrow> string sql" where
  "get_chars v = (case vdata v of Str_Val (Some s) \<Rightarrow> Inr s | _ \<Rightarrow> Inl Undef)"

definition char_byte :: "char \<Rightarrow> u8" where "char_byte c = word_of_nat (of_char c)"
definition byte_char :: "u8 \<Rightarrow> char" where "byte_char w = char_of (unat w)"

definition VarlenType_ToString :: "'d sql_value \<Rightarrow> string sql" where
  "VarlenType_ToString v =
     (if IsNull v then Inr ''varlen_null'' else if vlen v = 0 then Inr ''''
      else bnd (get_chars v) (\<lambda>s. require (unat (vlen v) \<le> length s + 1) Undef (Inr (take (unat (vlen v) - 1) s))))"

definition VarlenType_SerializeTo :: "'d sql_value \<Rightarrow> u8 list sql" where
  "VarlenType_SerializeTo v =
     (if vlen v = PELOTON_VALUE_NULL then Inr (le_encode 4 (unat (vlen v)))
      else bnd (get_chars v) (\<lambda>s. require (unat (vlen v) \<le> length s) Undef
        (Inr (le_encode 4 (unat (vlen v)) @ map char_byte (take (unat (vlen v)) s)))))"

definition VarlenType_DeserializeFrom :: "bytes \<Rightarrow> addr \<Rightarrow> 'd sql_value sql" where
  "VarlenType_DeserializeFrom m a =
     (let len = load32 m a in
      if len = PELOTON_VALUE_NULL then Value_varlen VARCHAR None len False
      else Value_varlen VARCHAR (Some (map byte_char (read_mem m (a + 4) (unat len)))) len True)"

text \<open>\<open>std::stoi\<close> and \<open>std::stoll\<close>: an exception when there is no number or when it does not fit the result type.\<close>

definition std_sto :: "nat \<Rightarrow> string \<Rightarrow> int sql" where
  "std_sto w s = (case scan_int s of None \<Rightarrow> Inl Invalid_argument
     | Some (n, _) \<Rightarrow> if sbits w n = n then Inr n else Inl Out_of_range)"

definition lower_char :: "char \<Rightarrow> char" where
  "lower_char c = (if 65 \<le> (of_char c :: nat) \<and> (of_char c :: nat) \<le> 90 then char_of ((of_char c :: nat) + 32) else c)"

definition VarlenType_CastAs :: "'d dbl_ops \<Rightarrow> 'd sql_value \<Rightarrow> type_id \<Rightarrow> 'd sql_value sql" where
  "VarlenType_CastAs F v to =
     (case to of
        BOOLEAN \<Rightarrow> bnd (VarlenType_ToString v) (\<lambda>s. let str = map lower_char s in
          if str \<in> {''true'', ''1'', ''t''} then Value_int32 to 1
          else if str \<in> {''false'', ''0'', ''f''} then Value_int32 to 0 else Inl Format_error)
      | DECIMAL \<Rightarrow> bnd (VarlenType_ToString v) (\<lambda>s. bnd (dbl_parse F s) (\<lambda>d.
          if dbl_lt F (dbl_max F) d \<or> dbl_lt F d (flt_lowest F) then Inl Out_of_range else Value_dbl F to d))
      | VARCHAR \<Rightarrow> Inr v
      | INVALID \<Rightarrow> Inl Not_coercable
      | TIMESTAMP \<Rightarrow> Inl Not_coercable
      | _ \<Rightarrow> bnd (VarlenType_ToString v) (\<lambda>s. bnd (std_sto (if to = BIGINT then 64 else 32) s) (\<lambda>n.
          let i = sbits (int_width to) n in if i < PELOTON_INT_MIN to then Inl Out_of_range else Value_of to i)))"

definition VarlenType_conv :: "'d dbl_ops \<Rightarrow> 'd conv" where
  "VarlenType_conv F = \<lparr>c_str = VarlenType_ToString, c_ser = VarlenType_SerializeTo, c_de = VarlenType_DeserializeFrom,
     c_copy = Inr, c_cast = VarlenType_CastAs F, c_len = (\<lambda>v. Inr (vlen v))\<rparr>"

text \<open>\<open>kTypes\<close>: the base class for \<open>INVALID\<close>, and nothing for \<open>TIMESTAMP\<close>.\<close>

definition stub_conv :: "sql_error \<Rightarrow> 'd conv" where
  "stub_conv e = \<lparr>c_str = (\<lambda>_. Inl e), c_ser = (\<lambda>_. Inl e), c_de = (\<lambda>_ _. Inl e), c_copy = (\<lambda>_. Inl e), c_cast = (\<lambda>_ _. Inl e),
     c_len = (\<lambda>_. Inl e)\<rparr>"

definition kTypes_conv :: "'d dbl_ops \<Rightarrow> type_id \<Rightarrow> 'd conv" where
  "kTypes_conv F t =
     (case t of INVALID \<Rightarrow> stub_conv Not_implemented | BOOLEAN \<Rightarrow> BooleanType_conv | TINYINT \<Rightarrow> TinyintType_conv F
      | SMALLINT \<Rightarrow> SmallintType_conv F | INTEGER \<Rightarrow> IntegerType_conv F | BIGINT \<Rightarrow> BigintType_conv F
      | DECIMAL \<Rightarrow> DecimalType_conv F | VARCHAR \<Rightarrow> VarlenType_conv F | TIMESTAMP \<Rightarrow> stub_conv Undef)"

definition CastAs :: "'d dbl_ops \<Rightarrow> 'd sql_value \<Rightarrow> type_id \<Rightarrow> 'd sql_value sql" where
  "CastAs F v to = c_cast (kTypes_conv F (vtype v)) v to"

definition Copy :: "'d dbl_ops \<Rightarrow> 'd sql_value \<Rightarrow> 'd sql_value sql" where
  "Copy F v = c_copy (kTypes_conv F (vtype v)) v"

definition ToString :: "'d dbl_ops \<Rightarrow> 'd sql_value \<Rightarrow> string sql" where
  "ToString F v = c_str (kTypes_conv F (vtype v)) v"

definition SerializeTo :: "'d dbl_ops \<Rightarrow> 'd sql_value \<Rightarrow> u8 list sql" where
  "SerializeTo F v = c_ser (kTypes_conv F (vtype v)) v"

definition DeserializeFrom :: "'d dbl_ops \<Rightarrow> bytes \<Rightarrow> addr \<Rightarrow> type_id \<Rightarrow> 'd sql_value sql" where
  "DeserializeFrom F m a t = c_de (kTypes_conv F t) m a"

definition GetLength :: "'d dbl_ops \<Rightarrow> 'd sql_value \<Rightarrow> u32 sql" where
  "GetLength F v = c_len (kTypes_conv F (vtype v)) v"

subsection \<open>Comparisons\<close>

datatype cmp_op = OP_EQ | OP_NE | OP_LT | OP_LE | OP_GT | OP_GE

fun cmp_int :: "cmp_op \<Rightarrow> int \<Rightarrow> int \<Rightarrow> bool" where
  "cmp_int OP_EQ x y \<longleftrightarrow> x = y" | "cmp_int OP_NE x y \<longleftrightarrow> x \<noteq> y" | "cmp_int OP_LT x y \<longleftrightarrow> x < y"
| "cmp_int OP_LE x y \<longleftrightarrow> x \<le> y" | "cmp_int OP_GT x y \<longleftrightarrow> x > y" | "cmp_int OP_GE x y \<longleftrightarrow> x \<ge> y"

fun cmp_dbl :: "'d dbl_ops \<Rightarrow> cmp_op \<Rightarrow> 'd \<Rightarrow> 'd \<Rightarrow> bool" where
  "cmp_dbl F OP_EQ x y \<longleftrightarrow> dbl_eq F x y" | "cmp_dbl F OP_NE x y \<longleftrightarrow> \<not> dbl_eq F x y" | "cmp_dbl F OP_LT x y \<longleftrightarrow> dbl_lt F x y"
| "cmp_dbl F OP_LE x y \<longleftrightarrow> dbl_le F x y" | "cmp_dbl F OP_GT x y \<longleftrightarrow> dbl_lt F y x" | "cmp_dbl F OP_GE x y \<longleftrightarrow> dbl_le F y x"

text \<open>\<open>INT_COMPARE_FUNC\<close>: integers are compared exactly after the usual conversions, with a decimal as doubles.\<close>

definition int_compare :: "'d dbl_ops \<Rightarrow> type_id \<Rightarrow> cmp_op \<Rightarrow> 'd sql_value \<Rightarrow> 'd sql_value \<Rightarrow> cmp_bool sql" where
  "int_compare F t opr left right =
     require (CheckInteger left) Failed_assert (require (CheckComparable left right) Failed_assert (
       if IsNull left \<or> IsNull right then Inr CMP_NULL
       else bnd (get_int left) (\<lambda>x.
         if is_int (vtype right) then bnd (get_int right) (\<lambda>y. Inr (GetCmpBool (cmp_int opr x y)))
         else if vtype right = DECIMAL then bnd (get_dbl right) (\<lambda>y. Inr (GetCmpBool (cmp_dbl F opr (dbl_of_int F x) y)))
         else if vtype right = VARCHAR then
           bnd (CastAs F right t) (\<lambda>r. bnd (get_int r) (\<lambda>y. Inr (GetCmpBool (cmp_int opr x y))))
         else Inl Type_error)))"

definition decimal_compare :: "'d dbl_ops \<Rightarrow> cmp_op \<Rightarrow> 'd sql_value \<Rightarrow> 'd sql_value \<Rightarrow> cmp_bool sql" where
  "decimal_compare F opr left right =
     require (CheckComparable left right) Failed_assert (
       if IsNull left \<or> IsNull right then Inr CMP_NULL
       else bnd (get_dbl left) (\<lambda>x.
         if is_int (vtype right) then bnd (get_int right) (\<lambda>y. Inr (GetCmpBool (cmp_dbl F opr x (dbl_of_int F y))))
         else if vtype right = DECIMAL then bnd (get_dbl right) (\<lambda>y. Inr (GetCmpBool (cmp_dbl F opr x y)))
         else if vtype right = VARCHAR then
           bnd (CastAs F right DECIMAL) (\<lambda>r. bnd (get_dbl r) (\<lambda>y. Inr (GetCmpBool (cmp_dbl F opr x y))))
         else Inl Type_error))"

definition boolean_compare :: "'d dbl_ops \<Rightarrow> cmp_op \<Rightarrow> 'd sql_value \<Rightarrow> 'd sql_value \<Rightarrow> cmp_bool sql" where
  "boolean_compare F opr left right =
     require (CheckComparable left right) Failed_assert (
       if IsNull left \<or> IsNull right then Inr CMP_NULL
       else bnd (get_int left) (\<lambda>x. bnd (CastAs F right BOOLEAN) (\<lambda>r. bnd (get_int r) (\<lambda>y. Inr (GetCmpBool (cmp_int opr x y))))))"

text \<open>\<open>CompareStrings\<close>: \<open>memcmp\<close> on the common length, then the lengths.\<close>

fun memcmp :: "string \<Rightarrow> string \<Rightarrow> int" where
  "memcmp (a # as) (b # bs) = (if a = b then memcmp as bs else if (of_char a :: nat) < of_char b then -1 else 1)"
| "memcmp _ _ = 0"

definition CompareStrings :: "string \<Rightarrow> int \<Rightarrow> string \<Rightarrow> int \<Rightarrow> int sql" where
  "CompareStrings s1 len1 s2 len2 =
     require (0 \<le> len1 \<and> 0 \<le> len2) Failed_assert (
       let n = nat (min len1 len2) in
       require (n \<le> length s1 \<and> n \<le> length s2) Undef (
         let ret = memcmp (take n s1) (take n s2) in Inr (if ret = 0 \<and> len1 \<noteq> len2 then len1 - len2 else ret)))"

definition str_len :: "'d sql_value \<Rightarrow> int" where
  "str_len v = sint (vlen v - 1)"

text \<open>The comparison of the lengths with \<open>PELOTON_VARCHAR_MAX_LEN\<close> has the value that marks null, and never succeeds.\<close>

definition varlen_compare :: "'d dbl_ops \<Rightarrow> cmp_op \<Rightarrow> 'd sql_value \<Rightarrow> 'd sql_value \<Rightarrow> cmp_bool sql" where
  "varlen_compare F opr left right =
     require (CheckComparable left right) Failed_assert (
       if IsNull left \<or> IsNull right then Inr CMP_NULL
       else bnd (if vtype right = VARCHAR then Inr right else CastAs F right VARCHAR) (\<lambda>r.
         bnd (get_chars left) (\<lambda>s1. bnd (get_chars r) (\<lambda>s2.
           bnd (CompareStrings s1 (str_len left) s2 (str_len r)) (\<lambda>c. Inr (GetCmpBool (cmp_int opr c 0)))))))"

record 'd cmps =
  m_eq :: "'d sql_value \<Rightarrow> 'd sql_value \<Rightarrow> cmp_bool sql"
  m_ne :: "'d sql_value \<Rightarrow> 'd sql_value \<Rightarrow> cmp_bool sql"
  m_lt :: "'d sql_value \<Rightarrow> 'd sql_value \<Rightarrow> cmp_bool sql"
  m_le :: "'d sql_value \<Rightarrow> 'd sql_value \<Rightarrow> cmp_bool sql"
  m_gt :: "'d sql_value \<Rightarrow> 'd sql_value \<Rightarrow> cmp_bool sql"
  m_ge :: "'d sql_value \<Rightarrow> 'd sql_value \<Rightarrow> cmp_bool sql"

definition cmps_of :: "(cmp_op \<Rightarrow> 'd sql_value \<Rightarrow> 'd sql_value \<Rightarrow> cmp_bool sql) \<Rightarrow> 'd cmps" where
  "cmps_of f = \<lparr>m_eq = f OP_EQ, m_ne = f OP_NE, m_lt = f OP_LT, m_le = f OP_LE, m_gt = f OP_GT, m_ge = f OP_GE\<rparr>"

definition TinyintType_cmps :: "'d dbl_ops \<Rightarrow> 'd cmps" where "TinyintType_cmps F = cmps_of (int_compare F TINYINT)"
definition SmallintType_cmps :: "'d dbl_ops \<Rightarrow> 'd cmps" where "SmallintType_cmps F = cmps_of (int_compare F SMALLINT)"
definition IntegerType_cmps :: "'d dbl_ops \<Rightarrow> 'd cmps" where "IntegerType_cmps F = cmps_of (int_compare F INTEGER)"
definition BigintType_cmps :: "'d dbl_ops \<Rightarrow> 'd cmps" where "BigintType_cmps F = cmps_of (int_compare F BIGINT)"
definition DecimalType_cmps :: "'d dbl_ops \<Rightarrow> 'd cmps" where "DecimalType_cmps F = cmps_of (decimal_compare F)"
definition BooleanType_cmps :: "'d dbl_ops \<Rightarrow> 'd cmps" where "BooleanType_cmps F = cmps_of (boolean_compare F)"
definition VarlenType_cmps :: "'d dbl_ops \<Rightarrow> 'd cmps" where "VarlenType_cmps F = cmps_of (varlen_compare F)"

definition Type_cmps :: "sql_error \<Rightarrow> 'd cmps" where
  "Type_cmps e = cmps_of (\<lambda>_ _ _. Inl e)"

definition kTypes_cmps :: "'d dbl_ops \<Rightarrow> type_id \<Rightarrow> 'd cmps" where
  "kTypes_cmps F t =
     (case t of INVALID \<Rightarrow> Type_cmps Not_implemented | BOOLEAN \<Rightarrow> BooleanType_cmps F | TINYINT \<Rightarrow> TinyintType_cmps F
      | SMALLINT \<Rightarrow> SmallintType_cmps F | INTEGER \<Rightarrow> IntegerType_cmps F | BIGINT \<Rightarrow> BigintType_cmps F
      | DECIMAL \<Rightarrow> DecimalType_cmps F | VARCHAR \<Rightarrow> VarlenType_cmps F | TIMESTAMP \<Rightarrow> Type_cmps Undef)"

definition CompareEquals where "CompareEquals F v w = m_eq (kTypes_cmps F (vtype v)) v w"
definition CompareNotEquals where "CompareNotEquals F v w = m_ne (kTypes_cmps F (vtype v)) v w"
definition CompareLessThan where "CompareLessThan F v w = m_lt (kTypes_cmps F (vtype v)) v w"
definition CompareLessThanEquals where "CompareLessThanEquals F v w = m_le (kTypes_cmps F (vtype v)) v w"
definition CompareGreaterThan where "CompareGreaterThan F v w = m_gt (kTypes_cmps F (vtype v)) v w"
definition CompareGreaterThanEquals where "CompareGreaterThanEquals F v w = m_ge (kTypes_cmps F (vtype v)) v w"

end
