(* ===== verification/Sql_Arith.thy ===== *)
theory Sql_Arith
  imports Sql_Types
begin

section \<open>Arithmetic on SQL values\<close>

text \<open>
  The templates of \<open>IntegerParentType\<close> for two integer types. Operands are promoted to \<open>int\<close> or \<open>int64_t\<close>, and a
  result that does not fit there is undefined behaviour; the checks of the templates come afterwards.
\<close>

definition promoted :: "type_id \<Rightarrow> type_id \<Rightarrow> nat" where
  "promoted t1 t2 = max 32 (max (int_width t1) (int_width t2))"

definition c_arith :: "type_id \<Rightarrow> type_id \<Rightarrow> int \<Rightarrow> int sql" where
  "c_arith t1 t2 v = (if sbits (promoted t1 t2) v = v then Inr v else Inl Undef)"

text \<open>The constructor for an argument of the C type of \<open>t\<close>.\<close>

definition Value_as :: "type_id \<Rightarrow> type_id \<Rightarrow> int \<Rightarrow> 'd sql_value sql" where
  "Value_as t ty i = int_value ty (sbits (int_width t) i)"

definition AddValue :: "type_id \<Rightarrow> type_id \<Rightarrow> 'd sql_value \<Rightarrow> 'd sql_value \<Rightarrow> 'd sql_value sql" where
  "AddValue t1 t2 left right =
     bnd (get_int left) (\<lambda>x. bnd (get_int right) (\<lambda>y. bnd (c_arith t1 t2 (x + y)) (\<lambda>s.
       let sum1 = sbits (int_width t1) s; sum2 = sbits (int_width t2) s in
       if s \<noteq> sum1 \<and> s \<noteq> sum2 then Inl Out_of_range
       else if int_width t1 \<ge> int_width t2 then
         (if x > 0 \<and> y > 0 \<and> sum1 < 0 \<or> x < 0 \<and> y < 0 \<and> sum1 > 0 then Inl Out_of_range else Value_as t1 (vtype left) sum1)
       else
         (if x > 0 \<and> y > 0 \<and> sum2 < 0 \<or> x < 0 \<and> y < 0 \<and> sum2 > 0 then Inl Out_of_range else Value_as t2 (vtype right) sum2))))"

definition SubtractValue :: "type_id \<Rightarrow> type_id \<Rightarrow> 'd sql_value \<Rightarrow> 'd sql_value \<Rightarrow> 'd sql_value sql" where
  "SubtractValue t1 t2 left right =
     bnd (get_int left) (\<lambda>x. bnd (get_int right) (\<lambda>y. bnd (c_arith t1 t2 (x - y)) (\<lambda>s.
       let diff1 = sbits (int_width t1) s; diff2 = sbits (int_width t2) s in
       if s \<noteq> diff1 \<and> s \<noteq> diff2 then Inl Out_of_range
       else if int_width t1 \<ge> int_width t2 then
         (if x > 0 \<and> y < 0 \<and> diff1 < 0 \<or> x < 0 \<and> y > 0 \<and> diff1 > 0 then Inl Out_of_range else Value_as t1 (vtype left) diff1)
       else
         (if x > 0 \<and> y < 0 \<and> diff2 < 0 \<or> x < 0 \<and> y > 0 \<and> diff2 > 0 then Inl Out_of_range else Value_as t2 (vtype right) diff2))))"

definition MultiplyValue :: "type_id \<Rightarrow> type_id \<Rightarrow> 'd sql_value \<Rightarrow> 'd sql_value \<Rightarrow> 'd sql_value sql" where
  "MultiplyValue t1 t2 left right =
     bnd (get_int left) (\<lambda>x. bnd (get_int right) (\<lambda>y. bnd (c_arith t1 t2 (x * y)) (\<lambda>s.
       let prod1 = sbits (int_width t1) s; prod2 = sbits (int_width t2) s in
       if s \<noteq> prod1 \<and> s \<noteq> prod2 then Inl Out_of_range
       else if int_width t1 \<ge> int_width t2 then
         bnd (if y \<noteq> 0 then c_arith t1 t2 (prod1 sdiv y) else Inr x) (\<lambda>q.
           if q \<noteq> x then Inl Out_of_range else Value_as t1 (vtype left) prod1)
       else
         bnd (if y \<noteq> 0 then c_arith t1 t2 (prod2 sdiv y) else Inr x) (\<lambda>q.
           if q \<noteq> x then Inl Out_of_range else Value_as t2 (vtype right) prod2))))"

definition DivideValue :: "type_id \<Rightarrow> type_id \<Rightarrow> 'd sql_value \<Rightarrow> 'd sql_value \<Rightarrow> 'd sql_value sql" where
  "DivideValue t1 t2 left right =
     bnd (get_int left) (\<lambda>x. bnd (get_int right) (\<lambda>y.
       if y = 0 then Inl Divide_by_zero
       else bnd (c_arith t1 t2 (x sdiv y)) (\<lambda>s.
         if int_width t1 \<ge> int_width t2 then Value_as t1 (vtype left) (sbits (int_width t1) s)
         else Value_as t2 (vtype right) (sbits (int_width t2) s))))"

definition ModuloValue :: "type_id \<Rightarrow> type_id \<Rightarrow> 'd sql_value \<Rightarrow> 'd sql_value \<Rightarrow> 'd sql_value sql" where
  "ModuloValue t1 t2 left right =
     bnd (get_int left) (\<lambda>x. bnd (get_int right) (\<lambda>y.
       if y = 0 then Inl Divide_by_zero
       else bnd (c_arith t1 t2 (x sdiv y)) (\<lambda>_.
         if int_width t1 \<ge> int_width t2 then Value_as t1 (vtype left) (sbits (int_width t1) (x smod y))
         else Value_as t2 (vtype right) (sbits (int_width t2) (x smod y)))))"

definition ValMod :: "'d dbl_ops \<Rightarrow> 'd \<Rightarrow> 'd \<Rightarrow> 'd" where
  "ValMod F x y = dbl_sub F x (dbl_mul F (dbl_round0 F (dbl_div F x y)) y)"

subsection \<open>Zero and null\<close>

text \<open>\<open>IsZero\<close> is implemented for numbers only.\<close>

definition IsZero :: "'d dbl_ops \<Rightarrow> 'd sql_value \<Rightarrow> bool sql" where
  "IsZero F v =
     (if is_int (vtype v) then bnd (get_int v) (\<lambda>i. Inr (i = 0))
      else if vtype v = DECIMAL then bnd (get_dbl v) (\<lambda>d. Inr (dbl_eq F d (dbl_of_int F 0)))
      else if vtype v = TIMESTAMP then Inl Undef else Inl Not_implemented)"

text \<open>The null value of the wider of two integer types, or a null decimal.\<close>

definition int_OperateNull :: "'d dbl_ops \<Rightarrow> type_id \<Rightarrow> 'd sql_value \<Rightarrow> 'd sql_value \<Rightarrow> 'd sql_value sql" where
  "int_OperateNull F t left right =
     (if is_int (vtype right) then
        (let w = if int_width (vtype right) \<le> int_width t then t else vtype right in Value_of w (PELOTON_INT_NULL w))
      else if vtype right = DECIMAL then Value_dbl F DECIMAL (dbl_lowest F)
      else Inl Type_error)"

definition decimal_null :: "'d dbl_ops \<Rightarrow> 'd sql_value sql" where
  "decimal_null F = Value_dbl F DECIMAL (dbl_lowest F)"

definition OperateNull :: "'d dbl_ops \<Rightarrow> 'd sql_value \<Rightarrow> 'd sql_value \<Rightarrow> 'd sql_value sql" where
  "OperateNull F left right =
     (if is_int (vtype left) then int_OperateNull F (vtype left) left right
      else if vtype left = DECIMAL then decimal_null F
      else if vtype left = TIMESTAMP then Inl Undef else Inl Not_implemented)"

subsection \<open>The operations of the integer classes\<close>

text \<open>\<open>INT_MODIFY_FUNC\<close>, between the checks that every operation makes.\<close>

definition int_modify ::
  "'d dbl_ops \<Rightarrow> type_id \<Rightarrow> (type_id \<Rightarrow> type_id \<Rightarrow> 'd sql_value \<Rightarrow> 'd sql_value \<Rightarrow> 'd sql_value sql) \<Rightarrow> ('d \<Rightarrow> 'd \<Rightarrow> 'd)
    \<Rightarrow> 'd sql_value \<Rightarrow> 'd sql_value \<Rightarrow> 'd sql_value sql" where
  "int_modify F t method opr left right =
     (if is_int (vtype right) then method t (vtype right) left right
      else if vtype right = DECIMAL then
        bnd (get_int left) (\<lambda>x. bnd (get_dbl right) (\<lambda>y. Value_dbl F DECIMAL (opr (dbl_of_int F x) y)))
      else if vtype right = VARCHAR then bnd (CastAs F right t) (method t t left)
      else Inl Type_error)"

definition int_checked ::
  "'d dbl_ops \<Rightarrow> 'd sql_value \<Rightarrow> 'd sql_value \<Rightarrow> 'd sql_value sql \<Rightarrow> 'd sql_value sql" where
  "int_checked F left right r =
     require (CheckInteger left) Failed_assert (require (CheckComparable left right) Failed_assert (
       if IsNull left \<or> IsNull right then OperateNull F left right else r))"

definition nonzero :: "'d dbl_ops \<Rightarrow> 'd sql_value \<Rightarrow> 'd sql_value sql \<Rightarrow> 'd sql_value sql" where
  "nonzero F right r = bnd (IsZero F right) (\<lambda>z. if z then Inl Divide_by_zero else r)"

definition int_Min :: "'d dbl_ops \<Rightarrow> 'd sql_value \<Rightarrow> 'd sql_value \<Rightarrow> 'd sql_value sql" where
  "int_Min F left right = int_checked F left right
     (bnd (CompareLessThan F left right) (\<lambda>c. if c = CMP_TRUE then Copy F left else Copy F right))"

definition int_Max :: "'d dbl_ops \<Rightarrow> 'd sql_value \<Rightarrow> 'd sql_value \<Rightarrow> 'd sql_value sql" where
  "int_Max F left right = int_checked F left right
     (bnd (CompareGreaterThanEquals F left right) (\<lambda>c. if c = CMP_TRUE then Copy F left else Copy F right))"

text \<open>\<open>Sqrt\<close> of a null \<open>INTEGER\<close> is a null \<open>INTEGER\<close>, of the other types a null \<open>DECIMAL\<close>.\<close>

definition int_Sqrt :: "'d dbl_ops \<Rightarrow> type_id \<Rightarrow> 'd sql_value \<Rightarrow> 'd sql_value sql" where
  "int_Sqrt F t v = require (CheckInteger v) Failed_assert (
     if IsNull v then (if t = INTEGER then int_OperateNull F t v v else decimal_null F)
     else bnd (get_int v) (\<lambda>i. if i < 0 then Inl Decimal_error else Value_dbl F DECIMAL (dbl_sqrt F (dbl_of_int F i))))"

record 'd arith =
  a_add :: "'d sql_value \<Rightarrow> 'd sql_value \<Rightarrow> 'd sql_value sql"
  a_sub :: "'d sql_value \<Rightarrow> 'd sql_value \<Rightarrow> 'd sql_value sql"
  a_mul :: "'d sql_value \<Rightarrow> 'd sql_value \<Rightarrow> 'd sql_value sql"
  a_div :: "'d sql_value \<Rightarrow> 'd sql_value \<Rightarrow> 'd sql_value sql"
  a_mod :: "'d sql_value \<Rightarrow> 'd sql_value \<Rightarrow> 'd sql_value sql"
  a_min :: "'d sql_value \<Rightarrow> 'd sql_value \<Rightarrow> 'd sql_value sql"
  a_max :: "'d sql_value \<Rightarrow> 'd sql_value \<Rightarrow> 'd sql_value sql"
  a_sqrt :: "'d sql_value \<Rightarrow> 'd sql_value sql"

definition int_arith :: "'d dbl_ops \<Rightarrow> type_id \<Rightarrow> 'd arith" where
  "int_arith F t =
     \<lparr>a_add = (\<lambda>l r. int_checked F l r (int_modify F t AddValue (dbl_add F) l r)),
      a_sub = (\<lambda>l r. int_checked F l r (int_modify F t SubtractValue (dbl_sub F) l r)),
      a_mul = (\<lambda>l r. int_checked F l r (int_modify F t MultiplyValue (dbl_mul F) l r)),
      a_div = (\<lambda>l r. int_checked F l r (nonzero F r (int_modify F t DivideValue (dbl_div F) l r))),
      a_mod = (\<lambda>l r. int_checked F l r (nonzero F r (int_modify F t ModuloValue (ValMod F) l r))),
      a_min = int_Min F, a_max = int_Max F, a_sqrt = int_Sqrt F t\<rparr>"

definition TinyintType_arith :: "'d dbl_ops \<Rightarrow> 'd arith" where "TinyintType_arith F = int_arith F TINYINT"
definition SmallintType_arith :: "'d dbl_ops \<Rightarrow> 'd arith" where "SmallintType_arith F = int_arith F SMALLINT"
definition IntegerType_arith :: "'d dbl_ops \<Rightarrow> 'd arith" where "IntegerType_arith F = int_arith F INTEGER"
definition BigintType_arith :: "'d dbl_ops \<Rightarrow> 'd arith" where "BigintType_arith F = int_arith F BIGINT"

subsection \<open>Decimals and strings\<close>

definition dec_modify :: "'d dbl_ops \<Rightarrow> ('d \<Rightarrow> 'd \<Rightarrow> 'd) \<Rightarrow> 'd sql_value \<Rightarrow> 'd sql_value \<Rightarrow> 'd sql_value sql" where
  "dec_modify F opr left right =
     bnd (get_dbl left) (\<lambda>x.
       if is_int (vtype right) then bnd (get_int right) (\<lambda>y. Value_dbl F DECIMAL (opr x (dbl_of_int F y)))
       else if vtype right = DECIMAL then bnd (get_dbl right) (\<lambda>y. Value_dbl F DECIMAL (opr x y))
       else if vtype right = VARCHAR then
         bnd (CastAs F right DECIMAL) (\<lambda>r. bnd (get_dbl r) (\<lambda>y. Value_dbl F DECIMAL (opr x y)))
       else Inl Type_error)"

definition dec_checked :: "'d dbl_ops \<Rightarrow> 'd sql_value \<Rightarrow> 'd sql_value \<Rightarrow> 'd sql_value sql \<Rightarrow> 'd sql_value sql" where
  "dec_checked F left right r =
     require (CheckComparable left right) Failed_assert (if IsNull left \<or> IsNull right then OperateNull F left right else r)"

definition DecimalType_arith :: "'d dbl_ops \<Rightarrow> 'd arith" where
  "DecimalType_arith F =
     \<lparr>a_add = (\<lambda>l r. dec_checked F l r (dec_modify F (dbl_add F) l r)),
      a_sub = (\<lambda>l r. dec_checked F l r (dec_modify F (dbl_sub F) l r)),
      a_mul = (\<lambda>l r. dec_checked F l r (dec_modify F (dbl_mul F) l r)),
      a_div = (\<lambda>l r. dec_checked F l r (nonzero F r (dec_modify F (dbl_div F) l r))),
      a_mod = (\<lambda>l r. dec_checked F l r (nonzero F r (dec_modify F (ValMod F) l r))),
      a_min = (\<lambda>l r. dec_checked F l r (bnd (CompareLessThanEquals F l r) (\<lambda>c. if c = CMP_TRUE then Copy F l else Copy F r))),
      a_max = (\<lambda>l r. dec_checked F l r (bnd (CompareGreaterThanEquals F l r) (\<lambda>c. if c = CMP_TRUE then Copy F l else Copy F r))),
      a_sqrt = (\<lambda>v. if IsNull v then decimal_null F
        else bnd (get_dbl v) (\<lambda>d. if dbl_lt F d (dbl_of_int F 0) then Inl Decimal_error else Value_dbl F DECIMAL (dbl_sqrt F d)))\<rparr>"

text \<open>The base class implements nothing; strings have a minimum and a maximum.\<close>

definition Type_arith :: "sql_error \<Rightarrow> 'd arith" where
  "Type_arith e = \<lparr>a_add = (\<lambda>_ _. Inl e), a_sub = (\<lambda>_ _. Inl e), a_mul = (\<lambda>_ _. Inl e), a_div = (\<lambda>_ _. Inl e),
     a_mod = (\<lambda>_ _. Inl e), a_min = (\<lambda>_ _. Inl e), a_max = (\<lambda>_ _. Inl e), a_sqrt = (\<lambda>_. Inl e)\<rparr>"

definition VarlenType_arith :: "'d dbl_ops \<Rightarrow> 'd arith" where
  "VarlenType_arith F = (Type_arith Not_implemented)
     \<lparr>a_min := (\<lambda>l r. dec_checked F l r (bnd (CompareLessThan F l r) (\<lambda>c. if c = CMP_TRUE then Copy F l else Copy F r))),
      a_max := (\<lambda>l r. dec_checked F l r (bnd (CompareGreaterThan F l r) (\<lambda>c. if c = CMP_TRUE then Copy F l else Copy F r)))\<rparr>"

definition kTypes_arith :: "'d dbl_ops \<Rightarrow> type_id \<Rightarrow> 'd arith" where
  "kTypes_arith F t =
     (case t of INVALID \<Rightarrow> Type_arith Not_implemented | BOOLEAN \<Rightarrow> Type_arith Not_implemented | TINYINT \<Rightarrow> TinyintType_arith F
      | SMALLINT \<Rightarrow> SmallintType_arith F | INTEGER \<Rightarrow> IntegerType_arith F | BIGINT \<Rightarrow> BigintType_arith F
      | DECIMAL \<Rightarrow> DecimalType_arith F | VARCHAR \<Rightarrow> VarlenType_arith F | TIMESTAMP \<Rightarrow> Type_arith Undef)"

definition Add where "Add F v w = a_add (kTypes_arith F (vtype v)) v w"
definition Subtract where "Subtract F v w = a_sub (kTypes_arith F (vtype v)) v w"
definition Multiply where "Multiply F v w = a_mul (kTypes_arith F (vtype v)) v w"
definition Divide where "Divide F v w = a_div (kTypes_arith F (vtype v)) v w"
definition Modulo where "Modulo F v w = a_mod (kTypes_arith F (vtype v)) v w"
definition Min_of where "Min_of F v w = a_min (kTypes_arith F (vtype v)) v w"
definition Max_of where "Max_of F v w = a_max (kTypes_arith F (vtype v)) v w"
definition Sqrt where "Sqrt F v = a_sqrt (kTypes_arith F (vtype v)) v"

end
