(* ===== verification/Sql_Correct.thy ===== *)
theory Sql_Correct
  imports Sql_Arith
begin

section \<open>Integer values are numbers\<close>

text \<open>
  The value of an integer type that stands for a number; the smallest number of the width is the null value of the
  type. \<open>value_ok\<close> is the invariant of all values that the constructors make.
\<close>

definition mk_int :: "type_id \<Rightarrow> int \<Rightarrow> 'd sql_value" where
  "mk_int t n = \<lparr>vtype = t, vdata = Int_Val n, vlen = null_len (n = PELOTON_INT_NULL t)\<rparr>"

definition fits_bits :: "nat \<Rightarrow> int \<Rightarrow> bool" where
  "fits_bits w n \<longleftrightarrow> - (2 ^ (w - 1)) \<le> n \<and> n < 2 ^ (w - 1)"

definition wider :: "type_id \<Rightarrow> type_id \<Rightarrow> type_id" where
  "wider t1 t2 = (if int_width t1 \<ge> int_width t2 then t1 else t2)"

lemma sbits_eq_iff: "sbits w n = n \<longleftrightarrow> fits_bits w n"
  by (simp add: sbits_def fits_bits_def signed_take_bit_int_eq_self_iff)

lemma sbits_fits [simp]: "fits_bits w n \<Longrightarrow> sbits w n = n"
  by (simp add: sbits_eq_iff)

lemma fits_sbits: "fits_bits w (sbits w n)"
  by (simp add: fits_bits_def sbits_def signed_take_bit_int_less_exp signed_take_bit_int_greater_eq_minus_exp)

lemma fits_mono: "fits_bits v n \<Longrightarrow> v \<le> w \<Longrightarrow> fits_bits w n"
proof -
  assume a: "fits_bits v n" "v \<le> w"
  then have "(2 :: int) ^ (v - 1) \<le> 2 ^ (w - 1)" by (intro power_increasing) auto
  with a(1) show ?thesis unfolding fits_bits_def by linarith
qed

lemma is_int_cases:
  assumes "is_int t" obtains "t = TINYINT" | "t = SMALLINT" | "t = INTEGER" | "t = BIGINT"
  using assms by (auto simp: is_int_def)

lemma mk_int_simps [simp]:
  "vtype (mk_int t n) = t" "vdata (mk_int t n) = Int_Val n" "get_int (mk_int t n) = Inr n"
  "IsNull (mk_int t n) \<longleftrightarrow> n = PELOTON_INT_NULL t"
  by (simp_all add: mk_int_def get_int_def IsNull_def PELOTON_VALUE_NULL_def)

lemma int_value_ok: "is_int t \<or> t = BOOLEAN \<Longrightarrow> fits_bits (int_width t) n \<Longrightarrow> int_value t n = Inr (mk_int t n)"
  by (simp add: int_value_def mk_int_def Let_def)

lemma Value_of_ok:
  assumes "is_int t \<or> t = BOOLEAN" "fits_bits (int_width t) n"
  shows "Value_of t n = Inr (mk_int t n)"
proof -
  have "t = BOOLEAN \<or> t = TINYINT \<or> t = SMALLINT \<or> t = INTEGER \<or> t = BIGINT" using assms(1) by (auto simp: is_int_def)
  then show ?thesis
    using assms int_value_ok [of t n] by (auto simp: Value_of_def Value_int8_def Value_int16_def Value_int32_def Value_int64_def)
qed

lemma Value_as_ok: "is_int t \<Longrightarrow> fits_bits (int_width t) n \<Longrightarrow> Value_as t t n = Inr (mk_int t n)"
  by (simp add: Value_as_def int_value_ok)

lemma promoted_ge: "int_width t1 \<le> promoted t1 t2" "int_width t2 \<le> promoted t1 t2"
  by (auto simp: promoted_def)

lemma fits_wider: "fits_bits (int_width (wider t1 t2)) n \<longleftrightarrow> fits_bits (int_width t1) n \<or> fits_bits (int_width t2) n"
  using fits_mono [of "int_width t1" n "int_width t2"] fits_mono [of "int_width t2" n "int_width t1"]
  by (auto simp: wider_def)

lemma c_arith_ok: "fits_bits (int_width t1) n \<or> fits_bits (int_width t2) n \<Longrightarrow> c_arith t1 t2 n = Inr n"
  using fits_mono promoted_ge by (auto simp: c_arith_def sbits_eq_iff)

subsection \<open>Addition, subtraction, multiplication\<close>

text \<open>The exact result when it fits the wider type, an exception when it fits only the promoted type.\<close>

definition exact :: "type_id \<Rightarrow> type_id \<Rightarrow> int \<Rightarrow> 'd sql_value sql" where
  "exact t1 t2 n =
     (if fits_bits (int_width (wider t1 t2)) n then Inr (mk_int (wider t1 t2) n)
      else if fits_bits (promoted t1 t2) n then Inl Out_of_range else Inl Undef)"

lemma c_arith_cases: "c_arith t1 t2 n = (if fits_bits (promoted t1 t2) n then Inr n else Inl Undef)"
  by (simp add: c_arith_def sbits_eq_iff)

lemma fits_promoted: "fits_bits (int_width (wider t1 t2)) n \<Longrightarrow> fits_bits (promoted t1 t2) n"
  using fits_wider [of t1 t2 n] fits_mono promoted_ge by blast

lemma AddValue_exact:
  assumes "is_int t1" "is_int t2"
  shows "AddValue t1 t2 (mk_int t1 x) (mk_int t2 y) = exact t1 t2 (x + y)"
proof (cases "fits_bits (int_width (wider t1 t2)) (x + y)")
  case True
  then show ?thesis using fits_promoted [OF True] assms
    by (auto simp: AddValue_def exact_def c_arith_cases sbits_eq_iff fits_wider Let_def wider_def Value_as_ok split: if_splits
        dest: fits_mono)
next
  case False
  then show ?thesis by (auto simp: AddValue_def exact_def c_arith_cases fits_wider sbits_eq_iff Let_def eq_commute [of "x + y" "sbits _ _"])
qed

lemma SubtractValue_exact:
  assumes "is_int t1" "is_int t2"
  shows "SubtractValue t1 t2 (mk_int t1 x) (mk_int t2 y) = exact t1 t2 (x - y)"
proof (cases "fits_bits (int_width (wider t1 t2)) (x - y)")
  case True
  then show ?thesis using fits_promoted [OF True] assms
    by (auto simp: SubtractValue_def exact_def c_arith_cases sbits_eq_iff fits_wider Let_def wider_def Value_as_ok split: if_splits
        dest: fits_mono)
next
  case False
  then show ?thesis by (auto simp: SubtractValue_def exact_def c_arith_cases fits_wider sbits_eq_iff Let_def eq_commute [of "x - y" "sbits _ _"])
qed

lemma times_sdiv: "y \<noteq> 0 \<Longrightarrow> x * y sdiv y = (x :: int)"
  by (simp add: signed_divide_int_eq_divide_int)

lemma MultiplyValue_exact:
  assumes t: "is_int t1" "is_int t2" and x: "fits_bits (int_width t1) x"
  shows "MultiplyValue t1 t2 (mk_int t1 x) (mk_int t2 y) = exact t1 t2 (x * y)"
proof (cases "fits_bits (int_width (wider t1 t2)) (x * y)")
  case True
  then show ?thesis using fits_promoted [OF True] t c_arith_ok [of t1 x t2] x
    by (auto simp: MultiplyValue_def exact_def c_arith_cases [of t1 t2 "x * y"] sbits_eq_iff fits_wider Let_def wider_def Value_as_ok
        times_sdiv split: if_splits dest: fits_mono)
next
  case False
  then show ?thesis by (auto simp: MultiplyValue_def exact_def c_arith_cases fits_wider sbits_eq_iff Let_def eq_commute [of "x * y" "sbits _ _"])
qed

subsection \<open>Division and remainder\<close>

text \<open>Because the smallest number of a type is its null value, a quotient always fits.\<close>

definition int_ok :: "type_id \<Rightarrow> int \<Rightarrow> bool" where
  "int_ok t x \<longleftrightarrow> is_int t \<and> PELOTON_INT_MIN t \<le> x \<and> x \<le> PELOTON_INT_MAX t"

lemma int_ok_fits: "int_ok t x \<Longrightarrow> fits_bits (int_width t) x" "int_ok t x \<Longrightarrow> x \<noteq> PELOTON_INT_NULL t" "int_ok t x \<Longrightarrow> is_int t"
  by (auto simp: int_ok_def fits_bits_def PELOTON_INT_MIN_def PELOTON_INT_MAX_def PELOTON_INT_NULL_def)

lemma int_ok_abs: "int_ok t x \<Longrightarrow> \<bar>n\<bar> \<le> \<bar>x\<bar> \<Longrightarrow> fits_bits (int_width t) n"
  unfolding int_ok_def fits_bits_def PELOTON_INT_MIN_def PELOTON_INT_MAX_def by linarith

lemma Value_as_wider:
  assumes "is_int t1" "is_int t2" "fits_bits (int_width t1) n \<or> fits_bits (int_width t2) n"
  shows "(if int_width t1 \<ge> int_width t2 then Value_as t1 t1 (sbits (int_width t1) n) else Value_as t2 t2 (sbits (int_width t2) n))
    = Inr (mk_int (wider t1 t2) n)"
  using assms fits_mono by (auto simp: wider_def Value_as_ok)

lemma DivideValue_exact:
  assumes x: "int_ok t1 x" and y: "int_ok t2 y"
  shows "DivideValue t1 t2 (mk_int t1 x) (mk_int t2 y) = (if y = 0 then Inl Divide_by_zero else Inr (mk_int (wider t1 t2) (x sdiv y)))"
proof -
  have "fits_bits (int_width t1) (x sdiv y)" using int_ok_abs [OF x] sdiv_int_range [of x y] by auto
  with Value_as_wider [of t1 t2 "x sdiv y"] int_ok_fits(3) [OF x] int_ok_fits(3) [OF y] c_arith_ok [of t1 "x sdiv y" t2]
  show ?thesis by (auto simp: DivideValue_def split: if_splits)
qed

lemma ModuloValue_exact:
  assumes x: "int_ok t1 x" and y: "int_ok t2 y"
  shows "ModuloValue t1 t2 (mk_int t1 x) (mk_int t2 y) = (if y = 0 then Inl Divide_by_zero else Inr (mk_int (wider t1 t2) (x smod y)))"
proof (cases "y = 0")
  case False
  have "fits_bits (int_width t1) (x sdiv y)" using int_ok_abs [OF x] sdiv_int_range [of x y] by auto
  moreover have "fits_bits (int_width t2) (x smod y)" using int_ok_abs [OF y] smod_int_range [OF False, of x] by auto
  ultimately show ?thesis
    using Value_as_wider [of t1 t2 "x smod y"] int_ok_fits(3) [OF x] int_ok_fits(3) [OF y] c_arith_ok [of t1 "x sdiv y" t2] False
    by (auto simp: ModuloValue_def split: if_splits)
qed (simp add: ModuloValue_def)

subsection \<open>The operations of \<open>Value\<close>\<close>

lemma kTypes_int:
  assumes "is_int t"
  shows "kTypes_arith F t = int_arith F t" "kTypes_cmps F t = cmps_of (int_compare F t)"
    "kTypes_conv F t = \<lparr>c_str = int_ToString, c_ser = int_SerializeTo t, c_de = int_DeserializeFrom t,
     c_copy = int_Copy t, c_cast = int_CastAs F t, c_len = no_length\<rparr>"
  using assms
  by (auto simp: is_int_def kTypes_arith_def kTypes_cmps_def kTypes_conv_def TinyintType_arith_def SmallintType_arith_def
      IntegerType_arith_def BigintType_arith_def TinyintType_cmps_def SmallintType_cmps_def IntegerType_cmps_def BigintType_cmps_def
      TinyintType_conv_def SmallintType_conv_def IntegerType_conv_def BigintType_conv_def)

lemma mk_int_checks:
  "is_int t1 \<Longrightarrow> CheckInteger (mk_int t1 x)" "is_int t1 \<Longrightarrow> is_int t2 \<Longrightarrow> CheckComparable (mk_int t1 x) (mk_int t2 y)"
  by (auto simp: CheckInteger_def CheckComparable_def is_int_def)

lemma int_checked_ok:
  assumes "int_ok t1 x" "int_ok t2 y"
  shows "int_checked F (mk_int t1 x) (mk_int t2 y) r = r"
  using assms int_ok_fits(2,3) by (simp add: int_checked_def mk_int_checks)

lemma int_binary:
  assumes "int_ok t1 x" "int_ok t2 y"
  shows "Add F (mk_int t1 x) (mk_int t2 y) = exact t1 t2 (x + y)"
    "Subtract F (mk_int t1 x) (mk_int t2 y) = exact t1 t2 (x - y)"
    "Multiply F (mk_int t1 x) (mk_int t2 y) = exact t1 t2 (x * y)"
    "Divide F (mk_int t1 x) (mk_int t2 y) = (if y = 0 then Inl Divide_by_zero else Inr (mk_int (wider t1 t2) (x sdiv y)))"
    "Modulo F (mk_int t1 x) (mk_int t2 y) = (if y = 0 then Inl Divide_by_zero else Inr (mk_int (wider t1 t2) (x smod y)))"
proof -
  have i: "is_int t1" "is_int t2" "fits_bits (int_width t1) x" using assms int_ok_fits by auto
  note c = int_checked_ok [OF assms] and s = kTypes_int(1) [OF i(1)]
  show "Add F (mk_int t1 x) (mk_int t2 y) = exact t1 t2 (x + y)"
    using i by (simp add: Add_def s int_arith_def c int_modify_def AddValue_exact)
  show "Subtract F (mk_int t1 x) (mk_int t2 y) = exact t1 t2 (x - y)"
    using i by (simp add: Subtract_def s int_arith_def c int_modify_def SubtractValue_exact)
  show "Multiply F (mk_int t1 x) (mk_int t2 y) = exact t1 t2 (x * y)"
    using i by (simp add: Multiply_def s int_arith_def c int_modify_def MultiplyValue_exact)
  show "Divide F (mk_int t1 x) (mk_int t2 y) = (if y = 0 then Inl Divide_by_zero else Inr (mk_int (wider t1 t2) (x sdiv y)))"
    using i by (simp add: Divide_def s int_arith_def c int_modify_def nonzero_def IsZero_def DivideValue_exact [OF assms])
  show "Modulo F (mk_int t1 x) (mk_int t2 y) = (if y = 0 then Inl Divide_by_zero else Inr (mk_int (wider t1 t2) (x smod y)))"
    using i by (simp add: Modulo_def s int_arith_def c int_modify_def nonzero_def IsZero_def ModuloValue_exact [OF assms])
qed

lemma int_compare_exact:
  assumes "int_ok t1 x" "int_ok t2 y"
  shows "int_compare F t1 opr (mk_int t1 x) (mk_int t2 y) = Inr (GetCmpBool (cmp_int opr x y))"
  using assms int_ok_fits(2,3) by (simp add: int_compare_def mk_int_checks)

lemma int_compares:
  assumes "int_ok t1 x" "int_ok t2 y"
  shows "CompareEquals F (mk_int t1 x) (mk_int t2 y) = Inr (GetCmpBool (x = y))"
    "CompareNotEquals F (mk_int t1 x) (mk_int t2 y) = Inr (GetCmpBool (x \<noteq> y))"
    "CompareLessThan F (mk_int t1 x) (mk_int t2 y) = Inr (GetCmpBool (x < y))"
    "CompareLessThanEquals F (mk_int t1 x) (mk_int t2 y) = Inr (GetCmpBool (x \<le> y))"
    "CompareGreaterThan F (mk_int t1 x) (mk_int t2 y) = Inr (GetCmpBool (x > y))"
    "CompareGreaterThanEquals F (mk_int t1 x) (mk_int t2 y) = Inr (GetCmpBool (x \<ge> y))"
  by (simp_all add: int_compare_exact [OF assms] kTypes_int(2) [OF int_ok_fits(3) [OF assms(1)]] CompareEquals_def CompareNotEquals_def CompareLessThan_def CompareLessThanEquals_def
      CompareGreaterThan_def CompareGreaterThanEquals_def cmps_of_def)

lemma Copy_int: "int_ok t x \<Longrightarrow> Copy F (mk_int t x) = Inr (mk_int t x)"
  using int_ok_fits [of t x] by (simp add: Copy_def kTypes_int int_Copy_def mk_int_checks Value_of_ok)

lemma int_min_max:
  assumes "int_ok t1 x" "int_ok t2 y"
  shows "Min_of F (mk_int t1 x) (mk_int t2 y) = Inr (if x < y then mk_int t1 x else mk_int t2 y)"
    "Max_of F (mk_int t1 x) (mk_int t2 y) = Inr (if x \<ge> y then mk_int t1 x else mk_int t2 y)"
  by (simp_all add: kTypes_int(1) [OF int_ok_fits(3) [OF assms(1)]] int_compares(3,6) [OF assms] Copy_int [OF assms(1)]
      Copy_int [OF assms(2)] Min_of_def Max_of_def int_arith_def int_Min_def int_Max_def int_checked_ok [OF assms] GetCmpBool_def)

subsection \<open>Casts\<close>

definition varchar :: "string \<Rightarrow> 'd sql_value" where
  "varchar s = \<lparr>vtype = VARCHAR, vdata = Str_Val (Some (s @ [CHR 0x00])), vlen = word_of_nat (length s + 1)\<rparr>"

lemma unat_len: "length s < 2 ^ 32 - 2 \<Longrightarrow> unat (word_of_nat (length s + 1) :: u32) = length s + 1"
  by (simp only: unat_of_nat) simp

lemma varchar_simps:
  fixes v :: "'d sql_value"
  assumes "length s < 2 ^ 32 - 2" and v: "v = varchar s"
  shows "vtype v = VARCHAR" "\<not> IsNull v" "VarlenType_ToString v = Inr s" "unat (vlen v) = length s + 1"
proof -
  have u: "unat (vlen v) = length s + 1" using unat_len [OF assms(1)] by (simp only: v varchar_def sql_value.simps)
  show "vtype v = VARCHAR" by (simp add: v varchar_def)
  have "vlen v \<noteq> PELOTON_VALUE_NULL" "vlen v \<noteq> 0" using u assms(1) by (auto simp: PELOTON_VALUE_NULL_def)
  moreover have "get_chars v = Inr (s @ [CHR 0x00])" by (simp add: v varchar_def get_chars_def)
  ultimately show "\<not> IsNull v" "VarlenType_ToString v = Inr s" using u by (simp_all add: IsNull_def VarlenType_ToString_def)
  show "unat (vlen v) = length s + 1" by (rule u)
qed

lemma length_show_int64: "fits_bits 64 n \<Longrightarrow> length (show_int n) < 2 ^ 32 - 2"
proof -
  assume "fits_bits 64 n"
  then have "\<bar>n\<bar> < 10 ^ 20" by (auto simp: fits_bits_def)
  then have "length (show_int n) \<le> Suc 20" by (rule length_show_int) simp
  then show ?thesis by simp
qed

lemma std_sto_show: "fits_bits w n \<Longrightarrow> std_sto w (show_int n) = Inr n"
  using scan_show_int [of "[]" n] by (simp add: std_sto_def)

lemma int_width_le: "is_int t \<Longrightarrow> int_width t \<le> 64"
  by (auto simp: is_int_def)

lemma cast_to_varchar: "int_ok t x \<Longrightarrow> CastAs F (mk_int t x) VARCHAR = Inr (varchar (show_int x))"
  using int_ok_fits [of t x]
  by (simp add: CastAs_def kTypes_int int_CastAs_def is_int_def [of VARCHAR] int_ToString_def mk_int_checks Value_string_def varchar_def)

text \<open>Reading an integer from a string wraps it to the width of the type after \<open>stoi\<close> or \<open>stoll\<close> has succeeded.\<close>

lemma cast_from_varchar:
  assumes t: "is_int t" and n: "fits_bits (if t = BIGINT then 64 else 32) n" and ok: "sbits (int_width t) n \<noteq> PELOTON_INT_NULL t"
  shows "CastAs F (varchar (show_int n)) t = Inr (mk_int t (sbits (int_width t) n))"
proof -
  have "fits_bits 64 n" using n fits_mono [of 32 n 64] by (auto split: if_splits)
  note v = varchar_simps [OF length_show_int64 [OF this] refl]
  have f: "fits_bits (int_width t) (sbits (int_width t) n)" by (rule fits_sbits)
  then have "\<not> sbits (int_width t) n < PELOTON_INT_MIN t" using ok by (auto simp: fits_bits_def PELOTON_INT_MIN_def PELOTON_INT_NULL_def)
  then have "CastAs F (varchar (show_int n)) t = Value_of t (sbits (int_width t) n)"
    using t std_sto_show [OF n]
    by (auto simp: v CastAs_def kTypes_conv_def VarlenType_conv_def VarlenType_CastAs_def Let_def elim!: is_int_cases)
  also have "\<dots> = Inr (mk_int t (sbits (int_width t) n))" using t f by (intro Value_of_ok) auto
  finally show ?thesis .
qed

lemma cast_int:
  assumes "int_ok t x" "is_int to"
  shows "CastAs F (mk_int t x) to = (if int_ok to x then Inr (mk_int to x) else Inl Out_of_range)"
proof (cases "int_ok to x")
  case True
  then show ?thesis using assms int_ok_fits [of t x] int_ok_fits [of to x]
    by (auto simp: CastAs_def kTypes_int int_CastAs_def Value_of_ok) (auto simp: int_ok_def)
next
  case False
  have m: "int_width to < int_width t"
  proof (rule ccontr)
    assume "\<not> int_width to < int_width t"
    then have "(2 :: int) ^ (int_width t - 1) \<le> 2 ^ (int_width to - 1)" by (intro power_increasing) auto
    then show False using assms False unfolding int_ok_def PELOTON_INT_MIN_def PELOTON_INT_MAX_def by linarith
  qed
  then show ?thesis using assms False int_ok_fits [of t x]
    by (auto simp: CastAs_def kTypes_int int_CastAs_def) (auto simp: int_ok_def)
qed

end
