(* ===== verification/Sql_Typed.thy ===== *)
theory Sql_Typed
  imports Sql_Correct
begin

section \<open>Well-formed values\<close>

text \<open>
  The contents of a value fit its type, and the length marks null exactly when the contents are the null marker of
  the type. Every operation of \<open>Value\<close> keeps this, and the type of its result is fixed by the types of its
  operands.
\<close>

definition value_ok :: "'d dbl_ops \<Rightarrow> 'd sql_value \<Rightarrow> bool" where
  "value_ok F v =
     (case vdata v of
        Int_Val n \<Rightarrow> (is_int (vtype v) \<or> vtype v = BOOLEAN) \<and> fits_bits (int_width (vtype v)) n \<and> vlen v = null_len (n = PELOTON_INT_NULL (vtype v))
      | Dbl_Val d \<Rightarrow> vtype v = DECIMAL \<and> vlen v = null_len (dbl_eq F d (dbl_lowest F))
      | Str_Val None \<Rightarrow> vtype v = VARCHAR \<and> vlen v = PELOTON_VALUE_NULL
      | Str_Val (Some s) \<Rightarrow> vtype v = VARCHAR \<and> vlen v \<noteq> PELOTON_VALUE_NULL \<and> unat (vlen v) = length s
      | Partly_Set \<Rightarrow> False)"

text \<open>What the printer of doubles promises.\<close>

definition show_ok :: "'d dbl_ops \<Rightarrow> bool" where
  "show_ok F \<longleftrightarrow> (\<forall>d. length (dbl_show F d) < 2 ^ 32 - 2)"

text \<open>A result that is a well-formed value of type \<open>t\<close>, or an error.\<close>

definition gives :: "'d dbl_ops \<Rightarrow> type_id \<Rightarrow> 'd sql_value sql \<Rightarrow> bool" where
  "gives F t x \<longleftrightarrow> (\<forall>r. x = Inr r \<longrightarrow> value_ok F r \<and> vtype r = t)"

named_theorems gives_intro \<open>rules for the type of a result\<close>

lemma gives_basic [gives_intro]:
  "gives F t (Inl e)" "(b \<Longrightarrow> gives F t r) \<Longrightarrow> gives F t (require b e r)"
  "(b \<Longrightarrow> gives F t x) \<Longrightarrow> (\<not> b \<Longrightarrow> gives F t y) \<Longrightarrow> gives F t (if b then x else y)"
  by (auto simp: gives_def require_def)

lemma gives_bnd [gives_intro]: "(\<And>x. m = Inr x \<Longrightarrow> gives F t (f x)) \<Longrightarrow> gives F t (bnd m f)"
  by (cases m) (auto simp: gives_def)

lemma gives_Inr: "value_ok F v \<Longrightarrow> vtype v = t \<Longrightarrow> gives F t (Inr v)"
  by (simp add: gives_def)

lemma gives_int_value [gives_intro]: "is_int t \<or> t = BOOLEAN \<Longrightarrow> gives F t (int_value t n)"
  by (auto simp: gives_def int_value_def value_ok_def Let_def fits_sbits)

lemma gives_constructors [gives_intro]:
  "is_int t \<or> t = BOOLEAN \<Longrightarrow> gives F t (Value_int8 t n)" "is_int t \<or> t = BOOLEAN \<Longrightarrow> gives F t (Value_int32 t n)"
  "is_int t \<or> t = BOOLEAN \<Longrightarrow> gives F t (Value_of t n)" "is_int t \<Longrightarrow> gives F t (Value_as t1 t n)"
  by (auto simp: Value_int8_def Value_int16_def Value_int32_def Value_int64_def Value_of_def Value_as_def is_int_def intro!: gives_int_value)

lemma gives_dbl [gives_intro]: "gives F DECIMAL (Value_dbl F DECIMAL d)"
  by (simp add: gives_def Value_dbl_def value_ok_def)

lemma gives_null_varchar [gives_intro]: "gives F VARCHAR null_varchar"
  by (simp add: gives_def null_varchar_def Value_varlen_def value_ok_def)

lemma gives_string: "length s < 2 ^ 32 - 2 \<Longrightarrow> gives F VARCHAR (Value_string VARCHAR s)"
proof -
  assume s: "length s < 2 ^ 32 - 2"
  let ?l = "word_of_nat (length s + 1) :: u32"
  have u: "unat ?l = length s + 1" by (rule unat_len [OF s])
  then have "?l \<noteq> PELOTON_VALUE_NULL" using s by (auto simp: PELOTON_VALUE_NULL_def)
  with u show ?thesis by (simp add: gives_def Value_string_def value_ok_def)
qed

lemma value_ok_int: "value_ok F v \<Longrightarrow> is_int (vtype v) \<Longrightarrow> \<exists>n. v = mk_int (vtype v) n \<and> fits_bits (int_width (vtype v)) n"
proof -
  assume a: "value_ok F v" "is_int (vtype v)"
  then obtain n where "vdata v = Int_Val n" "fits_bits (int_width (vtype v)) n" "vlen v = null_len (n = PELOTON_INT_NULL (vtype v))"
    by (auto simp: value_ok_def is_int_def split: val_data.splits option.splits)
  then show ?thesis by (intro exI [of _ n]) (simp add: mk_int_def)
qed

subsection \<open>Conversions\<close>

lemma ToString_bound:
  assumes "value_ok F v" "is_int (vtype v)" "int_ToString v = Inr s"
  shows "length s < 2 ^ 32 - 2"
proof -
  obtain n where n: "vdata v = Int_Val n" "fits_bits (int_width (vtype v)) n"
    using value_ok_int [OF assms(1,2)] by (metis mk_int_simps(2))
  then have "fits_bits 64 n" using fits_mono int_width_le assms(2) by blast
  then show ?thesis using assms n length_show_int64
    by (auto simp: int_ToString_def require_def get_int_def null_name_def is_int_def split: if_splits)
qed

lemma gives_cast:
  assumes v: "value_ok F v" and s: "show_ok F"
  shows "gives F t (CastAs F v t)"
proof -
  consider "is_int (vtype v)" | "vtype v = BOOLEAN" | "vtype v = DECIMAL" | "vtype v = VARCHAR"
    using v by (auto simp: value_ok_def split: val_data.splits option.splits)
  then show ?thesis
  proof cases
    case 1
    then show ?thesis unfolding CastAs_def kTypes_int [OF 1] int_CastAs_def
      by (auto intro!: gives_intro gives_string dest: ToString_bound [OF v])
  next
    case 2
    have "length x < 2 ^ 32 - 2" if "BooleanType_ToString v = Inr x" for x
      using that by (cases "get_int v") (auto simp: BooleanType_ToString_def split: if_splits)
    then show ?thesis using 2 unfolding CastAs_def kTypes_conv_def BooleanType_conv_def BooleanType_Copy_def
      by (auto intro!: gives_intro gives_string)
  next
    case 3
    have "length x < 2 ^ 32 - 2" if "DecimalType_ToString F v = Inr x" for x
      using that s by (cases "get_dbl v") (auto simp: DecimalType_ToString_def show_ok_def split: if_splits)
    then show ?thesis using 3 unfolding CastAs_def kTypes_conv_def DecimalType_conv_def DecimalType_CastAs_def
      by (auto intro!: gives_intro gives_string)
  next
    case 4
    then show ?thesis using v unfolding CastAs_def kTypes_conv_def VarlenType_conv_def VarlenType_CastAs_def
      by (cases t) (auto simp: Let_def is_int_def intro!: gives_intro gives_Inr)
  qed
qed

subsection \<open>Arithmetic\<close>

text \<open>The type of a result: the wider integer type, the integer type that a string is read as, or a decimal.\<close>

definition result_type :: "type_id \<Rightarrow> type_id \<Rightarrow> type_id" where
  "result_type t1 t2 = (if is_int t1 \<and> is_int t2 then wider t1 t2 else if is_int t1 \<and> t2 = VARCHAR then t1 else DECIMAL)"

lemma gives_methods [gives_intro]:
  assumes "is_int t1" "is_int t2" "vtype l = t1" "vtype r = t2"
  shows "gives F (wider t1 t2) (AddValue t1 t2 l r)" "gives F (wider t1 t2) (SubtractValue t1 t2 l r)"
    "gives F (wider t1 t2) (MultiplyValue t1 t2 l r)" "gives F (wider t1 t2) (DivideValue t1 t2 l r)"
    "gives F (wider t1 t2) (ModuloValue t1 t2 l r)"
  using assms
  by (auto simp: AddValue_def SubtractValue_def MultiplyValue_def DivideValue_def ModuloValue_def Let_def wider_def intro!: gives_intro)

lemma gives_OperateNull:
  assumes "is_int (vtype l) \<or> vtype l = DECIMAL"
  shows "gives F (result_type (vtype l) (vtype r)) (OperateNull F l r)"
proof (cases "is_int (vtype l)")
  case True
  then have "gives F (wider (vtype l) (vtype r)) (Value_of (wider (vtype l) (vtype r)) n)" if "is_int (vtype r)" for n
    using that by (intro gives_intro) (auto simp: wider_def)
  then show ?thesis using True
    by (auto simp: OperateNull_def int_OperateNull_def result_type_def Let_def wider_def is_int_def [of DECIMAL] intro!: gives_intro split: if_splits)
next
  case False
  then have d: "vtype l = DECIMAL" using assms by simp
  then show ?thesis using False by (simp add: OperateNull_def decimal_null_def result_type_def gives_dbl)
qed

lemma gives_int_modify:
  assumes l: "is_int (vtype l)" and r: "value_ok F r" and s: "show_ok F"
    and m: "\<And>t x. is_int t \<Longrightarrow> vtype x = t \<Longrightarrow> gives F (wider (vtype l) t) (method (vtype l) t l x)"
  shows "gives F (result_type (vtype l) (vtype r)) (int_modify F (vtype l) method opr l r)"
proof -
  have w: "wider (vtype l) (vtype l) = vtype l" by (simp add: wider_def)
  have c: "gives F (vtype l) (bnd (CastAs F r (vtype l)) (method (vtype l) (vtype l) l))"
  proof (rule gives_bnd)
    fix x assume "CastAs F r (vtype l) = Inr x"
    then have "vtype x = vtype l" using gives_cast [OF r s, of "vtype l"] by (simp add: gives_def)
    then show "gives F (vtype l) (method (vtype l) (vtype l) l x)" using m [OF l] w by simp
  qed
  have d: "\<not> is_int DECIMAL" "\<not> is_int VARCHAR" by (auto simp: is_int_def)
  show ?thesis using l m c d unfolding int_modify_def result_type_def by (auto intro!: gives_intro)
qed

lemma gives_checked:
  assumes "is_int (vtype l)" "gives F (result_type (vtype l) (vtype r)) x"
  shows "gives F (result_type (vtype l) (vtype r)) (int_checked F l r x)"
    "gives F (result_type (vtype l) (vtype r)) (int_checked F l r (nonzero F r x))"
  unfolding int_checked_def nonzero_def using assms by (auto intro!: gives_intro gives_OperateNull)

lemma gives_dec_modify:
  assumes "vtype l = DECIMAL"
  shows "gives F DECIMAL (dec_checked F l r (dec_modify F opr l r))" "gives F DECIMAL (dec_checked F l r (nonzero F r (dec_modify F opr l r)))"
proof -
  have n: "gives F DECIMAL (OperateNull F l r)" using assms by (simp add: OperateNull_def decimal_null_def gives_dbl is_int_def)
  show "gives F DECIMAL (dec_checked F l r (dec_modify F opr l r))" "gives F DECIMAL (dec_checked F l r (nonzero F r (dec_modify F opr l r)))"
    unfolding dec_checked_def nonzero_def dec_modify_def using n by (auto intro!: gives_intro)
qed

end
