(* ===== verification/Disk.thy ===== *)
theory Disk
  imports Prelude
begin

section \<open>The disk manager (15445 disk/disk_manager.cpp)\<close>

text \<open>
  The database file as its bytes and size, the fail bit of the stream and the page counter. Writing to the file
  succeeds unless the stream has failed before or the offset is negative; a failed stream is never cleared.
  \<open>page_id * PAGE_SIZE\<close> is computed as an \<open>int\<close>.
\<close>

definition INVALID_PAGE_ID :: int where "INVALID_PAGE_ID = -1"
definition HEADER_PAGE_ID :: int where "HEADER_PAGE_ID = 0"
definition PAGE_SIZE :: int where "PAGE_SIZE = 4096"

record disk =
  file_bytes :: bytes
  file_size :: int
  io_failed :: bool
  next_page_id :: int

definition new_disk :: disk where
  "new_disk = \<lparr>file_bytes = (\<lambda>_. 0), file_size = 0, io_failed = False, next_page_id = 0\<rparr>"

definition page_offset :: "int \<Rightarrow> int result" where
  "page_offset page_id =
     (if page_id * PAGE_SIZE < - (2 ^ 31) \<or> 2 ^ 31 \<le> page_id * PAGE_SIZE then Inl Undefined
      else Inr (page_id * PAGE_SIZE))"

definition WritePage :: "disk \<Rightarrow> int \<Rightarrow> bytes \<Rightarrow> disk result" where
  "WritePage dk page_id page_data =
     and_then (page_offset page_id) (\<lambda>offset.
       Inr (if io_failed dk then dk
            else if offset < 0 then dk\<lparr>io_failed := True\<rparr>
            else dk\<lparr>file_bytes := write_mem (\<lambda>a. if file_size dk \<le> a then 0 else file_bytes dk a) offset
                      (read_mem page_data 0 (nat PAGE_SIZE)),
                    file_size := max (file_size dk) (offset + PAGE_SIZE)\<rparr>))"

definition GetFileSize :: "disk \<Rightarrow> int" where
  "GetFileSize dk = sint (word_of_int (file_size dk) :: u32)"

definition ReadPage :: "disk \<Rightarrow> int \<Rightarrow> bytes \<Rightarrow> (disk \<times> bytes) result" where
  "ReadPage dk page_id page_data =
     and_then (page_offset page_id) (\<lambda>offset.
       if offset \<ge> GetFileSize dk then Inr (dk, page_data)
       else let read_count = (if io_failed dk \<or> offset < 0 then 0 else min PAGE_SIZE (file_size dk - offset));
                d = write_mem page_data 0 (read_mem (file_bytes dk) offset (nat read_count))
            in Inr (if read_count < PAGE_SIZE
              then (dk\<lparr>io_failed := True\<rparr>, memset d read_count 0 (nat (PAGE_SIZE - read_count)))
              else (dk, d)))"

definition AllocatePage :: "disk \<Rightarrow> disk \<times> int" where
  "AllocatePage dk = (dk\<lparr>next_page_id := next_page_id dk + 1\<rparr>, next_page_id dk)"

definition DeallocatePage :: "disk \<Rightarrow> int \<Rightarrow> disk" where
  "DeallocatePage dk page_id = dk"

subsection \<open>Pages in the file\<close>

definition page_bytes :: "bytes \<Rightarrow> u8 list" where
  "page_bytes d = read_mem d 0 (nat PAGE_SIZE)"

definition stored :: "disk \<Rightarrow> int \<Rightarrow> u8 list \<Rightarrow> bool" where
  "stored dk p d \<longleftrightarrow> (p + 1) * PAGE_SIZE \<le> file_size dk \<and> read_mem (file_bytes dk) (p * PAGE_SIZE) (nat PAGE_SIZE) = d"

text \<open>The page numbers that the arithmetic of the code can handle, and a file of whole pages.\<close>

definition page_ok :: "int \<Rightarrow> bool" where
  "page_ok p \<longleftrightarrow> 0 \<le> p \<and> p < 2 ^ 19 - 1"

definition disk_ok :: "disk \<Rightarrow> bool" where
  "disk_ok dk \<longleftrightarrow> \<not> io_failed dk \<and> 0 \<le> file_size dk \<and> file_size dk < 2 ^ 31 \<and> file_size dk mod PAGE_SIZE = 0"

lemma page_offset_ok: "page_ok p \<Longrightarrow> page_offset p = Inr (p * PAGE_SIZE)"
  by (simp add: page_ok_def page_offset_def PAGE_SIZE_def)

lemma GetFileSize_ok: "disk_ok dk \<Longrightarrow> GetFileSize dk = file_size dk"
proof -
  assume "disk_ok dk"
  then have "signed_take_bit 31 (file_size dk) = file_size dk"
    by (intro signed_take_bit_int_eq_self) (simp_all add: disk_ok_def)
  then show ?thesis by (simp add: GetFileSize_def sint_sbintrunc')
qed

lemma WritePage_ok:
  assumes "disk_ok dk" and "page_ok p"
  obtains dk' where "WritePage dk p d = Inr dk'" "disk_ok dk'" "stored dk' p (page_bytes d)"
    "\<forall>q e. q \<noteq> p \<longrightarrow> stored dk q e \<longrightarrow> stored dk' q e" "next_page_id dk' = next_page_id dk"
proof -
  let ?dk = "dk\<lparr>file_bytes := write_mem (\<lambda>a. if file_size dk \<le> a then 0 else file_bytes dk a) (p * PAGE_SIZE) (page_bytes d),
      file_size := max (file_size dk) (p * PAGE_SIZE + PAGE_SIZE)\<rparr>"
  have w: "WritePage dk p d = Inr ?dk"
    using assms by (simp add: WritePage_def page_offset_ok disk_ok_def page_ok_def PAGE_SIZE_def page_bytes_def)
  have ok: "disk_ok ?dk" using assms by (auto simp: disk_ok_def page_ok_def PAGE_SIZE_def max_def)
  have s: "stored ?dk p (page_bytes d)"
    by (simp add: stored_def mem_simps page_bytes_def PAGE_SIZE_def distrib_right)
  have o: "stored ?dk q e" if q: "q \<noteq> p" and st: "stored dk q e" for q e
  proof -
    have "q + 1 \<le> p \<or> p + 1 \<le> q" using q by auto
    then have "q * PAGE_SIZE + int (nat PAGE_SIZE) \<le> p * PAGE_SIZE \<or> p * PAGE_SIZE + int (length (page_bytes d)) \<le> q * PAGE_SIZE"
      by (auto simp: PAGE_SIZE_def page_bytes_def)
    then have "read_mem (file_bytes ?dk) (q * PAGE_SIZE) (nat PAGE_SIZE)
        = read_mem (\<lambda>a. if file_size dk \<le> a then 0 else file_bytes dk a) (q * PAGE_SIZE) (nat PAGE_SIZE)"
      by (simp add: read_write_disjoint)
    also have "\<dots> = read_mem (file_bytes dk) (q * PAGE_SIZE) (nat PAGE_SIZE)"
      using st by (intro read_mem_cong) (auto simp: stored_def PAGE_SIZE_def)
    finally show ?thesis using st by (auto simp: stored_def max_def)
  qed
  show ?thesis by (rule that [OF w ok s]) (use o in auto)
qed

text \<open>A page that is in the file is read, any other leaves the memory as it was.\<close>

lemma ReadPage_ok:
  assumes ok: "disk_ok dk" and p: "page_ok p"
  obtains d' where "ReadPage dk p d = Inr (dk, d')" "\<forall>e. stored dk p e \<longrightarrow> page_bytes d' = e"
proof (cases "p * PAGE_SIZE \<ge> file_size dk")
  case True
  then have "ReadPage dk p d = Inr (dk, d)" using ok p by (simp add: ReadPage_def page_offset_ok GetFileSize_ok)
  moreover have "\<not> stored dk p e" for e using True by (auto simp: stored_def PAGE_SIZE_def)
  ultimately show ?thesis by (intro that [of d]) auto
next
  case False
  then have "p * PAGE_SIZE + PAGE_SIZE \<le> file_size dk"
  proof -
    obtain m where m: "file_size dk = PAGE_SIZE * m" using ok by (auto simp: disk_ok_def mod_eq_0_iff_dvd)
    with False have "p < m" by (simp add: PAGE_SIZE_def)
    then show ?thesis by (simp add: m PAGE_SIZE_def)
  qed
  then have "ReadPage dk p d = Inr (dk, write_mem d 0 (read_mem (file_bytes dk) (p * PAGE_SIZE) (nat PAGE_SIZE)))"
    using ok p False by (simp add: ReadPage_def page_offset_ok GetFileSize_ok disk_ok_def page_ok_def PAGE_SIZE_def)
  then show ?thesis by (rule that) (simp add: page_bytes_def stored_def mem_simps)
qed

end
