(* ===== verification/Page_Mem.thy ===== *)
theory Page_Mem
  imports Disk
begin

section \<open>Access to the bytes of a page\<close>

text \<open>
  The page formats of the storage manager are read and written through pointers into the array \<open>data_\<close> of a
  \<open>Page\<close>: four-byte integers at an offset, and runs of bytes. An access that leaves the array is undefined, and so
  is an \<open>int\<close> computation that overflows.
\<close>

named_theorems page_simps \<open>reading a page after a write to it\<close>

definition in_page :: "int \<Rightarrow> int \<Rightarrow> bool" where
  "in_page a n \<longleftrightarrow> 0 \<le> a \<and> 0 \<le> n \<and> a + n \<le> PAGE_SIZE"

definition c_int :: "int \<Rightarrow> int result" where
  "c_int v = (if - (2 ^ 31) \<le> v \<and> v < 2 ^ 31 then Inr v else Inl Undefined)"

definition get32 :: "bytes \<Rightarrow> int \<Rightarrow> int result" where
  "get32 d a = (if in_page a 4 then Inr (sint (load32 d a)) else Inl Undefined)"

definition put32 :: "bytes \<Rightarrow> int \<Rightarrow> int \<Rightarrow> bytes result" where
  "put32 d a v = (if in_page a 4 then Inr (store32 d a (word_of_int v)) else Inl Undefined)"

definition put_bytes :: "bytes \<Rightarrow> int \<Rightarrow> u8 list \<Rightarrow> bytes result" where
  "put_bytes d a bs = (if in_page a (int (length bs)) then Inr (write_mem d a bs) else Inl Undefined)"

definition move_bytes :: "bytes \<Rightarrow> int \<Rightarrow> int \<Rightarrow> int \<Rightarrow> bytes result" where
  "move_bytes d dst src n = (if in_page dst n \<and> in_page src n then Inr (memcpy d dst src (nat n)) else Inl Undefined)"

lemma c_int_ok [simp]: "- (2 ^ 31) \<le> v \<Longrightarrow> v < 2 ^ 31 \<Longrightarrow> c_int v = Inr v"
  by (simp add: c_int_def)

lemma get32_ok [simp]: "in_page a 4 \<Longrightarrow> get32 d a = Inr (sint (load32 d a))"
  by (simp add: get32_def)

lemma put32_ok [simp]: "in_page a 4 \<Longrightarrow> put32 d a v = Inr (store32 d a (word_of_int v))"
  by (simp add: put32_def)

lemma put_bytes_ok [simp]: "in_page a (int (length bs)) \<Longrightarrow> put_bytes d a bs = Inr (write_mem d a bs)"
  by (simp add: put_bytes_def)

lemma move_bytes_ok [simp]: "in_page dst n \<Longrightarrow> in_page src n \<Longrightarrow> move_bytes d dst src n = Inr (memcpy d dst src (nat n))"
  by (simp add: move_bytes_def)

lemma sint_int32: "- (2 ^ 31) \<le> v \<Longrightarrow> v < 2 ^ 31 \<Longrightarrow> sint (word_of_int v :: u32) = v"
proof -
  assume "- (2 ^ 31) \<le> v" "v < 2 ^ 31"
  then have "signed_take_bit 31 v = v" by (intro signed_take_bit_int_eq_self) simp_all
  then show ?thesis by (simp add: sint_sbintrunc')
qed

lemma load32_write_other [mem_simps]:
  "q + 4 \<le> p \<or> p + int (length bs) \<le> q \<Longrightarrow> load32 (write_mem m p bs) q = load32 m q"
  by (simp add: load32_def mem_simps)

lemma read_store32_other [mem_simps]:
  "q + int n \<le> p \<or> p + 4 \<le> q \<Longrightarrow> read_mem (store32 m p v) q n = read_mem m q n"
  by (simp add: store32_def mem_simps)

text \<open>A run of bytes that lies inside a moved region.\<close>

lemma read_memcpy_inside:
  assumes "dst \<le> p" "p + int k \<le> dst + int n"
  shows "read_mem (memcpy m dst src n) p k = read_mem m (p - dst + src) k"
  by (rule nth_equalityI) (use assms in \<open>auto simp: memcpy_def write_mem_apply algebra_simps\<close>)

lemma read_memcpy_outside:
  "p + int k \<le> dst \<or> dst + int n \<le> p \<Longrightarrow> read_mem (memcpy m dst src n) p k = read_mem m p k"
  by (simp add: memcpy_def mem_simps)

lemma load32_memcpy_outside:
  "p + 4 \<le> dst \<or> dst + int n \<le> p \<Longrightarrow> load32 (memcpy m dst src n) p = load32 m p"
  by (simp add: memcpy_def mem_simps)

end
