(* ===== verification/Table_Page.thy ===== *)
theory Table_Page
  imports Page_Mem
begin

section \<open>Slotted pages of tuples (15445 page/table_page.cpp)\<close>

text \<open>
  A \<open>TablePage\<close> on the bytes of its page. A tuple that is written is its bytes (\<open>size_\<close> is their number); a tuple
  that \<open>GetTuple\<close> returns is its size and its offset in the page, because \<open>data_\<close> then points into the page.
  The loops over the slots read \<open>GetTupleCount\<close> once: what they write never overlaps it. The assertion
  \<open>tuple.allocated_\<close> of \<open>InsertTuple\<close> holds of every tuple that is written as bytes of its own; the tuples that
  \<open>GetTuple\<close> returns, for which it fails, have another type and cannot be passed to it.
\<close>

record rid =
  rid_page :: int
  rid_slot :: int

definition invalid_rid :: rid where
  "invalid_rid = \<lparr>rid_page = INVALID_PAGE_ID, rid_slot = -1\<rparr>"

subsection \<open>Fields of the page\<close>

definition GetPageId :: "bytes \<Rightarrow> int result" where "GetPageId d = get32 d 0"
definition GetPrevPageId :: "bytes \<Rightarrow> int result" where "GetPrevPageId d = get32 d 4"
definition GetNextPageId :: "bytes \<Rightarrow> int result" where "GetNextPageId d = get32 d 8"
definition SetPrevPageId :: "bytes \<Rightarrow> int \<Rightarrow> bytes result" where "SetPrevPageId d v = put32 d 4 v"
definition SetNextPageId :: "bytes \<Rightarrow> int \<Rightarrow> bytes result" where "SetNextPageId d v = put32 d 8 v"
definition GetFreeSpacePointer :: "bytes \<Rightarrow> int result" where "GetFreeSpacePointer d = get32 d 12"
definition SetFreeSpacePointer :: "bytes \<Rightarrow> int \<Rightarrow> bytes result" where "SetFreeSpacePointer d v = put32 d 12 v"
definition GetTupleCount :: "bytes \<Rightarrow> int result" where "GetTupleCount d = get32 d 16"
definition SetTupleCount :: "bytes \<Rightarrow> int \<Rightarrow> bytes result" where "SetTupleCount d v = put32 d 16 v"
definition GetTupleOffset :: "bytes \<Rightarrow> int \<Rightarrow> int result" where "GetTupleOffset d i = get32 d (20 + 8 * i)"
definition GetTupleSize :: "bytes \<Rightarrow> int \<Rightarrow> int result" where "GetTupleSize d i = get32 d (24 + 8 * i)"
definition SetTupleOffset :: "bytes \<Rightarrow> int \<Rightarrow> int \<Rightarrow> bytes result" where "SetTupleOffset d i v = put32 d (20 + 8 * i) v"
definition SetTupleSize :: "bytes \<Rightarrow> int \<Rightarrow> int \<Rightarrow> bytes result" where "SetTupleSize d i v = put32 d (24 + 8 * i) v"

lemmas field_defs = GetPageId_def GetPrevPageId_def GetNextPageId_def SetPrevPageId_def SetNextPageId_def
  GetFreeSpacePointer_def SetFreeSpacePointer_def GetTupleCount_def SetTupleCount_def
  GetTupleOffset_def GetTupleSize_def SetTupleOffset_def SetTupleSize_def

definition GetFreeSpaceSize :: "bytes \<Rightarrow> int result" where
  "GetFreeSpaceSize d =
     and_then (GetFreeSpacePointer d) (\<lambda>p. and_then (c_int (p - 20)) (\<lambda>q.
       and_then (GetTupleCount d) (\<lambda>n. and_then (c_int (n * 8)) (\<lambda>k. c_int (q - k)))))"

definition TablePage_Init :: "bytes \<Rightarrow> int \<Rightarrow> int \<Rightarrow> int \<Rightarrow> int \<Rightarrow> bytes result" where
  "TablePage_Init d page_id page_size prev_id next_id =
     and_then (put32 d 0 page_id) (\<lambda>d1. and_then (SetPrevPageId d1 prev_id) (\<lambda>d2.
       and_then (SetNextPageId d2 next_id) (\<lambda>d3. and_then (SetFreeSpacePointer d3 page_size) (\<lambda>d4.
         SetTupleCount d4 0))))"

subsection \<open>Tuples\<close>

text \<open>The loops that look for a slot whose size satisfies a condition; \<open>k\<close> slots are left, and the slot after the
  last one is returned when there is none.\<close>

fun scan_slots :: "(int \<Rightarrow> bool) \<Rightarrow> bytes \<Rightarrow> int \<Rightarrow> nat \<Rightarrow> int result" where
  "scan_slots p d i 0 = Inr i"
| "scan_slots p d i (Suc k) = and_then (GetTupleSize d i) (\<lambda>sz. if p sz then Inr i else scan_slots p d (i + 1) k)"

definition InsertTuple :: "bytes \<Rightarrow> u8 list \<Rightarrow> (bytes \<times> rid option) result" where
  "InsertTuple d tuple =
     (if tuple = [] then Inl Assert_fails
      else and_then (GetFreeSpaceSize d) (\<lambda>free. let size = int (length tuple) in
        if free < size then Inr (d, None)
        else and_then (GetTupleCount d) (\<lambda>n. and_then (scan_slots (\<lambda>sz. sz \<le> 0) d 0 (nat n)) (\<lambda>i.
          and_then (if i = n then c_int (size + 8) else Inr 0) (\<lambda>need.
          if i = n \<and> free < need then Inr (d, None)
          else and_then (GetFreeSpacePointer d) (\<lambda>p. and_then (c_int (p - size)) (\<lambda>fsp.
            and_then (SetFreeSpacePointer d fsp) (\<lambda>d1. and_then (put_bytes d1 fsp tuple) (\<lambda>d2.
            and_then (GetFreeSpacePointer d2) (\<lambda>off. and_then (SetTupleOffset d2 i off) (\<lambda>d3.
            and_then (SetTupleSize d3 i size) (\<lambda>d4. and_then (GetTupleCount d4) (\<lambda>n4.
            and_then (if i = n4 then and_then (c_int (n4 + 1)) (SetTupleCount d4) else Inr d4) (\<lambda>d5.
            and_then (GetPageId d5) (\<lambda>pid. Inr (d5, Some \<lparr>rid_page = pid, rid_slot = i\<rparr>))))))))))))))))"

text \<open>The loops of \<open>DeleteTuple\<close> and \<open>UpdateTuple\<close> that move the offsets below a bound.\<close>

fun shift_offsets :: "bytes \<Rightarrow> int \<Rightarrow> int \<Rightarrow> int list \<Rightarrow> bytes result" where
  "shift_offsets d bound delta [] = Inr d"
| "shift_offsets d bound delta (i # is) =
     and_then (GetTupleOffset d i) (\<lambda>off. and_then (GetTupleSize d i) (\<lambda>sz.
       and_then (if sz > 0 \<and> off < bound then and_then (c_int (off + delta)) (SetTupleOffset d i) else Inr d)
         (\<lambda>d1. shift_offsets d1 bound delta is)))"

definition DeleteTuple :: "bytes \<Rightarrow> rid \<Rightarrow> (bytes \<times> bool) result" where
  "DeleteTuple d r =
     (let slot_num = rid_slot r in
      and_then (GetTupleCount d) (\<lambda>n.
      if slot_num \<ge> n then Inr (d, False)
      else and_then (GetTupleSize d slot_num) (\<lambda>tuple_size.
      if tuple_size \<le> 0 then Inr (d, False)
      else and_then (GetTupleOffset d slot_num) (\<lambda>tuple_offset. and_then (GetFreeSpacePointer d) (\<lambda>fsp.
      if tuple_offset < fsp then Inl Assert_fails
      else and_then (move_bytes d (fsp + tuple_size) fsp (tuple_offset - fsp)) (\<lambda>d1.
        and_then (c_int (fsp + tuple_size)) (\<lambda>fsp1. and_then (SetFreeSpacePointer d1 fsp1) (\<lambda>d2.
        and_then (SetTupleSize d2 slot_num 0) (\<lambda>d3. and_then (SetTupleOffset d3 slot_num 0) (\<lambda>d4.
        and_then (GetTupleCount d4) (\<lambda>n4.
        and_then (shift_offsets d4 tuple_offset tuple_size [0..n4 - 1]) (\<lambda>d5. Inr (d5, True)))))))))))))"

definition UpdateTuple :: "bytes \<Rightarrow> u8 list \<Rightarrow> rid \<Rightarrow> (bytes \<times> bool) result" where
  "UpdateTuple d tuple r =
     (let slot_num = rid_slot r; size = int (length tuple) in
      and_then (GetTupleCount d) (\<lambda>n.
      if slot_num \<ge> n then Inr (d, False)
      else and_then (GetTupleSize d slot_num) (\<lambda>tuple_size.
      if tuple_size \<le> 0 then Inr (d, False)
      else and_then (GetFreeSpaceSize d) (\<lambda>free. and_then (c_int (size - tuple_size)) (\<lambda>more.
      if free < more then Inr (d, False)
      else and_then (GetTupleOffset d slot_num) (\<lambda>tuple_offset. and_then (GetFreeSpacePointer d) (\<lambda>fsp.
      if tuple_offset < fsp then Inl Assert_fails
      else and_then (move_bytes d (fsp + tuple_size - size) fsp (tuple_offset - fsp)) (\<lambda>d1.
        and_then (c_int (fsp + tuple_size)) (\<lambda>s1. and_then (c_int (s1 - size)) (\<lambda>fsp1.
        and_then (SetFreeSpacePointer d1 fsp1) (\<lambda>d2.
        and_then (put_bytes d2 (tuple_offset + tuple_size - size) tuple) (\<lambda>d3.
        and_then (SetTupleSize d3 slot_num size) (\<lambda>d4. and_then (GetTupleCount d4) (\<lambda>n4.
        and_then (c_int (tuple_offset + tuple_size)) (\<lambda>bound.
        and_then (shift_offsets d4 bound (tuple_size - size) [0..n4 - 1]) (\<lambda>d5. Inr (d5, True)))))))))))))))))"

definition GetTuple :: "bytes \<Rightarrow> rid \<Rightarrow> (int \<times> int) option result" where
  "GetTuple d r =
     (let slot_num = rid_slot r in
      and_then (GetTupleCount d) (\<lambda>n.
      if slot_num \<ge> n then Inr None
      else and_then (GetTupleSize d slot_num) (\<lambda>tuple_size.
      if tuple_size \<le> 0 then Inr None
      else and_then (GetTupleOffset d slot_num) (\<lambda>tuple_offset. Inr (Some (tuple_size, tuple_offset))))))"

definition GetFirstTupleRid :: "bytes \<Rightarrow> (rid \<times> bool) result" where
  "GetFirstTupleRid d =
     and_then (GetTupleCount d) (\<lambda>n. and_then (scan_slots (\<lambda>sz. sz > 0) d 0 (nat n)) (\<lambda>i.
       if i < n then and_then (GetPageId d) (\<lambda>pid. Inr (\<lparr>rid_page = pid, rid_slot = i\<rparr>, True))
       else Inr (invalid_rid, False)))"

definition GetNextTupleRid :: "bytes \<Rightarrow> rid \<Rightarrow> rid option result" where
  "GetNextTupleRid d cur =
     and_then (GetPageId d) (\<lambda>pid. if rid_page cur \<noteq> pid then Inl Assert_fails
       else and_then (GetTupleCount d) (\<lambda>n. and_then (c_int (rid_slot cur + 1)) (\<lambda>start.
         and_then (scan_slots (\<lambda>sz. sz > 0) d start (nat (n - start))) (\<lambda>i.
           if i < n then Inr (Some \<lparr>rid_page = pid, rid_slot = i\<rparr>) else Inr None))))"

text \<open>The bytes that a tuple returned by \<open>GetTuple\<close> points to.\<close>

definition tuple_bytes :: "bytes \<Rightarrow> int \<times> int \<Rightarrow> u8 list" where
  "tuple_bytes d t = read_mem d (snd t) (nat (fst t))"

end
