(* ===== verification/Tuple.thy ===== *)
theory Tuple
  imports Sql_Typed Table_Page
begin

section \<open>Columns, schemas and tuples (15445 catalog/, table/tuple.cpp, common/rid.h)\<close>

text \<open>
  A tuple is a block of memory with the fixed-size columns at the offsets of the schema and, after them, the
  variable-length columns, whose fixed part holds the offset of their data. Writing outside the block is undefined.
\<close>

subsection \<open>Columns\<close>

record column =
  column_type :: type_id
  fixed_length :: int
  variable_length :: int
  column_name :: string
  is_inlined :: bool
  column_offset :: int

definition SetInlined :: "column \<Rightarrow> column" where
  "SetInlined c = c\<lparr>is_inlined := column_type c \<noteq> VARCHAR\<rparr>"

definition SetLength :: "column \<Rightarrow> int \<Rightarrow> column" where
  "SetLength c n = (if is_inlined c then c\<lparr>fixed_length := n, variable_length := 0\<rparr> else c\<lparr>fixed_length := 4, variable_length := n\<rparr>)"

definition new_column :: "type_id \<Rightarrow> int \<Rightarrow> string \<Rightarrow> column sql" where
  "new_column t n name =
     (let c = SetInlined \<lparr>column_type = t, fixed_length = -1, variable_length = -1, column_name = name, is_inlined = False, column_offset = -1\<rparr>
      in if is_inlined c \<and> n \<le> 0 then Inl Constraint_error else Inr (SetLength c n))"

definition same_column :: "column \<Rightarrow> column \<Rightarrow> bool" where
  "same_column c d \<longleftrightarrow> column_type c = column_type d \<and> is_inlined c = is_inlined d"

definition Column_ToString :: "column \<Rightarrow> string" where
  "Column_ToString c = ''Column['' @ column_name c @ '', '' @ TypeIdToString (column_type c) @ '', '' @
     ''Offset:'' @ show_int (column_offset c) @ '', '' @
     (if is_inlined c then ''FixedLength:'' @ show_int (fixed_length c) else ''VarLength:'' @ show_int (variable_length c)) @ '']''"

subsection \<open>Schemas\<close>

record schema =
  schema_length :: int
  columns :: "column list"
  tuple_is_inlined :: bool
  uninlined_columns :: "int list"

text \<open>The loop of the constructor: offset, columns so far, the flag, the positions of columns that are not inlined.\<close>

fun schema_loop :: "int \<Rightarrow> int \<Rightarrow> column list \<Rightarrow> (int \<times> column list \<times> int list) sql" where
  "schema_loop index offset [] = Inr (offset, [], [])"
| "schema_loop index offset (c # cs) =
     (let offset1 = offset + fixed_length c in
      require (sbits 32 offset1 = offset1) Undef
        (bnd (schema_loop (index + 1) offset1 cs) (\<lambda>(len, ds, us).
          Inr (len, c\<lparr>column_offset := offset\<rparr> # ds, (if is_inlined c then us else index # us)))))"

definition new_schema :: "column list \<Rightarrow> schema sql" where
  "new_schema cs = bnd (schema_loop 0 0 cs) (\<lambda>(len, ds, us).
     Inr \<lparr>schema_length = len, columns = ds, tuple_is_inlined = (us = []), uninlined_columns = us\<rparr>)"

fun pick_columns :: "schema \<Rightarrow> int list \<Rightarrow> column list sql" where
  "pick_columns sch [] = Inr []"
| "pick_columns sch (i # is) =
     require (i < int (length (columns sch))) Failed_assert (require (0 \<le> i) Undef
       (bnd (pick_columns sch is) (\<lambda>cs. Inr (columns sch ! nat i # cs))))"

definition CopySchema :: "schema \<Rightarrow> int list \<Rightarrow> schema sql" where
  "CopySchema sch ids = bnd (pick_columns sch ids) new_schema"

definition same_schema :: "schema \<Rightarrow> schema \<Rightarrow> bool" where
  "same_schema a b \<longleftrightarrow> length (columns a) = length (columns b) \<and> tuple_is_inlined a = tuple_is_inlined b
     \<and> list_all2 same_column (columns a) (columns b)"

fun GetColumnID :: "column list \<Rightarrow> int \<Rightarrow> string \<Rightarrow> int" where
  "GetColumnID [] i name = -1"
| "GetColumnID (c # cs) i name = (if column_name c = name then i else GetColumnID cs (i + 1) name)"

fun join_comma :: "string list \<Rightarrow> string" where
  "join_comma [] = ''''"
| "join_comma [s] = s"
| "join_comma (s # ss) = s @ '', '' @ join_comma ss"

definition Schema_ToString :: "schema \<Rightarrow> string" where
  "Schema_ToString sch = ''Schema['' @ ''NumColumns:'' @ show_int (int (length (columns sch))) @ '', '' @
     ''IsInlined:'' @ (if tuple_is_inlined sch then ''1'' else ''0'') @ '', '' @ ''Length:'' @ show_int (schema_length sch) @ '']'' @
     '' :: ('' @ join_comma (map Column_ToString (columns sch)) @ '')''"

subsection \<open>Tuples\<close>

record tuple =
  tuple_size :: int
  tuple_data :: bytes

definition tput :: "int \<Rightarrow> bytes \<Rightarrow> int \<Rightarrow> u8 list \<Rightarrow> bytes sql" where
  "tput sz d a bs = (if 0 \<le> a \<and> a + int (length bs) \<le> sz then Inr (write_mem d a bs) else Inl Undef)"

text \<open>The size of the tuple: the addition is done in 64 bits and converted back to \<open>int32_t\<close>.\<close>

fun varlen_size :: "'d dbl_ops \<Rightarrow> int \<Rightarrow> 'd sql_value list \<Rightarrow> int list \<Rightarrow> int sql" where
  "varlen_size F sz vs [] = Inr sz"
| "varlen_size F sz vs (i # is) =
     bnd (GetLength F (vs ! nat i)) (\<lambda>l. varlen_size F (sbits 32 (sz + (uint l + 4))) vs is)"

fun tuple_loop :: "'d dbl_ops \<Rightarrow> int \<Rightarrow> bytes \<Rightarrow> int \<Rightarrow> (column \<times> 'd sql_value) list \<Rightarrow> bytes sql" where
  "tuple_loop F sz d offset [] = Inr d"
| "tuple_loop F sz d offset ((c, v) # xs) =
     (if is_inlined c then
        bnd (SerializeTo F v) (\<lambda>bs. bnd (tput sz d (column_offset c) bs) (\<lambda>d1. tuple_loop F sz d1 offset xs))
      else
        bnd (tput sz d (column_offset c) (le_encode 4 (nat (take_bit 32 offset)))) (\<lambda>d1.
        bnd (SerializeTo F v) (\<lambda>bs. bnd (tput sz d1 offset bs) (\<lambda>d2.
        bnd (GetLength F v) (\<lambda>l. tuple_loop F sz d2 (sbits 32 (offset + (uint l + 4))) xs)))))"

definition new_tuple :: "'d dbl_ops \<Rightarrow> bytes \<Rightarrow> 'd sql_value list \<Rightarrow> schema \<Rightarrow> tuple sql" where
  "new_tuple F junk values sch =
     require (length values = length (columns sch)) Failed_assert
       (bnd (varlen_size F (schema_length sch) values (uninlined_columns sch)) (\<lambda>sz.
         bnd (tuple_loop F sz junk (schema_length sch) (zip (columns sch) values)) (\<lambda>d.
           Inr \<lparr>tuple_size = sz, tuple_data = d\<rparr>)))"

definition GetDataPtr :: "schema \<Rightarrow> tuple \<Rightarrow> nat \<Rightarrow> addr" where
  "GetDataPtr sch t i =
     (let c = columns sch ! i in if is_inlined c then column_offset c else sint (load32 (tuple_data t) (column_offset c)))"

definition GetValue :: "'d dbl_ops \<Rightarrow> schema \<Rightarrow> tuple \<Rightarrow> nat \<Rightarrow> 'd sql_value sql" where
  "GetValue F sch t i = DeserializeFrom F (tuple_data t) (GetDataPtr sch t i) (column_type (columns sch ! i))"

definition Tuple_ToString :: "'d dbl_ops \<Rightarrow> schema \<Rightarrow> tuple \<Rightarrow> string sql" where
  "Tuple_ToString F sch t =
     bnd (fold (\<lambda>i r. bnd r (\<lambda>ss. bnd (GetValue F sch t i) (\<lambda>v.
         if IsNull v then Inr (ss @ [''<NULL>'']) else bnd (ToString F v) (\<lambda>s. Inr (ss @ [s])))))
       [0..<length (columns sch)] (Inr []))
     (\<lambda>ss. Inr (''('' @ join_comma ss @ '')'' @ '' Tuple size is '' @ show_int (tuple_size t)))"

subsection \<open>Record identifiers as 64-bit numbers\<close>

definition RID_Get :: "rid \<Rightarrow> u64" where
  "RID_Get r = push_bit 32 (word_of_int (rid_page r)) OR word_of_int (rid_slot r)"

definition RID_of :: "u64 \<Rightarrow> rid" where
  "RID_of w = \<lparr>rid_page = sint (ucast (drop_bit 32 w) :: u32), rid_slot = sint (ucast w :: u32)\<rparr>"

end
