(* ===== verification/Bplus_Page.thy ===== *)
theory Bplus_Page
  imports Tuple
begin

section \<open>Pages of the B+ tree (15445 page/b_plus_tree_*page.cpp)\<close>

text \<open>
  The header that all pages share, and the array of pairs behind it: the list of the pairs that fit into the page, of
  which the first \<open>size_\<close> are in use. An access outside the list is undefined. The comparator of the template is an
  argument; internal pages map keys to page numbers.
\<close>

definition slot_get :: "'a list \<Rightarrow> int \<Rightarrow> 'a sql" where
  "slot_get xs i = (if 0 \<le> i \<and> i < int (length xs) then Inr (xs ! nat i) else Inl Undef)"

definition slot_set :: "'a list \<Rightarrow> int \<Rightarrow> 'a \<Rightarrow> 'a list sql" where
  "slot_set xs i x = (if 0 \<le> i \<and> i < int (length xs) then Inr (xs[nat i := x]) else Inl Undef)"

datatype index_page_type = INVALID_INDEX_PAGE | LEAF_PAGE | INTERNAL_PAGE

record ('k, 'v) bnode =
  bn_type :: index_page_type
  bn_size :: int
  bn_max :: int
  bn_parent :: int
  bn_id :: int
  bn_next :: int
  bn_array :: "('k \<times> 'v) list"

definition IsLeafPage :: "('k, 'v) bnode \<Rightarrow> bool" where "IsLeafPage n \<longleftrightarrow> bn_type n = LEAF_PAGE"
definition IsRootPage :: "('k, 'v) bnode \<Rightarrow> bool" where "IsRootPage n \<longleftrightarrow> bn_parent n = INVALID_PAGE_ID"
definition GetMinSize :: "('k, 'v) bnode \<Rightarrow> int" where "GetMinSize n = bn_max n sdiv 2"
definition IncreaseSize :: "('k, 'v) bnode \<Rightarrow> int \<Rightarrow> ('k, 'v) bnode" where "IncreaseSize n a = n\<lparr>bn_size := bn_size n + a\<rparr>"

definition leaf_Init :: "('k, 'v) bnode \<Rightarrow> int \<Rightarrow> int \<Rightarrow> ('k, 'v) bnode" where
  "leaf_Init n page_id parent_id =
     n\<lparr>bn_type := LEAF_PAGE, bn_size := 0, bn_max := 4, bn_parent := parent_id, bn_id := page_id, bn_next := INVALID_PAGE_ID\<rparr>"

definition internal_Init :: "('k, 'v) bnode \<Rightarrow> int \<Rightarrow> int \<Rightarrow> ('k, 'v) bnode" where
  "internal_Init n page_id parent_id =
     n\<lparr>bn_type := INTERNAL_PAGE, bn_size := 0, bn_max := 4, bn_parent := parent_id, bn_id := page_id\<rparr>"

subsection \<open>Leaf pages\<close>

text \<open>The first position whose pair satisfies a condition, of \<open>k\<close> positions from \<open>i\<close> on; the position after them when
  there is none.\<close>

fun scan_array :: "('a \<Rightarrow> bool sql) \<Rightarrow> 'a list \<Rightarrow> int \<Rightarrow> nat \<Rightarrow> int sql" where
  "scan_array p xs i 0 = Inr i"
| "scan_array p xs i (Suc k) = bnd (slot_get xs i) (\<lambda>x. bnd (p x) (\<lambda>b. if b then Inr i else scan_array p xs (i + 1) k))"

text \<open>\<open>array[j+1] = array[j]\<close> for \<open>k\<close> positions downwards from \<open>j\<close>, and \<open>array[j] = array[j+1]\<close> upwards.\<close>

fun shift_up :: "'a list \<Rightarrow> int \<Rightarrow> nat \<Rightarrow> 'a list sql" where
  "shift_up xs j 0 = Inr xs"
| "shift_up xs j (Suc k) = bnd (slot_get xs j) (\<lambda>x. bnd (slot_set xs (j + 1) x) (\<lambda>ys. shift_up ys (j - 1) k))"

fun shift_down :: "'a list \<Rightarrow> int \<Rightarrow> nat \<Rightarrow> 'a list sql" where
  "shift_down xs j 0 = Inr xs"
| "shift_down xs j (Suc k) = bnd (slot_get xs (j + 1)) (\<lambda>x. bnd (slot_set xs j x) (\<lambda>ys. shift_down ys (j + 1) k))"

definition leaf_Insert :: "('k \<Rightarrow> 'k \<Rightarrow> int sql) \<Rightarrow> ('k, 'v) bnode \<Rightarrow> 'k \<Rightarrow> 'v \<Rightarrow> (('k, 'v) bnode \<times> int) sql" where
  "leaf_Insert comparator n key val =
     bnd (scan_array (\<lambda>e. bnd (comparator (fst e) key) (\<lambda>c. Inr (c > 0))) (bn_array n) 0 (nat (bn_size n))) (\<lambda>i.
     bnd (if i < bn_size n then shift_up (bn_array n) (bn_size n - 1) (nat (bn_size n - i)) else Inr (bn_array n)) (\<lambda>xs.
     bnd (slot_set xs i (key, val)) (\<lambda>ys. Inr (n\<lparr>bn_array := ys, bn_size := bn_size n + 1\<rparr>, bn_size n + 1))))"

definition leaf_Lookup :: "('k \<Rightarrow> 'k \<Rightarrow> int sql) \<Rightarrow> ('k, 'v) bnode \<Rightarrow> 'k \<Rightarrow> 'v option sql" where
  "leaf_Lookup comparator n key =
     bnd (scan_array (\<lambda>e. bnd (comparator (fst e) key) (\<lambda>c. Inr (c = 0))) (bn_array n) 0 (nat (bn_size n))) (\<lambda>i.
       if i < bn_size n then bnd (slot_get (bn_array n) i) (\<lambda>e. Inr (Some (snd e))) else Inr None)"

definition RemoveAndDeleteRecord :: "('k \<Rightarrow> 'k \<Rightarrow> int sql) \<Rightarrow> ('k, 'v) bnode \<Rightarrow> 'k \<Rightarrow> (('k, 'v) bnode \<times> int) sql" where
  "RemoveAndDeleteRecord comparator n key =
     bnd (scan_array (\<lambda>e. bnd (comparator (fst e) key) (\<lambda>c. Inr (c = 0))) (bn_array n) 0 (nat (bn_size n))) (\<lambda>i.
       if i < bn_size n
       then bnd (shift_down (bn_array n) i (nat (bn_size n - 1 - i))) (\<lambda>xs.
         Inr (n\<lparr>bn_array := xs, bn_size := bn_size n - 1\<rparr>, bn_size n - 1))
       else Inr (n, bn_size n))"

text \<open>The loop of \<open>MoveHalfTo\<close> declares its own \<open>j\<close>, so the \<open>j\<close> that is added to the size of the recipient is 0.\<close>

fun copy_tail :: "'a list \<Rightarrow> 'a list \<Rightarrow> int \<Rightarrow> int \<Rightarrow> nat \<Rightarrow> 'a list sql" where
  "copy_tail src dst i p 0 = Inr dst"
| "copy_tail src dst i p (Suc k) = bnd (slot_get src i) (\<lambda>x. bnd (slot_set dst p x) (\<lambda>d. copy_tail src d (i + 1) (p + 1) k))"

definition MoveHalfTo :: "('k, 'v) bnode \<Rightarrow> ('k, 'v) bnode \<Rightarrow> (('k, 'v) bnode \<times> ('k, 'v) bnode) sql" where
  "MoveHalfTo n recipient =
     (let half = bn_size n sdiv 2; j = 0 in
      bnd (copy_tail (bn_array n) (bn_array recipient) half (bn_size recipient) (nat (bn_size n - half))) (\<lambda>xs.
        Inr (n\<lparr>bn_size := half\<rparr>, recipient\<lparr>bn_array := xs, bn_size := bn_size recipient + j\<rparr>)))"

definition KeyAt :: "('k, 'v) bnode \<Rightarrow> int \<Rightarrow> 'k sql" where
  "KeyAt n i = bnd (slot_get (bn_array n) i) (\<lambda>e. Inr (fst e))"

definition GetItem :: "('k, 'v) bnode \<Rightarrow> int \<Rightarrow> ('k \<times> 'v) sql" where
  "GetItem n i = slot_get (bn_array n) i"

definition KeyIndex :: "('k, 'v) bnode \<Rightarrow> 'k \<Rightarrow> int" where
  "KeyIndex n key = 0"

subsection \<open>Internal pages\<close>

definition SetKeyAt :: "('k, 'v) bnode \<Rightarrow> int \<Rightarrow> 'k \<Rightarrow> ('k, 'v) bnode sql" where
  "SetKeyAt n i key = bnd (slot_get (bn_array n) i) (\<lambda>e. bnd (slot_set (bn_array n) i (key, snd e)) (\<lambda>xs.
     Inr (n\<lparr>bn_array := xs\<rparr>)))"

definition ValueAt :: "('k, 'v) bnode \<Rightarrow> int \<Rightarrow> 'v sql" where
  "ValueAt n i = bnd (slot_get (bn_array n) i) (\<lambda>e. Inr (snd e))"

definition ValueIndex :: "('k, 'v) bnode \<Rightarrow> 'v \<Rightarrow> int sql" where
  "ValueIndex n v = bnd (scan_array (\<lambda>e. Inr (snd e = v)) (bn_array n) 0 (nat (bn_size n))) (\<lambda>i.
     Inr (if i < bn_size n then i else -1))"

fun lookup_loop :: "('k \<Rightarrow> 'k \<Rightarrow> int sql) \<Rightarrow> ('k, int) bnode \<Rightarrow> 'k \<Rightarrow> int \<Rightarrow> nat \<Rightarrow> int sql" where
  "lookup_loop comparator n key i 0 = ValueAt n (bn_size n - 1)"
| "lookup_loop comparator n key i (Suc k) =
     bnd (if i = 0 then bnd (KeyAt n 1) (\<lambda>k1. bnd (comparator k1 key) (\<lambda>c. Inr (c < 0))) else Inr False) (\<lambda>b.
       if b then ValueAt n 0
       else bnd (KeyAt n i) (\<lambda>ki. bnd (comparator ki key) (\<lambda>c.
         if c \<ge> 0
         then bnd (KeyAt n (i + 1)) (\<lambda>kj. bnd (comparator kj key) (\<lambda>d.
           if d < 0 then ValueAt n i else lookup_loop comparator n key (i + 1) k))
         else lookup_loop comparator n key (i + 1) k)))"

definition internal_Lookup :: "('k \<Rightarrow> 'k \<Rightarrow> int sql) \<Rightarrow> ('k, int) bnode \<Rightarrow> 'k \<Rightarrow> int sql" where
  "internal_Lookup comparator n key = lookup_loop comparator n key 0 (nat (bn_size n - 2))"

definition PopulateNewRoot :: "('k, int) bnode \<Rightarrow> int \<Rightarrow> 'k \<Rightarrow> int \<Rightarrow> ('k, int) bnode sql" where
  "PopulateNewRoot n old_value new_key new_value =
     bnd (slot_set (bn_array n) 0 (new_key, old_value)) (\<lambda>xs. bnd (slot_set xs 1 (new_key, new_value)) (\<lambda>ys.
       Inr (n\<lparr>bn_array := ys\<rparr>)))"

fun insert_after_loop :: "int \<Rightarrow> ('k \<times> int) \<Rightarrow> int \<Rightarrow> ('k \<times> int) list \<Rightarrow> int \<Rightarrow> nat \<Rightarrow> ('k \<times> int) list sql" where
  "insert_after_loop old_value new sz xs i 0 = Inr xs"
| "insert_after_loop old_value new sz xs i (Suc k) =
     bnd (slot_get xs i) (\<lambda>e.
       bnd (if snd e = old_value then bnd (shift_up xs sz (nat (sz - i))) (\<lambda>ys. slot_set ys (i + 1) new) else Inr xs)
         (\<lambda>ys. insert_after_loop old_value new sz ys (i + 1) k))"

definition InsertNodeAfter :: "('k, int) bnode \<Rightarrow> int \<Rightarrow> 'k \<Rightarrow> int \<Rightarrow> (('k, int) bnode \<times> int) sql" where
  "InsertNodeAfter n old_value new_key new_value =
     bnd (insert_after_loop old_value (new_key, new_value) (bn_size n) (bn_array n) 0 (nat (bn_size n))) (\<lambda>xs.
       Inr (n\<lparr>bn_array := xs, bn_size := bn_size n + 1\<rparr>, bn_size n + 1))"

text \<open>\<open>Remove\<close> copies the same pair \<open>size_ - 1 - index\<close> times.\<close>

fun remove_loop :: "'a list \<Rightarrow> int \<Rightarrow> nat \<Rightarrow> 'a list sql" where
  "remove_loop xs index 0 = Inr xs"
| "remove_loop xs index (Suc k) = bnd (slot_get xs (index + 1)) (\<lambda>x. bnd (slot_set xs index x) (\<lambda>ys. remove_loop ys index k))"

definition internal_Remove :: "('k, int) bnode \<Rightarrow> int \<Rightarrow> ('k, int) bnode sql" where
  "internal_Remove n index = bnd (remove_loop (bn_array n) index (nat (bn_size n - 1 - index))) (\<lambda>xs.
     Inr (n\<lparr>bn_array := xs, bn_size := bn_size n - 1\<rparr>))"

definition RemoveAndReturnOnlyChild :: "('k, int) bnode \<Rightarrow> (('k, int) bnode \<times> int) sql" where
  "RemoveAndReturnOnlyChild n =
     (if bn_size n = 1 then bnd (ValueAt n 0) (\<lambda>v. Inr (n\<lparr>bn_size := 0\<rparr>, v)) else Inr (n, INVALID_PAGE_ID))"

definition CopyFirstFrom :: "('k, int) bnode \<Rightarrow> 'k \<times> int \<Rightarrow> ('k, int) bnode sql" where
  "CopyFirstFrom n pair = bnd (slot_set (bn_array n) 0 pair) (\<lambda>xs. Inr (n\<lparr>bn_array := xs\<rparr>))"

subsection \<open>Keys (include/index/generic_key.h)\<close>

text \<open>The array \<open>data\<close> of a \<open>GenericKey\<close> with room for \<open>KeySize\<close> bytes. Writing beyond it is an error; \<open>key_ToValue\<close> does not
  know \<open>KeySize\<close> and reads the bytes of \<open>data\<close> without that check, as if the array had room for every column of the
  key schema.\<close>

definition SetFromKey :: "int \<Rightarrow> bytes \<Rightarrow> tuple \<Rightarrow> bytes sql" where
  "SetFromKey KeySize data t =
     tput KeySize (memset data 0 0 (nat KeySize)) 0 (read_mem (tuple_data t) 0 (nat (tuple_size t)))"

definition SetFromInteger :: "int \<Rightarrow> bytes \<Rightarrow> int \<Rightarrow> bytes sql" where
  "SetFromInteger KeySize data key =
     tput KeySize (memset data 0 0 (nat KeySize)) 0 (le_encode 8 (nat (take_bit 64 key)))"

definition key_ToValue :: "'d dbl_ops \<Rightarrow> bytes \<Rightarrow> schema \<Rightarrow> nat \<Rightarrow> 'd sql_value sql" where
  "key_ToValue F data sch column_id =
     (let c = columns sch ! column_id;
          data_ptr = (if is_inlined c then column_offset c else sint (load32 data (column_offset c)))
      in DeserializeFrom F data data_ptr (column_type c))"

fun compare_columns :: "'d dbl_ops \<Rightarrow> schema \<Rightarrow> bytes \<Rightarrow> bytes \<Rightarrow> nat list \<Rightarrow> int sql" where
  "compare_columns F sch lhs rhs [] = Inr 0"
| "compare_columns F sch lhs rhs (i # is) =
     bnd (key_ToValue F lhs sch i) (\<lambda>lhs_value. bnd (key_ToValue F rhs sch i) (\<lambda>rhs_value.
     bnd (CompareLessThan F lhs_value rhs_value) (\<lambda>lt.
       if lt = CMP_TRUE then Inr (- 1)
       else bnd (CompareGreaterThan F lhs_value rhs_value) (\<lambda>gt.
         if gt = CMP_TRUE then Inr 1 else compare_columns F sch lhs rhs is))))"

definition GenericComparator :: "'d dbl_ops \<Rightarrow> schema \<Rightarrow> bytes \<Rightarrow> bytes \<Rightarrow> int sql" where
  "GenericComparator F sch lhs rhs = compare_columns F sch lhs rhs [0..<length (columns sch)]"

end
