(* ===== verification/Ext_Hash.thy ===== *)
theory Ext_Hash
  imports Prelude "HOL-Library.Monad_Syntax"
begin

section \<open>The extendible hash table (15445 hash/extendible_hash.cpp)\<close>

text \<open>
  A directory of shared pointers to pages. Pages live in a store, a pointer is an index into it, so that
  directory entries that share a page see each other's changes, as with \<open>std::shared_ptr\<close>. The function
  \<open>hash\<close> stands for \<open>std::hash\<close>. Local depths are kept below \<open>INT_MAX\<close>, and \<open>1 << depth\<close> is undefined
  from 31 on.
\<close>

subsection \<open>Pages\<close>

record ('k, 'v) hash_page =
  page_cap :: nat
  local_depth :: nat
  elements :: "('k \<times> 'v) list"

definition new_hash_page :: "nat \<Rightarrow> ('k, 'v) hash_page" where
  "new_hash_page sz = \<lparr>page_cap = sz, local_depth = 0, elements = []\<rparr>"

definition IsFull :: "('k, 'v) hash_page \<Rightarrow> bool" where
  "IsFull p \<longleftrightarrow> length (elements p) = page_cap p"

fun find_element :: "('k \<times> 'v) list \<Rightarrow> 'k \<Rightarrow> 'v option" where
  "find_element [] key = None"
| "find_element (t # ts) key = (if fst t = key then Some (snd t) else find_element ts key)"

fun remove_element :: "('k \<times> 'v) list \<Rightarrow> 'k \<Rightarrow> ('k \<times> 'v) list \<times> bool" where
  "remove_element [] key = ([], False)"
| "remove_element (t # ts) key =
     (if fst t = key then (ts, True) else let (us, b) = remove_element ts key in (t # us, b))"

definition page_insert :: "('k, 'v) hash_page \<Rightarrow> 'k \<Rightarrow> 'v \<Rightarrow> ('k, 'v) hash_page" where
  "page_insert p key val = p\<lparr>elements := elements p @ [(key, val)]\<rparr>"

subsection \<open>The table\<close>

record ('k, 'v) ext_hash =
  global_depth :: nat
  bucket_size :: nat
  buckets :: "nat list"
  store_pages :: "('k, 'v) hash_page list"

definition new_ext_hash :: "nat \<Rightarrow> ('k, 'v) ext_hash" where
  "new_ext_hash sz =
     \<lparr>global_depth = 0, bucket_size = sz, buckets = [0], store_pages = [new_hash_page sz]\<rparr>"

definition page_at :: "('k, 'v) ext_hash \<Rightarrow> nat \<Rightarrow> ('k, 'v) hash_page" where
  "page_at t b = store_pages t ! (buckets t ! b)"

definition bucket_id :: "('k \<Rightarrow> nat) \<Rightarrow> ('k, 'v) ext_hash \<Rightarrow> 'k \<Rightarrow> nat" where
  "bucket_id hash t key = hash key AND (2 ^ global_depth t - 1)"

definition ext_find :: "('k \<Rightarrow> nat) \<Rightarrow> ('k, 'v) ext_hash \<Rightarrow> 'k \<Rightarrow> 'v option" where
  "ext_find hash t key = find_element (elements (page_at t (bucket_id hash t key))) key"

definition ext_remove :: "('k \<Rightarrow> nat) \<Rightarrow> ('k, 'v) ext_hash \<Rightarrow> 'k \<Rightarrow> ('k, 'v) ext_hash \<times> bool" where
  "ext_remove hash t key =
     (let ptr = buckets t ! bucket_id hash t key; p = store_pages t ! ptr;
          (es, found) = remove_element (elements p) key
      in (t\<lparr>store_pages := (store_pages t)[ptr := p\<lparr>elements := es\<rparr>]\<rparr>, found))"

text \<open>Doubling of the directory, and the split of a page: the new pages \<open>temp\<close> and \<open>another\<close> are the
  next two of the store.\<close>

definition double_directory :: "('k, 'v) ext_hash \<Rightarrow> ('k, 'v) ext_hash" where
  "double_directory t = t\<lparr>global_depth := Suc (global_depth t), buckets := buckets t @ buckets t\<rparr>"

definition grow_directory :: "('k, 'v) ext_hash \<Rightarrow> nat \<Rightarrow> ('k, 'v) ext_hash" where
  "grow_directory t b = (if IsFull (page_at t b) \<and> local_depth (page_at t b) = global_depth t then double_directory t else t)"

definition insert_at :: "('k, 'v) ext_hash \<Rightarrow> nat \<Rightarrow> 'k \<times> 'v \<Rightarrow> ('k, 'v) ext_hash" where
  "insert_at t ptr e = t\<lparr>store_pages := (store_pages t)[ptr := page_insert (store_pages t ! ptr) (fst e) (snd e)]\<rparr>"

definition set_depth :: "nat \<Rightarrow> nat \<Rightarrow> ('k, 'v) ext_hash \<Rightarrow> ('k, 'v) ext_hash" where
  "set_depth ptr d t = t\<lparr>store_pages := (store_pages t)[ptr := (store_pages t ! ptr)\<lparr>local_depth := d\<rparr>]\<rparr>"

fun distribute :: "('k \<Rightarrow> nat) \<Rightarrow> nat \<Rightarrow> nat \<Rightarrow> ('k \<times> 'v) list \<Rightarrow> ('k, 'v) ext_hash \<Rightarrow> ('k, 'v) ext_hash" where
  "distribute hash b temp [] t = t"
| "distribute hash b temp (e # es) t =
     (let newId = bucket_id hash t (fst e) in
      distribute hash b temp es (insert_at t (if newId = b then temp else buckets t ! newId) e))"

definition split_page :: "('k \<Rightarrow> nat) \<Rightarrow> ('k, 'v) ext_hash \<Rightarrow> nat \<Rightarrow> ('k, 'v) ext_hash" where
  "split_page hash t bucketId =
     (let es = elements (page_at t bucketId);
          temp = length (store_pages t);
          b = bucketId AND (2 ^ local_depth (page_at t bucketId) - 1);
          another = 2 ^ (global_depth t - 1) OR b;
          t1 = t\<lparr>store_pages := store_pages t @ [new_hash_page (bucket_size t), new_hash_page (bucket_size t)],
                 buckets := (buckets t)[another := Suc temp]\<rparr>;
          t2 = distribute hash b temp es t1;
          d = local_depth (page_at t2 b) + 1;
          t3 = set_depth (Suc temp) d (set_depth temp d t2)
      in t3\<lparr>buckets := (buckets t3)[b := temp]\<rparr>)"

text \<open>The loop of \<open>Insert\<close>. \<open>None\<close> means that it never ends.\<close>

partial_function (option) insert_loop ::
  "('k \<Rightarrow> nat) \<Rightarrow> 'k \<Rightarrow> 'v \<Rightarrow> ('k, 'v) ext_hash \<Rightarrow> ('k, 'v) ext_hash result option" where
  [code]: "insert_loop hash key val t =
     (if global_depth t \<ge> 31 then Some (Inl Undefined)
      else let b = bucket_id hash t key; t1 = grow_directory t b in
           if IsFull (page_at t1 b) \<and> local_depth (page_at t1 b) < global_depth t1
              then let low = b AND (2 ^ local_depth (page_at t1 b) - 1) in
                if global_depth t1 \<ge> 31 \<or> int (local_depth (page_at t1 low)) + 1 \<ge> 2 ^ 31 then Some (Inl Undefined)
                else insert_loop hash key val (split_page hash t1 b)
              else Some (Inr (insert_at t1 (buckets t1 ! b) (key, val))))"

definition ext_insert :: "('k \<Rightarrow> nat) \<Rightarrow> ('k, 'v) ext_hash \<Rightarrow> 'k \<Rightarrow> 'v \<Rightarrow> ('k, 'v) ext_hash result" where
  "ext_insert hash t key val = and_then (returns (insert_loop hash key val t)) id"

end
