(* ===== verification/Db_Spec.thy ===== *)
theory Db_Spec
  imports Prelude
begin

section \<open>The abstract classes of the storage layer (hash_table.h, replacer.h)\<close>

text \<open>
  \<open>HashTable\<close> and \<open>Replacer\<close> as records of their virtual methods, and the contracts the buffer pool relies
  on as locales: a table that holds up to \<open>cap\<close> keys, and a replacer that hands out the values inserted
  into it, oldest first.
\<close>

record ('t, 'k, 'v) hash_table =
  ht_find :: "'t \<Rightarrow> 'k \<Rightarrow> 'v option"
  ht_remove :: "'t \<Rightarrow> 'k \<Rightarrow> 't \<times> bool"
  ht_insert :: "'t \<Rightarrow> 'k \<Rightarrow> 'v \<Rightarrow> 't result"

record ('r, 'a) replacer_class =
  rp_insert :: "'r \<Rightarrow> 'a \<Rightarrow> 'r result"
  rp_victim :: "'r \<Rightarrow> 'r \<times> 'a option"
  rp_erase :: "'r \<Rightarrow> 'a \<Rightarrow> ('r \<times> bool) result"
  rp_size :: "'r \<Rightarrow> nat"

locale bounded_map =
  fixes H :: "('t, 'k, 'v) hash_table" and tok :: "'t \<Rightarrow> bool" and cap :: nat
  assumes finite_dom: "tok t \<Longrightarrow> finite (dom (ht_find H t))"
    and insert_ok: "tok t \<Longrightarrow> card (dom (ht_find H t)) < cap \<Longrightarrow> ht_find H t k = None \<Longrightarrow>
      \<exists>t'. ht_insert H t k v = Inr t' \<and> tok t' \<and> ht_find H t' = (ht_find H t)(k \<mapsto> v)"
    and remove_ok: "tok t \<Longrightarrow> tok (fst (ht_remove H t k)) \<and>
      ht_find H (fst (ht_remove H t k)) = (ht_find H t)(k := None) \<and> snd (ht_remove H t k) = (ht_find H t k \<noteq> None)"
begin

lemma insert_cases:
  assumes "tok t" and "card (dom (ht_find H t)) < cap" and "ht_find H t k = None"
  obtains t' where "ht_insert H t k v = Inr t'" "tok t'" "ht_find H t' = (ht_find H t)(k \<mapsto> v)"
  using insert_ok [OF assms] by blast

lemma remove_cases:
  assumes "tok t"
  obtains t' where "ht_remove H t k = (t', ht_find H t k \<noteq> None)" "tok t'" "ht_find H t' = (ht_find H t)(k := None)"
  using remove_ok [OF assms, of k] by (intro that [of "fst (ht_remove H t k)"]) (simp_all add: prod_eq_iff)

text \<open>Replacing one key by another needs no room.\<close>

lemma card_remove: "tok t \<Longrightarrow> ht_find H t k \<noteq> None \<Longrightarrow> card (dom (ht_find H t)) \<le> cap \<Longrightarrow>
  card (dom ((ht_find H t)(k := None))) < cap"
  using card_Diff1_less [OF finite_dom, of t k] by (simp add: domIff)

end

text \<open>The values of a replacer, oldest first, none twice.\<close>

locale replacer_spec =
  fixes R :: "('r, 'a) replacer_class" and rel :: "'r \<Rightarrow> 'a list \<Rightarrow> bool" and room :: nat
  assumes rel_distinct: "rel r xs \<Longrightarrow> distinct xs"
    and insert_back: "rel r xs \<Longrightarrow> length (remove1 x xs) < room \<Longrightarrow>
      \<exists>r'. rp_insert R r x = Inr r' \<and> rel r' (remove1 x xs @ [x])"
    and victim_front: "rel r xs \<Longrightarrow> (case xs of [] \<Rightarrow> rp_victim R r = (r, None)
      | x # ys \<Rightarrow> \<exists>r'. rp_victim R r = (r', Some x) \<and> rel r' ys)"
    and erase_any: "rel r xs \<Longrightarrow> \<exists>r'. rp_erase R r x = Inr (r', x \<in> set xs) \<and> rel r' (remove1 x xs)"
    and size_length: "rel r xs \<Longrightarrow> rp_size R r = length xs"
begin

lemma victim_Nil: "rel r [] \<Longrightarrow> rp_victim R r = (r, None)"
  using victim_front [of r "[]"] by simp

lemma victim_Cons:
  assumes "rel r (x # xs)"
  obtains r' where "rp_victim R r = (r', Some x)" "rel r' xs"
  using victim_front [OF assms] by auto

lemma insert_new:
  assumes "rel r xs" and "x \<notin> set xs" and "length xs < room"
  obtains r' where "rp_insert R r x = Inr r'" "rel r' (xs @ [x])"
  using insert_back [OF assms(1), of x] assms(2,3) by (auto simp: remove1_idem)

end

end
