(* ===== verification/Ext_Hash_Correct.thy ===== *)
theory Ext_Hash_Correct
  imports Ext_Hash Db_Spec
begin

section \<open>Correctness of the extendible hash table\<close>

text \<open>
  The well-formedness of a table, the effect of doubling and splitting, and what \<open>Insert\<close> does:
  it is correct when the page that overflows is shared by at most two directory entries, and it
  never returns when it has to split a page that more entries share, in the way stated below.
\<close>

subsection \<open>Bits of the hash value\<close>

lemma low_bits: "(h :: nat) AND (2 ^ n - 1) = take_bit n h"
  by (simp add: take_bit_eq_mask mask_eq_exp_minus_1)

lemma or_high_bit: "b < 2 ^ n \<Longrightarrow> 2 ^ n OR b = 2 ^ n + (b :: nat)"
proof -
  assume b: "b < 2 ^ n"
  have "\<not> bit (2 ^ n :: nat) m \<or> \<not> bit b m" for m
    using b bit_take_bit_iff [of n b m] take_bit_nat_eq_self [of b n] by (auto simp: bit_exp_iff)
  then show ?thesis using disjunctive_add [of "2 ^ n" b] by simp
qed

lemma bucket_id_take_bit [simp]: "bucket_id hash t k = take_bit (global_depth t) (hash k)"
  unfolding bucket_id_def low_bits ..

lemma take_bit_less [simp]: "take_bit n (k :: nat) < 2 ^ n"
  by (simp add: take_bit_eq_mod)

lemma take_bit_less_mono: "m \<le> n \<Longrightarrow> take_bit m (k :: nat) < 2 ^ n"
  using take_bit_less [of m k] power_increasing [of m n "2 :: nat"] by linarith

lemma take_bit_Suc_cases:
  "take_bit (Suc n) (h :: nat) = take_bit n h \<or> take_bit (Suc n) h = 2 ^ n + take_bit n h"
  using take_bit_Suc_from_most [of n h] by (cases "bit h n") auto

lemma take_bit_same:
  "m \<le> n \<Longrightarrow> take_bit n (a :: nat) = take_bit n b \<Longrightarrow> take_bit m a = take_bit m b"
  by (metis min.absorb1 take_bit_take_bit)

subsection \<open>Elements of a page\<close>

lemma find_element_append:
  "find_element (xs @ ys) k = (case find_element xs k of None \<Rightarrow> find_element ys k | Some v \<Rightarrow> Some v)"
  by (induction xs) auto

lemma find_element_filter: "(\<And>v. (k, v) \<in> set xs \<Longrightarrow> P (k, v)) \<Longrightarrow> find_element (filter P xs) k = find_element xs k"
  by (induction xs) auto

lemma find_element_None: "find_element xs k = None \<longleftrightarrow> k \<notin> fst ` set xs"
  by (induction xs) auto

lemma remove_element_set: "set (fst (remove_element xs k)) \<subseteq> set xs"
  by (induction xs k rule: remove_element.induct) (auto split: prod.splits)

lemma remove_element_length: "length (fst (remove_element xs k)) \<le> length xs"
  by (induction xs k rule: remove_element.induct) (auto split: prod.splits)

lemma remove_element_found: "snd (remove_element xs k) \<longleftrightarrow> find_element xs k \<noteq> None"
  by (induction xs k rule: remove_element.induct) (auto split: prod.splits)

lemma find_remove_element:
  "distinct (map fst xs) \<Longrightarrow> find_element (fst (remove_element xs k)) k' = (if k' = k then None else find_element xs k')"
  by (induction xs k rule: remove_element.induct) (auto simp: case_prod_beta Let_def find_element_None, force)

lemma distinct_remove_element:
  "distinct (map fst xs) \<Longrightarrow> distinct (map fst (fst (remove_element xs k)))"
  by (induction xs k rule: remove_element.induct)
    (auto simp: case_prod_beta Let_def dest: subsetD [OF remove_element_set])

subsection \<open>Splitting a page\<close>

lemma distribute_two:
  assumes "\<And>e. e \<in> set es \<Longrightarrow> bucket_id hash t (fst e) = b \<or> bucket_id hash t (fst e) = another"
    and "another \<noteq> b" and "buckets t ! another = new" and "temp \<noteq> new"
    and "temp < length (store_pages t)" and "new < length (store_pages t)"
  shows "distribute hash b temp es t = t\<lparr>store_pages := (store_pages t)
    [temp := (store_pages t ! temp)\<lparr>elements := elements (store_pages t ! temp) @ filter (\<lambda>e. bucket_id hash t (fst e) = b) es\<rparr>,
     new := (store_pages t ! new)\<lparr>elements := elements (store_pages t ! new) @ filter (\<lambda>e. bucket_id hash t (fst e) \<noteq> b) es\<rparr>]\<rparr>"
  using assms
proof (induction es arbitrary: t)
  case Nil
  then show ?case by (simp add: list_update_id)
next
  case (Cons e es)
  let ?ptr = "if bucket_id hash t (fst e) = b then temp else new"
  let ?t = "insert_at t ?ptr e"
  have e: "bucket_id hash t (fst e) = b \<or> bucket_id hash t (fst e) = another" using Cons.prems(1) by simp
  then have "distribute hash b temp (e # es) t = distribute hash b temp es ?t"
    using Cons.prems(3) by (auto simp: Let_def)
  moreover have "distribute hash b temp es ?t = ?t\<lparr>store_pages := (store_pages ?t)
    [temp := (store_pages ?t ! temp)\<lparr>elements := elements (store_pages ?t ! temp) @ filter (\<lambda>e. bucket_id hash ?t (fst e) = b) es\<rparr>,
     new := (store_pages ?t ! new)\<lparr>elements := elements (store_pages ?t ! new) @ filter (\<lambda>e. bucket_id hash ?t (fst e) \<noteq> b) es\<rparr>]\<rparr>"
    using Cons.prems by (intro Cons.IH) (auto simp: insert_at_def bucket_id_def)
  ultimately have step: "distribute hash b temp (e # es) t = ?t\<lparr>store_pages := (store_pages ?t)
    [temp := (store_pages ?t ! temp)\<lparr>elements := elements (store_pages ?t ! temp) @ filter (\<lambda>e. bucket_id hash ?t (fst e) = b) es\<rparr>,
     new := (store_pages ?t ! new)\<lparr>elements := elements (store_pages ?t ! new) @ filter (\<lambda>e. bucket_id hash ?t (fst e) \<noteq> b) es\<rparr>]\<rparr>"
    by simp
  show ?case
  proof (cases "bucket_id hash t (fst e) = b")
    case True
    then show ?thesis unfolding step using Cons.prems(4-6)
      by (simp add: insert_at_def page_insert_def)
  next
    case False
    then show ?thesis unfolding step using Cons.prems(4-6)
      by (simp add: insert_at_def page_insert_def list_update_swap [of new temp])
  qed
qed

lemma split_page_two:
  assumes g: "0 < global_depth t" and d: "local_depth (page_at t bid) < global_depth t"
    and len: "length (buckets t) = 2 ^ global_depth t"
    and b: "b = take_bit (local_depth (page_at t bid)) bid" and an: "another = 2 ^ (global_depth t - 1) + b"
    and ptr: "buckets t ! b < length (store_pages t)"
    and es: "\<And>e. e \<in> set (elements (page_at t bid)) \<Longrightarrow> take_bit (global_depth t) (hash (fst e)) = b \<or> take_bit (global_depth t) (hash (fst e)) = another"
  shows "split_page hash t bid =
    t\<lparr>store_pages := store_pages t @
        [\<lparr>page_cap = bucket_size t, local_depth = Suc (local_depth (page_at t b)),
          elements = filter (\<lambda>e. take_bit (global_depth t) (hash (fst e)) = b) (elements (page_at t bid))\<rparr>,
         \<lparr>page_cap = bucket_size t, local_depth = Suc (local_depth (page_at t b)),
          elements = filter (\<lambda>e. take_bit (global_depth t) (hash (fst e)) \<noteq> b) (elements (page_at t bid))\<rparr>],
      buckets := (buckets t)[another := Suc (length (store_pages t)), b := length (store_pages t)]\<rparr>"
proof -
  let ?n = "length (store_pages t)"
  have b2: "b < 2 ^ (global_depth t - 1)" using d unfolding b by (intro take_bit_less_mono) simp
  have "(2 :: nat) ^ global_depth t = 2 * 2 ^ (global_depth t - 1)" using g by (cases "global_depth t") auto
  then have a: "another < length (buckets t)" "b < length (buckets t)" "another \<noteq> b" using b2 an len by auto
  have an': "2 ^ (global_depth t - 1) OR b = another" using b2 an by (simp add: or_high_bit)
  let ?t1 = "t\<lparr>store_pages := store_pages t @ [new_hash_page (bucket_size t), new_hash_page (bucket_size t)],
               buckets := (buckets t)[another := Suc ?n]\<rparr>"
  have dis: "distribute hash b ?n (elements (page_at t bid)) ?t1 = ?t1\<lparr>store_pages := (store_pages ?t1)
    [?n := (store_pages ?t1 ! ?n)\<lparr>elements := elements (store_pages ?t1 ! ?n) @ filter (\<lambda>e. bucket_id hash ?t1 (fst e) = b) (elements (page_at t bid))\<rparr>,
     Suc ?n := (store_pages ?t1 ! Suc ?n)\<lparr>elements := elements (store_pages ?t1 ! Suc ?n) @ filter (\<lambda>e. bucket_id hash ?t1 (fst e) \<noteq> b) (elements (page_at t bid))\<rparr>]\<rparr>"
    by (rule distribute_two [where another = another]) (use a es in auto)
  have nb: "(buckets t)[another := Suc ?n] ! b = buckets t ! b" using a by simp
  show ?thesis
    unfolding split_page_def Let_def low_bits b [symmetric] an' dis
    using a ptr by (simp add: set_depth_def page_at_def new_hash_page_def nth_append list_update_append nb)
qed

subsection \<open>Well-formed tables\<close>

definition dir_entry_ok :: "('k \<Rightarrow> nat) \<Rightarrow> ('k, 'v) ext_hash \<Rightarrow> nat \<Rightarrow> bool" where
  "dir_entry_ok hash t i \<longleftrightarrow>
     (let p = page_at t i; d = local_depth p in
      buckets t ! i < length (store_pages t) \<and> page_cap p = bucket_size t \<and> d \<le> global_depth t
      \<and> length (elements p) \<le> bucket_size t
      \<and> (\<forall>e \<in> set (elements p). take_bit d (hash (fst e)) = take_bit d i)
      \<and> (\<forall>j < 2 ^ global_depth t. buckets t ! j = buckets t ! i \<longleftrightarrow> take_bit d j = take_bit d i))"

definition ext_ok :: "('k \<Rightarrow> nat) \<Rightarrow> ('k, 'v) ext_hash \<Rightarrow> bool" where
  "ext_ok hash t \<longleftrightarrow> length (buckets t) = 2 ^ global_depth t \<and> 0 < bucket_size t
     \<and> (\<forall>i < 2 ^ global_depth t. dir_entry_ok hash t i)"

lemma ext_okD:
  assumes "ext_ok hash t" and "i < 2 ^ global_depth t"
  shows "buckets t ! i < length (store_pages t)" "page_cap (page_at t i) = bucket_size t"
    "local_depth (page_at t i) \<le> global_depth t" "length (elements (page_at t i)) \<le> bucket_size t"
    "\<And>e. e \<in> set (elements (page_at t i)) \<Longrightarrow>
       take_bit (local_depth (page_at t i)) (hash (fst e)) = take_bit (local_depth (page_at t i)) i"
    "\<And>j. j < 2 ^ global_depth t \<Longrightarrow>
       buckets t ! j = buckets t ! i \<longleftrightarrow> take_bit (local_depth (page_at t i)) j = take_bit (local_depth (page_at t i)) i"
  using assms by (auto simp: ext_ok_def dir_entry_ok_def Let_def)

lemma new_ext_hash_ok: "0 < sz \<Longrightarrow> ext_ok hash (new_ext_hash sz) \<and> ext_find hash (new_ext_hash sz) k = None"
  by (simp add: ext_ok_def dir_entry_ok_def new_ext_hash_def page_at_def new_hash_page_def ext_find_def)

lemma double_page_at:
  assumes "length (buckets t) = 2 ^ global_depth t" and "i < 2 ^ Suc (global_depth t)"
  shows "buckets (double_directory t) ! i = buckets t ! take_bit (global_depth t) i"
    and "page_at (double_directory t) i = page_at t (take_bit (global_depth t) i)"
proof -
  have "take_bit (global_depth t) i = (if i < 2 ^ global_depth t then i else i - 2 ^ global_depth t)"
    using assms(2) by (auto simp: take_bit_eq_mod mod_if)
  with assms show "buckets (double_directory t) ! i = buckets t ! take_bit (global_depth t) i"
    by (simp add: double_directory_def nth_append)
  then show "page_at (double_directory t) i = page_at t (take_bit (global_depth t) i)"
    by (simp add: page_at_def) (simp add: double_directory_def)
qed

lemma double_directory_ok:
  assumes "ext_ok hash t"
  shows "ext_ok hash (double_directory t)" and "ext_find hash (double_directory t) k = ext_find hash t k"
proof -
  let ?t = "double_directory t" and ?g = "global_depth t"
  have g: "global_depth ?t = Suc ?g" "bucket_size ?t = bucket_size t" "store_pages ?t = store_pages t"
    "length (buckets ?t) = 2 ^ Suc ?g"
    using assms by (simp_all add: double_directory_def ext_ok_def)
  have len: "length (buckets t) = 2 ^ ?g" using assms by (simp add: ext_ok_def)
  have "dir_entry_ok hash ?t i" if i: "i < 2 ^ Suc ?g" for i
  proof -
    let ?i = "take_bit ?g i" and ?d = "local_depth (page_at ?t i)"
    have i': "?i < 2 ^ ?g" by simp
    note old = ext_okD [OF assms i']
    have p: "page_at ?t i = page_at t ?i" by (rule double_page_at [OF len i])
    have d: "?d \<le> ?g" using old(3) p by simp
    have tb: "take_bit ?d (take_bit ?g j) = take_bit ?d j" for j using d by simp
    show ?thesis
      unfolding dir_entry_ok_def Let_def
    proof (intro conjI ballI allI impI)
      show "buckets ?t ! i < length (store_pages ?t)" using old(1) g double_page_at(1) [OF len i] by simp
      show "page_cap (page_at ?t i) = bucket_size ?t" using old(2) p g by simp
      show "?d \<le> global_depth ?t" using d g by simp
      show "length (elements (page_at ?t i)) \<le> bucket_size ?t" using old(4) p g by simp
      show "take_bit ?d (hash (fst e)) = take_bit ?d i" if "e \<in> set (elements (page_at ?t i))" for e
        using old(5) that p tb [of i] by simp
      show "buckets ?t ! j = buckets ?t ! i \<longleftrightarrow> take_bit ?d j = take_bit ?d i" if "j < 2 ^ global_depth ?t" for j
        using old(6) [of "take_bit ?g j"] that g double_page_at(1) [OF len] i p d by (simp add: min_absorb1)
    qed
  qed
  then show "ext_ok hash ?t" using g assms by (simp add: ext_ok_def)
  have "take_bit (Suc ?g) (hash k) < 2 ^ Suc ?g" by (rule take_bit_less)
  from double_page_at(2) [OF len this] show "ext_find hash ?t k = ext_find hash t k"
    using g by (simp add: ext_find_def)
qed

text \<open>A page that two directory entries share, and the state after its split.\<close>

definition can_split :: "('k \<Rightarrow> nat) \<Rightarrow> ('k, 'v) ext_hash \<Rightarrow> nat \<Rightarrow> bool" where
  "can_split hash t bid \<longleftrightarrow> ext_ok hash t \<and> bid < 2 ^ global_depth t \<and> global_depth t = Suc (local_depth (page_at t bid))"

definition low_id :: "('k, 'v) ext_hash \<Rightarrow> nat \<Rightarrow> nat" where
  "low_id t bid = take_bit (local_depth (page_at t bid)) bid"

definition high_id :: "('k, 'v) ext_hash \<Rightarrow> nat \<Rightarrow> nat" where
  "high_id t bid = 2 ^ local_depth (page_at t bid) + low_id t bid"

definition half :: "('k \<Rightarrow> nat) \<Rightarrow> ('k, 'v) ext_hash \<Rightarrow> nat \<Rightarrow> nat \<Rightarrow> ('k, 'v) hash_page" where
  "half hash t bid i = \<lparr>page_cap = bucket_size t, local_depth = global_depth t,
     elements = filter (\<lambda>e. take_bit (global_depth t) (hash (fst e)) = i) (elements (page_at t bid))\<rparr>"

lemma can_splitD:
  assumes "can_split hash t bid"
  shows "ext_ok hash t" "bid < 2 ^ global_depth t" "global_depth t = Suc (local_depth (page_at t bid))"
  using assms by (auto simp: can_split_def)

lemma split_ids:
  assumes "can_split hash t bid"
  shows "low_id t bid < 2 ^ global_depth t" "high_id t bid < 2 ^ global_depth t" "high_id t bid \<noteq> low_id t bid"
    and "\<And>i. i < 2 ^ global_depth t \<Longrightarrow> take_bit (local_depth (page_at t bid)) i = low_id t bid
          \<longleftrightarrow> i = low_id t bid \<or> i = high_id t bid"
proof -
  let ?d = "local_depth (page_at t bid)"
  have g: "global_depth t = Suc ?d" using assms by (simp add: can_split_def)
  have low: "low_id t bid < 2 ^ ?d" by (simp add: low_id_def)
  then show "low_id t bid < 2 ^ global_depth t" "high_id t bid < 2 ^ global_depth t" "high_id t bid \<noteq> low_id t bid"
    by (simp_all add: g high_id_def)
  show "take_bit ?d i = low_id t bid \<longleftrightarrow> i = low_id t bid \<or> i = high_id t bid" if "i < 2 ^ global_depth t" for i
    using take_bit_Suc_cases [of ?d i] that take_bit_nat_eq_self [of i "Suc ?d"] low
    by (auto simp: g high_id_def take_bit_eq_mod)
qed

lemma split_share:
  assumes "can_split hash t bid" and "i < 2 ^ global_depth t"
  shows "buckets t ! i = buckets t ! bid \<longleftrightarrow> i = low_id t bid \<or> i = high_id t bid"
  using ext_okD(6) [OF can_splitD(1,2) [OF assms(1)] assms(2)] split_ids(4) [OF assms] by (simp add: low_id_def)

lemma split_elements:
  assumes "can_split hash t bid" and "e \<in> set (elements (page_at t bid))"
  shows "take_bit (global_depth t) (hash (fst e)) = low_id t bid \<or> take_bit (global_depth t) (hash (fst e)) = high_id t bid"
proof -
  have "take_bit (local_depth (page_at t bid)) (hash (fst e)) = low_id t bid"
    using ext_okD(5) [OF can_splitD(1,2) [OF assms(1)] assms(2)] by (simp add: low_id_def)
  then show ?thesis using split_ids(4) [OF assms(1) take_bit_less, of "hash (fst e)"] can_splitD(3) [OF assms(1)]
    by simp
qed

lemma split_page_eq:
  assumes "can_split hash t bid"
  shows "split_page hash t bid = t\<lparr>store_pages := store_pages t @ [half hash t bid (low_id t bid), half hash t bid (high_id t bid)],
    buckets := (buckets t)[high_id t bid := Suc (length (store_pages t)), low_id t bid := length (store_pages t)]\<rparr>"
proof -
  let ?d = "local_depth (page_at t bid)" and ?b = "low_id t bid" and ?a = "high_id t bid"
  have g: "global_depth t = Suc ?d" and ok: "ext_ok hash t" and bid: "bid < 2 ^ global_depth t"
    using can_splitD [OF assms] by auto
  note ids = split_ids [OF assms]
  have share: "buckets t ! ?b = buckets t ! bid" using split_share [OF assms ids(1)] by simp
  then have pb: "page_at t ?b = page_at t bid" by (simp add: page_at_def)
  have fl: "filter (\<lambda>e. take_bit (global_depth t) (hash (fst e)) \<noteq> ?b) (elements (page_at t bid))
      = filter (\<lambda>e. take_bit (global_depth t) (hash (fst e)) = ?a) (elements (page_at t bid))"
    using split_elements [OF assms] ids(3) by (intro filter_cong) auto
  have len: "length (buckets t) = 2 ^ global_depth t" and ptr: "buckets t ! ?b < length (store_pages t)"
    using ok share ext_okD(1) [OF ok bid] by (simp_all add: ext_ok_def)
  have a: "?a = 2 ^ (global_depth t - 1) + ?b" using g by (simp add: high_id_def)
  have "0 < global_depth t" "?d < global_depth t" using g by simp_all
  from split_page_two [where hash = hash, OF this len low_id_def a ptr split_elements [OF assms]]
  show ?thesis unfolding pb fl half_def g [symmetric] .
qed

lemma split_page_at:
  assumes "can_split hash t bid" and "i < 2 ^ global_depth t"
  defines "t' \<equiv> split_page hash t bid" and "n \<equiv> length (store_pages t)"
  shows "buckets t' ! i = (if i = low_id t bid then n else if i = high_id t bid then Suc n else buckets t ! i)"
    and "page_at t' i = (if i = low_id t bid \<or> i = high_id t bid then half hash t bid i else page_at t i)"
proof -
  have len: "length (buckets t) = 2 ^ global_depth t" and n: "buckets t ! i < n"
    using assms(1,2) ext_okD(1) [of hash t i] by (simp_all add: can_split_def ext_ok_def n_def)
  show b: "buckets t' ! i = (if i = low_id t bid then n else if i = high_id t bid then Suc n else buckets t ! i)"
    using len assms(2) split_ids(3) [OF assms(1)] by (auto simp: t'_def split_page_eq [OF assms(1)] n_def)
  have s: "store_pages t' = store_pages t @ [half hash t bid (low_id t bid), half hash t bid (high_id t bid)]"
    by (simp add: t'_def split_page_eq [OF assms(1)])
  show "page_at t' i = (if i = low_id t bid \<or> i = high_id t bid then half hash t bid i else page_at t i)"
    using n unfolding page_at_def b s by (auto simp: nth_append n_def)
qed

lemma split_page_same [simp]:
  assumes "can_split hash t bid"
  shows "global_depth (split_page hash t bid) = global_depth t" "bucket_size (split_page hash t bid) = bucket_size t"
    "length (buckets (split_page hash t bid)) = length (buckets t)"
    "length (store_pages (split_page hash t bid)) = length (store_pages t) + 2"
  by (simp_all add: split_page_eq [OF assms])

lemma split_half_entry:
  assumes "can_split hash t bid" and i: "i = low_id t bid \<or> i = high_id t bid"
  shows "dir_entry_ok hash (split_page hash t bid) i"
proof -
  have lt: "i < 2 ^ global_depth t" and ok: "ext_ok hash t" and bid: "bid < 2 ^ global_depth t"
    using split_ids(1,2) [OF assms(1)] i can_splitD [OF assms(1)] by auto
  have "buckets (split_page hash t bid) ! j = buckets (split_page hash t bid) ! i \<longleftrightarrow> j = i"
    if "j < 2 ^ global_depth t" for j
    using ext_okD(1) [OF ok that] i split_ids(3) [OF assms(1)]
    by (auto simp: split_page_at(1) [OF assms(1)] lt that)
  moreover have "length (elements (half hash t bid i)) \<le> bucket_size t"
    using ext_okD(4) [OF ok bid] by (auto simp: half_def intro: order_trans [OF length_filter_le])
  ultimately show ?thesis using lt i
    by (auto simp: dir_entry_ok_def split_page_at [OF assms(1)] half_def take_bit_nat_eq_self assms(1))
qed

lemma split_other_entry:
  assumes "can_split hash t bid" and i: "i < 2 ^ global_depth t" "i \<noteq> low_id t bid" "i \<noteq> high_id t bid"
  shows "dir_entry_ok hash (split_page hash t bid) i"
proof -
  let ?d = "local_depth (page_at t i)"
  have ok: "ext_ok hash t" using assms(1) by (simp add: can_split_def)
  note oi = ext_okD [OF ok i(1)]
  have "buckets (split_page hash t bid) ! j = buckets t ! i \<longleftrightarrow> take_bit ?d j = take_bit ?d i" if j: "j < 2 ^ global_depth t" for j
  proof (cases "j = low_id t bid \<or> j = high_id t bid")
    case True
    then have "buckets t ! j \<noteq> buckets t ! i" using split_share [OF assms(1)] i j by metis
    with oi(1) oi(6) [OF j] True show ?thesis by (auto simp: split_page_at(1) [OF assms(1) j])
  qed (use oi(6) [OF j] in \<open>simp add: split_page_at(1) [OF assms(1) j]\<close>)
  then show ?thesis using oi(1-5) i by (auto simp: dir_entry_ok_def split_page_at [OF assms(1)] assms(1))
qed

lemma split_page_ok:
  assumes "can_split hash t bid"
  shows "ext_ok hash (split_page hash t bid)"
    and "ext_find hash (split_page hash t bid) k = ext_find hash t k"
proof -
  have "dir_entry_ok hash (split_page hash t bid) i" if "i < 2 ^ global_depth t" for i
    using split_half_entry [OF assms] split_other_entry [OF assms that] by blast
  then show "ext_ok hash (split_page hash t bid)"
    using can_splitD(1) [OF assms] by (simp add: ext_ok_def assms)
  let ?i = "take_bit (global_depth t) (hash k)"
  have "find_element (elements (page_at (split_page hash t bid) ?i)) k = find_element (elements (page_at t ?i)) k"
  proof (cases "?i = low_id t bid \<or> ?i = high_id t bid")
    case True
    then have "page_at t ?i = page_at t bid" using split_share [OF assms take_bit_less, of "hash k"] by (simp add: page_at_def)
    then show ?thesis using True by (auto simp: split_page_at(2) [OF assms] half_def intro!: find_element_filter)
  qed (simp add: split_page_at(2) [OF assms])
  then show "ext_find hash (split_page hash t bid) k = ext_find hash t k" by (simp add: ext_find_def assms)
qed

subsection \<open>Insertion\<close>

lemma insert_at_page:
  assumes "ext_ok hash t" and "b < 2 ^ global_depth t" and "i < 2 ^ global_depth t"
  shows "page_at (insert_at t (buckets t ! b) e) i =
    (if buckets t ! i = buckets t ! b then page_insert (page_at t i) (fst e) (snd e) else page_at t i)"
  using ext_okD(1) [OF assms(1,3)] by (auto simp: insert_at_def page_at_def nth_list_update)

lemma insert_at_ok:
  fixes v :: 'v
  assumes ok: "ext_ok hash t" and full: "\<not> IsFull (page_at t (bucket_id hash t k))"
  defines "t' \<equiv> insert_at t (buckets t ! bucket_id hash t k) (k, v)"
  shows "ext_ok hash t'"
    and "ext_find hash t' k' = (if k' = k \<and> ext_find hash t k = None then Some v else ext_find hash t k')"
proof -
  let ?b = "bucket_id hash t k"
  have b: "?b < 2 ^ global_depth t" by simp
  have s: "global_depth t' = global_depth t" "bucket_size t' = bucket_size t" "buckets t' = buckets t"
    "length (store_pages t') = length (store_pages t)" by (simp_all add: t'_def insert_at_def)
  have p: "page_at t' i = (if buckets t ! i = buckets t ! ?b then page_insert (page_at t i) k v else page_at t i)"
    if "i < 2 ^ global_depth t" for i using insert_at_page [OF ok b that, of "(k, v)"] by (simp add: t'_def)
  have "dir_entry_ok hash t' i" if i: "i < 2 ^ global_depth t" for i
  proof (cases "buckets t ! i = buckets t ! ?b")
    case True
    let ?d = "local_depth (page_at t i)"
    have pi: "page_at t i = page_at t ?b" using True by (simp add: page_at_def)
    have "take_bit ?d ?b = take_bit ?d i" using ext_okD(6) [OF ok i b] True by simp
    then have "take_bit ?d (hash k) = take_bit ?d i" using ext_okD(3) [OF ok i] by (simp add: min_absorb1)
    moreover have "length (elements (page_at t i)) < bucket_size t"
      using full ext_okD(2,4) [OF ok i] by (simp add: pi IsFull_def)
    ultimately show ?thesis using ext_okD [OF ok i] True by (auto simp: dir_entry_ok_def s p [OF i] page_insert_def)
  next
    case False
    then show ?thesis using ext_okD [OF ok i] by (auto simp: dir_entry_ok_def s p [OF i])
  qed
  then show "ext_ok hash t'" using ok by (simp add: ext_ok_def s)
  let ?i = "bucket_id hash t k'"
  have i: "?i < 2 ^ global_depth t" by simp
  have f: "ext_find hash t' k' = find_element (elements (page_at t' ?i)) k'" by (simp add: ext_find_def s)
  show "ext_find hash t' k' = (if k' = k \<and> ext_find hash t k = None then Some v else ext_find hash t k')"
    unfolding f p [OF i] by (auto simp: ext_find_def page_insert_def find_element_append split: option.splits)
qed

text \<open>The hash values of the keys in the page of \<open>k\<close> are told apart by at most 30 bits.\<close>

definition separable :: "('k \<Rightarrow> nat) \<Rightarrow> ('k, 'v) ext_hash \<Rightarrow> 'k \<Rightarrow> nat \<Rightarrow> bool" where
  "separable hash t k D \<longleftrightarrow> length (filter (\<lambda>e. take_bit D (hash (fst e)) = take_bit D (hash k))
     (elements (page_at t (bucket_id hash t k)))) < bucket_size t"

lemma full_separable:
  assumes ok: "ext_ok hash t" and "separable hash t k D" and "IsFull (page_at t (bucket_id hash t k))"
  shows "local_depth (page_at t (bucket_id hash t k)) < D"
proof (rule ccontr)
  let ?b = "bucket_id hash t k" and ?d = "local_depth (page_at t (bucket_id hash t k))"
  assume "\<not> ?d < D"
  have b: "?b < 2 ^ global_depth t" by simp
  have "take_bit D (hash (fst e)) = take_bit D (hash k)" if "e \<in> set (elements (page_at t ?b))" for e
  proof (rule take_bit_same [of D ?d])
    show "take_bit ?d (hash (fst e)) = take_bit ?d (hash k)"
      using ext_okD(5) [OF ok b that] ext_okD(3) [OF ok b] by (simp add: min_absorb1)
  qed (use \<open>\<not> ?d < D\<close> in simp)
  then have "filter (\<lambda>e. take_bit D (hash (fst e)) = take_bit D (hash k)) (elements (page_at t ?b)) = elements (page_at t ?b)"
    by (simp add: filter_id_conv)
  then show False using assms(2,3) ext_okD(2) [OF ok b] by (simp add: separable_def IsFull_def)
qed

text \<open>One round of the loop that splits a page.\<close>

lemma split_round:
  assumes cs: "can_split hash t b" and b: "take_bit (local_depth (page_at t b)) (hash k) = low_id t b"
    and sep: "length (filter (\<lambda>e. take_bit D (hash (fst e)) = take_bit D (hash k)) (elements (page_at t b))) < bucket_size t"
  shows "local_depth (page_at (split_page hash t b) (bucket_id hash (split_page hash t b) k)) = global_depth t"
    and "separable hash (split_page hash t b) k D"
proof -
  let ?i = "take_bit (global_depth t) (hash k)"
  have "?i = low_id t b \<or> ?i = high_id t b"
    using split_ids(4) [OF cs take_bit_less, of "hash k"] b can_splitD(3) [OF cs] by simp
  then have p: "page_at (split_page hash t b) ?i = half hash t b ?i" by (simp add: split_page_at(2) [OF cs])
  then show "local_depth (page_at (split_page hash t b) (bucket_id hash (split_page hash t b) k)) = global_depth t"
    by (simp add: cs half_def)
  have "length (filter P (filter Q xs)) \<le> length (filter P xs)" for P Q and xs :: "('a \<times> 'b) list"
    by (induction xs) auto
  then show "separable hash (split_page hash t b) k D"
    using sep p by (simp add: separable_def cs half_def) (meson le_less_trans)
qed

lemma grow_full:
  assumes ok: "ext_ok hash t" and b: "b < 2 ^ global_depth t" and full: "IsFull (page_at t b)"
    and d: "global_depth t \<le> local_depth (page_at t b) + 1"
  shows "can_split hash (grow_directory t b) b" "ext_find hash (grow_directory t b) = ext_find hash t" "page_at (grow_directory t b) b = page_at t b"
    "bucket_size (grow_directory t b) = bucket_size t" "global_depth (grow_directory t b) = Suc (local_depth (page_at t b))"
proof -
  have len: "length (buckets t) = 2 ^ global_depth t" using ok by (simp add: ext_ok_def)
  have "b < 2 ^ Suc (global_depth t)" using b by simp
  from double_page_at(2) [OF len this] have p: "page_at (double_directory t) b = page_at t b"
    using b by (simp add: take_bit_nat_eq_self)
  have "can_split hash (grow_directory t b) b \<and> ext_find hash (grow_directory t b) = ext_find hash t \<and> page_at (grow_directory t b) b = page_at t b
    \<and> bucket_size (grow_directory t b) = bucket_size t \<and> global_depth (grow_directory t b) = Suc (local_depth (page_at t b))"
  proof (cases "local_depth (page_at t b) = global_depth t")
    case True
    then have "grow_directory t b = double_directory t" using full by (simp add: grow_directory_def)
    moreover have "global_depth (double_directory t) = Suc (global_depth t)" "bucket_size (double_directory t) = bucket_size t"
      by (simp_all add: double_directory_def)
    ultimately show ?thesis using True double_directory_ok [OF ok] p b by (simp add: can_split_def fun_eq_iff)
  next
    case False
    then have "grow_directory t b = t" "global_depth t = Suc (local_depth (page_at t b))"
      using d ext_okD(3) [OF ok b] by (auto simp: grow_directory_def)
    then show ?thesis using ok b unfolding can_split_def by metis
  qed
  then show "can_split hash (grow_directory t b) b" "ext_find hash (grow_directory t b) = ext_find hash t" "page_at (grow_directory t b) b = page_at t b"
    "bucket_size (grow_directory t b) = bucket_size t" "global_depth (grow_directory t b) = Suc (local_depth (page_at t b))" by auto
qed

lemma insert_loop_round:
  assumes ok: "ext_ok hash t" and full: "IsFull (page_at t (bucket_id hash t k))"
    and d: "global_depth t \<le> local_depth (page_at t (bucket_id hash t k)) + 1" "local_depth (page_at t (bucket_id hash t k)) < 30"
  shows "insert_loop hash k v t = insert_loop hash k v (split_page hash (grow_directory t (bucket_id hash t k)) (bucket_id hash t k))"
proof -
  let ?b = "bucket_id hash t k"
  have b: "?b < 2 ^ global_depth t" by simp
  note gr = grow_full [OF ok b full d(1)]
  have low: "buckets (grow_directory t ?b) ! low_id (grow_directory t ?b) ?b = buckets (grow_directory t ?b) ! ?b"
    using split_share [OF gr(1) split_ids(1) [OF gr(1)]] by simp
  have l: "?b AND (2 ^ local_depth (page_at (grow_directory t ?b) ?b) - 1) = low_id (grow_directory t ?b) ?b"
    unfolding low_bits low_id_def ..
  have pl: "page_at (grow_directory t ?b) (low_id (grow_directory t ?b) ?b) = page_at t ?b" using low gr(3) by (simp add: page_at_def)
  have g: "global_depth t < 31" "global_depth (grow_directory t ?b) < 31" "int (local_depth (page_at t ?b)) + 1 < 2 ^ 31"
    "local_depth (page_at t ?b) < global_depth (grow_directory t ?b)" using d gr(5) by auto
  show ?thesis
    by (subst insert_loop.simps, unfold Let_def l pl) (use g gr(3) full in simp)
qed

lemma insert_loop_ok:
  assumes "ext_ok hash t" and "separable hash t k D" and "D \<le> 30"
    and "global_depth t \<le> local_depth (page_at t (bucket_id hash t k)) + 1" and "global_depth t \<le> 30"
  shows "\<exists>t'. insert_loop hash k v t = Some (Inr t') \<and> ext_ok hash t'
    \<and> (\<forall>k'. ext_find hash t' k' = (if k' = k \<and> ext_find hash t k = None then Some v else ext_find hash t k'))"
  using assms
proof (induction "D - local_depth (page_at t (bucket_id hash t k))" arbitrary: t rule: less_induct)
  case less
  let ?b = "bucket_id hash t k" and ?p = "page_at t (bucket_id hash t k)"
  let ?t = "split_page hash (grow_directory t ?b) ?b"
  note ok = less.prems(1)
  have b: "?b < 2 ^ global_depth t" by simp
  show ?case
  proof (cases "IsFull ?p")
    case False
    then have "insert_loop hash k v t = Some (Inr (insert_at t (buckets t ! ?b) (k, v)))"
      using less.prems(5) by (subst insert_loop.simps) (simp add: Let_def grow_directory_def)
    with insert_at_ok [OF ok False] show ?thesis by simp
  next
    case True
    have d: "local_depth ?p < D" by (rule full_separable [OF ok less.prems(2) True])
    note gr = grow_full [OF ok b True less.prems(4)]
    have low: "take_bit (local_depth (page_at (grow_directory t ?b) ?b)) (hash k) = low_id (grow_directory t ?b) ?b"
      using ext_okD(3) [OF ok b] by (simp add: low_id_def gr(3) [simplified] min_absorb1)
    have sep: "length (filter (\<lambda>e. take_bit D (hash (fst e)) = take_bit D (hash k)) (elements (page_at (grow_directory t ?b) ?b)))
        < bucket_size (grow_directory t ?b)" using less.prems(2) unfolding separable_def gr(3,4) .
    note sr = split_round [OF gr(1) low sep] and gs = split_page_same(1) [OF gr(1)]
    have ih: "\<exists>t'. insert_loop hash k v ?t = Some (Inr t') \<and> ext_ok hash t'
      \<and> (\<forall>k'. ext_find hash t' k' = (if k' = k \<and> ext_find hash ?t k = None then Some v else ext_find hash ?t k'))"
    proof (rule less.hyps [OF _ split_page_ok(1) [OF gr(1)] sr(2) less.prems(3)])
      show "D - local_depth (page_at ?t (bucket_id hash ?t k)) < D - local_depth ?p" unfolding sr(1) gr(5) using d by simp
      show "global_depth ?t \<le> local_depth (page_at ?t (bucket_id hash ?t k)) + 1" unfolding sr(1) gs by simp
      show "global_depth ?t \<le> 30" unfolding gs gr(5) using d less.prems(3) by simp
    qed
    have ft: "ext_find hash ?t = ext_find hash t"
      using split_page_ok(2) [OF gr(1)] gr(2) by (simp add: fun_eq_iff)
    have d30: "local_depth ?p < 30" using d less.prems(3) by simp
    from ih show ?thesis unfolding ft insert_loop_round [OF ok True less.prems(4) d30] .
  qed
qed

text \<open>C13. \<open>Insert\<close> returns and is correct when the page of the key is shared by at most two directory
  entries (its local depth is at most one below the global depth, which is at most 30) and fewer keys of that page
  than a page can hold agree with the new key in the low \<open>D \<le> 30\<close> bits of their hash values: the table stays well-formed, a new key gets its value, and the answer of \<open>Find\<close> for
  every other key, and for a key that was already there, stays the same, whatever splits and doublings
  the insertion needs.\<close>

theorem ext_insert_correct:
  assumes "ext_ok hash t" and "separable hash t k D" and "D \<le> 30"
    and "global_depth t \<le> local_depth (page_at t (bucket_id hash t k)) + 1" and "global_depth t \<le> 30"
  shows "\<exists>t'. ext_insert hash t k v = Inr t' \<and> ext_ok hash t'
    \<and> (\<forall>k'. ext_find hash t' k' = (if k' = k \<and> ext_find hash t k = None then Some v else ext_find hash t k'))"
  using insert_loop_ok [OF assms, of v] by (auto simp: ext_insert_def)

definition three_keys :: "(nat, nat) ext_hash" where
  "three_keys = \<lparr>global_depth = 1, bucket_size = 2, buckets = [1, 2],
     store_pages = [new_hash_page 2, \<lparr>page_cap = 2, local_depth = 1, elements = [(4, 40), (8, 80)]\<rparr>,
       \<lparr>page_cap = 2, local_depth = 1, elements = [(1, 10)]\<rparr>]\<rparr>"

theorem ext_insert_correct_witness:
  "\<exists>t'. ext_insert id three_keys 12 120 = Inr t' \<and> ext_ok id t' \<and> ext_find id t' 12 = Some 120 \<and> ext_find id t' 8 = Some 80"
proof -
  have less2: "(i :: nat) < 2 \<longleftrightarrow> i = 0 \<or> i = 1" for i by auto
  have "ext_ok id three_keys"
    by (simp add: ext_ok_def dir_entry_ok_def three_keys_def page_at_def less2 take_bit_eq_mod all_conj_distrib)
  moreover have "separable id three_keys 12 3" "global_depth three_keys \<le> local_depth (page_at three_keys (bucket_id id three_keys 12)) + 1"
    "global_depth three_keys \<le> 30" "ext_find id three_keys 12 = None" "ext_find id three_keys 8 = Some 80" by code_simp+
  ultimately show ?thesis using ext_insert_correct [of id three_keys 12 3 120] by auto
qed

subsection \<open>Pages that more than two entries share\<close>

lemma hang_round:
  assumes b: "bid < length (buckets t)" and len: "length (buckets t) = 2 ^ global_depth t"
    and ptr: "\<forall>i < length (buckets t). buckets t ! i < length (store_pages t)"
    and d: "local_depth (page_at t bid) + 1 < global_depth t"
    and far: "take_bit (global_depth t - 1) bid \<noteq> low_id t bid"
    and es: "\<forall>e \<in> set (elements (page_at t bid)). take_bit (global_depth t - 1) (hash (fst e)) = low_id t bid"
  defines "t' \<equiv> split_page hash t bid"
  shows "global_depth t' = global_depth t" "length (buckets t') = length (buckets t)" "page_at t' bid = page_at t bid"
    "\<forall>i < length (buckets t'). buckets t' ! i < length (store_pages t')"
proof -
  let ?g = "global_depth t" and ?a = "2 ^ (global_depth t - 1) + low_id t bid"
  have g: "0 < ?g" "local_depth (page_at t bid) < ?g" "Suc (?g - 1) = ?g" using d by simp_all
  have low: "low_id t bid < 2 ^ (?g - 1)" unfolding low_id_def using d by (intro take_bit_less_mono) simp
  then have ids: "low_id t bid < length (buckets t)" "bid \<noteq> low_id t bid"
    using len less_le_trans [OF low power_increasing [of "?g - 1" ?g]] far by (auto simp: take_bit_nat_eq_self)
  have "take_bit (?g - 1) ?a = low_id t bid" using low by (simp add: take_bit_eq_mod)
  then have "bid \<noteq> ?a" using far by metis
  have "take_bit ?g (hash (fst e)) = low_id t bid \<or> take_bit ?g (hash (fst e)) = ?a" if "e \<in> set (elements (page_at t bid))" for e
    using take_bit_Suc_cases [of "?g - 1" "hash (fst e)"] es that g(3) by simp
  from split_page_two [where hash = hash, OF g(1,2) len low_id_def refl ptr [rule_format, OF ids(1)] this]
  have t': "t' = t\<lparr>store_pages := store_pages t @ [\<lparr>page_cap = bucket_size t, local_depth = Suc (local_depth (page_at t (low_id t bid))),
          elements = filter (\<lambda>e. take_bit ?g (hash (fst e)) = low_id t bid) (elements (page_at t bid))\<rparr>,
         \<lparr>page_cap = bucket_size t, local_depth = Suc (local_depth (page_at t (low_id t bid))),
          elements = filter (\<lambda>e. take_bit ?g (hash (fst e)) \<noteq> low_id t bid) (elements (page_at t bid))\<rparr>],
      buckets := (buckets t)[?a := Suc (length (store_pages t)), low_id t bid := length (store_pages t)]\<rparr>"
    unfolding t'_def .
  show "global_depth t' = ?g" "length (buckets t') = length (buckets t)" by (simp_all add: t')
  show "page_at t' bid = page_at t bid" using ids(2) \<open>bid \<noteq> ?a\<close> ptr b by (simp add: t' page_at_def nth_append)
  show "\<forall>i < length (buckets t'). buckets t' ! i < length (store_pages t')"
  proof (intro allI impI)
    fix i assume "i < length (buckets t')"
    then show "buckets t' ! i < length (store_pages t')"
      using ptr by (cases "i = low_id t bid"; cases "i = ?a") (auto simp: t' less_SucI)
  qed
qed

text \<open>The page of the key is full, its local depth is more than one below the global depth, the directory entry
  of the key is none of the two entries that the split changes, and all keys of the page belong to these two
  entries.\<close>

definition stuck :: "('k \<Rightarrow> nat) \<Rightarrow> ('k, 'v) ext_hash \<Rightarrow> 'k \<Rightarrow> bool" where
  "stuck hash t k \<longleftrightarrow> (let b = bucket_id hash t k; g = global_depth t in
     length (buckets t) = 2 ^ g \<and> list_all (\<lambda>ptr. ptr < length (store_pages t)) (buckets t)
     \<and> IsFull (page_at t b) \<and> local_depth (page_at t b) + 1 < g
     \<and> take_bit (g - 1) b \<noteq> b AND (2 ^ local_depth (page_at t b) - 1)
     \<and> list_all (\<lambda>e. take_bit (g - 1) (hash (fst e)) = b AND (2 ^ local_depth (page_at t b) - 1)) (elements (page_at t b)))"

lemma stuck_round:
  assumes "stuck hash t k"
  shows "grow_directory t (bucket_id hash t k) = t"
    and "IsFull (page_at t (bucket_id hash t k)) \<and> local_depth (page_at t (bucket_id hash t k)) < global_depth t"
    and "stuck hash (split_page hash t (bucket_id hash t k)) k"
proof -
  let ?b = "bucket_id hash t k" and ?t = "split_page hash t (bucket_id hash t k)"
  have s: "length (buckets t) = 2 ^ global_depth t" "\<forall>i < length (buckets t). buckets t ! i < length (store_pages t)"
    "IsFull (page_at t ?b)" "local_depth (page_at t ?b) + 1 < global_depth t" "take_bit (global_depth t - 1) ?b \<noteq> low_id t ?b"
    "\<forall>e \<in> set (elements (page_at t ?b)). take_bit (global_depth t - 1) (hash (fst e)) = low_id t ?b"
    using assms unfolding stuck_def Let_def low_bits low_id_def by (auto simp: list_all_iff list_all_length)
  then show "grow_directory t ?b = t" "IsFull (page_at t ?b) \<and> local_depth (page_at t ?b) < global_depth t"
    by (simp_all add: grow_directory_def)
  have b: "?b < length (buckets t)" using s(1) by simp
  note h = hang_round [where hash = hash, OF b s(1,2,4,5,6)]
  have bi: "bucket_id hash ?t k = ?b" using h(1) by simp
  have "list_all (\<lambda>ptr. ptr < length (store_pages ?t)) (buckets ?t)" using h(4) by (simp add: list_all_length)
  then show "stuck hash ?t k" unfolding stuck_def Let_def bi h(1,2,3)
    using s unfolding low_bits low_id_def by (simp add: list_all_iff)
qed

text \<open>C36. \<open>Insert\<close> never returns a table when the table is \<open>stuck\<close> for the key: the page of the key is full, its local
  depth is at least two below the global depth, the key belongs to neither of the two entries the split rewrites, and every
  key already in the page belongs to them. Then each round of the loop splits the same page again and leaves the page
  of the key as it is.\<close>

theorem ext_insert_hangs:
  fixes hash :: "'k \<Rightarrow> nat" and t :: "('k, 'v) ext_hash"
  assumes "stuck hash t k"
  shows "ext_insert hash t k v \<noteq> Inr t'"
proof
  assume "ext_insert hash t k v = Inr t'"
  then have y: "insert_loop hash k v t = Some (Inr t')"
    by (cases "insert_loop hash k v t") (auto simp: ext_insert_def)
  have "stuck hash t k \<longrightarrow> (\<forall>u. (Inr t' :: ('k, 'v) ext_hash result) \<noteq> Inr u)"
  proof (rule insert_loop.raw_induct [where P = "\<lambda>(hash :: 'k \<Rightarrow> nat) k v (t :: ('k, 'v) ext_hash) (y :: ('k, 'v) ext_hash result). stuck hash t k \<longrightarrow> (\<forall>u. y \<noteq> Inr u)", OF _ y])
    fix loop and hash :: "'k \<Rightarrow> nat" and k and v :: 'v and t and y :: "('k, 'v) ext_hash result"
    assume IH: "\<And>hash k v t y. loop hash k v t = Some y \<Longrightarrow> stuck hash t k \<longrightarrow> (\<forall>u. y \<noteq> Inr u)"
      and y: "(if global_depth t \<ge> 31 then Some (Inl Undefined)
        else let b = bucket_id hash t k; t1 = grow_directory t b in
           if IsFull (page_at t1 b) \<and> local_depth (page_at t1 b) < global_depth t1
           then let low = b AND (2 ^ local_depth (page_at t1 b) - 1) in
             if global_depth t1 \<ge> 31 \<or> int (local_depth (page_at t1 low)) + 1 \<ge> 2 ^ 31 then Some (Inl Undefined)
             else loop hash k v (split_page hash t1 b)
           else Some (Inr (insert_at t1 (buckets t1 ! b) (k, v)))) = Some y"
    show "stuck hash t k \<longrightarrow> (\<forall>u. y \<noteq> Inr u)"
    proof
      assume st: "stuck hash t k"
      note r = stuck_round [OF st]
      from y have "y = Inl Undefined \<or> loop hash k v (split_page hash t (bucket_id hash t k)) = Some y"
        unfolding Let_def r(1) using r(2) by (simp split: if_splits)
      then show "\<forall>u. y \<noteq> Inr u" using IH [of hash k v "split_page hash t (bucket_id hash t k)" y] r(3) by auto
    qed
  qed
  with assms show False by simp
qed

text \<open>Inserting the keys 0, 4, 1 and 3 into a table with pages of one element.\<close>

definition lopsided :: "(nat, nat) ext_hash" where
  "lopsided = \<lparr>global_depth = 3, bucket_size = 1, buckets = [5, 2, 4, 2, 6, 2, 4, 2],
     store_pages = [\<lparr>page_cap = 1, local_depth = 0, elements = [(0, 0)]\<rparr>, \<lparr>page_cap = 1, local_depth = 1, elements = [(0, 0)]\<rparr>,
       \<lparr>page_cap = 1, local_depth = 1, elements = [(1, 1)]\<rparr>, \<lparr>page_cap = 1, local_depth = 2, elements = [(0, 0)]\<rparr>,
       \<lparr>page_cap = 1, local_depth = 2, elements = []\<rparr>, \<lparr>page_cap = 1, local_depth = 3, elements = [(0, 0)]\<rparr>,
       \<lparr>page_cap = 1, local_depth = 3, elements = [(4, 4)]\<rparr>]\<rparr>"

definition insert_all :: "('k \<Rightarrow> nat) \<Rightarrow> ('k \<times> 'v) list \<Rightarrow> ('k, 'v) ext_hash \<Rightarrow> ('k, 'v) ext_hash result" where
  "insert_all hash es t = fold (\<lambda>(k, v) r. and_then r (\<lambda>t. ext_insert hash t k v)) es (Inr t)"

theorem ext_insert_hangs_witness:
  "insert_all id [(0, 0), (4, 4), (1, 1)] (new_ext_hash 1) = Inr lopsided \<and> ext_insert id lopsided 3 3 \<noteq> Inr lopsided"
proof
  show "insert_all id [(0, 0), (4, 4), (1, 1)] (new_ext_hash 1) = Inr lopsided" by code_simp
  have "stuck id lopsided 3" by code_simp
  then show "ext_insert id lopsided 3 3 \<noteq> Inr lopsided" by (rule ext_insert_hangs)
qed

text \<open>A key that was removed is found again: after the keys 0, 4, 8, 1, 3 and 5 were inserted into a table with pages
  of two elements, \<open>Remove\<close> of the key 3 reports success and \<open>Find\<close> still returns its value. The split of a page that
  four entries share copied the key into the old page a second time.\<close>

theorem ext_remove_stale:
  "\<exists>t. insert_all id [(0, 0), (4, 4), (8, 8), (1, 1), (3, 3), (5, 5)] (new_ext_hash 2) = Inr t
     \<and> snd (ext_remove id t 3) \<and> ext_find id (fst (ext_remove id t 3)) 3 = Some (3 :: nat)"
proof -
  have "case insert_all id [(0, 0), (4, 4), (8, 8), (1, 1), (3, 3), (5, 5)] (new_ext_hash 2) of
     Inl _ \<Rightarrow> False | Inr t \<Rightarrow> snd (ext_remove id t 3) \<and> ext_find id (fst (ext_remove id t 3)) 3 = Some (3 :: nat)"
    by code_simp
  then show ?thesis by (auto split: sum.splits)
qed

subsection \<open>A table that never splits\<close>

text \<open>As long as it holds at most as many keys as fit into a page, the table is a map.\<close>

definition ext_class :: "('k \<Rightarrow> nat) \<Rightarrow> (('k, 'v) ext_hash, 'k, 'v) hash_table" where
  "ext_class hash = \<lparr>ht_find = ext_find hash, ht_remove = ext_remove hash, ht_insert = ext_insert hash\<rparr>"

definition one_page :: "nat \<Rightarrow> ('k, 'v) ext_hash \<Rightarrow> bool" where
  "one_page sz t \<longleftrightarrow> global_depth t = 0 \<and> bucket_size t = sz \<and> buckets t = [0]
     \<and> (\<exists>es. store_pages t = [\<lparr>page_cap = sz, local_depth = 0, elements = es\<rparr>] \<and> distinct (map fst es) \<and> length es \<le> sz)"

lemma dom_find_element: "dom (find_element es) = fst ` set es"
  using find_element_None [of es] by (auto simp: dom_def)

lemma one_pageE:
  assumes "one_page sz t"
  obtains es where "t = \<lparr>global_depth = 0, bucket_size = sz, buckets = [0],
      store_pages = [\<lparr>page_cap = sz, local_depth = 0, elements = es\<rparr>]\<rparr>"
    "distinct (map fst es)" "length es \<le> sz" "ext_find hash t = find_element es" "card (dom (ext_find hash t)) = length es"
proof -
  obtain es where es: "store_pages t = [\<lparr>page_cap = sz, local_depth = 0, elements = es\<rparr>]" "distinct (map fst es)" "length es \<le> sz"
    and t: "global_depth t = 0" "bucket_size t = sz" "buckets t = [0]"
    using assms by (auto simp: one_page_def)
  have f: "ext_find hash t = find_element es" using es t by (simp add: ext_find_def page_at_def fun_eq_iff)
  then have "card (dom (ext_find hash t)) = length es"
    using es(2) distinct_card [of "map fst es"] by (simp add: dom_find_element)
  with es t f show ?thesis by (intro that [of es]) (cases t; simp)+
qed

interpretation one: bounded_map "ext_class hash" "one_page sz" sz for hash :: "'k \<Rightarrow> nat" and sz
proof
  fix t :: "('k, 'v) ext_hash" and k v
  assume ok: "one_page sz t"
  then obtain es where es: "t = \<lparr>global_depth = 0, bucket_size = sz, buckets = [0],
      store_pages = [\<lparr>page_cap = sz, local_depth = 0, elements = es\<rparr>]\<rparr>"
    "distinct (map fst es)" "length es \<le> sz" "ext_find hash t = find_element es" "card (dom (ext_find hash t)) = length es"
    by (rule one_pageE [where hash = hash])
  show "finite (dom (ht_find (ext_class hash) t))" by (simp add: ext_class_def es(4) dom_find_element)
  show "one_page sz (fst (ht_remove (ext_class hash) t k)) \<and>
      ht_find (ext_class hash) (fst (ht_remove (ext_class hash) t k)) = (ht_find (ext_class hash) t)(k := None) \<and>
      snd (ht_remove (ext_class hash) t k) = (ht_find (ext_class hash) t k \<noteq> None)"
    using es(2,3) distinct_remove_element [OF es(2), of k] remove_element_length [of es k]
    by (auto simp: ext_class_def ext_remove_def ext_find_def es(1) one_page_def page_at_def Let_def case_prod_beta
        find_remove_element remove_element_found fun_eq_iff)
  assume room: "card (dom (ht_find (ext_class hash) t)) < sz" and new: "ht_find (ext_class hash) t k = None"
  let ?t = "t\<lparr>store_pages := [\<lparr>page_cap = sz, local_depth = 0, elements = es @ [(k, v)]\<rparr>]\<rparr>"
  have lt: "length es < sz" using room es(5) by (simp add: ext_class_def)
  then have "ext_insert hash t k v = Inr ?t"
    unfolding ext_insert_def by (subst insert_loop.simps)
      (simp add: es(1) IsFull_def page_at_def grow_directory_def insert_at_def page_insert_def Let_def)
  moreover have "one_page sz ?t" "ext_find hash ?t = (ext_find hash t)(k \<mapsto> v)"
    using es(2-4) lt new find_element_None [of es k]
    by (auto simp: es(1) one_page_def ext_class_def ext_find_def page_at_def find_element_append
        fun_eq_iff split: option.splits)
  ultimately show "\<exists>t'. ht_insert (ext_class hash) t k v = Inr t' \<and> one_page sz t' \<and>
      ht_find (ext_class hash) t' = (ht_find (ext_class hash) t)(k \<mapsto> v)"
    by (simp add: ext_class_def)
qed

end
