(* ===== verification/Lru.thy ===== *)
theory Lru
  imports Ext_Hash_Correct
begin

section \<open>The LRU replacer (15445 buffer/lru_replacer.cpp)\<close>

text \<open>
  A linked list of values and a hash table from values to list iterators. The list is modelled with a number for
  every node, the iterator is the number; erasing through an iterator whose node is gone is undefined. The hash
  table is any implementation of \<open>HashTable\<close>.
\<close>

record ('t, 'a) lru =
  order_list :: "(nat \<times> 'a) list"
  next_node :: nat
  lru_map :: 't

definition new_lru :: "'t \<Rightarrow> ('t, 'a) lru" where
  "new_lru m = \<lparr>order_list = [], next_node = 0, lru_map = m\<rparr>"

definition erase_node :: "(nat \<times> 'a) list \<Rightarrow> nat \<Rightarrow> (nat \<times> 'a) list result" where
  "erase_node nodes iter =
     (if iter \<in> fst ` set nodes then Inr (filter (\<lambda>n. fst n \<noteq> iter) nodes) else Inl Undefined)"

definition lru_erase :: "('t, 'a, nat) hash_table \<Rightarrow> ('t, 'a) lru \<Rightarrow> 'a \<Rightarrow> (('t, 'a) lru \<times> bool) result" where
  "lru_erase H s x =
     (case ht_find H (lru_map s) x of
        None \<Rightarrow> Inr (s, False)
      | Some iter \<Rightarrow>
          and_then (erase_node (order_list s) iter) (\<lambda>nodes.
            Inr (s\<lparr>lru_map := fst (ht_remove H (lru_map s) x), order_list := nodes\<rparr>, True)))"

definition lru_insert :: "('t, 'a, nat) hash_table \<Rightarrow> ('t, 'a) lru \<Rightarrow> 'a \<Rightarrow> ('t, 'a) lru result" where
  "lru_insert H s x =
     and_then (lru_erase H s x) (\<lambda>(s1, _).
       let iter = next_node s1;
           s2 = s1\<lparr>order_list := order_list s1 @ [(iter, x)], next_node := Suc iter\<rparr>
       in and_then (ht_insert H (lru_map s2) x iter) (\<lambda>m. Inr (s2\<lparr>lru_map := m\<rparr>)))"

definition lru_size :: "('t, 'a) lru \<Rightarrow> nat" where
  "lru_size s = length (order_list s)"

definition lru_victim :: "('t, 'a, nat) hash_table \<Rightarrow> ('t, 'a) lru \<Rightarrow> ('t, 'a) lru \<times> 'a option" where
  "lru_victim H s =
     (if lru_size s = 0 then (s, None)
      else let x = snd (hd (order_list s)) in
        (s\<lparr>lru_map := fst (ht_remove H (lru_map s) x), order_list := tl (order_list s)\<rparr>, Some x))"

definition lru_class :: "('t, 'a, nat) hash_table \<Rightarrow> (('t, 'a) lru, 'a) replacer_class" where
  "lru_class H = \<lparr>rp_insert = lru_insert H, rp_victim = lru_victim H, rp_erase = lru_erase H, rp_size = lru_size\<rparr>"

subsection \<open>The replacer as a list\<close>

definition node_map :: "(nat \<times> 'a) list \<Rightarrow> 'a \<rightharpoonup> nat" where
  "node_map nodes = map_of (map (\<lambda>(n, x). (x, n)) nodes)"

definition lru_rel :: "('t, 'a, nat) hash_table \<Rightarrow> ('t \<Rightarrow> bool) \<Rightarrow> nat \<Rightarrow> ('t, 'a) lru \<Rightarrow> 'a list \<Rightarrow> bool" where
  "lru_rel H tok cap s xs \<longleftrightarrow> map snd (order_list s) = xs \<and> distinct xs \<and> distinct (map fst (order_list s))
     \<and> list_all (\<lambda>n. fst n < next_node s) (order_list s) \<and> tok (lru_map s)
     \<and> ht_find H (lru_map s) = node_map (order_list s) \<and> length xs \<le> cap"

lemma node_map_dom: "dom (node_map nodes) = snd ` set nodes"
  by (force simp: node_map_def dom_map_of_conv_image_fst)

lemma node_map_None: "node_map nodes x = None \<longleftrightarrow> x \<notin> snd ` set nodes"
  using node_map_dom [of nodes] by (auto simp: domIff)

lemma node_map_Some: "distinct (map snd nodes) \<Longrightarrow> node_map nodes x = Some n \<longleftrightarrow> (n, x) \<in> set nodes"
  by (subst node_map_def, subst map_of_eq_Some_iff) (force simp: comp_def case_prod_beta)+

lemma node_map_snoc: "x \<notin> snd ` set nodes \<Longrightarrow> node_map (nodes @ [(n, x)]) = (node_map nodes)(x \<mapsto> n)"
proof -
  assume "x \<notin> snd ` set nodes"
  then have "node_map nodes x = None" by (simp add: node_map_None)
  then show ?thesis by (auto simp: node_map_def map_add_def fun_eq_iff split: option.splits)
qed

lemma node_map_remove:
  assumes "distinct (map snd nodes)" and "distinct (map fst nodes)" and "(n, x) \<in> set nodes"
  shows "node_map (filter (\<lambda>m. fst m \<noteq> n) nodes) = (node_map nodes)(x := None)"
    and "map snd (filter (\<lambda>m. fst m \<noteq> n) nodes) = remove1 x (map snd nodes)"
proof -
  have "inj_on fst (set nodes)" "inj_on snd (set nodes)" using assms(1,2) by (auto simp: distinct_map)
  then have "fst m = n \<longleftrightarrow> snd m = x" if "m \<in> set nodes" for m
    using inj_onD [of fst "set nodes" m "(n, x)"] inj_onD [of snd "set nodes" m "(n, x)"] that assms(3) by (cases m) auto
  then have f: "filter (\<lambda>m. fst m \<noteq> n) nodes = filter (\<lambda>m. snd m \<noteq> x) nodes" by (intro filter_cong) auto
  show "node_map (filter (\<lambda>m. fst m \<noteq> n) nodes) = (node_map nodes)(x := None)"
    unfolding f by (rule ext) (induction nodes; auto simp: node_map_def)
  show "map snd (filter (\<lambda>m. fst m \<noteq> n) nodes) = remove1 x (map snd nodes)"
    unfolding f distinct_remove1_removeAll [OF assms(1)] by (induction nodes) auto
qed

lemma lru_rel_length: "lru_rel H tok cap s xs \<Longrightarrow> length (order_list s) = length xs"
  by (auto simp: lru_rel_def)

lemma lru_rel_tl:
  assumes "lru_rel H tok cap s (x # xs)"
  shows "node_map (tl (order_list s)) = (node_map (order_list s))(x := None)" "snd (hd (order_list s)) = x" "order_list s \<noteq> []"
    "map snd (tl (order_list s)) = xs"
proof -
  obtain n ns where n: "order_list s = (n, x) # ns" "xs = map snd ns" "x \<notin> set xs"
    using assms by (cases "order_list s") (auto simp: lru_rel_def)
  then have "node_map ns x = None" by (simp add: node_map_None)
  with n show "node_map (tl (order_list s)) = (node_map (order_list s))(x := None)" by (auto simp: node_map_def fun_eq_iff)
  show "snd (hd (order_list s)) = x" "order_list s \<noteq> []" "map snd (tl (order_list s)) = xs" using n by simp_all
qed

text \<open>The replacer on any table that keeps the contract of a bounded map.\<close>

locale lru_table = bounded_map H tok cap for H :: "('t, 'a, nat) hash_table" and tok and cap
begin

lemma erase_rel:
  assumes r: "lru_rel H tok cap s xs"
  shows "\<exists>s'. lru_erase H s x = Inr (s', x \<in> set xs) \<and> lru_rel H tok cap s' (remove1 x xs)"
proof (cases "ht_find H (lru_map s) x")
  case None
  then have "x \<notin> set xs" using r by (auto simp: lru_rel_def node_map_None)
  with None r show ?thesis by (simp add: lru_erase_def remove1_idem)
next
  case (Some n)
  let ?nodes = "filter (\<lambda>m. fst m \<noteq> n) (order_list s)"
  have d: "distinct (map snd (order_list s))" "distinct (map fst (order_list s))" "tok (lru_map s)"
    and f: "ht_find H (lru_map s) = node_map (order_list s)" using r by (auto simp: lru_rel_def)
  have n: "(n, x) \<in> set (order_list s)" using Some f node_map_Some [OF d(1)] by simp
  obtain m where m: "ht_remove H (lru_map s) x = (m, ht_find H (lru_map s) x \<noteq> None)" "tok m"
    "ht_find H m = (ht_find H (lru_map s))(x := None)" by (rule remove_cases [OF d(3)])
  have "n \<in> fst ` set (order_list s)" using n by force
  then have e: "lru_erase H s x = Inr (s\<lparr>lru_map := m, order_list := ?nodes\<rparr>, True)"
    using Some m(1) by (simp add: lru_erase_def erase_node_def)
  have "lru_rel H tok cap (s\<lparr>lru_map := m, order_list := ?nodes\<rparr>) (remove1 x xs)"
    using r m(2,3) node_map_remove [OF d(1,2) n] f
    by (auto simp: lru_rel_def list_all_iff distinct_map_filter length_remove1 distinct_remove1)
  moreover have "x \<in> set xs" using n r by (force simp: lru_rel_def)
  ultimately show ?thesis using e by simp
qed

lemma insert_rel:
  assumes r: "lru_rel H tok cap s xs" and room: "length (remove1 x xs) < cap"
  shows "\<exists>s'. lru_insert H s x = Inr s' \<and> lru_rel H tok cap s' (remove1 x xs @ [x])"
proof -
  obtain s1 where s1: "lru_erase H s x = Inr (s1, x \<in> set xs)" "lru_rel H tok cap s1 (remove1 x xs)"
    using erase_rel [OF r] by blast
  have x: "x \<notin> set (remove1 x xs)" using r by (simp add: lru_rel_def)
  then have new: "x \<notin> snd ` set (order_list s1)" using s1(2) by (simp add: lru_rel_def flip: set_map)
  have t: "tok (lru_map s1)" "ht_find H (lru_map s1) = node_map (order_list s1)"
    "distinct (map snd (order_list s1))" using s1(2) by (auto simp: lru_rel_def)
  have "card (dom (ht_find H (lru_map s1))) = length (order_list s1)"
    using distinct_card [OF t(3)] t(2) by (simp add: node_map_dom)
  then have "card (dom (ht_find H (lru_map s1))) < cap" using room lru_rel_length [OF s1(2)] by simp
  moreover have "ht_find H (lru_map s1) x = None" using new t(2) by (simp add: node_map_None)
  ultimately obtain m where m: "ht_insert H (lru_map s1) x (next_node s1) = Inr m" "tok m"
    "ht_find H m = (ht_find H (lru_map s1))(x \<mapsto> next_node s1)" by (rule insert_cases [OF t(1)])
  have "lru_rel H tok cap (s1\<lparr>order_list := order_list s1 @ [(next_node s1, x)], next_node := Suc (next_node s1), lru_map := m\<rparr>)
      (remove1 x xs @ [x])"
    using s1(2) m(2,3) room x by (auto simp: lru_rel_def list_all_iff t(2) node_map_snoc [OF new] less_Suc_eq)
  then show ?thesis using s1(1) m(1) by (simp add: lru_insert_def Let_def)
qed

lemma victim_rel:
  assumes r: "lru_rel H tok cap s xs"
  shows "case xs of [] \<Rightarrow> lru_victim H s = (s, None) | x # ys \<Rightarrow> \<exists>s'. lru_victim H s = (s', Some x) \<and> lru_rel H tok cap s' ys"
proof (cases xs)
  case Nil
  then show ?thesis using r by (auto simp: lru_rel_def lru_victim_def lru_size_def)
next
  case (Cons x ys)
  note tl = lru_rel_tl [OF r [unfolded Cons]]
  have "tok (lru_map s)" using r by (simp add: lru_rel_def)
  then obtain m where m: "ht_remove H (lru_map s) x = (m, ht_find H (lru_map s) x \<noteq> None)" "tok m"
    "ht_find H m = (ht_find H (lru_map s))(x := None)" by (rule remove_cases)
  have "lru_rel H tok cap (s\<lparr>lru_map := m, order_list := tl (order_list s)\<rparr>) ys"
    using r m(2,3) tl Cons by (cases "order_list s") (auto simp: lru_rel_def)
  then show ?thesis using m(1) tl Cons by (simp add: lru_victim_def lru_size_def)
qed

end

sublocale lru_table \<subseteq> lru: replacer_spec "lru_class H" "lru_rel H tok cap" cap
proof
  fix r xs and x :: 'a
  assume rel: "lru_rel H tok cap r xs"
  show "distinct xs" using rel by (simp add: lru_rel_def)
  show "case xs of [] \<Rightarrow> rp_victim (lru_class H) r = (r, None)
      | x # ys \<Rightarrow> \<exists>r'. rp_victim (lru_class H) r = (r', Some x) \<and> lru_rel H tok cap r' ys"
    using victim_rel [OF rel] by (cases xs) (auto simp: lru_class_def)
  show "\<exists>r'. rp_erase (lru_class H) r x = Inr (r', x \<in> set xs) \<and> lru_rel H tok cap r' (remove1 x xs)"
    using erase_rel [OF rel] by (simp add: lru_class_def)
  show "rp_size (lru_class H) r = length xs" using lru_rel_length [OF rel] by (simp add: lru_class_def lru_size_def)
  assume "length (remove1 x xs) < cap"
  then show "\<exists>r'. rp_insert (lru_class H) r x = Inr r' \<and> lru_rel H tok cap r' (remove1 x xs @ [x])"
    using insert_rel [OF rel] by (simp add: lru_class_def)
qed

interpretation lru8: lru_table "ext_class hash" "one_page 8" 8 for hash :: "'a \<Rightarrow> nat" ..

text \<open>The operations of a replacer and what they do to a list without duplicates.\<close>

datatype 'a lru_op = Lru_insert 'a | Lru_victim | Lru_erase 'a

fun lru_run :: "('t, 'a, nat) hash_table \<Rightarrow> ('t, 'a) lru \<Rightarrow> 'a lru_op list \<Rightarrow> (('t, 'a) lru \<times> 'a option list) result" where
  "lru_run H s [] = Inr (s, [])"
| "lru_run H s (Lru_insert x # ops) = and_then (lru_insert H s x) (\<lambda>s'. lru_run H s' ops)"
| "lru_run H s (Lru_erase x # ops) = and_then (lru_erase H s x) (\<lambda>(s', _). lru_run H s' ops)"
| "lru_run H s (Lru_victim # ops) =
     (let (s', v) = lru_victim H s in and_then (lru_run H s' ops) (\<lambda>(s'', vs). Inr (s'', v # vs)))"

fun list_run :: "'a list \<Rightarrow> 'a lru_op list \<Rightarrow> 'a list \<times> 'a option list" where
  "list_run xs [] = (xs, [])"
| "list_run xs (Lru_insert x # ops) = list_run (remove1 x xs @ [x]) ops"
| "list_run xs (Lru_erase x # ops) = list_run (remove1 x xs) ops"
| "list_run [] (Lru_victim # ops) = (let (ys, vs) = list_run [] ops in (ys, None # vs))"
| "list_run (x # xs) (Lru_victim # ops) = (let (ys, vs) = list_run xs ops in (ys, Some x # vs))"

fun fits_room :: "nat \<Rightarrow> 'a list \<Rightarrow> 'a lru_op list \<Rightarrow> bool" where
  "fits_room cap xs [] = True"
| "fits_room cap xs (Lru_insert x # ops) = (length (remove1 x xs) < cap \<and> fits_room cap (remove1 x xs @ [x]) ops)"
| "fits_room cap xs (Lru_erase x # ops) = fits_room cap (remove1 x xs) ops"
| "fits_room cap xs (Lru_victim # ops) = fits_room cap (tl xs) ops"

context lru_table
begin

lemma run_refines:
  "lru_rel H tok cap s xs \<Longrightarrow> fits_room cap xs ops \<Longrightarrow>
     \<exists>s'. lru_run H s ops = Inr (s', snd (list_run xs ops)) \<and> lru_rel H tok cap s' (fst (list_run xs ops))"
proof (induction xs ops arbitrary: s rule: list_run.induct)
  case (2 xs x ops)
  then obtain s' where "lru_insert H s x = Inr s'" "lru_rel H tok cap s' (remove1 x xs @ [x])"
    using insert_rel [OF 2(2), of x] by auto
  with 2 show ?case by simp
next
  case (3 xs x ops)
  then obtain s' where "lru_erase H s x = Inr (s', x \<in> set xs)" "lru_rel H tok cap s' (remove1 x xs)"
    using erase_rel [OF 3(2), of x] by auto
  with 3 show ?case by simp
next
  case (4 ops)
  then have "lru_victim H s = (s, None)" using victim_rel [of s "[]"] by simp
  with 4 show ?case by (force simp: case_prod_beta)
next
  case (5 x xs ops)
  then obtain s' where "lru_victim H s = (s', Some x)" "lru_rel H tok cap s' xs" using victim_rel [of s "x # xs"] by auto
  with 5 show ?case by (force simp: case_prod_beta)
qed simp

end

text \<open>C19. The replacer with its extendible hash table (pages of 8 elements) implements a list without duplicates: any
  sequence of \<open>Insert\<close>, \<open>Erase\<close> and \<open>Victim\<close> on a new replacer that never holds more than 8 values returns the
  victims of the list, least recently inserted first, and leaves its values in the order list.\<close>

theorem lru_refines_list:
  assumes "fits_room 8 [] ops"
  shows "\<exists>s'. lru_run (ext_class hash) (new_lru (new_ext_hash 8)) ops = Inr (s', snd (list_run [] ops))
    \<and> map snd (order_list s') = fst (list_run [] ops)"
proof -
  have "lru_rel (ext_class hash) (one_page 8) 8 (new_lru (new_ext_hash 8)) []"
    by (simp add: lru_rel_def new_lru_def new_ext_hash_def one_page_def new_hash_page_def ext_class_def ext_find_def
        page_at_def node_map_def fun_eq_iff)
  from lru8.run_refines [OF this assms] show ?thesis by (auto simp: lru_rel_def)
qed

theorem lru_refines_list_witness:
  "\<exists>s'. lru_run (ext_class id) (new_lru (new_ext_hash 8)) [Lru_insert 5, Lru_insert 6, Lru_insert 5, Lru_victim]
       = Inr (s', [Some (6 :: nat)]) \<and> map snd (order_list s') = [5]"
  using lru_refines_list [of "[Lru_insert 5, Lru_insert 6, Lru_insert 5, Lru_victim]" id] by simp

end
