(* ===== verification/Buffer_Pool.thy ===== *)
theory Buffer_Pool
  imports Disk Lru
begin

section \<open>The buffer pool manager (15445 buffer/buffer_pool_manager.cpp)\<close>

text \<open>
  The frames of the pool are a list, a \<open>Page *\<close> is an index into it. The page table and the replacer are any
  implementations of \<open>HashTable\<close> and \<open>Replacer\<close>, as in the class. Pin counts are unbounded
  integers; their overflow as an \<open>int\<close>, after \<open>2 ^ 31\<close> fetches without an unpin, is not modelled.
\<close>

record frame =
  frame_data :: bytes
  frame_page :: int
  pin_count :: int
  is_dirty :: bool

definition new_frame :: frame where
  "new_frame = \<lparr>frame_data = (\<lambda>_. 0), frame_page = INVALID_PAGE_ID, pin_count = 0, is_dirty = False\<rparr>"

definition ResetMemory :: "frame \<Rightarrow> frame" where
  "ResetMemory pg = pg\<lparr>frame_data := memset (frame_data pg) 0 0 (nat PAGE_SIZE)\<rparr>"

record ('t, 'r) pool =
  frames :: "frame list"
  page_table :: 't
  replacer :: 'r
  free_list :: "nat list"
  disk_manager :: disk

definition new_pool :: "nat \<Rightarrow> 't \<Rightarrow> 'r \<Rightarrow> disk \<Rightarrow> ('t, 'r) pool" where
  "new_pool pool_size t r dk =
     \<lparr>frames = replicate pool_size new_frame, page_table = t, replacer = r, free_list = [0..<pool_size], disk_manager = dk\<rparr>"

abbreviation frame_at :: "('t, 'r) pool \<Rightarrow> nat \<Rightarrow> frame" where
  "frame_at s f \<equiv> frames s ! f"

definition set_frame :: "('t, 'r) pool \<Rightarrow> nat \<Rightarrow> frame \<Rightarrow> ('t, 'r) pool" where
  "set_frame s f pg = s\<lparr>frames := (frames s)[f := pg]\<rparr>"

text \<open>A frame for another page: from the free list, or the victim of the replacer.\<close>

definition take_frame :: "('r, nat) replacer_class \<Rightarrow> ('t, 'r) pool \<Rightarrow> ('t, 'r) pool \<times> nat option" where
  "take_frame R s =
     (case free_list s of
        f # fs \<Rightarrow> (s\<lparr>free_list := fs\<rparr>, Some f)
      | [] \<Rightarrow> let (r, v) = rp_victim R (replacer s) in (s\<lparr>replacer := r\<rparr>, v))"

definition write_back :: "('t, 'r) pool \<Rightarrow> nat \<Rightarrow> ('t, 'r) pool result" where
  "write_back s f =
     and_then (WritePage (disk_manager s) (frame_page (frame_at s f)) (frame_data (frame_at s f)))
       (\<lambda>dk. Inr (s\<lparr>disk_manager := dk\<rparr>))"

definition FetchPage ::
  "('t, int, nat) hash_table \<Rightarrow> ('r, nat) replacer_class \<Rightarrow> ('t, 'r) pool \<Rightarrow> int \<Rightarrow> (('t, 'r) pool \<times> nat option) result" where
  "FetchPage H R s page_id =
     (case ht_find H (page_table s) page_id of
        Some f \<Rightarrow> Inr (set_frame s f ((frame_at s f)\<lparr>pin_count := pin_count (frame_at s f) + 1\<rparr>), Some f)
      | None \<Rightarrow>
          (case take_frame R s of
             (s1, None) \<Rightarrow> Inr (s1, None)
           | (s1, Some f) \<Rightarrow>
               and_then (if is_dirty (frame_at s1 f) then write_back s1 f else Inr s1) (\<lambda>s2.
                 let pg = frame_at s2 f;
                     s3 = s2\<lparr>page_table := fst (ht_remove H (page_table s2) (frame_page pg))\<rparr>
                 in and_then (ReadPage (disk_manager s3) page_id (frame_data pg)) (\<lambda>(dk, d).
                   let s4 = set_frame (s3\<lparr>disk_manager := dk\<rparr>) f
                         \<lparr>frame_data = d, frame_page = page_id, pin_count = pin_count pg + 1, is_dirty = False\<rparr>
                   in and_then (ht_insert H (page_table s4) page_id f)
                        (\<lambda>t. Inr (s4\<lparr>page_table := t\<rparr>, Some f))))))"

definition UnpinPage ::
  "('t, int, nat) hash_table \<Rightarrow> ('r, nat) replacer_class \<Rightarrow> ('t, 'r) pool \<Rightarrow> int \<Rightarrow> bool \<Rightarrow> (('t, 'r) pool \<times> bool) result" where
  "UnpinPage H R s page_id dirty =
     (case ht_find H (page_table s) page_id of
        None \<Rightarrow> Inr (s, False)
      | Some f \<Rightarrow>
          let pg = frame_at s f in
          if pin_count pg \<le> 0 then Inr (s, False)
          else let s1 = set_frame s f (pg\<lparr>is_dirty := dirty, pin_count := pin_count pg - 1\<rparr>) in
            if pin_count pg - 1 = 0
            then and_then (rp_insert R (replacer s1) f) (\<lambda>r. Inr (s1\<lparr>replacer := r\<rparr>, True))
            else Inr (s1, True))"

definition FlushPage :: "('t, int, nat) hash_table \<Rightarrow> ('t, 'r) pool \<Rightarrow> int \<Rightarrow> (('t, 'r) pool \<times> bool) result" where
  "FlushPage H s page_id =
     (if page_id = INVALID_PAGE_ID then Inr (s, False)
      else case ht_find H (page_table s) page_id of
        None \<Rightarrow> Inr (s, False)
      | Some f \<Rightarrow> and_then (write_back s f) (\<lambda>s1. Inr (set_frame s1 f ((frame_at s1 f)\<lparr>is_dirty := False\<rparr>), True)))"

fun flush_loop :: "('t, 'r) pool \<Rightarrow> nat list \<Rightarrow> ('t, 'r) pool result" where
  "flush_loop s [] = Inr s"
| "flush_loop s (i # is) = and_then (if is_dirty (frame_at s i) then write_back s i else Inr s) (\<lambda>s1. flush_loop s1 is)"

definition FlushAllPages :: "('t, 'r) pool \<Rightarrow> ('t, 'r) pool result" where
  "FlushAllPages s = flush_loop s [0..<length (frames s)]"

definition DeletePage :: "('t, int, nat) hash_table \<Rightarrow> ('t, 'r) pool \<Rightarrow> int \<Rightarrow> ('t, 'r) pool \<times> bool" where
  "DeletePage H s page_id =
     (case ht_find H (page_table s) page_id of
        Some f \<Rightarrow>
          if pin_count (frame_at s f) > 0 then (s, False)
          else let s1 = s\<lparr>page_table := fst (ht_remove H (page_table s) page_id)\<rparr>;
                   s2 = set_frame s1 f ((frame_at s1 f)\<lparr>frame_page := INVALID_PAGE_ID, pin_count := 0, is_dirty := False\<rparr>)
               in (s2\<lparr>free_list := free_list s2 @ [f], disk_manager := DeallocatePage (disk_manager s2) page_id\<rparr>, False)
      | None \<Rightarrow> (s\<lparr>disk_manager := DeallocatePage (disk_manager s) page_id\<rparr>, False))"

definition NewPage ::
  "('t, int, nat) hash_table \<Rightarrow> ('r, nat) replacer_class \<Rightarrow> ('t, 'r) pool \<Rightarrow> (('t, 'r) pool \<times> int \<times> nat option) result" where
  "NewPage H R s =
     (let (dk, page_id) = AllocatePage (disk_manager s); s0 = s\<lparr>disk_manager := dk\<rparr> in
      case take_frame R s0 of
        (s1, None) \<Rightarrow> Inr (s1, page_id, None)
      | (s1, Some f) \<Rightarrow>
          and_then
            (if free_list s0 \<noteq> [] then Inr s1
             else and_then (FlushPage H s1 (frame_page (frame_at s1 f))) (\<lambda>(s2, _).
               Inr (s2\<lparr>page_table := fst (ht_remove H (page_table s2) (frame_page (frame_at s2 f)))\<rparr>)))
            (\<lambda>s3. let pg = ResetMemory (frame_at s3 f);
                      s4 = set_frame s3 f (pg\<lparr>pin_count := pin_count pg + 1, frame_page := page_id\<rparr>)
                  in and_then (ht_insert H (page_table s4) page_id f) (\<lambda>t. Inr (s4\<lparr>page_table := t\<rparr>, page_id, Some f))))"

end
