(* ===== verification/Table_Heap.thy ===== *)
theory Table_Heap
  imports Buffer_Pool Tuple
begin

section \<open>Table heaps (15445 table/table_heap.cpp, table/table_iterator.cpp)\<close>

text \<open>
  A table is a list of slotted pages in the buffer pool, linked by their page numbers. A \<open>TablePage *\<close> is the index of
  a frame; calling a method through a null pointer is undefined. The state is the pool; \<open>first\<close> is \<open>first_page_id_\<close>.
  A tuple that \<open>GetTuple\<close> returns points into a frame: the frame, the size and the offset.
\<close>

abbreviation data_at :: "('t, 'r) pool \<Rightarrow> nat \<Rightarrow> bytes" where
  "data_at s f \<equiv> frame_data (frame_at s f)"

definition set_data :: "('t, 'r) pool \<Rightarrow> nat \<Rightarrow> bytes \<Rightarrow> ('t, 'r) pool" where
  "set_data s f d = set_frame s f ((frame_at s f)\<lparr>frame_data := d\<rparr>)"

definition on_page :: "('t, 'r) pool \<Rightarrow> nat \<Rightarrow> (bytes \<Rightarrow> (bytes \<times> 'a) result) \<Rightarrow> (('t, 'r) pool \<times> 'a) result" where
  "on_page s f g = and_then (g (data_at s f)) (\<lambda>(d, x). Inr (set_data s f d, x))"

definition new_TableHeap ::
  "('t, int, nat) hash_table \<Rightarrow> ('r, nat) replacer_class \<Rightarrow> ('t, 'r) pool \<Rightarrow> int \<Rightarrow> (('t, 'r) pool \<times> int) result" where
  "new_TableHeap H R s first =
     (if first = INVALID_PAGE_ID
      then and_then (NewPage H R s) (\<lambda>(s1, pid, pg).
        case pg of None \<Rightarrow> Inl Assert_fails
        | Some f \<Rightarrow>
            and_then (TablePage_Init (data_at s1 f) pid PAGE_SIZE INVALID_PAGE_ID INVALID_PAGE_ID) (\<lambda>d.
            and_then (UnpinPage H R (set_data s1 f d) pid True) (\<lambda>(s2, _). Inr (s2, pid))))
      else Inr (s, first))"

text \<open>One test of the loop of \<open>InsertTuple\<close> with its body: \<open>Inr rid\<close> when the tuple has been inserted, \<open>Inl f\<close> with the page
  to try next.\<close>

definition insert_try ::
  "('t, int, nat) hash_table \<Rightarrow> ('r, nat) replacer_class \<Rightarrow> u8 list \<Rightarrow> ('t, 'r) pool \<Rightarrow> nat \<Rightarrow> (('t, 'r) pool \<times> (nat + rid)) result" where
  "insert_try H R tuple s cur =
     and_then (on_page s cur (\<lambda>d. InsertTuple d tuple)) (\<lambda>(s1, r).
       case r of Some rid \<Rightarrow> Inr (s1, Inr rid)
       | None \<Rightarrow> and_then (GetNextPageId (data_at s1 cur)) (\<lambda>nxt.
           if nxt \<noteq> INVALID_PAGE_ID
           then and_then (GetPageId (data_at s1 cur)) (\<lambda>pid. and_then (UnpinPage H R s1 pid False) (\<lambda>(s2, _).
             and_then (FetchPage H R s2 nxt) (\<lambda>(s3, pg).
               case pg of None \<Rightarrow> Inl Undefined | Some f \<Rightarrow> Inr (s3, Inl f))))
           else and_then (NewPage H R s1) (\<lambda>(s2, new_id, pg).
             case pg of None \<Rightarrow> Inl Assert_fails
             | Some f \<Rightarrow>
                 and_then (SetNextPageId (data_at s2 cur) new_id) (\<lambda>d. let s3 = set_data s2 cur d in
                 and_then (GetPageId (data_at s3 cur)) (\<lambda>prev.
                 and_then (TablePage_Init (data_at s3 f) new_id PAGE_SIZE prev INVALID_PAGE_ID) (\<lambda>d. let s4 = set_data s3 f d in
                 and_then (GetPageId (data_at s4 cur)) (\<lambda>pid.
                 and_then (UnpinPage H R s4 pid True) (\<lambda>(s5, _). Inr (s5, Inl f)))))))))"

partial_function (option) heap_insert_loop ::
  "('t, int, nat) hash_table \<Rightarrow> ('r, nat) replacer_class \<Rightarrow> u8 list \<Rightarrow> ('t, 'r) pool \<Rightarrow> nat \<Rightarrow> (('t, 'r) pool \<times> nat \<times> rid) result option" where
  [code]: "heap_insert_loop H R tuple s cur =
     (case insert_try H R tuple s cur of
        Inl e \<Rightarrow> Some (Inl e)
      | Inr (s', Inr rid) \<Rightarrow> Some (Inr (s', cur, rid))
      | Inr (s', Inl f) \<Rightarrow> heap_insert_loop H R tuple s' f)"

definition heap_InsertTuple ::
  "('t, int, nat) hash_table \<Rightarrow> ('r, nat) replacer_class \<Rightarrow> ('t, 'r) pool \<Rightarrow> int \<Rightarrow> u8 list \<Rightarrow> (('t, 'r) pool \<times> rid option) result" where
  "heap_InsertTuple H R s first tuple =
     (if int (length tuple) + 28 > PAGE_SIZE then Inr (s, None)
      else and_then (FetchPage H R s first) (\<lambda>(s1, pg).
        case pg of None \<Rightarrow> Inl Undefined
        | Some f \<Rightarrow> and_then (and_then (returns (heap_insert_loop H R tuple s1 f)) id) (\<lambda>(s2, cur, rid).
            and_then (GetPageId (data_at s2 cur)) (\<lambda>pid.
            and_then (UnpinPage H R s2 pid True) (\<lambda>(s3, _). Inr (s3, Some rid))))))"

definition heap_DeleteTuple ::
  "('t, int, nat) hash_table \<Rightarrow> ('r, nat) replacer_class \<Rightarrow> ('t, 'r) pool \<Rightarrow> rid \<Rightarrow> (('t, 'r) pool \<times> bool) result" where
  "heap_DeleteTuple H R s r =
     and_then (FetchPage H R s (rid_page r)) (\<lambda>(s1, pg).
       case pg of None \<Rightarrow> and_then (UnpinPage H R s1 (rid_page r) False) (\<lambda>(s2, _). Inr (s2, False))
       | Some f \<Rightarrow> and_then (on_page s1 f (\<lambda>d. DeleteTuple d r)) (\<lambda>(s2, is_deleted).
           and_then (GetPageId (data_at s2 f)) (\<lambda>pid.
           and_then (UnpinPage H R s2 pid is_deleted) (\<lambda>(s3, _). Inr (s3, is_deleted)))))"

definition heap_UpdateTuple ::
  "('t, int, nat) hash_table \<Rightarrow> ('r, nat) replacer_class \<Rightarrow> ('t, 'r) pool \<Rightarrow> u8 list \<Rightarrow> rid \<Rightarrow> (('t, 'r) pool \<times> bool) result" where
  "heap_UpdateTuple H R s tuple r =
     and_then (FetchPage H R s (rid_page r)) (\<lambda>(s1, pg).
       case pg of None \<Rightarrow> and_then (UnpinPage H R s1 (rid_page r) False) (\<lambda>(s2, _). Inr (s2, False))
       | Some f \<Rightarrow> and_then (on_page s1 f (\<lambda>d. UpdateTuple d tuple r)) (\<lambda>(s2, is_updated).
           and_then (GetPageId (data_at s2 f)) (\<lambda>pid.
           and_then (UnpinPage H R s2 pid is_updated) (\<lambda>(s3, _). Inr (s3, is_updated)))))"

type_synonym tuple_ref = "nat \<times> int \<times> int"

definition heap_GetTuple ::
  "('t, int, nat) hash_table \<Rightarrow> ('r, nat) replacer_class \<Rightarrow> ('t, 'r) pool \<Rightarrow> rid \<Rightarrow> (('t, 'r) pool \<times> tuple_ref option) result" where
  "heap_GetTuple H R s r =
     and_then (FetchPage H R s (rid_page r)) (\<lambda>(s1, pg).
       case pg of None \<Rightarrow> Inr (s1, None)
       | Some f \<Rightarrow> and_then (GetTuple (data_at s1 f) r) (\<lambda>t.
           and_then (UnpinPage H R s1 (rid_page r) False) (\<lambda>(s2, _). Inr (s2, map_option (Pair f) t))))"

text \<open>What a tuple that points into the pool contains.\<close>

definition ref_bytes :: "('t, 'r) pool \<Rightarrow> tuple_ref \<Rightarrow> u8 list" where
  "ref_bytes s r = tuple_bytes (data_at s (fst r)) (snd r)"

subsection \<open>Iterators\<close>

text \<open>The record identifier of \<open>tuple_\<close>, and where it points to once \<open>GetTuple\<close> has succeeded.\<close>

record table_iterator =
  it_rid :: rid
  it_tuple :: "tuple_ref option"

definition same_iterator :: "table_iterator \<Rightarrow> table_iterator \<Rightarrow> bool" where
  "same_iterator a b \<longleftrightarrow> RID_Get (it_rid a) = RID_Get (it_rid b)"

definition iter_load ::
  "('t, int, nat) hash_table \<Rightarrow> ('r, nat) replacer_class \<Rightarrow> ('t, 'r) pool \<Rightarrow> table_iterator \<Rightarrow> (('t, 'r) pool \<times> table_iterator) result" where
  "iter_load H R s it = and_then (heap_GetTuple H R s (it_rid it)) (\<lambda>(s1, t).
     Inr (s1, case t of None \<Rightarrow> it | Some r \<Rightarrow> it\<lparr>it_tuple := Some r\<rparr>))"

definition new_TableIterator ::
  "('t, int, nat) hash_table \<Rightarrow> ('r, nat) replacer_class \<Rightarrow> ('t, 'r) pool \<Rightarrow> rid \<Rightarrow> (('t, 'r) pool \<times> table_iterator) result" where
  "new_TableIterator H R s r =
     (let it = \<lparr>it_rid = r, it_tuple = None\<rparr> in if rid_page r \<noteq> INVALID_PAGE_ID then iter_load H R s it else Inr (s, it))"

definition heap_begin ::
  "('t, int, nat) hash_table \<Rightarrow> ('r, nat) replacer_class \<Rightarrow> ('t, 'r) pool \<Rightarrow> int \<Rightarrow> (('t, 'r) pool \<times> table_iterator) result" where
  "heap_begin H R s first =
     and_then (FetchPage H R s first) (\<lambda>(s1, pg).
       case pg of None \<Rightarrow> Inl Undefined
       | Some f \<Rightarrow> and_then (GetFirstTupleRid (data_at s1 f)) (\<lambda>(r, _).
           and_then (UnpinPage H R s1 first False) (\<lambda>(s2, _). new_TableIterator H R s2 r)))"

definition heap_end :: table_iterator where
  "heap_end = \<lparr>it_rid = invalid_rid, it_tuple = None\<rparr>"

definition iter_deref :: "table_iterator \<Rightarrow> tuple_ref option result" where
  "iter_deref it = (if same_iterator it heap_end then Inl Assert_fails else Inr (it_tuple it))"

text \<open>The search of \<open>operator++\<close> for the next record identifier, with the current page pinned.\<close>

definition iter_next_rid ::
  "('t, int, nat) hash_table \<Rightarrow> ('r, nat) replacer_class \<Rightarrow> ('t, 'r) pool \<Rightarrow> nat \<Rightarrow> rid \<Rightarrow> (('t, 'r) pool \<times> rid) result" where
  "iter_next_rid H R s1 cur cur_rid =
     and_then (GetNextTupleRid (data_at s1 cur) cur_rid) (\<lambda>nr.
       case nr of Some r \<Rightarrow> Inr (s1, r)
       | None \<Rightarrow> and_then (GetNextPageId (data_at s1 cur)) (\<lambda>nxt.
           if nxt \<noteq> INVALID_PAGE_ID
           then and_then (FetchPage H R s1 nxt) (\<lambda>(s2, pg).
             case pg of None \<Rightarrow> Inl Undefined
             | Some f \<Rightarrow> and_then (GetFirstTupleRid (data_at s2 f)) (\<lambda>(r, _).
                 and_then (GetNextPageId (data_at s2 cur)) (\<lambda>nxt2.
                 and_then (UnpinPage H R s2 nxt2 False) (\<lambda>(s3, _). Inr (s3, r)))))
           else Inr (s1, invalid_rid)))"

definition iter_next ::
  "('t, int, nat) hash_table \<Rightarrow> ('r, nat) replacer_class \<Rightarrow> ('t, 'r) pool \<Rightarrow> table_iterator \<Rightarrow> (('t, 'r) pool \<times> table_iterator) result" where
  "iter_next H R s it =
     and_then (FetchPage H R s (rid_page (it_rid it))) (\<lambda>(s1, pg).
       case pg of None \<Rightarrow> Inl Assert_fails
       | Some cur \<Rightarrow>
           and_then (iter_next_rid H R s1 cur (it_rid it)) (\<lambda>(s4, r).
             and_then (UnpinPage H R s4 (rid_page (it_rid it)) False) (\<lambda>(s5, _).
               let it1 = it\<lparr>it_rid := r\<rparr> in
               if \<not> same_iterator it1 heap_end then iter_load H R s5 it1 else Inr (s5, it1))))"

text \<open>\<open>operator++(int)\<close> copies the iterator first; the copy shares the pointer \<open>tuple_\<close>, so it moves with it.\<close>

definition iter_post_next ::
  "('t, int, nat) hash_table \<Rightarrow> ('r, nat) replacer_class \<Rightarrow> ('t, 'r) pool \<Rightarrow> table_iterator \<Rightarrow> (('t, 'r) pool \<times> table_iterator \<times> table_iterator) result" where
  "iter_post_next H R s it = and_then (iter_next H R s it) (\<lambda>(s1, it1). Inr (s1, it1, it1))"

end
