(* ===== verification/Header_Page.thy ===== *)
theory Header_Page
  imports Page_Mem
begin

section \<open>The header page (15445 page/header_page.cpp)\<close>

text \<open>
  Page 0 of the database maps the names of tables and indexes to their root pages: a record count and records of a
  32-byte name and a root page number. A name is the bytes of the \<open>std::string\<close>; \<open>c_str()\<close> adds the terminating
  zero.
\<close>

definition GetRecordCount :: "bytes \<Rightarrow> int result" where "GetRecordCount d = get32 d 0"
definition SetRecordCount :: "bytes \<Rightarrow> int \<Rightarrow> bytes result" where "SetRecordCount d n = put32 d 0 n"

text \<open>\<open>strcmp(raw_name, name.c_str()) == 0\<close>.\<close>

fun same_name :: "bytes \<Rightarrow> int \<Rightarrow> u8 list \<Rightarrow> bool result" where
  "same_name d a [] = (if in_page a 1 then Inr (d a = 0) else Inl Undefined)"
| "same_name d a (c # cs) =
     (if \<not> in_page a 1 then Inl Undefined else if d a \<noteq> c then Inr False else if c = 0 then Inr True else same_name d (a + 1) cs)"

fun find_record_loop :: "bytes \<Rightarrow> u8 list \<Rightarrow> int \<Rightarrow> nat \<Rightarrow> int result" where
  "find_record_loop d name i 0 = Inr (-1)"
| "find_record_loop d name i (Suc k) =
     and_then (same_name d (4 + i * 36) name) (\<lambda>b. if b then Inr i else find_record_loop d name (i + 1) k)"

definition FindRecord :: "bytes \<Rightarrow> u8 list \<Rightarrow> int result" where
  "FindRecord d name = and_then (GetRecordCount d) (\<lambda>n. find_record_loop d name 0 (nat n))"

definition InsertRecord :: "bytes \<Rightarrow> u8 list \<Rightarrow> int \<Rightarrow> (bytes \<times> bool) result" where
  "InsertRecord d name root_id =
     (if length name \<ge> 32 \<or> root_id \<le> INVALID_PAGE_ID then Inl Assert_fails
      else and_then (GetRecordCount d) (\<lambda>n. and_then (c_int (4 + n * 36)) (\<lambda>offset. and_then (FindRecord d name) (\<lambda>i.
        if i \<noteq> -1 then Inr (d, False)
        else and_then (put_bytes d offset (name @ [0])) (\<lambda>d1. and_then (put32 d1 (offset + 32) root_id) (\<lambda>d2.
          and_then (SetRecordCount d2 (n + 1)) (\<lambda>d3. Inr (d3, True))))))))"

definition DeleteRecord :: "bytes \<Rightarrow> u8 list \<Rightarrow> (bytes \<times> bool) result" where
  "DeleteRecord d name =
     and_then (GetRecordCount d) (\<lambda>n. if n \<le> 0 then Inl Assert_fails
      else and_then (FindRecord d name) (\<lambda>i. if i = -1 then Inr (d, False)
      else and_then (move_bytes d (i * 36 + 4) (i * 36 + 4 + 36) ((n - i - 1) * 36)) (\<lambda>d1.
        and_then (SetRecordCount d1 (n - 1)) (\<lambda>d2. Inr (d2, True)))))"

definition UpdateRecord :: "bytes \<Rightarrow> u8 list \<Rightarrow> int \<Rightarrow> (bytes \<times> bool) result" where
  "UpdateRecord d name root_id =
     (if length name \<ge> 32 then Inl Assert_fails
      else and_then (FindRecord d name) (\<lambda>i. if i = -1 then Inr (d, False)
        else and_then (put32 d (i * 36 + 4 + 32) root_id) (\<lambda>d1. Inr (d1, True))))"

definition GetRootId :: "bytes \<Rightarrow> u8 list \<Rightarrow> int option result" where
  "GetRootId d name =
     (if length name \<ge> 32 then Inl Assert_fails
      else and_then (FindRecord d name) (\<lambda>i. if i = -1 then Inr None
        else and_then (get32 d ((i + 1) * 36)) (\<lambda>r. Inr (Some r))))"

definition HeaderPage_Init :: "bytes \<Rightarrow> bytes result" where
  "HeaderPage_Init d = SetRecordCount d 0"

subsection \<open>The records of a page\<close>

definition name_ok :: "u8 list \<Rightarrow> bool" where
  "name_ok n \<longleftrightarrow> length n < 32 \<and> 0 \<notin> set n"

definition root_ok :: "int \<Rightarrow> bool" where
  "root_ok r \<longleftrightarrow> 0 \<le> r \<and> r < 2 ^ 31"

definition rec_ok :: "bytes \<Rightarrow> nat \<Rightarrow> u8 list \<times> int \<Rightarrow> bool" where
  "rec_ok d i x \<longleftrightarrow> name_ok (fst x) \<and> root_ok (snd x)
     \<and> read_mem d (4 + 36 * int i) (Suc (length (fst x))) = fst x @ [0] \<and> sint (load32 d (36 + 36 * int i)) = snd x"

definition holds_records :: "bytes \<Rightarrow> (u8 list \<times> int) list \<Rightarrow> bool" where
  "holds_records d rs \<longleftrightarrow> sint (load32 d 0) = int (length rs) \<and> length rs \<le> 113 \<and> distinct (map fst rs)
     \<and> (\<forall>i < length rs. rec_ok d i (rs ! i))"

lemma take_read_mem: "k \<le> n \<Longrightarrow> read_mem d p k = take k (read_mem d p n)"
  by (rule nth_equalityI) auto

lemma drop_read_mem: "read_mem d (p + int k) n = drop k (read_mem d p (k + n))"
  by (rule nth_equalityI) (auto simp: add.assoc)

lemma rec_ok_cong:
  assumes "read_mem d' (4 + 36 * int j) 36 = read_mem d (4 + 36 * int i) 36"
  shows "rec_ok d' j x \<longleftrightarrow> rec_ok d i x"
proof -
  have l: "load32 d (36 + 36 * int i) = word_of_nat (le_decode (drop 32 (read_mem d (4 + 36 * int i) 36)))" for d i
    using drop_read_mem [of d "4 + 36 * int i" 32 4] by (simp add: load32_def add.commute)
  have n: "Suc (length (fst x)) \<le> 36" if "name_ok (fst x)" using that by (simp add: name_ok_def)
  show ?thesis using assms n take_read_mem [of "Suc (length (fst x))" 36] by (auto simp: rec_ok_def l)
qed

lemma holds_count: "holds_records d rs \<Longrightarrow> GetRecordCount d = Inr (int (length rs))" "holds_records d rs \<Longrightarrow> length rs \<le> 113"
  by (simp_all add: holds_records_def GetRecordCount_def in_page_def PAGE_SIZE_def)

lemma same_name_iff:
  "\<lbrakk>read_mem d a (Suc (length m)) = m @ [0]; 0 \<notin> set m; 0 \<notin> set n; 0 \<le> a; a + int (length m) < PAGE_SIZE\<rbrakk>
    \<Longrightarrow> same_name d a n = Inr (m = n)"
proof (induction n arbitrary: a m)
  case Nil
  have "d a = (m @ [0]) ! 0" using Nil.prems(1) nth_read_mem [of 0 "Suc (length m)" d a] by simp
  then show ?case using Nil.prems by (cases m) (auto simp: in_page_def)
next
  case (Cons c n)
  have d: "d a = (m @ [0]) ! 0" using Cons.prems(1) nth_read_mem [of 0 "Suc (length m)" d a] by simp
  show ?case
  proof (cases m)
    case Nil
    then show ?thesis using Cons.prems d by (auto simp: in_page_def)
  next
    case (Cons b m')
    have "read_mem d (a + 1) (Suc (length m')) = m' @ [0]"
      using drop_read_mem [of d a 1 "Suc (length m')"] Cons.prems(1) Cons by simp
    with Cons.IH [of "a + 1" m'] Cons.prems d Cons show ?thesis by (auto simp: in_page_def)
  qed
qed

text \<open>The search finds the position of the name.\<close>

lemma find_record_loop_ok:
  assumes "\<forall>j < length rs. rec_ok d (i + j) (rs ! j)" "name_ok name" "i + length rs \<le> 113"
  shows "find_record_loop d name (int i) (length rs) =
    Inr (if name \<in> set (map fst rs) then int (i + length (takeWhile (\<lambda>x. fst x \<noteq> name) rs)) else -1)"
  using assms
proof (induction rs arbitrary: i)
  case (Cons x rs)
  have x: "rec_ok d i x" using Cons.prems(1) by (metis add.right_neutral length_greater_0_conv list.discI nth_Cons_0)
  have "same_name d (4 + int i * 36) name = Inr (fst x = name)"
    by (rule same_name_iff) (use x Cons.prems in \<open>auto simp: rec_ok_def name_ok_def PAGE_SIZE_def mult.commute\<close>)
  moreover have "find_record_loop d name (int (Suc i)) (length rs) =
      Inr (if name \<in> set (map fst rs) then int (Suc i + length (takeWhile (\<lambda>x. fst x \<noteq> name) rs)) else -1)"
    by (rule Cons.IH) (use Cons.prems in auto)
  ultimately show ?case by (auto simp: add.commute)
qed simp

lemma FindRecord_ok:
  assumes h: "holds_records d rs" and n: "name_ok name"
  shows "FindRecord d name = Inr (if name \<in> set (map fst rs) then int (length (takeWhile (\<lambda>x. fst x \<noteq> name) rs)) else -1)"
  using find_record_loop_ok [of rs d 0 name] h n by (simp add: FindRecord_def holds_count [OF h]) (simp add: holds_records_def)

text \<open>The position the search returns is that of the record with the name.\<close>

lemma find_position:
  assumes "name \<in> set (map fst rs)" "distinct (map fst rs)"
  obtains i where "length (takeWhile (\<lambda>x. fst x \<noteq> name) rs) = i" "i < length rs" "fst (rs ! i) = name" "map_of rs name = Some (snd (rs ! i))"
proof -
  let ?i = "length (takeWhile (\<lambda>x. fst x \<noteq> name) rs)"
  have i: "?i < length rs" using assms(1) by (induction rs) auto
  then have n: "fst (rs ! ?i) = name" using nth_length_takeWhile by blast
  have "map_of rs name = Some (snd (rs ! ?i))" using i n assms(2) by (metis map_of_eq_Some_iff nth_mem prod.collapse)
  with i n show ?thesis by (rule that [OF refl])
qed

definition set_record_count :: "bytes \<Rightarrow> int \<Rightarrow> bytes" where
  "set_record_count d n = store32 d 0 (word_of_int n)"

lemma SetRecordCount_ok: "SetRecordCount d n = Inr (set_record_count d n)"
  by (simp add: SetRecordCount_def set_record_count_def in_page_def PAGE_SIZE_def)

lemma set_record_count_simps [page_simps]:
  "4 \<le> p \<Longrightarrow> read_mem (set_record_count d n) p k = read_mem d p k" "4 \<le> p \<Longrightarrow> load32 (set_record_count d n) p = load32 d p"
  "0 \<le> n \<Longrightarrow> n < 2 ^ 31 \<Longrightarrow> sint (load32 (set_record_count d n) 0) = n"
  by (simp_all add: set_record_count_def mem_simps sint_int32)

lemma InsertRecord_ok:
  assumes h: "holds_records d rs" and n: "name_ok name" "name \<notin> set (map fst rs)" and r: "root_ok r" and room: "length rs < 113"
  shows "\<exists>d'. InsertRecord d name r = Inr (d', True) \<and> holds_records d' (rs @ [(name, r)])"
proof -
  let ?o = "4 + 36 * int (length rs)"
  define d1 where "d1 = store32 (write_mem d ?o (name @ [0])) (?o + 32) (word_of_int r)"
  have ins: "InsertRecord d name r = Inr (set_record_count d1 (int (length rs) + 1), True)"
    using n r room by (simp add: InsertRecord_def holds_count [OF h] FindRecord_ok [OF h n(1)] SetRecordCount_ok d1_def
        in_page_def PAGE_SIZE_def name_ok_def root_ok_def INVALID_PAGE_ID_def mult.commute)
  have len: "int (length name) < 32" using n(1) by (simp add: name_ok_def)
  have new: "rec_ok (set_record_count d1 (int (length rs) + 1)) (length rs) (name, r)"
    using n(1) r len by (simp add: rec_ok_def page_simps d1_def mem_simps sint_int32 root_ok_def)
  have old: "rec_ok (set_record_count d1 (int (length rs) + 1)) i (rs ! i)" if i: "i < length rs" for i
  proof -
    have "4 + 36 * int i + int 36 \<le> ?o" using i by simp
    then have "read_mem (set_record_count d1 (int (length rs) + 1)) (4 + 36 * int i) 36 = read_mem d (4 + 36 * int i) 36"
      using len by (simp add: page_simps d1_def mem_simps)
    then have "rec_ok (set_record_count d1 (int (length rs) + 1)) i (rs ! i) \<longleftrightarrow> rec_ok d i (rs ! i)" by (rule rec_ok_cong)
    then show ?thesis using h i by (simp add: holds_records_def)
  qed
  have "holds_records (set_record_count d1 (int (length rs) + 1)) (rs @ [(name, r)])"
    using h new old n(2) room by (auto simp: holds_records_def page_simps nth_append less_Suc_eq)
  with ins show ?thesis by blast
qed

lemma DeleteRecord_ok:
  assumes h: "holds_records d rs" and n: "name_ok name" "name \<in> set (map fst rs)"
  shows "\<exists>d' i. DeleteRecord d name = Inr (d', True) \<and> i < length rs \<and> fst (rs ! i) = name \<and> holds_records d' (take i rs @ drop (Suc i) rs)"
proof -
  have dist: "distinct (map fst rs)" and len: "length rs \<le> 113" using h by (auto simp: holds_records_def)
  obtain i where i: "length (takeWhile (\<lambda>x. fst x \<noteq> name) rs) = i" "i < length rs" "fst (rs ! i) = name"
    by (rule find_position [OF n(2) dist])
  define k where "k = (length rs - i - 1) * 36"
  have k: "(int (length rs) - int i - 1) * 36 = int k" using i(2) by (simp add: k_def of_nat_diff)
  define d1 where "d1 = memcpy d (4 + 36 * int i) (40 + 36 * int i) k"
  let ?d = "set_record_count d1 (int (length rs) - 1)"
  have bnd: "4 + 36 * int i + int k + 36 = 4 + 36 * int (length rs)" using k by simp
  have mv: "move_bytes d (int i * 36 + 4) (int i * 36 + 4 + 36) ((int (length rs) - int i - 1) * 36) = Inr d1"
    using bnd len unfolding k by (subst move_bytes_ok) (auto simp: in_page_def PAGE_SIZE_def d1_def ac_simps)
  have "rs \<noteq> []" using i(2) by auto
  then have "DeleteRecord d name = and_then (move_bytes d (int i * 36 + 4) (int i * 36 + 4 + 36) ((int (length rs) - int i - 1) * 36))
      (\<lambda>d1. and_then (SetRecordCount d1 (int (length rs) - 1)) (\<lambda>d2. Inr (d2, True)))"
    using i n by (simp add: DeleteRecord_def holds_count [OF h] FindRecord_ok [OF h n(1)])
  then have "DeleteRecord d name = Inr (?d, True)" unfolding mv by (simp add: SetRecordCount_ok)
  moreover have "rec_ok ?d j ((take i rs @ drop (Suc i) rs) ! j)" if j: "j < length rs - 1" for j
  proof (cases "j < i")
    case True
    have "read_mem ?d (4 + 36 * int j) 36 = read_mem d (4 + 36 * int j) 36"
      using True by (simp add: page_simps d1_def read_memcpy_outside)
    from rec_ok_cong [OF this] show ?thesis using h True i(2) by (simp add: holds_records_def nth_append)
  next
    case False
    have "4 + 36 * int j + int 36 \<le> 4 + 36 * int i + int k" using bnd j by linarith
    then have "read_mem ?d (4 + 36 * int j) 36 = read_mem d (4 + 36 * int (Suc j)) 36"
      using False by (simp add: page_simps d1_def read_memcpy_inside algebra_simps)
    from rec_ok_cong [OF this] show ?thesis using h False i(2) j by (simp add: holds_records_def nth_append)
  qed
  moreover have "distinct (map fst (take i rs @ drop (Suc i) rs))"
    using dist set_take_disj_set_drop_if_distinct [OF dist, of i "Suc i"] by (simp add: take_map [symmetric] drop_map [symmetric])
  moreover have "sint (load32 ?d 0) = int (length rs) - 1" using i(2) len by (intro set_record_count_simps(3)) auto
  ultimately show ?thesis using i(2,3) len
    by (intro exI [of _ ?d] exI [of _ i]) (auto simp: holds_records_def of_nat_diff)
qed

lemma UpdateRecord_ok:
  assumes h: "holds_records d rs" and n: "name_ok name" "name \<in> set (map fst rs)" and r: "root_ok r"
  shows "\<exists>d' i. UpdateRecord d name r = Inr (d', True) \<and> i < length rs \<and> fst (rs ! i) = name \<and> holds_records d' (rs[i := (name, r)])"
proof -
  have dist: "distinct (map fst rs)" and len: "length rs \<le> 113" using h by (auto simp: holds_records_def)
  obtain i where i: "length (takeWhile (\<lambda>x. fst x \<noteq> name) rs) = i" "i < length rs" "fst (rs ! i) = name"
    by (rule find_position [OF n(2) dist])
  let ?d = "store32 d (36 + 36 * int i) (word_of_int r)"
  have "UpdateRecord d name r = Inr (?d, True)"
    using i n len by (simp add: UpdateRecord_def FindRecord_ok [OF h n(1)] in_page_def PAGE_SIZE_def name_ok_def mult.commute add.commute)
  moreover have "rec_ok ?d j (rs[i := (name, r)] ! j)" if j: "j < length rs" for j
  proof (cases "j = i")
    case True
    have "read_mem d (4 + 36 * int i) (Suc (length name)) = name @ [0]" using h i by (auto simp: holds_records_def rec_ok_def)
    then show ?thesis using True i n r by (simp add: rec_ok_def mem_simps sint_int32 root_ok_def name_ok_def)
  next
    case False
    then have "4 + 36 * int j + int 36 \<le> 36 + 36 * int i \<or> 36 + 36 * int i + 4 \<le> 4 + 36 * int j" by presburger
    then have "read_mem ?d (4 + 36 * int j) 36 = read_mem d (4 + 36 * int j) 36" by (rule read_store32_other)
    from rec_ok_cong [OF this] show ?thesis using h False j by (simp add: holds_records_def)
  qed
  moreover have "map fst (rs[i := (name, r)]) = map fst rs" using i by (simp add: map_update list_update_same_conv)
  ultimately show ?thesis using i h by (intro exI [of _ ?d] exI [of _ i]) (auto simp: holds_records_def mem_simps)
qed

lemma GetRootId_ok:
  assumes h: "holds_records d rs" and n: "name_ok name"
  shows "GetRootId d name = Inr (map_of rs name)"
proof (cases "name \<in> set (map fst rs)")
  case True
  have dist: "distinct (map fst rs)" and len: "length rs \<le> 113" using h by (auto simp: holds_records_def)
  obtain i where i: "length (takeWhile (\<lambda>x. fst x \<noteq> name) rs) = i" "i < length rs" "map_of rs name = Some (snd (rs ! i))"
    by (rule find_position [OF True dist])
  have "rec_ok d i (rs ! i)" using h i by (simp add: holds_records_def)
  then show ?thesis using i True n len
    by (simp add: GetRootId_def FindRecord_ok [OF h n] name_ok_def in_page_def PAGE_SIZE_def rec_ok_def algebra_simps)
next
  case False
  then have "map_of rs name = None" by (simp add: map_of_eq_None_iff)
  then show ?thesis using False n by (simp add: GetRootId_def FindRecord_ok [OF h n] name_ok_def)
qed

section \<open>The header page is a finite map\<close>

definition holds_names :: "bytes \<Rightarrow> (u8 list \<rightharpoonup> int) \<Rightarrow> bool" where
  "holds_names d M \<longleftrightarrow> (\<exists>rs. holds_records d rs \<and> M = map_of rs)"

lemma map_of_remove_nth:
  "distinct (map fst rs) \<Longrightarrow> i < length rs \<Longrightarrow> map_of (take i rs @ drop (Suc i) rs) = (map_of rs)(fst (rs ! i) := None)"
proof (induction rs arbitrary: i)
  case (Cons x rs)
  show ?case
  proof (cases i)
    case 0
    have "map_of rs (fst x) = None" using Cons.prems by (simp add: map_of_eq_None_iff)
    then show ?thesis using 0 by (auto simp: fun_upd_def)
  next
    case (Suc j)
    then have "fst x \<noteq> fst (rs ! j)" using Cons.prems by auto
    then show ?thesis using Cons Suc by (auto simp: fun_upd_twist)
  qed
qed simp

lemma map_of_update_nth:
  "distinct (map fst rs) \<Longrightarrow> i < length rs \<Longrightarrow> map_of (rs[i := (fst (rs ! i), r)]) = (map_of rs)(fst (rs ! i) \<mapsto> r)"
proof (induction rs arbitrary: i)
  case (Cons x rs)
  show ?case
  proof (cases i)
    case (Suc j)
    then have "fst x \<noteq> fst (rs ! j)" using Cons.prems by auto
    then show ?thesis using Cons Suc by (auto simp: fun_upd_twist)
  qed (auto simp: fun_eq_iff)
qed simp

lemma card_dom_records: "holds_records d rs \<Longrightarrow> card (dom (map_of rs)) = length rs"
  using distinct_card [of "map fst rs"] by (simp add: holds_records_def dom_map_of_conv_image_fst)

lemma header_page_ops:
  assumes h: "holds_names d M" and n: "name_ok name" and r: "root_ok r"
  shows "\<exists>d0. HeaderPage_Init e = Inr d0 \<and> holds_names d0 Map.empty"
    and "GetRootId d name = Inr (M name)"
    and "name \<in> dom M \<Longrightarrow> InsertRecord d name r = Inr (d, False)"
    and "name \<notin> dom M \<Longrightarrow> card (dom M) < 113 \<Longrightarrow> \<exists>d'. InsertRecord d name r = Inr (d', True) \<and> holds_names d' (M(name \<mapsto> r))"
    and "DeleteRecord d name = Inl Assert_fails \<longleftrightarrow> M = Map.empty"
    and "name \<notin> dom M \<Longrightarrow> M \<noteq> Map.empty \<Longrightarrow> DeleteRecord d name = Inr (d, False)"
    and "name \<in> dom M \<Longrightarrow> \<exists>d'. DeleteRecord d name = Inr (d', True) \<and> holds_names d' (M(name := None))"
    and "name \<notin> dom M \<Longrightarrow> UpdateRecord d name r = Inr (d, False)"
    and "name \<in> dom M \<Longrightarrow> \<exists>d'. UpdateRecord d name r = Inr (d', True) \<and> holds_names d' (M(name \<mapsto> r))"
proof -
  obtain rs where rs: "holds_records d rs" "M = map_of rs" using h by (auto simp: holds_names_def)
  have dom: "name \<in> dom M \<longleftrightarrow> name \<in> set (map fst rs)" by (simp add: rs dom_map_of_conv_image_fst)
  have dist: "distinct (map fst rs)" and len: "length rs \<le> 113" using rs by (auto simp: holds_records_def)
  have empty: "M = Map.empty \<longleftrightarrow> rs = []" by (simp add: rs map_of_eq_empty_iff)
  note cd = holds_count(1) [OF rs(1)] and f = FindRecord_ok [OF rs(1) n]
  have "holds_records (set_record_count e 0) []" by (simp add: holds_records_def page_simps)
  then show "\<exists>d0. HeaderPage_Init e = Inr d0 \<and> holds_names d0 Map.empty"
    by (auto simp: HeaderPage_Init_def SetRecordCount_ok holds_names_def)
  show "GetRootId d name = Inr (M name)" using GetRootId_ok [OF rs(1) n] rs(2) by simp
  show "InsertRecord d name r = Inr (d, False)" if "name \<in> dom M"
    using that dom n r len by (simp add: InsertRecord_def cd f name_ok_def root_ok_def INVALID_PAGE_ID_def)
  show "\<exists>d'. InsertRecord d name r = Inr (d', True) \<and> holds_names d' (M(name \<mapsto> r))" if "name \<notin> dom M" "card (dom M) < 113"
  proof -
    have "length rs < 113" using that(2) card_dom_records [OF rs(1)] rs(2) by simp
    moreover have "name \<notin> set (map fst rs)" using that(1) dom by blast
    ultimately obtain d' where d': "InsertRecord d name r = Inr (d', True)" "holds_records d' (rs @ [(name, r)])"
      using InsertRecord_ok [OF rs(1) n _ r] by blast
    have "map_of (rs @ [(name, r)]) = M(name \<mapsto> r)"
      using that(1) unfolding rs(2) by (auto simp: map_add_def fun_eq_iff domIff split: option.splits)
    with d' show ?thesis by (auto simp: holds_names_def)
  qed
  show "DeleteRecord d name = Inl Assert_fails \<longleftrightarrow> M = Map.empty"
  proof (cases "name \<in> set (map fst rs)")
    case True
    then show ?thesis using DeleteRecord_ok [OF rs(1) n] empty by auto
  qed (simp add: DeleteRecord_def cd f empty)
  show "DeleteRecord d name = Inr (d, False)" if "name \<notin> dom M" "M \<noteq> Map.empty"
    using that dom empty by (simp add: DeleteRecord_def cd f)
  show "\<exists>d'. DeleteRecord d name = Inr (d', True) \<and> holds_names d' (M(name := None))" if "name \<in> dom M"
    using DeleteRecord_ok [OF rs(1) n] that dom map_of_remove_nth [OF dist] rs(2) by (fastforce simp: holds_names_def)
  show "UpdateRecord d name r = Inr (d, False)" if "name \<notin> dom M"
    using that dom n by (simp add: UpdateRecord_def f name_ok_def)
  show "\<exists>d'. UpdateRecord d name r = Inr (d', True) \<and> holds_names d' (M(name \<mapsto> r))" if "name \<in> dom M"
    using UpdateRecord_ok [OF rs(1) n _ r] that dom map_of_update_nth [OF dist] rs(2) by (fastforce simp: holds_names_def)
qed

text \<open>C20. The header page implements a map from names shorter than 32 bytes to root pages: after \<open>Init\<close> it is
  empty, \<open>InsertRecord\<close> adds a new name (while there are fewer than 113), \<open>DeleteRecord\<close> and \<open>UpdateRecord\<close> act
  on the record of the name and leave the others, \<open>GetRootId\<close> looks a name up, and the operations report whether the
  name was there. \<open>DeleteRecord\<close> on an empty page fails an assertion.\<close>

theorem header_page_refines_map:
  assumes "holds_names d M" and "name_ok name" and "root_ok r"
  shows "(\<exists>d0. HeaderPage_Init e = Inr d0 \<and> holds_names d0 Map.empty)
    \<and> GetRootId d name = Inr (M name)
    \<and> (name \<in> dom M \<longrightarrow> InsertRecord d name r = Inr (d, False)
        \<and> (\<exists>d'. DeleteRecord d name = Inr (d', True) \<and> holds_names d' (M(name := None)))
        \<and> (\<exists>d'. UpdateRecord d name r = Inr (d', True) \<and> holds_names d' (M(name \<mapsto> r))))
    \<and> (name \<notin> dom M \<longrightarrow> (card (dom M) < 113 \<longrightarrow> (\<exists>d'. InsertRecord d name r = Inr (d', True) \<and> holds_names d' (M(name \<mapsto> r))))
        \<and> DeleteRecord d name = (if M = Map.empty then Inl Assert_fails else Inr (d, False)) \<and> UpdateRecord d name r = Inr (d, False))"
  using header_page_ops [OF assms] by auto

theorem header_page_refines_map_witness:
  "\<exists>d0 d1 d2. HeaderPage_Init (\<lambda>_. 0) = Inr d0 \<and> InsertRecord d0 [102, 111] 3 = Inr (d1, True) \<and> GetRootId d1 [102, 111] = Inr (Some 3)
    \<and> DeleteRecord d1 [102, 111] = Inr (d2, True) \<and> GetRootId d2 [102, 111] = Inr None \<and> DeleteRecord d2 [102, 111] = Inl Assert_fails"
proof -
  have ok: "name_ok [102, 111]" "root_ok 3" by (simp_all add: name_ok_def root_ok_def)
  have "holds_names (set_record_count (\<lambda>_. 0) 0) Map.empty"
    by (auto simp: holds_names_def holds_records_def page_simps intro: exI [of _ "[]"])
  from header_page_refines_map [OF this ok, of "\<lambda>_. 0"] obtain d0 where d0: "HeaderPage_Init (\<lambda>_. 0) = Inr d0" "holds_names d0 Map.empty"
    by auto
  from header_page_refines_map [OF d0(2) ok] obtain d1 where d1: "InsertRecord d0 [102, 111] 3 = Inr (d1, True)" "holds_names d1 [[102, 111] \<mapsto> 3]"
    by auto
  from header_page_refines_map [OF d1(2) ok] obtain d2 where d2: "GetRootId d1 [102, 111] = Inr (Some 3)"
    "DeleteRecord d1 [102, 111] = Inr (d2, True)" "holds_names d2 Map.empty" by auto
  from header_page_refines_map [OF d2(3) ok] have "GetRootId d2 [102, 111] = Inr None" "DeleteRecord d2 [102, 111] = Inl Assert_fails" by simp_all
  with d0 d1 d2 show ?thesis by blast
qed

text \<open>Pages with any number of records up to 113.\<close>

lemma header_page_filled:
  "n \<le> 113 \<Longrightarrow> \<exists>d. holds_records d (map (\<lambda>i. ([word_of_nat (Suc i)], 0)) [0..<n])"
proof (induction n)
  case 0
  have "holds_records (set_record_count (\<lambda>_. 0) 0) []" by (simp add: holds_records_def page_simps)
  then show ?case by auto
next
  case (Suc n)
  then obtain d where d: "holds_records d (map (\<lambda>i. ([word_of_nat (Suc i)], 0)) [0..<n])" by auto
  have small: "unat (word_of_nat (Suc i) :: u8) = Suc i" if "i \<le> n" for i
    using that Suc.prems by (simp only: unat_of_nat) simp
  have "name_ok [word_of_nat (Suc n)]" using small [of n] by (auto simp: name_ok_def simp del: of_nat_Suc)
  moreover have "[word_of_nat (Suc n)] \<notin> set (map fst (map (\<lambda>i. ([word_of_nat (Suc i) :: u8], 0 :: int)) [0..<n]))"
  proof
    assume "[word_of_nat (Suc n)] \<in> set (map fst (map (\<lambda>i. ([word_of_nat (Suc i) :: u8], 0 :: int)) [0..<n]))"
    then obtain i where "i < n" "word_of_nat (Suc n) = (word_of_nat (Suc i) :: u8)" by (auto simp del: of_nat_Suc)
    then show False using small [of i] small [of n] by (metis Suc_inject less_imp_le less_irrefl order_refl)
  qed
  ultimately show ?case
    using InsertRecord_ok [OF d, of "[word_of_nat (Suc n)]" 0] Suc.prems by (auto simp: root_ok_def simp del: of_nat_Suc)
qed

text \<open>\<open>InsertRecord\<close> does not check for room: with 113 records the root page number of the next one is written
  beyond the end of the page.\<close>

theorem header_page_overflows:
  assumes "holds_names d M" and "card (dom M) = 113" and "name_ok name" and "name \<notin> dom M" and "root_ok r"
  shows "InsertRecord d name r = Inl Undefined"
proof -
  obtain rs where rs: "holds_records d rs" "M = map_of rs" using assms(1) by (auto simp: holds_names_def)
  have len: "length rs = 113" using card_dom_records [OF rs(1)] assms(2) rs(2) by simp
  have "name \<notin> set (map fst rs)" using assms(4) by (simp add: rs dom_map_of_conv_image_fst)
  then show ?thesis using assms(3,5) len
    by (simp add: InsertRecord_def holds_count(1) [OF rs(1)] FindRecord_ok [OF rs(1) assms(3)] name_ok_def root_ok_def
        INVALID_PAGE_ID_def put_bytes_def put32_def in_page_def PAGE_SIZE_def)
qed

theorem header_page_overflows_witness:
  "\<exists>d M. holds_names d M \<and> card (dom M) = 113 \<and> InsertRecord d [200] 0 = Inl Undefined"
proof -
  let ?rs = "map (\<lambda>i. ([word_of_nat (Suc i) :: u8], 0 :: int)) [0..<113]"
  obtain d where d: "holds_records d ?rs" using header_page_filled [of 113] by auto
  have h: "holds_names d (map_of ?rs)" using d by (auto simp: holds_names_def)
  have c: "card (dom (map_of ?rs)) = 113" using card_dom_records [OF d] by simp
  have "\<forall>i \<in> set [0..<113]. word_of_nat (Suc i) \<noteq> (200 :: u8)" by code_simp
  then have n: "[200] \<notin> dom (map_of ?rs)" by (auto simp: dom_map_of_conv_image_fst)
  have "InsertRecord d [200] 0 = Inl Undefined"
    by (rule header_page_overflows [OF h c _ n]) (simp_all add: name_ok_def root_ok_def)
  with h c show ?thesis by blast
qed

end
