(* ===== verification/Bplus_Tree.thy ===== *)
theory Bplus_Tree
  imports Bplus_Page Table_Heap Header_Page
begin

section \<open>The B+ tree over the buffer pool (15445 index/b_plus_tree.cpp, index/b_plus_tree_index.cpp)\<close>

text \<open>
  The nodes of the tree are pages of the buffer pool, read through \<open>reinterpret_cast\<close>: the header fields of four bytes
  each and the array of pairs behind them. \<open>K\<close> is the template argument \<open>KeySize\<close>; it is a multiple of four, so that
  there is no padding. A node pointer is the index of a frame, and it stays in use after the page has been unpinned.
\<close>

text \<open>Errors of the parts below, and the exceptions that the tree throws itself.\<close>

datatype db_error = Pool fault | Sql sql_error | Out_of_memory | Index_error

type_synonym 'a db = "db_error + 'a"

definition then_do :: "'a db \<Rightarrow> ('a \<Rightarrow> 'b db) \<Rightarrow> 'b db" where
  "then_do r f = (case r of Inl e \<Rightarrow> Inl e | Inr x \<Rightarrow> f x)"

definition pool_do :: "'a result \<Rightarrow> 'a db" where
  "pool_do r = (case r of Inl e \<Rightarrow> Inl (Pool e) | Inr x \<Rightarrow> Inr x)"

definition sql_do :: "'a sql \<Rightarrow> 'a db" where
  "sql_do r = (case r of Inl e \<Rightarrow> Inl (Sql e) | Inr x \<Rightarrow> Inr x)"

lemma db_simps [simp]: "then_do (Inl e) f = Inl e" "then_do (Inr x) f = f x" "pool_do (Inl a) = Inl (Pool a)" "pool_do (Inr x) = Inr x"
  "sql_do (Inl b) = Inl (Sql b)" "sql_do (Inr x) = Inr x"
  by (simp_all add: then_do_def pool_do_def sql_do_def)

subsection \<open>Nodes in pages\<close>

definition type_code :: "index_page_type \<Rightarrow> u32" where
  "type_code t = (case t of INVALID_INDEX_PAGE \<Rightarrow> 0 | LEAF_PAGE \<Rightarrow> 1 | INTERNAL_PAGE \<Rightarrow> 2)"

definition code_type :: "u32 \<Rightarrow> index_page_type" where
  "code_type w = (if w = 1 then LEAF_PAGE else if w = 2 then INTERNAL_PAGE else INVALID_INDEX_PAGE)"

definition field :: "bytes \<Rightarrow> addr \<Rightarrow> int" where "field d a = sint (load32 d a)"
definition set_field :: "bytes \<Rightarrow> addr \<Rightarrow> int \<Rightarrow> bytes" where "set_field d a v = store32 d a (word_of_int v)"

text \<open>A node is written back as a whole; a page type that was none of the values of the enumeration keeps its bytes.\<close>

definition set_type :: "bytes \<Rightarrow> index_page_type \<Rightarrow> bytes" where
  "set_type d t = (if code_type (load32 d 0) = t then d else store32 d 0 (type_code t))"

definition leaf_entry :: "nat \<Rightarrow> bytes \<Rightarrow> nat \<Rightarrow> bytes \<times> rid" where
  "leaf_entry K d i = (let a = 24 + int i * (int K + 8) in
     (\<lambda>x. d (a + x), \<lparr>rid_page = field d (a + int K), rid_slot = field d (a + int K + 4)\<rparr>))"

definition internal_entry :: "nat \<Rightarrow> bytes \<Rightarrow> nat \<Rightarrow> bytes \<times> int" where
  "internal_entry K d i = (let a = 20 + int i * (int K + 4) in (\<lambda>x. d (a + x), field d (a + int K)))"

text \<open>The entries that fit between the header and the end of the page.\<close>

definition leaf_capacity :: "nat \<Rightarrow> nat" where "leaf_capacity K = nat ((PAGE_SIZE - 24) div (int K + 8))"
definition internal_capacity :: "nat \<Rightarrow> nat" where "internal_capacity K = nat ((PAGE_SIZE - 20) div (int K + 4))"

definition leaf_of :: "nat \<Rightarrow> bytes \<Rightarrow> (bytes, rid) bnode" where
  "leaf_of K d = \<lparr>bn_type = code_type (load32 d 0), bn_size = field d 4, bn_max = field d 8, bn_parent = field d 12, bn_id = field d 16,
     bn_next = field d 20, bn_array = map (leaf_entry K d) [0..<leaf_capacity K]\<rparr>"

text \<open>An internal page has no \<open>next_page_id_\<close>.\<close>

definition internal_of :: "nat \<Rightarrow> bytes \<Rightarrow> (bytes, int) bnode" where
  "internal_of K d = \<lparr>bn_type = code_type (load32 d 0), bn_size = field d 4, bn_max = field d 8, bn_parent = field d 12, bn_id = field d 16,
     bn_next = 0, bn_array = map (internal_entry K d) [0..<internal_capacity K]\<rparr>"

definition leaf_entry_bytes :: "nat \<Rightarrow> bytes \<times> rid \<Rightarrow> u8 list" where
  "leaf_entry_bytes K e = read_mem (fst e) 0 K @ le_encode 4 (unat (word_of_int (rid_page (snd e)) :: u32))
     @ le_encode 4 (unat (word_of_int (rid_slot (snd e)) :: u32))"

definition internal_entry_bytes :: "nat \<Rightarrow> bytes \<times> int \<Rightarrow> u8 list" where
  "internal_entry_bytes K e = read_mem (fst e) 0 K @ le_encode 4 (unat (word_of_int (snd e) :: u32))"

definition node_header :: "bytes \<Rightarrow> ('k, 'v) bnode \<Rightarrow> bytes" where
  "node_header d n = set_field (set_field (set_field (set_field (set_type d (bn_type n)) 4 (bn_size n)) 8 (bn_max n)) 12 (bn_parent n)) 16 (bn_id n)"

definition write_leaf :: "nat \<Rightarrow> bytes \<Rightarrow> (bytes, rid) bnode \<Rightarrow> bytes" where
  "write_leaf K d n = write_mem (set_field (node_header d n) 20 (bn_next n)) 24 (concat (map (leaf_entry_bytes K) (bn_array n)))"

definition write_internal :: "nat \<Rightarrow> bytes \<Rightarrow> (bytes, int) bnode \<Rightarrow> bytes" where
  "write_internal K d n = write_mem (node_header d n) 20 (concat (map (internal_entry_bytes K) (bn_array n)))"

definition get_leaf :: "nat \<Rightarrow> ('t, 'r) pool \<Rightarrow> nat \<Rightarrow> (bytes, rid) bnode" where
  "get_leaf K s f = leaf_of K (data_at s f)"

definition put_leaf :: "nat \<Rightarrow> ('t, 'r) pool \<Rightarrow> nat \<Rightarrow> (bytes, rid) bnode \<Rightarrow> ('t, 'r) pool" where
  "put_leaf K s f n = set_data s f (write_leaf K (data_at s f) n)"

definition put_internal :: "nat \<Rightarrow> ('t, 'r) pool \<Rightarrow> nat \<Rightarrow> (bytes, int) bnode \<Rightarrow> ('t, 'r) pool" where
  "put_internal K s f n = set_data s f (write_internal K (data_at s f) n)"

abbreviation is_leaf_frame :: "('t, 'r) pool \<Rightarrow> nat \<Rightarrow> bool" where
  "is_leaf_frame s f \<equiv> code_type (load32 (data_at s f) 0) = LEAF_PAGE"

definition set_parent :: "('t, 'r) pool \<Rightarrow> nat \<Rightarrow> int \<Rightarrow> ('t, 'r) pool" where
  "set_parent s f p = set_data s f (set_field (data_at s f) 12 p)"

subsection \<open>The tree\<close>

record btree =
  index_name :: "u8 list"
  root_page_id :: int
  btree_size :: u64

text \<open>The classes that the tree is built from: page table, replacer, key size, comparator.\<close>

record ('t, 'r) tree_env =
  env_table :: "('t, int, nat) hash_table"
  env_replacer :: "('r, nat) replacer_class"
  env_key_size :: nat
  env_compare :: "bytes \<Rightarrow> bytes \<Rightarrow> int sql"

abbreviation fetch :: "('t, 'r) tree_env \<Rightarrow> ('t, 'r) pool \<Rightarrow> int \<Rightarrow> (('t, 'r) pool \<times> nat option) db" where
  "fetch E s p \<equiv> pool_do (FetchPage (env_table E) (env_replacer E) s p)"

abbreviation unpin :: "('t, 'r) tree_env \<Rightarrow> ('t, 'r) pool \<Rightarrow> int \<Rightarrow> bool \<Rightarrow> (('t, 'r) pool \<times> bool) db" where
  "unpin E s p b \<equiv> pool_do (UnpinPage (env_table E) (env_replacer E) s p b)"

abbreviation new_page :: "('t, 'r) tree_env \<Rightarrow> ('t, 'r) pool \<Rightarrow> (('t, 'r) pool \<times> int \<times> nat option) db" where
  "new_page E s \<equiv> pool_do (NewPage (env_table E) (env_replacer E) s)"

definition new_BPlusTree :: "u8 list \<Rightarrow> int \<Rightarrow> btree" where
  "new_BPlusTree name root = \<lparr>index_name = name, root_page_id = root, btree_size = 0\<rparr>"

definition IsEmpty :: "btree \<Rightarrow> bool" where
  "IsEmpty t \<longleftrightarrow> btree_size t = 0"

text \<open>The descent. The child that an internal page returns is converted to a \<open>RID\<close> and back to a page number. The page that
  is unpinned is always the root.\<close>

partial_function (option) find_leaf_loop ::
  "('t, 'r) tree_env \<Rightarrow> int \<Rightarrow> bytes \<Rightarrow> ('t, 'r) pool \<Rightarrow> int \<Rightarrow> (('t, 'r) pool \<times> nat) db option" where
  [code]: "find_leaf_loop E root key s pg_id =
     (case FetchPage (env_table E) (env_replacer E) s pg_id of
        Inl e \<Rightarrow> Some (Inl (Pool e))
      | Inr (s1, None) \<Rightarrow> Some (Inl Index_error)
      | Inr (s1, Some f) \<Rightarrow>
          if is_leaf_frame s1 f then Some (then_do (unpin E s1 root False) (\<lambda>(s2, _). Inr (s2, f)))
          else (case internal_Lookup (env_compare E) (internal_of (env_key_size E) (data_at s1 f)) key of
              Inl e \<Rightarrow> Some (Inl (Sql e))
            | Inr child \<Rightarrow> (case UnpinPage (env_table E) (env_replacer E) s1 root False of
                Inl e \<Rightarrow> Some (Inl (Pool e))
              | Inr (s2, _) \<Rightarrow> find_leaf_loop E root key s2 (rid_page (RID_of (word_of_int child))))))"

definition FindLeafPage :: "('t, 'r) tree_env \<Rightarrow> btree \<Rightarrow> ('t, 'r) pool \<Rightarrow> bytes \<Rightarrow> bool \<Rightarrow> (('t, 'r) pool \<times> nat option) db" where
  "FindLeafPage E t s key leftMost =
     (if leftMost then Inr (s, None)
      else then_do (then_do (pool_do (returns (find_leaf_loop E (root_page_id t) key s (root_page_id t)))) id) (\<lambda>(s1, f). Inr (s1, Some f)))"

definition tree_GetValue :: "('t, 'r) tree_env \<Rightarrow> btree \<Rightarrow> ('t, 'r) pool \<Rightarrow> bytes \<Rightarrow> (('t, 'r) pool \<times> rid option) db" where
  "tree_GetValue E t s key =
     then_do (FindLeafPage E t s key False) (\<lambda>(s1, pg).
       case pg of None \<Rightarrow> Inl (Pool Undefined)
       | Some f \<Rightarrow> then_do (sql_do (leaf_Lookup (env_compare E) (get_leaf (env_key_size E) s1 f) key)) (\<lambda>v. Inr (s1, v)))"

definition UpdateRootPageId :: "('t, 'r) tree_env \<Rightarrow> btree \<Rightarrow> ('t, 'r) pool \<Rightarrow> bool \<Rightarrow> ('t, 'r) pool db" where
  "UpdateRootPageId E t s insert_record =
     then_do (fetch E s HEADER_PAGE_ID) (\<lambda>(s1, pg).
       case pg of None \<Rightarrow> Inl (Pool Undefined)
       | Some f \<Rightarrow>
           then_do (pool_do (on_page s1 f (\<lambda>d. if insert_record then InsertRecord d (index_name t) (root_page_id t)
             else UpdateRecord d (index_name t) (root_page_id t)))) (\<lambda>(s2, _).
           then_do (unpin E s2 HEADER_PAGE_ID True) (\<lambda>(s3, _). Inr s3)))"

definition StartNewTree :: "('t, 'r) tree_env \<Rightarrow> btree \<Rightarrow> ('t, 'r) pool \<Rightarrow> bytes \<Rightarrow> rid \<Rightarrow> (btree \<times> ('t, 'r) pool) db" where
  "StartNewTree E t s key val =
     then_do (new_page E s) (\<lambda>(s1, pageid, pg).
       case pg of None \<Rightarrow> Inl Out_of_memory
       | Some f \<Rightarrow> let t1 = t\<lparr>root_page_id := pageid\<rparr> in
           then_do (UpdateRootPageId E t1 s1 True) (\<lambda>s2.
           then_do (sql_do (leaf_Insert (env_compare E) (leaf_Init (get_leaf (env_key_size E) s2 f) pageid INVALID_PAGE_ID) key val)) (\<lambda>(n, _).
           then_do (unpin E (put_leaf (env_key_size E) s2 f n) pageid True) (\<lambda>(s3, _). Inr (t1, s3)))))"

definition tree_Split :: "('t, 'r) tree_env \<Rightarrow> ('t, 'r) pool \<Rightarrow> nat \<Rightarrow> (('t, 'r) pool \<times> nat) db" where
  "tree_Split E s f =
     then_do (new_page E s) (\<lambda>(s1, pageid, pg).
       case pg of None \<Rightarrow> Inl Out_of_memory
       | Some g \<Rightarrow> let K = env_key_size E;
             s2 = put_leaf K s1 g (leaf_Init (get_leaf K s1 g) pageid (field (data_at s1 f) 12)) in
           then_do (sql_do (MoveHalfTo (get_leaf K s2 f) (get_leaf K s2 g))) (\<lambda>(n, r).
             let s3 = put_leaf K (put_leaf K s2 g r) f n;
                 s4 = set_data s3 f (set_field (data_at s3 f) 20 pageid) in
             then_do (unpin E s4 pageid True) (\<lambda>(s5, _). Inr (s5, g))))"

definition InsertIntoParent :: "('t, 'r) tree_env \<Rightarrow> ('t, 'r) pool \<Rightarrow> nat \<Rightarrow> nat \<Rightarrow> ('t, 'r) pool db" where
  "InsertIntoParent E s old new =
     (let K = env_key_size E in
      then_do (sql_do (if is_leaf_frame s new then KeyAt (get_leaf K s new) 0 else KeyAt (internal_of K (data_at s new)) 0)) (\<lambda>midkey.
        if field (data_at s old) 12 = INVALID_PAGE_ID
        then then_do (new_page E s) (\<lambda>(s1, pageid, pg).
          case pg of None \<Rightarrow> Inl Out_of_memory
          | Some p \<Rightarrow>
              let s2 = put_internal K s1 p (internal_Init (internal_of K (data_at s1 p)) pageid INVALID_PAGE_ID);
                  s3 = set_parent (set_parent s2 old pageid) new pageid in
              then_do (sql_do (PopulateNewRoot (internal_of K (data_at s3 p)) (field (data_at s3 old) 16) midkey (field (data_at s3 new) 16))) (\<lambda>n.
              then_do (unpin E (put_internal K s3 p n) pageid True) (\<lambda>(s4, _). Inr s4)))
        else let ppageid = field (data_at s old) 12; s1 = set_parent s new ppageid in
          then_do (fetch E s1 ppageid) (\<lambda>(s2, pg).
            case pg of None \<Rightarrow> Inl (Pool Undefined)
            | Some p \<Rightarrow>
                then_do (sql_do (InsertNodeAfter (internal_of K (data_at s2 p)) (field (data_at s2 old) 16) midkey (field (data_at s2 new) 16)))
                  (\<lambda>(n, _). let s3 = put_internal K s2 p n in
                then_do (if is_leaf_frame s2 old then Inr s3
                  else then_do (sql_do (internal_Remove (internal_of K (data_at s3 new)) 0)) (\<lambda>m. Inr (put_internal K s3 new m))) (\<lambda>s4.
                then_do (unpin E s4 ppageid True) (\<lambda>(s5, _). Inr s5))))))"

definition InsertIntoLeaf :: "('t, 'r) tree_env \<Rightarrow> btree \<Rightarrow> ('t, 'r) pool \<Rightarrow> bytes \<Rightarrow> rid \<Rightarrow> (('t, 'r) pool \<times> bool) db" where
  "InsertIntoLeaf E t s key val =
     (let K = env_key_size E in
      then_do (FindLeafPage E t s key False) (\<lambda>(s1, pg).
        case pg of None \<Rightarrow> Inl (Pool Undefined)
        | Some f \<Rightarrow>
            then_do (sql_do (leaf_Lookup (env_compare E) (get_leaf K s1 f) key)) (\<lambda>v.
              if v \<noteq> None then Inr (s1, False)
              else then_do (sql_do (leaf_Insert (env_compare E) (get_leaf K s1 f) key val)) (\<lambda>(n, num).
                let s2 = put_leaf K s1 f n in
                if num \<ge> field (data_at s2 f) 8
                then then_do (tree_Split E s2 f) (\<lambda>(s3, g). then_do (InsertIntoParent E s3 f g) (\<lambda>s4. Inr (s4, True)))
                else Inr (s2, True)))))"

text \<open>\<open>Insert\<close> returns false in every case, and counts an insertion whether it inserted or not.\<close>

definition tree_Insert :: "('t, 'r) tree_env \<Rightarrow> btree \<Rightarrow> ('t, 'r) pool \<Rightarrow> bytes \<Rightarrow> rid \<Rightarrow> (btree \<times> ('t, 'r) pool \<times> bool) db" where
  "tree_Insert E t s key val =
     then_do (if IsEmpty t then StartNewTree E t s key val else then_do (InsertIntoLeaf E t s key val) (\<lambda>(s1, _). Inr (t, s1))) (\<lambda>(t1, s1).
       Inr (t1\<lparr>btree_size := btree_size t1 + 1\<rparr>, s1, False))"

text \<open>\<open>Remove\<close> removes nothing.\<close>

definition tree_Remove :: "btree \<Rightarrow> bytes \<Rightarrow> btree" where
  "tree_Remove t key = (if IsEmpty t then t else t\<lparr>btree_size := btree_size t - 1\<rparr>)"

subsection \<open>The index\<close>

text \<open>\<open>GenericKey\<close> is a local variable whose bytes are undefined before \<open>SetFromKey\<close>.\<close>

definition index_InsertEntry :: "('t, 'r) tree_env \<Rightarrow> bytes \<Rightarrow> btree \<Rightarrow> ('t, 'r) pool \<Rightarrow> tuple \<Rightarrow> rid \<Rightarrow> (btree \<times> ('t, 'r) pool) db" where
  "index_InsertEntry E junk t s key rid =
     then_do (sql_do (SetFromKey (int (env_key_size E)) junk key)) (\<lambda>k. then_do (tree_Insert E t s k rid) (\<lambda>(t1, s1, _). Inr (t1, s1)))"

definition index_DeleteEntry :: "('t, 'r) tree_env \<Rightarrow> bytes \<Rightarrow> btree \<Rightarrow> tuple \<Rightarrow> btree db" where
  "index_DeleteEntry E junk t key =
     then_do (sql_do (SetFromKey (int (env_key_size E)) junk key)) (\<lambda>k. Inr (tree_Remove t k))"

definition index_ScanKey :: "('t, 'r) tree_env \<Rightarrow> bytes \<Rightarrow> btree \<Rightarrow> ('t, 'r) pool \<Rightarrow> tuple \<Rightarrow> rid list \<Rightarrow> (('t, 'r) pool \<times> rid list) db" where
  "index_ScanKey E junk t s key result =
     then_do (sql_do (SetFromKey (int (env_key_size E)) junk key)) (\<lambda>k. then_do (tree_GetValue E t s k) (\<lambda>(s1, v).
       Inr (s1, case v of None \<Rightarrow> result | Some r \<Rightarrow> result @ [r])))"

end
