(* ===== verification/Vtable.thy ===== *)
theory Vtable
  imports Bplus_Tree
begin

section \<open>The SQLite extension (15445 vtable/virtual_table.cpp, common/string_utility.h, index/index.h)\<close>

text \<open>
  The callbacks that SQLite calls for a table of the extension, over the table heap, the header page and the index. An SQLite
  value is what the accessor functions of SQLite return for it; whether \<open>sqlite3_declare_vtab\<close> succeeds is an argument.
  Memory that is allocated and not initialised has contents \<open>junk i\<close>, for the \<open>i\<close>-th allocation of a call.
\<close>

subsection \<open>Strings\<close>

definition LTrim :: "string \<Rightarrow> string" where "LTrim s = dropWhile isspace s"
definition RTrim :: "string \<Rightarrow> string" where "RTrim s = rev (dropWhile isspace (rev s))"
definition Trim :: "string \<Rightarrow> string" where "Trim s = RTrim (LTrim s)"

text \<open>\<open>std::getline\<close> with a delimiter reads nothing more after a delimiter at the end of the string.\<close>

function Split :: "string \<Rightarrow> char \<Rightarrow> string list" where
  "Split s delim = (if s = [] then [] else Trim (takeWhile (\<lambda>c. c \<noteq> delim) s) # Split (tl (dropWhile (\<lambda>c. c \<noteq> delim) s)) delim)"
  by auto
termination
proof (relation "measure (\<lambda>(s, _). length s)")
  fix s :: string and delim assume "s \<noteq> []"
  then show "((tl (dropWhile (\<lambda>c. c \<noteq> delim) s), delim), s, delim) \<in> measure (\<lambda>(s, _). length s)"
    using length_dropWhile_le [of "\<lambda>c. c \<noteq> delim" s] by (cases s) auto
qed simp

declare Split.simps [simp del]

text \<open>\<open>s.substr(0, n)\<close> and \<open>s.substr(n + 1)\<close> for the first position \<open>n\<close> of a character, which wraps to the whole
  string when there is none.\<close>

definition before_first :: "string \<Rightarrow> char \<Rightarrow> string" where
  "before_first s c = (case strchr s c of None \<Rightarrow> s | Some n \<Rightarrow> take n s)"

definition after_first :: "string \<Rightarrow> char \<Rightarrow> string" where
  "after_first s c = (case strchr s c of None \<Rightarrow> s | Some n \<Rightarrow> drop (Suc n) s)"

text \<open>\<open>s.substr(1, s.size() - 2)\<close>.\<close>

definition strip_quotes :: "string \<Rightarrow> string sql" where
  "strip_quotes s = (if s = [] then Inl Out_of_range else Inr (take (length s - 2) (drop 1 s)))"

subsection \<open>The statements\<close>

definition type_of_name :: "string \<Rightarrow> type_id" where
  "type_of_name t =
     (if t = ''bool'' \<or> t = ''boolean'' then BOOLEAN else if t = ''tinyint'' then TINYINT else if t = ''smallint'' then SMALLINT
      else if t = ''int'' \<or> t = ''integer'' then INTEGER else if t = ''bigint'' then BIGINT
      else if t = ''double'' \<or> t = ''float'' then DECIMAL else if t = ''varchar'' \<or> t = ''char'' then VARCHAR else INVALID)"

definition parse_column :: "string \<Rightarrow> column sql" where
  "parse_column t =
     (let name = before_first t CHR '' ''; ty = after_first t CHR '' '' in
      bnd (case strchr ty CHR ''('' of None \<Rightarrow> Inr (0, ty) | Some n \<Rightarrow> bnd (std_sto 32 (drop (Suc n) ty)) (\<lambda>len. Inr (len, take n ty))) (\<lambda>(len, ty).
        case type_of_name ty of INVALID \<Rightarrow> Inl Unknown_type
        | VARCHAR \<Rightarrow> new_column VARCHAR (if len = 0 then 32 else len) name
        | t \<Rightarrow> bnd (GetTypeSize t) (\<lambda>n. new_column t n name)))"

fun parse_columns :: "string list \<Rightarrow> column list sql" where
  "parse_columns [] = Inr []"
| "parse_columns (t # ts) = bnd (parse_column t) (\<lambda>c. bnd (parse_columns ts) (\<lambda>cs. Inr (c # cs)))"

definition ParseCreateStatement :: "string \<Rightarrow> schema sql" where
  "ParseCreateStatement sql_base = bnd (parse_columns (Split (map lower_char sql_base) CHR '','')) new_schema"

record index_metadata =
  im_name :: string
  im_table :: string
  im_attrs :: "int list"
  im_schema :: schema

definition new_IndexMetadata :: "string \<Rightarrow> string \<Rightarrow> schema \<Rightarrow> int list \<Rightarrow> index_metadata sql" where
  "new_IndexMetadata name table sch attrs =
     bnd (CopySchema sch attrs) (\<lambda>key. Inr \<lparr>im_name = name, im_table = table, im_attrs = attrs, im_schema = key\<rparr>)"

definition ParseIndexStatement :: "string \<Rightarrow> string \<Rightarrow> schema \<Rightarrow> index_metadata db" where
  "ParseIndexStatement sql table_name sch =
     (let sql = map lower_char sql in
      case strchr sql CHR '' '' of None \<Rightarrow> Inl (Pool Assert_fails)
      | Some n \<Rightarrow>
          let key_attrs = filter (\<lambda>i. i \<noteq> -1) (map (\<lambda>t. GetColumnID (columns sch) 0 (Trim t)) (Split (drop (Suc n) sql) CHR '',''))
          in if length key_attrs > length (columns sch) then Inl Index_error
             else sql_do (new_IndexMetadata (take n sql) table_name sch key_attrs))"

subsection \<open>Rows\<close>

record 'd sqlite_value =
  sv_null :: bool
  sv_int :: int
  sv_int64 :: int
  sv_double :: 'd
  sv_text :: "string option"

text \<open>The body of the loop of \<open>ConstructTuple\<close>: a type without a case leaves the value of the previous column. A null pointer
  as text is undefined.\<close>

definition column_value :: "'d dbl_ops \<Rightarrow> 'd sql_value \<Rightarrow> type_id \<Rightarrow> 'd sqlite_value list \<Rightarrow> 'd sql_value sql" where
  "column_value F v t argv =
     (if t \<in> {INVALID, TIMESTAMP} then Inr v
      else case argv of [] \<Rightarrow> Inl Undef
      | a # _ \<Rightarrow>
          if t \<in> {BOOLEAN, INTEGER, SMALLINT, TINYINT} then Value_int32 t (sv_int a)
          else if t = BIGINT then Value_int64 t (sv_int64 a)
          else if t = DECIMAL then Value_dbl F t (sv_double a)
          else (case sv_text a of None \<Rightarrow> Inl Undef | Some s \<Rightarrow> Value_string t s))"

fun construct_values :: "'d dbl_ops \<Rightarrow> 'd sql_value \<Rightarrow> type_id list \<Rightarrow> 'd sqlite_value list \<Rightarrow> 'd sql_value list sql" where
  "construct_values F v [] argv = Inr []"
| "construct_values F v (t # ts) argv = bnd (column_value F v t argv) (\<lambda>v1. bnd (construct_values F v1 ts (drop 1 argv)) (\<lambda>vs. Inr (v1 # vs)))"

definition ConstructTuple :: "'d dbl_ops \<Rightarrow> bytes \<Rightarrow> schema \<Rightarrow> 'd sqlite_value list \<Rightarrow> tuple sql" where
  "ConstructTuple F junk sch argv =
     bnd (construct_values F \<lparr>vtype = INVALID, vdata = Partly_Set, vlen = PELOTON_VALUE_NULL\<rparr> (map column_type (columns sch)) argv)
       (\<lambda>vs. new_tuple F junk vs sch)"

datatype 'd sqlite_result = Result_Int int | Result_Int64 int | Result_Double 'd | Result_Text string | Result_Null

definition SQLITE_OK :: int where "SQLITE_OK = 0"
definition SQLITE_ERROR :: int where "SQLITE_ERROR = 1"

text \<open>The bytes up to the first zero.\<close>

definition c_string :: "string \<Rightarrow> string sql" where
  "c_string s = (case strchr s (CHR 0x00) of None \<Rightarrow> Inl Undef | Some n \<Rightarrow> Inr (take n s))"

definition column_result :: "type_id \<Rightarrow> 'd sql_value \<Rightarrow> 'd sqlite_result option sql" where
  "column_result t v =
     (if t \<in> {TINYINT, BOOLEAN, SMALLINT, INTEGER} then bnd (get_int v) (\<lambda>i. Inr (Some (Result_Int i)))
      else if t = BIGINT then bnd (get_int v) (\<lambda>i. Inr (Some (Result_Int64 i)))
      else if t = DECIMAL then bnd (get_dbl v) (\<lambda>d. Inr (Some (Result_Double d)))
      else if t = VARCHAR then (case vdata v of Str_Val None \<Rightarrow> Inr (Some Result_Null)
        | Str_Val (Some s) \<Rightarrow> bnd (c_string s) (\<lambda>r. Inr (Some (Result_Text r))) | _ \<Rightarrow> Inl Undef)
      else Inr None)"

subsection \<open>Tables\<close>

record vindex =
  vi_meta :: index_metadata
  vi_key_size :: nat
  vi_tree :: btree

record vtable =
  vt_schema :: schema
  vt_first :: int
  vt_index :: "vindex option"

record ('t, 'r, 'd) db_env =
  db_table :: "('t, int, nat) hash_table"
  db_replacer :: "('r, nat) replacer_class"
  db_doubles :: "'d dbl_ops"

definition index_env :: "('t, 'r, 'd) db_env \<Rightarrow> vindex \<Rightarrow> ('t, 'r) tree_env" where
  "index_env D ix = \<lparr>env_table = db_table D, env_replacer = db_replacer D, env_key_size = vi_key_size ix,
     env_compare = GenericComparator (db_doubles D) (im_schema (vi_meta ix))\<rparr>"

definition ConstructIndex :: "index_metadata \<Rightarrow> int \<Rightarrow> vindex" where
  "ConstructIndex meta root_id =
     (let key_size = schema_length (im_schema meta) + 16 * int (length (uninlined_columns (im_schema meta)));
          K = (if key_size \<le> 4 then 4 else if key_size \<le> 8 then 8 else if key_size \<le> 16 then 16 else if key_size \<le> 32 then 32 else 64)
      in \<lparr>vi_meta = meta, vi_key_size = K, vi_tree = new_BPlusTree (map char_byte (im_name meta)) root_id\<rparr>)"

definition header_bytes :: "string \<Rightarrow> u8 list" where
  "header_bytes s = map char_byte s"

definition VtabCreate ::
  "('t, 'r, 'd) db_env \<Rightarrow> bool \<Rightarrow> ('t, 'r) pool \<Rightarrow> string list \<Rightarrow> (vtable \<times> ('t, 'r) pool) db" where
  "VtabCreate D declared s argv =
     then_do (pool_do (FetchPage (db_table D) (db_replacer D) s HEADER_PAGE_ID)) (\<lambda>(s1, header).
       if length argv < 4 then Inl (Pool Assert_fails)
       else
         then_do (sql_do (strip_quotes (argv ! 3))) (\<lambda>schema_string.
         then_do (sql_do (ParseCreateStatement schema_string)) (\<lambda>sch.
         then_do (if length argv > 4
           then then_do (sql_do (strip_quotes (argv ! 4))) (\<lambda>index_string.
             then_do (ParseIndexStatement index_string (argv ! 2) sch) (\<lambda>meta. Inr (Some (ConstructIndex meta INVALID_PAGE_ID))))
           else Inr None) (\<lambda>index.
         then_do (pool_do (new_TableHeap (db_table D) (db_replacer D) s1 INVALID_PAGE_ID)) (\<lambda>(s2, first).
           case header of None \<Rightarrow> Inl (Pool Undefined)
           | Some h \<Rightarrow>
               then_do (pool_do (on_page s2 h (\<lambda>d. InsertRecord d (header_bytes (argv ! 2)) first))) (\<lambda>(s3, _).
               then_do (pool_do (UnpinPage (db_table D) (db_replacer D) s3 HEADER_PAGE_ID True)) (\<lambda>(s4, _).
                 if declared then Inr (\<lparr>vt_schema = sch, vt_first = first, vt_index = index\<rparr>, s4) else Inl (Pool Assert_fails))))))))"

text \<open>A name that is not in the header page leaves \<open>table_root_id\<close> or \<open>index_root_id\<close> uninitialised.\<close>

definition stored_root :: "('t, 'r) pool \<Rightarrow> nat option \<Rightarrow> string \<Rightarrow> int db" where
  "stored_root s header name =
     (case header of None \<Rightarrow> Inl (Pool Undefined)
      | Some h \<Rightarrow> then_do (pool_do (GetRootId (data_at s h) (header_bytes name))) (\<lambda>r.
          case r of None \<Rightarrow> Inl (Pool Undefined) | Some root \<Rightarrow> Inr root))"

definition VtabConnect ::
  "('t, 'r, 'd) db_env \<Rightarrow> bool \<Rightarrow> ('t, 'r) pool \<Rightarrow> string list \<Rightarrow> (vtable \<times> ('t, 'r) pool) db" where
  "VtabConnect D declared s argv =
     (if length argv < 4 then Inl (Pool Assert_fails)
      else
        then_do (sql_do (strip_quotes (argv ! 3))) (\<lambda>schema_string.
        then_do (sql_do (ParseCreateStatement schema_string)) (\<lambda>sch.
        then_do (pool_do (FetchPage (db_table D) (db_replacer D) s HEADER_PAGE_ID)) (\<lambda>(s1, header).
        then_do (stored_root s1 header (argv ! 2)) (\<lambda>table_root_id.
        then_do (if length argv > 4
          then then_do (sql_do (strip_quotes (argv ! 4))) (\<lambda>index_string.
            then_do (ParseIndexStatement index_string (argv ! 2) sch) (\<lambda>meta.
            then_do (stored_root s1 header (im_name meta)) (\<lambda>index_root_id. Inr (Some (ConstructIndex meta index_root_id)))))
          else Inr None) (\<lambda>index.
        then_do (pool_do (new_TableHeap (db_table D) (db_replacer D) s1 table_root_id)) (\<lambda>(s2, first).
          if declared
          then then_do (pool_do (UnpinPage (db_table D) (db_replacer D) s2 HEADER_PAGE_ID False)) (\<lambda>(s3, _).
            Inr (\<lparr>vt_schema = sch, vt_first = first, vt_index = index\<rparr>, s3))
          else Inl (Pool Assert_fails))))))))"

text \<open>\<open>sqlite3_vtable_init\<close>: the pool of ten frames, and the header page when the file is new.\<close>

definition vtable_init :: "('t, 'r, 'd) db_env \<Rightarrow> ('t, 'r) pool \<Rightarrow> bool \<Rightarrow> ('t, 'r) pool db" where
  "vtable_init D s is_file_exist =
     then_do (if is_file_exist then Inr s
       else then_do (pool_do (NewPage (db_table D) (db_replacer D) s)) (\<lambda>(s1, header_page_id, _).
         if header_page_id = HEADER_PAGE_ID then Inr s1 else Inl (Pool Assert_fails))) (\<lambda>s1.
     then_do (pool_do (UnpinPage (db_table D) (db_replacer D) s1 HEADER_PAGE_ID True)) (\<lambda>(s2, _). Inr s2))"

subsection \<open>Choosing the index\<close>

record constraint =
  usable :: bool
  iColumn :: int
  cons_op :: int

record index_info =
  aConstraint :: "constraint list"
  argvIndex :: "int list"
  idxNum :: int

definition SQLITE_INDEX_CONSTRAINT_EQ :: int where "SQLITE_INDEX_CONSTRAINT_EQ = 2"

fun best_index_loop :: "int list \<Rightarrow> int \<Rightarrow> constraint list \<Rightarrow> int list \<Rightarrow> int \<Rightarrow> int list \<times> int \<times> bool" where
  "best_index_loop key_attrs i [] usage counter = (usage, counter, True)"
| "best_index_loop key_attrs i (c # cs) usage counter =
     (if \<not> usable c then best_index_loop key_attrs (i + 1) cs usage counter
      else if iColumn c \<in> set key_attrs
      then if cons_op c \<noteq> SQLITE_INDEX_CONSTRAINT_EQ then (usage, counter, False)
           else best_index_loop key_attrs (i + 1) cs (usage[nat i := i + 1]) (counter + 1)
      else best_index_loop key_attrs (i + 1) cs usage counter)"

definition VtabBestIndex :: "vtable \<Rightarrow> index_info \<Rightarrow> index_info" where
  "VtabBestIndex vt info =
     (case vt_index vt of None \<Rightarrow> info
      | Some ix \<Rightarrow>
          let key_attrs = im_attrs (vi_meta ix) in
          if length (aConstraint info) \<noteq> length key_attrs then info
          else let (usage, counter, is_index_scan) = best_index_loop key_attrs 0 (aConstraint info) (argvIndex info) 0 in
            info\<lparr>argvIndex := usage, idxNum := (if counter = int (length key_attrs) \<and> is_index_scan then 1 else idxNum info)\<rparr>)"

subsection \<open>Changing rows\<close>

fun key_values :: "'d dbl_ops \<Rightarrow> schema \<Rightarrow> tuple \<Rightarrow> int list \<Rightarrow> 'd sql_value list sql" where
  "key_values F sch t [] = Inr []"
| "key_values F sch t (i # is) =
     require (0 \<le> i \<and> i < int (length (columns sch))) Undef
       (bnd (GetValue F sch t (nat i)) (\<lambda>v. bnd (key_values F sch t is) (\<lambda>vs. Inr (v # vs))))"

definition vt_InsertEntry ::
  "('t, 'r, 'd) db_env \<Rightarrow> bytes \<Rightarrow> bytes \<Rightarrow> vtable \<Rightarrow> ('t, 'r) pool \<Rightarrow> tuple \<Rightarrow> rid \<Rightarrow> (vtable \<times> ('t, 'r) pool) db" where
  "vt_InsertEntry D junk1 junk2 vt s t rid =
     (case vt_index vt of None \<Rightarrow> Inl (Pool Undefined)
      | Some ix \<Rightarrow>
          then_do (sql_do (key_values (db_doubles D) (vt_schema vt) t (im_attrs (vi_meta ix)))) (\<lambda>vs.
          then_do (sql_do (new_tuple (db_doubles D) junk1 vs (im_schema (vi_meta ix)))) (\<lambda>key.
          then_do (index_InsertEntry (index_env D ix) junk2 (vi_tree ix) s key rid) (\<lambda>(tr, s1).
            Inr (vt\<lparr>vt_index := Some (ix\<lparr>vi_tree := tr\<rparr>)\<rparr>, s1)))))"

text \<open>A tuple that points into a frame.\<close>

definition tuple_of_ref :: "('t, 'r) pool \<Rightarrow> tuple_ref \<Rightarrow> tuple" where
  "tuple_of_ref s r = \<lparr>tuple_size = fst (snd r), tuple_data = (\<lambda>a. data_at s (fst r) (snd (snd r) + a))\<rparr>"

definition vt_DeleteEntry ::
  "('t, 'r, 'd) db_env \<Rightarrow> bytes \<Rightarrow> bytes \<Rightarrow> vtable \<Rightarrow> ('t, 'r) pool \<Rightarrow> rid \<Rightarrow> (vtable \<times> ('t, 'r) pool) db" where
  "vt_DeleteEntry D junk1 junk2 vt s rid =
     then_do (pool_do (heap_GetTuple (db_table D) (db_replacer D) s rid)) (\<lambda>(s1, r).
       case vt_index vt of None \<Rightarrow> Inl (Pool Undefined)
       | Some ix \<Rightarrow>
           then_do (sql_do (case r of None \<Rightarrow> if im_attrs (vi_meta ix) = [] then Inr [] else Inl Undef
             | Some ref \<Rightarrow> key_values (db_doubles D) (vt_schema vt) (tuple_of_ref s1 ref) (im_attrs (vi_meta ix)))) (\<lambda>vs.
           then_do (sql_do (new_tuple (db_doubles D) junk1 vs (im_schema (vi_meta ix)))) (\<lambda>key.
           then_do (index_DeleteEntry (index_env D ix) junk2 (vi_tree ix) key) (\<lambda>tr.
             Inr (vt\<lparr>vt_index := Some (ix\<lparr>vi_tree := tr\<rparr>)\<rparr>, s1)))))"

abbreviation bytes_of_tuple :: "tuple \<Rightarrow> u8 list" where
  "bytes_of_tuple t \<equiv> read_mem (tuple_data t) 0 (nat (tuple_size t))"

definition vt_InsertTuple :: "('t, 'r, 'd) db_env \<Rightarrow> vtable \<Rightarrow> ('t, 'r) pool \<Rightarrow> tuple \<Rightarrow> rid \<Rightarrow> (('t, 'r) pool \<times> rid) db" where
  "vt_InsertTuple D vt s t rid =
     then_do (pool_do (heap_InsertTuple (db_table D) (db_replacer D) s (vt_first vt) (bytes_of_tuple t))) (\<lambda>(s1, r).
       Inr (s1, case r of None \<Rightarrow> rid | Some rid' \<Rightarrow> rid'))"

definition VtabUpdate ::
  "('t, 'r, 'd) db_env \<Rightarrow> (nat \<Rightarrow> bytes) \<Rightarrow> vtable \<Rightarrow> ('t, 'r) pool \<Rightarrow> 'd sqlite_value list \<Rightarrow> (vtable \<times> ('t, 'r) pool) db" where
  "VtabUpdate D junk vt s argv =
     (case argv of [] \<Rightarrow> Inr (vt, s)
      | [a] \<Rightarrow> let rid = RID_of (word_of_int (sv_int64 a)) in
          then_do (vt_DeleteEntry D (junk 0) (junk 1) vt s rid) (\<lambda>(vt1, s1).
          then_do (pool_do (heap_DeleteTuple (db_table D) (db_replacer D) s1 rid)) (\<lambda>(s2, _). Inr (vt1, s2)))
      | a # _ \<Rightarrow>
          if sv_null a
          then
            then_do (sql_do (ConstructTuple (db_doubles D) (junk 0) (vt_schema vt) (drop 2 argv))) (\<lambda>t.
            then_do (vt_InsertTuple D vt s t invalid_rid) (\<lambda>(s1, rid).
              vt_InsertEntry D (junk 1) (junk 2) vt s1 t rid))
          else
            then_do (sql_do (ConstructTuple (db_doubles D) (junk 0) (vt_schema vt) (drop 2 argv))) (\<lambda>t.
              let rid = RID_of (word_of_int (sv_int64 a)) in
            then_do (vt_DeleteEntry D (junk 1) (junk 2) vt s rid) (\<lambda>(vt1, s1).
            then_do (pool_do (heap_UpdateTuple (db_table D) (db_replacer D) s1 (bytes_of_tuple t) rid)) (\<lambda>(s2, updated).
            then_do (if updated then Inr (s2, rid)
              else then_do (pool_do (heap_DeleteTuple (db_table D) (db_replacer D) s2 rid)) (\<lambda>(s3, _). vt_InsertTuple D vt1 s3 t rid)) (\<lambda>(s4, rid1).
              vt_InsertEntry D (junk 3) (junk 4) vt1 s4 t rid1)))))"

subsection \<open>Cursors\<close>

record cursor =
  cur_results :: "rid list"
  cur_offset :: nat
  cur_iter :: table_iterator
  is_index_scan :: bool

definition VtabOpen :: "('t, 'r, 'd) db_env \<Rightarrow> vtable \<Rightarrow> ('t, 'r) pool \<Rightarrow> (('t, 'r) pool \<times> cursor) db" where
  "VtabOpen D vt s = then_do (pool_do (heap_begin (db_table D) (db_replacer D) s (vt_first vt))) (\<lambda>(s1, it).
     Inr (s1, \<lparr>cur_results = [], cur_offset = 0, cur_iter = it, is_index_scan = False\<rparr>))"

definition VtabFilter ::
  "('t, 'r, 'd) db_env \<Rightarrow> (nat \<Rightarrow> bytes) \<Rightarrow> vtable \<Rightarrow> ('t, 'r) pool \<Rightarrow> cursor \<Rightarrow> int \<Rightarrow> 'd sqlite_value list \<Rightarrow> (('t, 'r) pool \<times> cursor) db" where
  "VtabFilter D junk vt s c idx_num argv =
     (if idx_num = 1
      then case vt_index vt of None \<Rightarrow> Inl (Pool Undefined)
        | Some ix \<Rightarrow>
            then_do (sql_do (ConstructTuple (db_doubles D) (junk 0) (im_schema (vi_meta ix)) argv)) (\<lambda>scan_tuple.
            then_do (index_ScanKey (index_env D ix) (junk 1) (vi_tree ix) s scan_tuple (cur_results c)) (\<lambda>(s1, rs).
              Inr (s1, c\<lparr>is_index_scan := True, cur_results := rs\<rparr>)))
      else Inr (s, c))"

definition VtabNext :: "('t, 'r, 'd) db_env \<Rightarrow> ('t, 'r) pool \<Rightarrow> cursor \<Rightarrow> (('t, 'r) pool \<times> cursor) db" where
  "VtabNext D s c =
     (if is_index_scan c then Inr (s, c\<lparr>cur_offset := cur_offset c + 1\<rparr>)
      else then_do (pool_do (iter_next (db_table D) (db_replacer D) s (cur_iter c))) (\<lambda>(s1, it). Inr (s1, c\<lparr>cur_iter := it\<rparr>)))"

definition VtabEof :: "cursor \<Rightarrow> bool" where
  "VtabEof c = (if is_index_scan c then cur_offset c = length (cur_results c) else same_iterator (cur_iter c) heap_end)"

definition current_rid :: "cursor \<Rightarrow> rid db" where
  "current_rid c =
     (if is_index_scan c
      then if cur_offset c < length (cur_results c) then Inr (cur_results c ! cur_offset c) else Inl (Pool Undefined)
      else then_do (pool_do (iter_deref (cur_iter c))) (\<lambda>_. Inr (it_rid (cur_iter c))))"

definition VtabRowid :: "cursor \<Rightarrow> int db" where
  "VtabRowid c = then_do (current_rid c) (\<lambda>r. Inr (sint (RID_Get r)))"

text \<open>A tuple that \<open>GetTuple\<close> did not fill in has no data.\<close>

definition GetCurrentTuple :: "('t, 'r, 'd) db_env \<Rightarrow> ('t, 'r) pool \<Rightarrow> cursor \<Rightarrow> (('t, 'r) pool \<times> tuple_ref option) db" where
  "GetCurrentTuple D s c =
     (if is_index_scan c
      then then_do (current_rid c) (\<lambda>r. pool_do (heap_GetTuple (db_table D) (db_replacer D) s r))
      else then_do (pool_do (iter_deref (cur_iter c))) (\<lambda>t. Inr (s, t)))"

definition VtabColumn :: "('t, 'r, 'd) db_env \<Rightarrow> vtable \<Rightarrow> ('t, 'r) pool \<Rightarrow> cursor \<Rightarrow> nat \<Rightarrow> (('t, 'r) pool \<times> int \<times> 'd sqlite_result option) db" where
  "VtabColumn D vt s c i =
     then_do (GetCurrentTuple D s c) (\<lambda>(s1, t).
       if i < length (columns (vt_schema vt))
       then case t of None \<Rightarrow> Inl (Pool Undefined)
         | Some r \<Rightarrow>
             then_do (sql_do (GetValue (db_doubles D) (vt_schema vt) (tuple_of_ref s1 r) i)) (\<lambda>v.
             then_do (sql_do (column_result (column_type (columns (vt_schema vt) ! i)) v)) (\<lambda>res.
               Inr (s1, if res = None then SQLITE_ERROR else SQLITE_OK, res)))
       else Inl (Pool Undefined))"

end
