(* ===== verification/Vtable_Parse.thy ===== *)
theory Vtable_Parse
  imports Vtable
begin

section \<open>The statements that create tables and indexes\<close>

text \<open>
  The parser of a column list and of a whole \<open>CREATE\<close> statement, for any list of declarations.
\<close>

subsection \<open>Characters and pieces\<close>

lemma lower_char_simps:
  "isspace (lower_char c) \<longleftrightarrow> isspace c" "lower_char c = CHR '','' \<longleftrightarrow> c = CHR '',''" "lower_char c = CHR '' '' \<longleftrightarrow> c = CHR '' ''"
  "lower_char c = CHR ''('' \<longleftrightarrow> c = CHR ''(''"
proof -
  define n where "n = (of_char c :: nat)"
  have c: "c = char_of n" by (simp add: n_def)
  have n: "n < 256" by (simp add: n_def)
  have l: "lower_char c = (if 65 \<le> n \<and> n \<le> 90 then char_of (n + 32) else c)" by (simp add: lower_char_def n_def)
  have of: "(of_char (char_of (n + 32) :: char) :: nat) = n + 32" if "n \<le> 90" using that by (simp add: of_char_of)
  have eq: "char_of (n + 32) = d \<longleftrightarrow> n + 32 = of_char d" if "n \<le> 90" for d :: char using of [OF that] by (metis char_of_char)
  have ceq: "c = d \<longleftrightarrow> n = of_char d" for d :: char by (simp add: n_def)
  show "isspace (lower_char c) \<longleftrightarrow> isspace c" unfolding isspace_def l using of eq ceq by (auto simp: n_def [symmetric])
  show "lower_char c = CHR '','' \<longleftrightarrow> c = CHR '',''" "lower_char c = CHR '' '' \<longleftrightarrow> c = CHR '' ''" "lower_char c = CHR ''('' \<longleftrightarrow> c = CHR ''(''"
    unfolding l using eq ceq by auto
qed

lemma lower_digit: "isdigit c \<or> c = CHR ''-'' \<Longrightarrow> lower_char c = c"
  by (auto simp: lower_char_def isdigit_def)

lemma lower_show_int: "map lower_char (show_int k) = show_int k"
  using show_int_chars lower_digit by (intro map_idI) blast

text \<open>A piece of a statement that \<open>Split\<close> returns as it is.\<close>

definition piece_ok :: "string \<Rightarrow> bool" where
  "piece_ok s \<longleftrightarrow> s \<noteq> [] \<and> \<not> isspace (hd s) \<and> \<not> isspace (last s) \<and> CHR '','' \<notin> set s"

lemma Trim_piece: "list_all isspace pre \<Longrightarrow> piece_ok s \<Longrightarrow> Trim (pre @ s) = s"
proof -
  assume pre: "list_all isspace pre" and s: "piece_ok s"
  have "dropWhile isspace (pre @ s) = dropWhile isspace s" using pre by (simp add: list_all_iff dropWhile_append2)
  moreover have "dropWhile isspace s = s" using s by (cases s) (auto simp: piece_ok_def)
  moreover have "dropWhile isspace (rev s) = rev s" using s by (simp add: dropWhile_eq_self_iff piece_ok_def hd_rev)
  ultimately show ?thesis by (simp add: Trim_def LTrim_def RTrim_def)
qed

lemma no_comma:
  assumes "list_all isspace pre" "piece_ok s"
  shows "\<forall>x\<in>set (pre @ s). x \<noteq> CHR '',''"
proof
  fix x assume x: "x \<in> set (pre @ s)"
  have "\<not> isspace CHR '',''" by (simp add: isspace_def)
  then show "x \<noteq> CHR '',''" using x assms by (metis Un_iff list_all_iff piece_ok_def set_append)
qed

lemma Split_Cons: "s \<noteq> [] \<Longrightarrow> Split s c = Trim (takeWhile (\<lambda>x. x \<noteq> c) s) # Split (tl (dropWhile (\<lambda>x. x \<noteq> c) s)) c"
  by (subst Split.simps) simp

lemma Split_join:
  assumes "list_all piece_ok ss" "list_all isspace pre" "ss \<noteq> []"
  shows "Split (pre @ join_comma ss) CHR '','' = ss"
  using assms
proof (induction ss arbitrary: pre rule: join_comma.induct)
  case (2 s)
  have p: "piece_ok s" "list_all isspace pre" using 2 by simp_all
  have w: "takeWhile (\<lambda>c. c \<noteq> CHR '','') (pre @ s) = pre @ s" "dropWhile (\<lambda>c. c \<noteq> CHR '','') (pre @ s) = []"
    using no_comma [OF p(2,1)] takeWhile_eq_all_conv [of "\<lambda>c. c \<noteq> CHR '',''" "pre @ s"] dropWhile_eq_Nil_conv [of "\<lambda>c. c \<noteq> CHR '',''" "pre @ s"] by blast+
  have n: "Split [] CHR '','' = []" by (subst Split.simps) simp
  have "pre @ s \<noteq> []" using p by (simp add: piece_ok_def)
  from Split_Cons [OF this, of "CHR '',''"] show ?case by (simp only: w list.sel(2) n Trim_piece [OF p(2,1)] join_comma.simps)
next
  case (3 s s' ss)
  have p: "piece_ok s" "list_all isspace pre" using 3 by simp_all
  let ?r = "CHR '','' # CHR '' '' # join_comma (s' # ss)"
  have e: "pre @ join_comma (s # s' # ss) = (pre @ s) @ ?r" by simp
  have w: "takeWhile (\<lambda>c. c \<noteq> CHR '','') ((pre @ s) @ ?r) = pre @ s" "dropWhile (\<lambda>c. c \<noteq> CHR '','') ((pre @ s) @ ?r) = ?r"
    using no_comma [OF p(2,1)] takeWhile_append2 [of "pre @ s" "\<lambda>c. c \<noteq> CHR '',''" ?r] dropWhile_append2 [of "pre @ s" "\<lambda>c. c \<noteq> CHR '',''" ?r] by auto
  have "Split ([CHR '' ''] @ join_comma (s' # ss)) CHR '','' = s' # ss" using 3 by (intro 3(1)) (auto simp: isspace_def)
  then have n: "Split (CHR '' '' # join_comma (s' # ss)) CHR '','' = s' # ss" by simp
  have "(pre @ s) @ ?r \<noteq> []" by simp
  from Split_Cons [OF this, of "CHR '',''"] show ?case by (simp only: e w list.sel(3) n Trim_piece [OF p(2,1)])
qed simp

lemma map_join: "map f (join_comma ss) = join_comma (map (map f) ss)" if "f CHR '','' = CHR '',''" "f CHR '' '' = CHR '' ''"
  using that by (induction ss rule: join_comma.induct) auto

subsection \<open>Columns\<close>

text \<open>A column as it is declared: its name, the name of its type, and a length in parentheses.\<close>

type_synonym decl = "string \<times> string \<times> int option"

definition decl_text :: "decl \<Rightarrow> string" where
  "decl_text d = (case d of (name, ty, len) \<Rightarrow>
     name @ CHR '' '' # ty @ (case len of None \<Rightarrow> [] | Some k \<Rightarrow> CHR ''('' # show_int k @ '')''))"

definition decl_ok :: "decl \<Rightarrow> bool" where
  "decl_ok d \<longleftrightarrow> (case d of (name, ty, len) \<Rightarrow>
     name \<noteq> [] \<and> list_all (\<lambda>c. \<not> isspace c \<and> c \<noteq> CHR '','') name \<and> type_of_name (map lower_char ty) \<noteq> INVALID
     \<and> (case len of None \<Rightarrow> True | Some k \<Rightarrow> - (2 ^ 31) \<le> k \<and> k < 2 ^ 31))"

definition decl_column :: "decl \<Rightarrow> column" where
  "decl_column d = (case d of (name, ty, len) \<Rightarrow>
     let t = type_of_name (map lower_char ty); n = (case len of None \<Rightarrow> 0 | Some k \<Rightarrow> k) in
     if t = VARCHAR
     then \<lparr>column_type = t, fixed_length = 4, variable_length = (if n = 0 then 32 else n), column_name = map lower_char name, is_inlined = False, column_offset = -1\<rparr>
     else \<lparr>column_type = t, fixed_length = (case GetTypeSize t of Inl _ \<Rightarrow> 0 | Inr k \<Rightarrow> k), variable_length = 0, column_name = map lower_char name,
       is_inlined = True, column_offset = -1\<rparr>)"

definition type_names :: "string list" where
  "type_names = [''bool'', ''boolean'', ''tinyint'', ''smallint'', ''int'', ''integer'', ''bigint'', ''double'', ''float'', ''varchar'', ''char'']"

lemma type_name_ok:
  assumes "type_of_name t \<noteq> INVALID"
  shows "t \<noteq> []" "\<not> isspace (last t)" "CHR '','' \<notin> set t" "CHR ''('' \<notin> set t"
proof -
  have m: "t \<in> set type_names" using assms by (auto simp: type_of_name_def type_names_def split: if_splits)
  have "list_all (\<lambda>t. t \<noteq> [] \<and> \<not> isspace (last t) \<and> CHR '','' \<notin> set t \<and> CHR ''('' \<notin> set t) type_names" by code_simp
  with m show "t \<noteq> []" "\<not> isspace (last t)" "CHR '','' \<notin> set t" "CHR ''('' \<notin> set t" unfolding list_all_iff by blast+
qed

lemma strchr_absent: "c \<notin> set s \<Longrightarrow> strchr s c = None"
  by (simp add: strchr_def)

abbreviation low :: "string \<Rightarrow> string" where "low \<equiv> map lower_char"

lemma low_decl: "low (decl_text (name, ty, len)) = low name @ CHR '' '' # low ty @ (case len of None \<Rightarrow> [] | Some k \<Rightarrow> CHR ''('' # show_int k @ '')'')"
  by (simp add: decl_text_def lower_show_int lower_char_def split: option.splits)

lemma low_name:
  assumes "list_all (\<lambda>c. \<not> isspace c \<and> c \<noteq> CHR '','') name"
  shows "list_all (\<lambda>c. \<not> isspace c \<and> c \<noteq> CHR '','' \<and> c \<noteq> CHR '' '') (low name)"
proof -
  have "isspace CHR '' ''" by (simp add: isspace_def)
  then have "c \<noteq> CHR '' ''" if "\<not> isspace c" for c using that by blast
  then show ?thesis using assms by (simp add: list_all_iff lower_char_simps)
qed

lemma decl_piece:
  assumes "decl_ok (name, ty, len)"
  shows "piece_ok (low (decl_text (name, ty, len)))"
proof -
  have n: "low name \<noteq> []" "list_all (\<lambda>c. \<not> isspace c \<and> c \<noteq> CHR '','' \<and> c \<noteq> CHR '' '') (low name)" using assms low_name by (simp_all add: decl_ok_def)
  note t = type_name_ok [of "low ty"]
  have ty: "low ty \<noteq> []" "\<not> isspace (last (low ty))" "CHR '','' \<notin> set (low ty)" using assms t by (simp_all add: decl_ok_def)
  let ?r = "case len of None \<Rightarrow> [] | Some k \<Rightarrow> CHR ''('' # show_int k @ '')''"
  have "CHR '','' \<notin> set (show_int k)" for k using show_int_chars [of "CHR '',''" k] by (auto simp: isdigit_def)
  then have "CHR '','' \<notin> set ?r" by (simp split: option.splits)
  moreover have "CHR '','' \<notin> set (low name)" using n(2) unfolding list_all_iff by blast
  ultimately have c: "CHR '','' \<notin> set (low (decl_text (name, ty, len)))" unfolding low_decl using ty(3) by simp
  have l: "\<not> isspace (last (low (decl_text (name, ty, len))))"
    unfolding low_decl using ty(1,2) by (cases len) (simp_all add: isspace_def)
  have h: "\<not> isspace (hd (low (decl_text (name, ty, len))))" unfolding low_decl using n by (cases "low name") simp_all
  show ?thesis using c l h unfolding low_decl by (simp add: piece_ok_def)
qed

lemma parse_decl:
  assumes "decl_ok (name, ty, len)"
  shows "parse_column (low (decl_text (name, ty, len))) = Inr (decl_column (name, ty, len))"
proof -
  let ?r = "case len of None \<Rightarrow> [] | Some k \<Rightarrow> CHR ''('' # show_int k @ '')''" and ?T = "type_of_name (low ty)"
  have "CHR '' '' \<notin> set (low name)" using assms low_name [of name] unfolding decl_ok_def list_all_iff prod.case by blast
  then have "strchr (low name @ CHR '' '' # low ty @ ?r) CHR '' '' = Some (length (low name))" by (rule strchr_append)
  then have bf: "before_first (low (decl_text (name, ty, len))) CHR '' '' = low name" "after_first (low (decl_text (name, ty, len))) CHR '' '' = low ty @ ?r"
    unfolding low_decl by (simp_all add: before_first_def after_first_def)
  have T: "?T \<noteq> INVALID" using assms by (simp add: decl_ok_def)
  note br = type_name_ok(4) [OF T]
  let ?n = "case len of None \<Rightarrow> 0 | Some k \<Rightarrow> k"
  have p: "(case strchr (low ty @ ?r) CHR ''('' of None \<Rightarrow> Inr (0, low ty @ ?r)
      | Some n \<Rightarrow> bnd (std_sto 32 (drop (Suc n) (low ty @ ?r))) (\<lambda>len. Inr (len, take n (low ty @ ?r)))) = Inr (?n, low ty)"
  proof (cases len)
    case None
    then show ?thesis using strchr_absent [OF br] by simp
  next
    case (Some k)
    have "scan_int (show_int k @ '')'') = Some (k, '')'')" by (rule scan_show_int) (simp add: isdigit_def)
    moreover have "sbits 32 k = k" using assms Some by (simp add: decl_ok_def sbits_def signed_take_bit_int_eq_self)
    ultimately show ?thesis using strchr_append [OF br, of "show_int k @ '')''"] Some by (simp add: std_sto_def)
  qed
  have ts: "?T \<in> {BOOLEAN, TINYINT, SMALLINT, INTEGER, BIGINT, DECIMAL, VARCHAR}" using T by (auto simp: type_of_name_def split: if_splits)
  show ?thesis
    unfolding parse_column_def Let_def bf p bnd_simps prod.case
    using ts by (auto simp: decl_column_def Let_def new_column_def SetInlined_def SetLength_def GetTypeSize_def)
qed

lemma parse_decls: "list_all decl_ok ds \<Longrightarrow> parse_columns (map (low \<circ> decl_text) ds) = Inr (map decl_column ds)"
proof (induction ds)
  case (Cons d ds)
  obtain name ty len where "d = (name, ty, len)" by (cases d) auto
  then show ?case using Cons parse_decl [of name ty len] by simp
qed simp

lemma create_statement:
  assumes "list_all decl_ok ds"
  shows "ParseCreateStatement (join_comma (map decl_text ds)) = new_schema (map decl_column ds)"
proof -
  have "Split (join_comma (map (low \<circ> decl_text) ds)) CHR '','' = map (low \<circ> decl_text) ds"
  proof (cases "ds = []")
    case False
    have "list_all piece_ok (map (low \<circ> decl_text) ds)" using assms decl_piece by (auto simp: list_all_iff)
    then show ?thesis using Split_join [of "map (low \<circ> decl_text) ds" "[]"] False by simp
  qed (simp add: Split.simps)
  moreover have "low (join_comma (map decl_text ds)) = join_comma (map (low \<circ> decl_text) ds)"
    by (subst map_join) (simp_all add: lower_char_def)
  ultimately show ?thesis using parse_decls [OF assms] by (simp add: ParseCreateStatement_def)
qed

text \<open>C39. A statement that lists columns, each with a name, the name of a known type in any case and perhaps a length, is
  parsed into the schema of these columns: names in lower case, the sizes of the types, 32 for a \<open>VARCHAR\<close> without
  length or of length 0.\<close>

theorem create_statement_parsed:
  assumes "list_all decl_ok ds"
  shows "ParseCreateStatement (join_comma (map decl_text ds)) = new_schema (map decl_column ds)"
  by (rule create_statement [OF assms])

theorem create_statement_parsed_witness:
  "\<exists>sch. ParseCreateStatement ''a INT, B varchar(13), c Bool'' = Inr sch
    \<and> map column_name (columns sch) = [''a'', ''b'', ''c''] \<and> map column_type (columns sch) = [INTEGER, VARCHAR, BOOLEAN]
    \<and> map column_offset (columns sch) = [0, 4, 8] \<and> schema_length sch = 9 \<and> uninlined_columns sch = [1]"
proof -
  let ?ds = "[(''a'', ''INT'', None), (''B'', ''varchar'', Some 13), (''c'', ''Bool'', None)] :: decl list"
  have t: "join_comma (map decl_text ?ds) = ''a INT, B varchar(13), c Bool''" by code_simp
  have "list_all decl_ok ?ds" by code_simp
  note p = create_statement_parsed [OF this, unfolded t]
  have "case new_schema (map decl_column ?ds) of Inl _ \<Rightarrow> False | Inr sch \<Rightarrow>
    map column_name (columns sch) = [''a'', ''b'', ''c''] \<and> map column_type (columns sch) = [INTEGER, VARCHAR, BOOLEAN]
    \<and> map column_offset (columns sch) = [0, 4, 8] \<and> schema_length sch = 9 \<and> uninlined_columns sch = [1]"
    by code_simp
  then show ?thesis unfolding p by (cases "new_schema (map decl_column ?ds)") simp_all
qed

end
