(* ===== verification/Sql_Props.thy ===== *)
theory Sql_Props
  imports Sql_Typed
begin

section \<open>The properties of SQL values\<close>

text \<open>An instance of the floating-point operations for concrete values: 64-bit fixed-point numbers without a fraction.\<close>

definition word_doubles :: "u64 dbl_ops" where
  "word_doubles = \<lparr>dbl_of_int = word_of_int, dbl_trunc = sint, dbl_add = (+), dbl_sub = (-), dbl_mul = (*),
     dbl_div = (\<lambda>x y. word_of_int (sint x sdiv sint y)), dbl_round0 = (\<lambda>x. x), dbl_sqrt = (\<lambda>x. x), dbl_eq = (=),
     dbl_lt = (\<lambda>x y. sint x < sint y), dbl_le = (\<lambda>x y. sint x \<le> sint y), dbl_lowest = 0x8000000000000000,
     dbl_max = 0x7FFFFFFFFFFFFFFF, flt_lowest = word_of_int (- (2 ^ 31)), dbl_show = (\<lambda>x. ''0''),
     dbl_parse = (\<lambda>s. bnd (std_sto 64 s) (\<lambda>n. Inr (word_of_int n))), dbl_bits = (\<lambda>x. x), dbl_of_bits = (\<lambda>x. x)\<rparr>"

lemma show_ok_word_doubles: "show_ok word_doubles"
  by (simp add: show_ok_def word_doubles_def)

text \<open>The operations on values are typed: when arithmetic or a cast on well-formed values returns a value (and does not
  end in an exception, a failed assertion or undefined behaviour), the value is well-formed, and its type is the wider
  integer type, the integer type a string is read as, or \<open>DECIMAL\<close>; a cast returns a value of the type it names.\<close>

theorem sql_results_typed:
  assumes v: "value_ok F v" and w: "value_ok F w" and s: "show_ok F"
  shows "gives F (result_type (vtype v) (vtype w)) (Add F v w) \<and> gives F (result_type (vtype v) (vtype w)) (Subtract F v w)
    \<and> gives F (result_type (vtype v) (vtype w)) (Multiply F v w) \<and> gives F (result_type (vtype v) (vtype w)) (Divide F v w)
    \<and> gives F (result_type (vtype v) (vtype w)) (Modulo F v w) \<and> gives F t (CastAs F v t)"
proof (cases "is_int (vtype v)")
  case True
  note m = gives_checked [OF True gives_int_modify [OF True w s]]
  show ?thesis
    unfolding Add_def Subtract_def Multiply_def Divide_def Modulo_def kTypes_int(1) [OF True] int_arith_def
    by (auto intro!: m gives_methods gives_cast [OF v s] True)
next
  case False
  have r: "result_type (vtype v) (vtype w) = DECIMAL" using False by (simp add: result_type_def)
  have "vtype v = DECIMAL \<or> vtype v = BOOLEAN \<or> vtype v = VARCHAR"
    using False v by (auto simp: value_ok_def split: val_data.splits option.splits)
  then show ?thesis
    unfolding r using gives_cast [OF v s]
    by (auto simp: Add_def Subtract_def Multiply_def Divide_def Modulo_def kTypes_arith_def DecimalType_arith_def VarlenType_arith_def
        Type_arith_def intro!: gives_dec_modify gives_intro)
qed

theorem sql_results_typed_witness:
  "value_ok word_doubles (mk_int TINYINT 5) \<and> gives word_doubles SMALLINT (Add word_doubles (mk_int TINYINT 5) (mk_int SMALLINT 300))
    \<and> Add word_doubles (mk_int TINYINT 5) (mk_int SMALLINT 300) = Inr (mk_int SMALLINT 305)
    \<and> Add word_doubles (varchar ''1'') (mk_int TINYINT 5) = Inl Not_implemented"
proof -
  have ok: "value_ok word_doubles (mk_int TINYINT 5)" "value_ok word_doubles (mk_int SMALLINT 300)"
    by (simp_all add: value_ok_def mk_int_def is_int_def fits_bits_def PELOTON_INT_NULL_def)
  have i: "int_ok TINYINT 5" "int_ok SMALLINT 300" by (simp_all add: int_ok_def is_int_def PELOTON_INT_MIN_def PELOTON_INT_MAX_def)
  have "Add word_doubles (mk_int TINYINT 5) (mk_int SMALLINT 300) = Inr (mk_int SMALLINT 305)"
    by (simp add: int_binary [OF i] exact_def wider_def fits_bits_def)
  moreover have "Add word_doubles (varchar ''1'') (mk_int TINYINT 5) = Inl Not_implemented"
    by (simp add: Add_def varchar_def kTypes_arith_def VarlenType_arith_def Type_arith_def)
  moreover have "result_type TINYINT SMALLINT = SMALLINT" by (simp add: result_type_def is_int_def wider_def)
  ultimately show ?thesis using sql_results_typed [OF ok show_ok_word_doubles] ok by simp
qed

text \<open>C15. Arithmetic on two integer values that are not null is exact: the result has the wider of the two types
  and is the sum, difference, product, quotient or remainder (truncated towards zero), whenever it fits that type (the
  one number of the type that stands for null then reads as null); a sum, difference or product that fits only the
  promoted C type raises \<open>OUT_OF_RANGE\<close>, one that does not fit that type either, as when \<open>INTEGER\<close> or \<open>BIGINT\<close>
  overflows, is undefined, and a zero divisor raises \<open>DIVIDE_BY_ZERO\<close>.\<close>

theorem int_arithmetic_exact:
  assumes "int_ok t1 x" and "int_ok t2 y"
  shows "Add F (mk_int t1 x) (mk_int t2 y) = exact t1 t2 (x + y)
    \<and> Subtract F (mk_int t1 x) (mk_int t2 y) = exact t1 t2 (x - y)
    \<and> Multiply F (mk_int t1 x) (mk_int t2 y) = exact t1 t2 (x * y)
    \<and> Divide F (mk_int t1 x) (mk_int t2 y) = (if y = 0 then Inl Divide_by_zero else Inr (mk_int (wider t1 t2) (x sdiv y)))
    \<and> Modulo F (mk_int t1 x) (mk_int t2 y) = (if y = 0 then Inl Divide_by_zero else Inr (mk_int (wider t1 t2) (x smod y)))"
  using int_binary [OF assms] by blast

theorem int_arithmetic_exact_witness:
  "Add word_doubles (mk_int TINYINT 100) (mk_int TINYINT 100) = Inl Out_of_range
    \<and> Multiply word_doubles (mk_int TINYINT 100) (mk_int INTEGER 100) = Inr (mk_int INTEGER 10000)
    \<and> Divide word_doubles (mk_int TINYINT (-7)) (mk_int BIGINT 2) = Inr (mk_int BIGINT (-3))"
proof -
  have i: "int_ok TINYINT 100" "int_ok INTEGER 100" "int_ok TINYINT (-7)" "int_ok BIGINT 2"
    by (simp_all add: int_ok_def is_int_def PELOTON_INT_MIN_def PELOTON_INT_MAX_def)
  have "exact TINYINT TINYINT 200 = Inl Out_of_range" "exact TINYINT INTEGER 10000 = Inr (mk_int INTEGER 10000)" "wider TINYINT BIGINT = BIGINT"
    by (simp_all add: exact_def wider_def fits_bits_def promoted_def)
  then show ?thesis
    using int_arithmetic_exact [OF i(1,1), of word_doubles] int_arithmetic_exact [OF i(1,2), of word_doubles]
      int_arithmetic_exact [OF i(3,4), of word_doubles] by (simp add: exact_def wider_def fits_bits_def promoted_def)
qed



text \<open>C31. A cast between integer types keeps the number, or raises \<open>OUT_OF_RANGE\<close> exactly when the number is not a
  value of the other type; and a cast to \<open>VARCHAR\<close> and back gives the value again.\<close>

theorem int_cast_roundtrip:
  assumes "int_ok t x" and "is_int to"
  shows "CastAs F (mk_int t x) to = (if int_ok to x then Inr (mk_int to x) else Inl Out_of_range)
    \<and> bnd (CastAs F (mk_int t x) VARCHAR) (\<lambda>s. CastAs F s t) = Inr (mk_int t x)"
proof -
  have f: "fits_bits (int_width t) x" "x \<noteq> PELOTON_INT_NULL t" "is_int t" using int_ok_fits [OF assms(1)] by auto
  have "fits_bits (if t = BIGINT then 64 else 32) x"
    using f(1) fits_mono [OF f(1), of "if t = BIGINT then 64 else 32"] f(3) by (auto simp: is_int_def)
  then show ?thesis
    using f by (simp add: cast_int [OF assms] cast_to_varchar [OF assms(1)] cast_from_varchar [OF f(3)])
qed

theorem int_cast_roundtrip_witness:
  "CastAs word_doubles (mk_int INTEGER 300) TINYINT = Inl Out_of_range
    \<and> bnd (CastAs word_doubles (mk_int INTEGER 300) VARCHAR) (\<lambda>s. CastAs word_doubles s INTEGER) = Inr (mk_int INTEGER 300)"
proof -
  have i: "int_ok INTEGER 300" "is_int TINYINT" "\<not> int_ok TINYINT 300"
    by (simp_all add: int_ok_def is_int_def PELOTON_INT_MIN_def PELOTON_INT_MAX_def)
  show ?thesis using int_cast_roundtrip [OF i(1,2), of word_doubles] i(3) by simp
qed

text \<open>Reading a \<open>TINYINT\<close> or \<open>SMALLINT\<close> from a string checks the range only after the number has been cut to the
  width of the type: a number that does not fit becomes another one.\<close>

theorem varchar_cast_wraps:
  assumes "is_int t" and "fits_bits 32 n" and "sbits (int_width t) n \<noteq> PELOTON_INT_NULL t"
  shows "CastAs F (varchar (show_int n)) t = Inr (mk_int t (sbits (int_width t) n))"
proof -
  have "fits_bits (if t = BIGINT then 64 else 32) n" using assms(2) fits_mono [of 32 n 64] by simp
  from cast_from_varchar [OF assms(1) this assms(3)] show ?thesis .
qed

theorem varchar_cast_wraps_witness:
  "CastAs word_doubles (varchar (show_int 300)) TINYINT = Inr (mk_int TINYINT 44)"
proof -
  have "sbits 8 300 = 44" by (simp add: sbits_def signed_take_bit_eq_if_positive take_bit_eq_mod)
  then show ?thesis
    using varchar_cast_wraps [of TINYINT 300 word_doubles] by (simp add: is_int_def fits_bits_def PELOTON_INT_NULL_def)
qed

text \<open>The checks of \<open>AddValue\<close> and \<open>SubtractValue\<close> let the smallest number of the width pass, which is the null
  marker: a sum or difference of two numbers can be null. For \<open>INTEGER\<close> and \<open>BIGINT\<close> the C addition overflows before
  the check.\<close>

theorem sum_becomes_null:
  assumes "int_ok t1 x" and "int_ok t2 y" and "x + y = PELOTON_INT_NULL (wider t1 t2)"
  shows "\<exists>r. Add F (mk_int t1 x) (mk_int t2 y) = Inr r \<and> IsNull r"
proof -
  have "fits_bits (int_width (wider t1 t2)) (x + y)" by (simp add: assms(3) fits_bits_def PELOTON_INT_NULL_def)
  then show ?thesis using assms(3) by (simp add: int_binary [OF assms(1,2)] exact_def)
qed

theorem sum_becomes_null_witness:
  "\<exists>r. Add word_doubles (mk_int TINYINT (-100)) (mk_int TINYINT (-28)) = Inr r \<and> IsNull r"
  by (rule sum_becomes_null) (simp_all add: int_ok_def is_int_def PELOTON_INT_MIN_def PELOTON_INT_MAX_def PELOTON_INT_NULL_def wider_def)

end
