(* ===== verification/Tuple_Props.thy ===== *)
theory Tuple_Props
  imports Tuple Sql_Props
begin

section \<open>Tuples store values\<close>

text \<open>
  Serialising values into a tuple and reading them back, and record identifiers as 64-bit numbers.
\<close>

subsection \<open>Serialization\<close>

definition bits_ok :: "'d dbl_ops \<Rightarrow> bool" where
  "bits_ok F \<longleftrightarrow> (\<forall>d. dbl_of_bits F (dbl_bits F d) = d)"

definition ser_len :: "'d sql_value \<Rightarrow> nat" where
  "ser_len v = (case vtype v of DECIMAL \<Rightarrow> 8 | VARCHAR \<Rightarrow> (if IsNull v then 4 else 4 + unat (vlen v)) | t \<Rightarrow> int_width t div 8)"

lemma sbits_take_bit: "0 < w \<Longrightarrow> sbits w (take_bit w n) = sbits w n"
  by (cases w) (simp_all add: sbits_def signed_take_bit_take_bit)

lemma int_width_8: "is_int t \<or> t = BOOLEAN \<Longrightarrow> int_width t = 8 * (int_width t div 8) \<and> 0 < int_width t"
  by (auto simp: is_int_def)

lemma char_bytes [simp]: "map (byte_char \<circ> char_byte) s = s"
proof -
  have "byte_char (char_byte c) = c" for c
  proof -
    have "unat (word_of_nat (of_char c) :: u8) = of_char c" by (simp only: unat_of_nat) simp
    then show ?thesis by (simp add: byte_char_def char_byte_def)
  qed
  then show ?thesis by (simp add: map_idI)
qed

lemma int_ser_de:
  assumes t: "is_int t \<or> t = BOOLEAN" and n: "fits_bits (int_width t) n"
    and m: "read_mem m a (int_width t div 8) = le_encode (int_width t div 8) (nat (take_bit (int_width t) n))"
  shows "int_DeserializeFrom t m a = Inr (mk_int t n)"
proof -
  have w: "(2 :: int) ^ int_width t = 256 ^ (int_width t div 8)" "0 < int_width t"
    using int_width_8 [OF t] power_mult [of "2 :: int" 8 "int_width t div 8"] by auto
  have "take_bit (int_width t) n < 2 ^ int_width t" by (simp add: take_bit_int_less_exp)
  then have "nat (take_bit (int_width t) n) < 256 ^ (int_width t div 8)" unfolding w(1) by (simp add: nat_less_iff)
  then have "int (le_decode (read_mem m a (int_width t div 8))) = take_bit (int_width t) n"
    unfolding m le_decode_encode by simp
  then show ?thesis using sbits_take_bit [OF w(2), of n] n Value_of_ok [OF t n] by (simp add: int_DeserializeFrom_def)
qed

text \<open>Reading what \<open>SerializeTo\<close> wrote gives the value again.\<close>

lemma serialize_roundtrip:
  assumes v: "value_ok F v" and F: "bits_ok F"
  obtains bs where "SerializeTo F v = Inr bs" "length bs = ser_len v"
    "\<forall>m a. read_mem m a (length bs) = bs \<longrightarrow> DeserializeFrom F m a (vtype v) = Inr v"
proof -
  consider (int) n where "vdata v = Int_Val n" "is_int (vtype v) \<or> vtype v = BOOLEAN" "fits_bits (int_width (vtype v)) n" "v = mk_int (vtype v) n"
    | (dbl) d where "vdata v = Dbl_Val d" "vtype v = DECIMAL" "vlen v = null_len (dbl_eq F d (dbl_lowest F))"
    | (null) "vdata v = Str_Val None" "vtype v = VARCHAR" "vlen v = PELOTON_VALUE_NULL"
    | (str) s where "vdata v = Str_Val (Some s)" "vtype v = VARCHAR" "vlen v \<noteq> PELOTON_VALUE_NULL" "unat (vlen v) = length s"
    using v by (auto simp: value_ok_def mk_int_def split: val_data.splits option.splits)
  then show ?thesis
  proof cases
    case int
    let ?t = "vtype v" and ?bs = "le_encode (int_width (vtype v) div 8) (nat (take_bit (int_width (vtype v)) n))"
    have c: "c_ser (kTypes_conv F ?t) = int_SerializeTo ?t" "c_de (kTypes_conv F ?t) = int_DeserializeFrom ?t"
      using int(2) kTypes_int(3) [of ?t F] by (auto simp: kTypes_conv_def BooleanType_conv_def)
    show ?thesis
      by (rule that [of ?bs]) (use int c int_ser_de [OF int(2,3)] in
          \<open>auto simp: SerializeTo_def DeserializeFrom_def int_SerializeTo_def get_int_def ser_len_def is_int_def\<close>)
  next
    case dbl
    have "unat (dbl_bits F d) < 256 ^ 8" using unsigned_less [of "dbl_bits F d"] by simp
    then have "load64 m a = dbl_bits F d" if "read_mem m a 8 = le_encode 8 (unat (dbl_bits F d))" for m a
      using that by (simp add: load64_def le_decode_encode)
    moreover have "v = \<lparr>vtype = DECIMAL, vdata = Dbl_Val d, vlen = null_len (dbl_eq F d (dbl_lowest F))\<rparr>" using dbl by simp
    ultimately show ?thesis using dbl F
      by (intro that [of "le_encode 8 (unat (dbl_bits F d))"])
        (auto simp: SerializeTo_def DeserializeFrom_def kTypes_conv_def DecimalType_conv_def get_dbl_def Value_dbl_def ser_len_def bits_ok_def)
  next
    case null
    have "load32 m a = PELOTON_VALUE_NULL" if "read_mem m a 4 = le_encode 4 (unat PELOTON_VALUE_NULL)" for m a
      unfolding load32_def that le_decode_encode by (simp add: PELOTON_VALUE_NULL_def)
    moreover have "v = \<lparr>vtype = VARCHAR, vdata = Str_Val None, vlen = PELOTON_VALUE_NULL\<rparr>" using null by simp
    ultimately show ?thesis using null
      by (intro that [of "le_encode 4 (unat PELOTON_VALUE_NULL)"])
        (auto simp: SerializeTo_def DeserializeFrom_def kTypes_conv_def VarlenType_conv_def VarlenType_SerializeTo_def
          VarlenType_DeserializeFrom_def Value_varlen_def ser_len_def IsNull_def)
  next
    case str
    let ?bs = "le_encode 4 (unat (vlen v)) @ map char_byte s"
    have len: "load32 m a = vlen v" "read_mem m (a + 4) (length s) = map char_byte s" if "read_mem m a (4 + length s) = ?bs" for m a
    proof -
      have "read_mem m a 4 = take 4 (read_mem m a (4 + length s))" by (rule nth_equalityI) auto
      moreover have "read_mem m (a + 4) (length s) = drop 4 (read_mem m a (4 + length s))" by (rule nth_equalityI) (auto simp: add.assoc)
      ultimately have r: "read_mem m a 4 = le_encode 4 (unat (vlen v))" "read_mem m (a + 4) (length s) = map char_byte s"
        unfolding that by simp_all
      have "unat (vlen v) < 256 ^ 4" using unsigned_less [of "vlen v"] by simp
      then show "load32 m a = vlen v" using r(1) by (simp add: load32_def le_decode_encode)
      show "read_mem m (a + 4) (length s) = map char_byte s" by (rule r(2))
    qed
    have lt: "vlen v < PELOTON_VALUE_NULL"
    proof -
      have "unat (vlen v) < 2 ^ 32" using unsigned_less [of "vlen v"] by simp
      then have "vlen v \<le> PELOTON_VALUE_NULL" by (simp add: PELOTON_VALUE_NULL_def word_le_nat_alt)
      then show ?thesis using str(3) by (simp add: order_less_le)
    qed
    have e: "v = \<lparr>vtype = VARCHAR, vdata = Str_Val (Some s), vlen = vlen v\<rparr>" using str by simp
    show ?thesis
    proof (rule that [of ?bs])
      show "SerializeTo F v = Inr ?bs"
        using str by (simp add: SerializeTo_def kTypes_conv_def VarlenType_conv_def VarlenType_SerializeTo_def get_chars_def)
      show "length ?bs = ser_len v" using str by (simp add: ser_len_def IsNull_def)
      show "\<forall>m a. read_mem m a (length ?bs) = ?bs \<longrightarrow> DeserializeFrom F m a (vtype v) = Inr v"
        using str len lt e
        by (auto simp: DeserializeFrom_def kTypes_conv_def VarlenType_conv_def VarlenType_DeserializeFrom_def Value_varlen_def Let_def)
    qed
  qed
qed

subsection \<open>The layout of a tuple\<close>

definition col_ok :: "'d dbl_ops \<Rightarrow> column \<Rightarrow> 'd sql_value \<Rightarrow> bool" where
  "col_ok F c v \<longleftrightarrow> value_ok F v \<and> vtype v = column_type c \<and> (is_inlined c \<longleftrightarrow> column_type c \<noteq> VARCHAR)
     \<and> (if is_inlined c then int (ser_len v) \<le> fixed_length c else fixed_length c = 4 \<and> \<not> IsNull v)"

definition var_size :: "'d sql_value \<Rightarrow> int" where
  "var_size v = (if vtype v = VARCHAR then uint (vlen v) + 4 else 0)"

definition fixed_total :: "column list \<Rightarrow> int" where "fixed_total cs = sum_list (map fixed_length cs)"
definition var_total :: "'d sql_value list \<Rightarrow> int" where "var_total vs = sum_list (map var_size vs)"

fun place_columns :: "int \<Rightarrow> column list \<Rightarrow> column list" where
  "place_columns base [] = []"
| "place_columns base (c # cs) = c\<lparr>column_offset := base\<rparr> # place_columns (base + fixed_length c) cs"

lemma fixed_simps [simp]: "fixed_total [] = 0" "fixed_total (c # cs) = fixed_length c + fixed_total cs"
  "var_total [] = 0" "var_total (v # vs) = var_size v + var_total vs"
  by (simp_all add: fixed_total_def var_total_def)

lemma var_size_ge [simp]: "0 \<le> var_size v"
  by (simp add: var_size_def)

lemma var_total_ge [simp]: "0 \<le> var_total vs"
  by (induction vs) auto

lemma col_ok_fixed: "col_ok F c v \<Longrightarrow> 0 \<le> fixed_length c"
  by (auto simp: col_ok_def split: if_splits)

lemma fixed_total_ge: "list_all2 (col_ok F) cs vs \<Longrightarrow> 0 \<le> fixed_total cs"
  by (induction rule: list_all2_induct) (auto dest: col_ok_fixed)

lemma fits32: "0 \<le> n \<Longrightarrow> n < 2 ^ 31 \<Longrightarrow> fits_bits 32 n"
  by (simp add: fits_bits_def)

lemma schema_loop_ok:
  assumes "list_all2 (col_ok F) cs vs" "0 \<le> base" "base + fixed_total cs < 2 ^ 31"
  shows "\<exists>us. schema_loop index base cs = Inr (base + fixed_total cs, place_columns base cs, us)
    \<and> (\<forall>ws s. 0 \<le> index \<longrightarrow> drop (nat index) ws = vs \<longrightarrow> 0 \<le> s \<longrightarrow> s + var_total vs < 2 ^ 31 \<longrightarrow> varlen_size F s ws us = Inr (s + var_total vs))"
  using assms
proof (induction arbitrary: base index rule: list_all2_induct)
  case (Cons c cs v vs)
  let ?b = "base + fixed_length c"
  have b: "0 \<le> ?b" "?b < 2 ^ 31" using Cons.prems col_ok_fixed [OF Cons.hyps(1)] fixed_total_ge [OF Cons.hyps(2)] by auto
  then obtain us where us: "schema_loop (index + 1) ?b cs = Inr (?b + fixed_total cs, place_columns ?b cs, us)"
    "\<forall>ws s. 0 \<le> index + 1 \<longrightarrow> drop (nat (index + 1)) ws = vs \<longrightarrow> 0 \<le> s \<longrightarrow> s + var_total vs < 2 ^ 31
      \<longrightarrow> varlen_size F s ws us = Inr (s + var_total vs)"
    using Cons.IH [of ?b "index + 1"] Cons.prems by auto
  have loop: "schema_loop index base (c # cs) = Inr (base + fixed_total (c # cs), place_columns base (c # cs), if is_inlined c then us else index # us)"
    using us(1) b by (simp add: Let_def fits32 add.assoc)
  have "varlen_size F s ws (if is_inlined c then us else index # us) = Inr (s + var_total (v # vs))"
    if w: "0 \<le> index" "drop (nat index) ws = v # vs" "0 \<le> s" "s + var_total (v # vs) < 2 ^ 31" for ws s
  proof -
    have "nat (index + 1) = Suc (nat index)" using w(1) by simp
    then have d: "drop (nat (index + 1)) ws = vs" using w(2) by (metis drop_Suc tl_drop list.sel(3))
    have v: "ws ! nat index = v" using w(2) by (metis nth_Cons_0 nth_via_drop)
    show ?thesis
    proof (cases "is_inlined c")
      case True
      then have "var_size v = 0" using Cons.hyps(1) by (simp add: col_ok_def var_size_def)
      then show ?thesis using us(2) d w True by simp
    next
      case False
      then have t: "vtype v = VARCHAR" using Cons.hyps(1) by (simp add: col_ok_def)
      have "s + var_size v < 2 ^ 31" using w(4) var_total_ge [of vs] unfolding fixed_simps by linarith
      moreover have "GetLength F v = Inr (vlen v)" using t by (simp add: GetLength_def kTypes_conv_def VarlenType_conv_def)
      ultimately show ?thesis using us(2) d w v False t by (simp add: fits32 var_size_def)
    qed
  qed
  with loop show ?case by blast
qed simp

lemma new_schema_ok:
  assumes "list_all2 (col_ok F) cs vs" "fixed_total cs + var_total vs < 2 ^ 31"
  obtains sch where "new_schema cs = Inr sch" "schema_length sch = fixed_total cs" "columns sch = place_columns 0 cs"
    "varlen_size F (schema_length sch) vs (uninlined_columns sch) = Inr (fixed_total cs + var_total vs)"
proof -
  have "fixed_total cs < 2 ^ 31" using assms(2) var_total_ge [of vs] by linarith
  then obtain us where us: "schema_loop 0 0 cs = Inr (fixed_total cs, place_columns 0 cs, us)"
    "\<forall>ws s. drop 0 ws = vs \<longrightarrow> 0 \<le> s \<longrightarrow> s + var_total vs < 2 ^ 31 \<longrightarrow> varlen_size F s ws us = Inr (s + var_total vs)"
    using schema_loop_ok [OF assms(1), of 0 0] by auto
  let ?sch = "\<lparr>schema_length = fixed_total cs, columns = place_columns 0 cs, tuple_is_inlined = (us = []), uninlined_columns = us\<rparr>"
  show ?thesis
    by (rule that [of ?sch]) (use us assms fixed_total_ge [OF assms(1)] in \<open>auto simp: new_schema_def\<close>)
qed

subsection \<open>Writing the columns\<close>

definition read_col :: "'d dbl_ops \<Rightarrow> bytes \<Rightarrow> column \<Rightarrow> 'd sql_value sql" where
  "read_col F d c = DeserializeFrom F d (if is_inlined c then column_offset c else sint (load32 d (column_offset c))) (column_type c)"

lemma tput_ok: "0 \<le> a \<Longrightarrow> a + int (length bs) \<le> sz \<Longrightarrow> tput sz d a bs = Inr (write_mem d a bs)"
  by (simp add: tput_def)

lemma var_size_ser: "col_ok F c v \<Longrightarrow> \<not> is_inlined c \<Longrightarrow> int (ser_len v) = var_size v"
  by (auto simp: col_ok_def var_size_def ser_len_def)

lemma load32_offset: "0 \<le> p \<Longrightarrow> p < 2 ^ 31 \<Longrightarrow> read_mem d a 4 = le_encode 4 (nat (take_bit 32 p)) \<Longrightarrow> sint (load32 d a) = p"
proof -
  assume p: "0 \<le> p" "p < 2 ^ 31" and r: "read_mem d a 4 = le_encode 4 (nat (take_bit 32 p))"
  have "take_bit 32 p = p" using p by (intro take_bit_int_eq_self) auto
  then have "le_decode (read_mem d a 4) = nat p" using p by (simp only: r le_decode_encode) (simp add: nat_less_iff)
  then have "load32 d a = word_of_int p" using p by (simp add: load32_def)
  then show ?thesis using p sint_int32 [of p] by simp
qed

text \<open>The columns from \<open>base\<close> on are written below \<open>lim\<close>, their variable-length data from \<open>offset\<close> on; everything else
  stays as it was, and every column reads back as its value from any memory with these bytes.\<close>

definition same_prefix :: "int \<Rightarrow> bytes \<Rightarrow> bytes \<Rightarrow> bool" where
  "same_prefix sz d e \<longleftrightarrow> (\<forall>a. 0 \<le> a \<and> a < sz \<longrightarrow> d a = e a)"

lemma tuple_loop_ok:
  assumes "list_all2 (col_ok F) cs vs" "bits_ok F" "0 \<le> base" "base + fixed_total cs \<le> lim" "lim \<le> offset"
    "offset + var_total vs \<le> sz" "sz < 2 ^ 31"
  shows "\<exists>d'. tuple_loop F sz d offset (zip (place_columns base cs) vs) = Inr d'
    \<and> (\<forall>a. (a < base \<or> lim \<le> a \<and> a < offset) \<longrightarrow> d' a = d a)
    \<and> list_all2 (\<lambda>c v. \<forall>e. same_prefix sz e d' \<longrightarrow> read_col F e c = Inr v) (place_columns base cs) vs"
  using assms
proof (induction arbitrary: base offset d rule: list_all2_induct)
  case (Cons c cs v vs)
  note ok = Cons.hyps(1)
  let ?c = "c\<lparr>column_offset := base\<rparr>" and ?f = "fixed_length c"
  have f: "0 \<le> ?f" "0 \<le> fixed_total cs" using col_ok_fixed [OF ok] fixed_total_ge [OF Cons.hyps(2)] by auto
  obtain bs where bs: "SerializeTo F v = Inr bs" "length bs = ser_len v"
    "\<forall>m a. read_mem m a (length bs) = bs \<longrightarrow> DeserializeFrom F m a (vtype v) = Inr v"
    by (rule serialize_roundtrip [of F v]) (use ok Cons.prems in \<open>auto simp: col_ok_def\<close>)
  have t: "vtype v = column_type c" using ok by (simp add: col_ok_def)
  show ?case
  proof (cases "is_inlined c")
    case True
    have l: "int (length bs) \<le> ?f" "var_size v = 0" using ok True bs(2) by (auto simp: col_ok_def var_size_def)
    let ?d = "write_mem d base bs"
    obtain d' where d': "tuple_loop F sz ?d offset (zip (place_columns (base + ?f) cs) vs) = Inr d'"
      "\<forall>a. (a < base + ?f \<or> lim \<le> a \<and> a < offset) \<longrightarrow> d' a = ?d a"
      "list_all2 (\<lambda>c v. \<forall>e. same_prefix sz e d' \<longrightarrow> read_col F e c = Inr v) (place_columns (base + ?f) cs) vs"
      using Cons.IH [of "base + ?f" offset ?d] Cons.prems f l(2) by auto
    have bsz: "base + int (length bs) \<le> sz" using Cons.prems f l var_total_ge [of vs] unfolding fixed_simps by linarith
    then have "tput sz d base bs = Inr ?d" using Cons.prems by (intro tput_ok) auto
    then have loop: "tuple_loop F sz d offset (zip (place_columns base (c # cs)) (v # vs)) = Inr d'" using True bs(1) d'(1) by simp
    have "read_col F e ?c = Inr v" if e: "same_prefix sz e d'" for e
    proof -
      have "read_mem e base (length bs) = read_mem ?d base (length bs)"
        by (rule read_mem_cong) (use d'(2) l bsz e Cons.prems(2) in \<open>auto simp: same_prefix_def\<close>)
      then show ?thesis using bs(3) True t by (simp add: read_col_def mem_simps)
    qed
    moreover have "d' a = d a" if "a < base \<or> lim \<le> a \<and> a < offset" for a
      using d'(2) that f l Cons.prems by (auto simp: write_mem_apply)
    ultimately show ?thesis using loop d'(3) by auto
  next
    case False
    have l: "?f = 4" "int (length bs) = var_size v" using ok False bs(2) var_size_ser [OF ok False] by (auto simp: col_ok_def)
    have len: "GetLength F v = Inr (vlen v)" "var_size v = uint (vlen v) + 4"
      using ok False by (auto simp: col_ok_def GetLength_def kTypes_conv_def VarlenType_conv_def var_size_def)
    let ?p = "le_encode 4 (nat (take_bit 32 offset))"
    let ?d1 = "write_mem d base ?p" let ?d2 = "write_mem ?d1 offset bs"
    have off: "0 \<le> offset" "offset + var_size v < 2 ^ 31" "offset < 2 ^ 31" "offset + var_size v \<le> sz"
      using Cons.prems f var_total_ge [of vs] var_size_ge [of v] unfolding fixed_simps by linarith+
    obtain d' where d': "tuple_loop F sz ?d2 (offset + var_size v) (zip (place_columns (base + ?f) cs) vs) = Inr d'"
      "\<forall>a. (a < base + ?f \<or> lim \<le> a \<and> a < offset + var_size v) \<longrightarrow> d' a = ?d2 a"
      "list_all2 (\<lambda>c v. \<forall>e. same_prefix sz e d' \<longrightarrow> read_col F e c = Inr v) (place_columns (base + ?f) cs) vs"
      using Cons.IH [of "base + ?f" "offset + var_size v" ?d2] Cons.prems f l(1) var_size_ge [of v] by auto
    have bsz: "base + 4 \<le> sz" using Cons.prems f l off var_size_ge [of v] unfolding fixed_simps by linarith
    then have "tput sz d base ?p = Inr ?d1" using Cons.prems by (intro tput_ok) auto
    moreover have "tput sz ?d1 offset bs = Inr ?d2" using off l by (intro tput_ok) auto
    moreover have "sbits 32 (offset + (uint (vlen v) + 4)) = offset + var_size v" using off len by (simp add: fits32)
    ultimately have loop: "tuple_loop F sz d offset (zip (place_columns base (c # cs)) (v # vs)) = Inr d'"
      using False bs(1) d'(1) len(1) by simp
    have b4: "base + 4 \<le> lim" "base + 4 \<le> offset" using Cons.prems f l by auto
    have "read_col F e ?c = Inr v" if e: "same_prefix sz e d'" for e
    proof -
      have "read_mem e base 4 = read_mem ?d2 base 4" by (rule read_mem_cong) (use d'(2) l bsz e Cons.prems(2) in \<open>auto simp: same_prefix_def\<close>)
      also have "\<dots> = ?p" using b4 by (simp add: mem_simps)
      finally have ptr: "sint (load32 e base) = offset" by (rule load32_offset [OF off(1,3)])
      have "read_mem e offset (length bs) = read_mem ?d2 offset (length bs)"
        by (rule read_mem_cong) (use d'(2) l off e Cons.prems in \<open>auto simp: same_prefix_def\<close>)
      then show ?thesis using bs(3) False t ptr by (simp add: read_col_def mem_simps)
    qed
    moreover have "d' a = d a" if "a < base \<or> lim \<le> a \<and> a < offset" for a
      using d'(2) that f l b4 by (auto simp: write_mem_apply)
    ultimately show ?thesis using loop d'(3) by auto
  qed
qed simp

lemma new_tuple_ok:
  assumes "list_all2 (col_ok F) cs vs" "fixed_total cs + var_total vs < 2 ^ 31" "bits_ok F"
  obtains sch t where "new_schema cs = Inr sch" "columns sch = place_columns 0 cs" "new_tuple F junk vs sch = Inr t"
    "tuple_size t = fixed_total cs + var_total vs"
    "\<And>u i. i < length vs \<Longrightarrow> same_prefix (tuple_size t) (tuple_data u) (tuple_data t) \<Longrightarrow> GetValue F sch u i = Inr (vs ! i)"
proof -
  obtain sch where sch: "new_schema cs = Inr sch" "schema_length sch = fixed_total cs" "columns sch = place_columns 0 cs"
    "varlen_size F (schema_length sch) vs (uninlined_columns sch) = Inr (fixed_total cs + var_total vs)"
    by (rule new_schema_ok [OF assms(1,2)])
  let ?sz = "fixed_total cs + var_total vs"
  obtain d where d: "tuple_loop F ?sz junk (fixed_total cs) (zip (place_columns 0 cs) vs) = Inr d"
    "list_all2 (\<lambda>c v. \<forall>e. same_prefix ?sz e d \<longrightarrow> read_col F e c = Inr v) (place_columns 0 cs) vs"
    using tuple_loop_ok [OF assms(1,3), of 0 "fixed_total cs" "fixed_total cs" ?sz junk] assms(2) by auto
  let ?t = "\<lparr>tuple_size = ?sz, tuple_data = d\<rparr>"
  have "length (columns sch) = length vs" using d(2) sch(3) by (simp add: list_all2_lengthD)
  then have "new_tuple F junk vs sch = Inr ?t" using sch d(1) by (simp add: new_tuple_def)
  moreover have "GetValue F sch u i = Inr (vs ! i)" if "i < length vs" "same_prefix ?sz (tuple_data u) d" for u i
    using list_all2_nthD2 [OF d(2) that(1)] that(2) sch(3) by (simp add: GetValue_def GetDataPtr_def read_col_def Let_def split: if_splits)
  ultimately show ?thesis using sch by (intro that [of sch ?t]) auto
qed

text \<open>C16. A tuple built from values that fit the columns of a schema is as long as its fixed and variable parts, the
  constructor writes only inside it, and \<open>GetValue\<close> returns every value again. Inlined columns must be at least
  as long as their type, no \<open>VARCHAR\<close> may be null, and the tuple must be shorter than \<open>2^31\<close> bytes.\<close>

theorem tuple_roundtrip:
  assumes "list_all2 (col_ok F) cs vs" and "fixed_total cs + var_total vs < 2 ^ 31" and "bits_ok F"
  shows "\<exists>sch t. new_schema cs = Inr sch \<and> new_tuple F junk vs sch = Inr t \<and> tuple_size t = fixed_total cs + var_total vs
    \<and> (\<forall>i < length vs. GetValue F sch t i = Inr (vs ! i))"
  by (rule new_tuple_ok [OF assms, of junk]) (auto simp: same_prefix_def)

theorem tuple_roundtrip_witness:
  "\<exists>c1 c2 sch t. new_column INTEGER 4 ''a'' = Inr c1 \<and> new_column VARCHAR 10 ''b'' = Inr c2 \<and> new_schema [c1, c2] = Inr sch
    \<and> new_tuple word_doubles (\<lambda>_. 0) [mk_int INTEGER 7, varchar ''xy''] sch = Inr t
    \<and> GetValue word_doubles sch t 0 = Inr (mk_int INTEGER 7) \<and> GetValue word_doubles sch t 1 = Inr (varchar ''xy'')"
proof -
  obtain c1 c2 where c: "new_column INTEGER 4 ''a'' = Inr c1" "new_column VARCHAR 10 ''b'' = Inr c2"
    by (simp add: new_column_def Let_def SetInlined_def)
  have d: "c1 = \<lparr>column_type = INTEGER, fixed_length = 4, variable_length = 0, column_name = ''a'', is_inlined = True, column_offset = -1\<rparr>"
    "c2 = \<lparr>column_type = VARCHAR, fixed_length = 4, variable_length = 10, column_name = ''b'', is_inlined = False, column_offset = -1\<rparr>"
    using c by (auto simp: new_column_def Let_def SetInlined_def SetLength_def)
  have "list_all2 (col_ok word_doubles) [c1, c2] [mk_int INTEGER 7, varchar ''xy'']"
    by (simp add: d col_ok_def value_ok_def is_int_def fits_bits_def ser_len_def varchar_def IsNull_def PELOTON_VALUE_NULL_def mk_int_def
        PELOTON_INT_NULL_def)
  moreover have "fixed_total [c1, c2] + var_total [mk_int INTEGER 7 :: u64 sql_value, varchar ''xy''] < 2 ^ 31"
    by (simp add: d var_size_def varchar_def)
  moreover have "bits_ok word_doubles"
    by (simp add: bits_ok_def word_doubles_def)
  ultimately show ?thesis
    using tuple_roundtrip [of word_doubles "[c1, c2]" "[mk_int INTEGER 7, varchar ''xy'']" "\<lambda>_. 0"] c
    by (auto simp: All_less_Suc2)
qed

text \<open>The length of a null \<open>VARCHAR\<close> is \<open>PELOTON_VALUE_NULL\<close>, and adding the four bytes of the length field to it
  wraps to 3: the block of the tuple is one byte too short, and the constructor writes behind it.\<close>

theorem null_varchar_overflows:
  assumes "new_column VARCHAR n name = Inr c" and "new_schema [c] = Inr sch"
  shows "new_tuple F junk [\<lparr>vtype = VARCHAR, vdata = Str_Val None, vlen = PELOTON_VALUE_NULL\<rparr>] sch = Inl Undef"
proof -
  have c: "c = \<lparr>column_type = VARCHAR, fixed_length = 4, variable_length = n, column_name = name, is_inlined = False, column_offset = -1\<rparr>"
    using assms(1) by (auto simp: new_column_def Let_def SetInlined_def SetLength_def)
  have s: "sbits 32 4294967303 = 7" "sbits 32 4 = 4"
    by (simp_all add: sbits_def signed_take_bit_eq_if_positive take_bit_eq_mod bit_iff_odd)
  have sch: "sch = \<lparr>schema_length = 4, columns = [c\<lparr>column_offset := 0\<rparr>], tuple_is_inlined = False, uninlined_columns = [0]\<rparr>"
    using assms(2) s(2) by (simp add: new_schema_def c Let_def)
  show ?thesis
    by (simp add: sch new_tuple_def c GetLength_def SerializeTo_def kTypes_conv_def VarlenType_conv_def VarlenType_SerializeTo_def
        PELOTON_VALUE_NULL_def s tput_def)
qed

theorem null_varchar_overflows_witness:
  "\<exists>c sch. new_column VARCHAR 10 ''b'' = Inr c \<and> new_schema [c] = Inr sch
    \<and> new_tuple word_doubles (\<lambda>_. 0) [\<lparr>vtype = VARCHAR, vdata = Str_Val None, vlen = PELOTON_VALUE_NULL\<rparr>] sch = Inl Undef"
proof -
  obtain c where c: "new_column VARCHAR 10 ''b'' = Inr c" by (simp add: new_column_def Let_def SetInlined_def)
  have "fits_bits 32 (fixed_length c)" using c by (auto simp: new_column_def Let_def SetInlined_def SetLength_def fits_bits_def)
  then obtain sch where s: "new_schema [c] = Inr sch" by (simp add: new_schema_def Let_def)
  show ?thesis using null_varchar_overflows [OF c s, of word_doubles "\<lambda>_. 0"] c s by blast
qed

subsection \<open>Record identifiers\<close>

lemma bit_high: "- (2 ^ 31) \<le> s \<Longrightarrow> s < 2 ^ 31 \<Longrightarrow> bit (s :: int) (32 + n) \<longleftrightarrow> s < 0"
proof -
  assume "- (2 ^ 31) \<le> s" "s < 2 ^ 31"
  then have "signed_take_bit 31 s = s" by (intro signed_take_bit_int_eq_self) simp_all
  then have "bit s (32 + n) \<longleftrightarrow> bit s 31" "bit s 31 \<longleftrightarrow> s < 0"
    using bit_signed_take_bit_iff [of 31 s "32 + n"] signed_take_bit_negative_iff [of 31 s] by auto
  then show ?thesis by simp
qed

text \<open>A record identifier survives the conversion to a 64-bit number and back when its slot number is not negative;
  a negative slot number is sign-extended over the page number, which becomes -1.\<close>

theorem rid_roundtrip:
  assumes "- (2 ^ 31) \<le> rid_page r" and "rid_page r < 2 ^ 31" and "- (2 ^ 31) \<le> rid_slot r" and "rid_slot r < 2 ^ 31"
  shows "RID_of (RID_Get r) = (if rid_slot r < 0 then r\<lparr>rid_page := -1\<rparr> else r)"
proof -
  have low: "(ucast (RID_Get r) :: u32) = word_of_int (rid_slot r)"
    by (rule bit_word_eqI) (simp add: RID_Get_def bit_simps)
  have high: "(ucast (drop_bit 32 (RID_Get r)) :: u32) = (if rid_slot r < 0 then - 1 else word_of_int (rid_page r))"
    by (rule bit_word_eqI) (use bit_high [OF assms(3,4)] in \<open>auto simp: RID_Get_def bit_simps\<close>)
  show ?thesis using assms by (simp add: RID_of_def low high sint_int32)
qed

theorem rid_roundtrip_witness:
  "RID_of (RID_Get \<lparr>rid_page = 7, rid_slot = 3\<rparr>) = \<lparr>rid_page = 7, rid_slot = 3\<rparr>
    \<and> RID_of (RID_Get \<lparr>rid_page = 7, rid_slot = -2\<rparr>) = \<lparr>rid_page = -1, rid_slot = -2\<rparr>"
  using rid_roundtrip [of "\<lparr>rid_page = 7, rid_slot = 3\<rparr>"] rid_roundtrip [of "\<lparr>rid_page = 7, rid_slot = -2\<rparr>"] by simp

end
