(* ===== verification/Vtable_Props.thy ===== *)
theory Vtable_Props
  imports Vtable_Parse Tuple_Props
begin

section \<open>Tables of the SQLite extension\<close>

text \<open>
  The choice of the index for a query, and the columns and rows of a virtual table.
\<close>

subsection \<open>Choosing the index\<close>

definition index_constraint :: "int list \<Rightarrow> constraint \<Rightarrow> bool" where
  "index_constraint attrs c \<longleftrightarrow> usable c \<and> iColumn c \<in> set attrs \<and> cons_op c = SQLITE_INDEX_CONSTRAINT_EQ"

lemma best_index_count:
  "best_index_loop attrs i cs usage counter = (u, k, b) \<Longrightarrow> k \<le> counter + int (length cs) \<and> (b \<and> k = counter + int (length cs) \<longleftrightarrow> list_all (index_constraint attrs) cs)"
proof (induction cs arbitrary: i usage counter)
  case (Cons c cs)
  show ?case
  proof (cases "index_constraint attrs c")
    case True
    then have "best_index_loop attrs (i + 1) cs (usage[nat i := i + 1]) (counter + 1) = (u, k, b)" using Cons.prems by (simp add: index_constraint_def)
    from Cons.IH [OF this] show ?thesis using True by (simp add: algebra_simps)
  next
    case False
    then have "best_index_loop attrs (i + 1) cs usage counter = (u, k, b) \<or> (k = counter \<and> \<not> b)"
      using Cons.prems by (auto simp: index_constraint_def split: if_splits)
    then show ?thesis using Cons.IH False by fastforce
  qed
qed auto

lemma best_index_usage:
  "list_all (index_constraint attrs) cs \<Longrightarrow> i + length cs = length usage \<Longrightarrow>
    fst (best_index_loop attrs (int i) cs usage counter) = take i usage @ map (\<lambda>j. int j + 1) [i..<i + length cs]"
proof (induction cs arbitrary: i usage counter)
  case (Cons c cs)
  have "fst (best_index_loop attrs (int i) (c # cs) usage counter) = fst (best_index_loop attrs (int (Suc i)) cs (usage[i := int i + 1]) (counter + 1))"
    using Cons.prems(1) by (simp add: index_constraint_def add.commute)
  also have "\<dots> = take (Suc i) (usage[i := int i + 1]) @ map (\<lambda>j. int j + 1) [Suc i..<Suc i + length cs]" using Cons by (intro Cons.IH) simp_all
  also have "\<dots> = take i usage @ map (\<lambda>j. int j + 1) [i..<i + length (c # cs)]"
    using Cons.prems(2) by (simp add: take_Suc_conv_app_nth upt_rec [of i])
  finally show ?case .
qed simp

text \<open>C40. \<open>VtabBestIndex\<close> chooses the index scan exactly when there are as many constraints as indexed columns and every
  constraint is a usable equality on an indexed column; then the values are passed in the order of the constraints, whatever
  the order of the indexed columns, and also when two constraints are on the same column.\<close>

theorem index_scan_chosen:
  assumes "vt_index vt = Some ix" and "im_attrs (vi_meta ix) = attrs" and "idxNum info = 0" and "length (argvIndex info) = length (aConstraint info)"
  shows "(idxNum (VtabBestIndex vt info) = 1 \<longleftrightarrow> length (aConstraint info) = length attrs \<and> list_all (index_constraint attrs) (aConstraint info))
    \<and> (idxNum (VtabBestIndex vt info) = 1 \<longrightarrow> argvIndex (VtabBestIndex vt info) = map (\<lambda>j. int j + 1) [0..<length attrs])"
proof (cases "length (aConstraint info) = length attrs")
  case True
  obtain u k b where l: "best_index_loop attrs 0 (aConstraint info) (argvIndex info) 0 = (u, k, b)" by (cases "best_index_loop attrs 0 (aConstraint info) (argvIndex info) 0")
  have e: "VtabBestIndex vt info = info\<lparr>argvIndex := u, idxNum := (if k = int (length attrs) \<and> b then 1 else 0)\<rparr>"
    using assms True l by (simp add: VtabBestIndex_def Let_def)
  show ?thesis unfolding e using best_index_count [OF l] best_index_usage [of attrs "aConstraint info" 0 "argvIndex info" 0] l True assms(4) by auto
qed (use assms in \<open>simp add: VtabBestIndex_def Let_def\<close>)

text \<open>An index on the columns 0 and 1, and a query whose constraints are on the columns 1 and 0.\<close>

theorem index_scan_chosen_witness:
  "\<exists>vt info. vt_index vt \<noteq> None \<and> map iColumn (aConstraint info) = [1, 0] \<and> idxNum (VtabBestIndex vt info) = 1 \<and> argvIndex (VtabBestIndex vt info) = [1, 2]"
proof -
  let ?meta = "\<lparr>im_name = ''pk'', im_table = ''t'', im_attrs = [0, 1], im_schema = \<lparr>schema_length = 0, columns = [], tuple_is_inlined = True, uninlined_columns = []\<rparr>\<rparr>"
  let ?vt = "\<lparr>vt_schema = im_schema ?meta, vt_first = 1, vt_index = Some (ConstructIndex ?meta 2)\<rparr>"
  let ?info = "\<lparr>aConstraint = [\<lparr>usable = True, iColumn = 1, cons_op = 2\<rparr>, \<lparr>usable = True, iColumn = 0, cons_op = 2\<rparr>], argvIndex = [0, 0], idxNum = 0\<rparr>"
  have "im_attrs (vi_meta (ConstructIndex ?meta 2)) = [0, 1]" by (simp add: ConstructIndex_def Let_def)
  then have "idxNum (VtabBestIndex ?vt ?info) = 1 \<and> argvIndex (VtabBestIndex ?vt ?info) = [1, 2]"
    using index_scan_chosen [of ?vt "ConstructIndex ?meta 2" "[0, 1]" ?info] by (simp add: index_constraint_def SQLITE_INDEX_CONSTRAINT_EQ_def)
  then show ?thesis by (intro exI [of _ ?vt] exI [of _ ?info]) simp
qed

subsection \<open>Rows\<close>

text \<open>What SQLite may pass for a column of a type, what comes back, and how much room a text needs besides its pointer.\<close>

definition arg_ok :: "type_id \<Rightarrow> 'd sqlite_value \<Rightarrow> bool" where
  "arg_ok t a \<longleftrightarrow>
     (if t = VARCHAR then (case sv_text a of None \<Rightarrow> False | Some s \<Rightarrow> CHR 0x00 \<notin> set s \<and> length s < 2 ^ 31)
      else if t = BIGINT then fits_bits 64 (sv_int64 a) else t = DECIMAL \<or> fits_bits 32 (sv_int a))"

definition arg_result :: "type_id \<Rightarrow> 'd sqlite_value \<Rightarrow> 'd sqlite_result" where
  "arg_result t a =
     (if t = VARCHAR then (case sv_text a of None \<Rightarrow> Result_Null | Some s \<Rightarrow> Result_Text s)
      else if t = BIGINT then Result_Int64 (sv_int64 a) else if t = DECIMAL then Result_Double (sv_double a)
      else Result_Int (sbits (int_width t) (sv_int a)))"

definition arg_size :: "type_id \<Rightarrow> 'd sqlite_value \<Rightarrow> int" where
  "arg_size t a = (if t = VARCHAR then (case sv_text a of None \<Rightarrow> 0 | Some s \<Rightarrow> int (length s) + 5) else 0)"

abbreviation column_types :: "type_id set" where
  "column_types \<equiv> {BOOLEAN, TINYINT, SMALLINT, INTEGER, BIGINT, DECIMAL, VARCHAR}"

definition value_of_arg :: "'d dbl_ops \<Rightarrow> type_id \<Rightarrow> 'd sqlite_value \<Rightarrow> 'd sql_value \<Rightarrow> bool" where
  "value_of_arg F t a v \<longleftrightarrow> value_ok F v \<and> vtype v = t \<and> (t = VARCHAR \<longrightarrow> \<not> IsNull v) \<and> column_result t v = Inr (Some (arg_result t a))
     \<and> var_size v = arg_size t a"

lemma column_value_ok:
  assumes t: "t \<in> column_types" and a: "arg_ok t a"
  shows "\<exists>v. column_value F v0 t (a # as) = Inr v \<and> value_of_arg F t a v"
proof -
  consider (int) "t \<in> {BOOLEAN, TINYINT, SMALLINT, INTEGER}" | (big) "t = BIGINT" | (dbl) "t = DECIMAL" | (str) "t = VARCHAR" using t by blast
  then show ?thesis
  proof cases
    case int
    then have "sbits 32 (sv_int a) = sv_int a" "is_int t \<or> t = BOOLEAN" using a by (auto simp: arg_ok_def is_int_def)
    then have "column_value F v0 t (a # as) = Inr (mk_int t (sbits (int_width t) (sv_int a)))"
      using int by (auto simp: column_value_def Value_int32_def int_value_def mk_int_def Let_def)
    then show ?thesis using int fits_sbits [of "int_width t" "sv_int a"]
      by (auto simp: value_of_arg_def value_ok_def mk_int_def column_result_def arg_result_def var_size_def arg_size_def is_int_def get_int_def)
  next
    case big
    then have "sbits 64 (sv_int64 a) = sv_int64 a" "fits_bits 64 (sv_int64 a)" using a by (simp_all add: arg_ok_def)
    then show ?thesis using big
      by (auto simp: column_value_def Value_int64_def int_value_def Let_def value_of_arg_def value_ok_def column_result_def arg_result_def var_size_def
          arg_size_def is_int_def get_int_def)
  next
    case dbl
    then show ?thesis
      by (auto simp: column_value_def Value_dbl_def value_of_arg_def value_ok_def column_result_def arg_result_def var_size_def arg_size_def get_dbl_def)
  next
    case str
    then obtain s where s: "sv_text a = Some s" "CHR 0x00 \<notin> set s" "length s < 2 ^ 31" using a by (auto simp: arg_ok_def split: option.splits)
    have u: "unat (word_of_nat (length s + 1) :: u32) = length s + 1" by (rule unat_len) (use s(3) in simp)
    have ne: "(word_of_nat (length s + 1) :: u32) \<noteq> PELOTON_VALUE_NULL"
    proof
      assume "(word_of_nat (length s + 1) :: u32) = PELOTON_VALUE_NULL"
      then have "length s + 1 = unat PELOTON_VALUE_NULL" using u by simp
      then show False using s(3) by (simp add: PELOTON_VALUE_NULL_def)
    qed
    have z: "strchr (s @ [CHR 0x00]) (CHR 0x00) = Some (length s)" by (rule strchr_append [OF s(2)])
    have "uint (word_of_nat (length s + 1) :: u32) = int (length s) + 1" using u by (metis of_nat_add of_nat_1 of_nat_unat)
    then show ?thesis using str s(1) u ne z
      by (auto simp: column_value_def Value_string_def value_of_arg_def value_ok_def column_result_def arg_result_def var_size_def arg_size_def
          IsNull_def c_string_def)
  qed
qed

lemma column_value_cong: "t \<in> column_types \<Longrightarrow> column_value F v t (a # as) = column_value F w t (a # bs)"
  by (auto simp: column_value_def)

text \<open>A declared column has room for the values of its type.\<close>

lemma decl_col_ok:
  assumes "decl_ok d" "value_of_arg F (column_type (decl_column d)) a v"
  shows "col_ok F (decl_column d) v"
proof -
  obtain name ty len where d: "d = (name, ty, len)" by (cases d) auto
  let ?t = "type_of_name (low ty)"
  have t: "column_type (decl_column d) = ?t" "?t \<in> column_types" using assms(1) by (auto simp: d decl_column_def decl_ok_def Let_def type_of_name_def split: if_splits)
  have v: "value_ok F v" "vtype v = ?t" "?t = VARCHAR \<longrightarrow> \<not> IsNull v" using assms(2) t(1) by (simp_all add: value_of_arg_def)
  show ?thesis using t(2) v by (auto simp: d col_ok_def decl_column_def Let_def ser_len_def GetTypeSize_def)
qed

lemma decl_columns_ok:
  assumes "list_all2 (\<lambda>d a. decl_ok d \<and> arg_ok (column_type (decl_column d)) a) ds as"
  shows "\<exists>vs. construct_values F v0 (map column_type (map decl_column ds)) as = Inr vs \<and> list_all2 (col_ok F) (map decl_column ds) vs
    \<and> var_total vs = sum_list (map (\<lambda>(d, a). arg_size (column_type (decl_column d)) a) (zip ds as))
    \<and> (\<forall>i < length ds. column_result (column_type (decl_column (ds ! i))) (vs ! i) = Inr (Some (arg_result (column_type (decl_column (ds ! i))) (as ! i))))
    \<and> (\<forall>i < length ds. column_value F w (column_type (decl_column (ds ! i))) [as ! i] = Inr (vs ! i))"
  using assms
proof (induction arbitrary: v0 rule: list_all2_induct)
  case (Cons d ds a as)
  let ?t = "column_type (decl_column d)"
  have "?t \<in> column_types" using Cons.hyps(1) by (cases d) (auto simp: decl_column_def decl_ok_def Let_def type_of_name_def split: if_splits)
  then obtain v where v: "column_value F v0 ?t (a # as) = Inr v" "value_of_arg F ?t a v" using column_value_ok Cons.hyps(1) by blast
  obtain vs where vs: "construct_values F v (map column_type (map decl_column ds)) as = Inr vs" "list_all2 (col_ok F) (map decl_column ds) vs"
    "var_total vs = sum_list (map (\<lambda>(d, a). arg_size (column_type (decl_column d)) a) (zip ds as))"
    "\<forall>i < length ds. column_result (column_type (decl_column (ds ! i))) (vs ! i) = Inr (Some (arg_result (column_type (decl_column (ds ! i))) (as ! i)))"
    "\<forall>i < length ds. column_value F w (column_type (decl_column (ds ! i))) [as ! i] = Inr (vs ! i)"
    using Cons.IH by blast
  have "column_value F w ?t [a] = Inr v" using column_value_cong [OF \<open>?t \<in> column_types\<close>] v(1) by metis
  moreover have "col_ok F (decl_column d) v" using decl_col_ok v(2) Cons.hyps(1) by blast
  ultimately show ?case using v vs by (auto simp: value_of_arg_def nth_Cons' All_less_Suc2)
qed simp

lemma place_columns_types: "map column_type (place_columns b cs) = map column_type cs"
  by (induction cs arbitrary: b) auto

text \<open>A row: the statement that declares its columns, the tuple that is built from the values, and what any memory with the bytes
  of this tuple gives back.\<close>

lemma row_stored:
  assumes a: "list_all2 (\<lambda>d a. decl_ok d \<and> arg_ok (column_type (decl_column d)) a) ds as"
    and sz: "fixed_total (map decl_column ds) + sum_list (map (\<lambda>(d, a). arg_size (column_type (decl_column d)) a) (zip ds as)) = sz" "sz < 2 ^ 31"
    and F: "bits_ok F"
  obtains sch t vs where "ParseCreateStatement (join_comma (map decl_text ds)) = Inr sch" "ConstructTuple F junk sch as = Inr t" "tuple_size t = sz"
    "columns sch = place_columns 0 (map decl_column ds)" "list_all2 (col_ok F) (map decl_column ds) vs"
    "\<And>i. i < length ds \<Longrightarrow> column_value F w (column_type (decl_column (ds ! i))) [as ! i] = Inr (vs ! i)"
    "\<And>i. i < length ds \<Longrightarrow> column_result (column_type (decl_column (ds ! i))) (vs ! i) = Inr (Some (arg_result (column_type (decl_column (ds ! i))) (as ! i)))"
    "\<And>u i. i < length ds \<Longrightarrow> same_prefix sz (tuple_data u) (tuple_data t) \<Longrightarrow> GetValue F sch u i = Inr (vs ! i)"
proof -
  let ?cs = "map decl_column ds"
  obtain vs where vs: "construct_values F \<lparr>vtype = INVALID, vdata = Partly_Set, vlen = PELOTON_VALUE_NULL\<rparr> (map column_type ?cs) as = Inr vs"
    "list_all2 (col_ok F) ?cs vs" "fixed_total ?cs + var_total vs = sz"
    "\<forall>i < length ds. column_result (column_type (decl_column (ds ! i))) (vs ! i) = Inr (Some (arg_result (column_type (decl_column (ds ! i))) (as ! i)))"
    "\<forall>i < length ds. column_value F w (column_type (decl_column (ds ! i))) [as ! i] = Inr (vs ! i)"
    using decl_columns_ok [OF a, of F "\<lparr>vtype = INVALID, vdata = Partly_Set, vlen = PELOTON_VALUE_NULL\<rparr>" w] sz(1) by auto
  obtain sch t where t: "new_schema ?cs = Inr sch" "columns sch = place_columns 0 ?cs" "new_tuple F junk vs sch = Inr t" "tuple_size t = sz"
    "\<And>u i. i < length vs \<Longrightarrow> same_prefix sz (tuple_data u) (tuple_data t) \<Longrightarrow> GetValue F sch u i = Inr (vs ! i)"
    by (rule new_tuple_ok [OF vs(2) _ F, of junk]) (use vs(3) sz(2) in auto)
  have "list_all decl_ok ds" using a by (auto simp: list_all2_conv_all_nth list_all_length)
  then have "ParseCreateStatement (join_comma (map decl_text ds)) = Inr sch" using create_statement t(1) by simp
  moreover have "ConstructTuple F junk sch as = Inr t"
    using vs(1) t(3) place_columns_types [of 0 ?cs] by (simp add: ConstructTuple_def t(2))
  moreover have "length vs = length ds" using list_all2_lengthD [OF vs(2)] by simp
  ultimately show ?thesis using t vs by (intro that [of sch t vs]) auto
qed

lemma ref_prefix:
  assumes "ref_bytes s r = bytes_of_tuple t" "0 \<le> tuple_size t"
  shows "same_prefix (tuple_size t) (tuple_data (tuple_of_ref s r)) (tuple_data t)"
proof -
  have "data_at s (fst r) (snd (snd r) + a) = tuple_data t a" if a: "0 \<le> a" "a < tuple_size t" for a
  proof -
    have "ref_bytes s r ! nat a = bytes_of_tuple t ! nat a" using assms(1) by simp
    moreover have "nat (fst (snd r)) = nat (tuple_size t)" using arg_cong [OF assms(1), of length] by (simp add: ref_bytes_def tuple_bytes_def)
    ultimately show ?thesis using a by (simp add: ref_bytes_def tuple_bytes_def nat_less_iff)
  qed
  then show ?thesis by (simp add: same_prefix_def tuple_of_ref_def)
qed

end
