(* ===== verification/Bplus_Correct.thy ===== *)
theory Bplus_Correct
  imports Bplus_Page "HOL-Library.List_Lexorder"
begin

section \<open>Leaf pages of the B+ tree are sorted maps\<close>

text \<open>
  The pages of the B+ tree under an order of keys that the comparator computes: the array is sorted, and the search, the insertion and the removal implement a map.
\<close>

subsection \<open>The loops over the array\<close>

lemma bnd_assoc: "bnd (bnd r f) g = bnd r (\<lambda>x. bnd (f x) g)"
  by (simp add: bnd_def split: sum.splits)

lemma slot_get_ok: "i < length xs \<Longrightarrow> slot_get xs (int i) = Inr (xs ! i)"
  by (simp add: slot_get_def)

lemma slot_set_ok: "i < length xs \<Longrightarrow> slot_set xs (int i) x = Inr (xs[i := x])"
  by (simp add: slot_set_def)

lemma scan_array_ok:
  assumes "\<forall>x\<in>set (take k (drop i xs)). p x = Inr (q x)" "i + k \<le> length xs"
  shows "scan_array p xs (int i) k = Inr (int i + int (length (takeWhile (Not \<circ> q) (take k (drop i xs)))))"
  using assms
proof (induction k arbitrary: i)
  case (Suc k)
  have e: "take (Suc k) (drop i xs) = xs ! i # take k (drop (Suc i) xs)"
    using Suc.prems(2) by (simp add: Cons_nth_drop_Suc [symmetric])
  have "scan_array p xs (int (Suc i)) k = Inr (int (Suc i) + int (length (takeWhile (Not \<circ> q) (take k (drop (Suc i) xs)))))"
    using Suc.prems e by (intro Suc.IH) auto
  then show ?case using Suc.prems e by (simp add: slot_get_ok add.commute comp_def)
qed simp

lemma shift_up_ok:
  assumes "i + k < length xs"
  shows "shift_up xs (int (i + k) - 1) k = Inr (take (Suc i) xs @ take k (drop i xs) @ drop (Suc (i + k)) xs)"
  using assms
proof (induction k arbitrary: xs)
  case 0
  then show ?case by simp
next
  case (Suc k)
  let ?ys = "xs[Suc (i + k) := xs ! (i + k)]"
  have g: "int (i + Suc k) - 1 = int (i + k)" "int (i + k) + 1 = int (Suc (i + k))" by simp_all
  have "shift_up xs (int (i + Suc k) - 1) (Suc k) = shift_up ?ys (int (i + k) - 1) k"
    unfolding g(1) using Suc.prems slot_get_ok [of "i + k" xs] slot_set_ok [of "Suc (i + k)" xs] by (simp add: add.commute)
  also have "\<dots> = Inr (take (Suc i) ?ys @ take k (drop i ?ys) @ drop (Suc (i + k)) ?ys)" using Suc.prems by (intro Suc.IH) simp
  also have "take (Suc i) ?ys @ take k (drop i ?ys) @ drop (Suc (i + k)) ?ys
      = take (Suc i) xs @ take (Suc k) (drop i xs) @ drop (Suc (i + Suc k)) xs"
  proof -
    have "take (Suc i) ?ys = take (Suc i) xs" by simp
    moreover have "take k (drop i ?ys) = take k (drop i xs)" by (rule nth_equalityI) auto
    moreover have "drop (Suc (i + k)) ?ys = xs ! (i + k) # drop (Suc (i + Suc k)) xs"
      using Suc.prems by (simp add: Cons_nth_drop_Suc [symmetric])
    moreover have "take (Suc k) (drop i xs) = take k (drop i xs) @ [xs ! (i + k)]"
      using Suc.prems by (simp add: take_Suc_conv_app_nth)
    ultimately show ?thesis by simp
  qed
  finally show ?case .
qed

lemma shift_down_ok:
  assumes "i + k < length xs"
  shows "shift_down xs (int i) k = Inr (take i xs @ take k (drop (Suc i) xs) @ drop (i + k) xs)"
  using assms
proof (induction k arbitrary: xs i)
  case (Suc k)
  let ?ys = "xs[i := xs ! Suc i]"
  have "shift_down xs (int i) (Suc k) = shift_down ?ys (int (Suc i)) k"
    using Suc.prems slot_get_ok [of "Suc i" xs] slot_set_ok [of i xs] by (simp add: add.commute)
  also have "\<dots> = Inr (take (Suc i) ?ys @ take k (drop (Suc (Suc i)) ?ys) @ drop (Suc i + k) ?ys)"
    using Suc.prems by (intro Suc.IH) simp
  also have "take (Suc i) ?ys @ take k (drop (Suc (Suc i)) ?ys) @ drop (Suc i + k) ?ys
      = take i xs @ take (Suc k) (drop (Suc i) xs) @ drop (i + Suc k) xs"
    using Suc.prems by (simp add: take_Suc_conv_app_nth Cons_nth_drop_Suc [symmetric])
  finally show ?case .
qed simp

subsection \<open>The entries of a page\<close>

definition entries :: "('k, 'v) bnode \<Rightarrow> ('k \<times> 'v) list" where
  "entries n = take (nat (bn_size n)) (bn_array n)"

definition page_sizes_ok :: "('k, 'v) bnode \<Rightarrow> bool" where
  "page_sizes_ok n \<longleftrightarrow> 0 \<le> bn_size n \<and> nat (bn_size n) \<le> length (bn_array n)"

definition pos_of :: "('a \<Rightarrow> bool) \<Rightarrow> 'a list \<Rightarrow> nat" where
  "pos_of q xs = length (takeWhile (Not \<circ> q) xs)"

lemma pos_of_le: "pos_of q xs \<le> length xs"
  by (simp add: pos_of_def length_takeWhile_le)

lemma length_entries: "page_sizes_ok n \<Longrightarrow> length (entries n) = nat (bn_size n)"
  by (simp add: page_sizes_ok_def entries_def)

lemma scan_entries:
  assumes "page_sizes_ok n" "\<forall>e\<in>set (entries n). p e = Inr (q e)"
  shows "scan_array p (bn_array n) 0 (nat (bn_size n)) = Inr (int (pos_of q (entries n)))"
  using scan_array_ok [of "nat (bn_size n)" 0 "bn_array n" p q] assms by (simp add: page_sizes_ok_def entries_def pos_of_def)

lemma leaf_Insert_entries:
  assumes n: "page_sizes_ok n" "nat (bn_size n) < length (bn_array n)"
    and c: "\<forall>e\<in>set (entries n). bnd (comparator (fst e) key) (\<lambda>c. Inr (c > 0)) = Inr (q e)"
  shows "\<exists>n'. leaf_Insert comparator n key val = Inr (n', bn_size n + 1) \<and> page_sizes_ok n' \<and> bn_size n' = bn_size n + 1
    \<and> entries n' = take (pos_of q (entries n)) (entries n) @ (key, val) # drop (pos_of q (entries n)) (entries n)"
proof -
  define xs where "xs = bn_array n"
  define s where "s = nat (bn_size n)"
  define i where "i = pos_of q (entries n)"
  have s: "bn_size n = int s" "s < length xs" "entries n = take s xs" using n by (auto simp: page_sizes_ok_def s_def xs_def entries_def)
  have i: "i \<le> s" using pos_of_le [of q "entries n"] s by (simp add: i_def)
  define ys where "ys = take i xs @ (key, val) # take (s - i) (drop i xs) @ drop (Suc s) xs"
  have "bnd (if int i < int s then shift_up xs (int s - 1) (s - i) else Inr xs) (\<lambda>zs. slot_set zs (int i) (key, val)) = Inr ys"
  proof (cases "i < s")
    case True
    then have "shift_up xs (int s - 1) (s - i) = Inr (take (Suc i) xs @ take (s - i) (drop i xs) @ drop (Suc s) xs)"
      using shift_up_ok [of i "s - i" xs] s i by simp
    then show ?thesis using True s i by (simp add: slot_set_ok ys_def list_update_append take_Suc_conv_app_nth)
  next
    case False
    then have "i = s" using i by simp
    then show ?thesis using s by (simp add: slot_set_ok ys_def upd_conv_take_nth_drop)
  qed
  then have w: "bnd (if bn_size n > int i then shift_up xs (bn_size n - 1) (nat (bn_size n - int i)) else Inr xs)
      (\<lambda>zs. bnd (slot_set zs (int i) (key, val)) f) = f ys" for f :: "_ \<Rightarrow> 'c sql"
    unfolding bnd_assoc [symmetric] using s i by (cases "i < s") (auto simp add: nat_diff_distrib)
  have scan: "scan_array (\<lambda>e. bnd (comparator (fst e) key) (\<lambda>c. Inr (c > 0))) xs 0 (nat (bn_size n)) = Inr (int i)"
    using scan_entries [OF n(1) c] by (simp add: i_def xs_def)
  have r: "leaf_Insert comparator n key val = Inr (n\<lparr>bn_array := ys, bn_size := bn_size n + 1\<rparr>, bn_size n + 1)"
    unfolding leaf_Insert_def xs_def [symmetric] scan bnd_simps w ..
  have "length ys = length xs" using s i by (simp add: ys_def)
  moreover have "take (Suc s) ys = take i (entries n) @ (key, val) # drop i (entries n)"
    using s i by (simp add: ys_def take_Cons' drop_take)
  moreover have "nat (bn_size n + 1) = Suc s" using s(1) by simp
  ultimately show ?thesis unfolding r i_def [symmetric] using s(1,2)
    by (simp add: page_sizes_ok_def entries_def [of "n\<lparr>bn_array := ys, bn_size := int s + 1\<rparr>"])
qed

lemma leaf_Lookup_entries:
  assumes n: "page_sizes_ok n" and c: "\<forall>e\<in>set (entries n). bnd (comparator (fst e) key) (\<lambda>c. Inr (c = 0)) = Inr (q e)"
  shows "leaf_Lookup comparator n key = Inr (map_option snd (List.find q (entries n)))"
proof -
  have f: "List.find q es = (if pos_of q es < length es then Some (es ! pos_of q es) else None)" for es
    by (induction es) (auto simp: pos_of_def)
  have "pos_of q (entries n) < length (entries n) \<Longrightarrow> slot_get (bn_array n) (int (pos_of q (entries n))) = Inr (entries n ! pos_of q (entries n))"
    using n length_entries [OF n] by (simp add: slot_get_def page_sizes_ok_def entries_def)
  then show ?thesis using scan_entries [OF n c] length_entries [OF n] n by (auto simp: leaf_Lookup_def f page_sizes_ok_def)
qed

lemma RemoveAndDeleteRecord_entries:
  assumes n: "page_sizes_ok n" and c: "\<forall>e\<in>set (entries n). bnd (comparator (fst e) key) (\<lambda>c. Inr (c = 0)) = Inr (q e)"
  defines "i \<equiv> pos_of q (entries n)"
  shows "\<exists>n'. RemoveAndDeleteRecord comparator n key = Inr (n', bn_size n') \<and> page_sizes_ok n'
    \<and> entries n' = take i (entries n) @ drop (Suc i) (entries n)"
proof -
  define xs where "xs = bn_array n"
  define s where "s = nat (bn_size n)"
  have s: "bn_size n = int s" "s \<le> length xs" "entries n = take s xs" using n by (auto simp: page_sizes_ok_def s_def xs_def entries_def)
  have scan: "scan_array (\<lambda>e. bnd (comparator (fst e) key) (\<lambda>c. Inr (c = 0))) xs 0 s = Inr (int i)"
    using scan_entries [OF n c] by (simp add: i_def xs_def s_def)
  show ?thesis
  proof (cases "i < s")
    case True
    let ?ys = "take i xs @ take (s - 1 - i) (drop (Suc i) xs) @ drop (s - 1) xs"
    have "shift_down xs (int i) (s - 1 - i) = Inr ?ys" using shift_down_ok [of i "s - 1 - i" xs] True s by simp
    moreover have "nat (int s - 1 - int i) = s - 1 - i" using True by simp
    ultimately have r: "RemoveAndDeleteRecord comparator n key = Inr (n\<lparr>bn_array := ?ys, bn_size := bn_size n - 1\<rparr>, bn_size n - 1)"
      using True s scan by (simp add: RemoveAndDeleteRecord_def xs_def [symmetric])
    have "take (s - 1) ?ys = take i (take s xs) @ drop (Suc i) (take s xs)" using True s by (simp add: drop_take)
    moreover have "nat (int s - 1) = s - 1" by simp
    ultimately show ?thesis unfolding r using True s by (simp add: page_sizes_ok_def entries_def)
  next
    case False
    then have "take i (take s xs) @ drop (Suc i) (take s xs) = take s xs" using s by simp
    moreover have "RemoveAndDeleteRecord comparator n key = Inr (n, bn_size n)"
      using False s scan by (simp add: RemoveAndDeleteRecord_def xs_def [symmetric])
    ultimately show ?thesis using n s by simp
  qed
qed

subsection \<open>Keys in an order\<close>

text \<open>The map from the ranks of the keys to the values, and the invariant of a leaf: the keys in use are in strictly
  increasing order.\<close>

definition ranks :: "('k \<Rightarrow> 'o) \<Rightarrow> ('k, 'v) bnode \<Rightarrow> ('o \<times> 'v) list" where
  "ranks rank n = map (\<lambda>e. (rank (fst e), snd e)) (entries n)"

definition leaf_ok :: "('k \<Rightarrow> bool) \<Rightarrow> ('k \<Rightarrow> 'o :: linorder) \<Rightarrow> ('k, 'v) bnode \<Rightarrow> bool" where
  "leaf_ok ok rank n \<longleftrightarrow> page_sizes_ok n \<and> (\<forall>e\<in>set (entries n). ok (fst e)) \<and> sorted_wrt (<) (map fst (ranks rank n))"

definition leaf_map :: "('k \<Rightarrow> 'o) \<Rightarrow> ('k, 'v) bnode \<Rightarrow> 'o \<rightharpoonup> 'v" where
  "leaf_map rank n = map_of (ranks rank n)"

text \<open>What the pages rely on of a comparator: on the keys of \<open>ok\<close> it does not fail, and its sign is the order of the ranks
  of the keys.\<close>

locale key_order =
  fixes cmp :: "'k \<Rightarrow> 'k \<Rightarrow> int sql" and ok :: "'k \<Rightarrow> bool" and rank :: "'k \<Rightarrow> 'o :: linorder"
  assumes cmp_rank: "ok a \<Longrightarrow> ok b \<Longrightarrow> \<exists>c. cmp a b = Inr c \<and> (c < 0 \<longleftrightarrow> rank a < rank b) \<and> (c > 0 \<longleftrightarrow> rank a > rank b)"
begin

lemma tests:
  assumes "ok a" "ok b"
  shows "bnd (cmp a b) (\<lambda>c. Inr (c > 0)) = Inr (rank a > rank b)" "bnd (cmp a b) (\<lambda>c. Inr (c = 0)) = Inr (rank a = rank b)"
proof -
  obtain c where c: "cmp a b = Inr c" "c < 0 \<longleftrightarrow> rank a < rank b" "c > 0 \<longleftrightarrow> rank a > rank b" using cmp_rank [OF assms] by blast
  then have "c = 0 \<longleftrightarrow> rank a = rank b" by (metis less_irrefl linorder_neqE)
  with c show "bnd (cmp a b) (\<lambda>c. Inr (c > 0)) = Inr (rank a > rank b)" "bnd (cmp a b) (\<lambda>c. Inr (c = 0)) = Inr (rank a = rank b)"
    by simp_all
qed

lemma lookup_map:
  fixes n :: "('k, 'v) bnode"
  assumes n: "leaf_ok ok rank n" and k: "ok key"
  shows "leaf_Lookup cmp n key = Inr (leaf_map rank n (rank key))"
proof -
  have "leaf_Lookup cmp n key = Inr (map_option snd (List.find (\<lambda>e. rank (fst e) = rank key) (entries n)))"
    using n k tests by (intro leaf_Lookup_entries) (auto simp: leaf_ok_def)
  moreover have "map_option snd (List.find (\<lambda>e. rank (fst e) = rank key) es) = map_of (map (\<lambda>e. (rank (fst e), snd e)) es) (rank key)" for es :: "('k \<times> 'v) list"
    by (induction es) auto
  ultimately show ?thesis by (simp add: leaf_map_def ranks_def)
qed

lemma split_at:
  fixes r :: 'o
  assumes "sorted_wrt (<) (map f es)"
  shows "(\<forall>e\<in>set (take (pos_of (\<lambda>e. f e > r) es) es). f e \<le> r) \<and> (\<forall>e\<in>set (drop (pos_of (\<lambda>e. f e > r) es) es). r < f e)"
  using assms
proof (induction es)
  case (Cons e es)
  show ?case
  proof (cases "f e > r")
    case True
    then have "\<forall>x\<in>set es. r < f x" using Cons.prems by auto
    then show ?thesis using True by (simp add: pos_of_def)
  next
    case False
    then have p: "pos_of (\<lambda>e. f e > r) (e # es) = Suc (pos_of (\<lambda>e. f e > r) es)" by (simp add: pos_of_def)
    have "sorted_wrt (<) (map f es)" using Cons.prems by simp
    note IH = Cons.IH [OF this]
    have "f e \<le> r" using False by (simp add: not_less)
    with IH show ?thesis unfolding p take_Suc_Cons drop_Suc_Cons list.set ball_simps by blast
  qed
qed simp

lemma insert_map:
  fixes n :: "('k, 'v) bnode"
  assumes n: "leaf_ok ok rank n" and k: "ok key" and new: "leaf_map rank n (rank key) = None" and room: "nat (bn_size n) < length (bn_array n)"
  shows "\<exists>n'. leaf_Insert cmp n key val = Inr (n', bn_size n + 1) \<and> leaf_ok ok rank n' \<and> bn_size n' = bn_size n + 1
    \<and> leaf_map rank n' = (leaf_map rank n)(rank key \<mapsto> val)"
proof -
  define q :: "'k \<times> 'v \<Rightarrow> bool" where "q e = (rank (fst e) > rank key)" for e
  define i where "i = pos_of q (entries n)"
  let ?A = "take i (entries n)" and ?B = "drop i (entries n)"
  have AB: "entries n = ?A @ ?B" by simp
  obtain n' where n': "leaf_Insert cmp n key val = Inr (n', bn_size n + 1)" "page_sizes_ok n'" "bn_size n' = bn_size n + 1"
    "entries n' = ?A @ (key, val) # ?B"
    using leaf_Insert_entries [of n cmp key q val] n k room tests unfolding leaf_ok_def q_def i_def by fastforce
  have sorted: "sorted_wrt (<) (map (rank \<circ> fst) (entries n))" using n by (simp add: leaf_ok_def ranks_def comp_def)
  have new': "\<forall>e\<in>set (entries n). rank (fst e) \<noteq> rank key"
    using new by (force simp: leaf_map_def ranks_def map_of_eq_None_iff)
  have "i = pos_of (\<lambda>e. (rank \<circ> fst) e > rank key) (entries n)" by (simp add: i_def q_def [abs_def])
  then have "(\<forall>e\<in>set ?A. (rank \<circ> fst) e \<le> rank key) \<and> (\<forall>e\<in>set ?B. rank key < (rank \<circ> fst) e)"
    using split_at [OF sorted, of "rank key"] by blast
  then have "\<forall>e\<in>set ?A. rank (fst e) \<le> rank key" and B: "\<forall>e\<in>set ?B. rank key < rank (fst e)" by auto
  then have A: "\<forall>e\<in>set ?A. rank (fst e) < rank key" using new' by (auto dest: in_set_takeD simp: less_le)
  have "sorted_wrt (<) (map (rank \<circ> fst) (?A @ ?B))" using sorted by simp
  then have "sorted_wrt (<) (map (rank \<circ> fst) (?A @ (key, val) # ?B))"
    unfolding map_append sorted_wrt_append using A B by (auto intro: less_trans)
  moreover have "\<forall>e\<in>set (?A @ (key, val) # ?B). ok (fst e)" using n k by (auto simp: leaf_ok_def dest: in_set_takeD in_set_dropD)
  ultimately have "leaf_ok ok rank n'" using n'(2,4) by (simp add: leaf_ok_def ranks_def comp_def)
  moreover have "leaf_map rank n' = (leaf_map rank n)(rank key \<mapsto> val)"
  proof -
    have "map_of (map (\<lambda>e. (rank (fst e), snd e)) (A @ (key, val) # B))
        = (map_of (map (\<lambda>e. (rank (fst e), snd e)) (A @ B)))(rank key \<mapsto> val)"
      if "\<forall>e\<in>set A. rank (fst e) < rank key" for A B :: "('k \<times> 'v) list"
      using that by (induction A) (auto simp: fun_eq_iff)
    from this [OF A, of ?B] have "map_of (map (\<lambda>e. (rank (fst e), snd e)) (?A @ (key, val) # ?B))
        = (map_of (map (\<lambda>e. (rank (fst e), snd e)) (entries n)))(rank key \<mapsto> val)"
      unfolding append_take_drop_id .
    then show ?thesis unfolding leaf_map_def ranks_def n'(4) .
  qed
  ultimately show ?thesis using n' by blast
qed

lemma remove_map:
  fixes n :: "('k, 'v) bnode"
  assumes n: "leaf_ok ok rank n" and k: "ok key"
  shows "\<exists>n'. RemoveAndDeleteRecord cmp n key = Inr (n', bn_size n') \<and> leaf_ok ok rank n' \<and> leaf_map rank n' = (leaf_map rank n)(rank key := None)"
proof -
  define q :: "'k \<times> 'v \<Rightarrow> bool" where "q e = (rank (fst e) = rank key)" for e
  define i where "i = pos_of q (entries n)"
  let ?A = "take i (entries n)" and ?B = "drop (Suc i) (entries n)"
  obtain n' where n': "RemoveAndDeleteRecord cmp n key = Inr (n', bn_size n')" "page_sizes_ok n'" "entries n' = ?A @ ?B"
    using RemoveAndDeleteRecord_entries [of n cmp key q] n k tests unfolding leaf_ok_def q_def i_def by fastforce
  have sorted: "sorted_wrt (<) (map (rank \<circ> fst) (entries n))" using n by (simp add: leaf_ok_def ranks_def comp_def)
  have m: "sorted_wrt (<) (map (rank \<circ> fst) (take (pos_of q es) es @ drop (Suc (pos_of q es)) es))
      \<and> map_of (map (\<lambda>e. (rank (fst e), snd e)) (take (pos_of q es) es @ drop (Suc (pos_of q es)) es))
        = (map_of (map (\<lambda>e. (rank (fst e), snd e)) es))(rank key := None)"
    if "sorted_wrt (<) (map (rank \<circ> fst) es)" for es
    using that
  proof (induction es)
    case (Cons e es)
    show ?case
    proof (cases "q e")
      case True
      then have "map_of (map (\<lambda>e. (rank (fst e), snd e)) es) (rank key) = None"
        using Cons.prems by (auto simp: map_of_eq_None_iff q_def)
      then show ?thesis using True Cons.prems by (auto simp: pos_of_def q_def fun_eq_iff)
    next
      case False
      then show ?thesis using Cons by (auto simp: pos_of_def q_def fun_eq_iff dest: in_set_takeD in_set_dropD)
    qed
  qed (simp add: pos_of_def)
  have "\<forall>e\<in>set (?A @ ?B). ok (fst e)" using n by (auto simp: leaf_ok_def dest: in_set_takeD in_set_dropD)
  then show ?thesis using n' m [OF sorted] by (auto simp: leaf_ok_def leaf_map_def ranks_def i_def comp_def)
qed

end

end
