(* ===== verification/Bplus_Props.thy ===== *)
theory Bplus_Props
  imports Bplus_Correct Tuple_Props
begin

section \<open>The index pages with integer keys\<close>

text \<open>
  The comparator of the index compares the columns of two keys in order. On keys whose columns are integers that are
  not null it is the lexicographic order of the numbers, so leaf pages are sorted maps; a null column compares equal
  to every other.
\<close>

definition column_num :: "schema \<Rightarrow> bytes \<Rightarrow> nat \<Rightarrow> int" where
  "column_num sch k i =
     (let c = columns sch ! i; w = int_width (column_type c)
      in sbits w (int (le_decode (read_mem k (column_offset c) (w div 8)))))"

definition int_column :: "schema \<Rightarrow> nat \<Rightarrow> bool" where
  "int_column sch i \<longleftrightarrow> is_int (column_type (columns sch ! i)) \<and> is_inlined (columns sch ! i)"

definition key_ok :: "schema \<Rightarrow> bytes \<Rightarrow> bool" where
  "key_ok sch k \<longleftrightarrow> list_all (\<lambda>i. int_column sch i \<and> column_num sch k i \<noteq> PELOTON_INT_NULL (column_type (columns sch ! i))) [0..<length (columns sch)]"

definition key_rank :: "schema \<Rightarrow> bytes \<Rightarrow> int list" where
  "key_rank sch k = map (column_num sch k) [0..<length (columns sch)]"

lemma key_ToValue_int:
  assumes "int_column sch i"
  shows "key_ToValue F k sch i = Inr (mk_int (column_type (columns sch ! i)) (column_num sch k i))"
proof -
  let ?t = "column_type (columns sch ! i)"
  have t: "is_int ?t" using assms by (simp add: int_column_def)
  have "Value_of ?t (column_num sch k i) = Inr (mk_int ?t (column_num sch k i))"
    using t by (intro Value_of_ok) (auto simp: column_num_def Let_def fits_sbits)
  then show ?thesis using assms t
    by (simp add: key_ToValue_def DeserializeFrom_def kTypes_int int_DeserializeFrom_def int_column_def column_num_def Let_def)
qed

lemma column_int_ok:
  assumes "int_column sch i" "column_num sch k i \<noteq> PELOTON_INT_NULL (column_type (columns sch ! i))"
  shows "int_ok (column_type (columns sch ! i)) (column_num sch k i)"
proof -
  have "fits_bits (int_width (column_type (columns sch ! i))) (column_num sch k i)" by (simp add: column_num_def Let_def fits_sbits)
  then show ?thesis using assms by (auto simp: int_ok_def int_column_def fits_bits_def PELOTON_INT_MIN_def PELOTON_INT_MAX_def PELOTON_INT_NULL_def)
qed

lemma compare_columns_order:
  assumes "list_all (\<lambda>i. int_column sch i \<and> column_num sch a i \<noteq> PELOTON_INT_NULL (column_type (columns sch ! i))
    \<and> column_num sch b i \<noteq> PELOTON_INT_NULL (column_type (columns sch ! i))) is"
  shows "\<exists>c. compare_columns F sch a b is = Inr c \<and> (c < 0 \<longleftrightarrow> map (column_num sch a) is < map (column_num sch b) is)
    \<and> (c > 0 \<longleftrightarrow> map (column_num sch a) is > map (column_num sch b) is)"
  using assms
proof (induction "is")
  case (Cons i "is")
  then have "int_ok (column_type (columns sch ! i)) (column_num sch a i)" "int_ok (column_type (columns sch ! i)) (column_num sch b i)"
    by (auto intro: column_int_ok)
  note cmp = int_compares(3,5) [OF this]
  show ?case using Cons by (auto simp: key_ToValue_int cmp GetCmpBool_def)
qed simp

interpretation gk: key_order "GenericComparator F sch" "key_ok sch" "key_rank sch"
proof unfold_locales
  fix a b assume "key_ok sch a" "key_ok sch b"
  then show "\<exists>c. GenericComparator F sch a b = Inr c \<and> (c < 0 \<longleftrightarrow> key_rank sch a < key_rank sch b) \<and> (c > 0 \<longleftrightarrow> key_rank sch b < key_rank sch a)"
    unfolding GenericComparator_def key_rank_def by (intro compare_columns_order) (auto simp: key_ok_def list_all_iff)
qed

text \<open>An index on one column of one byte, and a leaf for it with room for three entries.\<close>

definition byte_schema :: schema where
  "byte_schema = \<lparr>schema_length = 1,
     columns = [\<lparr>column_type = TINYINT, fixed_length = 1, variable_length = 0, column_name = ''a'', is_inlined = True, column_offset = 0\<rparr>],
     tuple_is_inlined = True, uninlined_columns = []\<rparr>"

definition byte_key :: "u8 \<Rightarrow> bytes" where
  "byte_key b = (\<lambda>a. b)"

definition byte_leaf :: "(bytes, string) bnode" where
  "byte_leaf = \<lparr>bn_type = LEAF_PAGE, bn_size = 2, bn_max = 4, bn_parent = INVALID_PAGE_ID, bn_id = 1, bn_next = INVALID_PAGE_ID,
     bn_array = [(byte_key 3, ''three''), (byte_key 7, ''seven''), (byte_key 0, [])]\<rparr>"

lemma byte_column [simp]: "column_num byte_schema (byte_key b) 0 = sbits 8 (uint b)" "int_column byte_schema 0"
  by (simp_all add: column_num_def byte_schema_def byte_key_def read_mem_def int_column_def is_int_def)

lemma byte_keys [simp]: "key_rank byte_schema (byte_key b) = [sbits 8 (uint b)]" "key_ok byte_schema (byte_key b) \<longleftrightarrow> sbits 8 (uint b) \<noteq> -128"
proof -
  have "length (columns byte_schema) = Suc 0" "column_type (columns byte_schema ! 0) = TINYINT" by (simp_all add: byte_schema_def)
  then show "key_rank byte_schema (byte_key b) = [sbits 8 (uint b)]" "key_ok byte_schema (byte_key b) \<longleftrightarrow> sbits 8 (uint b) \<noteq> -128"
    by (simp_all add: key_rank_def key_ok_def PELOTON_INT_NULL_def)
qed

lemma byte_leaf_entries [simp]: "entries byte_leaf = [(byte_key 3, ''three''), (byte_key 7, ''seven'')]" "page_sizes_ok byte_leaf"
  "bn_size byte_leaf = 2" "length (bn_array byte_leaf) = 3"
  by (simp_all add: entries_def byte_leaf_def page_sizes_ok_def)

lemma byte_nums [simp]: "sbits 8 3 = 3" "sbits 8 5 = 5" "sbits 8 7 = 7" "sbits 8 128 = -128"
  by (simp_all add: fits_bits_def) (simp add: sbits_def signed_take_bit_eq_if_negative bit_numeral_iff)

text \<open>C17. A leaf page with strictly increasing keys is a map: with the comparator of the index and integer keys that are not
  null, \<open>Lookup\<close> reads the map, \<open>Insert\<close> of a new key adds it while the page has room, and
  \<open>RemoveAndDeleteRecord\<close> removes it; all of them keep the order and return the new size.\<close>

theorem leaf_page_refines_map:
  assumes "leaf_ok (key_ok sch) (key_rank sch) n" and "key_ok sch key"
  shows "leaf_Lookup (GenericComparator F sch) n key = Inr (leaf_map (key_rank sch) n (key_rank sch key))
    \<and> (leaf_map (key_rank sch) n (key_rank sch key) = None \<longrightarrow> bn_size n < int (length (bn_array n)) \<longrightarrow>
        (\<exists>n'. leaf_Insert (GenericComparator F sch) n key val = Inr (n', bn_size n + 1) \<and> leaf_ok (key_ok sch) (key_rank sch) n'
          \<and> leaf_map (key_rank sch) n' = (leaf_map (key_rank sch) n)(key_rank sch key \<mapsto> val)))
    \<and> (\<exists>n'. RemoveAndDeleteRecord (GenericComparator F sch) n key = Inr (n', bn_size n') \<and> leaf_ok (key_ok sch) (key_rank sch) n'
          \<and> leaf_map (key_rank sch) n' = (leaf_map (key_rank sch) n)(key_rank sch key := None))"
proof (intro conjI impI)
  assume "leaf_map (key_rank sch) n (key_rank sch key) = None" "bn_size n < int (length (bn_array n))"
  moreover from this(2) have "nat (bn_size n) < length (bn_array n)" using assms(1) by (auto simp: leaf_ok_def page_sizes_ok_def)
  ultimately show "\<exists>n'. leaf_Insert (GenericComparator F sch) n key val = Inr (n', bn_size n + 1) \<and> leaf_ok (key_ok sch) (key_rank sch) n'
      \<and> leaf_map (key_rank sch) n' = (leaf_map (key_rank sch) n)(key_rank sch key \<mapsto> val)"
    using gk.insert_map [OF assms, of F val] by blast
qed (use gk.lookup_map [OF assms] gk.remove_map [OF assms] in auto)

theorem leaf_page_refines_map_witness:
  "leaf_Lookup (GenericComparator word_doubles byte_schema) byte_leaf (byte_key 7) = Inr (Some ''seven'')
    \<and> (\<exists>n. leaf_Insert (GenericComparator word_doubles byte_schema) byte_leaf (byte_key 5) ''five'' = Inr (n, 3)
      \<and> leaf_map (key_rank byte_schema) n = [[3] \<mapsto> ''three'', [7] \<mapsto> ''seven'', [5] \<mapsto> ''five''])"
proof -
  have l: "leaf_ok (key_ok byte_schema) (key_rank byte_schema) byte_leaf" by (simp add: leaf_ok_def ranks_def)
  have m: "leaf_map (key_rank byte_schema) byte_leaf = [[3] \<mapsto> ''three'', [7] \<mapsto> ''seven'']"
    by (simp add: leaf_map_def ranks_def fun_upd_twist)
  have k: "key_ok byte_schema (byte_key 7)" "key_ok byte_schema (byte_key 5)" by simp_all
  show ?thesis
    using leaf_page_refines_map [OF l k(1), of word_doubles "[]"] leaf_page_refines_map [OF l k(2), of word_doubles "''five''"] m by auto
qed

subsection \<open>Keys from tuples\<close>

lemma column_num_cong:
  assumes "\<forall>a. column_offset (columns sch ! i) \<le> a \<and> a < column_offset (columns sch ! i) + int (int_width (column_type (columns sch ! i)) div 8) \<longrightarrow> k a = d a"
  shows "column_num sch k i = column_num sch d i"
proof -
  have "read_mem k (column_offset (columns sch ! i)) (int_width (column_type (columns sch ! i)) div 8)
      = read_mem d (column_offset (columns sch ! i)) (int_width (column_type (columns sch ! i)) div 8)"
    by (rule read_mem_cong) (use assms in auto)
  then show ?thesis by (simp add: column_num_def Let_def)
qed

text \<open>A key made from a tuple that fits it has the integer columns of the tuple; a longer tuple overflows the key.\<close>

theorem index_key_reads_tuple:
  assumes "int_column sch i" and "0 \<le> column_offset (columns sch ! i)" and "0 \<le> tuple_size t"
    and "column_offset (columns sch ! i) + int (int_width (column_type (columns sch ! i)) div 8) \<le> tuple_size t"
  shows "if tuple_size t \<le> KeySize then \<exists>k. SetFromKey KeySize data t = Inr k \<and> key_ToValue F k sch i = GetValue F sch t i
    else SetFromKey KeySize data t = Inl Undef"
proof (cases "tuple_size t \<le> KeySize")
  case True
  let ?k = "write_mem (memset data 0 0 (nat KeySize)) 0 (read_mem (tuple_data t) 0 (nat (tuple_size t)))"
  have "column_num sch ?k i = column_num sch (tuple_data t) i"
    by (rule column_num_cong) (use assms in \<open>auto simp: write_mem_apply read_mem_def\<close>)
  moreover have "GetValue F sch t i = Inr (mk_int (column_type (columns sch ! i)) (column_num sch (tuple_data t) i))"
    using key_ToValue_int [OF assms(1), of F "tuple_data t"] assms(1)
    by (simp add: GetValue_def GetDataPtr_def key_ToValue_def int_column_def Let_def)
  ultimately show ?thesis using True assms key_ToValue_int [OF assms(1), of F ?k] by (simp add: SetFromKey_def tput_def)
next
  case False
  then show ?thesis using assms by (simp add: SetFromKey_def tput_def)
qed

theorem index_key_reads_tuple_witness:
  "(\<exists>k. SetFromKey 4 (\<lambda>_. 9) \<lparr>tuple_size = 1, tuple_data = byte_key 5\<rparr> = Inr k \<and> key_ToValue word_doubles k byte_schema 0 = Inr (mk_int TINYINT 5))
    \<and> SetFromKey 4 (\<lambda>_. 9) \<lparr>tuple_size = 5, tuple_data = byte_key 5\<rparr> = Inl Undef"
proof -
  have c: "column_offset (columns byte_schema ! 0) = 0" "column_type (columns byte_schema ! 0) = TINYINT" "is_inlined (columns byte_schema ! 0)"
    by (simp_all add: byte_schema_def)
  have "GetValue word_doubles byte_schema \<lparr>tuple_size = 1, tuple_data = byte_key 5\<rparr> 0 = Inr (mk_int TINYINT 5)"
    using key_ToValue_int [OF byte_column(2), of word_doubles "byte_key 5"] c
    by (simp add: GetValue_def GetDataPtr_def key_ToValue_def Let_def)
  then show ?thesis
    using index_key_reads_tuple [of byte_schema 0 "\<lparr>tuple_size = 1, tuple_data = byte_key 5\<rparr>" 4 "\<lambda>_. 9" word_doubles]
      index_key_reads_tuple [of byte_schema 0 "\<lparr>tuple_size = 5, tuple_data = byte_key 5\<rparr>" 4 "\<lambda>_. 9" word_doubles] c by simp
qed

subsection \<open>What goes wrong\<close>

text \<open>A null key is equal to every key: with an index on one integer column, looking up a null key in a leaf that is
  not empty finds its first entry, and removing it deletes that entry.\<close>

theorem null_key_matches_first:
  assumes "length (columns sch) = 1" and "int_column sch 0" and "column_num sch key 0 = PELOTON_INT_NULL (column_type (columns sch ! 0))"
    and "page_sizes_ok n" and "0 < bn_size n"
  shows "leaf_Lookup (GenericComparator F sch) n key = Inr (Some (snd (hd (entries n))))
    \<and> (\<exists>n'. RemoveAndDeleteRecord (GenericComparator F sch) n key = Inr (n', bn_size n') \<and> entries n' = tl (entries n))"
proof -
  let ?t = "column_type (columns sch ! 0)"
  have t: "is_int ?t" using assms(2) by (simp add: int_column_def)
  have "int_compare F ?t opr (mk_int ?t x) (mk_int ?t (PELOTON_INT_NULL ?t)) = Inr CMP_NULL" for opr x
    using t by (simp add: int_compare_def mk_int_checks)
  then have "GenericComparator F sch a key = Inr 0" for a
    using assms(1-3) t
    by (simp add: GenericComparator_def key_ToValue_int CompareLessThan_def CompareGreaterThan_def kTypes_int(2) cmps_of_def)
  then have c: "\<forall>e\<in>set (entries n). bnd (GenericComparator F sch (fst e) key) (\<lambda>c. Inr (c = 0)) = Inr True" by simp
  obtain e es where e: "entries n = e # es" using assms(4,5) length_entries [OF assms(4)] by (cases "entries n") auto
  show ?thesis
    using leaf_Lookup_entries [of n "GenericComparator F sch" key "\<lambda>_. True"]
      RemoveAndDeleteRecord_entries [of n "GenericComparator F sch" key "\<lambda>_. True"] assms(4) c e
    by (auto simp: pos_of_def)
qed

theorem null_key_matches_first_witness:
  "leaf_Lookup (GenericComparator word_doubles byte_schema) byte_leaf (byte_key 128) = Inr (Some ''three'')"
proof -
  have "length (columns byte_schema) = 1" "column_type (columns byte_schema ! 0) = TINYINT" by (simp_all add: byte_schema_def)
  then show ?thesis using null_key_matches_first [of byte_schema "byte_key 128" byte_leaf word_doubles] by (simp add: PELOTON_INT_NULL_def)
qed

lemma copy_tail_ok:
  assumes "i + k \<le> length src" "p + k \<le> length dst"
  shows "copy_tail src dst (int i) (int p) k = Inr (take p dst @ take k (drop i src) @ drop (p + k) dst)"
  using assms
proof (induction k arbitrary: dst i p)
  case (Suc k)
  let ?d = "dst[p := src ! i]"
  have "copy_tail src dst (int i) (int p) (Suc k) = copy_tail src ?d (int (Suc i)) (int (Suc p)) k"
    using Suc.prems by (simp add: slot_get_ok slot_set_ok add.commute)
  also have "\<dots> = Inr (take (Suc p) ?d @ take k (drop (Suc i) src) @ drop (Suc p + k) ?d)" using Suc.prems by (intro Suc.IH) auto
  also have "take (Suc p) ?d @ take k (drop (Suc i) src) @ drop (Suc p + k) ?d = take p dst @ take (Suc k) (drop i src) @ drop (p + Suc k) dst"
    using Suc.prems by (simp add: take_Suc_conv_app_nth Cons_nth_drop_Suc [symmetric])
  finally show ?case .
qed simp

lemma MoveHalfTo_ok:
  assumes "page_sizes_ok n" "page_sizes_ok r" "bn_size r + bn_size n \<le> int (length (bn_array r))"
  shows "MoveHalfTo n r = Inr (n\<lparr>bn_size := int (nat (bn_size n) div 2)\<rparr>,
    r\<lparr>bn_array := take (nat (bn_size r)) (bn_array r) @ drop (nat (bn_size n) div 2) (entries n)
      @ drop (nat (bn_size r) + (nat (bn_size n) - nat (bn_size n) div 2)) (bn_array r)\<rparr>)"
proof -
  define s p where "s = nat (bn_size n)" and "p = nat (bn_size r)"
  have sz: "bn_size n = int s" "s \<le> length (bn_array n)" "bn_size r = int p" "p + s \<le> length (bn_array r)"
    using assms by (auto simp: page_sizes_ok_def s_def p_def)
  have h: "int s sdiv 2 = int (s div 2)" by (cases "s = 0") (simp_all add: signed_divide_int_def zdiv_int)
  have "nat (int s - int (s div 2)) = s - s div 2" by simp
  then show ?thesis
    using copy_tail_ok [of "s div 2" "s - s div 2" "bn_array n" p "bn_array r"] sz h
    by (simp add: MoveHalfTo_def Let_def entries_def drop_take)
qed

text \<open>Splitting loses entries: \<open>MoveHalfTo\<close> copies the upper half behind the entries of the recipient, but leaves the size
  of the recipient as it was, so the page keeps its lower half and the upper half is in neither page.\<close>

theorem split_loses_upper_half:
  assumes "page_sizes_ok n" and "page_sizes_ok r" and "bn_size r + bn_size n \<le> int (length (bn_array r))"
  shows "\<exists>n' r'. MoveHalfTo n r = Inr (n', r') \<and> entries n' = take (nat (bn_size n) div 2) (entries n) \<and> entries r' = entries r"
  using MoveHalfTo_ok [OF assms] assms(2) by (auto simp: entries_def page_sizes_ok_def)

theorem split_loses_upper_half_witness:
  "\<exists>n r. MoveHalfTo byte_leaf (byte_leaf\<lparr>bn_size := 0\<rparr>) = Inr (n, r) \<and> entries n = [(byte_key 3, ''three'')] \<and> entries r = []"
proof -
  have "page_sizes_ok (byte_leaf\<lparr>bn_size := 0\<rparr>)" "entries (byte_leaf\<lparr>bn_size := 0\<rparr>) = []" by (simp_all add: page_sizes_ok_def entries_def)
  then show ?thesis using split_loses_upper_half [of byte_leaf "byte_leaf\<lparr>bn_size := 0\<rparr>"] by simp
qed

text \<open>A new root is empty: \<open>PopulateNewRoot\<close> writes two children but leaves the size 0 that \<open>Init\<close> set, so every lookup
  in the new root reads before the array.\<close>

theorem new_root_lookup_undefined:
  assumes "2 \<le> length (bn_array n)"
  shows "\<exists>r. PopulateNewRoot (internal_Init n page_id INVALID_PAGE_ID) old_value new_key new_value = Inr r
    \<and> bn_array r ! 0 = (new_key, old_value) \<and> bn_array r ! 1 = (new_key, new_value) \<and> internal_Lookup comparator r key = Inl Undef"
  using assms by (cases "bn_array n") (auto simp: PopulateNewRoot_def internal_Init_def slot_set_def internal_Lookup_def ValueAt_def slot_get_def)

theorem new_root_lookup_undefined_witness:
  "\<exists>r. PopulateNewRoot (internal_Init \<lparr>bn_type = INVALID_INDEX_PAGE, bn_size = 0, bn_max = 0, bn_parent = 0, bn_id = 0, bn_next = 0,
      bn_array = [(0, 0), (0, 0)]\<rparr> 9 INVALID_PAGE_ID) 1 (50 :: int) 2 = Inr r \<and> internal_Lookup (\<lambda>a b. Inr (a - b)) r 60 = Inl Undef"
  using new_root_lookup_undefined [of "\<lparr>bn_type = INVALID_INDEX_PAGE, bn_size = 0, bn_max = 0, bn_parent = 0, bn_id = 0, bn_next = 0,
      bn_array = [(0, 0), (0, 0)]\<rparr>" 9 1 "50 :: int" 2 "\<lambda>a b. Inr (a - b)" 60] by auto

text \<open>A root with two children sends every key to the second one, also the keys below the separator.\<close>

theorem lookup_ignores_first_child:
  assumes "bn_size n = 2" and "2 \<le> length (bn_array n)"
  shows "internal_Lookup comparator n key = Inr (snd (bn_array n ! 1))"
  using assms by (simp add: internal_Lookup_def ValueAt_def slot_get_def)

end
