(* ===== verification/Buffer_Correct.thy ===== *)
theory Buffer_Correct
  imports Buffer_Pool
begin

section \<open>Correctness of the buffer pool\<close>

text \<open>
  The pool as a store of pages. \<open>A\<close> gives the contents a client relies on; \<open>pool_holds\<close> says that the pool
  and the file keep them. The invariant is the bookkeeping of the pool: the page table is the inverse of the page
  numbers in the frames, the free list holds the frames without a page, the replacer those that nobody has pinned.
\<close>

definition table_ok :: "('t, int, nat) hash_table \<Rightarrow> ('t, 'r) pool \<Rightarrow> (nat \<Rightarrow> bool) \<Rightarrow> bool" where
  "table_ok H s P \<longleftrightarrow> (\<forall>p f. ht_find H (page_table s) p = Some f \<longleftrightarrow>
     f < length (frames s) \<and> P f \<and> frame_page (frame_at s f) = p \<and> p \<noteq> INVALID_PAGE_ID)"

definition frame_ok :: "('t, 'r) pool \<Rightarrow> nat \<Rightarrow> bool" where
  "frame_ok s f \<longleftrightarrow> (let pg = frame_at s f in 0 \<le> pin_count pg
     \<and> (if frame_page pg = INVALID_PAGE_ID then pin_count pg = 0 \<and> \<not> is_dirty pg
        else page_ok (frame_page pg) \<and> frame_page pg < next_page_id (disk_manager s)))"

text \<open>The invariant on the frames that satisfy \<open>P\<close>.\<close>

definition pool_on :: "(nat \<Rightarrow> bool) \<Rightarrow> ('t, int, nat) hash_table \<Rightarrow> ('t \<Rightarrow> bool) \<Rightarrow> ('r \<Rightarrow> nat list \<Rightarrow> bool)
    \<Rightarrow> ('t, 'r) pool \<Rightarrow> nat list \<Rightarrow> bool" where
  "pool_on P H tok rel s xs \<longleftrightarrow> tok (page_table s) \<and> rel (replacer s) xs \<and> disk_ok (disk_manager s)
     \<and> 0 \<le> next_page_id (disk_manager s) \<and> table_ok H s P \<and> distinct (free_list s)
     \<and> set (free_list s) = {f. f < length (frames s) \<and> P f \<and> frame_page (frame_at s f) = INVALID_PAGE_ID}
     \<and> set xs = {f. f < length (frames s) \<and> P f \<and> frame_page (frame_at s f) \<noteq> INVALID_PAGE_ID \<and> pin_count (frame_at s f) = 0}
     \<and> (\<forall>f < length (frames s). P f \<longrightarrow> frame_ok s f)"

text \<open>The frames whose page no client has pinned: they wait in the replacer.\<close>

definition waiting :: "('t, 'r) pool \<Rightarrow> nat set" where
  "waiting s = {f. f < length (frames s) \<and> frame_page (frame_at s f) \<noteq> INVALID_PAGE_ID \<and> pin_count (frame_at s f) = 0}"

abbreviation pool_ok :: "('t, int, nat) hash_table \<Rightarrow> ('t \<Rightarrow> bool) \<Rightarrow> ('r \<Rightarrow> nat list \<Rightarrow> bool) \<Rightarrow> ('t, 'r) pool \<Rightarrow> nat list \<Rightarrow> bool" where
  "pool_ok \<equiv> pool_on (\<lambda>_. True)"

type_synonym contents = "int \<Rightarrow> u8 list option"

definition page_held :: "('t, int, nat) hash_table \<Rightarrow> ('t, 'r) pool \<Rightarrow> int \<Rightarrow> u8 list \<Rightarrow> bool" where
  "page_held H s p d \<longleftrightarrow>
     (case ht_find H (page_table s) p of
        Some f \<Rightarrow> page_bytes (frame_data (frame_at s f)) = d
          \<and> (pin_count (frame_at s f) = 0 \<longrightarrow> is_dirty (frame_at s f) \<or> stored (disk_manager s) p d)
      | None \<Rightarrow> stored (disk_manager s) p d)"

definition pool_holds :: "('t, int, nat) hash_table \<Rightarrow> ('t, 'r) pool \<Rightarrow> contents \<Rightarrow> bool" where
  "pool_holds H s A \<longleftrightarrow> (\<forall>p d. A p = Some d \<longrightarrow> page_held H s p d)"

lemma page_held_resident:
  "ht_find H (page_table s) p = Some f \<Longrightarrow> page_held H s p d \<longleftrightarrow> page_bytes (frame_data (frame_at s f)) = d
     \<and> (pin_count (frame_at s f) = 0 \<longrightarrow> is_dirty (frame_at s f) \<or> stored (disk_manager s) p d)"
  by (simp add: page_held_def)

lemma page_held_absent: "ht_find H (page_table s) p = None \<Longrightarrow> page_held H s p d \<longleftrightarrow> stored (disk_manager s) p d"
  by (simp add: page_held_def)

lemma page_held_other:
  assumes "page_held H s q d" and "ht_find H (page_table s') q = ht_find H (page_table s) q"
    and "\<And>g. ht_find H (page_table s) q = Some g \<Longrightarrow> frame_at s' g = frame_at s g"
    and "stored (disk_manager s) q d \<Longrightarrow> stored (disk_manager s') q d"
  shows "page_held H s' q d"
  using assms by (cases "ht_find H (page_table s) q") (auto simp: page_held_def)

lemma pool_holdsI: "(\<And>p d. A p = Some d \<Longrightarrow> page_held H s p d) \<Longrightarrow> pool_holds H s A"
  by (simp add: pool_holds_def)

lemma pool_holdsD: "pool_holds H s A \<Longrightarrow> A p = Some d \<Longrightarrow> page_held H s p d"
  by (simp add: pool_holds_def)

text \<open>A state in which the page \<open>p\<close> is in the frame \<open>f\<close>, pinned, and the invariant holds.\<close>

definition fetched :: "('t, int, nat) hash_table \<Rightarrow> ('t \<Rightarrow> bool) \<Rightarrow> ('r \<Rightarrow> nat list \<Rightarrow> bool)
    \<Rightarrow> contents \<Rightarrow> int \<Rightarrow> nat \<Rightarrow> ('t, 'r) pool \<Rightarrow> bool" where
  "fetched H tok rel A p f s \<longleftrightarrow> ht_find H (page_table s) p = Some f \<and> 0 < pin_count (frame_at s f)
     \<and> (\<exists>xs. pool_ok H tok rel s xs) \<and> pool_holds H s A"

lemma pool_onD:
  assumes "pool_on P H tok rel s xs"
  shows "tok (page_table s)" "rel (replacer s) xs" "disk_ok (disk_manager s)" "distinct (free_list s)"
    "\<And>p f. ht_find H (page_table s) p = Some f \<longleftrightarrow>
       f < length (frames s) \<and> P f \<and> frame_page (frame_at s f) = p \<and> p \<noteq> INVALID_PAGE_ID"
    "\<And>f. f \<in> set (free_list s) \<longleftrightarrow> f < length (frames s) \<and> P f \<and> frame_page (frame_at s f) = INVALID_PAGE_ID"
    "\<And>f. f \<in> set xs \<longleftrightarrow> f < length (frames s) \<and> P f \<and> frame_page (frame_at s f) \<noteq> INVALID_PAGE_ID \<and> pin_count (frame_at s f) = 0"
    "\<And>f. f < length (frames s) \<Longrightarrow> P f \<Longrightarrow> frame_ok s f"
    "0 \<le> next_page_id (disk_manager s)"
  using assms by (auto simp: pool_on_def table_ok_def)

lemma set_frame_simps [simp]:
  "page_table (set_frame s f pg) = page_table s" "replacer (set_frame s f pg) = replacer s"
  "free_list (set_frame s f pg) = free_list s" "disk_manager (set_frame s f pg) = disk_manager s"
  "length (frames (set_frame s f pg)) = length (frames s)"
  "f < length (frames s) \<Longrightarrow> frame_at (set_frame s f pg) f = pg"
  "g \<noteq> f \<Longrightarrow> frame_at (set_frame s f pg) g = frame_at s g"
  by (simp_all add: set_frame_def)

lemma waiting_less:
  assumes "f < length (frames s)" "0 < pin_count (frame_at s f)" "length (frames s) \<le> n"
  shows "card (waiting s) < n"
proof -
  have "waiting s \<subseteq> {..<length (frames s)} - {f}" using assms(2) by (auto simp: waiting_def)
  then have "card (waiting s) \<le> card ({..<length (frames s)} - {f})" by (intro card_mono) auto
  also have "\<dots> < length (frames s)" using assms(1) by (simp add: card_Diff_singleton)
  finally show ?thesis using assms(3) by simp
qed

text \<open>A frame that is taken out of the pool may change.\<close>

lemma pool_on_set_frame:
  "pool_on (\<lambda>g. g \<noteq> f) H tok rel s xs \<Longrightarrow> pool_on (\<lambda>g. g \<noteq> f) H tok rel (set_frame s f pg) xs"
  by (auto simp: pool_on_def table_ok_def frame_ok_def Let_def)

lemma pool_holds_set_frame:
  assumes "pool_on (\<lambda>g. g \<noteq> f) H tok rel s xs" and "pool_holds H s A"
  shows "pool_holds H (set_frame s f pg) A"
proof (rule pool_holdsI)
  fix p d assume "A p = Some d"
  then have h: "page_held H s p d" by (rule pool_holdsD [OF assms(2)])
  show "page_held H (set_frame s f pg) p d"
    by (rule page_held_other [OF h]) (use pool_onD(5) [OF assms(1)] in auto)
qed

subsection \<open>Taking a frame out of the pool\<close>

lemma pool_on_free:
  assumes ok: "pool_ok H tok rel s xs" and fl: "free_list s = f # fs"
  shows "pool_on (\<lambda>g. g \<noteq> f) H tok rel (s\<lparr>free_list := fs\<rparr>) xs" and "pin_count (frame_at s f) = 0" "\<not> is_dirty (frame_at s f)"
    "f < length (frames s)" "frame_page (frame_at s f) = INVALID_PAGE_ID"
proof -
  note o = pool_onD [OF ok]
  show f: "f < length (frames s)" "frame_page (frame_at s f) = INVALID_PAGE_ID" using o(6) [of f] fl by simp_all
  then show "pin_count (frame_at s f) = 0" "\<not> is_dirty (frame_at s f)" using o(8) [of f] by (simp_all add: frame_ok_def Let_def)
  show "pool_on (\<lambda>g. g \<noteq> f) H tok rel (s\<lparr>free_list := fs\<rparr>) xs"
    using o f fl o(6) by (auto simp: pool_on_def table_ok_def frame_ok_def Let_def)
qed

lemma pool_holds_free:
  "pool_holds H (s\<lparr>free_list := fs\<rparr>) A \<longleftrightarrow> pool_holds H s A"
  by (simp add: pool_holds_def page_held_def cong: option.case_cong)

text \<open>The victim of the replacer, when its page is in the file.\<close>

lemma pool_on_victim:
  assumes ok: "pool_ok H tok rel s (f # ys)" and di: "distinct (f # ys)" and r: "rel r ys" and dk: "disk_ok dk" "next_page_id dk = next_page_id (disk_manager s)"
    and t: "tok t" "ht_find H t = (ht_find H (page_table s))(frame_page (frame_at s f) := None)"
  shows "pool_on (\<lambda>g. g \<noteq> f) H tok rel (s\<lparr>replacer := r, disk_manager := dk, page_table := t\<rparr>) ys"
proof -
  note o = pool_onD [OF ok]
  have f: "f < length (frames s)" "frame_page (frame_at s f) \<noteq> INVALID_PAGE_ID" using o(7) [of f] by auto
  have "frame_page (frame_at s g) = frame_page (frame_at s f) \<longleftrightarrow> g = f" if "g < length (frames s)" for g
    using o(5) [of "frame_page (frame_at s f)" f] o(5) [of "frame_page (frame_at s f)" g] f that by auto
  then have "table_ok H (s\<lparr>replacer := r, disk_manager := dk, page_table := t\<rparr>) (\<lambda>g. g \<noteq> f)"
    using o(5) f by (auto simp: table_ok_def t(2))
  then show ?thesis
    using o f di r dk t(1) by (auto simp: pool_on_def frame_ok_def Let_def)
qed

lemma pool_holds_victim:
  assumes ok: "pool_ok H tok rel s (f # ys)" and h: "pool_holds H s A"
    and t: "ht_find H t = (ht_find H (page_table s))(frame_page (frame_at s f) := None)"
    and keep: "\<forall>q e. q \<noteq> frame_page (frame_at s f) \<longrightarrow> stored (disk_manager s) q e \<longrightarrow> stored dk q e"
    and wr: "stored dk (frame_page (frame_at s f)) (page_bytes (frame_data (frame_at s f))) \<or> dk = disk_manager s \<and> \<not> is_dirty (frame_at s f)"
  shows "pool_holds H (s\<lparr>replacer := r, disk_manager := dk, page_table := t\<rparr>) A"
proof -
  note o = pool_onD [OF ok]
  let ?q = "frame_page (frame_at s f)"
  have q: "ht_find H (page_table s) ?q = Some f" "pin_count (frame_at s f) = 0" using o(5) o(7) [of f] by auto
  show ?thesis
  proof (rule pool_holdsI)
    fix p d assume "A p = Some d"
    then have h': "page_held H s p d" by (rule pool_holdsD [OF h])
    let ?s = "s\<lparr>replacer := r, disk_manager := dk, page_table := t\<rparr>"
    show "page_held H ?s p d"
    proof (cases "p = ?q")
      case True
      then have "page_bytes (frame_data (frame_at s f)) = d" "is_dirty (frame_at s f) \<or> stored (disk_manager s) p d"
        using h' q by (simp_all add: page_held_resident)
      then have "stored dk p d" using wr True by auto
      with True show ?thesis by (simp add: page_held_absent t)
    next
      case False
      then show ?thesis by (intro page_held_other [OF h']) (use keep in \<open>auto simp: t\<close>)
    qed
  qed
qed

subsection \<open>Putting a page into a frame\<close>

locale pool_parts = bounded_map H tok cap + replacer_spec R rel room
  for H :: "('t, int, nat) hash_table" and tok and cap and R :: "('r, nat) replacer_class" and rel and room
begin

lemma hole_card:
  assumes ho: "pool_on (\<lambda>g. g \<noteq> f) H tok rel s xs" and f: "f < length (frames s)"
  shows "card (dom (ht_find H (page_table s))) < length (frames s)"
proof -
  let ?D = "{..<length (frames s)} - {f}"
  have "dom (ht_find H (page_table s)) \<subseteq> (\<lambda>g. frame_page (frame_at s g)) ` ?D"
    using pool_onD(5) [OF ho] by (auto simp: dom_def)
  then have "card (dom (ht_find H (page_table s))) \<le> card ?D"
    by (meson card_image_le card_mono finite_Diff finite_imageI finite_lessThan order_trans)
  also have "\<dots> < length (frames s)" using f by (simp add: card_Diff_singleton)
  finally show ?thesis .
qed

lemma install:
  assumes ho: "pool_on (\<lambda>g. g \<noteq> f) H tok rel s xs" and h: "pool_holds H s A"
    and f: "f < length (frames s)" "length (frames s) \<le> cap"
    and p: "page_ok (frame_page pg)" "frame_page pg < next_page_id (disk_manager s)" "ht_find H (page_table s) (frame_page pg) = None"
    and pg: "pin_count pg = 1" "\<And>d. A (frame_page pg) = Some d \<Longrightarrow> page_bytes (frame_data pg) = d"
  obtains t where "ht_insert H (page_table s) (frame_page pg) f = Inr t"
    "pool_ok H tok rel ((set_frame s f pg)\<lparr>page_table := t\<rparr>) xs" "pool_holds H ((set_frame s f pg)\<lparr>page_table := t\<rparr>) A"
    "ht_find H t (frame_page pg) = Some f"
proof -
  let ?p = "frame_page pg"
  note o = pool_onD [OF ho]
  have "card (dom (ht_find H (page_table s))) < cap" using hole_card [OF ho f(1)] f(2) by simp
  then obtain t where t: "ht_insert H (page_table s) ?p f = Inr t" "tok t" "ht_find H t = (ht_find H (page_table s))(?p \<mapsto> f)"
    by (rule insert_cases [OF o(1) _ p(3)])
  let ?s = "(set_frame s f pg)\<lparr>page_table := t\<rparr>"
  have inv: "?p \<noteq> INVALID_PAGE_ID" using p(1) by (simp add: page_ok_def INVALID_PAGE_ID_def)
  have fr: "frame_at ?s g = (if g = f then pg else frame_at s g)" "length (frames ?s) = length (frames s)" for g
    using f by (auto simp: set_frame_def)
  have no: "frame_page (frame_at s g) \<noteq> ?p" if "g < length (frames s)" "g \<noteq> f" for g
    using o(5) [of ?p g] p(3) inv that by auto
  have "table_ok H ?s (\<lambda>_. True)"
    unfolding table_ok_def fr using o(5) no f(1) inv by (auto simp: t(3))
  moreover have "frame_ok ?s g" if "g < length (frames s)" for g
    using o(8) [OF that] pg(1) inv p(1,2) unfolding frame_ok_def fr by (auto simp: Let_def)
  ultimately have ok: "pool_ok H tok rel ?s xs"
    using o(1-4,6,7,9) t(2) inv pg(1) f(1) unfolding pool_on_def fr by auto
  have "pool_holds H ?s A"
  proof (rule pool_holdsI)
    fix q d assume a: "A q = Some d"
    then have hq: "page_held H s q d" by (rule pool_holdsD [OF h])
    show "page_held H ?s q d"
    proof (cases "q = ?p")
      case True
      then have r: "ht_find H (page_table ?s) q = Some f" by (simp add: t(3))
      show ?thesis unfolding page_held_resident [OF r] fr using True a pg by simp
    next
      case False
      then show ?thesis by (intro page_held_other [OF hq]) (use o(5) in \<open>auto simp: t(3)\<close>)
    qed
  qed
  with ok t show ?thesis by (intro that [of t]) simp_all
qed

text \<open>The frame that \<open>take_frame\<close> returns, and the pool without it.\<close>

lemma take_frame_cases:
  assumes "pool_ok H tok rel s xs"
  obtains (none) "take_frame R s = (s, None)" "free_list s = []" "xs = []"
  | (free) f fs where "take_frame R s = (s\<lparr>free_list := fs\<rparr>, Some f)" "free_list s = f # fs"
  | (victim) f ys r where "take_frame R s = (s\<lparr>replacer := r\<rparr>, Some f)" "free_list s = []" "xs = f # ys"
      "rp_victim R (replacer s) = (r, Some f)" "rel r ys" "distinct (f # ys)"
proof (cases "free_list s")
  case (Cons f fs)
  then show ?thesis by (intro free) (simp_all add: take_frame_def)
next
  case Nil
  note r = pool_onD(2) [OF assms]
  show ?thesis
  proof (cases xs)
    case Nil
    then have "rp_victim R (replacer s) = (replacer s, None)" using victim_Nil r by simp
    then show ?thesis using \<open>free_list s = []\<close> Nil by (intro none) (simp_all add: take_frame_def)
  next
    case (Cons f ys)
    then obtain r' where "rp_victim R (replacer s) = (r', Some f)" "rel r' ys" using victim_Cons r by metis
    moreover have "distinct (f # ys)" using rel_distinct [OF r] Cons by simp
    ultimately show ?thesis using \<open>free_list s = []\<close> Cons by (intro victim) (simp_all add: take_frame_def)
  qed
qed

text \<open>A change to a pinned frame.\<close>

lemma touch_pinned:
  assumes ok: "pool_ok H tok rel s xs" and h: "pool_holds H s A" and p: "ht_find H (page_table s) p = Some f"
    and pin: "0 < pin_count (frame_at s f)" and pg: "frame_page pg = p" "0 < pin_count pg"
  shows "pool_ok H tok rel (set_frame s f pg) xs"
    and "A' = A(p \<mapsto> page_bytes (frame_data pg)) \<or> A' = A \<and> page_bytes (frame_data pg) = page_bytes (frame_data (frame_at s f))
      \<Longrightarrow> pool_holds H (set_frame s f pg) A'"
proof -
  note o = pool_onD [OF ok]
  have f: "f < length (frames s)" "frame_page (frame_at s f) = p" "p \<noteq> INVALID_PAGE_ID" using o(5) p by auto
  have fr: "frame_at (set_frame s f pg) g = (if g = f then pg else frame_at s g)" for g using f by auto
  have "table_ok H (set_frame s f pg) (\<lambda>_. True)" unfolding table_ok_def fr using o(5) f pg(1) by auto
  moreover have "frame_ok (set_frame s f pg) g" if "g < length (frames s)" for g
    using o(8) [OF that] o(8) [OF f(1)] pg f unfolding frame_ok_def fr by (auto simp: Let_def)
  ultimately show "pool_ok H tok rel (set_frame s f pg) xs"
    using o(1-4,6,7,9) f pin pg unfolding pool_on_def fr by auto
  assume A': "A' = A(p \<mapsto> page_bytes (frame_data pg)) \<or> A' = A \<and> page_bytes (frame_data pg) = page_bytes (frame_data (frame_at s f))"
  show "pool_holds H (set_frame s f pg) A'"
  proof (rule pool_holdsI)
    fix q d assume a: "A' q = Some d"
    show "page_held H (set_frame s f pg) q d"
    proof (cases "q = p")
      case True
      have r: "ht_find H (page_table (set_frame s f pg)) q = Some f" using p True by simp
      have "page_bytes (frame_data pg) = d"
        using A' a True pool_holdsD [OF h, of p d] by (auto simp: page_held_resident [OF p])
      then show ?thesis unfolding page_held_resident [OF r] fr using pg(2) by simp
    next
      case False
      then have hq: "page_held H s q d" using pool_holdsD [OF h] A' a by auto
      have ne: "g \<noteq> f" if "ht_find H (page_table s) q = Some g" for g using o(5) f False that by auto
      show ?thesis by (rule page_held_other [OF hq]) (auto dest: ne)
    qed
  qed
qed

subsection \<open>FetchPage\<close>

lemma fetch_hit:
  assumes "pool_ok H tok rel s xs" and "pool_holds H s A" and p: "ht_find H (page_table s) p = Some f" and "0 < pin_count (frame_at s f)"
  defines "s' \<equiv> set_frame s f ((frame_at s f)\<lparr>pin_count := pin_count (frame_at s f) + 1\<rparr>)"
  shows "FetchPage H R s p = Inr (s', Some f)" and "pool_ok H tok rel s' xs" and "pool_holds H s' A"
  using touch_pinned [OF assms(1-4), of "(frame_at s f)\<lparr>pin_count := pin_count (frame_at s f) + 1\<rparr>"] assms(4) p
    pool_onD(5) [OF assms(1), of p f]
  by (auto simp: FetchPage_def s'_def)

text \<open>The last steps of \<open>FetchPage\<close>, from the read on.\<close>

lemma fetch_read:
  assumes ho: "pool_on (\<lambda>g. g \<noteq> f) H tok rel s xs" and h: "pool_holds H s A"
    and f: "f < length (frames s)" "length (frames s) \<le> cap" "pin_count (frame_at s f) = 0"
    and p: "page_ok p" "p < next_page_id (disk_manager s)" "ht_find H (page_table s) p = None"
  obtains dk d t where "ReadPage (disk_manager s) p (frame_data (frame_at s f)) = Inr (dk, d)"
    "ht_insert H (page_table s) p f = Inr t" "ht_find H t p = Some f"
    "pool_ok H tok rel ((set_frame (s\<lparr>disk_manager := dk\<rparr>) f \<lparr>frame_data = d, frame_page = p, pin_count = 1, is_dirty = False\<rparr>)\<lparr>page_table := t\<rparr>) xs"
    "pool_holds H ((set_frame (s\<lparr>disk_manager := dk\<rparr>) f \<lparr>frame_data = d, frame_page = p, pin_count = 1, is_dirty = False\<rparr>)\<lparr>page_table := t\<rparr>) A"
proof -
  note o = pool_onD [OF ho]
  obtain d where d: "ReadPage (disk_manager s) p (frame_data (frame_at s f)) = Inr (disk_manager s, d)"
    "\<forall>e. stored (disk_manager s) p e \<longrightarrow> page_bytes d = e" by (rule ReadPage_ok [where d = "frame_data (frame_at s f)", OF o(3) p(1)])
  let ?pg = "\<lparr>frame_data = d, frame_page = p, pin_count = 1, is_dirty = False\<rparr>"
  have same: "s\<lparr>disk_manager := disk_manager s\<rparr> = s" by simp
  have "page_bytes d = e" if "A p = Some e" for e
    using pool_holdsD [OF h that] d(2) by (simp add: page_held_absent [OF p(3)])
  then obtain t where "ht_insert H (page_table s) p f = Inr t" "pool_ok H tok rel ((set_frame s f ?pg)\<lparr>page_table := t\<rparr>) xs"
    "pool_holds H ((set_frame s f ?pg)\<lparr>page_table := t\<rparr>) A" "ht_find H t p = Some f"
    using install [OF ho h f(1,2), of ?pg] p by auto
  then show ?thesis using d(1) same by (intro that [of "disk_manager s" d t]) simp_all
qed

lemma fetch_free:
  assumes ok: "pool_ok H tok rel s xs" and h: "pool_holds H s A" and len: "length (frames s) \<le> cap"
    and p: "page_ok p" "p < next_page_id (disk_manager s)" "ht_find H (page_table s) p = None" and fl: "free_list s = f # fs"
  shows "\<exists>s'. FetchPage H R s p = Inr (s', Some f) \<and> fetched H tok rel A p f s' \<and> length (frames s') = length (frames s)"
proof -
  let ?s = "s\<lparr>free_list := fs\<rparr>"
  note fr = pool_on_free [OF ok fl]
  obtain u where u: "ht_remove H (page_table ?s) INVALID_PAGE_ID = (u, ht_find H (page_table ?s) INVALID_PAGE_ID \<noteq> None)" "tok u"
    "ht_find H u = (ht_find H (page_table ?s))(INVALID_PAGE_ID := None)"
    using remove_cases [OF pool_onD(1) [OF fr(1)], of INVALID_PAGE_ID] by metis
  have "ht_find H (page_table s) INVALID_PAGE_ID = None" using pool_onD(5) [OF ok, of INVALID_PAGE_ID] by (cases "ht_find H (page_table s) INVALID_PAGE_ID") auto
  then have find: "ht_find H u = ht_find H (page_table s)" using u(3) by auto
  let ?u = "?s\<lparr>page_table := u\<rparr>"
  have "pool_on (\<lambda>g. g \<noteq> f) H tok rel ?u xs" using fr(1) u(2) find by (auto simp: pool_on_def table_ok_def frame_ok_def Let_def)
  moreover have "pool_holds H ?u A" using h find by (simp add: pool_holds_def page_held_def cong: option.case_cong)
  ultimately obtain dk d t where r: "ReadPage (disk_manager ?u) p (frame_data (frame_at ?u f)) = Inr (dk, d)"
    "ht_insert H (page_table ?u) p f = Inr t" "ht_find H t p = Some f"
    "pool_ok H tok rel ((set_frame (?u\<lparr>disk_manager := dk\<rparr>) f \<lparr>frame_data = d, frame_page = p, pin_count = 1, is_dirty = False\<rparr>)\<lparr>page_table := t\<rparr>) xs"
    "pool_holds H ((set_frame (?u\<lparr>disk_manager := dk\<rparr>) f \<lparr>frame_data = d, frame_page = p, pin_count = 1, is_dirty = False\<rparr>)\<lparr>page_table := t\<rparr>) A"
    by (rule fetch_read [where p = p]) (use fr len p find in auto)
  show ?thesis
    using r fr(2-5) u(1) p(3) fl
    by (auto simp: FetchPage_def take_frame_def fetched_def set_frame_def)
qed

lemma fetch_victim:
  assumes ok: "pool_ok H tok rel s (f # ys)" and h: "pool_holds H s A" and len: "length (frames s) \<le> cap"
    and p: "page_ok p" "p < next_page_id (disk_manager s)" "ht_find H (page_table s) p = None"
    and fl: "free_list s = []" and v: "rp_victim R (replacer s) = (r, Some f)" "rel r ys" "distinct (f # ys)"
  shows "\<exists>s'. FetchPage H R s p = Inr (s', Some f) \<and> fetched H tok rel A p f s' \<and> length (frames s') = length (frames s)"
proof -
  note o = pool_onD [OF ok]
  let ?q = "frame_page (frame_at s f)"
  have f: "f < length (frames s)" "?q \<noteq> INVALID_PAGE_ID" "pin_count (frame_at s f) = 0" using o(7) [of f] by auto
  have q: "page_ok ?q" using o(8) [OF f(1)] f(2) by (simp add: frame_ok_def Let_def)
  obtain dk where dk: "disk_ok dk" "next_page_id dk = next_page_id (disk_manager s)"
    "\<forall>q e. q \<noteq> ?q \<longrightarrow> stored (disk_manager s) q e \<longrightarrow> stored dk q e"
    "stored dk ?q (page_bytes (frame_data (frame_at s f))) \<or> dk = disk_manager s \<and> \<not> is_dirty (frame_at s f)"
    "(if is_dirty (frame_at s f) then write_back (s\<lparr>replacer := r\<rparr>) f else Inr (s\<lparr>replacer := r\<rparr>)) = Inr (s\<lparr>replacer := r, disk_manager := dk\<rparr>)"
  proof (cases "is_dirty (frame_at s f)")
    case True
    obtain dk' where "WritePage (disk_manager s) ?q (frame_data (frame_at s f)) = Inr dk'" "disk_ok dk'" "stored dk' ?q (page_bytes (frame_data (frame_at s f)))"
      "\<forall>q e. q \<noteq> ?q \<longrightarrow> stored (disk_manager s) q e \<longrightarrow> stored dk' q e" "next_page_id dk' = next_page_id (disk_manager s)"
      by (rule WritePage_ok [where d = "frame_data (frame_at s f)", OF o(3) q])
    with True show ?thesis by (intro that [of dk']) (simp_all add: write_back_def)
  next
    case False
    then show ?thesis using o(3) by (intro that [of "disk_manager s"]) simp_all
  qed
  obtain u where u: "ht_remove H (page_table s) ?q = (u, ht_find H (page_table s) ?q \<noteq> None)" "tok u"
    "ht_find H u = (ht_find H (page_table s))(?q := None)" using remove_cases [OF o(1), of ?q] by metis
  let ?u = "s\<lparr>replacer := r, disk_manager := dk, page_table := u\<rparr>"
  have "pool_on (\<lambda>g. g \<noteq> f) H tok rel ?u ys" by (rule pool_on_victim [OF ok v(3,2) dk(1,2) u(2,3)])
  moreover have "pool_holds H ?u A" by (rule pool_holds_victim [OF ok h u(3) dk(3,4)])
  ultimately obtain dk' d t where rd: "ReadPage (disk_manager ?u) p (frame_data (frame_at ?u f)) = Inr (dk', d)"
    "ht_insert H (page_table ?u) p f = Inr t" "ht_find H t p = Some f"
    "pool_ok H tok rel ((set_frame (?u\<lparr>disk_manager := dk'\<rparr>) f \<lparr>frame_data = d, frame_page = p, pin_count = 1, is_dirty = False\<rparr>)\<lparr>page_table := t\<rparr>) ys"
    "pool_holds H ((set_frame (?u\<lparr>disk_manager := dk'\<rparr>) f \<lparr>frame_data = d, frame_page = p, pin_count = 1, is_dirty = False\<rparr>)\<lparr>page_table := t\<rparr>) A"
    by (rule fetch_read [where p = p]) (use f len p u(3) dk(2) in auto)
  have "FetchPage H R s p = Inr ((set_frame (?u\<lparr>disk_manager := dk'\<rparr>) f \<lparr>frame_data = d, frame_page = p, pin_count = 1, is_dirty = False\<rparr>)\<lparr>page_table := t\<rparr>, Some f)"
    using rd(1,2) f(3) u(1) p(3) fl v(1) dk(5) by (simp add: FetchPage_def take_frame_def set_frame_def)
  with rd(3-5) f(1) show ?thesis by (auto simp: fetched_def set_frame_def)
qed

lemma fetch_ok:
  assumes ok: "pool_ok H tok rel s xs" and h: "pool_holds H s A" and len: "length (frames s) \<le> cap"
    and p: "page_ok p" "p < next_page_id (disk_manager s)"
    and pinned: "\<And>f. ht_find H (page_table s) p = Some f \<Longrightarrow> 0 < pin_count (frame_at s f)"
  shows "(\<exists>s' f. FetchPage H R s p = Inr (s', Some f) \<and> fetched H tok rel A p f s' \<and> length (frames s') = length (frames s))
    \<or> FetchPage H R s p = Inr (s, None) \<and> (\<forall>f < length (frames s). 0 < pin_count (frame_at s f))"
proof (cases "ht_find H (page_table s) p")
  case (Some f)
  note hit = fetch_hit [OF ok h Some pinned [OF Some]]
  have "f < length (frames s)" using pool_onD(5) [OF ok] Some by simp
  then show ?thesis using hit Some pinned [OF Some] by (auto simp: fetched_def)
next
  case None
  from ok show ?thesis
  proof (cases rule: take_frame_cases)
    case none
    then have "FetchPage H R s p = Inr (s, None)" using None by (simp add: FetchPage_def)
    moreover have "0 < pin_count (frame_at s f)" if f: "f < length (frames s)" for f
      using pool_onD(6,7) [OF ok, of f] none f pool_onD(8) [OF ok f] by (auto simp: frame_ok_def Let_def)
    ultimately show ?thesis by blast
  next
    case (free f fs)
    then show ?thesis using fetch_free [OF ok h len p None free(2)] by blast
  next
    case (victim f ys r)
    then show ?thesis using fetch_victim [OF ok [unfolded victim(3)] h len p None victim(2,4,5,6)] by blast
  qed
qed

subsection \<open>UnpinPage\<close>

lemma unpinned_room:
  assumes ok: "pool_ok H tok rel s xs" and f: "0 < pin_count (frame_at s f)" and len: "card (waiting s) < room"
  shows "f \<notin> set xs" "length xs < room"
proof -
  show "f \<notin> set xs" using pool_onD(7) [OF ok, of f] f by auto
  have "set xs = waiting s" using pool_onD(7) [OF ok] by (auto simp: waiting_def)
  then show "length xs < room" using len distinct_card [OF rel_distinct [OF pool_onD(2) [OF ok]]] by simp
qed

lemma unpin_ok:
  assumes ok: "pool_ok H tok rel s xs" and h: "pool_holds H s A" and len: "card (waiting s) < room"
    and p: "ht_find H (page_table s) p = Some f" and pin: "0 < pin_count (frame_at s f)"
    and clean: "dirty \<or> 1 < pin_count (frame_at s f) \<or> (\<forall>d. A p = Some d \<longrightarrow> stored (disk_manager s) p d)"
  shows "\<exists>s' xs'. UnpinPage H R s p dirty = Inr (s', True) \<and> pool_ok H tok rel s' xs' \<and> pool_holds H s' A
    \<and> length (frames s') = length (frames s) \<and> pin_count (frame_at s' f) = pin_count (frame_at s f) - 1
    \<and> disk_manager s' = disk_manager s"
proof -
  note o = pool_onD [OF ok]
  let ?pg = "(frame_at s f)\<lparr>is_dirty := dirty, pin_count := pin_count (frame_at s f) - 1\<rparr>"
  have f: "f < length (frames s)" "frame_page (frame_at s f) = p" "p \<noteq> INVALID_PAGE_ID" using o(5) p by auto
  show ?thesis
  proof (cases "pin_count (frame_at s f) = 1")
    case False
    then have "0 < pin_count ?pg" using pin by simp
    with touch_pinned [OF ok h p pin, of ?pg] f(2) have t: "pool_ok H tok rel (set_frame s f ?pg) xs" "pool_holds H (set_frame s f ?pg) A"
      by simp_all
    have "UnpinPage H R s p dirty = Inr (set_frame s f ?pg, True)" using p pin False by (simp add: UnpinPage_def Let_def)
    with t f(1) show ?thesis by (intro exI [of _ "set_frame s f ?pg"] exI [of _ xs]) simp
  next
    case True
    note room = unpinned_room [OF ok pin len]
    obtain r where r: "rp_insert R (replacer s) f = Inr r" "rel r (xs @ [f])" by (rule insert_new [OF o(2) room])
    let ?s = "(set_frame s f ?pg)\<lparr>replacer := r\<rparr>"
    have fr: "frame_at ?s g = (if g = f then ?pg else frame_at s g)" "length (frames ?s) = length (frames s)" for g
      using f(1) by (auto simp: set_frame_def)
    have u: "UnpinPage H R s p dirty = Inr (?s, True)" using p True r(1) by (simp add: UnpinPage_def Let_def)
    have "table_ok H ?s (\<lambda>_. True)" unfolding table_ok_def fr using o(5) f by auto
    moreover have "frame_ok ?s g" if "g < length (frames s)" for g
      using o(8) [OF that] o(8) [OF f(1)] f True unfolding frame_ok_def fr by (auto simp: Let_def)
    ultimately have ok': "pool_ok H tok rel ?s (xs @ [f])"
      using o(1,3,4,6,7,9) r(2) f True room(1) unfolding pool_on_def fr by auto
    have "pool_holds H ?s A"
    proof (rule pool_holdsI)
      fix q d assume a: "A q = Some d"
      then have hq: "page_held H s q d" by (rule pool_holdsD [OF h])
      show "page_held H ?s q d"
      proof (cases "q = p")
        case True
        then have "ht_find H (page_table ?s) q = Some f" using p by simp
        then show ?thesis using hq p True a clean f(1) \<open>pin_count (frame_at s f) = 1\<close> by (auto simp: page_held_def set_frame_def)
      next
        case False
        have ne: "g \<noteq> f" if "ht_find H (page_table s) q = Some g" for g using o(5) f False that by auto
        show ?thesis by (rule page_held_other [OF hq]) (auto simp: set_frame_def dest: ne)
      qed
    qed
    with u ok' show ?thesis using True f(1) by (intro exI [of _ ?s] exI [of _ "xs @ [f]"]) (simp add: fr)
  qed
qed

subsection \<open>FlushPage and NewPage\<close>

lemma write_back_ok:
  assumes ok: "pool_ok H tok rel s xs" and h: "pool_holds H s A" and f: "f < length (frames s)" "frame_page (frame_at s f) \<noteq> INVALID_PAGE_ID"
  obtains dk where "write_back s f = Inr (s\<lparr>disk_manager := dk\<rparr>)" "disk_ok dk" "next_page_id dk = next_page_id (disk_manager s)"
    "stored dk (frame_page (frame_at s f)) (page_bytes (frame_data (frame_at s f)))"
    "\<forall>q e. q \<noteq> frame_page (frame_at s f) \<longrightarrow> stored (disk_manager s) q e \<longrightarrow> stored dk q e"
    "pool_ok H tok rel (s\<lparr>disk_manager := dk\<rparr>) xs" "pool_holds H (s\<lparr>disk_manager := dk\<rparr>) A"
proof -
  note o = pool_onD [OF ok]
  let ?q = "frame_page (frame_at s f)"
  have q: "page_ok ?q" "ht_find H (page_table s) ?q = Some f"
    using o(8) [OF f(1)] f o(5) by (simp_all add: frame_ok_def Let_def)
  obtain dk where dk: "WritePage (disk_manager s) ?q (frame_data (frame_at s f)) = Inr dk" "disk_ok dk"
    "stored dk ?q (page_bytes (frame_data (frame_at s f)))"
    "\<forall>q e. q \<noteq> ?q \<longrightarrow> stored (disk_manager s) q e \<longrightarrow> stored dk q e" "next_page_id dk = next_page_id (disk_manager s)"
    by (rule WritePage_ok [where d = "frame_data (frame_at s f)", OF o(3) q(1)])
  let ?s = "s\<lparr>disk_manager := dk\<rparr>"
  have ok': "pool_ok H tok rel ?s xs" using ok dk(2,5) by (auto simp: pool_on_def table_ok_def frame_ok_def Let_def)
  have "pool_holds H ?s A"
  proof (rule pool_holdsI)
    fix p d assume "A p = Some d"
    then have hp: "page_held H s p d" by (rule pool_holdsD [OF h])
    show "page_held H ?s p d"
      by (rule page_held_other [OF hp]) (use dk(3,4) hp q(2) in \<open>auto simp: page_held_def dest: spec [of _ p]\<close>)
  qed
  with dk ok' show ?thesis by (intro that [of dk]) (simp_all add: write_back_def)
qed

lemma clean_frame:
  assumes ok: "pool_ok H tok rel s xs" and h: "pool_holds H s A" and p: "ht_find H (page_table s) p = Some f"
    and st: "stored (disk_manager s) p (page_bytes (frame_data (frame_at s f)))"
  shows "pool_ok H tok rel (set_frame s f ((frame_at s f)\<lparr>is_dirty := False\<rparr>)) xs"
    and "pool_holds H (set_frame s f ((frame_at s f)\<lparr>is_dirty := False\<rparr>)) A"
proof -
  let ?s = "set_frame s f ((frame_at s f)\<lparr>is_dirty := False\<rparr>)"
  note o = pool_onD [OF ok]
  have f: "f < length (frames s)" "frame_page (frame_at s f) = p" "p \<noteq> INVALID_PAGE_ID" using o(5) p by auto
  have fr: "frame_at ?s g = (if g = f then (frame_at s f)\<lparr>is_dirty := False\<rparr> else frame_at s g)" for g using f by auto
  have "table_ok H ?s (\<lambda>_. True)" unfolding table_ok_def fr using o(5) f by auto
  moreover have "frame_ok ?s g" if "g < length (frames s)" for g
    using o(8) [OF that] o(8) [OF f(1)] f unfolding frame_ok_def fr by (auto simp: Let_def)
  ultimately show "pool_ok H tok rel ?s xs" using o(1-4,6,7,9) f unfolding pool_on_def fr by auto
  show "pool_holds H ?s A"
  proof (rule pool_holdsI)
    fix q d assume "A q = Some d"
    then have hq: "page_held H s q d" by (rule pool_holdsD [OF h])
    show "page_held H ?s q d"
    proof (cases "q = p")
      case True
      then show ?thesis using hq st f p by (simp add: page_held_def)
    next
      case False
      have ne: "g \<noteq> f" if "ht_find H (page_table s) q = Some g" for g using o(5) f False that by auto
      show ?thesis by (rule page_held_other [OF hq]) (auto dest: ne)
    qed
  qed
qed

lemma flush_ok:
  assumes ok: "pool_ok H tok rel s xs" and h: "pool_holds H s A" and p: "ht_find H (page_table s) p = Some f"
  shows "\<exists>dk. FlushPage H s p = Inr (set_frame (s\<lparr>disk_manager := dk\<rparr>) f ((frame_at s f)\<lparr>is_dirty := False\<rparr>), True)
    \<and> pool_ok H tok rel (set_frame (s\<lparr>disk_manager := dk\<rparr>) f ((frame_at s f)\<lparr>is_dirty := False\<rparr>)) xs
    \<and> pool_holds H (set_frame (s\<lparr>disk_manager := dk\<rparr>) f ((frame_at s f)\<lparr>is_dirty := False\<rparr>)) A
    \<and> stored dk p (page_bytes (frame_data (frame_at s f))) \<and> next_page_id dk = next_page_id (disk_manager s)"
proof -
  note o = pool_onD [OF ok]
  have f: "f < length (frames s)" "frame_page (frame_at s f) \<noteq> INVALID_PAGE_ID" "frame_page (frame_at s f) = p" using o(5) p by auto
  obtain dk where dk: "write_back s f = Inr (s\<lparr>disk_manager := dk\<rparr>)" "disk_ok dk" "next_page_id dk = next_page_id (disk_manager s)"
    "stored dk (frame_page (frame_at s f)) (page_bytes (frame_data (frame_at s f)))"
    "\<forall>q e. q \<noteq> frame_page (frame_at s f) \<longrightarrow> stored (disk_manager s) q e \<longrightarrow> stored dk q e"
    "pool_ok H tok rel (s\<lparr>disk_manager := dk\<rparr>) xs" "pool_holds H (s\<lparr>disk_manager := dk\<rparr>) A"
    by (rule write_back_ok [OF ok h f(1,2)])
  have "ht_find H (page_table (s\<lparr>disk_manager := dk\<rparr>)) p = Some f" using p by simp
  from clean_frame [OF dk(6,7) this] dk p f show ?thesis by (intro exI [of _ dk]) (simp add: FlushPage_def)
qed

lemma new_install:
  assumes ho: "pool_on (\<lambda>g. g \<noteq> f) H tok rel s xs" and h: "pool_holds H s A"
    and f: "f < length (frames s)" "length (frames s) \<le> cap" "pin_count (frame_at s f) = 0"
    and p: "page_ok p" "p < next_page_id (disk_manager s)" "ht_find H (page_table s) p = None"
  shows "\<exists>t. ht_insert H (page_table s) p f = Inr t
    \<and> fetched H tok rel (A(p \<mapsto> replicate 4096 0)) p f
        ((set_frame s f ((ResetMemory (frame_at s f))\<lparr>pin_count := pin_count (ResetMemory (frame_at s f)) + 1, frame_page := p\<rparr>))\<lparr>page_table := t\<rparr>)"
proof -
  let ?pg = "(ResetMemory (frame_at s f))\<lparr>pin_count := pin_count (ResetMemory (frame_at s f)) + 1, frame_page := p\<rparr>"
  have b: "page_bytes (frame_data ?pg) = replicate 4096 0"
    by (simp add: page_bytes_def ResetMemory_def memset_def PAGE_SIZE_def mem_simps)
  have pin: "pin_count ?pg = 1" using f(3) by (simp add: ResetMemory_def)
  let ?A = "A(p := None)"
  have "pool_holds H s ?A" using h by (auto simp: pool_holds_def)
  then obtain t where t: "ht_insert H (page_table s) p f = Inr t" "pool_ok H tok rel ((set_frame s f ?pg)\<lparr>page_table := t\<rparr>) xs"
    "pool_holds H ((set_frame s f ?pg)\<lparr>page_table := t\<rparr>) ?A" "ht_find H t p = Some f"
    using install [OF ho _ f(1,2), of ?A ?pg] p pin by auto
  let ?s = "(set_frame s f ?pg)\<lparr>page_table := t\<rparr>"
  have held: "page_held H ?s p (replicate 4096 0)"
    unfolding page_held_def using t(4) b pin f(1) by simp
  have "pool_holds H ?s (A(p \<mapsto> replicate 4096 0))"
  proof (rule pool_holdsI)
    fix q d assume "(A(p \<mapsto> replicate 4096 0)) q = Some d"
    then show "page_held H ?s q d" using held pool_holdsD [OF t(3), of q d] by (auto split: if_splits)
  qed
  with t show ?thesis using pin f(1) unfolding fetched_def by (intro exI [of _ t]) auto
qed

lemma allocate_ok:
  assumes ok: "pool_ok H tok rel s xs" and h: "pool_holds H s A"
  defines "s' \<equiv> s\<lparr>disk_manager := (disk_manager s)\<lparr>next_page_id := next_page_id (disk_manager s) + 1\<rparr>\<rparr>"
  shows "pool_ok H tok rel s' xs" and "pool_holds H s' A" and "ht_find H (page_table s') (next_page_id (disk_manager s)) = None"
proof -
  note o = pool_onD [OF ok]
  have st: "stored (dk\<lparr>next_page_id := n\<rparr>) p d \<longleftrightarrow> stored dk p d" for dk n p d by (simp add: stored_def)
  have "disk_ok (disk_manager s')" using o(3) by (simp add: s'_def disk_ok_def)
  moreover have "frame_ok s' f" if "f < length (frames s)" for f using o(8) [OF that] by (auto simp: s'_def frame_ok_def Let_def)
  ultimately show "pool_ok H tok rel s' xs" using ok o(9) by (simp add: s'_def pool_on_def table_ok_def)
  show "pool_holds H s' A" using h by (simp add: s'_def pool_holds_def page_held_def st cong: option.case_cong)
  show "ht_find H (page_table s') (next_page_id (disk_manager s)) = None"
  proof (rule ccontr)
    assume "ht_find H (page_table s') (next_page_id (disk_manager s)) \<noteq> None"
    then obtain f where f: "f < length (frames s)" "frame_page (frame_at s f) = next_page_id (disk_manager s)"
      "frame_page (frame_at s f) \<noteq> INVALID_PAGE_ID"
      using o(5) by (auto simp: s'_def)
    then show False using o(8) [OF f(1)] by (simp add: frame_ok_def Let_def)
  qed
qed

lemma new_free:
  assumes ok: "pool_ok H tok rel s xs" and h: "pool_holds H s A" and len: "length (frames s) \<le> cap"
    and p: "page_ok (next_page_id (disk_manager s))" and fl: "free_list s = f # fs"
  shows "\<exists>s'. NewPage H R s = Inr (s', next_page_id (disk_manager s), Some f)
    \<and> fetched H tok rel (A(next_page_id (disk_manager s) \<mapsto> replicate 4096 0)) (next_page_id (disk_manager s)) f s'
    \<and> length (frames s') = length (frames s)"
proof -
  let ?p = "next_page_id (disk_manager s)"
  let ?s = "s\<lparr>disk_manager := (disk_manager s)\<lparr>next_page_id := ?p + 1\<rparr>\<rparr>"
  note al = allocate_ok [OF ok h]
  have fl': "free_list ?s = f # fs" using fl by simp
  note fr = pool_on_free [OF al(1) fl']
  have h': "pool_holds H (?s\<lparr>free_list := fs\<rparr>) A" using al(2) by (simp add: pool_holds_free)
  obtain t where t: "ht_insert H (page_table (?s\<lparr>free_list := fs\<rparr>)) ?p f = Inr t"
    "fetched H tok rel (A(?p \<mapsto> replicate 4096 0)) ?p f ((set_frame (?s\<lparr>free_list := fs\<rparr>) f
       ((ResetMemory (frame_at (?s\<lparr>free_list := fs\<rparr>) f))\<lparr>pin_count := pin_count (ResetMemory (frame_at (?s\<lparr>free_list := fs\<rparr>) f)) + 1, frame_page := ?p\<rparr>))\<lparr>page_table := t\<rparr>)"
    using new_install [OF fr(1) h', of ?p] fr(2,4) len p al(3) by auto
  then show ?thesis using fl
    by (auto simp: NewPage_def AllocatePage_def take_frame_def Let_def set_frame_def)
qed

lemma new_victim:
  assumes ok: "pool_ok H tok rel s (f # ys)" and h: "pool_holds H s A" and len: "length (frames s) \<le> cap"
    and p: "page_ok (next_page_id (disk_manager s))" and fl: "free_list s = []"
    and v: "rp_victim R (replacer s) = (r, Some f)" "rel r ys" "distinct (f # ys)"
  shows "\<exists>s'. NewPage H R s = Inr (s', next_page_id (disk_manager s), Some f)
    \<and> fetched H tok rel (A(next_page_id (disk_manager s) \<mapsto> replicate 4096 0)) (next_page_id (disk_manager s)) f s'
    \<and> length (frames s') = length (frames s)"
proof -
  let ?p = "next_page_id (disk_manager s)"
  let ?s = "s\<lparr>disk_manager := (disk_manager s)\<lparr>next_page_id := ?p + 1\<rparr>\<rparr>"
  note al = allocate_ok [OF ok h]
  note o = pool_onD [OF al(1)]
  let ?q = "frame_page (frame_at ?s f)"
  have f: "f < length (frames ?s)" "?q \<noteq> INVALID_PAGE_ID" "pin_count (frame_at ?s f) = 0" using o(7) [of f] by auto
  have q: "page_ok ?q" "ht_find H (page_table ?s) ?q = Some f" using o(8) [OF f(1)] o(5) f by (simp_all add: frame_ok_def Let_def)
  obtain dk where dk: "WritePage (disk_manager ?s) ?q (frame_data (frame_at ?s f)) = Inr dk" "disk_ok dk"
    "stored dk ?q (page_bytes (frame_data (frame_at ?s f)))"
    "\<forall>q e. q \<noteq> ?q \<longrightarrow> stored (disk_manager ?s) q e \<longrightarrow> stored dk q e" "next_page_id dk = next_page_id (disk_manager ?s)"
    by (rule WritePage_ok [where d = "frame_data (frame_at ?s f)", OF o(3) q(1)])
  obtain u where u: "ht_remove H (page_table ?s) ?q = (u, ht_find H (page_table ?s) ?q \<noteq> None)" "tok u"
    "ht_find H u = (ht_find H (page_table ?s))(?q := None)" using remove_cases [OF o(1), of ?q] by metis
  let ?v = "?s\<lparr>replacer := r, disk_manager := dk, page_table := u\<rparr>"
  let ?w = "set_frame ?v f ((frame_at ?s f)\<lparr>is_dirty := False\<rparr>)"
  have v': "pool_on (\<lambda>g. g \<noteq> f) H tok rel ?v ys" by (rule pool_on_victim [OF al(1) v(3,2) dk(2,5) u(2,3)])
  have hv: "pool_holds H ?v A" by (rule pool_holds_victim [OF al(1,2) u(3) dk(4)]) (use dk(3) in simp)
  have w: "f < length (frames ?w)" "length (frames ?w) \<le> cap" "pin_count (frame_at ?w f) = 0"
    "?p < next_page_id (disk_manager ?w)" "ht_find H (page_table ?w) ?p = None"
    using f len dk(5) al(3) u(3) by simp_all
  obtain t where t: "ht_insert H (page_table ?w) ?p f = Inr t"
    "fetched H tok rel (A(?p \<mapsto> replicate 4096 0)) ?p f ((set_frame ?w f
       ((ResetMemory (frame_at ?w f))\<lparr>pin_count := pin_count (ResetMemory (frame_at ?w f)) + 1, frame_page := ?p\<rparr>))\<lparr>page_table := t\<rparr>)"
    using new_install [OF pool_on_set_frame [OF v'] pool_holds_set_frame [OF v' hv] w(1-3) p w(4,5)] by blast
  have "NewPage H R s = Inr ((set_frame ?w f
       ((ResetMemory (frame_at ?w f))\<lparr>pin_count := pin_count (ResetMemory (frame_at ?w f)) + 1, frame_page := ?p\<rparr>))\<lparr>page_table := t\<rparr>, ?p, Some f)"
    using t(1) u(1) dk(1) q(2) f v(1) fl
    by (simp add: NewPage_def AllocatePage_def take_frame_def FlushPage_def write_back_def Let_def set_frame_def)
  with t(2) show ?thesis by (auto simp: set_frame_def)
qed

lemma new_ok:
  assumes ok: "pool_ok H tok rel s xs" and h: "pool_holds H s A" and len: "length (frames s) \<le> cap"
    and p: "page_ok (next_page_id (disk_manager s))"
  defines "p \<equiv> next_page_id (disk_manager s)"
  shows "(\<exists>s' f. NewPage H R s = Inr (s', p, Some f) \<and> fetched H tok rel (A(p \<mapsto> replicate 4096 0)) p f s' \<and> length (frames s') = length (frames s))
    \<or> (\<exists>s'. NewPage H R s = Inr (s', p, None) \<and> pool_ok H tok rel s' xs \<and> pool_holds H s' A \<and> frames s' = frames s
        \<and> (\<forall>f < length (frames s). 0 < pin_count (frame_at s f)))"
  using ok
proof (cases rule: take_frame_cases)
  case none
  let ?s = "s\<lparr>disk_manager := (disk_manager s)\<lparr>next_page_id := next_page_id (disk_manager s) + 1\<rparr>\<rparr>"
  have "rp_victim R (replacer s) = (replacer s, None)" using victim_Nil pool_onD(2) [OF ok] none(3) by simp
  then have "NewPage H R s = Inr (?s, p, None)" using none(2) by (simp add: NewPage_def AllocatePage_def take_frame_def p_def)
  moreover have "0 < pin_count (frame_at s f)" if f: "f < length (frames s)" for f
    using pool_onD(6,7) [OF ok, of f] none f pool_onD(8) [OF ok f] by (auto simp: frame_ok_def Let_def)
  ultimately show ?thesis using allocate_ok [OF ok h] by auto
next
  case (free f fs)
  then show ?thesis using new_free [OF ok h len p free(2)] by (auto simp: p_def)
next
  case (victim f ys r)
  then show ?thesis using new_victim [OF ok [unfolded victim(3)] h len p victim(2,4,5,6)] by (auto simp: p_def)
qed

subsection \<open>FlushAllPages\<close>

lemma flush_loop_ok:
  assumes "pool_ok H tok rel s xs" and "pool_holds H s A" and "\<forall>i \<in> set is. i < length (frames s)"
  shows "\<exists>dk. flush_loop s is = Inr (s\<lparr>disk_manager := dk\<rparr>)
    \<and> (\<forall>i \<in> set is. is_dirty (frame_at s i) \<longrightarrow> stored dk (frame_page (frame_at s i)) (page_bytes (frame_data (frame_at s i))))
    \<and> (\<forall>q e. stored (disk_manager s) q e \<longrightarrow> (\<forall>f < length (frames s). frame_page (frame_at s f) = q \<longrightarrow> page_bytes (frame_data (frame_at s f)) = e)
          \<longrightarrow> stored dk q e)"
  using assms
proof (induction "is" arbitrary: s)
  case Nil
  then show ?case by (intro exI [of _ "disk_manager s"]) simp
next
  case (Cons i "is")
  note o = pool_onD [OF Cons.prems(1)]
  show ?case
  proof (cases "is_dirty (frame_at s i)")
    case False
    then show ?thesis using Cons by simp
  next
    case True
    have i: "i < length (frames s)" "frame_page (frame_at s i) \<noteq> INVALID_PAGE_ID"
      using Cons.prems(3) o(8) [of i] True by (auto simp: frame_ok_def Let_def)
    obtain dk where dk: "write_back s i = Inr (s\<lparr>disk_manager := dk\<rparr>)"
      "stored dk (frame_page (frame_at s i)) (page_bytes (frame_data (frame_at s i)))"
      "\<forall>q e. q \<noteq> frame_page (frame_at s i) \<longrightarrow> stored (disk_manager s) q e \<longrightarrow> stored dk q e"
      "pool_ok H tok rel (s\<lparr>disk_manager := dk\<rparr>) xs" "pool_holds H (s\<lparr>disk_manager := dk\<rparr>) A"
      by (rule write_back_ok [OF Cons.prems(1,2) i])
    have one: "frame_page (frame_at s f) = frame_page (frame_at s i) \<longleftrightarrow> f = i" if "f < length (frames s)" for f
      using o(5) [of "frame_page (frame_at s i)" f] o(5) [of "frame_page (frame_at s i)" i] i that by auto
    obtain dk' where dk': "flush_loop (s\<lparr>disk_manager := dk\<rparr>) is = Inr (s\<lparr>disk_manager := dk'\<rparr>)"
      "\<forall>j \<in> set is. is_dirty (frame_at s j) \<longrightarrow> stored dk' (frame_page (frame_at s j)) (page_bytes (frame_data (frame_at s j)))"
      "\<forall>q e. stored dk q e \<longrightarrow> (\<forall>f < length (frames s). frame_page (frame_at s f) = q \<longrightarrow> page_bytes (frame_data (frame_at s f)) = e)
          \<longrightarrow> stored dk' q e"
      using Cons.IH [OF dk(4,5)] Cons.prems(3) by auto
    have "stored dk' (frame_page (frame_at s i)) (page_bytes (frame_data (frame_at s i)))" using dk'(3) dk(2) one by blast
    moreover have "stored dk q e" if "stored (disk_manager s) q e"
      "\<forall>f < length (frames s). frame_page (frame_at s f) = q \<longrightarrow> page_bytes (frame_data (frame_at s f)) = e" for q e
      using dk(2,3) that i(1) by (cases "q = frame_page (frame_at s i)") auto
    ultimately show ?thesis using True dk(1) dk' by (intro exI [of _ dk']) auto
  qed
qed

lemma flush_all_ok:
  assumes ok: "pool_ok H tok rel s xs" and h: "pool_holds H s A"
  shows "\<exists>dk. FlushAllPages s = Inr (s\<lparr>disk_manager := dk\<rparr>)
    \<and> (\<forall>p d. page_ok p \<longrightarrow> A p = Some d \<longrightarrow> (\<forall>f. ht_find H (page_table s) p = Some f \<longrightarrow> pin_count (frame_at s f) = 0 \<or> is_dirty (frame_at s f)) \<longrightarrow> stored dk p d)"
proof -
  note o = pool_onD [OF ok]
  obtain dk where dk: "flush_loop s [0..<length (frames s)] = Inr (s\<lparr>disk_manager := dk\<rparr>)"
    "\<forall>i < length (frames s). is_dirty (frame_at s i) \<longrightarrow> stored dk (frame_page (frame_at s i)) (page_bytes (frame_data (frame_at s i)))"
    "\<forall>q e. stored (disk_manager s) q e \<longrightarrow> (\<forall>f < length (frames s). frame_page (frame_at s f) = q \<longrightarrow> page_bytes (frame_data (frame_at s f)) = e)
       \<longrightarrow> stored dk q e" using flush_loop_ok [OF ok h, of "[0..<length (frames s)]"] by auto
  have "stored dk p d" if p: "page_ok p" and a: "A p = Some d"
    and pin: "\<forall>f. ht_find H (page_table s) p = Some f \<longrightarrow> pin_count (frame_at s f) = 0 \<or> is_dirty (frame_at s f)" for p d
  proof (cases "ht_find H (page_table s) p")
    case (Some f)
    then have f: "f < length (frames s)" "frame_page (frame_at s f) = p" "p \<noteq> INVALID_PAGE_ID" using o(5) by auto
    have "page_bytes (frame_data (frame_at s f)) = d" "is_dirty (frame_at s f) \<or> stored (disk_manager s) p d"
      using pool_holdsD [OF h a] Some pin by (auto simp: page_held_def)
    moreover have "g = f" if "g < length (frames s)" "frame_page (frame_at s g) = p" for g
      using o(5) [of p g] o(5) [of p f] f that by auto
    ultimately show ?thesis using dk(2,3) f by blast
  next
    case None
    have "p \<noteq> INVALID_PAGE_ID" using p by (simp add: page_ok_def INVALID_PAGE_ID_def)
    then have "frame_page (frame_at s g) \<noteq> p" if "g < length (frames s)" for g using o(5) [of p g] that None by auto
    moreover have "stored (disk_manager s) p d" using pool_holdsD [OF h a] None by (simp add: page_held_def)
    ultimately show ?thesis using dk(3) by blast
  qed
  with dk(1) show ?thesis by (auto simp: FlushAllPages_def)
qed

end

subsection \<open>Clients\<close>

text \<open>What a client may do: fetch a page that it created and that is not waiting in the replacer, write to a page it has
  pinned, unpin a page (as clean only when the file has its contents, and only while fewer than \<open>w\<close> pages wait in the
  replacer), flush, and create pages.\<close>

inductive client :: "('t, int, nat) hash_table \<Rightarrow> ('r, nat) replacer_class \<Rightarrow> nat \<Rightarrow> ('t, 'r) pool \<times> contents \<Rightarrow> ('t, 'r) pool \<times> contents \<Rightarrow> bool"
  for H R w where
  fetch: "FetchPage H R s p = Inr (s', r) \<Longrightarrow> page_ok p \<Longrightarrow> p < next_page_id (disk_manager s) \<Longrightarrow>
    \<forall>f. ht_find H (page_table s) p = Some f \<longrightarrow> 0 < pin_count (frame_at s f) \<Longrightarrow> client H R w (s, A) (s', A)"
| put: "ht_find H (page_table s) p = Some f \<Longrightarrow> 0 < pin_count (frame_at s f) \<Longrightarrow>
    client H R w (s, A) (set_frame s f ((frame_at s f)\<lparr>frame_data := d\<rparr>), A(p \<mapsto> page_bytes d))"
| unpin: "UnpinPage H R s p dirty = Inr (s', b) \<Longrightarrow> dirty \<or> (\<forall>d. A p = Some d \<longrightarrow> stored (disk_manager s) p d) \<Longrightarrow>
    card (waiting s) < w \<Longrightarrow> client H R w (s, A) (s', A)"
| flush: "FlushPage H s p = Inr (s', b) \<Longrightarrow> client H R w (s, A) (s', A)"
| new: "NewPage H R s = Inr (s', p, r) \<Longrightarrow> page_ok (next_page_id (disk_manager s)) \<Longrightarrow>
    client H R w (s, A) (s', if r = None then A else A(p \<mapsto> replicate 4096 0))"

definition client_inv :: "('t, int, nat) hash_table \<Rightarrow> ('t \<Rightarrow> bool) \<Rightarrow> ('r \<Rightarrow> nat list \<Rightarrow> bool) \<Rightarrow> nat \<Rightarrow> ('t, 'r) pool \<times> contents \<Rightarrow> bool" where
  "client_inv H tok rel n c \<longleftrightarrow> (\<exists>xs. pool_ok H tok rel (fst c) xs) \<and> pool_holds H (fst c) (snd c) \<and> length (frames (fst c)) = n"

context pool_parts
begin

lemma client_step:
  assumes "client H R room c c'" and "client_inv H tok rel n c" and n: "n \<le> cap"
  shows "client_inv H tok rel n c'"
  using assms(1,2)
proof (cases rule: client.cases)
  case (fetch s p s' r A)
  obtain xs where ok: "pool_ok H tok rel s xs" "pool_holds H s A" "length (frames s) = n"
    using assms(2) fetch by (auto simp: client_inv_def)
  from fetch_ok [OF ok(1,2) _ fetch(4,5)] fetch(3,6) ok n show ?thesis
    by (auto simp: client_inv_def fetch(2) fetched_def)
next
  case (put s p f A d)
  obtain xs where ok: "pool_ok H tok rel s xs" "pool_holds H s A" "length (frames s) = n"
    using assms(2) put by (auto simp: client_inv_def)
  have "frame_page (frame_at s f) = p" using pool_onD(5) [OF ok(1)] put(3) by simp
  with touch_pinned(1) [OF ok(1,2) put(3,4), of "(frame_at s f)\<lparr>frame_data := d\<rparr>"]
    touch_pinned(2) [OF ok(1,2) put(3,4), of "(frame_at s f)\<lparr>frame_data := d\<rparr>" "A(p \<mapsto> page_bytes d)"] put(4) ok(3)
  show ?thesis by (auto simp: client_inv_def put(2))
next
  case (unpin s p dirty s' b A)
  obtain xs where ok: "pool_ok H tok rel s xs" "pool_holds H s A" "length (frames s) = n"
    using assms(2) unpin by (auto simp: client_inv_def)
  show ?thesis
  proof (cases "\<exists>f. ht_find H (page_table s) p = Some f \<and> 0 < pin_count (frame_at s f)")
    case True
    then obtain f where f: "ht_find H (page_table s) p = Some f" "0 < pin_count (frame_at s f)" by blast
    from unpin_ok [OF ok(1,2) unpin(5) f, of dirty] unpin(3,4) ok n show ?thesis by (auto simp: client_inv_def unpin(2))
  next
    case False
    then have "s' = s" using unpin(3) by (auto simp: UnpinPage_def Let_def split: option.splits if_splits)
    with ok show ?thesis by (auto simp: client_inv_def unpin(2))
  qed
next
  case (flush s p s' b A)
  obtain xs where ok: "pool_ok H tok rel s xs" "pool_holds H s A" "length (frames s) = n"
    using assms(2) flush by (auto simp: client_inv_def)
  show ?thesis
  proof (cases "ht_find H (page_table s) p")
    case None
    then have "s' = s" using flush(3) by (auto simp: FlushPage_def split: if_splits)
    with ok show ?thesis by (auto simp: client_inv_def flush(2))
  next
    case (Some f)
    from flush_ok [OF ok(1,2) Some] flush(3) ok(3) show ?thesis by (auto simp: client_inv_def flush(2))
  qed
next
  case (new s s' p r A)
  obtain xs where ok: "pool_ok H tok rel s xs" "pool_holds H s A" "length (frames s) = n"
    using assms(2) new by (auto simp: client_inv_def)
  from new_ok [OF ok(1,2) _ new(4)] new(3) ok n show ?thesis
    by (auto simp: client_inv_def new(2) fetched_def)
qed

lemma clients_inv:
  assumes "(client H R room)\<^sup>*\<^sup>* c c'" and "client_inv H tok rel n c" and "n \<le> cap"
  shows "client_inv H tok rel n c'"
  using assms(1,2) by (induction rule: rtranclp_induct) (auto intro: client_step assms(3))

lemma new_pool_inv:
  assumes "tok t" and "ht_find H t = Map.empty" and "rel r []"
  shows "client_inv H tok rel n (new_pool n t r new_disk, Map.empty)"
  using assms
  by (auto simp: client_inv_def pool_on_def table_ok_def frame_ok_def pool_holds_def new_pool_def new_frame_def new_disk_def
      disk_ok_def PAGE_SIZE_def)

text \<open>The eviction of the front of the replacer by a fetch, whatever the invariant says about the frame.\<close>

lemma evict_front:
  assumes fl: "free_list s = []" and v: "rp_victim R (replacer s) = (r, Some f)" and f: "f < length (frames s)"
    and t: "tok (page_table s)" "card (dom ((ht_find H (page_table s))(frame_page (frame_at s f) := None))) < cap"
    and q: "page_ok q" "ht_find H (page_table s) q = None"
    and dk: "disk_ok (disk_manager s)" "page_ok (frame_page (frame_at s f))"
  obtains s' where "FetchPage H R s q = Inr (s', Some f)" "frame_page (frame_at s' f) = q"
    "pin_count (frame_at s' f) = pin_count (frame_at s f) + 1" "replacer s' = r" "free_list s' = []"
    "ht_find H (page_table s') = (ht_find H (page_table s))(frame_page (frame_at s f) := None, q \<mapsto> f)"
    "\<not> is_dirty (frame_at s f) \<longrightarrow> disk_manager s' = disk_manager s"
proof -
  let ?q = "frame_page (frame_at s f)"
  obtain dk' where dk': "disk_ok dk'" "\<not> is_dirty (frame_at s f) \<longrightarrow> dk' = disk_manager s"
    "(if is_dirty (frame_at s f) then write_back (s\<lparr>replacer := r\<rparr>) f else Inr (s\<lparr>replacer := r\<rparr>)) = Inr (s\<lparr>replacer := r, disk_manager := dk'\<rparr>)"
  proof (cases "is_dirty (frame_at s f)")
    case True
    obtain d where "WritePage (disk_manager s) ?q (frame_data (frame_at s f)) = Inr d" "disk_ok d"
      by (rule WritePage_ok [where d = "frame_data (frame_at s f)", OF dk])
    with True show ?thesis by (intro that [of d]) (simp_all add: write_back_def)
  qed (use dk in \<open>auto intro: that [of "disk_manager s"]\<close>)
  obtain u where u: "ht_remove H (page_table s) ?q = (u, ht_find H (page_table s) ?q \<noteq> None)" "tok u"
    "ht_find H u = (ht_find H (page_table s))(?q := None)" using remove_cases [OF t(1), of ?q] by metis
  obtain d where d: "ReadPage dk' q (frame_data (frame_at s f)) = Inr (dk', d)"
    by (rule ReadPage_ok [where d = "frame_data (frame_at s f)", OF dk'(1) q(1)])
  obtain w where w: "ht_insert H u q f = Inr w" "ht_find H w = (ht_find H u)(q \<mapsto> f)"
    using insert_cases [OF u(2), of q f] t(2) q(2) u(3) by (metis (no_types, lifting) fun_upd_other fun_upd_same)
  let ?s = "(set_frame (s\<lparr>replacer := r, disk_manager := dk', page_table := u\<rparr>) f
    \<lparr>frame_data = d, frame_page = q, pin_count = pin_count (frame_at s f) + 1, is_dirty = False\<rparr>)\<lparr>page_table := w\<rparr>"
  have "FetchPage H R s q = Inr (?s, Some f)"
    using fl v dk'(3) u(1) d w(1) q(2) by (simp add: FetchPage_def take_frame_def set_frame_def)
  then show ?thesis using f fl w(2) u(3) dk'(2) by (intro that [of ?s]) (simp_all add: set_frame_def)
qed

lemma table_card:
  assumes ok: "pool_ok H tok rel s xs" and len: "length (frames s) \<le> cap" and p: "ht_find H (page_table s) p = Some f"
  shows "card (dom ((ht_find H (page_table s))(p := None))) < cap"
proof (rule card_remove)
  show "tok (page_table s)" by (rule pool_onD(1) [OF ok])
  show "ht_find H (page_table s) p \<noteq> None" using p by simp
  have "dom (ht_find H (page_table s)) \<subseteq> (\<lambda>g. frame_page (frame_at s g)) ` {..<length (frames s)}"
    using pool_onD(5) [OF ok] by (auto simp: dom_def)
  then have "card (dom (ht_find H (page_table s))) \<le> card {..<length (frames s)}"
    by (meson card_image_le card_mono finite_imageI finite_lessThan order_trans)
  then show "card (dom (ht_find H (page_table s))) \<le> cap" using len by simp
qed

text \<open>A page that is fetched again while it waits in the replacer stays there.\<close>

lemma hit_then_evict:
  assumes ok: "pool_ok H tok rel s (f # ys)" and len: "length (frames s) \<le> cap" and fl: "free_list s = []"
    and p: "ht_find H (page_table s) p = Some f" and q: "page_ok q" "ht_find H (page_table s) q = None"
  shows "\<exists>s1 s2. FetchPage H R s p = Inr (s1, Some f) \<and> pin_count (frame_at s1 f) = 1 \<and> FetchPage H R s1 q = Inr (s2, Some f)
    \<and> frame_page (frame_at s2 f) = q \<and> pin_count (frame_at s2 f) = 2 \<and> ht_find H (page_table s2) p = None"
proof -
  note o = pool_onD [OF ok]
  have f: "f < length (frames s)" "pin_count (frame_at s f) = 0" "frame_page (frame_at s f) = p" "p \<noteq> INVALID_PAGE_ID" "page_ok p"
    using o(7) [of f] o(5) [of p f] o(8) [of f] p by (auto simp: frame_ok_def Let_def)
  let ?s = "set_frame s f ((frame_at s f)\<lparr>pin_count := 1\<rparr>)"
  have s1: "FetchPage H R s p = Inr (?s, Some f)" using p f(2) by (simp add: FetchPage_def)
  obtain r where r: "rp_victim R (replacer s) = (r, Some f)" by (rule victim_Cons [OF o(2)])
  have pre: "free_list ?s = []" "rp_victim R (replacer ?s) = (r, Some f)" "f < length (frames ?s)" "tok (page_table ?s)"
    "card (dom ((ht_find H (page_table ?s))(frame_page (frame_at ?s f) := None))) < cap"
    "ht_find H (page_table ?s) q = None" "disk_ok (disk_manager ?s)" "page_ok (frame_page (frame_at ?s f))"
    using fl r f o(1,3) table_card [OF ok len p] q by simp_all
  obtain s2 where "FetchPage H R ?s q = Inr (s2, Some f)" "frame_page (frame_at s2 f) = q"
    "pin_count (frame_at s2 f) = pin_count (frame_at ?s f) + 1"
    "ht_find H (page_table s2) = (ht_find H (page_table ?s))(frame_page (frame_at ?s f) := None, q \<mapsto> f)"
    by (rule evict_front [OF pre(1-5) q(1) pre(6-8)])
  moreover have "p \<noteq> q" using p q(2) by auto
  ultimately show ?thesis using s1 f by (intro exI [of _ ?s] exI [of _ s2]) simp
qed

text \<open>A page that is dirty and is unpinned as clean is evicted without being written.\<close>

lemma unpin_then_evict:
  assumes ok: "pool_ok H tok rel s []" and len: "length (frames s) \<le> cap" "length (frames s) \<le> room" and fl: "free_list s = []"
    and p: "ht_find H (page_table s) p = Some f" "pin_count (frame_at s f) = 1" and q: "page_ok q" "ht_find H (page_table s) q = None"
  shows "\<exists>s1 s2. UnpinPage H R s p False = Inr (s1, True) \<and> FetchPage H R s1 q = Inr (s2, Some f)
    \<and> ht_find H (page_table s2) p = None \<and> disk_manager s2 = disk_manager s"
proof -
  note o = pool_onD [OF ok]
  have f: "f < length (frames s)" "frame_page (frame_at s f) = p" "p \<noteq> INVALID_PAGE_ID" "page_ok p"
    using o(5) [of p f] o(8) [of f] p by (auto simp: frame_ok_def Let_def)
  have pin: "0 < pin_count (frame_at s f)" using p(2) by simp
  note room = unpinned_room [OF ok pin waiting_less [OF f(1) pin len(2)]]
  obtain r where r: "rp_insert R (replacer s) f = Inr r" "rel r ([] @ [f])" by (rule insert_new [OF o(2) room])
  let ?s = "(set_frame s f ((frame_at s f)\<lparr>is_dirty := False, pin_count := 0\<rparr>))\<lparr>replacer := r\<rparr>"
  have u: "UnpinPage H R s p False = Inr (?s, True)" using p r(1) by (simp add: UnpinPage_def Let_def)
  obtain r' where "rp_victim R r = (r', Some f)" using victim_Cons [of r f "[]"] r(2) by auto
  then have pre: "free_list ?s = []" "rp_victim R (replacer ?s) = (r', Some f)" "f < length (frames ?s)" "tok (page_table ?s)"
    "card (dom ((ht_find H (page_table ?s))(frame_page (frame_at ?s f) := None))) < cap"
    "ht_find H (page_table ?s) q = None" "disk_ok (disk_manager ?s)" "page_ok (frame_page (frame_at ?s f))" "\<not> is_dirty (frame_at ?s f)"
    using fl f o(1,3) table_card [OF ok len(1) p(1)] q by (simp_all add: set_frame_def)
  obtain s2 where "FetchPage H R ?s q = Inr (s2, Some f)"
    "ht_find H (page_table s2) = (ht_find H (page_table ?s))(frame_page (frame_at ?s f) := None, q \<mapsto> f)"
    "\<not> is_dirty (frame_at ?s f) \<longrightarrow> disk_manager s2 = disk_manager ?s"
    by (rule evict_front [OF pre(1-5) q(1) pre(6-8)])
  moreover have "p \<noteq> q" using p q(2) by auto
  ultimately show ?thesis using u f pre(9) by (intro exI [of _ ?s] exI [of _ s2]) (simp add: set_frame_def)
qed

end

end
