(* ===== verification/Table_Page_Correct.thy ===== *)
theory Table_Page_Correct
  imports Table_Page
begin

section \<open>A slotted page implements a list of slots\<close>

text \<open>
  The abstract page is the list of its slots, each empty or holding the bytes of a tuple. The invariant relates it
  to the bytes of the page: the tuples lie between the free space pointer and the end of the page without
  overlapping and without gaps in the accounting, and every slot names the place of its tuple.
\<close>

type_synonym slots = "u8 list option list"

definition slot_size :: "u8 list option \<Rightarrow> int" where
  "slot_size v = (case v of None \<Rightarrow> 0 | Some bs \<Rightarrow> int (length bs))"

definition used_space :: "slots \<Rightarrow> int" where
  "used_space vs = sum_list (map slot_size vs)"

definition free_space :: "slots \<Rightarrow> int" where
  "free_space vs = PAGE_SIZE - used_space vs - 20 - int (length vs) * 8"

text \<open>The first empty slot, or the number of slots.\<close>

fun first_free :: "slots \<Rightarrow> nat" where
  "first_free [] = 0"
| "first_free (v # vs) = (if v = None then 0 else Suc (first_free vs))"

definition slots_insert :: "slots \<Rightarrow> u8 list \<Rightarrow> (slots \<times> nat) option" where
  "slots_insert vs bs =
     (if free_space vs < int (length bs) then None
      else if first_free vs < length vs then Some (vs[first_free vs := Some bs], first_free vs)
      else if free_space vs < int (length bs) + 8 then None
      else Some (vs @ [Some bs], length vs))"

definition slot_at :: "slots \<Rightarrow> nat \<Rightarrow> u8 list option" where
  "slot_at vs i = (if i < length vs then vs ! i else None)"

subsection \<open>The fields as numbers\<close>

definition fsp_of :: "bytes \<Rightarrow> int" where "fsp_of d = sint (load32 d 12)"
definition count_of :: "bytes \<Rightarrow> int" where "count_of d = sint (load32 d 16)"
definition off_of :: "bytes \<Rightarrow> nat \<Rightarrow> int" where "off_of d i = sint (load32 d (20 + 8 * int i))"
definition size_of :: "bytes \<Rightarrow> nat \<Rightarrow> int" where "size_of d i = sint (load32 d (24 + 8 * int i))"
definition set_off :: "bytes \<Rightarrow> nat \<Rightarrow> int \<Rightarrow> bytes" where "set_off d i v = store32 d (20 + 8 * int i) (word_of_int v)"
definition put_size :: "bytes \<Rightarrow> nat \<Rightarrow> int \<Rightarrow> bytes" where "put_size d i v = store32 d (24 + 8 * int i) (word_of_int v)"
definition set_fsp :: "bytes \<Rightarrow> int \<Rightarrow> bytes" where "set_fsp d v = store32 d 12 (word_of_int v)"
definition set_count :: "bytes \<Rightarrow> int \<Rightarrow> bytes" where "set_count d v = store32 d 16 (word_of_int v)"
definition links_of :: "bytes \<Rightarrow> u32 list" where "links_of d = [load32 d 0, load32 d 4, load32 d 8]"

lemmas num_defs = fsp_of_def count_of_def off_of_def size_of_def set_off_def put_size_def set_fsp_def set_count_def links_of_def

abbreviation int32 :: "int \<Rightarrow> bool" where
  "int32 v \<equiv> - (2 ^ 31) \<le> v \<and> v < 2 ^ 31"

lemma set_fsp_simps [page_simps]:
  "int32 v \<Longrightarrow> fsp_of (set_fsp d v) = v" "count_of (set_fsp d v) = count_of d" "off_of (set_fsp d v) i = off_of d i"
  "size_of (set_fsp d v) i = size_of d i" "links_of (set_fsp d v) = links_of d"
  "16 \<le> p \<Longrightarrow> read_mem (set_fsp d v) p n = read_mem d p n"
  by (simp_all add: num_defs mem_simps sint_int32)

lemma set_count_simps [page_simps]:
  "int32 v \<Longrightarrow> count_of (set_count d v) = v" "fsp_of (set_count d v) = fsp_of d" "off_of (set_count d v) i = off_of d i"
  "size_of (set_count d v) i = size_of d i" "links_of (set_count d v) = links_of d"
  "20 \<le> p \<Longrightarrow> read_mem (set_count d v) p n = read_mem d p n"
  by (simp_all add: num_defs mem_simps sint_int32)

lemma slot_apart:
  "i \<noteq> j \<Longrightarrow> 8 * int i + 4 \<le> 8 * int j \<or> 8 * int j + 4 \<le> 8 * int i"
  "8 * int i \<le> 8 * int j \<or> 8 * int j + 8 \<le> 8 * int i"
  by presburger+

lemma set_off_simps [page_simps]:
  "int32 v \<Longrightarrow> off_of (set_off d i v) j = (if i = j then v else off_of d j)" "size_of (set_off d i v) j = size_of d j"
  "fsp_of (set_off d i v) = fsp_of d" "count_of (set_off d i v) = count_of d" "links_of (set_off d i v) = links_of d"
  "24 + 8 * int i \<le> p \<Longrightarrow> read_mem (set_off d i v) p n = read_mem d p n"
  using slot_apart(1) [of i j] slot_apart(2) [of i j] by (auto simp: num_defs mem_simps sint_int32)

lemma put_size_simps [page_simps]:
  "int32 v \<Longrightarrow> size_of (put_size d i v) j = (if i = j then v else size_of d j)" "off_of (put_size d i v) j = off_of d j"
  "fsp_of (put_size d i v) = fsp_of d" "count_of (put_size d i v) = count_of d" "links_of (put_size d i v) = links_of d"
  "28 + 8 * int i \<le> p \<Longrightarrow> read_mem (put_size d i v) p n = read_mem d p n"
  using slot_apart(1) [of i j] slot_apart(2) [of j i] by (auto simp: num_defs mem_simps sint_int32)

text \<open>Bytes written above the slots.\<close>

lemma write_above [page_simps]:
  "20 \<le> p \<Longrightarrow> fsp_of (write_mem d p bs) = fsp_of d" "20 \<le> p \<Longrightarrow> count_of (write_mem d p bs) = count_of d"
  "20 \<le> p \<Longrightarrow> links_of (write_mem d p bs) = links_of d"
  "28 + 8 * int i \<le> p \<Longrightarrow> off_of (write_mem d p bs) i = off_of d i"
  "28 + 8 * int i \<le> p \<Longrightarrow> size_of (write_mem d p bs) i = size_of d i"
  by (simp_all add: num_defs mem_simps)

lemma memcpy_above [page_simps]:
  "20 \<le> p \<Longrightarrow> fsp_of (memcpy d p q n) = fsp_of d" "20 \<le> p \<Longrightarrow> count_of (memcpy d p q n) = count_of d"
  "20 \<le> p \<Longrightarrow> links_of (memcpy d p q n) = links_of d"
  "28 + 8 * int i \<le> p \<Longrightarrow> off_of (memcpy d p q n) i = off_of d i"
  "28 + 8 * int i \<le> p \<Longrightarrow> size_of (memcpy d p q n) i = size_of d i"
  by (simp_all add: memcpy_def page_simps)

lemma get_fields [simp]:
  "GetFreeSpacePointer d = Inr (fsp_of d)" "GetTupleCount d = Inr (count_of d)" "GetPageId d = Inr (sint (links_of d ! 0))"
  "SetFreeSpacePointer d v = Inr (set_fsp d v)" "SetTupleCount d v = Inr (set_count d v)"
  by (simp_all add: field_defs num_defs in_page_def PAGE_SIZE_def)

lemma slot_fields [simp]:
  assumes "28 + 8 * int i \<le> PAGE_SIZE"
  shows "GetTupleOffset d (int i) = Inr (off_of d i)" "GetTupleSize d (int i) = Inr (size_of d i)"
    "SetTupleOffset d (int i) v = Inr (set_off d i v)" "SetTupleSize d (int i) v = Inr (put_size d i v)"
  using assms by (simp_all add: field_defs num_defs in_page_def)

subsection \<open>The invariant\<close>

definition tslot_ok :: "bytes \<Rightarrow> nat \<Rightarrow> u8 list option \<Rightarrow> bool" where
  "tslot_ok d i v =
     (case v of None \<Rightarrow> size_of d i = 0
      | Some bs \<Rightarrow> bs \<noteq> [] \<and> size_of d i = int (length bs) \<and> fsp_of d \<le> off_of d i
          \<and> off_of d i + int (length bs) \<le> PAGE_SIZE \<and> read_mem d (off_of d i) (length bs) = bs)"

definition tuples_apart :: "bytes \<Rightarrow> nat \<Rightarrow> nat \<Rightarrow> bool" where
  "tuples_apart d i j \<longleftrightarrow> off_of d i + size_of d i \<le> off_of d j \<or> off_of d j + size_of d j \<le> off_of d i"

definition holds_slots :: "bytes \<Rightarrow> slots \<Rightarrow> bool" where
  "holds_slots d vs \<longleftrightarrow>
     count_of d = int (length vs) \<and> fsp_of d = PAGE_SIZE - used_space vs \<and> 0 \<le> free_space vs
     \<and> (\<forall>i < length vs. tslot_ok d i (vs ! i))
     \<and> (\<forall>i < length vs. \<forall>j < length vs. i \<noteq> j \<longrightarrow> vs ! i \<noteq> None \<longrightarrow> vs ! j \<noteq> None \<longrightarrow> tuples_apart d i j)"

lemma slot_size_ge [simp]: "0 \<le> slot_size v"
  by (simp add: slot_size_def split: option.split)

lemma used_ge [simp]: "0 \<le> used_space vs"
  by (auto simp: used_space_def intro!: sum_list_nonneg)

lemma used_update:
  "i < length vs \<Longrightarrow> used_space (vs[i := v]) = used_space vs - slot_size (vs ! i) + slot_size v"
  by (induction vs arbitrary: i) (auto simp: used_space_def nth_Cons' list_update.simps split: nat.split)

lemma used_space_append: "used_space (vs @ [v]) = used_space vs + slot_size v"
  by (simp add: used_space_def)

lemma holds_bounds:
  assumes "holds_slots d vs"
  shows "fsp_of d \<le> PAGE_SIZE" "20 + 8 * int (length vs) \<le> fsp_of d" "count_of d = int (length vs)" "length vs < 512"
    "\<And>i. i < length vs \<Longrightarrow> 28 + 8 * int i \<le> fsp_of d" "\<And>i. i < length vs \<Longrightarrow> tslot_ok d i (vs ! i)"
proof -
  have h: "fsp_of d = 4096 - used_space vs" "0 \<le> 4076 - used_space vs - int (length vs) * 8" "count_of d = int (length vs)"
    "\<forall>i < length vs. tslot_ok d i (vs ! i)"
    using assms by (simp_all add: holds_slots_def free_space_def PAGE_SIZE_def)
  have "int (length vs) * 8 < 4096" using h(2) used_ge [of vs] by linarith
  then show "length vs < 512" by linarith
  show "fsp_of d \<le> PAGE_SIZE" "20 + 8 * int (length vs) \<le> fsp_of d" "count_of d = int (length vs)"
    "\<And>i. i < length vs \<Longrightarrow> 28 + 8 * int i \<le> fsp_of d" "\<And>i. i < length vs \<Longrightarrow> tslot_ok d i (vs ! i)"
    using h used_ge [of vs] by (auto simp: PAGE_SIZE_def)
qed

lemma GetFreeSpaceSize_holds: "holds_slots d vs \<Longrightarrow> GetFreeSpaceSize d = Inr (free_space vs)"
  using holds_bounds [of d vs] by (simp add: GetFreeSpaceSize_def PAGE_SIZE_def) (simp add: holds_slots_def free_space_def)

lemma tslot_ok_size: "tslot_ok d i v \<Longrightarrow> size_of d i = slot_size v" "tslot_ok d i v \<Longrightarrow> size_of d i \<le> 0 \<longleftrightarrow> v = None"
  by (auto simp: tslot_ok_def slot_size_def split: option.splits)

lemma first_free_le: "first_free vs \<le> length vs"
  by (induction vs) auto

lemma first_free_None: "first_free vs < length vs \<Longrightarrow> vs ! first_free vs = None"
  by (induction vs) auto

text \<open>What a write must keep of a slot for it to hold its tuple, with the tuple possibly moved.\<close>

lemma tslot_ok_mono:
  assumes "tslot_ok d i v" "fsp_of d' \<le> fsp_of d" "off_of d' i = off_of d i" "size_of d' i = size_of d i"
    "\<And>n. fsp_of d \<le> off_of d i \<Longrightarrow> read_mem d' (off_of d i) n = read_mem d (off_of d i) n"
  shows "tslot_ok d' i v"
  using assms by (auto simp: tslot_ok_def split: option.splits)

subsection \<open>Scanning the slots\<close>

lemma scan_slots_free:
  "\<lbrakk>\<And>j. j < length vs \<Longrightarrow> 28 + 8 * int (i + j) \<le> PAGE_SIZE \<and> tslot_ok d (i + j) (vs ! j)\<rbrakk>
    \<Longrightarrow> scan_slots (\<lambda>sz. sz \<le> 0) d (int i) (length vs) = Inr (int (i + first_free vs))"
proof (induction vs arbitrary: i)
  case (Cons v vs)
  have "28 + 8 * int i \<le> PAGE_SIZE" "tslot_ok d i v" using Cons.prems [of 0] by auto
  moreover have "scan_slots (\<lambda>sz. sz \<le> 0) d (int (Suc i)) (length vs) = Inr (int (Suc i + first_free vs))"
    by (rule Cons.IH) (use Cons.prems [of "Suc _"] in auto)
  ultimately show ?case using tslot_ok_size(2) [of d i v] by (simp add: add.commute)
qed simp

lemma scan_slots_used:
  "\<lbrakk>\<And>j. j < length vs \<Longrightarrow> 28 + 8 * int (i + j) \<le> PAGE_SIZE \<and> tslot_ok d (i + j) (vs ! j)\<rbrakk>
    \<Longrightarrow> scan_slots (\<lambda>sz. sz > 0) d (int i) (length vs) = Inr (int (i + length (takeWhile (\<lambda>v. v = None) vs)))"
proof (induction vs arbitrary: i)
  case (Cons v vs)
  have "28 + 8 * int i \<le> PAGE_SIZE" "tslot_ok d i v" using Cons.prems [of 0] by auto
  moreover have "scan_slots (\<lambda>sz. sz > 0) d (int (Suc i)) (length vs) = Inr (int (Suc i + length (takeWhile (\<lambda>v. v = None) vs)))"
    by (rule Cons.IH) (use Cons.prems [of "Suc _"] in auto)
  ultimately show ?case using tslot_ok_size(2) [of d i v] by (auto simp: add.commute)
qed simp

subsection \<open>Insertion\<close>

text \<open>The page after a tuple has been stored in slot \<open>i\<close>.\<close>

definition stored_tuple :: "bytes \<Rightarrow> nat \<Rightarrow> u8 list \<Rightarrow> bytes" where
  "stored_tuple d i bs =
     (let fsp = fsp_of d - int (length bs)
      in put_size (set_off (write_mem (set_fsp d fsp) fsp bs) i fsp) i (int (length bs)))"

lemma stored_tuple_fields:
  assumes "bs \<noteq> []" "28 + 8 * int i \<le> fsp_of d - int (length bs)" "fsp_of d \<le> PAGE_SIZE"
  shows "fsp_of (stored_tuple d i bs) = fsp_of d - int (length bs)" "count_of (stored_tuple d i bs) = count_of d"
    "links_of (stored_tuple d i bs) = links_of d"
    "off_of (stored_tuple d i bs) i = fsp_of d - int (length bs)" "size_of (stored_tuple d i bs) i = int (length bs)"
    "read_mem (stored_tuple d i bs) (fsp_of d - int (length bs)) (length bs) = bs"
    "fsp_of d \<le> p \<Longrightarrow> read_mem (stored_tuple d i bs) p n = read_mem d p n"
  using assms by (simp_all add: stored_tuple_def Let_def page_simps mem_simps PAGE_SIZE_def)

lemma stored_tuple_other:
  assumes "bs \<noteq> []" "28 + 8 * int i \<le> fsp_of d - int (length bs)" "28 + 8 * int j \<le> fsp_of d - int (length bs)" "fsp_of d \<le> PAGE_SIZE" "j \<noteq> i"
  shows "off_of (stored_tuple d i bs) j = off_of d j" "size_of (stored_tuple d i bs) j = size_of d j"
  using assms by (simp_all add: stored_tuple_def Let_def page_simps PAGE_SIZE_def)

text \<open>Storing a tuple in an empty slot, or in the slot after the last one.\<close>

lemma stored_tuple_slot_ok:
  assumes h: "holds_slots d vs" and bs: "bs \<noteq> []" and n: "n = length vs \<or> n = Suc (length vs)" and i: "i < n"
    and free: "int (length bs) \<le> PAGE_SIZE - used_space vs - 20 - 8 * int n" and j: "j < length vs" "j \<noteq> i"
  shows "tslot_ok (stored_tuple d i bs) j (vs ! j)"
    "off_of (stored_tuple d i bs) j = off_of d j" "size_of (stored_tuple d i bs) j = size_of d j"
    "tuples_apart (stored_tuple d i bs) i j \<or> vs ! j = None"
proof -
  note b = holds_bounds [OF h]
  have f: "28 + 8 * int i \<le> fsp_of d - int (length bs)" "28 + 8 * int j \<le> fsp_of d - int (length bs)"
    using free i j n h by (auto simp: holds_slots_def)
  note o = stored_tuple_other [OF bs f b(1) j(2)] and s = stored_tuple_fields [OF bs f(1) b(1)]
  show "off_of (stored_tuple d i bs) j = off_of d j" "size_of (stored_tuple d i bs) j = size_of d j" by (rule o)+
  show "tslot_ok (stored_tuple d i bs) j (vs ! j)"
    by (rule tslot_ok_mono [OF b(6) [OF j(1)]]) (use o s in auto)
  show "tuples_apart (stored_tuple d i bs) i j \<or> vs ! j = None"
    using b(6) [OF j(1)] by (auto simp: tuples_apart_def o s tslot_ok_def split: option.splits)
qed

lemma tuples_apart_sym: "tuples_apart d i j \<Longrightarrow> tuples_apart d j i"
  by (auto simp: tuples_apart_def)

lemma stored_tuple_reuse:
  assumes h: "holds_slots d vs" and bs: "bs \<noteq> []" and i: "i < length vs" "vs ! i = None" and free: "int (length bs) \<le> free_space vs"
  shows "holds_slots (stored_tuple d i bs) (vs[i := Some bs])" "links_of (stored_tuple d i bs) = links_of d"
proof -
  note b = holds_bounds [OF h]
  have fr: "int (length bs) \<le> PAGE_SIZE - used_space vs - 20 - 8 * int (length vs)" using free by (simp add: free_space_def)
  then have f: "28 + 8 * int i \<le> fsp_of d - int (length bs)" using i h by (auto simp: holds_slots_def)
  note s = stored_tuple_fields [OF bs f b(1)] and o = stored_tuple_slot_ok [OF h bs _ i(1) fr]
  show "links_of (stored_tuple d i bs) = links_of d" by (rule s)
  have u: "used_space (vs[i := Some bs]) = used_space vs + int (length bs)" using i by (simp add: used_update slot_size_def)
  have ok: "tslot_ok (stored_tuple d i bs) j (vs[i := Some bs] ! j)" if "j < length vs" for j
    using o(1) [of j] that i s bs b(1) by (cases "j = i") (auto simp: tslot_ok_def)
  have ap: "tuples_apart (stored_tuple d i bs) j k"
    if j: "j < length vs" "k < length vs" "j \<noteq> k" "vs[i := Some bs] ! j \<noteq> None" "vs[i := Some bs] ! k \<noteq> None" for j k
  proof -
    consider "j = i" | "k = i" | "j \<noteq> i" "k \<noteq> i" by blast
    then show ?thesis
    proof cases
      case 1 then show ?thesis using o(4) [of k] j by auto
    next
      case 2 then show ?thesis using o(4) [of j] j by (auto intro: tuples_apart_sym)
    next
      case 3
      then have "tuples_apart d j k" using h j by (simp add: holds_slots_def)
      then show ?thesis using o(2,3) [of j] o(2,3) [of k] j 3 by (simp add: tuples_apart_def)
    qed
  qed
  show "holds_slots (stored_tuple d i bs) (vs[i := Some bs])"
    using ok ap s(1,2) u h fr by (auto simp: holds_slots_def free_space_def)
qed

lemma set_count_slots:
  assumes "20 \<le> fsp_of d"
  shows "tslot_ok (set_count d v) i x \<longleftrightarrow> tslot_ok d i x" "tuples_apart (set_count d v) i j \<longleftrightarrow> tuples_apart d i j"
  using assms by (auto simp: tslot_ok_def tuples_apart_def page_simps split: option.splits)

lemma stored_tuple_append:
  assumes h: "holds_slots d vs" and bs: "bs \<noteq> []" and free: "int (length bs) + 8 \<le> free_space vs"
  defines "d' \<equiv> set_count (stored_tuple d (length vs) bs) (int (length vs) + 1)"
  shows "holds_slots d' (vs @ [Some bs])" "links_of d' = links_of d"
proof -
  note b = holds_bounds [OF h]
  have fr: "int (length bs) \<le> PAGE_SIZE - used_space vs - 20 - 8 * int (Suc (length vs))" using free by (simp add: free_space_def)
  then have f: "28 + 8 * int (length vs) \<le> fsp_of d - int (length bs)" using h by (auto simp: holds_slots_def)
  note s = stored_tuple_fields [OF bs f b(1)] and o = stored_tuple_slot_ok [OF h bs _ lessI fr]
  show "links_of d' = links_of d" by (simp add: d'_def page_simps s)
  have fsp: "20 \<le> fsp_of (stored_tuple d (length vs) bs)" using f by (simp add: s)
  have u: "used_space (vs @ [Some bs]) = used_space vs + int (length bs)" by (simp add: used_space_append slot_size_def)
  have ok: "tslot_ok d' j ((vs @ [Some bs]) ! j)" if "j < Suc (length vs)" for j
  proof -
    have "tslot_ok (stored_tuple d (length vs) bs) j ((vs @ [Some bs]) ! j)"
      using o(1) [of j] that s bs b(1) by (cases "j = length vs") (auto simp: tslot_ok_def nth_append)
    then show ?thesis by (simp add: d'_def set_count_slots [OF fsp])
  qed
  have ap: "tuples_apart d' j k"
    if j: "j < Suc (length vs)" "k < Suc (length vs)" "j \<noteq> k" "(vs @ [Some bs]) ! j \<noteq> None" "(vs @ [Some bs]) ! k \<noteq> None" for j k
  proof -
    consider "j = length vs" "k < length vs" | "k = length vs" "j < length vs" | "j < length vs" "k < length vs" using j by linarith
    then show ?thesis
    proof cases
      case 1 then show ?thesis using o(4) [of k] j by (auto simp: d'_def set_count_slots [OF fsp] nth_append)
    next
      case 2 then show ?thesis using o(4) [of j] j by (auto simp: d'_def set_count_slots [OF fsp] nth_append intro: tuples_apart_sym)
    next
      case 3
      then have "tuples_apart d j k" using h j by (simp add: holds_slots_def nth_append)
      then show ?thesis using o(2,3) [of j] o(2,3) [of k] 3 by (simp add: d'_def tuples_apart_def page_simps)
    qed
  qed
  have c: "count_of d' = int (length vs) + 1" "fsp_of d' = fsp_of d - int (length bs)"
    using b(4) by (simp_all add: d'_def page_simps s)
  show "holds_slots d' (vs @ [Some bs])"
    using ok ap c u h fr by (auto simp: holds_slots_def free_space_def)
qed

lemma InsertTuple_holds:
  assumes h: "holds_slots d vs" and bs: "bs \<noteq> []" "int (length bs) < 2 ^ 30"
  shows "case slots_insert vs bs of
      None \<Rightarrow> InsertTuple d bs = Inr (d, None)
    | Some (vs', i) \<Rightarrow> \<exists>d'. InsertTuple d bs = Inr (d', Some \<lparr>rid_page = sint (links_of d ! 0), rid_slot = int i\<rparr>)
        \<and> holds_slots d' vs' \<and> links_of d' = links_of d"
proof -
  note b = holds_bounds [OF h]
  have sc: "scan_slots (\<lambda>sz. sz \<le> 0) d 0 (length vs) = Inr (int (first_free vs))"
    using scan_slots_free [of vs 0 d] b by (fastforce simp: PAGE_SIZE_def)
  have big: "PAGE_SIZE < 2 ^ 30" by (simp add: PAGE_SIZE_def)
  consider "free_space vs < int (length bs)"
    | "int (length bs) \<le> free_space vs" "first_free vs < length vs"
    | "int (length bs) \<le> free_space vs" "first_free vs = length vs" "free_space vs < int (length bs) + 8"
    | "first_free vs = length vs" "int (length bs) + 8 \<le> free_space vs"
    using first_free_le [of vs] by linarith
  then show ?thesis
  proof cases
    case 1
    then show ?thesis using bs by (simp add: slots_insert_def InsertTuple_def GetFreeSpaceSize_holds [OF h])
  next
    case 3
    then show ?thesis using bs b(3) sc by (simp add: slots_insert_def InsertTuple_def GetFreeSpaceSize_holds [OF h])
  next
    case 2
    let ?i = "first_free vs"
    have f: "28 + 8 * int ?i \<le> fsp_of d - int (length bs)" using 2 h by (auto simp: holds_slots_def free_space_def)
    have "InsertTuple d bs = Inr (stored_tuple d ?i bs, Some \<lparr>rid_page = sint (links_of d ! 0), rid_slot = int ?i\<rparr>)"
      using 2 bs b(1,3) sc f stored_tuple_fields(2,3) [OF bs(1) f b(1)] big
      by (simp add: InsertTuple_def GetFreeSpaceSize_holds [OF h] in_page_def stored_tuple_def Let_def page_simps)
    with stored_tuple_reuse [OF h bs(1) 2(2) first_free_None [OF 2(2)] 2(1)] 2 show ?thesis
      by (simp add: slots_insert_def)
  next
    case 4
    have f: "28 + 8 * int (length vs) \<le> fsp_of d - int (length bs)" using 4 h by (auto simp: holds_slots_def free_space_def)
    have "InsertTuple d bs = Inr (set_count (stored_tuple d (length vs) bs) (int (length vs) + 1),
        Some \<lparr>rid_page = sint (links_of d ! 0), rid_slot = int (length vs)\<rparr>)"
      using 4 bs b(1,3,4) sc f stored_tuple_fields(2,3) [OF bs(1) f b(1)] big
      by (simp add: InsertTuple_def GetFreeSpaceSize_holds [OF h] in_page_def stored_tuple_def Let_def page_simps)
    with stored_tuple_append [OF h bs(1) 4(2)] 4 show ?thesis by (simp add: slots_insert_def)
  qed
qed

subsection \<open>Moving the tuples below a slot\<close>

lemma shift_offsets_ok:
  assumes "distinct js" "\<forall>j \<in> set js. 28 + 8 * int j \<le> PAGE_SIZE"
    "\<forall>j \<in> set js. 0 < size_of d j \<longrightarrow> off_of d j < bound \<longrightarrow> int32 (off_of d j + delta)"
  shows "\<exists>d'. shift_offsets d bound delta (map int js) = Inr d' \<and> size_of d' = size_of d
    \<and> (\<forall>j. off_of d' j = (if j \<in> set js \<and> 0 < size_of d j \<and> off_of d j < bound then off_of d j + delta else off_of d j))
    \<and> fsp_of d' = fsp_of d \<and> count_of d' = count_of d \<and> links_of d' = links_of d
    \<and> (\<forall>p n. (\<forall>j \<in> set js. 24 + 8 * int j \<le> p) \<longrightarrow> read_mem d' p n = read_mem d p n)"
  using assms
proof (induction js arbitrary: d)
  case (Cons i js)
  let ?d = "if 0 < size_of d i \<and> off_of d i < bound then set_off d i (off_of d i + delta) else d"
  have i: "28 + 8 * int i \<le> PAGE_SIZE" "0 < size_of d i \<Longrightarrow> off_of d i < bound \<Longrightarrow> int32 (off_of d i + delta)" "i \<notin> set js"
    using Cons.prems by auto
  have f: "size_of ?d = size_of d" "fsp_of ?d = fsp_of d" "count_of ?d = count_of d" "links_of ?d = links_of d"
    "\<And>j. off_of ?d j = (if j = i \<and> 0 < size_of d j \<and> off_of d j < bound then off_of d j + delta else off_of d j)"
    "\<And>p n. 24 + 8 * int i \<le> p \<Longrightarrow> read_mem ?d p n = read_mem d p n"
    using i by (auto simp: page_simps)
  have "\<exists>d'. shift_offsets ?d bound delta (map int js) = Inr d' \<and> size_of d' = size_of ?d
    \<and> (\<forall>j. off_of d' j = (if j \<in> set js \<and> 0 < size_of ?d j \<and> off_of ?d j < bound then off_of ?d j + delta else off_of ?d j))
    \<and> fsp_of d' = fsp_of ?d \<and> count_of d' = count_of ?d \<and> links_of d' = links_of ?d
    \<and> (\<forall>p n. (\<forall>j \<in> set js. 24 + 8 * int j \<le> p) \<longrightarrow> read_mem d' p n = read_mem ?d p n)"
    by (rule Cons.IH) (use Cons.prems in \<open>auto simp: f(1,5)\<close>)
  then obtain d' where d': "shift_offsets ?d bound delta (map int js) = Inr d'" "size_of d' = size_of d"
    "\<forall>j. off_of d' j = (if j \<in> set js \<and> 0 < size_of d j \<and> off_of ?d j < bound then off_of ?d j + delta else off_of ?d j)"
    "fsp_of d' = fsp_of d" "count_of d' = count_of d" "links_of d' = links_of d"
    "\<forall>p n. (\<forall>j \<in> set js. 24 + 8 * int j \<le> p) \<longrightarrow> read_mem d' p n = read_mem ?d p n"
    unfolding f(1-4) by blast
  have s: "shift_offsets d bound delta (map int (i # js)) = Inr d'" using i d'(1) by auto
  have o: "off_of d' j = (if j \<in> set (i # js) \<and> 0 < size_of d j \<and> off_of d j < bound then off_of d j + delta else off_of d j)" for j
    using spec [OF d'(3), of j] i(3) unfolding f(5) by (simp split: if_splits)
  have r: "read_mem d' p n = read_mem d p n" if "\<forall>j \<in> set (i # js). 24 + 8 * int j \<le> p" for p n
    using that d'(7) f(6) [of p n] by auto
  show ?case using s d'(2,4-6) o r by blast
qed simp

lemma upto_map_int: "[0..int n - 1] = map int [0..<n]"
proof (induction n)
  case (Suc n)
  then show ?case using upto_rec2 [of 0 "int n"] by (simp add: add.commute)
qed simp

text \<open>The effect of the loop on a page with \<open>n\<close> slots whose tuples are inside the page.\<close>

lemma shift_all_ok:
  assumes "20 + 8 * int n \<le> q" "q \<le> PAGE_SIZE" "\<forall>j < n. 0 < size_of d j \<longrightarrow> 0 \<le> off_of d j \<and> off_of d j \<le> PAGE_SIZE" "\<bar>delta\<bar> \<le> PAGE_SIZE"
  obtains d' where "shift_offsets d bound delta [0..int n - 1] = Inr d'" "size_of d' = size_of d"
    "\<forall>j < n. off_of d' j = (if 0 < size_of d j \<and> off_of d j < bound then off_of d j + delta else off_of d j)"
    "fsp_of d' = fsp_of d" "count_of d' = count_of d" "links_of d' = links_of d" "\<forall>p k. q \<le> p \<longrightarrow> read_mem d' p k = read_mem d p k"
proof -
  have "\<exists>d'. shift_offsets d bound delta (map int [0..<n]) = Inr d' \<and> size_of d' = size_of d
    \<and> (\<forall>j. off_of d' j = (if j \<in> set [0..<n] \<and> 0 < size_of d j \<and> off_of d j < bound then off_of d j + delta else off_of d j))
    \<and> fsp_of d' = fsp_of d \<and> count_of d' = count_of d \<and> links_of d' = links_of d
    \<and> (\<forall>p k. (\<forall>j \<in> set [0..<n]. 24 + 8 * int j \<le> p) \<longrightarrow> read_mem d' p k = read_mem d p k)"
    by (rule shift_offsets_ok) (use assms in \<open>auto simp: PAGE_SIZE_def\<close>)
  then show ?thesis using that assms(1) by (force simp: upto_map_int)
qed

text \<open>The tuple of slot \<open>i\<close> shrinks or grows towards lower addresses, and the tuples below it move with it.\<close>

definition moved_below :: "bytes \<Rightarrow> bytes \<Rightarrow> nat \<Rightarrow> int \<Rightarrow> nat \<Rightarrow> bool" where
  "moved_below d d' i delta j \<longleftrightarrow>
     size_of d' j = size_of d j
     \<and> (0 < size_of d j \<longrightarrow> (let off = (if off_of d j < off_of d i then off_of d j + delta else off_of d j) in
          off_of d' j = off \<and> read_mem d' off (nat (size_of d j)) = read_mem d (off_of d j) (nat (size_of d j))))"

lemma resize_holds:
  assumes h: "holds_slots d vs" and i: "i < length vs" "vs ! i = Some old" and delta: "delta = int (length old) - slot_size v"
    and fields: "count_of d' = count_of d" "fsp_of d' = fsp_of d + delta" and free: "0 \<le> free_space (vs[i := v])"
    and si: "tslot_ok d' i v" "v \<noteq> None \<Longrightarrow> off_of d' i = off_of d i + delta"
    and m: "\<forall>j < length vs. j \<noteq> i \<longrightarrow> moved_below d d' i delta j"
  shows "holds_slots d' (vs[i := v])"
proof -
  note b = holds_bounds [OF h]
  have oi: "size_of d i = int (length old)" "fsp_of d \<le> off_of d i" "off_of d i + int (length old) \<le> PAGE_SIZE" "old \<noteq> []"
    using b(6) [OF i(1)] i(2) by (auto simp: tslot_ok_def)
  have dl: "delta \<le> int (length old)" "int (length old) - delta = slot_size v" using delta by auto
  have oj: "off_of d j + size_of d j \<le> off_of d i \<and> off_of d' j = off_of d j + delta \<or> off_of d i + size_of d i \<le> off_of d j \<and> off_of d' j = off_of d j"
    "size_of d' j = size_of d j" "0 < size_of d j" "fsp_of d \<le> off_of d j" "off_of d j + size_of d j \<le> PAGE_SIZE"
    "read_mem d' (off_of d' j) (nat (size_of d j)) = read_mem d (off_of d j) (nat (size_of d j))"
    if j: "j < length vs" "j \<noteq> i" "vs ! j \<noteq> None" for j
  proof -
    have a: "tuples_apart d j i" using h i j by (simp add: holds_slots_def)
    show s: "0 < size_of d j" "fsp_of d \<le> off_of d j" "off_of d j + size_of d j \<le> PAGE_SIZE"
      using b(6) [OF j(1)] j(3) by (auto simp: tslot_ok_def)
    have "moved_below d d' i delta j" using m j by blast
    then show "off_of d j + size_of d j \<le> off_of d i \<and> off_of d' j = off_of d j + delta \<or> off_of d i + size_of d i \<le> off_of d j \<and> off_of d' j = off_of d j"
      "size_of d' j = size_of d j" "read_mem d' (off_of d' j) (nat (size_of d j)) = read_mem d (off_of d j) (nat (size_of d j))"
      using a s(1) oi(1,4) by (auto simp: moved_below_def tuples_apart_def Let_def split: if_splits)
  qed
  have ok: "tslot_ok d' j (vs[i := v] ! j)" if j: "j < length vs" for j
  proof (cases "j = i")
    case True
    then show ?thesis using si(1) i by simp
  next
    case False
    show ?thesis
    proof (cases "vs ! j")
      case None
      then show ?thesis using b(6) [OF j] m j False by (auto simp: tslot_ok_def moved_below_def)
    next
      case (Some bs)
      then have "vs ! j \<noteq> None" by simp
      note o = oj [OF j False this]
      show ?thesis using b(6) [OF j] Some False o oi dl by (auto simp: tslot_ok_def fields)
    qed
  qed
  have ap: "tuples_apart d' j k"
    if j: "j < length vs" "k < length vs" "j \<noteq> k" "vs[i := v] ! j \<noteq> None" "vs[i := v] ! k \<noteq> None" for j k
  proof -
    have ii: "off_of d' i = off_of d i + delta" "size_of d' i = slot_size v" if "v \<noteq> None"
      using that si tslot_ok_size(1) by auto
    have ai: "tuples_apart d' i l" if l: "l < length vs" "l \<noteq> i" "vs ! l \<noteq> None" and v: "v \<noteq> None" for l
      using oj [OF l] ii [OF v] dl oi(1) by (auto simp: tuples_apart_def)
    consider "j = i" "k \<noteq> i" | "k = i" "j \<noteq> i" | "j \<noteq> i" "k \<noteq> i" using j(3) by blast
    then show ?thesis
    proof cases
      case 1 then show ?thesis using ai [of k] j i by auto
    next
      case 2 then show ?thesis using ai [of j] j i by (auto intro: tuples_apart_sym)
    next
      case 3
      then have "vs ! j \<noteq> None" "vs ! k \<noteq> None" using j by auto
      moreover from this have "tuples_apart d j k" using h j by (simp add: holds_slots_def)
      ultimately show ?thesis using oj [of j] oj [of k] j 3 dl oi(1) by (auto simp: tuples_apart_def)
    qed
  qed
  have "used_space (vs[i := v]) = used_space vs - delta" using i delta by (simp add: used_update slot_size_def)
  then show ?thesis using ok ap free h fields by (auto simp: holds_slots_def)
qed

text \<open>The bytes of a slot below \<open>i\<close> after the region below \<open>i\<close> has moved, and of a slot above it.\<close>

lemma moved_bytes:
  assumes h: "holds_slots d vs" and i: "i < length vs" "vs ! i = Some old" and j: "j < length vs" "j \<noteq> i" "0 < size_of d j"
    and keep: "fsp_of d + delta \<le> p \<Longrightarrow> p + int k \<le> off_of d i + delta \<or> off_of d i + int (length old) \<le> p
        \<Longrightarrow> read_mem d' p k = read_mem (memcpy d (fsp_of d + delta) (fsp_of d) (nat (off_of d i - fsp_of d))) p k"
    and delta: "delta \<le> int (length old)"
    and p: "p = (if off_of d j < off_of d i then off_of d j + delta else off_of d j)" and k: "k = nat (size_of d j)"
  shows "read_mem d' p k = read_mem d (off_of d j) k"
proof -
  have v: "vs ! j \<noteq> None" using tslot_ok_size(2) [OF holds_bounds(6) [OF h j(1)]] j(3) by auto
  have a: "tuples_apart d j i" using h i j v by (simp add: holds_slots_def)
  have o: "size_of d i = int (length old)" "old \<noteq> []" "fsp_of d \<le> off_of d i" "fsp_of d \<le> off_of d j"
    using holds_bounds(6) [OF h i(1)] holds_bounds(6) [OF h j(1)] i(2) v by (auto simp: tslot_ok_def)
  show ?thesis
  proof (cases "off_of d j < off_of d i")
    case True
    then have le: "off_of d j + int k \<le> off_of d i" using a o j(3) k by (auto simp: tuples_apart_def)
    have "read_mem d' p k = read_mem (memcpy d (fsp_of d + delta) (fsp_of d) (nat (off_of d i - fsp_of d))) p k"
      using True le o p by (intro keep) auto
    also have "\<dots> = read_mem d (off_of d j) k" using True le o p by (subst read_memcpy_inside) auto
    finally show ?thesis .
  next
    case False
    then have le: "off_of d i + int (length old) \<le> off_of d j" using a o j(3) by (auto simp: tuples_apart_def)
    have "read_mem d' p k = read_mem (memcpy d (fsp_of d + delta) (fsp_of d) (nat (off_of d i - fsp_of d))) p k"
      using False le o p delta by (intro keep) auto
    also have "\<dots> = read_mem d (off_of d j) k" using False le o p delta by (subst read_memcpy_outside) auto
    finally show ?thesis .
  qed
qed

subsection \<open>Deletion and update\<close>

lemma free_space_update: "i < length vs \<Longrightarrow> free_space (vs[i := v]) = free_space vs + slot_size (vs ! i) - slot_size v"
  by (simp add: free_space_def used_update)

lemma DeleteTuple_live:
  assumes h: "holds_slots d vs" and i: "i < length vs" "vs ! i = Some old"
  shows "\<exists>d'. DeleteTuple d \<lparr>rid_page = pid, rid_slot = int i\<rparr> = Inr (d', True)
    \<and> holds_slots d' (vs[i := None]) \<and> links_of d' = links_of d"
proof -
  note b = holds_bounds [OF h]
  let ?s = "int (length old)" and ?o = "off_of d i" and ?f = "fsp_of d"
  have oi: "size_of d i = ?s" "?f \<le> ?o" "?o + ?s \<le> PAGE_SIZE" "old \<noteq> []"
    using b(6) [OF i(1)] i(2) by (auto simp: tslot_ok_def)
  have sp: "28 + 8 * int i \<le> ?f" by (rule b(5) [OF i(1)])
  define d1 where "d1 = memcpy d (?f + ?s) ?f (nat (?o - ?f))"
  define d4 where "d4 = set_off (put_size (set_fsp d1 (?f + ?s)) i 0) i 0"
  have above: "28 + 8 * int j \<le> ?f + ?s" if "j < length vs" for j using b(5) [OF that] by simp
  have f4: "count_of d4 = count_of d" "fsp_of d4 = ?f + ?s" "links_of d4 = links_of d" "size_of d4 i = 0"
    "\<And>j. j < length vs \<Longrightarrow> j \<noteq> i \<Longrightarrow> size_of d4 j = size_of d j \<and> off_of d4 j = off_of d j"
    "\<And>p n. ?f \<le> p \<Longrightarrow> read_mem d4 p n = read_mem d1 p n"
    using sp above oi by (simp_all add: d4_def d1_def page_simps PAGE_SIZE_def)
  have rng: "\<forall>j < length vs. 0 < size_of d4 j \<longrightarrow> 0 \<le> off_of d4 j \<and> off_of d4 j \<le> PAGE_SIZE"
  proof (intro allI impI)
    fix j assume j: "j < length vs" "0 < size_of d4 j"
    then have "j \<noteq> i" using f4(4) by auto
    with j have "size_of d4 j = size_of d j" "off_of d4 j = off_of d j" using f4(5) by auto
    then show "0 \<le> off_of d4 j \<and> off_of d4 j \<le> PAGE_SIZE" using b(2) b(6) [OF j(1)] j(2) by (auto simp: tslot_ok_def split: option.splits)
  qed
  obtain d' where d': "shift_offsets d4 ?o ?s [0..int (length vs) - 1] = Inr d'" "size_of d' = size_of d4"
    "\<forall>j < length vs. off_of d' j = (if 0 < size_of d4 j \<and> off_of d4 j < ?o then off_of d4 j + ?s else off_of d4 j)"
    "fsp_of d' = fsp_of d4" "count_of d' = count_of d4" "links_of d' = links_of d4" "\<forall>p k. ?f \<le> p \<longrightarrow> read_mem d' p k = read_mem d4 p k"
    by (rule shift_all_ok [OF b(2,1) rng, of ?s ?o]) (use oi b(2) in auto)
  have del: "DeleteTuple d \<lparr>rid_page = pid, rid_slot = int i\<rparr> = Inr (d', True)"
    using oi b(1-3) i sp d'(1) f4(1) by (simp add: DeleteTuple_def Let_def in_page_def d4_def d1_def PAGE_SIZE_def)
  have mv: "moved_below d d' i ?s j" if j: "j < length vs" "j \<noteq> i" for j
  proof -
    have "read_mem d' p k = read_mem d (off_of d j) k"
      if "0 < size_of d j" "p = (if off_of d j < ?o then off_of d j + ?s else off_of d j)" "k = nat (size_of d j)" for p k
      by (rule moved_bytes [OF h i j that(1) _ _ that(2,3)]) (use d'(7) f4(6) in \<open>auto simp: d1_def\<close>)
    then show ?thesis using f4(5) [OF j] d'(2,3) j(1) by (simp add: moved_below_def Let_def)
  qed
  have "holds_slots d' (vs[i := None])"
    by (rule resize_holds [OF h i, of ?s]) (use mv d' f4 h i in \<open>auto simp: slot_size_def tslot_ok_def free_space_update holds_slots_def\<close>)
  with del d'(6) f4(3) show ?thesis by auto
qed

lemma UpdateTuple_live:
  assumes h: "holds_slots d vs" and i: "i < length vs" "vs ! i = Some old" and bs: "bs \<noteq> []" "int (length bs) < 2 ^ 30"
    and free: "int (length bs) - int (length old) \<le> free_space vs"
  shows "\<exists>d'. UpdateTuple d bs \<lparr>rid_page = pid, rid_slot = int i\<rparr> = Inr (d', True)
    \<and> holds_slots d' (vs[i := Some bs]) \<and> links_of d' = links_of d"
proof -
  note b = holds_bounds [OF h]
  let ?s = "int (length old)" and ?n = "int (length bs)" and ?o = "off_of d i" and ?f = "fsp_of d"
  let ?f' = "?f + ?s - ?n"
  have oi: "size_of d i = ?s" "?f \<le> ?o" "?o + ?s \<le> PAGE_SIZE" "old \<noteq> []"
    using b(6) [OF i(1)] i(2) by (auto simp: tslot_ok_def)
  have f': "20 + 8 * int (length vs) \<le> ?f'" "?f' \<le> PAGE_SIZE"
    using h free oi by (auto simp: holds_slots_def free_space_def)
  have above: "28 + 8 * int j \<le> ?f'" if "j < length vs" for j using f'(1) that by simp
  define d1 where "d1 = memcpy d ?f' ?f (nat (?o - ?f))"
  define d4 where "d4 = put_size (write_mem (set_fsp d1 ?f') (?o + ?s - ?n) bs) i ?n"
  have f4: "count_of d4 = count_of d" "fsp_of d4 = ?f'" "links_of d4 = links_of d" "size_of d4 i = ?n" "off_of d4 i = ?o"
    "\<And>j. j < length vs \<Longrightarrow> j \<noteq> i \<Longrightarrow> size_of d4 j = size_of d j \<and> off_of d4 j = off_of d j"
    "read_mem d4 (?o + ?s - ?n) (length bs) = bs"
    "\<And>p k. ?f' \<le> p \<Longrightarrow> p + int k \<le> ?o + ?s - ?n \<or> ?o + ?s \<le> p \<Longrightarrow> read_mem d4 p k = read_mem d1 p k"
    using above [OF i(1)] above oi f' bs by (simp_all add: d4_def d1_def page_simps mem_simps PAGE_SIZE_def)
  have live: "0 \<le> off_of d j \<and> off_of d j \<le> PAGE_SIZE \<and> (off_of d j < ?o + ?s \<longleftrightarrow> off_of d j < ?o)"
    if j: "j < length vs" "j \<noteq> i" "0 < size_of d j" for j
  proof -
    have v: "vs ! j \<noteq> None" using tslot_ok_size(2) [OF b(6) [OF j(1)]] j(3) by auto
    then have a: "tuples_apart d j i" using h i j by (simp add: holds_slots_def)
    have "fsp_of d \<le> off_of d j" "off_of d j + size_of d j \<le> PAGE_SIZE" using b(6) [OF j(1)] v by (auto simp: tslot_ok_def)
    moreover have "0 < ?s" using oi(4) by simp
    ultimately show ?thesis using b(2) a oi(1) j(3) unfolding tuples_apart_def by linarith
  qed
  have rng: "\<forall>j < length vs. 0 < size_of d4 j \<longrightarrow> 0 \<le> off_of d4 j \<and> off_of d4 j \<le> PAGE_SIZE"
  proof (intro allI impI)
    fix j assume "j < length vs" "0 < size_of d4 j"
    then show "0 \<le> off_of d4 j \<and> off_of d4 j \<le> PAGE_SIZE"
      using f4(6) [of j] live [of j] f4(5) oi b(2) by (cases "j = i") auto
  qed
  obtain d' where d': "shift_offsets d4 (?o + ?s) (?s - ?n) [0..int (length vs) - 1] = Inr d'" "size_of d' = size_of d4"
    "\<forall>j < length vs. off_of d' j = (if 0 < size_of d4 j \<and> off_of d4 j < ?o + ?s then off_of d4 j + (?s - ?n) else off_of d4 j)"
    "fsp_of d' = fsp_of d4" "count_of d' = count_of d4" "links_of d' = links_of d4" "\<forall>p k. ?f' \<le> p \<longrightarrow> read_mem d' p k = read_mem d4 p k"
    by (rule shift_all_ok [OF f' rng, of "?s - ?n" "?o + ?s"]) (use oi b(1,2) f' in auto)
  have up: "UpdateTuple d bs \<lparr>rid_page = pid, rid_slot = int i\<rparr> = Inr (d', True)"
    using oi b(1-3) i f' free bs above [OF i(1)] d'(1) f4(1)
    by (simp add: UpdateTuple_def Let_def GetFreeSpaceSize_holds [OF h] in_page_def d4_def d1_def PAGE_SIZE_def)
  have mv: "moved_below d d' i (?s - ?n) j" if j: "j < length vs" "j \<noteq> i" for j
  proof -
    have "read_mem d' p k = read_mem d (off_of d j) k"
      if "0 < size_of d j" "p = (if off_of d j < ?o then off_of d j + (?s - ?n) else off_of d j)" "k = nat (size_of d j)" for p k
      by (rule moved_bytes [OF h i j that(1) _ _ that(2,3)]) (use d'(7) f4(8) in \<open>auto simp: d1_def add_diff_eq\<close>)
    then show ?thesis using f4(6) [OF j] d'(2,3) j(1) live [OF j] by (simp add: moved_below_def Let_def)
  qed
  have oi': "off_of d' i = ?o + (?s - ?n)" "read_mem d' (?o + (?s - ?n)) (length bs) = bs" "size_of d' i = ?n"
    using d' i(1) f4(4,5,7) bs oi(2,4) by (auto simp: add_diff_eq)
  then have "tslot_ok d' i (Some bs)" using bs d'(4) f4(2) oi by (auto simp: tslot_ok_def)
  then have "holds_slots d' (vs[i := Some bs])"
    by (intro resize_holds [OF h i, of "?s - ?n"])
      (use mv d'(4,5) f4(1,2) i oi'(1) free in \<open>auto simp: slot_size_def free_space_update\<close>)
  with up d'(6) f4(3) show ?thesis by auto
qed

end
