(* ===== verification/Table_Page_Props.thy ===== *)
theory Table_Page_Props
  imports Table_Page_Correct
begin

section \<open>What a slotted page promises\<close>

text \<open>The operations of a client of one page with their results, on the bytes and on the list of slots.\<close>

datatype page_op = Insert_Op "u8 list" | Delete_Op nat | Update_Op nat "u8 list" | Get_Op nat | First_Op | Next_Op nat

datatype page_out = Slot "nat option" | Done bool | Bytes "u8 list option"

definition slot_rid :: "bytes \<Rightarrow> nat \<Rightarrow> rid" where
  "slot_rid d i = \<lparr>rid_page = sint (load32 d 0), rid_slot = int i\<rparr>"

definition rid_out :: "rid option \<Rightarrow> page_out" where
  "rid_out r = Slot (map_option (\<lambda>r. nat (rid_slot r)) r)"

fun page_step :: "bytes \<Rightarrow> page_op \<Rightarrow> (bytes \<times> page_out) result" where
  "page_step d (Insert_Op bs) = and_then (InsertTuple d bs) (\<lambda>(d', r). Inr (d', rid_out r))"
| "page_step d (Delete_Op i) = and_then (DeleteTuple d (slot_rid d i)) (\<lambda>(d', b). Inr (d', Done b))"
| "page_step d (Update_Op i bs) = and_then (UpdateTuple d bs (slot_rid d i)) (\<lambda>(d', b). Inr (d', Done b))"
| "page_step d (Get_Op i) = and_then (GetTuple d (slot_rid d i)) (\<lambda>t. Inr (d, Bytes (map_option (tuple_bytes d) t)))"
| "page_step d First_Op = and_then (GetFirstTupleRid d) (\<lambda>(r, b). Inr (d, rid_out (if b then Some r else None)))"
| "page_step d (Next_Op i) = and_then (GetNextTupleRid d (slot_rid d i)) (\<lambda>r. Inr (d, rid_out r))"

text \<open>The first slot from \<open>i\<close> on that holds a tuple.\<close>

definition next_used :: "slots \<Rightarrow> nat \<Rightarrow> nat option" where
  "next_used vs i =
     (let k = i + length (takeWhile (\<lambda>v. v = None) (drop i vs)) in if k < length vs then Some k else None)"

fun slots_step :: "slots \<Rightarrow> page_op \<Rightarrow> slots \<times> page_out" where
  "slots_step vs (Insert_Op bs) =
     (case slots_insert vs bs of None \<Rightarrow> (vs, Slot None) | Some (vs', i) \<Rightarrow> (vs', Slot (Some i)))"
| "slots_step vs (Delete_Op i) =
     (case slot_at vs i of None \<Rightarrow> (vs, Done False) | Some _ \<Rightarrow> (vs[i := None], Done True))"
| "slots_step vs (Update_Op i bs) =
     (case slot_at vs i of None \<Rightarrow> (vs, Done False)
      | Some old \<Rightarrow> if free_space vs < int (length bs) - int (length old) then (vs, Done False) else (vs[i := Some bs], Done True))"
| "slots_step vs (Get_Op i) = (vs, Bytes (slot_at vs i))"
| "slots_step vs First_Op = (vs, Slot (next_used vs 0))"
| "slots_step vs (Next_Op i) = (vs, Slot (next_used vs (Suc i)))"

fun run_page :: "bytes \<Rightarrow> page_op list \<Rightarrow> (bytes \<times> page_out list) result" where
  "run_page d [] = Inr (d, [])"
| "run_page d (x # xs) = and_then (page_step d x) (\<lambda>(d1, y). and_then (run_page d1 xs) (\<lambda>(d2, ys). Inr (d2, y # ys)))"

fun run_slots :: "slots \<Rightarrow> page_op list \<Rightarrow> slots \<times> page_out list" where
  "run_slots vs [] = (vs, [])"
| "run_slots vs (x # xs) = (let (vs1, y) = slots_step vs x; (vs2, ys) = run_slots vs1 xs in (vs2, y # ys))"

text \<open>Tuples are not empty and not absurdly large; slot numbers are those of an \<open>int\<close>.\<close>

fun page_op_ok :: "page_op \<Rightarrow> bool" where
  "page_op_ok (Insert_Op bs) \<longleftrightarrow> bs \<noteq> [] \<and> int (length bs) < 2 ^ 30"
| "page_op_ok (Update_Op i bs) \<longleftrightarrow> bs \<noteq> [] \<and> int (length bs) < 2 ^ 30"
| "page_op_ok (Next_Op i) \<longleftrightarrow> int i < 2 ^ 31 - 1"
| "page_op_ok _ \<longleftrightarrow> True"

lemma links0: "links_of d ! 0 = load32 d 0"
  by (simp add: links_of_def)

text \<open>Slots that hold no tuple.\<close>

lemma empty_slot:
  assumes h: "holds_slots d vs" and e: "slot_at vs i = None"
  shows "GetTuple d (slot_rid d i) = Inr None" "DeleteTuple d (slot_rid d i) = Inr (d, False)"
    "UpdateTuple d bs (slot_rid d i) = Inr (d, False)"
proof -
  note b = holds_bounds [OF h]
  have "int i \<ge> count_of d \<or> i < length vs \<and> size_of d i = 0 \<and> 28 + 8 * int i \<le> PAGE_SIZE"
    using e b(1,3) b(5,6) [of i] by (auto simp: slot_at_def tslot_ok_def split: if_splits)
  then show "GetTuple d (slot_rid d i) = Inr None" "DeleteTuple d (slot_rid d i) = Inr (d, False)"
    "UpdateTuple d bs (slot_rid d i) = Inr (d, False)"
    using b(3) by (auto simp: GetTuple_def DeleteTuple_def UpdateTuple_def slot_rid_def Let_def)
qed

lemma GetTuple_live:
  assumes h: "holds_slots d vs" and i: "i < length vs" "vs ! i = Some bs"
  shows "\<exists>t. GetTuple d (slot_rid d i) = Inr (Some t) \<and> tuple_bytes d t = bs"
proof -
  note b = holds_bounds [OF h]
  have "size_of d i = int (length bs)" "bs \<noteq> []" "read_mem d (off_of d i) (length bs) = bs" "28 + 8 * int i \<le> PAGE_SIZE"
    using b(1) b(5,6) [OF i(1)] i(2) by (auto simp: tslot_ok_def)
  then show ?thesis using i b(3) by (simp add: GetTuple_def slot_rid_def Let_def tuple_bytes_def)
qed

lemma scan_used:
  assumes h: "holds_slots d vs" and i: "i \<le> length vs"
  shows "scan_slots (\<lambda>sz. sz > 0) d (int i) (length vs - i) = Inr (int (i + length (takeWhile (\<lambda>v. v = None) (drop i vs))))"
proof -
  have "28 + 8 * int (i + j) \<le> PAGE_SIZE \<and> tslot_ok d (i + j) (drop i vs ! j)" if "j < length (drop i vs)" for j
  proof -
    have "i + j < length vs" using that by simp
    from holds_bounds(1) [OF h] holds_bounds(5,6) [OF h this] i show ?thesis by simp
  qed
  from scan_slots_used [of "drop i vs" i d, OF this] show ?thesis by simp
qed

text \<open>The steps of an iterator inside a page.\<close>

lemma GetNextTupleRid_holds:
  assumes h: "holds_slots d vs" and i: "int i < 2 ^ 31 - 1"
  shows "GetNextTupleRid d (slot_rid d i) = Inr (map_option (slot_rid d) (next_used vs (Suc i)))"
proof -
  have e: "scan_slots (\<lambda>sz. sz > 0) d (int (Suc i)) (nat (int (length vs) - int (Suc i)))
      = Inr (int (Suc i + length (takeWhile (\<lambda>v. v = None) (drop (Suc i) vs))))"
  proof (cases "Suc i \<le> length vs")
    case True
    then have "nat (int (length vs) - int (Suc i)) = length vs - Suc i" by linarith
    then show ?thesis using scan_used [OF h True] by simp
  qed simp
  show ?thesis
    using e i holds_bounds(3) [OF h] by (auto simp: GetNextTupleRid_def slot_rid_def links0 next_used_def Let_def ac_simps)
qed

lemma GetFirstTupleRid_holds:
  assumes h: "holds_slots d vs"
  shows "GetFirstTupleRid d = Inr (case next_used vs 0 of None \<Rightarrow> (invalid_rid, False) | Some j \<Rightarrow> (slot_rid d j, True))"
  using scan_used [OF h, of 0] holds_bounds(3) [OF h] by (auto simp: GetFirstTupleRid_def next_used_def Let_def slot_rid_def links0)

lemma page_step_holds:
  assumes h: "holds_slots d vs" and ok: "page_op_ok x"
  shows "\<exists>d'. page_step d x = Inr (d', snd (slots_step vs x)) \<and> holds_slots d' (fst (slots_step vs x)) \<and> links_of d' = links_of d"
proof (cases x)
  case (Insert_Op bs)
  then show ?thesis using InsertTuple_holds [OF h, of bs] h ok by (auto simp: rid_out_def split: option.splits)
next
  case (Delete_Op i)
  show ?thesis
  proof (cases "slot_at vs i")
    case None
    then show ?thesis using empty_slot [OF h] h Delete_Op by simp
  next
    case (Some old)
    then have "i < length vs" "vs ! i = Some old" by (auto simp: slot_at_def split: if_splits)
    then show ?thesis using DeleteTuple_live [OF h, of i old "sint (load32 d 0)"] Some Delete_Op by (auto simp: slot_rid_def)
  qed
next
  case (Update_Op i bs)
  show ?thesis
  proof (cases "slot_at vs i")
    case None
    then show ?thesis using empty_slot [OF h] h Update_Op by simp
  next
    case (Some old)
    then have i: "i < length vs" "vs ! i = Some old" by (auto simp: slot_at_def split: if_splits)
    show ?thesis
    proof (cases "free_space vs < int (length bs) - int (length old)")
      case False
      then show ?thesis using UpdateTuple_live [OF h i, of bs "sint (load32 d 0)"] ok Some Update_Op by (auto simp: slot_rid_def)
    next
      case True
      note b = holds_bounds [OF h]
      have "size_of d i = int (length old)" "old \<noteq> []" "28 + 8 * int i \<le> PAGE_SIZE" "int (length old) \<le> PAGE_SIZE"
        using b(1,2) b(5,6) [OF i(1)] i(2) by (auto simp: tslot_ok_def)
      then have "UpdateTuple d bs (slot_rid d i) = Inr (d, False)"
        using True i b(3) ok Update_Op by (simp add: UpdateTuple_def slot_rid_def Let_def GetFreeSpaceSize_holds [OF h] PAGE_SIZE_def)
      then show ?thesis using Some True Update_Op h by simp
    qed
  qed
next
  case (Get_Op i)
  then show ?thesis using empty_slot [OF h, of i] GetTuple_live [OF h, of i] h by (cases "slot_at vs i") (auto simp: slot_at_def split: if_splits)
next
  case First_Op
  then show ?thesis using GetFirstTupleRid_holds [OF h] h by (auto simp: rid_out_def slot_rid_def split: option.splits)
next
  case (Next_Op i)
  then have "GetNextTupleRid d (slot_rid d i) = Inr (map_option (slot_rid d) (next_used vs (Suc i)))"
    using GetNextTupleRid_holds [OF h] ok by simp
  then show ?thesis using h Next_Op by (auto simp: rid_out_def slot_rid_def option.map_comp o_def option.map_ident)
qed

lemma TablePage_Init_holds:
  assumes "TablePage_Init d pid PAGE_SIZE prev next = Inr d'"
  shows "holds_slots d' []" "links_of d' = [word_of_int pid, word_of_int prev, word_of_int next]"
proof -
  have e: "d' = set_count (set_fsp (store32 (store32 (store32 d 0 (word_of_int pid)) 4 (word_of_int prev)) 8 (word_of_int next)) PAGE_SIZE) 0"
    using assms by (simp add: TablePage_Init_def field_defs in_page_def PAGE_SIZE_def set_count_def set_fsp_def)
  show "holds_slots d' []" by (simp add: e holds_slots_def page_simps free_space_def used_space_def PAGE_SIZE_def)
  show "links_of d' = [word_of_int pid, word_of_int prev, word_of_int next]"
    unfolding e page_simps by (simp add: links_of_def mem_simps)
qed

lemma run_page_holds:
  "holds_slots d vs \<Longrightarrow> list_all page_op_ok xs \<Longrightarrow>
    \<exists>d'. run_page d xs = Inr (d', snd (run_slots vs xs)) \<and> holds_slots d' (fst (run_slots vs xs)) \<and> links_of d' = links_of d"
proof (induction xs arbitrary: d vs)
  case (Cons x xs)
  obtain d1 where "page_step d x = Inr (d1, snd (slots_step vs x))" "holds_slots d1 (fst (slots_step vs x))" "links_of d1 = links_of d"
    using page_step_holds [OF Cons.prems(1), of x] Cons.prems(2) by auto
  with Cons.IH [of d1 "fst (slots_step vs x)"] Cons.prems(2) show ?case by (fastforce simp: split_def Let_def)
qed simp

text \<open>The slot number of an invalid record identifier is \<open>-1\<close>; its offset and size are the free space pointer and
  the tuple count of the page.\<close>

lemma slot_minus_one [simp]:
  "GetTupleOffset d (-1) = Inr (fsp_of d)" "GetTupleSize d (-1) = Inr (count_of d)"
  "SetTupleOffset d (-1) v = Inr (set_fsp d v)" "SetTupleSize d (-1) v = Inr (set_count d v)"
  by (simp_all add: field_defs num_defs in_page_def PAGE_SIZE_def)

section \<open>The properties\<close>

text \<open>C12. A page that has been initialised behaves, under every sequence of insertions, deletions, updates, lookups
  and iterator steps, as a list of slots: a tuple keeps its slot and its bytes until it is updated or deleted,
  wherever the other operations move it, an insertion takes the first empty slot, and it fails exactly when the space
  that the tuples and the slots leave is too small. No operation touches memory outside the page.\<close>

theorem table_page_refines_slots:
  assumes "list_all page_op_ok xs"
  shows "\<exists>d0 d'. TablePage_Init d pid PAGE_SIZE prev next = Inr d0 \<and> run_page d0 xs = Inr (d', snd (run_slots [] xs))
    \<and> holds_slots d' (fst (run_slots [] xs)) \<and> links_of d' = [word_of_int pid, word_of_int prev, word_of_int next]"
proof -
  obtain d0 where d0: "TablePage_Init d pid PAGE_SIZE prev next = Inr d0"
    by (simp add: TablePage_Init_def field_defs in_page_def PAGE_SIZE_def)
  from run_page_holds [OF TablePage_Init_holds(1) [OF d0] assms] TablePage_Init_holds(2) [OF d0] d0
  show ?thesis by auto
qed

theorem table_page_refines_slots_witness:
  "\<exists>d0 d'. TablePage_Init (\<lambda>_. 0) 7 PAGE_SIZE (-1) (-1) = Inr d0 \<and>
    run_page d0 [Insert_Op [1], Insert_Op [2, 3], Delete_Op 0, Update_Op 1 [4, 5, 6], Get_Op 1, First_Op, Insert_Op [8], Next_Op 0]
    = Inr (d', [Slot (Some 0), Slot (Some 1), Done True, Done True, Bytes (Some [4, 5, 6]), Slot (Some 1), Slot (Some 0), Slot (Some 1)])"
proof -
  have r: "snd (run_slots [] [Insert_Op [1], Insert_Op [2, 3], Delete_Op 0, Update_Op 1 [4, 5, 6], Get_Op 1, First_Op, Insert_Op [8], Next_Op 0])
    = [Slot (Some 0), Slot (Some 1), Done True, Done True, Bytes (Some [4, 5, 6]), Slot (Some 1), Slot (Some 0), Slot (Some 1)]"
    by (simp add: slots_insert_def free_space_def used_space_def slot_size_def PAGE_SIZE_def slot_at_def next_used_def Let_def)
  show ?thesis
    using table_page_refines_slots [of "[Insert_Op [1], Insert_Op [2, 3], Delete_Op 0, Update_Op 1 [4, 5, 6], Get_Op 1, First_Op, Insert_Op [8], Next_Op 0]"
        "\<lambda>_. 0" 7 "-1" "-1"] unfolding r by auto
qed

text \<open>\<open>DeleteTuple\<close> checks the slot number of a record identifier only from above: the invalid identifier, which
  \<open>GetFirstTupleRid\<close> returns for an empty page, deletes the header of the page. All tuples are lost, and nothing
  can be inserted any more.\<close>

theorem delete_invalid_rid_wipes_page:
  assumes "holds_slots d vs" and "vs \<noteq> []" and "int (length vs) \<le> used_space vs"
  shows "\<exists>d'. DeleteTuple d invalid_rid = Inr (d', True) \<and> (\<forall>i. GetTuple d' (slot_rid d' i) = Inr None)
    \<and> (\<forall>bs. InsertTuple d' (b # bs) = Inr (d', None))"
proof -
  note b = holds_bounds [OF assms(1)]
  let ?d = "set_fsp (set_count (set_fsp (memcpy d (fsp_of d + count_of d) (fsp_of d) 0) (fsp_of d + count_of d)) 0) 0"
  have c: "0 < count_of d" "fsp_of d + count_of d \<le> PAGE_SIZE" using assms b(3) by (auto simp: holds_slots_def)
  have f: "count_of ?d = 0" "fsp_of ?d = 0" by (simp_all add: page_simps)
  have "DeleteTuple d invalid_rid = Inr (?d, True)"
    using b(1-3) c by (simp add: DeleteTuple_def invalid_rid_def Let_def in_page_def page_simps PAGE_SIZE_def)
  moreover have "GetTuple ?d (slot_rid ?d i) = Inr None" for i
    by (simp add: GetTuple_def slot_rid_def f)
  moreover have "GetFreeSpaceSize ?d = Inr (-20)" by (simp add: GetFreeSpaceSize_def f)
  then have "InsertTuple ?d (b # bs) = Inr (?d, None)" for bs by (simp add: InsertTuple_def)
  ultimately show ?thesis by blast
qed

theorem delete_invalid_rid_wipes_page_witness:
  "\<exists>d d'. holds_slots d [Some [5]] \<and> DeleteTuple d invalid_rid = Inr (d', True) \<and> GetTuple d' (slot_rid d' 0) = Inr None
    \<and> InsertTuple d' [1] = Inr (d', None)"
proof -
  obtain d0 where "TablePage_Init (\<lambda>_. 0) 0 PAGE_SIZE (-1) (-1) = Inr d0"
    by (simp add: TablePage_Init_def field_defs in_page_def PAGE_SIZE_def)
  note h0 = TablePage_Init_holds(1) [OF this]
  have "slots_insert [] [5] = Some ([Some [5]], 0)" by (simp add: slots_insert_def free_space_def used_space_def PAGE_SIZE_def)
  then obtain d where h: "holds_slots d [Some [5]]" using InsertTuple_holds [OF h0, of "[5]"] by auto
  then show ?thesis
    using delete_invalid_rid_wipes_page [OF h, of 1] by (fastforce simp: used_space_def slot_size_def)
qed

end
