(* ===== verification/Table_Heap_Correct.thy ===== *)
theory Table_Heap_Correct
  imports Table_Heap Buffer_Correct Table_Page_Props Tuple_Props
begin

section \<open>A table that fits the buffer pool\<close>

text \<open>
  While every page of the file has a frame, the pool never evicts a page: page \<open>i\<close> stays in frame \<open>i\<close>, whatever the
  replacer thinks about it. Then fetching and unpinning change pin counts only, and the table is a list of slot lists.
\<close>

definition resident :: "('t, int, nat) hash_table \<Rightarrow> ('t \<Rightarrow> bool) \<Rightarrow> ('r \<Rightarrow> nat list \<Rightarrow> bool) \<Rightarrow> ('t, 'r) pool \<Rightarrow> nat \<Rightarrow> bool" where
  "resident H tok rel s k \<longleftrightarrow> k \<le> length (frames s) \<and> tok (page_table s)
     \<and> ht_find H (page_table s) = (\<lambda>p. if 0 \<le> p \<and> p < int k then Some (nat p) else None)
     \<and> free_list s = [k..<length (frames s)] \<and> next_page_id (disk_manager s) = int k
     \<and> (\<exists>xs. rel (replacer s) xs \<and> set xs \<subseteq> {..<k}) \<and> (\<forall>i. k \<le> i \<longrightarrow> i < length (frames s) \<longrightarrow> pin_count (frame_at s i) = 0)"

definition pins :: "('t, 'r) pool \<Rightarrow> nat \<Rightarrow> int" where
  "pins s = (\<lambda>i. pin_count (frame_at s i))"

definition datas :: "('t, 'r) pool \<Rightarrow> nat \<Rightarrow> bytes" where
  "datas s = (\<lambda>i. data_at s i)"

lemma set_data_simps [simp]:
  "f < length (frames s) \<Longrightarrow> datas (set_data s f d) = (datas s)(f := d)" "pins (set_data s f d) = pins s"
  "length (frames (set_data s f d)) = length (frames s)"
proof -
  show "f < length (frames s) \<Longrightarrow> datas (set_data s f d) = (datas s)(f := d)"
    by (auto simp: fun_eq_iff datas_def set_data_def set_frame_def)
  show "pins (set_data s f d) = pins s"
    by (cases "f < length (frames s)") (auto simp: fun_eq_iff pins_def set_data_def set_frame_def nth_list_update list_update_beyond)
  show "length (frames (set_data s f d)) = length (frames s)" by (simp add: set_data_def)
qed

lemma resident_set_data: "f < k \<Longrightarrow> resident H tok rel s k \<Longrightarrow> resident H tok rel (set_data s f d) k"
  by (auto simp: resident_def set_data_def)

context pool_parts
begin

lemma resident_fetch:
  assumes r: "resident H tok rel s k" and i: "i < k"
  shows "\<exists>s'. FetchPage H R s (int i) = Inr (s', Some i) \<and> resident H tok rel s' k \<and> pins s' = (pins s)(i := pins s i + 1)
    \<and> datas s' = datas s \<and> length (frames s') = length (frames s)"
proof -
  let ?s = "set_frame s i ((frame_at s i)\<lparr>pin_count := pin_count (frame_at s i) + 1\<rparr>)"
  have f: "i < length (frames s)" using r i by (simp add: resident_def)
  have "FetchPage H R s (int i) = Inr (?s, Some i)" using r i by (simp add: FetchPage_def resident_def)
  moreover have "resident H tok rel ?s k" using r i by (auto simp: resident_def)
  moreover have "pins ?s = (pins s)(i := pins s i + 1)" "datas ?s = datas s" using f by (auto simp: fun_eq_iff pins_def datas_def set_frame_def nth_list_update)
  ultimately show ?thesis by (intro exI [of _ ?s]) simp
qed

lemma resident_unpin:
  assumes r: "resident H tok rel s k" and i: "i < k" and pin: "0 < pins s i" and len: "k \<le> room"
  shows "\<exists>s'. UnpinPage H R s (int i) dirty = Inr (s', True) \<and> resident H tok rel s' k \<and> pins s' = (pins s)(i := pins s i - 1)
    \<and> datas s' = datas s \<and> length (frames s') = length (frames s)"
proof -
  let ?s = "set_frame s i ((frame_at s i)\<lparr>is_dirty := dirty, pin_count := pin_count (frame_at s i) - 1\<rparr>)"
  have f: "i < length (frames s)" using r i by (simp add: resident_def)
  have view: "pins ?s = (pins s)(i := pins s i - 1)" "datas ?s = datas s" using f by (auto simp: fun_eq_iff pins_def datas_def set_frame_def nth_list_update)
  obtain xs where xs: "rel (replacer s) xs" "set xs \<subseteq> {..<k}" using r by (auto simp: resident_def)
  have "length (remove1 i xs) < room"
  proof -
    have "set (remove1 i xs) \<subseteq> {..<k} - {i}" using xs(2) rel_distinct [OF xs(1)] by auto
    then have "card (set (remove1 i xs)) \<le> card ({..<k} - {i})" by (intro card_mono) auto
    also have "\<dots> < k" using i by (simp add: card_Diff_singleton)
    finally show ?thesis using len rel_distinct [OF xs(1)] distinct_card [OF distinct_remove1 [of xs i]] by (simp only: order_less_le_trans)
  qed
  then obtain r' where r': "rp_insert R (replacer s) i = Inr r'" "rel r' (remove1 i xs @ [i])" using insert_back [OF xs(1)] by blast
  have res: "resident H tok rel ?s k" using r i by (auto simp: resident_def)
  have "set (remove1 i xs @ [i]) \<subseteq> {..<k}" using xs(2) i rel_distinct [OF xs(1)] by auto
  then have "\<exists>xs. rel r' xs \<and> set xs \<subseteq> {..<k}" using r'(2) by blast
  then have res': "resident H tok rel (?s\<lparr>replacer := r'\<rparr>) k" using res by (simp add: resident_def)
  have u: "UnpinPage H R s (int i) dirty = Inr (if pin_count (frame_at s i) - 1 = 0 then ?s\<lparr>replacer := r'\<rparr> else ?s, True)"
    using r i pin r'(1) by (simp add: UnpinPage_def resident_def pins_def Let_def)
  have "pins (?s\<lparr>replacer := r'\<rparr>) = pins ?s" "datas (?s\<lparr>replacer := r'\<rparr>) = datas ?s" by (simp_all add: pins_def datas_def)
  then show ?thesis unfolding u using res res' view by auto
qed

lemma resident_new:
  assumes r: "resident H tok rel s k" and k: "k < length (frames s)" "length (frames s) \<le> cap"
  shows "\<exists>s'. NewPage H R s = Inr (s', int k, Some k) \<and> resident H tok rel s' (Suc k) \<and> pins s' = (pins s)(k := 1)
    \<and> (\<forall>i. i \<noteq> k \<longrightarrow> datas s' i = datas s i) \<and> length (frames s') = length (frames s)
    \<and> (\<forall>a. 0 \<le> a \<longrightarrow> a < PAGE_SIZE \<longrightarrow> datas s' k a = 0)"
proof -
  let ?s1 = "s\<lparr>disk_manager := (disk_manager s)\<lparr>next_page_id := int k + 1\<rparr>, free_list := [Suc k..<length (frames s)]\<rparr>"
  let ?pg = "ResetMemory (frame_at ?s1 k)"
  let ?s2 = "set_frame ?s1 k (?pg\<lparr>pin_count := pin_count ?pg + 1, frame_page := int k\<rparr>)"
  note rd = r [unfolded resident_def]
  have "dom (ht_find H (page_table s)) = {0..<int k}" using rd by (auto simp: dom_def split: if_splits)
  then have c: "card (dom (ht_find H (page_table s))) < cap" using k by simp
  obtain t where t: "ht_insert H (page_table s) (int k) k = Inr t" "tok t" "ht_find H t = (ht_find H (page_table s))(int k \<mapsto> k)"
    by (rule insert_cases [of "page_table s" "int k" k]) (use rd c in auto)
  have nxt: "next_page_id (disk_manager s) = int k" using rd by simp
  have fl: "free_list s = k # [Suc k..<length (frames s)]" using rd k(1) by (simp add: upt_conv_Cons)
  have n: "NewPage H R s = Inr (?s2\<lparr>page_table := t\<rparr>, int k, Some k)"
    using t(1) nxt by (simp add: NewPage_def AllocatePage_def take_frame_def Let_def fl)
  have pg: "pin_count ?pg = 0" using rd k(1) by (simp add: ResetMemory_def)
  have ht: "ht_find H t = (\<lambda>p. if 0 \<le> p \<and> p < int (Suc k) then Some (nat p) else None)"
    unfolding t(3) using rd by (auto simp: fun_eq_iff)
  obtain xs where "rel (replacer s) xs" "set xs \<subseteq> {..<Suc k}" using rd by (auto simp: lessThan_Suc)
  then have "resident H tok rel (?s2\<lparr>page_table := t\<rparr>) (Suc k)"
    using rd k(1) t(2) ht by (auto simp: resident_def set_frame_def nth_list_update)
  moreover have "pins (?s2\<lparr>page_table := t\<rparr>) = (pins s)(k := 1)"
    using k(1) pg by (auto simp: fun_eq_iff pins_def set_frame_def nth_list_update)
  moreover have "\<forall>i. i \<noteq> k \<longrightarrow> datas (?s2\<lparr>page_table := t\<rparr>) i = datas s i"
    by (auto simp: datas_def set_frame_def)
  moreover have "\<forall>a. 0 \<le> a \<longrightarrow> a < PAGE_SIZE \<longrightarrow> datas (?s2\<lparr>page_table := t\<rparr>) k a = 0"
    using k(1) by (simp add: datas_def set_frame_def ResetMemory_def memset_def write_mem_apply nat_less_iff PAGE_SIZE_def)
  ultimately show ?thesis unfolding n by (intro exI [of _ "?s2\<lparr>page_table := t\<rparr>"]) simp
qed

end

subsection \<open>The pages of a table\<close>

definition heap_links :: "nat \<Rightarrow> nat \<Rightarrow> u32 list" where
  "heap_links n i = [word_of_int (int i), word_of_int (int i - 1), word_of_int (if Suc i < n then int i + 1 else -1)]"

definition pages_hold :: "(nat \<Rightarrow> bytes) \<Rightarrow> slots list \<Rightarrow> bool" where
  "pages_hold D vss \<longleftrightarrow> (\<forall>i < length vss. holds_slots (D i) (vss ! i) \<and> links_of (D i) = heap_links (length vss) i)"

definition table_pages :: "('t, int, nat) hash_table \<Rightarrow> ('t \<Rightarrow> bool) \<Rightarrow> ('r \<Rightarrow> nat list \<Rightarrow> bool) \<Rightarrow> ('t, 'r) pool \<Rightarrow> slots list \<Rightarrow> bool" where
  "table_pages H tok rel s vss \<longleftrightarrow> vss \<noteq> [] \<and> resident H tok rel s (length vss) \<and> (\<forall>i. 0 \<le> pins s i \<or> length vss \<le> i) \<and> pages_hold (datas s) vss"

text \<open>Changing the slots of one page.\<close>

lemma pages_hold_upd:
  "pages_hold D vss \<Longrightarrow> holds_slots d vs \<Longrightarrow> links_of d = links_of (D i) \<Longrightarrow> pages_hold (D(i := d)) (vss[i := vs])"
  by (auto simp: pages_hold_def nth_list_update)

text \<open>The link to the next page is not part of the slots.\<close>

lemma set_next:
  "SetNextPageId d v = Inr (store32 d 8 (word_of_int v))" "links_of (store32 d 8 w) = [links_of d ! 0, links_of d ! 1, w]"
  "fsp_of (store32 d 8 w) = fsp_of d" "count_of (store32 d 8 w) = count_of d" "off_of (store32 d 8 w) i = off_of d i"
  "size_of (store32 d 8 w) i = size_of d i" "12 \<le> p \<Longrightarrow> read_mem (store32 d 8 w) p n = read_mem d p n"
  by (simp_all add: field_defs in_page_def PAGE_SIZE_def num_defs mem_simps)

lemma holds_slots_next: "holds_slots d vs \<Longrightarrow> holds_slots (store32 d 8 w) vs"
proof -
  assume h: "holds_slots d vs"
  then have f: "20 \<le> fsp_of d" by (simp add: holds_slots_def free_space_def)
  then have "tslot_ok (store32 d 8 w) i v \<longleftrightarrow> tslot_ok d i v" for i v
    by (auto simp: tslot_ok_def set_next split: option.splits)
  moreover have "tuples_apart (store32 d 8 w) i j \<longleftrightarrow> tuples_apart d i j" for i j by (simp add: tuples_apart_def set_next)
  ultimately show ?thesis using h by (simp add: holds_slots_def set_next)
qed

lemma next_of_links: "GetNextPageId d = Inr (sint (links_of d ! 2))"
  by (simp add: field_defs in_page_def PAGE_SIZE_def links_of_def numeral_2_eq_2)

lemma sint_small_nat: "i < 2 ^ 31 \<Longrightarrow> sint (word_of_nat i :: u32) = int i"
  using sint_int32 [of "int i"] by simp

lemma heap_links_simps:
  assumes "i < n" "n \<le> 100"
  shows "sint (heap_links n i ! 0) = int i" "sint (heap_links n i ! 2) = (if Suc i < n then int i + 1 else INVALID_PAGE_ID)"
  using assms by (simp_all add: heap_links_def sint_small_nat sint_int32 INVALID_PAGE_ID_def)

lemma page_links:
  assumes "pages_hold D vss" "i < length vss" "length vss \<le> 100"
  shows "GetPageId (D i) = Inr (int i)" "GetNextPageId (D i) = Inr (if Suc i < length vss then int i + 1 else INVALID_PAGE_ID)"
    "slot_rid (D i) j = \<lparr>rid_page = int i, rid_slot = int j\<rparr>"
proof -
  have l: "links_of (D i) = heap_links (length vss) i" using assms by (simp add: pages_hold_def)
  note s = heap_links_simps [OF assms(2,3)]
  show "GetPageId (D i) = Inr (int i)" by (simp add: l s)
  show "GetNextPageId (D i) = Inr (if Suc i < length vss then int i + 1 else INVALID_PAGE_ID)" by (simp add: next_of_links l s)
  have "load32 (D i) 0 = heap_links (length vss) i ! 0" using l by (simp add: links_of_def heap_links_def)
  then show "slot_rid (D i) j = \<lparr>rid_page = int i, rid_slot = int j\<rparr>" by (simp add: slot_rid_def s)
qed

text \<open>A new page at the end of the list.\<close>

lemma pages_hold_append:
  assumes p: "pages_hold D vss" and n: "vss \<noteq> []" and last: "i = length vss - 1" and len: "length vss < 100"
    and D': "\<forall>j < length vss. j \<noteq> i \<longrightarrow> D' j = D j" "D' i = store32 (D i) 8 (word_of_int (int (length vss)))"
    and new: "holds_slots (D' (length vss)) []" "links_of (D' (length vss)) = [word_of_int (int (length vss)), word_of_int (int i), word_of_int (-1)]"
  shows "pages_hold D' (vss @ [[]])"
proof -
  have i: "length vss = Suc i" using n last by (cases vss) auto
  have "holds_slots (D' j) ((vss @ [[]]) ! j) \<and> links_of (D' j) = heap_links (length (vss @ [[]])) j" if j: "j < length (vss @ [[]])" for j
  proof -
    consider "j = length vss" | "j = i" | "j < i" using j i by fastforce
    then show ?thesis
    proof cases
      case 1
      then show ?thesis using new by (simp add: nth_append heap_links_def i)
    next
      case 2
      have "holds_slots (D i) (vss ! i)" "links_of (D i) = heap_links (length vss) i" using p i by (simp_all add: pages_hold_def)
      then show ?thesis using 2 D'(2) by (simp add: nth_append holds_slots_next set_next heap_links_def i)
    next
      case 3
      then have "holds_slots (D j) (vss ! j)" "links_of (D j) = heap_links (length vss) j" using p i by (simp_all add: pages_hold_def)
      then show ?thesis using 3 D'(1) by (auto simp: nth_append heap_links_def i)
    qed
  qed
  then show ?thesis by (simp add: pages_hold_def)
qed

subsection \<open>Insertion\<close>

text \<open>The tuple goes into the first page with room for it, or into a new page at the end.\<close>

fun heap_insert :: "slots list \<Rightarrow> u8 list \<Rightarrow> slots list \<times> nat \<times> nat" where
  "heap_insert [] bs = ([[Some bs]], 0, 0)"
| "heap_insert (vs # vss) bs =
     (case slots_insert vs bs of
        Some (vs', j) \<Rightarrow> (vs' # vss, 0, j)
      | None \<Rightarrow> let (r, p, j) = heap_insert vss bs in (vs # r, Suc p, j))"

definition tuple_ok :: "u8 list \<Rightarrow> bool" where
  "tuple_ok bs \<longleftrightarrow> bs \<noteq> [] \<and> int (length bs) + 28 \<le> PAGE_SIZE"

lemma tuple_ok_small: "tuple_ok bs \<Longrightarrow> bs \<noteq> [] \<and> int (length bs) < 2 ^ 30"
  by (simp add: tuple_ok_def PAGE_SIZE_def)

lemma data_view: "data_at s f = datas s f"
  by (simp add: datas_def)

lemma table_pagesD:
  assumes "table_pages H tok rel s vss"
  shows "vss \<noteq> []" "resident H tok rel s (length vss)" "pages_hold (datas s) vss" "i < length vss \<Longrightarrow> 0 \<le> pins s i"
    "i < length vss \<Longrightarrow> i < length (frames s)"
  using assms by (auto simp: table_pages_def resident_def dest: spec [of _ i])

lemma heap_ok_set_data:
  assumes "table_pages H tok rel s vss" "i < length vss" "holds_slots d vs" "links_of d = links_of (datas s i)"
  shows "table_pages H tok rel (set_data s i d) (vss[i := vs])"
  using assms pages_hold_upd [of "datas s" vss d vs i] resident_set_data [of i "length vss" H tok rel s d] table_pagesD(5) [OF assms(1,2)]
  by (simp add: table_pages_def)

context pool_parts
begin

lemma try_done:
  assumes h: "table_pages H tok rel s vss" and i: "i < length vss" and len: "length vss \<le> 100" and bs: "tuple_ok bs"
    and ins: "slots_insert (vss ! i) bs = Some (vs, j)"
  shows "\<exists>s'. insert_try H R bs s i = Inr (s', Inr \<lparr>rid_page = int i, rid_slot = int j\<rparr>) \<and> table_pages H tok rel s' (vss[i := vs])
    \<and> pins s' = pins s \<and> length (frames s') = length (frames s)"
proof -
  note o = table_pagesD [OF h]
  have hs: "holds_slots (datas s i) (vss ! i)" using o(3) i by (simp add: pages_hold_def)
  have "links_of (datas s i) = heap_links (length vss) i" using o(3) i by (simp add: pages_hold_def)
  then obtain d where d: "InsertTuple (datas s i) bs = Inr (d, Some \<lparr>rid_page = int i, rid_slot = int j\<rparr>)"
    "holds_slots d vs" "links_of d = links_of (datas s i)"
    using InsertTuple_holds [OF hs, of bs] tuple_ok_small [OF bs] ins heap_links_simps [OF i len] by auto
  have "insert_try H R bs s i = Inr (set_data s i d, Inr \<lparr>rid_page = int i, rid_slot = int j\<rparr>)"
    by (simp add: insert_try_def on_page_def data_view d(1))
  then show ?thesis using heap_ok_set_data [OF h i d(2,3)] by simp
qed

lemma InsertTuple_full:
  assumes "table_pages H tok rel s vss" "i < length vss" "tuple_ok bs" "slots_insert (vss ! i) bs = None"
  shows "InsertTuple (datas s i) bs = Inr (datas s i, None)"
  using InsertTuple_holds [of "datas s i" "vss ! i" bs] table_pagesD(3) [OF assms(1)] assms(2,4) tuple_ok_small [OF assms(3)]
  by (simp add: pages_hold_def)

lemma heap_ok_triv:
  assumes "table_pages H tok rel s vss" "i < length vss"
  shows "table_pages H tok rel (set_data s i (datas s i)) vss"
  using heap_ok_set_data [OF assms, of "datas s i" "vss ! i"] table_pagesD(3) [OF assms(1)] assms(2) by (simp add: pages_hold_def)

text \<open>Moving the pin from one frame to another.\<close>

lemma heap_unpin:
  assumes h: "table_pages H tok rel s vss" and i: "i < length vss" and pin: "0 < pins s i" and len: "length vss \<le> room"
  shows "\<exists>s'. UnpinPage H R s (int i) dirty = Inr (s', True) \<and> table_pages H tok rel s' vss \<and> pins s' = (pins s)(i := pins s i - 1)
    \<and> datas s' = datas s \<and> length (frames s') = length (frames s)"
  using resident_unpin [OF table_pagesD(2) [OF h] i pin len, of dirty] h pin by (auto simp: table_pages_def)

lemma heap_fetch:
  assumes h: "table_pages H tok rel s vss" and i: "i < length vss"
  shows "\<exists>s'. FetchPage H R s (int i) = Inr (s', Some i) \<and> table_pages H tok rel s' vss \<and> pins s' = (pins s)(i := pins s i + 1)
    \<and> datas s' = datas s \<and> length (frames s') = length (frames s)"
  using resident_fetch [OF table_pagesD(2) [OF h] i] h table_pagesD(4) [OF h i] by (auto simp: table_pages_def)

lemma try_next:
  assumes h: "table_pages H tok rel s vss" and i: "Suc i < length vss" and len: "length vss \<le> 100" "length vss \<le> room" and bs: "tuple_ok bs"
    and ins: "slots_insert (vss ! i) bs = None" and pin: "0 < pins s i"
  shows "\<exists>s'. insert_try H R bs s i = Inr (s', Inl (Suc i)) \<and> table_pages H tok rel s' vss
    \<and> pins s' = (pins s)(i := pins s i - 1, Suc i := pins s (Suc i) + 1) \<and> length (frames s') = length (frames s)"
proof -
  let ?s1 = "set_data s i (datas s i)"
  have il: "i < length vss" using i by simp
  have h1: "table_pages H tok rel ?s1 vss" by (rule heap_ok_triv [OF h il])
  note l = page_links [OF table_pagesD(3) [OF h1] il len(1)]
  obtain s2 where s2: "UnpinPage H R ?s1 (int i) False = Inr (s2, True)" "table_pages H tok rel s2 vss" "pins s2 = (pins s)(i := pins s i - 1)"
    "length (frames s2) = length (frames s)" using heap_unpin [OF h1 il _ len(2), of False] pin by auto
  obtain s3 where s3: "FetchPage H R s2 (int (Suc i)) = Inr (s3, Some (Suc i))" "table_pages H tok rel s3 vss"
    "pins s3 = (pins s2)(Suc i := pins s2 (Suc i) + 1)" "length (frames s3) = length (frames s2)" using heap_fetch [OF s2(2) i] by auto
  have "insert_try H R bs s i = Inr (s3, Inl (Suc i))"
    using l i s2(1) s3(1) by (simp add: insert_try_def on_page_def data_view InsertTuple_full [OF h il bs ins] INVALID_PAGE_ID_def add.commute)
  then show ?thesis using s2 s3 by (intro exI [of _ s3]) simp
qed

lemma try_new:
  assumes h: "table_pages H tok rel s vss" and i: "Suc i = length vss" and len: "length vss < 100" "length vss < length (frames s)" "length (frames s) \<le> cap" "length vss < room"
    and bs: "tuple_ok bs" and ins: "slots_insert (vss ! i) bs = None" and pin: "0 < pins s i"
  shows "\<exists>s'. insert_try H R bs s i = Inr (s', Inl (Suc i)) \<and> table_pages H tok rel s' (vss @ [[]])
    \<and> pins s' = (pins s)(i := pins s i - 1, Suc i := 1) \<and> length (frames s') = length (frames s)"
proof -
  let ?k = "length vss" and ?s1 = "set_data s i (datas s i)"
  have il: "i < ?k" using i by simp
  have h1: "table_pages H tok rel ?s1 vss" by (rule heap_ok_triv [OF h il])
  have d1: "datas ?s1 = datas s" using table_pagesD(5) [OF h il] by simp
  note l = page_links [OF table_pagesD(3) [OF h1] il less_imp_le [OF len(1)]]
  obtain s2 where s2: "NewPage H R ?s1 = Inr (s2, int ?k, Some ?k)" "resident H tok rel s2 (Suc ?k)" "pins s2 = (pins s)(?k := 1)"
    "\<forall>j. j \<noteq> ?k \<longrightarrow> datas s2 j = datas s j" "length (frames s2) = length (frames s)"
    using resident_new [OF table_pagesD(2) [OF h1]] len d1 by auto
  let ?d = "store32 (datas s i) 8 (word_of_int (int ?k))" let ?s3 = "set_data s2 i ?d"
  have f: "i < length (frames s2)" "?k < length (frames s2)" using table_pagesD(5) [OF h il] len(2) s2(5) by auto
  have d3: "datas ?s3 = (datas s2)(i := ?d)" using f by simp
  obtain d where d: "TablePage_Init (datas ?s3 ?k) (int ?k) PAGE_SIZE (int i) INVALID_PAGE_ID = Inr d"
    by (simp add: TablePage_Init_def field_defs in_page_def PAGE_SIZE_def)
  note dh = TablePage_Init_holds [OF d]
  let ?s4 = "set_data ?s3 ?k d"
  have d4: "datas ?s4 = (datas s2)(i := ?d, ?k := d)" using f d3 by simp
  have r4: "resident H tok rel ?s4 (Suc ?k)" using s2(2) il by (intro resident_set_data) auto
  have "pages_hold (datas ?s4) (vss @ [[]])"
    by (rule pages_hold_append [OF table_pagesD(3) [OF h] table_pagesD(1) [OF h], of i])
      (use i len(1) d4 s2(4) dh in \<open>auto simp: INVALID_PAGE_ID_def\<close>)
  then have h4: "table_pages H tok rel ?s4 (vss @ [[]])" using r4 s2(3) table_pagesD(4) [OF h] by (auto simp: table_pages_def not_less_eq_eq less_Suc_eq)
  have id4: "GetPageId (datas ?s3 i) = Inr (int i)" "GetPageId (datas ?s4 i) = Inr (int i)"
    using page_links(1) [OF table_pagesD(3) [OF h4], of i] len(1) il d3 d4 by (auto simp: set_next)
  obtain s5 where s5: "UnpinPage H R ?s4 (int i) True = Inr (s5, True)" "table_pages H tok rel s5 (vss @ [[]])"
    "pins s5 = (pins ?s4)(i := pins ?s4 i - 1)" "length (frames s5) = length (frames ?s4)"
    using heap_unpin [OF h4, of i True] il len(4) pin s2(3) by auto
  have "insert_try H R bs s i = Inr (s5, Inl ?k)"
    using l i il s2(1,4) s5(1) id4 d
    by (simp add: insert_try_def on_page_def data_view InsertTuple_full [OF h il bs ins] set_next(1) Let_def)
  then show ?thesis using s5 s2(3,5) i il by (intro exI [of _ s5]) (auto simp: fun_eq_iff)
qed

lemma heap_insert_loop_ok:
  assumes "table_pages H tok rel s vss" "i < length vss" "tuple_ok bs" "0 < pins s i"
    "length (frames s) \<le> 100" "length (frames s) \<le> cap" "m \<le> room" "m \<le> length (frames s)" "length vss \<le> m"
    "heap_insert (drop i vss) bs = (r, p, j)" "i + length r \<le> m"
  shows "\<exists>s'. heap_insert_loop H R bs s i = Some (Inr (s', i + p, \<lparr>rid_page = int (i + p), rid_slot = int j\<rparr>))
    \<and> table_pages H tok rel s' (take i vss @ r) \<and> p < length r
    \<and> pins s' = (\<lambda>q. pins s q - (if q = i then 1 else 0) + (if q = i + p then 1 else 0)) \<and> length (frames s') = length (frames s)"
  using assms
proof (induction "length vss - i" arbitrary: s i r p)
  case (Suc n)
  note h = Suc.prems(1) and i = Suc.prems(2) and bs = Suc.prems(3) and pin = Suc.prems(4) and caps = Suc.prems(5-9)
  have fr: "length vss \<le> length (frames s)" using table_pagesD(2) [OF h] by (simp add: resident_def)
  have dr: "drop i vss = vss ! i # drop (Suc i) vss" using i by (simp add: Cons_nth_drop_Suc)
  show ?case
  proof (cases "slots_insert (vss ! i) bs")
    case (Some x)
    then obtain vs' where x: "slots_insert (vss ! i) bs = Some (vs', j)" and r: "r = vs' # drop (Suc i) vss" "p = 0"
      using Suc.prems(10) dr by (cases x) auto
    obtain s' where "insert_try H R bs s i = Inr (s', Inr \<lparr>rid_page = int i, rid_slot = int j\<rparr>)" "table_pages H tok rel s' (vss[i := vs'])"
      "pins s' = pins s" "length (frames s') = length (frames s)" using try_done [OF h i _ bs x] fr caps by auto
    moreover have "vss[i := vs'] = take i vss @ r" using i r by (simp add: upd_conv_take_nth_drop)
    ultimately show ?thesis using r by (auto simp: heap_insert_loop.simps)
  next
    case None
    obtain r' p' where r': "heap_insert (drop (Suc i) vss) bs = (r', p', j)" "r = vss ! i # r'" "p = Suc p'"
      using Suc.prems(10) dr None by (auto split: prod.splits)
    have tk: "take (Suc i) vss @ r' = take i vss @ r" using i r'(2) by (simp add: take_Suc_conv_app_nth)
    show ?thesis
    proof (cases "Suc i < length vss")
      case True
      obtain s1 where s1: "insert_try H R bs s i = Inr (s1, Inl (Suc i))" "table_pages H tok rel s1 vss"
        "pins s1 = (pins s)(i := pins s i - 1, Suc i := pins s (Suc i) + 1)" "length (frames s1) = length (frames s)"
        using try_next [OF h True _ _ bs None pin] fr caps by auto
      have "0 < pins s1 (Suc i)" using s1(3) table_pagesD(4) [OF h True] by simp
      moreover have "n = length vss - Suc i" using Suc.hyps(2) by simp
      ultimately obtain s' where s': "heap_insert_loop H R bs s1 (Suc i) = Some (Inr (s', Suc i + p', \<lparr>rid_page = int (Suc i + p'), rid_slot = int j\<rparr>))"
        "table_pages H tok rel s' (take (Suc i) vss @ r')" "p' < length r'"
        "pins s' = (\<lambda>q. pins s1 q - (if q = Suc i then 1 else 0) + (if q = Suc i + p' then 1 else 0))" "length (frames s') = length (frames s1)"
        using Suc.hyps(1) [of "Suc i" s1 r' p'] s1 True bs caps r' Suc.prems(11) by auto
      moreover have "heap_insert_loop H R bs s i = heap_insert_loop H R bs s1 (Suc i)" by (subst heap_insert_loop.simps) (simp add: s1(1))
      moreover have "pins s' = (\<lambda>q. pins s q - (if q = i then 1 else 0) + (if q = i + p then 1 else 0))"
        using s'(4) s1(3) r'(3) by (auto simp: fun_eq_iff)
      ultimately show ?thesis using tk r' s1(4) by auto
    next
      case False
      then have last: "Suc i = length vss" using i by simp
      then have r0: "r' = [[Some bs]]" "p' = 0" "j = 0" using r'(1) by auto
      have room: "length vss < length (frames s)" "length vss < room" using Suc.prems(11) r'(2) r0 last caps by simp_all
      obtain s1 where s1: "insert_try H R bs s i = Inr (s1, Inl (Suc i))" "table_pages H tok rel s1 (vss @ [[]])"
        "pins s1 = (pins s)(i := pins s i - 1, Suc i := 1)" "length (frames s1) = length (frames s)"
        using try_new [OF h last _ room(1) _ room(2) bs None pin] room caps by auto
      have "slots_insert ((vss @ [[]]) ! Suc i) bs = Some ([Some bs], 0)"
        using bs last by (simp add: slots_insert_def free_space_def used_space_def tuple_ok_def PAGE_SIZE_def)
      then obtain s' where s': "insert_try H R bs s1 (Suc i) = Inr (s', Inr \<lparr>rid_page = int (Suc i), rid_slot = int 0\<rparr>)"
        "table_pages H tok rel s' ((vss @ [[]])[Suc i := [Some bs]])" "pins s' = pins s1" "length (frames s') = length (frames s1)"
        using try_done [OF s1(2), of "Suc i" bs "[Some bs]" 0] bs last room caps by auto
      have l: "heap_insert_loop H R bs s i = Some (Inr (s', Suc i, \<lparr>rid_page = int (Suc i), rid_slot = int 0\<rparr>))"
        using s1(1) s'(1) by (simp add: heap_insert_loop.simps [of _ _ _ s] heap_insert_loop.simps [of _ _ _ s1])
      have e: "(vss @ [[]])[Suc i := [Some bs]] = take i vss @ r" unfolding tk [symmetric] using last r0 by simp
      have "pins s (Suc i) = 0" using table_pagesD(2) [OF h] room last by (simp add: resident_def pins_def)
      then have "pins s' = (\<lambda>q. pins s q - (if q = i then 1 else 0) + (if q = i + p then 1 else 0))"
        using s'(3) s1(3) r'(3) r0 by (auto simp: fun_eq_iff)
      then show ?thesis using l s' s1(4) e r' r0 by auto
    qed
  qed
qed simp

lemma heap_insert_ok:
  assumes h: "table_pages H tok rel s vss" and bs: "tuple_ok bs"
    and caps: "length (frames s) \<le> 100" "length (frames s) \<le> cap" "m \<le> room" "m \<le> length (frames s)" "length vss \<le> m"
    and r: "heap_insert vss bs = (r, p, j)" "length r \<le> m"
  shows "\<exists>s'. heap_InsertTuple H R s 0 bs = Inr (s', Some \<lparr>rid_page = int p, rid_slot = int j\<rparr>) \<and> table_pages H tok rel s' r
    \<and> pins s' = pins s \<and> length (frames s') = length (frames s)"
proof -
  have l0: "0 < length vss" using table_pagesD(1) [OF h] by simp
  obtain s1 where s1: "FetchPage H R s (int 0) = Inr (s1, Some 0)" "table_pages H tok rel s1 vss" "pins s1 = (pins s)(0 := pins s 0 + 1)"
    "length (frames s1) = length (frames s)" using heap_fetch [OF h l0] by auto
  have "0 < pins s1 0" using s1(3) table_pagesD(4) [OF h l0] by simp
  then obtain s2 where s2: "heap_insert_loop H R bs s1 0 = Some (Inr (s2, p, \<lparr>rid_page = int p, rid_slot = int j\<rparr>))"
    "table_pages H tok rel s2 r" "p < length r" "pins s2 = (\<lambda>q. pins s1 q - (if q = 0 then 1 else 0) + (if q = p then 1 else 0))"
    "length (frames s2) = length (frames s1)"
    using heap_insert_loop_ok [OF s1(2) l0 bs, of m r p j] s1(4) caps r by auto
  have rl: "length r \<le> 100" "length r \<le> room" using r(2) caps by auto
  have "0 \<le> pins s p"
  proof (cases "p < length vss")
    case False
    then have "pins s p = 0" using table_pagesD(2) [OF h] s2(3) r(2) caps(4) by (simp add: resident_def pins_def)
    then show ?thesis by simp
  qed (rule table_pagesD(4) [OF h])
  then have "0 < pins s2 p" using s2(4) s1(3) by auto
  then obtain s3 where s3: "UnpinPage H R s2 (int p) True = Inr (s3, True)" "table_pages H tok rel s3 r" "pins s3 = (pins s2)(p := pins s2 p - 1)"
    "length (frames s3) = length (frames s2)" using heap_unpin [OF s2(2,3) _ rl(2), of True] by auto
  have "GetPageId (datas s2 p) = Inr (int p)" using page_links(1) [OF table_pagesD(3) [OF s2(2)] s2(3)] r(2) caps by simp
  then have "heap_InsertTuple H R s 0 bs = Inr (s3, Some \<lparr>rid_page = int p, rid_slot = int j\<rparr>)"
    using bs s1(1) s2(1) s3(1) by (simp add: heap_InsertTuple_def tuple_ok_def data_view)
  moreover have "pins s3 = pins s" using s3(3) s2(4) s1(3) by (auto simp: fun_eq_iff)
  ultimately show ?thesis using s3 s2 s1 by auto
qed

text \<open>Fetching a page, an operation on it, and unpinning it.\<close>

lemma heap_page_op:
  assumes h: "table_pages H tok rel s vss" and i: "i < length vss" and len: "length vss \<le> 100" "length vss \<le> room"
    and g: "g (datas s i) = Inr (d, b)" "holds_slots d vs" "links_of d = links_of (datas s i)"
  shows "\<exists>s'. and_then (FetchPage H R s (int i)) (\<lambda>(s1, pg). case pg of None \<Rightarrow> X s1
      | Some f \<Rightarrow> and_then (on_page s1 f g) (\<lambda>(s2, b). and_then (GetPageId (data_at s2 f)) (\<lambda>pid.
          and_then (UnpinPage H R s2 pid b) (\<lambda>(s3, _). Inr (s3, b))))) = Inr (s', b)
    \<and> table_pages H tok rel s' (vss[i := vs]) \<and> pins s' = pins s \<and> length (frames s') = length (frames s)"
proof -
  obtain s1 where s1: "FetchPage H R s (int i) = Inr (s1, Some i)" "table_pages H tok rel s1 vss" "pins s1 = (pins s)(i := pins s i + 1)"
    "datas s1 = datas s" "length (frames s1) = length (frames s)" using heap_fetch [OF h i] by auto
  let ?s2 = "set_data s1 i d"
  have h2: "table_pages H tok rel ?s2 (vss[i := vs])" using heap_ok_set_data [OF s1(2) i g(2)] g(3) s1(4) by simp
  have i2: "i < length (vss[i := vs])" using i by simp
  obtain s3 where s3: "UnpinPage H R ?s2 (int i) b = Inr (s3, True)" "table_pages H tok rel s3 (vss[i := vs])"
    "pins s3 = (pins ?s2)(i := pins ?s2 i - 1)" "length (frames s3) = length (frames ?s2)"
    using heap_unpin [OF h2 i2, of b] s1(3) table_pagesD(4) [OF h i] len(2) by auto
  have "GetPageId (datas ?s2 i) = Inr (int i)" using page_links(1) [OF table_pagesD(3) [OF h2] i2] len(1) by simp
  then have "GetPageId (data_at ?s2 i) = Inr (int i)" by (simp add: data_view)
  then have e: "and_then (FetchPage H R s (int i)) (\<lambda>(s1, pg). case pg of None \<Rightarrow> X s1
      | Some f \<Rightarrow> and_then (on_page s1 f g) (\<lambda>(s2, b). and_then (GetPageId (data_at s2 f)) (\<lambda>pid.
          and_then (UnpinPage H R s2 pid b) (\<lambda>(s3, _). Inr (s3, b))))) = Inr (s3, b)"
    using s1(1) s3(1) g(1) s1(4) by (simp add: on_page_def data_view del: get_fields)
  show ?thesis unfolding e using s3 s1(3,5) by (auto simp: fun_eq_iff)
qed

lemma heap_delete_ok:
  assumes h: "table_pages H tok rel s vss" and i: "i < length vss" and len: "length vss \<le> 100" "length vss \<le> room"
  shows "\<exists>s'. heap_DeleteTuple H R s \<lparr>rid_page = int i, rid_slot = int j\<rparr> = Inr (s', slot_at (vss ! i) j \<noteq> None)
    \<and> table_pages H tok rel s' (vss[i := fst (slots_step (vss ! i) (Delete_Op j))]) \<and> pins s' = pins s \<and> length (frames s') = length (frames s)"
proof -
  have hs: "holds_slots (datas s i) (vss ! i)" using table_pagesD(3) [OF h] i by (simp add: pages_hold_def)
  obtain d where d: "page_step (datas s i) (Delete_Op j) = Inr (d, snd (slots_step (vss ! i) (Delete_Op j)))"
    "holds_slots d (fst (slots_step (vss ! i) (Delete_Op j)))" "links_of d = links_of (datas s i)"
    using page_step_holds [OF hs, of "Delete_Op j"] by auto
  have "DeleteTuple (datas s i) \<lparr>rid_page = int i, rid_slot = int j\<rparr> = Inr (d, slot_at (vss ! i) j \<noteq> None)"
    using d(1) unfolding page_step.simps page_links(3) [OF table_pagesD(3) [OF h] i len(1)]
    by (auto simp: and_then_Inr split: option.splits)
  then show ?thesis unfolding heap_DeleteTuple_def rid.simps
    by (intro heap_page_op [where g = "\<lambda>d. DeleteTuple d \<lparr>rid_page = int i, rid_slot = int j\<rparr>", OF h i len _ d(2,3)])
qed

lemma heap_update_ok:
  assumes h: "table_pages H tok rel s vss" and i: "i < length vss" and len: "length vss \<le> 100" "length vss \<le> room"
    and bs: "bs \<noteq> []" "int (length bs) < 2 ^ 30"
  shows "\<exists>s' b. heap_UpdateTuple H R s bs \<lparr>rid_page = int i, rid_slot = int j\<rparr> = Inr (s', b)
    \<and> snd (slots_step (vss ! i) (Update_Op j bs)) = Done b
    \<and> table_pages H tok rel s' (vss[i := fst (slots_step (vss ! i) (Update_Op j bs))]) \<and> pins s' = pins s \<and> length (frames s') = length (frames s)"
proof -
  have hs: "holds_slots (datas s i) (vss ! i)" using table_pagesD(3) [OF h] i by (simp add: pages_hold_def)
  obtain d where d: "page_step (datas s i) (Update_Op j bs) = Inr (d, snd (slots_step (vss ! i) (Update_Op j bs)))"
    "holds_slots d (fst (slots_step (vss ! i) (Update_Op j bs)))" "links_of d = links_of (datas s i)"
    using page_step_holds [OF hs, of "Update_Op j bs"] bs by auto
  obtain b where b: "UpdateTuple (datas s i) bs \<lparr>rid_page = int i, rid_slot = int j\<rparr> = Inr (d, b)" "snd (slots_step (vss ! i) (Update_Op j bs)) = Done b"
    using d(1) unfolding page_step.simps page_links(3) [OF table_pagesD(3) [OF h] i len(1)] by (auto simp: and_then_Inr)
  have "\<exists>s'. heap_UpdateTuple H R s bs \<lparr>rid_page = int i, rid_slot = int j\<rparr> = Inr (s', b)
    \<and> table_pages H tok rel s' (vss[i := fst (slots_step (vss ! i) (Update_Op j bs))]) \<and> pins s' = pins s \<and> length (frames s') = length (frames s)"
    unfolding heap_UpdateTuple_def rid.simps
    by (intro heap_page_op [where g = "\<lambda>d. UpdateTuple d bs \<lparr>rid_page = int i, rid_slot = int j\<rparr>", OF h i len b(1) d(2,3)])
  then show ?thesis using b(2) by blast
qed

text \<open>Reading a page.\<close>

lemma heap_read_op:
  assumes h: "table_pages H tok rel s vss" and i: "i < length vss" and len: "length vss \<le> room"
  obtains s1 s2 where "FetchPage H R s (int i) = Inr (s1, Some i)" "datas s1 = datas s" "UnpinPage H R s1 (int i) False = Inr (s2, True)"
    "table_pages H tok rel s2 vss" "pins s2 = pins s" "datas s2 = datas s" "length (frames s2) = length (frames s)"
proof -
  obtain s1 where s1: "FetchPage H R s (int i) = Inr (s1, Some i)" "table_pages H tok rel s1 vss" "pins s1 = (pins s)(i := pins s i + 1)"
    "datas s1 = datas s" "length (frames s1) = length (frames s)" using heap_fetch [OF h i] by auto
  obtain s2 where "UnpinPage H R s1 (int i) False = Inr (s2, True)" "table_pages H tok rel s2 vss" "pins s2 = (pins s1)(i := pins s1 i - 1)"
    "datas s2 = datas s1" "length (frames s2) = length (frames s1)" using heap_unpin [OF s1(2) i _ len, of False] s1(3) table_pagesD(4) [OF h i] by auto
  then show ?thesis using s1 by (intro that [of s1 s2]) auto
qed

lemma heap_get_ok:
  assumes h: "table_pages H tok rel s vss" and i: "i < length vss" and len: "length vss \<le> 100" "length vss \<le> room"
  shows "\<exists>s' t. heap_GetTuple H R s \<lparr>rid_page = int i, rid_slot = int j\<rparr> = Inr (s', t) \<and> map_option (ref_bytes s') t = slot_at (vss ! i) j
    \<and> table_pages H tok rel s' vss \<and> pins s' = pins s \<and> datas s' = datas s \<and> length (frames s') = length (frames s)"
proof -
  have hs: "holds_slots (datas s i) (vss ! i)" using table_pagesD(3) [OF h] i by (simp add: pages_hold_def)
  obtain s1 s2 where v: "FetchPage H R s (int i) = Inr (s1, Some i)" "datas s1 = datas s" "UnpinPage H R s1 (int i) False = Inr (s2, True)"
    "table_pages H tok rel s2 vss" "pins s2 = pins s" "datas s2 = datas s" "length (frames s2) = length (frames s)"
    by (rule heap_read_op [OF h i len(2)])
  note rid = page_links(3) [OF table_pagesD(3) [OF h] i len(1), of j]
  have "\<exists>t. GetTuple (datas s i) \<lparr>rid_page = int i, rid_slot = int j\<rparr> = Inr t \<and> map_option (tuple_bytes (datas s i)) t = slot_at (vss ! i) j"
  proof (cases "slot_at (vss ! i) j")
    case None
    then show ?thesis using empty_slot(1) [OF hs None] rid by simp
  next
    case (Some bs)
    then have "j < length (vss ! i)" "vss ! i ! j = Some bs" by (auto simp: slot_at_def split: if_splits)
    then show ?thesis using GetTuple_live [OF hs] rid Some by fastforce
  qed
  then obtain t where t: "GetTuple (datas s i) \<lparr>rid_page = int i, rid_slot = int j\<rparr> = Inr t" "map_option (tuple_bytes (datas s i)) t = slot_at (vss ! i) j" by blast
  have "heap_GetTuple H R s \<lparr>rid_page = int i, rid_slot = int j\<rparr> = Inr (s2, map_option (Pair i) t)"
    using v(1,2,3) t(1) by (simp add: heap_GetTuple_def data_view)
  moreover have "map_option (ref_bytes s2) (map_option (Pair i) t) = slot_at (vss ! i) j"
    using t(2) v(6) by (simp add: option.map_comp comp_def ref_bytes_def data_view)
  ultimately show ?thesis using v by blast
qed

end

end
