(* ===== verification/Buffer_Props.thy ===== *)
theory Buffer_Props
  imports Buffer_Correct
begin

section \<open>Properties of the buffer pool with its hash tables\<close>

text \<open>
  The buffer pool as the constructor builds it: an extendible hash table with pages of 100 elements as page table and
  the LRU replacer with its table of 8 as replacer.
\<close>

type_synonym page_map = "(int, nat) ext_hash"
type_synonym replacer_state = "((nat, nat) ext_hash, nat) lru"

definition BufferPoolManager :: "nat \<Rightarrow> disk \<Rightarrow> (page_map, replacer_state) pool" where
  "BufferPoolManager pool_size dk = new_pool pool_size (new_ext_hash 100) (new_lru (new_ext_hash 8)) dk"

abbreviation pt :: "(int \<Rightarrow> nat) \<Rightarrow> (page_map, int, nat) hash_table" where "pt hash \<equiv> ext_class hash"
abbreviation lru_of :: "(nat \<Rightarrow> nat) \<Rightarrow> (replacer_state, nat) replacer_class" where "lru_of hash \<equiv> lru_class (ext_class hash)"

interpretation bpm: pool_parts "ext_class hp" "one_page 100" 100 "lru_class (ext_class hf)" "lru_rel (ext_class hf) (one_page 8) 8" 8
  for hp :: "int \<Rightarrow> nat" and hf :: "nat \<Rightarrow> nat" ..

lemma one_page_new: "one_page sz (new_ext_hash sz)" "ext_find hash (new_ext_hash sz) = Map.empty"
  by (simp_all add: one_page_def new_ext_hash_def new_hash_page_def ext_find_def page_at_def fun_eq_iff)

lemma BufferPoolManager_inv:
  "client_inv (pt hp) (one_page 100) (lru_rel (ext_class hf) (one_page 8) 8) n (BufferPoolManager n new_disk, Map.empty)"
  unfolding BufferPoolManager_def
  by (rule bpm.new_pool_inv)
    (simp_all add: one_page_new ext_class_def lru_rel_def new_lru_def node_map_def)

lemma clients_ok:
  assumes "n \<le> 100" and "(client (pt hp) (lru_of hf) 8)\<^sup>*\<^sup>* (BufferPoolManager n new_disk, Map.empty) (s, A)"
  obtains xs where "pool_ok (pt hp) (one_page 100) (lru_rel (ext_class hf) (one_page 8) 8) s xs" "pool_holds (pt hp) s A" "length (frames s) = n"
  using bpm.clients_inv [OF assms(2) BufferPoolManager_inv] assms(1) by (auto simp: client_inv_def)

abbreviation bp_ok :: "(int \<Rightarrow> nat) \<Rightarrow> (nat \<Rightarrow> nat) \<Rightarrow> (page_map, replacer_state) pool \<Rightarrow> nat list \<Rightarrow> bool" where
  "bp_ok hp hf \<equiv> pool_ok (pt hp) (one_page 100) (lru_rel (ext_class hf) (one_page 8) 8)"

text \<open>A pool of one frame after its first page was created.\<close>

lemma first_page:
  obtains s where "NewPage (pt hp) (lru_of hf) (BufferPoolManager 1 new_disk) = Inr (s, 0, Some 0)"
    "bp_ok hp hf s []" "pool_holds (pt hp) s [0 \<mapsto> replicate 4096 0]" "ht_find (pt hp) (page_table s) 0 = Some 0"
    "length (frames s) = 1" "free_list s = []" "pin_count (frame_at s 0) = 1" "next_page_id (disk_manager s) = 1"
    "(client (pt hp) (lru_of hf) 8)\<^sup>*\<^sup>* (BufferPoolManager 1 new_disk, Map.empty) (s, [0 \<mapsto> replicate 4096 0])"
proof -
  let ?s = "BufferPoolManager 1 new_disk" and ?A = "[0 \<mapsto> replicate 4096 0] :: contents"
  obtain xs where ok: "bp_ok hp hf ?s xs" "pool_holds (pt hp) ?s Map.empty" "length (frames ?s) = 1"
    using BufferPoolManager_inv [of hp hf 1] by (auto simp: client_inv_def)
  have p: "page_ok (next_page_id (disk_manager ?s))" "next_page_id (disk_manager ?s) = 0" "pin_count (frame_at ?s 0) = 0"
    by (simp_all add: BufferPoolManager_def new_pool_def new_disk_def page_ok_def new_frame_def)
  with bpm.new_ok [OF ok(1,2) _ p(1)] ok(3) obtain s f where s: "NewPage (pt hp) (lru_of hf) ?s = Inr (s, 0, Some f)"
    "fetched (pt hp) (one_page 100) (lru_rel (ext_class hf) (one_page 8) 8) ?A 0 f s" "length (frames s) = 1" by auto
  then obtain ys where f: "ht_find (pt hp) (page_table s) 0 = Some f" "0 < pin_count (frame_at s f)" "bp_ok hp hf s ys" "pool_holds (pt hp) s ?A"
    by (auto simp: fetched_def)
  have f0: "f = 0" "frame_page (frame_at s 0) = 0" using pool_onD(5) [OF f(3), of 0 f] f(1) s(3) by auto
  have "g \<notin> set ys" for g using pool_onD(7) [OF f(3), of g] f0 f(2) s(3) by (cases "g = 0") simp_all
  then have e1: "ys = []" by (cases ys) auto
  have "g \<notin> set (free_list s)" for g
    using pool_onD(6) [OF f(3), of g] f0 s(3) by (cases "g = 0") (simp_all add: INVALID_PAGE_ID_def)
  then have e2: "free_list s = []" by (cases "free_list s") auto
  let ?first = "?s\<lparr>disk_manager := new_disk\<lparr>next_page_id := 1\<rparr>, free_list := []\<rparr>"
  let ?pg = "ResetMemory (frame_at ?first 0)"
  have np: "NewPage (pt hp) (lru_of hf) ?s = and_then (ht_insert (pt hp) (page_table ?s) 0 0)
      (\<lambda>t. Inr ((set_frame ?first 0 (?pg\<lparr>pin_count := pin_count ?pg + 1, frame_page := 0\<rparr>))\<lparr>page_table := t\<rparr>, 0, Some 0))"
    by (simp add: NewPage_def AllocatePage_def take_frame_def BufferPoolManager_def new_pool_def new_disk_def Let_def)
  from s(1) [unfolded np and_then_Inr] obtain t where "s = (set_frame ?first 0 (?pg\<lparr>pin_count := pin_count ?pg + 1, frame_page := 0\<rparr>))\<lparr>page_table := t\<rparr>"
    by auto
  then have "pin_count (frame_at s 0) = 1 \<and> next_page_id (disk_manager s) = 1"
    using ok(3) p(3) by (simp add: set_frame_def ResetMemory_def)
  moreover have "client (pt hp) (lru_of hf) 8 (?s, Map.empty) (s, ?A)"
    using client.new [of "pt hp" "lru_of hf", OF s(1) p(1), of 8 Map.empty] by simp
  ultimately show ?thesis using s f f0 e1 e2 by (intro that [of s]) auto
qed

lemma distinct_single: "distinct xs \<Longrightarrow> set xs = {x} \<Longrightarrow> xs = [x]"
proof -
  assume "distinct xs" and s: "set xs = {x}"
  then have "length xs = Suc 0" using distinct_card [of xs] by simp
  then obtain y where "xs = [y]" by (cases xs) simp_all
  with s show ?thesis by simp
qed

lemma only_page:
  assumes "bp_ok hp hf s xs" and "length (frames s) = 1" and "frame_page (frame_at s 0) = p" and "q \<noteq> p"
  shows "ht_find (pt hp) (page_table s) q = None"
proof (rule ccontr)
  assume "ht_find (pt hp) (page_table s) q \<noteq> None"
  then obtain g where "ht_find (pt hp) (page_table s) q = Some g" by blast
  then have "g < length (frames s) \<and> True \<and> frame_page (frame_at s g) = q \<and> q \<noteq> INVALID_PAGE_ID"
    by (rule iffD1 [OF pool_onD(5) [OF assms(1)]])
  with assms(2-4) show False by auto
qed

text \<open>C9. Pages survive in a pool of up to 100 frames on an empty file, under clients that keep four rules (\<open>client\<close>): they
  fetch a page only when it is not in the pool or is pinned (never one that waits in the replacer), write only to pages
  they have pinned, unpin a page as clean only when the file has its contents, and let at most 8 pages wait in the
  replacer. In every state reached by such clients, \<open>FetchPage\<close> of a page under the first rule returns a pinned frame that
  holds what was last written to the page, wherever it has been in the meantime, or fails because all frames are pinned.\<close>

theorem buffer_pool_keeps_pages:
  assumes "n \<le> 100" and "(client (pt hp) (lru_of hf) 8)\<^sup>*\<^sup>* (BufferPoolManager n new_disk, Map.empty) (s, A)"
    and "A p = Some d" and "page_ok p" and "p < next_page_id (disk_manager s)"
    and "\<forall>f. ht_find (pt hp) (page_table s) p = Some f \<longrightarrow> 0 < pin_count (frame_at s f)"
  shows "(\<exists>s' f. FetchPage (pt hp) (lru_of hf) s p = Inr (s', Some f) \<and> page_bytes (frame_data (frame_at s' f)) = d
            \<and> frame_page (frame_at s' f) = p \<and> 0 < pin_count (frame_at s' f) \<and> (client (pt hp) (lru_of hf) 8)\<^sup>*\<^sup>* (BufferPoolManager n new_disk, Map.empty) (s', A))
       \<or> FetchPage (pt hp) (lru_of hf) s p = Inr (s, None) \<and> (\<forall>f < n. 0 < pin_count (frame_at s f))"
proof -
  obtain xs where ok: "pool_ok (pt hp) (one_page 100) (lru_rel (ext_class hf) (one_page 8) 8) s xs" "pool_holds (pt hp) s A" "length (frames s) = n"
    by (rule clients_ok [OF assms(1,2)])
  have len: "length (frames s) \<le> 100" using ok(3) assms(1) by simp
  from bpm.fetch_ok [OF ok(1,2) len assms(4,5)] assms(6)
  consider s' f where "FetchPage (pt hp) (lru_of hf) s p = Inr (s', Some f)"
      "fetched (pt hp) (one_page 100) (lru_rel (ext_class hf) (one_page 8) 8) A p f s'"
    | "FetchPage (pt hp) (lru_of hf) s p = Inr (s, None)" "\<forall>f < length (frames s). 0 < pin_count (frame_at s f)" by blast
  then show ?thesis
  proof cases
    case 1
    have "(client (pt hp) (lru_of hf) 8) (s, A) (s', A)" by (rule client.fetch [OF 1(1) assms(4,5,6)])
    with assms(2) have r: "(client (pt hp) (lru_of hf) 8)\<^sup>*\<^sup>* (BufferPoolManager n new_disk, Map.empty) (s', A)"
      by (rule rtranclp.rtrancl_into_rtrancl)
    obtain xs' where f: "ht_find (pt hp) (page_table s') p = Some f" "0 < pin_count (frame_at s' f)"
      "pool_ok (pt hp) (one_page 100) (lru_rel (ext_class hf) (one_page 8) 8) s' xs'" "pool_holds (pt hp) s' A"
      using 1(2) by (auto simp: fetched_def)
    have "page_bytes (frame_data (frame_at s' f)) = d" "frame_page (frame_at s' f) = p"
      using pool_holdsD [OF f(4) assms(3)] pool_onD(5) [OF f(3)] f(1) by (simp_all add: page_held_def)
    with 1(1) f(2) r show ?thesis by blast
  next
    case 2
    then show ?thesis using ok(3) by simp
  qed
qed

theorem buffer_pool_keeps_pages_witness:
  "\<exists>s s'. FetchPage (pt nat) (lru_of id) s 0 = Inr (s', Some 0) \<and> page_bytes (frame_data (frame_at s' 0)) = replicate 4096 0"
proof -
  obtain s where s: "ht_find (pt nat) (page_table s) 0 = Some 0" "pin_count (frame_at s 0) = 1" "next_page_id (disk_manager s) = 1"
    "(client (pt nat) (lru_of id) 8)\<^sup>*\<^sup>* (BufferPoolManager 1 new_disk, Map.empty) (s, [0 \<mapsto> replicate 4096 0])"
    by (rule first_page)
  have "page_ok 0" by (simp add: page_ok_def)
  moreover have "\<forall>f. ht_find (pt nat) (page_table s) 0 = Some f \<longrightarrow> 0 < pin_count (frame_at s f)" using s by simp
  ultimately obtain s' f where "FetchPage (pt nat) (lru_of id) s 0 = Inr (s', Some f)" "page_bytes (frame_data (frame_at s' f)) = replicate 4096 0"
    using buffer_pool_keeps_pages [OF _ s(4), of 0 "replicate 4096 0"] s(1,3) by (auto simp: FetchPage_def)
  moreover have "f = 0" using calculation(1) s(1) by (simp add: FetchPage_def)
  ultimately show ?thesis by blast
qed

text \<open>Shutting down: \<open>FlushAllPages\<close>, which the destructor calls, leaves every page in the file that no client has pinned.\<close>

theorem flush_all_durable:
  assumes "n \<le> 100" and "(client (pt hp) (lru_of hf) 8)\<^sup>*\<^sup>* (BufferPoolManager n new_disk, Map.empty) (s, A)"
  shows "\<exists>dk. FlushAllPages s = Inr (s\<lparr>disk_manager := dk\<rparr>)
    \<and> (\<forall>p d. page_ok p \<longrightarrow> A p = Some d \<longrightarrow>
         (\<forall>f. ht_find (pt hp) (page_table s) p = Some f \<longrightarrow> pin_count (frame_at s f) = 0 \<or> is_dirty (frame_at s f)) \<longrightarrow> stored dk p d)"
proof -
  obtain xs where ok: "pool_ok (pt hp) (one_page 100) (lru_rel (ext_class hf) (one_page 8) 8) s xs" "pool_holds (pt hp) s A"
    by (rule clients_ok [OF assms])
  show ?thesis by (rule bpm.flush_all_ok [OF ok])
qed

theorem flush_all_durable_witness:
  "\<exists>(s :: (page_map, replacer_state) pool) dk. FlushAllPages s = Inr (s\<lparr>disk_manager := dk\<rparr>) \<and> ht_find (pt nat) (page_table s) 0 = Some 0 \<and> stored dk 0 (replicate 4096 0)"
proof -
  obtain s where s: "bp_ok nat id s []" "pool_holds (pt nat) s [0 \<mapsto> replicate 4096 0]" "ht_find (pt nat) (page_table s) 0 = Some 0"
    "length (frames s) = 1" "pin_count (frame_at s 0) = 1"
    "(client (pt nat) (lru_of id) 8)\<^sup>*\<^sup>* (BufferPoolManager 1 new_disk, Map.empty) (s, [0 \<mapsto> replicate 4096 0])"
    by (rule first_page)
  have w: "card (waiting s) < 8" using waiting_less [of 0 s 8] s(4,5) by simp
  obtain s' where u: "UnpinPage (pt nat) (lru_of id) s 0 True = Inr (s', True)" "pin_count (frame_at s' 0) = 0"
    using bpm.unpin_ok [OF s(1,2) w s(3), of True] s(5) by auto
  have t: "ht_find (pt nat) (page_table s') 0 = Some 0"
    using u(1) s(3,5) by (auto simp: UnpinPage_def Let_def and_then_Inr)
  have "(client (pt nat) (lru_of id) 8)\<^sup>*\<^sup>* (BufferPoolManager 1 new_disk, Map.empty) (s', [0 \<mapsto> replicate 4096 0])"
    using s(6) client.unpin [OF u(1) _ w, of "[0 \<mapsto> replicate 4096 0]"] by (simp add: rtranclp.rtrancl_into_rtrancl)
  from flush_all_durable [OF _ this] obtain dk where "FlushAllPages s' = Inr (s'\<lparr>disk_manager := dk\<rparr>)" "stored dk 0 (replicate 4096 0)"
    using t u(2) by (auto simp: page_ok_def)
  with t show ?thesis by blast
qed

text \<open>C35. A pinned page is evicted: \<open>FetchPage\<close> of a page that waits in the replacer pins it without taking it out of the
  replacer; when no frame is free, the next \<open>FetchPage\<close> of another page takes the frame away from the client that has pinned it.\<close>

theorem fetch_evicts_pinned:
  assumes "bp_ok hp hf s (f # ys)" and "length (frames s) \<le> 100" and "free_list s = []"
    and "ht_find (pt hp) (page_table s) p = Some f" and "page_ok q" and "ht_find (pt hp) (page_table s) q = None"
  shows "\<exists>s1 s2. FetchPage (pt hp) (lru_of hf) s p = Inr (s1, Some f) \<and> pin_count (frame_at s1 f) = 1
    \<and> FetchPage (pt hp) (lru_of hf) s1 q = Inr (s2, Some f)
    \<and> frame_page (frame_at s2 f) = q \<and> pin_count (frame_at s2 f) = 2 \<and> ht_find (pt hp) (page_table s2) p = None"
  by (rule bpm.hit_then_evict [OF assms])

lemma waiting_page:
  obtains s where "bp_ok hp hf s [0]" "length (frames s) = 1" "free_list s = []" "ht_find (pt hp) (page_table s) 0 = Some 0"
    "ht_find (pt hp) (page_table s) 1 = None"
proof -
  obtain s where s: "bp_ok hp hf s []" "pool_holds (pt hp) s [0 \<mapsto> replicate 4096 0]" "ht_find (pt hp) (page_table s) 0 = Some 0"
    "length (frames s) = 1" "free_list s = []" "pin_count (frame_at s 0) = 1" by (rule first_page)
  have w: "card (waiting s) < 8" using waiting_less [of 0 s 8] s(4,6) by simp
  obtain s' xs where u: "UnpinPage (pt hp) (lru_of hf) s 0 True = Inr (s', True)" "bp_ok hp hf s' xs" "length (frames s') = 1"
    "pin_count (frame_at s' 0) = 0"
    using bpm.unpin_ok [OF s(1,2) w s(3), of True] s(4,6) by auto
  have t: "page_table s' = page_table s" "free_list s' = []"
    using u(1) s(3,5,6) by (auto simp: UnpinPage_def Let_def and_then_Inr)
  then have f: "frame_page (frame_at s' 0) = 0" using pool_onD(5) [OF u(2), of 0 0] s(3) by simp
  have "g \<in> set xs \<longleftrightarrow> g = 0" for g
    using pool_onD(7) [OF u(2), of g] u(3,4) f by (cases "g = 0") (simp_all add: INVALID_PAGE_ID_def)
  then have "set xs = {0}" by blast
  then have "xs = [0]"
    using pool_onD(2) [OF u(2)] by (intro distinct_single) (simp_all add: lru_rel_def)
  moreover have "ht_find (pt hp) (page_table s') 1 = None" by (rule only_page [OF u(2,3) f]) simp
  ultimately show ?thesis using u t s(3) by (intro that [of s']) auto
qed

theorem fetch_evicts_pinned_witness:
  "\<exists>s s1 s2. FetchPage (pt nat) (lru_of id) s 0 = Inr (s1, Some 0) \<and> pin_count (frame_at s1 0) = 1
    \<and> FetchPage (pt nat) (lru_of id) s1 1 = Inr (s2, Some 0) \<and> frame_page (frame_at s2 0) = 1"
proof -
  obtain s where s: "bp_ok nat id s [0]" "length (frames s) = 1" "free_list s = []" "ht_find (pt nat) (page_table s) 0 = Some 0"
    "ht_find (pt nat) (page_table s) 1 = None" by (rule waiting_page)
  have "length (frames s) \<le> 100" "page_ok 1" using s(2) by (simp_all add: page_ok_def)
  from fetch_evicts_pinned [OF s(1) this(1) s(3,4) this(2) s(5)] show ?thesis by blast
qed

text \<open>An update is lost: \<open>UnpinPage\<close> overwrites the dirty flag, so when the last client unpins a page as clean it is evicted
  without being written, although an earlier client had unpinned it as dirty; the file keeps the old contents.\<close>

theorem unpin_loses_update:
  assumes "bp_ok hp hf s []" and "length (frames s) \<le> 8" and "free_list s = []"
    and "ht_find (pt hp) (page_table s) p = Some f" and "pin_count (frame_at s f) = 1" and "page_ok q" and "ht_find (pt hp) (page_table s) q = None"
  shows "\<exists>s1 s2. UnpinPage (pt hp) (lru_of hf) s p False = Inr (s1, True) \<and> FetchPage (pt hp) (lru_of hf) s1 q = Inr (s2, Some f)
    \<and> ht_find (pt hp) (page_table s2) p = None \<and> disk_manager s2 = disk_manager s"
  using assms by (intro bpm.unpin_then_evict) auto

theorem unpin_loses_update_witness:
  "\<exists>s s1 s2. UnpinPage (pt nat) (lru_of id) s 0 False = Inr (s1, True) \<and> FetchPage (pt nat) (lru_of id) s1 1 = Inr (s2, Some 0)
    \<and> disk_manager s2 = disk_manager s"
proof -
  obtain s where s: "bp_ok nat id s []" "ht_find (pt nat) (page_table s) 0 = Some 0" "length (frames s) = 1" "free_list s = []"
    "pin_count (frame_at s 0) = 1" by (rule first_page)
  have "length (frames s) \<le> 8" "page_ok 1" using s(3) by (simp_all add: page_ok_def)
  moreover have "ht_find (pt nat) (page_table s) 1 = None"
    using pool_onD(5) [OF s(1), of 0 0] s(2) by (intro only_page [OF s(1,3), of 0]) simp_all
  ultimately show ?thesis using unpin_loses_update [OF s(1) _ s(4,2,5), of 1] by blast
qed

end
