(* ===== verification/Table_Heap_Props.thy ===== *)
theory Table_Heap_Props
  imports Table_Heap_Correct Buffer_Props
begin

section \<open>Tables over the buffer pool\<close>

text \<open>
  Iterators over a table, sequences of operations on it, and the table over the buffer pool that the constructor builds.
\<close>

subsection \<open>Iterators\<close>

text \<open>The tuple that follows slot \<open>j\<close> of page \<open>i\<close> for an iterator: the next one of the page, or the first one of the next
  page. An iterator does not look further than that.\<close>

definition next_pos :: "slots list \<Rightarrow> nat \<Rightarrow> nat \<Rightarrow> (nat \<times> nat) option" where
  "next_pos vss i j =
     (case next_used (vss ! i) (Suc j) of
        Some k \<Rightarrow> Some (i, k)
      | None \<Rightarrow> if Suc i < length vss then map_option (Pair (Suc i)) (next_used (vss ! Suc i) 0) else None)"

definition pos_rid :: "(nat \<times> nat) option \<Rightarrow> rid" where
  "pos_rid p = (case p of None \<Rightarrow> invalid_rid | Some (i, j) \<Rightarrow> \<lparr>rid_page = int i, rid_slot = int j\<rparr>)"

text \<open>An iterator stands at a position and points to the tuple there.\<close>

definition at_pos :: "('t, 'r) pool \<Rightarrow> slots list \<Rightarrow> (nat \<times> nat) option \<Rightarrow> table_iterator \<Rightarrow> bool" where
  "at_pos s vss p it \<longleftrightarrow> it_rid it = pos_rid p \<and> (same_iterator it heap_end \<longleftrightarrow> p = None)
     \<and> (case p of None \<Rightarrow> True | Some (i, j) \<Rightarrow> map_option (ref_bytes s) (it_tuple it) = slot_at (vss ! i) j)"

lemma next_used_slot: "next_used vs i = Some j \<Longrightarrow> slot_at vs j \<noteq> None \<and> j < length vs"
proof -
  assume "next_used vs i = Some j"
  then have j: "j = i + length (takeWhile (\<lambda>v. v = None) (drop i vs))" "j < length vs" by (auto simp: next_used_def Let_def split: if_splits)
  then have "length (takeWhile (\<lambda>v. v = None) (drop i vs)) < length (drop i vs)" by simp
  then have "drop i vs ! length (takeWhile (\<lambda>v. v = None) (drop i vs)) \<noteq> None" by (rule nth_length_takeWhile)
  then show ?thesis using j by (simp add: slot_at_def)
qed

lemma same_end: "i < 2 ^ 31 \<Longrightarrow> j < 2 ^ 31 \<Longrightarrow> RID_Get \<lparr>rid_page = int i, rid_slot = int j\<rparr> \<noteq> RID_Get invalid_rid"
proof
  assume a: "i < 2 ^ 31" "j < 2 ^ 31" and e: "RID_Get \<lparr>rid_page = int i, rid_slot = int j\<rparr> = RID_Get invalid_rid"
  have "RID_of (RID_Get \<lparr>rid_page = int i, rid_slot = int j\<rparr>) = \<lparr>rid_page = int i, rid_slot = int j\<rparr>" using a by (subst rid_roundtrip) simp_all
  moreover have "RID_of (RID_Get invalid_rid) = invalid_rid" by (subst rid_roundtrip) (simp_all add: invalid_rid_def INVALID_PAGE_ID_def)
  ultimately show False using e by (simp add: invalid_rid_def)
qed

lemma slots_bound: "holds_slots d vs \<Longrightarrow> j < length vs \<Longrightarrow> j < 2 ^ 31"
  using holds_bounds(4) [of d vs] by simp

context pool_parts
begin

lemma load_ok:
  assumes h: "table_pages H tok rel s vss" and i: "i < length vss" and len: "length vss \<le> 100" "length vss \<le> room"
    and j: "slot_at (vss ! i) j \<noteq> None" "j < length (vss ! i)" and it: "it_rid it = pos_rid (Some (i, j))"
  shows "\<exists>s' it'. iter_load H R s it = Inr (s', it') \<and> at_pos s' vss (Some (i, j)) it' \<and> table_pages H tok rel s' vss \<and> pins s' = pins s
    \<and> length (frames s') = length (frames s)"
proof -
  obtain s' t where g: "heap_GetTuple H R s \<lparr>rid_page = int i, rid_slot = int j\<rparr> = Inr (s', t)" "map_option (ref_bytes s') t = slot_at (vss ! i) j"
    "table_pages H tok rel s' vss" "pins s' = pins s" "length (frames s') = length (frames s)" using heap_get_ok [OF h i len, of j] by blast
  obtain r where t: "t = Some r" using g(2) j by (cases t) auto
  have "holds_slots (datas s i) (vss ! i)" using table_pagesD(3) [OF h] i by (simp add: pages_hold_def)
  then have "j < 2 ^ 31" using slots_bound j(2) by blast
  then have "\<not> same_iterator (it\<lparr>it_tuple := Some r\<rparr>) heap_end"
    using same_end [of i j] i len(1) it by (simp add: same_iterator_def heap_end_def pos_rid_def)
  then have "at_pos s' vss (Some (i, j)) (it\<lparr>it_tuple := Some r\<rparr>)" using it g(2) t by (simp add: at_pos_def)
  moreover have "iter_load H R s it = Inr (s', it\<lparr>it_tuple := Some r\<rparr>)" using g(1) it t by (simp add: iter_load_def pos_rid_def)
  ultimately show ?thesis using g by blast
qed

lemma begin_ok:
  assumes h: "table_pages H tok rel s vss" and len: "length vss \<le> 100" "length vss \<le> room"
  shows "\<exists>s' it. heap_begin H R s 0 = Inr (s', it) \<and> at_pos s' vss (map_option (Pair 0) (next_used (vss ! 0) 0)) it \<and> table_pages H tok rel s' vss
    \<and> pins s' = pins s \<and> length (frames s') = length (frames s)"
proof -
  have l0: "0 < length vss" using table_pagesD(1) [OF h] by simp
  have hs: "holds_slots (datas s 0) (vss ! 0)" using table_pagesD(3) [OF h] l0 by (simp add: pages_hold_def)
  obtain s1 s2 where v: "FetchPage H R s (int 0) = Inr (s1, Some 0)" "datas s1 = datas s" "UnpinPage H R s1 (int 0) False = Inr (s2, True)"
    "table_pages H tok rel s2 vss" "pins s2 = pins s" "datas s2 = datas s" "length (frames s2) = length (frames s)"
    by (rule heap_read_op [OF h l0 len(2)])
  have b: "heap_begin H R s 0 = new_TableIterator H R s2 (pos_rid (map_option (Pair 0) (next_used (vss ! 0) 0)))"
    using v(1-3) GetFirstTupleRid_holds [OF hs] page_links(3) [OF table_pagesD(3) [OF h] l0 len(1)]
    by (auto simp: heap_begin_def data_view pos_rid_def split: option.splits)
  show ?thesis
  proof (cases "next_used (vss ! 0) 0")
    case None
    then have "heap_begin H R s 0 = Inr (s2, heap_end)" by (simp add: b new_TableIterator_def pos_rid_def invalid_rid_def heap_end_def)
    then show ?thesis using None v by (simp add: at_pos_def pos_rid_def heap_end_def same_iterator_def)
  next
    case (Some j)
    note j = next_used_slot [OF Some]
    have "heap_begin H R s 0 = iter_load H R s2 \<lparr>it_rid = pos_rid (Some (0, j)), it_tuple = None\<rparr>"
      by (simp add: b Some new_TableIterator_def pos_rid_def INVALID_PAGE_ID_def)
    then show ?thesis
      using load_ok [OF v(4) l0 len, of j "\<lparr>it_rid = pos_rid (Some (0, j)), it_tuple = None\<rparr>"] j v(5,7) by (simp add: Some)
  qed
qed

text \<open>The record identifier that \<open>operator++\<close> moves to.\<close>

lemma next_rid_ok:
  assumes h: "table_pages H tok rel s vss" and i: "i < length vss" and len: "length vss \<le> 100" "length vss \<le> room" and j: "int j < 2 ^ 31 - 1"
  obtains s1 s4 where "FetchPage H R s (int i) = Inr (s1, Some i)"
    "iter_next_rid H R s1 i \<lparr>rid_page = int i, rid_slot = int j\<rparr> = Inr (s4, pos_rid (next_pos vss i j))"
    "table_pages H tok rel s4 vss" "pins s4 = (pins s)(i := pins s i + 1)" "length (frames s4) = length (frames s)"
proof -
  obtain s1 where s1: "FetchPage H R s (int i) = Inr (s1, Some i)" "table_pages H tok rel s1 vss" "pins s1 = (pins s)(i := pins s i + 1)"
    "datas s1 = datas s" "length (frames s1) = length (frames s)" using heap_fetch [OF h i] by auto
  note p1 = table_pagesD(3) [OF s1(2)]
  have hs: "holds_slots (datas s1 k) (vss ! k)" if "k < length vss" for k using p1 that by (simp add: pages_hold_def)
  note l = page_links [OF p1 i len(1)]
  have nr: "GetNextTupleRid (datas s1 i) \<lparr>rid_page = int i, rid_slot = int j\<rparr>
      = Inr (map_option (\<lambda>k. \<lparr>rid_page = int i, rid_slot = int k\<rparr>) (next_used (vss ! i) (Suc j)))"
    using GetNextTupleRid_holds [OF hs [OF i] j] unfolding l(3) [abs_def] by simp
  show ?thesis
  proof (cases "next_used (vss ! i) (Suc j)")
    case (Some k)
    show ?thesis by (rule that [of s1 s1]) (use s1 nr in \<open>auto simp: iter_next_rid_def data_view next_pos_def Some pos_rid_def\<close>)
  next
    case None
    show ?thesis
    proof (cases "Suc i < length vss")
      case False
      show ?thesis by (rule that [of s1 s1]) (use s1 nr l(2) False in \<open>auto simp: iter_next_rid_def data_view next_pos_def None pos_rid_def\<close>)
    next
      case True
      obtain s2 s3 where v: "FetchPage H R s1 (int (Suc i)) = Inr (s2, Some (Suc i))" "datas s2 = datas s1"
        "UnpinPage H R s2 (int (Suc i)) False = Inr (s3, True)" "table_pages H tok rel s3 vss" "pins s3 = pins s1" "length (frames s3) = length (frames s1)"
        by (rule heap_read_op [OF s1(2) True len(2)])
      have v': "FetchPage H R s1 (int i + 1) = Inr (s2, Some (Suc i))" "UnpinPage H R s2 (int i + 1) False = Inr (s3, True)"
        using v(1,3) by (simp_all add: add.commute)
      have "GetFirstTupleRid (datas s1 (Suc i)) = Inr (case next_used (vss ! Suc i) 0 of None \<Rightarrow> (invalid_rid, False)
          | Some k \<Rightarrow> (\<lparr>rid_page = int (Suc i), rid_slot = int k\<rparr>, True))"
        using GetFirstTupleRid_holds [OF hs [OF True]] unfolding page_links(3) [OF p1 True len(1)] .
      then show ?thesis
        by (intro that [of s1 s3])
          (use s1 v v' nr l(2) True in \<open>auto simp: iter_next_rid_def data_view next_pos_def None pos_rid_def INVALID_PAGE_ID_def split: option.splits\<close>)
    qed
  qed
qed

lemma next_ok:
  assumes h: "table_pages H tok rel s vss" and i: "i < length vss" and len: "length vss \<le> 100" "length vss \<le> room" and j: "int j < 2 ^ 31 - 1"
    and it: "it_rid it = pos_rid (Some (i, j))"
  shows "\<exists>s' it'. iter_next H R s it = Inr (s', it') \<and> at_pos s' vss (next_pos vss i j) it' \<and> table_pages H tok rel s' vss
    \<and> pins s' = pins s \<and> length (frames s') = length (frames s)"
proof -
  obtain s1 s4 where n: "FetchPage H R s (int i) = Inr (s1, Some i)"
    "iter_next_rid H R s1 i \<lparr>rid_page = int i, rid_slot = int j\<rparr> = Inr (s4, pos_rid (next_pos vss i j))"
    "table_pages H tok rel s4 vss" "pins s4 = (pins s)(i := pins s i + 1)" "length (frames s4) = length (frames s)"
    by (rule next_rid_ok [OF h i len j])
  obtain s5 where s5: "UnpinPage H R s4 (int i) False = Inr (s5, True)" "table_pages H tok rel s5 vss" "pins s5 = (pins s4)(i := pins s4 i - 1)"
    "length (frames s5) = length (frames s4)" using heap_unpin [OF n(3) i _ len(2), of False] n(4) table_pagesD(4) [OF h i] by auto
  let ?it = "it\<lparr>it_rid := pos_rid (next_pos vss i j)\<rparr>"
  have e: "iter_next H R s it = (if \<not> same_iterator ?it heap_end then iter_load H R s5 ?it else Inr (s5, ?it))"
    using n(1,2) s5(1) by (simp add: iter_next_def it pos_rid_def)
  have p5: "pins s5 = pins s" using s5(3) n(4) by (auto simp: fun_eq_iff)
  show ?thesis
  proof (cases "next_pos vss i j")
    case None
    then show ?thesis using e s5 p5 n(5) by (simp add: at_pos_def pos_rid_def same_iterator_def heap_end_def)
  next
    case (Some q)
    obtain i' j' where q: "q = (i', j')" "i' < length vss" "slot_at (vss ! i') j' \<noteq> None \<and> j' < length (vss ! i')"
      using Some i by (auto simp: next_pos_def dest: next_used_slot split: option.splits if_splits)
    have "holds_slots (datas s i') (vss ! i')" using table_pagesD(3) [OF h] q(2) by (simp add: pages_hold_def)
    then have "j' < 2 ^ 31" using slots_bound q(3) by blast
    then have "\<not> same_iterator ?it heap_end" using same_end [of i' j'] q len(1) Some by (simp add: same_iterator_def heap_end_def pos_rid_def)
    then show ?thesis using load_ok [OF s5(2) q(2) len, of j' ?it] q e Some p5 s5(4) n(5) by simp
  qed
qed

lemma new_heap_ok:
  assumes r: "resident H tok rel s 0" and n: "0 < length (frames s)" "length (frames s) \<le> cap" "0 < room"
  shows "\<exists>s'. new_TableHeap H R s INVALID_PAGE_ID = Inr (s', 0) \<and> table_pages H tok rel s' [[]] \<and> length (frames s') = length (frames s)"
proof -
  obtain s1 where s1: "NewPage H R s = Inr (s1, int 0, Some 0)" "resident H tok rel s1 (Suc 0)" "pins s1 = (pins s)(0 := 1)"
    "length (frames s1) = length (frames s)" using resident_new [OF r n(1,2)] by auto
  obtain d where d: "TablePage_Init (data_at s1 0) 0 PAGE_SIZE INVALID_PAGE_ID INVALID_PAGE_ID = Inr d"
    by (simp add: TablePage_Init_def field_defs in_page_def PAGE_SIZE_def)
  note dh = TablePage_Init_holds [OF d]
  have h: "table_pages H tok rel (set_data s1 0 d) [[]]"
    using resident_set_data [of 0 "Suc 0" H tok rel s1 d] s1 dh n(1) by (auto simp: table_pages_def pages_hold_def heap_links_def INVALID_PAGE_ID_def)
  obtain s2 where s2: "UnpinPage H R (set_data s1 0 d) (int 0) True = Inr (s2, True)" "table_pages H tok rel s2 [[]]" "length (frames s2) = length (frames s1)"
    using heap_unpin [OF h, of 0 True] s1(3) n(3) by auto
  then show ?thesis using s1 d by (auto simp: new_TableHeap_def)
qed

end

subsection \<open>Sequences of operations\<close>

text \<open>The operations of a table, on positions (page, slot); an iterator is given by its position.\<close>

datatype heap_op = Heap_Insert "u8 list" | Heap_Delete nat nat | Heap_Update nat nat "u8 list" | Heap_Get nat nat | Heap_Begin | Heap_Next nat nat

datatype heap_out = Pos "(nat \<times> nat) option" | Flag bool | Tuple_Bytes "u8 list option" | Iter "(rid \<times> u8 list option) option"

definition rid_pos :: "rid \<Rightarrow> nat \<times> nat" where
  "rid_pos r = (nat (rid_page r), nat (rid_slot r))"

definition iter_out :: "('t, 'r) pool \<Rightarrow> table_iterator \<Rightarrow> heap_out" where
  "iter_out s it = Iter (if same_iterator it heap_end then None else Some (it_rid it, map_option (ref_bytes s) (it_tuple it)))"

fun heap_step :: "('t, int, nat) hash_table \<Rightarrow> ('r, nat) replacer_class \<Rightarrow> ('t, 'r) pool \<Rightarrow> heap_op \<Rightarrow> (('t, 'r) pool \<times> heap_out) result" where
  "heap_step H R s (Heap_Insert bs) = and_then (heap_InsertTuple H R s 0 bs) (\<lambda>(s1, r). Inr (s1, Pos (map_option rid_pos r)))"
| "heap_step H R s (Heap_Delete i j) = and_then (heap_DeleteTuple H R s (pos_rid (Some (i, j)))) (\<lambda>(s1, b). Inr (s1, Flag b))"
| "heap_step H R s (Heap_Update i j bs) = and_then (heap_UpdateTuple H R s bs (pos_rid (Some (i, j)))) (\<lambda>(s1, b). Inr (s1, Flag b))"
| "heap_step H R s (Heap_Get i j) = and_then (heap_GetTuple H R s (pos_rid (Some (i, j)))) (\<lambda>(s1, t). Inr (s1, Tuple_Bytes (map_option (ref_bytes s1) t)))"
| "heap_step H R s Heap_Begin = and_then (heap_begin H R s 0) (\<lambda>(s1, it). Inr (s1, iter_out s1 it))"
| "heap_step H R s (Heap_Next i j) = and_then (iter_next H R s \<lparr>it_rid = pos_rid (Some (i, j)), it_tuple = None\<rparr>) (\<lambda>(s1, it). Inr (s1, iter_out s1 it))"

text \<open>What they do to the list of the pages.\<close>

definition pos_out :: "slots list \<Rightarrow> (nat \<times> nat) option \<Rightarrow> heap_out" where
  "pos_out vss p = Iter (case p of None \<Rightarrow> None | Some (i, j) \<Rightarrow> Some (pos_rid (Some (i, j)), slot_at (vss ! i) j))"

fun pages_step :: "slots list \<Rightarrow> heap_op \<Rightarrow> slots list \<times> heap_out" where
  "pages_step vss (Heap_Insert bs) =
     (if int (length bs) + 28 > PAGE_SIZE then (vss, Pos None) else let (r, p, j) = heap_insert vss bs in (r, Pos (Some (p, j))))"
| "pages_step vss (Heap_Delete i j) = (vss[i := fst (slots_step (vss ! i) (Delete_Op j))], Flag (slot_at (vss ! i) j \<noteq> None))"
| "pages_step vss (Heap_Update i j bs) =
     (vss[i := fst (slots_step (vss ! i) (Update_Op j bs))], Flag (snd (slots_step (vss ! i) (Update_Op j bs)) = Done True))"
| "pages_step vss (Heap_Get i j) = (vss, Tuple_Bytes (slot_at (vss ! i) j))"
| "pages_step vss Heap_Begin = (vss, pos_out vss (map_option (Pair 0) (next_used (vss ! 0) 0)))"
| "pages_step vss (Heap_Next i j) = (vss, pos_out vss (next_pos vss i j))"

text \<open>Positions are on pages of the table, tuples are not empty, and the table stays within \<open>n\<close> pages.\<close>

fun heap_op_ok :: "nat \<Rightarrow> slots list \<Rightarrow> heap_op \<Rightarrow> bool" where
  "heap_op_ok n vss (Heap_Insert bs) \<longleftrightarrow> bs \<noteq> [] \<and> length (fst (pages_step vss (Heap_Insert bs))) \<le> n"
| "heap_op_ok n vss (Heap_Delete i j) \<longleftrightarrow> i < length vss"
| "heap_op_ok n vss (Heap_Update i j bs) \<longleftrightarrow> i < length vss \<and> bs \<noteq> [] \<and> int (length bs) < 2 ^ 30"
| "heap_op_ok n vss (Heap_Get i j) \<longleftrightarrow> i < length vss"
| "heap_op_ok n vss Heap_Begin \<longleftrightarrow> True"
| "heap_op_ok n vss (Heap_Next i j) \<longleftrightarrow> i < length vss \<and> int j < 2 ^ 31 - 1"

fun run_heap :: "('t, int, nat) hash_table \<Rightarrow> ('r, nat) replacer_class \<Rightarrow> ('t, 'r) pool \<Rightarrow> heap_op list \<Rightarrow> (('t, 'r) pool \<times> heap_out list) result" where
  "run_heap H R s [] = Inr (s, [])"
| "run_heap H R s (x # xs) = and_then (heap_step H R s x) (\<lambda>(s1, y). and_then (run_heap H R s1 xs) (\<lambda>(s2, ys). Inr (s2, y # ys)))"

fun run_pages :: "slots list \<Rightarrow> heap_op list \<Rightarrow> slots list \<times> heap_out list" where
  "run_pages vss [] = (vss, [])"
| "run_pages vss (x # xs) = (let (vss1, y) = pages_step vss x; (vss2, ys) = run_pages vss1 xs in (vss2, y # ys))"

fun heap_ops_ok :: "nat \<Rightarrow> slots list \<Rightarrow> heap_op list \<Rightarrow> bool" where
  "heap_ops_ok n vss [] \<longleftrightarrow> True"
| "heap_ops_ok n vss (x # xs) \<longleftrightarrow> heap_op_ok n vss x \<and> heap_ops_ok n (fst (pages_step vss x)) xs"

lemma pages_step_length: "heap_op_ok m vss x \<Longrightarrow> length vss \<le> m \<Longrightarrow> length (fst (pages_step vss x)) \<le> m"
  by (cases x) auto

lemma at_pos_out: "at_pos s vss p it \<Longrightarrow> iter_out s it = pos_out vss p"
  by (auto simp: at_pos_def iter_out_def pos_out_def split: option.splits prod.splits)

lemma slots_step_update: "snd (slots_step vs (Update_Op j bs)) = Done b \<Longrightarrow> (snd (slots_step vs (Update_Op j bs)) = Done True) = b"
  by simp

context pool_parts
begin

lemma heap_step_ok:
  assumes h: "table_pages H tok rel s vss" and ok: "heap_op_ok m vss x"
    and caps: "length (frames s) \<le> 100" "length (frames s) \<le> cap" "m \<le> room" "m \<le> length (frames s)" "length vss \<le> m"
  shows "\<exists>s'. heap_step H R s x = Inr (s', snd (pages_step vss x)) \<and> table_pages H tok rel s' (fst (pages_step vss x)) \<and> pins s' = pins s
    \<and> length (frames s') = length (frames s)"
proof -
  have len: "length vss \<le> 100" "length vss \<le> room" using caps by auto
  show ?thesis
  proof (cases x)
    case (Heap_Insert bs)
    show ?thesis
    proof (cases "int (length bs) + 28 > PAGE_SIZE")
      case True
      then show ?thesis using Heap_Insert h by (simp add: heap_InsertTuple_def)
    next
      case False
      obtain r p j where r: "heap_insert vss bs = (r, p, j)" by (cases "heap_insert vss bs")
      have "tuple_ok bs" "length r \<le> m" using ok False r Heap_Insert by (simp_all add: tuple_ok_def)
      then show ?thesis using heap_insert_ok [OF h _ caps r] False r Heap_Insert by (auto simp: rid_pos_def)
    qed
  next
    case (Heap_Delete i j)
    then have i: "i < length vss" using ok by simp
    show ?thesis using heap_delete_ok [OF h i len, of j] Heap_Delete by (auto simp: pos_rid_def)
  next
    case (Heap_Update i j bs)
    then have i: "i < length vss" "bs \<noteq> []" "int (length bs) < 2 ^ 30" using ok by simp_all
    show ?thesis using heap_update_ok [OF h i(1) len i(2,3), of j] Heap_Update by (auto simp: pos_rid_def)
  next
    case (Heap_Get i j)
    then have i: "i < length vss" using ok by simp
    show ?thesis using heap_get_ok [OF h i len, of j] Heap_Get by (fastforce simp: pos_rid_def)
  next
    case Heap_Begin
    then show ?thesis using begin_ok [OF h len] at_pos_out by fastforce
  next
    case (Heap_Next i j)
    then have i: "i < length vss" "int j < 2 ^ 31 - 1" using ok by simp_all
    show ?thesis using next_ok [OF h i(1) len i(2), of "\<lparr>it_rid = pos_rid (Some (i, j)), it_tuple = None\<rparr>"] at_pos_out Heap_Next by fastforce
  qed
qed

lemma run_heap_ok:
  assumes "table_pages H tok rel s vss" "heap_ops_ok m vss xs"
    and "length (frames s) \<le> 100" "length (frames s) \<le> cap" "m \<le> room" "m \<le> length (frames s)" "length vss \<le> m"
  shows "\<exists>s'. run_heap H R s xs = Inr (s', snd (run_pages vss xs)) \<and> table_pages H tok rel s' (fst (run_pages vss xs))"
  using assms
proof (induction xs arbitrary: s vss)
  case (Cons x xs)
  obtain s1 where s1: "heap_step H R s x = Inr (s1, snd (pages_step vss x))" "table_pages H tok rel s1 (fst (pages_step vss x))"
    "length (frames s1) = length (frames s)" using heap_step_ok [OF Cons.prems(1), of m x] Cons.prems by auto
  moreover have "length (fst (pages_step vss x)) \<le> m" using Cons.prems(2,7) by (intro pages_step_length) auto
  ultimately show ?case using Cons.IH [of s1 "fst (pages_step vss x)"] Cons.prems by (auto split: prod.splits)
qed auto

end

subsection \<open>The table over the pool of the constructor\<close>

abbreviation table_ok_on :: "(int \<Rightarrow> nat) \<Rightarrow> (nat \<Rightarrow> nat) \<Rightarrow> (page_map, replacer_state) pool \<Rightarrow> slots list \<Rightarrow> bool" where
  "table_ok_on hp hf \<equiv> table_pages (pt hp) (one_page 100) (lru_rel (ext_class hf) (one_page 8) 8)"

lemma new_pool_resident:
  "resident (pt hp) (one_page 100) (lru_rel (ext_class hf) (one_page 8) 8) (BufferPoolManager n new_disk) 0"
  "length (frames (BufferPoolManager n new_disk)) = n"
proof -
  have "\<exists>xs. lru_rel (ext_class hf) (one_page 8) 8 (new_lru (new_ext_hash 8)) xs \<and> set xs \<subseteq> {..<0}"
    by (intro exI [of _ "[]"]) (simp add: one_page_new ext_class_def lru_rel_def new_lru_def node_map_def)
  then show "resident (pt hp) (one_page 100) (lru_rel (ext_class hf) (one_page 8) 8) (BufferPoolManager n new_disk) 0"
    by (auto simp: resident_def BufferPoolManager_def new_pool_def new_disk_def new_frame_def one_page_new ext_class_def fun_eq_iff)
  show "length (frames (BufferPoolManager n new_disk)) = n" by (simp add: BufferPoolManager_def new_pool_def)
qed

text \<open>C3. A table is a list of pages of tuples: after any sequence of insertions, deletions, updates, lookups and iterator steps
  on a new table in a pool of up to 100 frames, as long as the table has at most 8 pages and at most as many as the pool
  has frames, every operation returns what it returns on the list, and the pages in the pool hold the list. A tuple goes
  into the first page with room for it, or into a new page; one that does not fit a page is refused. (With more than 8
  pages the table of the replacer splits, which need not return.)\<close>

theorem table_heap_refines_pages:
  assumes "0 < n" and "n \<le> 100" and "heap_ops_ok (min n 8) [[]] xs"
  shows "\<exists>s0 s. new_TableHeap (pt hp) (lru_of hf) (BufferPoolManager n new_disk) INVALID_PAGE_ID = Inr (s0, 0)
    \<and> run_heap (pt hp) (lru_of hf) s0 xs = Inr (s, snd (run_pages [[]] xs)) \<and> table_ok_on hp hf s (fst (run_pages [[]] xs))"
proof -
  obtain s0 where s0: "new_TableHeap (pt hp) (lru_of hf) (BufferPoolManager n new_disk) INVALID_PAGE_ID = Inr (s0, 0)" "table_ok_on hp hf s0 [[]]"
    "length (frames s0) = n"
    using bpm.new_heap_ok [OF new_pool_resident(1) [of hp hf n]] new_pool_resident(2) [of n] assms(1,2) by auto
  then show ?thesis using bpm.run_heap_ok [OF s0(2) assms(3)] assms(1,2) by auto
qed

theorem table_heap_refines_pages_witness:
  "\<exists>s0 s. new_TableHeap (pt nat) (lru_of id) (BufferPoolManager 10 new_disk) INVALID_PAGE_ID = Inr (s0, 0)
    \<and> run_heap (pt nat) (lru_of id) s0 [Heap_Insert [1], Heap_Insert (replicate 4060 2), Heap_Get 1 0, Heap_Delete 0 0, Heap_Begin]
      = Inr (s, [Pos (Some (0, 0)), Pos (Some (1, 0)), Tuple_Bytes (Some (replicate 4060 2)), Flag True, Iter None])"
proof -
  let ?xs = "[Heap_Insert [1], Heap_Insert (replicate 4060 2), Heap_Get 1 0, Heap_Delete 0 0, Heap_Begin]"
  have f: "free_space [] = 4076" "free_space [Some [1]] = 4067" by (simp_all add: free_space_def used_space_def slot_size_def PAGE_SIZE_def)
  have i: "heap_insert [[]] [1] = ([[Some [1]]], 0, 0)" "heap_insert [[Some [1]]] (replicate 4060 2) = ([[Some [1]], [Some (replicate 4060 2)]], 1, 0)"
    by (simp_all add: slots_insert_def f)
  have r: "run_pages [[]] ?xs
      = ([[None], [Some (replicate 4060 2)]], [Pos (Some (0, 0)), Pos (Some (1, 0)), Tuple_Bytes (Some (replicate 4060 2)), Flag True, Iter None])"
    by (simp add: i PAGE_SIZE_def slot_at_def next_used_def pos_out_def del: heap_insert.simps)
  have "heap_ops_ok (min 10 8) [[]] ?xs" by (simp add: i PAGE_SIZE_def del: heap_insert.simps)
  then show ?thesis using table_heap_refines_pages [of 10 ?xs nat id] unfolding r by auto
qed

text \<open>A scan stops at an empty page: when the next page of the table has no tuples, an iterator at the last tuple of a page
  becomes equal to \<open>end()\<close>, whatever the pages after it hold.\<close>

theorem scan_stops_at_empty_page:
  assumes "table_ok_on hp hf s vss" and "length vss \<le> 8" and "Suc i < length vss" and "int j < 2 ^ 31 - 1"
    and "next_used (vss ! i) (Suc j) = None" and "next_used (vss ! Suc i) 0 = None"
    and "it_rid it = \<lparr>rid_page = int i, rid_slot = int j\<rparr>"
  shows "\<exists>s' it'. iter_next (pt hp) (lru_of hf) s it = Inr (s', it') \<and> same_iterator it' heap_end"
proof -
  have "next_pos vss i j = None" using assms by (simp add: next_pos_def)
  then show ?thesis using bpm.next_ok [OF assms(1), of i j it] assms by (auto simp: at_pos_def pos_rid_def)
qed

text \<open>A table whose only tuple is on the third of three pages, with an iterator on the first.\<close>

theorem scan_stops_at_empty_page_witness:
  "\<exists>s s' it'. table_ok_on nat id s [[Some (replicate 4060 1)], [None], [Some (replicate 4060 3)]]
    \<and> iter_next (pt nat) (lru_of id) s \<lparr>it_rid = \<lparr>rid_page = 0, rid_slot = 0\<rparr>, it_tuple = None\<rparr> = Inr (s', it') \<and> same_iterator it' heap_end"
proof -
  let ?xs = "[Heap_Insert (replicate 4060 1), Heap_Insert (replicate 4060 2), Heap_Insert (replicate 4060 3), Heap_Delete 1 0]"
  let ?vss = "[[Some (replicate 4060 1)], [None], [Some (replicate 4060 3)]] :: slots list"
  have f: "free_space [] = 4076" "free_space [Some (replicate 4060 b)] = 8" for b
    by (simp_all add: free_space_def used_space_def slot_size_def PAGE_SIZE_def)
  have r: "fst (run_pages [[]] ?xs) = ?vss" and ok: "heap_ops_ok 3 [[]] ?xs"
    by (simp_all add: slots_insert_def f PAGE_SIZE_def slot_at_def)
  obtain s0 where s0: "table_ok_on nat id s0 [[]]" "length (frames s0) = 3"
    using bpm.new_heap_ok [OF new_pool_resident(1) [of nat id 3]] new_pool_resident(2) [of 3] by auto
  obtain s where s: "table_ok_on nat id s ?vss" using bpm.run_heap_ok [OF s0(1) ok] s0(2) r by auto
  have "next_used (?vss ! 0) (Suc 0) = None" "next_used (?vss ! Suc 0) 0 = None" by (simp_all add: next_used_def)
  then show ?thesis
    using scan_stops_at_empty_page [OF s, of 0 0 "\<lparr>it_rid = \<lparr>rid_page = 0, rid_slot = 0\<rparr>, it_tuple = None\<rparr>"] s by auto
qed

end
