(* ===== verification/Bplus_Tree_Correct.thy ===== *)
theory Bplus_Tree_Correct
  imports Bplus_Tree Bplus_Props Table_Heap_Props
begin

section \<open>A B+ tree of one leaf is a map\<close>

text \<open>
  The operations of the tree while its only node is a leaf of the modelled pool: finding the leaf, inserting into it, starting a new tree and recording its root in the header page.
\<close>

context pool_parts
begin

lemmas page_calls = resident_fetch resident_unpin resident_new

end

subsection \<open>Nodes survive being written to a page\<close>

definition int32_ok :: "int \<Rightarrow> bool" where
  "int32_ok v \<longleftrightarrow> - (2 ^ 31) \<le> v \<and> v < 2 ^ 31"

definition rid_ok :: "rid \<Rightarrow> bool" where
  "rid_ok r \<longleftrightarrow> int32_ok (rid_page r) \<and> int32_ok (rid_slot r)"

lemma field_ok [simp]: "int32_ok (field d a)"
  using sint_ge [of "load32 d a"] sint_less [of "load32 d a"] by (simp add: int32_ok_def field_def)

lemma field_set_field: "int32_ok v \<Longrightarrow> field (set_field d a v) a = v" "b + 4 \<le> a \<or> a + 4 \<le> b \<Longrightarrow> field (set_field d a v) b = field d b"
  by (simp_all add: field_def set_field_def int32_ok_def sint_int32 mem_simps)

lemma load_set_field: "b + 4 \<le> a \<or> a + 4 \<le> b \<Longrightarrow> load32 (set_field d a v) b = load32 d b"
  by (simp add: set_field_def mem_simps)

lemma read_set_field: "b + int n \<le> a \<or> a + 4 \<le> b \<Longrightarrow> read_mem (set_field d a v) b n = read_mem d b n"
  by (simp add: set_field_def mem_simps)

lemma set_type_simps: "code_type (load32 (set_type d t) 0) = t" "4 \<le> b \<Longrightarrow> load32 (set_type d t) b = load32 d b"
  by (cases t; simp add: set_type_def type_code_def code_type_def mem_simps)+

lemma field_cong: "read_mem d a 4 = read_mem e b 4 \<Longrightarrow> field d a = field e b"
  by (simp add: field_def load32_def)

lemma field_encode: "int32_ok v \<Longrightarrow> read_mem d a 4 = le_encode 4 (unat (word_of_int v :: u32)) \<Longrightarrow> field d a = v"
proof -
  assume v: "int32_ok v" and r: "read_mem d a 4 = le_encode 4 (unat (word_of_int v :: u32))"
  have "unat (word_of_int v :: u32) < 256 ^ 4" using unsigned_less [of "word_of_int v :: u32"] by simp
  then have "load32 d a = word_of_int v" by (simp add: load32_def r le_decode_encode)
  then show ?thesis using v by (simp add: field_def int32_ok_def sint_int32)
qed

text \<open>One chunk of a sequence of chunks of the same length.\<close>

lemma read_chunk:
  assumes "i < length xs" "\<And>x. length (f x) = w"
  shows "read_mem (write_mem d p (concat (map f xs))) (p + int i * int w) w = f (xs ! i)"
  using assms
proof (induction xs arbitrary: d p i)
  case (Cons x xs)
  have split: "write_mem d p (as @ bs) = write_mem (write_mem d p as) (p + int (length as)) bs" for d :: bytes and p as bs
    by (induction as arbitrary: d p) (auto simp: algebra_simps)
  show ?case
  proof (cases i)
    case 0
    have "read_mem (write_mem (write_mem d p (f x)) (p + int w) (concat (map f xs))) p w = read_mem (write_mem d p (f x)) p w"
      by (rule read_write_disjoint) simp
    then show ?thesis using 0 Cons.prems(2) by (simp add: split mem_simps)
  next
    case (Suc j)
    have "read_mem (write_mem (write_mem d p (f x)) (p + int w) (concat (map f xs))) (p + int w + int j * int w) w = f (xs ! j)"
      using Cons.IH [of j "write_mem d p (f x)" "p + int w"] Cons.prems Suc by simp
    then show ?thesis using Suc Cons.prems(2) by (simp add: split algebra_simps)
  qed
qed simp

lemma read_mem_split: "read_mem m a (n + k) = read_mem m a n @ read_mem m (a + int n) k"
  by (rule nth_equalityI) (auto simp: nth_append algebra_simps)

lemma length_leaf_entry_bytes [simp]: "length (leaf_entry_bytes K e) = K + 8"
  by (simp add: leaf_entry_bytes_def)

lemma leaf_entry_written:
  assumes "read_mem d (24 + int i * (int K + 8)) (K + 8) = leaf_entry_bytes K e" "rid_ok (snd e)"
  shows "snd (leaf_entry K d i) = snd e" "\<And>a. 0 \<le> a \<Longrightarrow> a < int K \<Longrightarrow> fst (leaf_entry K d i) a = fst e a"
proof -
  let ?a = "24 + int i * (int K + 8)"
  have "read_mem d ?a (K + 8) = read_mem d ?a K @ read_mem d (?a + int K) 4 @ read_mem d (?a + int K + 4) 4"
    using read_mem_split [of d ?a K 8] read_mem_split [of d "?a + int K" 4 4] by simp
  then have r: "read_mem d ?a K = read_mem (fst e) 0 K" "read_mem d (?a + int K) 4 = le_encode 4 (unat (word_of_int (rid_page (snd e)) :: u32))"
    "read_mem d (?a + int K + 4) 4 = le_encode 4 (unat (word_of_int (rid_slot (snd e)) :: u32))"
    using assms(1) by (simp_all add: leaf_entry_bytes_def)
  show "snd (leaf_entry K d i) = snd e"
    using field_encode [OF _ r(2)] field_encode [OF _ r(3)] assms(2) by (simp add: leaf_entry_def Let_def rid_ok_def)
  show "fst (leaf_entry K d i) a = fst e a" if "0 \<le> a" "a < int K" for a
  proof -
    have "read_mem d ?a K ! nat a = read_mem (fst e) 0 K ! nat a" by (simp add: r(1))
    then show ?thesis using that by (simp add: leaf_entry_def Let_def nat_less_iff)
  qed
qed

text \<open>Two leaves with the same fields and, as far as the keys reach, the same array.\<close>

definition same_leaf :: "nat \<Rightarrow> (bytes, rid) bnode \<Rightarrow> (bytes, rid) bnode \<Rightarrow> bool" where
  "same_leaf K n m \<longleftrightarrow> bn_type n = bn_type m \<and> bn_size n = bn_size m \<and> bn_max n = bn_max m \<and> bn_parent n = bn_parent m \<and> bn_id n = bn_id m
     \<and> bn_next n = bn_next m \<and> list_all2 (\<lambda>x y. snd x = snd y \<and> (\<forall>a. 0 \<le> a \<and> a < int K \<longrightarrow> fst x a = fst y a)) (bn_array n) (bn_array m)"

definition leaf_fits :: "nat \<Rightarrow> (bytes, rid) bnode \<Rightarrow> bool" where
  "leaf_fits K n \<longleftrightarrow> list_all int32_ok [bn_size n, bn_max n, bn_parent n, bn_id n, bn_next n] \<and> length (bn_array n) = leaf_capacity K
     \<and> (\<forall>e\<in>set (bn_array n). rid_ok (snd e))"

lemma leaf_of_fields [simp]: "bn_type (leaf_of K d) = code_type (load32 d 0)" "bn_size (leaf_of K d) = field d 4" "bn_max (leaf_of K d) = field d 8"
  "bn_parent (leaf_of K d) = field d 12" "bn_id (leaf_of K d) = field d 16" "bn_next (leaf_of K d) = field d 20"
  by (simp_all add: leaf_of_def)

lemma leaf_of_fits [simp]: "leaf_fits K (leaf_of K d)"
  by (auto simp: leaf_fits_def leaf_of_def leaf_entry_def rid_ok_def Let_def)

lemma leaf_of_write:
  assumes "leaf_fits K n"
  shows "same_leaf K (leaf_of K (write_leaf K d n)) n"
proof -
  let ?d = "write_leaf K d n"
  have h: "load32 ?d a = load32 (set_field (node_header d n) 20 (bn_next n)) a" if "a + 4 \<le> 24" for a
    using that by (simp add: write_leaf_def mem_simps)
  have g: "field ?d a = field (set_field (node_header d n) 20 (bn_next n)) a" if "a + 4 \<le> 24" for a using h [OF that] by (simp add: field_def)
  have fs: "code_type (load32 ?d 0) = bn_type n" "field ?d 4 = bn_size n" "field ?d 8 = bn_max n" "field ?d 12 = bn_parent n"
    "field ?d 16 = bn_id n" "field ?d 20 = bn_next n"
    using assms by (simp_all add: h g leaf_fits_def node_header_def field_set_field load_set_field set_type_simps)
  have "list_all2 (\<lambda>x y. snd x = snd y \<and> (\<forall>a. 0 \<le> a \<and> a < int K \<longrightarrow> fst x a = fst y a)) (map (leaf_entry K ?d) [0..<leaf_capacity K]) (bn_array n)"
  proof (rule list_all2_all_nthI)
    fix i assume "i < length (map (leaf_entry K ?d) [0..<leaf_capacity K])"
    then have i: "i < leaf_capacity K" "i < length (bn_array n)" using assms by (simp_all add: leaf_fits_def)
    have "read_mem ?d (24 + int i * (int K + 8)) (K + 8) = leaf_entry_bytes K (bn_array n ! i)"
      using read_chunk [OF i(2), of "leaf_entry_bytes K" "K + 8"] by (simp add: write_leaf_def)
    then show "snd (map (leaf_entry K ?d) [0..<leaf_capacity K] ! i) = snd (bn_array n ! i)
        \<and> (\<forall>a. 0 \<le> a \<and> a < int K \<longrightarrow> fst (map (leaf_entry K ?d) [0..<leaf_capacity K] ! i) a = fst (bn_array n ! i) a)"
      using leaf_entry_written [of ?d i K "bn_array n ! i"] assms i by (simp add: leaf_fits_def)
  qed (use assms in \<open>simp add: leaf_fits_def\<close>)
  then show ?thesis using fs by (simp add: same_leaf_def leaf_of_def)
qed

subsection \<open>Operations on stored leaves\<close>

lemma slot_set_frame: "slot_set xs i x = Inr ys \<Longrightarrow> length ys = length xs \<and> set ys \<subseteq> insert x (set xs)"
  using set_update_subset_insert [of xs "nat i" x] by (auto simp: slot_set_def split: if_splits)

lemma shift_up_frame: "shift_up xs j k = Inr ys \<Longrightarrow> length ys = length xs \<and> set ys \<subseteq> set xs"
proof (induction k arbitrary: xs j)
  case (Suc k)
  obtain x zs where x: "slot_get xs j = Inr x" "slot_set xs (j + 1) x = Inr zs" "shift_up zs (j - 1) k = Inr ys"
    using Suc.prems by (auto simp: bnd_def split: sum.splits)
  have "x \<in> set xs" using x(1) by (auto simp: slot_get_def split: if_splits)
  then show ?case using Suc.IH [OF x(3)] slot_set_frame [OF x(2)] by auto
qed simp

lemma leaf_Insert_frame:
  assumes "leaf_Insert cmp n key val = Inr (n', sz)"
  obtains ys where "n' = n\<lparr>bn_array := ys, bn_size := bn_size n + 1\<rparr>" "length ys = length (bn_array n)" "set ys \<subseteq> insert (key, val) (set (bn_array n))"
proof -
  obtain i xs ys where x: "(if i < bn_size n then shift_up (bn_array n) (bn_size n - 1) (nat (bn_size n - i)) else Inr (bn_array n)) = Inr xs"
    "slot_set xs i (key, val) = Inr ys" "n' = n\<lparr>bn_array := ys, bn_size := bn_size n + 1\<rparr>"
    using assms by (auto simp: leaf_Insert_def bnd_def split: sum.splits)
  have "length xs = length (bn_array n) \<and> set xs \<subseteq> set (bn_array n)" using x(1) shift_up_frame [of "bn_array n" _ _ xs] by (cases "i < bn_size n") auto
  then show ?thesis using slot_set_frame [OF x(2)] x(3) by (intro that [of ys]) auto
qed

text \<open>A comparator whose order depends only on the bytes that a key of the page has.\<close>

locale stored_keys = key_order cmp ok rank for cmp :: "bytes \<Rightarrow> bytes \<Rightarrow> int sql" and ok :: "bytes \<Rightarrow> bool" and rank :: "bytes \<Rightarrow> 'o :: linorder" +
  fixes K :: nat
  assumes prefix: "\<forall>a. 0 \<le> a \<and> a < int K \<longrightarrow> x a = y a \<Longrightarrow> ok y \<Longrightarrow> ok x \<and> rank x = rank y"
begin

lemma same_leaf_ok:
  assumes s: "same_leaf K n m" and m: "leaf_ok ok rank m"
  shows "leaf_ok ok rank n" "leaf_map rank n = leaf_map rank m" "ranks rank n = ranks rank m"
proof -
  have "list_all2 (\<lambda>x y. snd x = snd y \<and> (\<forall>a. 0 \<le> a \<and> a < int K \<longrightarrow> fst x a = fst y a)) (entries n) (entries m)"
    using s by (auto simp: same_leaf_def entries_def)
  moreover have "\<forall>e\<in>set (entries m). ok (fst e)" using m by (simp add: leaf_ok_def)
  ultimately have "(\<forall>e\<in>set (entries n). ok (fst e)) \<and> map (\<lambda>e. (rank (fst e), snd e)) (entries n) = map (\<lambda>e. (rank (fst e), snd e)) (entries m)"
  proof (induction rule: list_all2_induct)
    case (Cons x xs y ys)
    then show ?case using prefix [of "fst x" "fst y"] by simp
  qed simp
  moreover have "page_sizes_ok n" using s m by (auto simp: leaf_ok_def page_sizes_ok_def same_leaf_def dest: list_all2_lengthD)
  ultimately show "leaf_ok ok rank n" "leaf_map rank n = leaf_map rank m" "ranks rank n = ranks rank m"
    using m by (simp_all add: leaf_ok_def leaf_map_def ranks_def)
qed

end

text \<open>A page that is the root and the only leaf of a tree.\<close>

definition leaf_at :: "(bytes \<Rightarrow> bool) \<Rightarrow> (bytes \<Rightarrow> 'o :: linorder) \<Rightarrow> nat \<Rightarrow> bytes \<Rightarrow> ('o \<rightharpoonup> rid) \<Rightarrow> bool" where
  "leaf_at ok rank K d m \<longleftrightarrow> code_type (load32 d 0) = LEAF_PAGE \<and> field d 8 = 4 \<and> field d 12 = INVALID_PAGE_ID
     \<and> leaf_ok ok rank (leaf_of K d) \<and> leaf_map rank (leaf_of K d) = m"

lemma leaf_size:
  assumes "leaf_ok ok rank n"
  shows "bn_size n = int (card (dom (leaf_map rank n)))"
proof -
  have "distinct (map fst (ranks rank n))" using assms strict_sorted_imp_sorted by (auto simp: leaf_ok_def strict_sorted_iff)
  then have "card (dom (map_of (ranks rank n))) = length (ranks rank n)" by (simp add: dom_map_of_conv_image_fst distinct_card flip: set_map)
  then show ?thesis using assms length_entries [of n] by (simp add: leaf_ok_def leaf_map_def ranks_def page_sizes_ok_def)
qed

context stored_keys
begin

lemma write_leaf_at:
  assumes "leaf_fits K n" "leaf_ok ok rank n" "bn_type n = LEAF_PAGE" "bn_max n = 4" "bn_parent n = INVALID_PAGE_ID"
  shows "leaf_at ok rank K (write_leaf K d n) (leaf_map rank n)"
proof -
  note s = leaf_of_write [OF assms(1), of d]
  have "code_type (load32 (write_leaf K d n) 0) = bn_type n" "field (write_leaf K d n) 8 = bn_max n" "field (write_leaf K d n) 12 = bn_parent n"
    using s by (simp_all add: same_leaf_def leaf_of_def)
  then show ?thesis using same_leaf_ok(1,2) [OF s assms(2)] assms by (simp add: leaf_at_def)
qed

text \<open>Inserting a new key into a stored leaf.\<close>

lemma insert_written:
  assumes n: "leaf_fits K n" "leaf_ok ok rank n" "bn_type n = LEAF_PAGE" "bn_max n = 4" "bn_parent n = INVALID_PAGE_ID" "bn_size n < 4"
    and k: "ok key" "leaf_map rank n (rank key) = None" and v: "rid_ok val" and cap: "4 \<le> leaf_capacity K"
  shows "\<exists>n'. leaf_Insert cmp n key val = Inr (n', bn_size n + 1) \<and> leaf_fits K n' \<and> leaf_ok ok rank n' \<and> bn_type n' = LEAF_PAGE
    \<and> bn_max n' = 4 \<and> bn_parent n' = INVALID_PAGE_ID \<and> bn_size n' = bn_size n + 1 \<and> bn_id n' = bn_id n \<and> bn_next n' = bn_next n
    \<and> leaf_map rank n' = (leaf_map rank n)(rank key \<mapsto> val) \<and> leaf_at ok rank K (write_leaf K d n') ((leaf_map rank n)(rank key \<mapsto> val))"
proof -
  have "0 \<le> bn_size n" using n(2) by (simp add: leaf_ok_def page_sizes_ok_def)
  then have room: "nat (bn_size n) < length (bn_array n)" using n(1,6) cap by (simp add: leaf_fits_def)
  obtain n' where n': "leaf_Insert cmp n key val = Inr (n', bn_size n + 1)" "leaf_ok ok rank n'" "bn_size n' = bn_size n + 1"
    "leaf_map rank n' = (leaf_map rank n)(rank key \<mapsto> val)" using insert_map [OF n(2) k room, of val] by blast
  obtain ys where ys: "n' = n\<lparr>bn_array := ys, bn_size := bn_size n + 1\<rparr>" "length ys = length (bn_array n)"
    "set ys \<subseteq> insert (key, val) (set (bn_array n))" by (rule leaf_Insert_frame [OF n'(1)])
  have "int32_ok (bn_size n + 1)" using n(6) \<open>0 \<le> bn_size n\<close> by (simp add: int32_ok_def)
  then have f: "leaf_fits K n'" using n(1) ys v by (auto simp: leaf_fits_def)
  show ?thesis using n' ys(1) n(3-5) f write_leaf_at [OF f n'(2), of d] by auto
qed

lemma lookup_at: "leaf_at ok rank K d m \<Longrightarrow> ok key \<Longrightarrow> leaf_Lookup cmp (leaf_of K d) key = Inr (m (rank key))"
  using lookup_map [of "leaf_of K d" key] by (simp add: leaf_at_def)

end

subsection \<open>The tree\<close>

abbreviation tenv :: "('t, int, nat) hash_table \<Rightarrow> ('r, nat) replacer_class \<Rightarrow> nat \<Rightarrow> (bytes \<Rightarrow> bytes \<Rightarrow> int sql) \<Rightarrow> ('t, 'r) tree_env" where
  "tenv H R K cmp \<equiv> \<lparr>env_table = H, env_replacer = R, env_key_size = K, env_compare = cmp\<rparr>"

definition tree_leaf :: "('t, int, nat) hash_table \<Rightarrow> ('t \<Rightarrow> bool) \<Rightarrow> ('r \<Rightarrow> nat list \<Rightarrow> bool) \<Rightarrow> (bytes \<Rightarrow> bool) \<Rightarrow> (bytes \<Rightarrow> 'o :: linorder) \<Rightarrow> nat
    \<Rightarrow> btree \<Rightarrow> ('t, 'r) pool \<Rightarrow> nat \<Rightarrow> ('o \<rightharpoonup> rid) \<Rightarrow> bool" where
  "tree_leaf H tok rel ok rank K t s k m \<longleftrightarrow> resident H tok rel s k \<and> (\<forall>i < k. 0 \<le> pins s i)
     \<and> 0 \<le> root_page_id t \<and> nat (root_page_id t) < k \<and> leaf_at ok rank K (datas s (nat (root_page_id t))) m"

locale tree_parts = pool_parts H tok cap R rel room + stored_keys cmp ok rank K
  for H :: "('t, int, nat) hash_table" and tok cap and R :: "('r, nat) replacer_class" and rel room
    and cmp :: "bytes \<Rightarrow> bytes \<Rightarrow> int sql" and ok :: "bytes \<Rightarrow> bool" and rank :: "bytes \<Rightarrow> 'o :: linorder" and K :: nat
begin

lemma find_root:
  assumes r: "resident H tok rel s k" "q < k" "0 \<le> pins s q" "k \<le> room" and t: "root_page_id t = int q" "code_type (load32 (datas s q) 0) = LEAF_PAGE"
  shows "\<exists>s'. FindLeafPage (tenv H R K cmp) t s key False = Inr (s', Some q) \<and> resident H tok rel s' k \<and> pins s' = pins s
    \<and> datas s' = datas s \<and> length (frames s') = length (frames s)"
proof -
  obtain s1 where s1: "FetchPage H R s (int q) = Inr (s1, Some q)" "resident H tok rel s1 k" "pins s1 = (pins s)(q := pins s q + 1)"
    "datas s1 = datas s" "length (frames s1) = length (frames s)" using resident_fetch [OF r(1,2)] by blast
  obtain s2 where s2: "UnpinPage H R s1 (int q) False = Inr (s2, True)" "resident H tok rel s2 k" "pins s2 = (pins s1)(q := pins s1 q - 1)"
    "datas s2 = datas s1" "length (frames s2) = length (frames s1)" using resident_unpin [OF s1(2) r(2) _ r(4), of False] s1(3) r(3) by auto
  have "is_leaf_frame s1 q" using t(2) s1(4) by (simp add: data_view)
  then have "find_leaf_loop (tenv H R K cmp) (int q) key s (int q) = Some (Inr (s2, q))"
    using s1(1) s2(1) by (subst find_leaf_loop.simps) simp
  then have "FindLeafPage (tenv H R K cmp) t s key False = Inr (s2, Some q)" by (simp add: FindLeafPage_def t(1))
  moreover have "pins s2 = pins s" using s2(3) s1(3) by (auto simp: fun_eq_iff)
  ultimately show ?thesis using s1 s2 by auto
qed

lemma find_leaf:
  assumes h: "tree_leaf H tok rel ok rank K t s k m" and room: "k \<le> room"
  shows "\<exists>s'. FindLeafPage (tenv H R K cmp) t s key False = Inr (s', Some (nat (root_page_id t))) \<and> resident H tok rel s' k \<and> pins s' = pins s
    \<and> datas s' = datas s \<and> length (frames s') = length (frames s)"
  using find_root [of s k "nat (root_page_id t)" t key] h room by (simp add: tree_leaf_def leaf_at_def)

lemma get_value:
  assumes h: "tree_leaf H tok rel ok rank K t s k m" and room: "k \<le> room" and key: "ok key"
  shows "\<exists>s'. tree_GetValue (tenv H R K cmp) t s key = Inr (s', m (rank key)) \<and> tree_leaf H tok rel ok rank K t s' k m
    \<and> datas s' = datas s \<and> length (frames s') = length (frames s)"
proof -
  obtain s1 where s1: "FindLeafPage (tenv H R K cmp) t s key False = Inr (s1, Some (nat (root_page_id t)))" "resident H tok rel s1 k" "pins s1 = pins s"
    "datas s1 = datas s" "length (frames s1) = length (frames s)" using find_leaf [OF h room] by blast
  have "leaf_Lookup cmp (get_leaf K s1 (nat (root_page_id t))) key = Inr (m (rank key))"
    using lookup_at [OF _ key] h s1(4) by (simp add: tree_leaf_def get_leaf_def data_view)
  then have "tree_GetValue (tenv H R K cmp) t s key = Inr (s1, m (rank key))" using s1(1) by (simp add: tree_GetValue_def)
  then show ?thesis using s1 h by (auto simp: tree_leaf_def)
qed

lemma insert_into_leaf:
  assumes h: "tree_leaf H tok rel ok rank K t s k m" and room: "k \<le> room" and key: "ok key" and v: "rid_ok val" and cap: "4 \<le> leaf_capacity K"
    and c: "rank key \<in> dom m \<or> card (dom m) < 3"
  shows "\<exists>s'. InsertIntoLeaf (tenv H R K cmp) t s key val = Inr (s', rank key \<notin> dom m)
    \<and> tree_leaf H tok rel ok rank K t s' k (if rank key \<in> dom m then m else m(rank key \<mapsto> val)) \<and> length (frames s') = length (frames s)
    \<and> (\<forall>i. i \<noteq> nat (root_page_id t) \<longrightarrow> datas s' i = datas s i)"
proof -
  define q where "q = nat (root_page_id t)"
  obtain s1 where s1: "FindLeafPage (tenv H R K cmp) t s key False = Inr (s1, Some q)" "resident H tok rel s1 k" "pins s1 = pins s"
    "datas s1 = datas s" "length (frames s1) = length (frames s)" using find_leaf [OF h room] unfolding q_def by blast
  have at: "leaf_at ok rank K (datas s1 q) m" and qk: "q < k" using h s1(4) by (simp_all add: tree_leaf_def q_def)
  have l: "leaf_Lookup cmp (get_leaf K s1 q) key = Inr (m (rank key))" using lookup_at [OF at key] by (simp add: get_leaf_def data_view)
  show ?thesis
  proof (cases "rank key \<in> dom m")
    case True
    then have "InsertIntoLeaf (tenv H R K cmp) t s key val = Inr (s1, False)" using s1(1) l by (auto simp: InsertIntoLeaf_def)
    then show ?thesis using True s1 h by (auto simp: tree_leaf_def)
  next
    case False
    let ?n = "leaf_of K (datas s1 q)"
    have n: "leaf_ok ok rank ?n" "bn_type ?n = LEAF_PAGE" "bn_max ?n = 4" "bn_parent ?n = INVALID_PAGE_ID" "leaf_map rank ?n = m"
      using at by (simp_all add: leaf_at_def)
    have sz: "bn_size ?n = int (card (dom m))" using leaf_size [OF n(1)] n(5) by simp
    have c3: "bn_size ?n < 3" using c False sz by simp
    obtain n' where n': "leaf_Insert cmp ?n key val = Inr (n', bn_size ?n + 1)" "leaf_at ok rank K (write_leaf K (datas s1 q) n') (m(rank key \<mapsto> val))"
      using insert_written [OF leaf_of_fits n(1-4) _ key _ v cap, of "datas s1 q"] c3 False n(5) by (auto simp: domIff)
    let ?s = "put_leaf K s1 q n'"
    have ql: "q < length (frames s1)" using qk s1(2) by (simp add: resident_def)
    have ds: "datas ?s = (datas s1)(q := write_leaf K (datas s1 q) n')" "pins ?s = pins s1" "length (frames ?s) = length (frames s1)"
      using ql by (simp_all add: put_leaf_def data_view)
    have "field (data_at ?s q) 8 = 4" using ds(1) n'(2) by (simp add: data_view leaf_at_def)
    then have "InsertIntoLeaf (tenv H R K cmp) t s key val = Inr (?s, True)"
      using s1(1) l n'(1) c3 False by (auto simp: InsertIntoLeaf_def get_leaf_def data_view domIff Let_def)
    moreover have "resident H tok rel ?s k" using resident_set_data [OF qk s1(2)] by (simp add: put_leaf_def)
    ultimately show ?thesis using False ds n'(2) s1 h by (auto simp: tree_leaf_def q_def [symmetric])
  qed
qed

lemma update_root:
  assumes r: "resident H tok rel s k" "0 < k" "0 \<le> pins s 0" "k \<le> room" and M: "holds_names (datas s 0) M" "card (dom M) < 113"
    and n: "name_ok (index_name t)" "index_name t \<notin> dom M" "root_ok (root_page_id t)"
  shows "\<exists>s'. UpdateRootPageId (tenv H R K cmp) t s True = Inr s' \<and> resident H tok rel s' k \<and> pins s' = pins s \<and> length (frames s') = length (frames s)
    \<and> holds_names (datas s' 0) (M(index_name t \<mapsto> root_page_id t)) \<and> (\<forall>i. i \<noteq> 0 \<longrightarrow> datas s' i = datas s i)"
proof -
  obtain s1 where s1: "FetchPage H R s (int 0) = Inr (s1, Some 0)" "resident H tok rel s1 k" "pins s1 = (pins s)(0 := pins s 0 + 1)"
    "datas s1 = datas s" "length (frames s1) = length (frames s)" using resident_fetch [OF r(1,2)] by blast
  obtain d where d: "InsertRecord (datas s 0) (index_name t) (root_page_id t) = Inr (d, True)" "holds_names d (M(index_name t \<mapsto> root_page_id t))"
    using header_page_ops(4) [OF M(1) n(1,3,2) M(2)] by blast
  let ?s2 = "set_data s1 0 d"
  have l: "0 < length (frames s1)" using s1(2) r(2) by (auto simp: resident_def)
  have v: "datas ?s2 = (datas s1)(0 := d)" "pins ?s2 = pins s1" using l by simp_all
  obtain s3 where s3: "UnpinPage H R ?s2 (int 0) True = Inr (s3, True)" "resident H tok rel s3 k" "pins s3 = (pins ?s2)(0 := pins ?s2 0 - 1)"
    "datas s3 = datas ?s2" "length (frames s3) = length (frames ?s2)"
    using resident_unpin [OF resident_set_data [OF r(2) s1(2)] r(2) _ r(4), of d True] s1(3) r(3) v by auto
  have "UpdateRootPageId (tenv H R K cmp) t s True = Inr s3"
    using s1(1,4) s3(1) d(1) by (simp add: UpdateRootPageId_def HEADER_PAGE_ID_def on_page_def data_view)
  moreover have "pins s3 = pins s" using s3(3) s1(3) v by (auto simp: fun_eq_iff)
  ultimately show ?thesis using s3 s1 v d(2) by auto
qed

lemma start_new_tree:
  assumes r: "resident H tok rel s k" "0 < k" "k < length (frames s)" "length (frames s) \<le> cap" "Suc k \<le> room" "\<forall>i < k. 0 \<le> pins s i"
    and M: "holds_names (datas s 0) M" "card (dom M) < 113" and n: "name_ok (index_name t)" "index_name t \<notin> dom M"
    and key: "ok key" "rid_ok val" "4 \<le> leaf_capacity K" "k < 2 ^ 31"
  shows "\<exists>s'. StartNewTree (tenv H R K cmp) t s key val = Inr (t\<lparr>root_page_id := int k\<rparr>, s')
    \<and> tree_leaf H tok rel ok rank K (t\<lparr>root_page_id := int k\<rparr>) s' (Suc k) [rank key \<mapsto> val] \<and> length (frames s') = length (frames s)
    \<and> holds_names (datas s' 0) (M(index_name t \<mapsto> int k)) \<and> pins s' = (pins s)(k := 0) \<and> (\<forall>i. i \<noteq> 0 \<longrightarrow> i \<noteq> k \<longrightarrow> datas s' i = datas s i)"
proof -
  let ?t = "t\<lparr>root_page_id := int k\<rparr>"
  obtain s1 where s1: "NewPage H R s = Inr (s1, int k, Some k)" "resident H tok rel s1 (Suc k)" "pins s1 = (pins s)(k := 1)"
    "\<forall>i. i \<noteq> k \<longrightarrow> datas s1 i = datas s i" "length (frames s1) = length (frames s)" using resident_new [OF r(1,3,4)] by blast
  have root: "root_ok (int k)" using key(4) by (simp add: root_ok_def)
  obtain s2 where s2: "UpdateRootPageId (tenv H R K cmp) ?t s1 True = Inr s2" "resident H tok rel s2 (Suc k)" "pins s2 = pins s1"
    "length (frames s2) = length (frames s1)" "holds_names (datas s2 0) (M(index_name t \<mapsto> int k))" "\<forall>i. i \<noteq> 0 \<longrightarrow> datas s2 i = datas s1 i"
    using update_root [OF s1(2), of M ?t] r M n s1(3,4) root by auto
  let ?n = "leaf_Init (leaf_of K (datas s2 k)) (int k) INVALID_PAGE_ID"
  have e: "entries ?n = []" by (simp add: leaf_Init_def entries_def)
  then have lo: "leaf_ok ok rank ?n" "leaf_map rank ?n = Map.empty" by (simp_all add: leaf_ok_def leaf_map_def ranks_def page_sizes_ok_def leaf_Init_def)
  have lf: "leaf_fits K ?n" "bn_type ?n = LEAF_PAGE" "bn_max ?n = 4" "bn_parent ?n = INVALID_PAGE_ID" "bn_size ?n < 4"
    using key(4) leaf_of_fits [of K "datas s2 k"] by (simp_all add: leaf_Init_def leaf_fits_def int32_ok_def INVALID_PAGE_ID_def)
  obtain n' where n': "leaf_Insert cmp ?n key val = Inr (n', bn_size ?n + 1)" "leaf_at ok rank K (write_leaf K (datas s2 k) n') [rank key \<mapsto> val]"
    using insert_written [OF lf(1) lo(1) lf(2-5) key(1) _ key(2,3), of "datas s2 k"] lo(2) by auto
  let ?s3 = "put_leaf K s2 k n'"
  have kl: "k < length (frames s2)" using r(3) s1(5) s2(4) by simp
  have v: "datas ?s3 = (datas s2)(k := write_leaf K (datas s2 k) n')" "pins ?s3 = pins s2" "length (frames ?s3) = length (frames s2)"
    using kl by (simp_all add: put_leaf_def data_view)
  have "resident H tok rel ?s3 (Suc k)" using resident_set_data [OF lessI s2(2)] by (simp add: put_leaf_def)
  then obtain s4 where s4: "UnpinPage H R ?s3 (int k) True = Inr (s4, True)" "resident H tok rel s4 (Suc k)" "pins s4 = (pins ?s3)(k := pins ?s3 k - 1)"
    "datas s4 = datas ?s3" "length (frames s4) = length (frames ?s3)"
    using resident_unpin [of ?s3 "Suc k" k True] v(2) s2(3) s1(3) r(3,5) by auto
  have "StartNewTree (tenv H R K cmp) t s key val = Inr (?t, s4)"
    using s1(1) s2(1) n'(1) s4(1) by (simp add: StartNewTree_def Let_def get_leaf_def data_view)
  moreover have "0 \<le> pins s4 i" if "i < Suc k" for i using that s4(3) v(2) s2(3) s1(3) r(6) by (auto simp: less_Suc_eq)
  moreover have "datas s4 0 = datas s2 0" "\<forall>i. i \<noteq> 0 \<longrightarrow> i \<noteq> k \<longrightarrow> datas s4 i = datas s i" using s4(4) v(1) r(2) s2(6) s1(4) by simp_all
  moreover have "pins s4 = (pins s)(k := 0)" using s4(3) v(2) s2(3) s1(3) by (auto simp: fun_eq_iff)
  ultimately show ?thesis using s4 v n'(2) s2 s1 by (auto simp: tree_leaf_def)
qed

end

subsection \<open>Sequences of operations\<close>

datatype tree_op = Tree_Insert bytes rid | Tree_Get bytes

datatype tree_out = Insert_Out bool | Get_Out "rid option"

fun tree_step :: "('t, 'r) tree_env \<Rightarrow> btree \<Rightarrow> ('t, 'r) pool \<Rightarrow> tree_op \<Rightarrow> (btree \<times> ('t, 'r) pool \<times> tree_out) db" where
  "tree_step E t s (Tree_Insert key val) = then_do (tree_Insert E t s key val) (\<lambda>(t1, s1, b). Inr (t1, s1, Insert_Out b))"
| "tree_step E t s (Tree_Get key) = then_do (tree_GetValue E t s key) (\<lambda>(s1, v). Inr (t, s1, Get_Out v))"

fun run_tree :: "('t, 'r) tree_env \<Rightarrow> btree \<Rightarrow> ('t, 'r) pool \<Rightarrow> tree_op list \<Rightarrow> (btree \<times> ('t, 'r) pool \<times> tree_out list) db" where
  "run_tree E t s [] = Inr (t, s, [])"
| "run_tree E t s (x # xs) = then_do (tree_step E t s x) (\<lambda>(t1, s1, y). then_do (run_tree E t1 s1 xs) (\<lambda>(t2, s2, ys). Inr (t2, s2, y # ys)))"

text \<open>What they do to a map from keys to record identifiers: the first value of a key stays.\<close>

fun keys_step :: "(bytes \<Rightarrow> 'o) \<Rightarrow> ('o \<rightharpoonup> rid) \<Rightarrow> tree_op \<Rightarrow> ('o \<rightharpoonup> rid) \<times> tree_out" where
  "keys_step rank m (Tree_Insert key val) = (if m (rank key) = None then m(rank key \<mapsto> val) else m, Insert_Out False)"
| "keys_step rank m (Tree_Get key) = (m, Get_Out (m (rank key)))"

fun run_keys :: "(bytes \<Rightarrow> 'o) \<Rightarrow> ('o \<rightharpoonup> rid) \<Rightarrow> tree_op list \<Rightarrow> ('o \<rightharpoonup> rid) \<times> tree_out list" where
  "run_keys rank m [] = (m, [])"
| "run_keys rank m (x # xs) = (let (m1, y) = keys_step rank m x; (m2, ys) = run_keys rank m1 xs in (m2, y # ys))"

fun tree_op_ok :: "(bytes \<Rightarrow> bool) \<Rightarrow> tree_op \<Rightarrow> bool" where
  "tree_op_ok ok (Tree_Insert key val) \<longleftrightarrow> ok key \<and> rid_ok val"
| "tree_op_ok ok (Tree_Get key) \<longleftrightarrow> ok key"

text \<open>Good operations, and never more than three keys.\<close>

fun tree_ops_ok :: "(bytes \<Rightarrow> bool) \<Rightarrow> (bytes \<Rightarrow> 'o) \<Rightarrow> ('o \<rightharpoonup> rid) \<Rightarrow> tree_op list \<Rightarrow> bool" where
  "tree_ops_ok ok rank m [] \<longleftrightarrow> True"
| "tree_ops_ok ok rank m (x # xs) \<longleftrightarrow>
     tree_op_ok ok x \<and> card (dom (fst (keys_step rank m x))) \<le> 3 \<and> tree_ops_ok ok rank (fst (keys_step rank m x)) xs"

context tree_parts
begin

lemma tree_finite: "tree_leaf H tok rel ok rank K t s k m \<Longrightarrow> finite (dom m)"
  by (auto simp: tree_leaf_def leaf_at_def leaf_map_def finite_dom_map_of)

lemma tree_step_ok:
  assumes h: "tree_leaf H tok rel ok rank K t s k m" and x: "tree_op_ok ok x" "card (dom (fst (keys_step rank m x))) \<le> 3"
    and c: "k \<le> room" "4 \<le> leaf_capacity K" and size: "0 < unat (btree_size t)" "unat (btree_size t) + 1 < 2 ^ 64"
  shows "\<exists>t' s'. tree_step (tenv H R K cmp) t s x = Inr (t', s', snd (keys_step rank m x)) \<and> tree_leaf H tok rel ok rank K t' s' k (fst (keys_step rank m x))
    \<and> length (frames s') = length (frames s) \<and> 0 < unat (btree_size t') \<and> unat (btree_size t') \<le> unat (btree_size t) + 1"
proof (cases x)
  case (Tree_Get key)
  then show ?thesis using get_value [OF h c(1), of key] x(1) size(1) by force
next
  case (Tree_Insert key val)
  have "card (dom m) < 3" if "m (rank key) = None"
    using x(2) that card_insert_disjoint [OF tree_finite [OF h], of "rank key"] by (simp add: Tree_Insert domIff)
  then have "rank key \<in> dom m \<or> card (dom m) < 3" by (auto simp: domIff)
  then obtain s' where s': "InsertIntoLeaf (tenv H R K cmp) t s key val = Inr (s', rank key \<notin> dom m)"
    "tree_leaf H tok rel ok rank K t s' k (if rank key \<in> dom m then m else m(rank key \<mapsto> val))" "length (frames s') = length (frames s)"
    using insert_into_leaf [OF h c(1) _ _ c(2), of key val] x(1) Tree_Insert by auto
  let ?t = "t\<lparr>btree_size := btree_size t + 1\<rparr>"
  have "btree_size t \<noteq> 0" using size(1) by auto
  then have "tree_step (tenv H R K cmp) t s x = Inr (?t, s', Insert_Out False)"
    using s'(1) by (simp add: Tree_Insert tree_Insert_def IsEmpty_def)
  moreover have "unat (btree_size ?t) = unat (btree_size t) + 1" using size(2) by (simp add: unat_word_ariths)
  moreover have "tree_leaf H tok rel ok rank K ?t s' k (fst (keys_step rank m x))"
    using s'(2) by (auto simp: tree_leaf_def Tree_Insert domIff split: if_splits)
  ultimately show ?thesis using s'(3) by (auto simp: Tree_Insert)
qed

lemma run_tree_ok:
  assumes "tree_leaf H tok rel ok rank K t s k m" "tree_ops_ok ok rank m xs" "k \<le> room" "4 \<le> leaf_capacity K"
    "0 < unat (btree_size t)" "unat (btree_size t) + length xs < 2 ^ 64"
  shows "\<exists>t' s'. run_tree (tenv H R K cmp) t s xs = Inr (t', s', snd (run_keys rank m xs)) \<and> tree_leaf H tok rel ok rank K t' s' k (fst (run_keys rank m xs))
    \<and> length (frames s') = length (frames s) \<and> 0 < unat (btree_size t')"
  using assms
proof (induction xs arbitrary: t s m)
  case (Cons x xs)
  obtain t1 s1 where s1: "tree_step (tenv H R K cmp) t s x = Inr (t1, s1, snd (keys_step rank m x))" "tree_leaf H tok rel ok rank K t1 s1 k (fst (keys_step rank m x))"
    "0 < unat (btree_size t1)" "unat (btree_size t1) \<le> unat (btree_size t) + 1" "length (frames s1) = length (frames s)"
    using tree_step_ok [OF Cons.prems(1), of x] Cons.prems by auto
  then show ?case using Cons.IH [OF s1(2)] Cons.prems by (auto split: prod.splits)
qed auto

lemma run_new_tree:
  assumes r: "resident H tok rel s k" "0 < k" "k < length (frames s)" "length (frames s) \<le> cap" "Suc k \<le> room" "\<forall>i < k. 0 \<le> pins s i"
    and M: "holds_names (datas s 0) M" "card (dom M) < 113" "name_ok name" "name \<notin> dom M"
    and xs: "tree_ops_ok ok rank Map.empty (Tree_Insert key val # xs)" "4 \<le> leaf_capacity K" "k < 2 ^ 31" "length xs + 1 < 2 ^ 64"
  shows "\<exists>t' s'. run_tree (tenv H R K cmp) (new_BPlusTree name INVALID_PAGE_ID) s (Tree_Insert key val # xs)
      = Inr (t', s', snd (run_keys rank Map.empty (Tree_Insert key val # xs)))
    \<and> tree_leaf H tok rel ok rank K t' s' (Suc k) (fst (run_keys rank Map.empty (Tree_Insert key val # xs)))
    \<and> length (frames s') = length (frames s) \<and> 0 < unat (btree_size t')"
proof -
  let ?t = "new_BPlusTree name INVALID_PAGE_ID"
  let ?t1 = "?t\<lparr>root_page_id := int k, btree_size := 1\<rparr>"
  obtain s1 where s1: "StartNewTree (tenv H R K cmp) ?t s key val = Inr (?t\<lparr>root_page_id := int k\<rparr>, s1)"
    "tree_leaf H tok rel ok rank K (?t\<lparr>root_page_id := int k\<rparr>) s1 (Suc k) [rank key \<mapsto> val]" "length (frames s1) = length (frames s)"
    using start_new_tree [OF r M(1,2), of ?t key val] M xs by (auto simp: new_BPlusTree_def)
  have "tree_step (tenv H R K cmp) ?t s (Tree_Insert key val) = Inr (?t1, s1, Insert_Out False)"
    using s1(1) by (simp add: tree_Insert_def IsEmpty_def) (simp add: new_BPlusTree_def)
  moreover have "tree_leaf H tok rel ok rank K ?t1 s1 (Suc k) [rank key \<mapsto> val]" using s1(2) by (simp add: tree_leaf_def)
  then have "\<exists>t' s'. run_tree (tenv H R K cmp) ?t1 s1 xs = Inr (t', s', snd (run_keys rank [rank key \<mapsto> val] xs))
      \<and> tree_leaf H tok rel ok rank K t' s' (Suc k) (fst (run_keys rank [rank key \<mapsto> val] xs))
      \<and> length (frames s') = length (frames s1) \<and> 0 < unat (btree_size t')"
    by (rule run_tree_ok) (use xs r in auto)
  ultimately show ?thesis using s1(3) by (auto split: prod.splits)
qed

end

subsection \<open>Integer keys\<close>

definition key_fits :: "schema \<Rightarrow> nat \<Rightarrow> bool" where
  "key_fits sch K \<longleftrightarrow> list_all (\<lambda>c. 0 \<le> column_offset c \<and> column_offset c + int (int_width (column_type c) div 8) \<le> int K) (columns sch)"

definition stored_key_ok :: "schema \<Rightarrow> nat \<Rightarrow> bytes \<Rightarrow> bool" where
  "stored_key_ok sch K k \<longleftrightarrow> key_fits sch K \<and> key_ok sch k"

interpretation gks: stored_keys "GenericComparator F sch" "stored_key_ok sch K" "key_rank sch" K
proof unfold_locales
  fix a b assume "stored_key_ok sch K a" "stored_key_ok sch K b"
  then show "\<exists>c. GenericComparator F sch a b = Inr c \<and> (c < 0 \<longleftrightarrow> key_rank sch a < key_rank sch b) \<and> (c > 0 \<longleftrightarrow> key_rank sch b < key_rank sch a)"
    by (intro gk.cmp_rank) (simp_all add: stored_key_ok_def)
next
  fix x y :: bytes assume e: "\<forall>a. 0 \<le> a \<and> a < int K \<longrightarrow> x a = y a" and y: "stored_key_ok sch K y"
  have "column_num sch x i = column_num sch y i" if "i < length (columns sch)" for i
    by (rule column_num_cong) (use that e y in \<open>auto simp: stored_key_ok_def key_fits_def list_all_length\<close>)
  then have "key_rank sch x = key_rank sch y" "key_ok sch x \<longleftrightarrow> key_ok sch y" by (auto simp: key_rank_def key_ok_def list_all_iff)
  then show "stored_key_ok sch K x \<and> key_rank sch x = key_rank sch y" using y by (simp add: stored_key_ok_def)
qed

interpretation bt: tree_parts "ext_class hp" "one_page 100" 100 "lru_class (ext_class hf)" "lru_rel (ext_class hf) (one_page 8) 8" 8
    "GenericComparator F sch" "stored_key_ok sch K" "key_rank sch" K
  for hp :: "int \<Rightarrow> nat" and hf :: "nat \<Rightarrow> nat" and F :: "'d dbl_ops" and sch K ..

end
