(* ===== verification/Bplus_Tree_Props.thy ===== *)
theory Bplus_Tree_Props
  imports Bplus_Tree_Correct
begin

section \<open>The B+ tree until and after its first split\<close>

text \<open>
  The tree over the buffer pool of the constructor and the header page: as a map while its root is a leaf, and what
  remains of it after the first split.
\<close>

lemma capacity_ok: "K \<le> 64 \<Longrightarrow> 56 \<le> leaf_capacity K" "K \<le> 64 \<Longrightarrow> 2 \<le> internal_capacity K"
proof -
  assume K: "K \<le> 64"
  have "(4072 :: int) div 72 \<le> 4072 div (int K + 8)" "(4076 :: int) div 68 \<le> 4076 div (int K + 4)" using K zdiv_mono2 [of 4072 "int K + 8" 72] zdiv_mono2 [of 4076 "int K + 4" 68] by simp_all
  then show "56 \<le> leaf_capacity K" "2 \<le> internal_capacity K" by (simp_all add: leaf_capacity_def internal_capacity_def PAGE_SIZE_def)
qed

lemma zero_header:
  assumes "\<forall>a. 0 \<le> a \<longrightarrow> a < PAGE_SIZE \<longrightarrow> d a = 0"
  shows "holds_names d Map.empty"
proof -
  have "read_mem d 0 4 = [0, 0, 0, 0]" using assms by (simp add: read_mem_def PAGE_SIZE_def upt_rec numeral_eq_Suc)
  then have "sint (load32 d 0) = 0" by (simp add: load32_def)
  then show ?thesis unfolding holds_names_def by (intro exI [of _ "[]"]) (simp add: holds_records_def)
qed

text \<open>A pool with the header page, as the extension of the database creates it.\<close>

lemma new_database:
  assumes "0 < n" "n \<le> 100"
  obtains s0 s where "NewPage (pt hp) (lru_of hf) (BufferPoolManager n new_disk) = Inr (s0, 0, Some 0)"
    "UnpinPage (pt hp) (lru_of hf) s0 0 True = Inr (s, True)" "resident (pt hp) (one_page 100) (lru_rel (ext_class hf) (one_page 8) 8) s 1"
    "length (frames s) = n" "pins s 0 = 0" "holds_names (datas s 0) Map.empty"
proof -
  let ?s = "BufferPoolManager n new_disk"
  note r = new_pool_resident(1) [of hp hf n] and l = new_pool_resident(2) [of n]
  obtain s0 where s0: "NewPage (pt hp) (lru_of hf) ?s = Inr (s0, int 0, Some 0)"
    "resident (pt hp) (one_page 100) (lru_rel (ext_class hf) (one_page 8) 8) s0 (Suc 0)" "pins s0 = (pins ?s)(0 := 1)" "length (frames s0) = length (frames ?s)"
    "\<forall>a. 0 \<le> a \<longrightarrow> a < PAGE_SIZE \<longrightarrow> datas s0 0 a = 0" using bpm.page_calls(3) [OF r] l assms by auto
  obtain s where s: "UnpinPage (pt hp) (lru_of hf) s0 (int 0) True = Inr (s, True)"
    "resident (pt hp) (one_page 100) (lru_rel (ext_class hf) (one_page 8) 8) s (Suc 0)" "pins s = (pins s0)(0 := pins s0 0 - 1)" "datas s = datas s0"
    "length (frames s) = length (frames s0)" using bpm.page_calls(2) [OF s0(2), of 0 True] s0(3) by auto
  show ?thesis by (rule that [of s0 s]) (use s0 s l zero_header [OF s0(5)] in auto)
qed

lemma byte_stored: "stored_key_ok byte_schema 4 (byte_key b) \<longleftrightarrow> sbits 8 (uint b) \<noteq> -128"
proof -
  have "key_fits byte_schema 4" by (simp add: key_fits_def byte_schema_def)
  then show ?thesis by (simp add: stored_key_ok_def)
qed

text \<open>The values the lookups of a sequence of operations find in a map that keeps the first value of a key.\<close>

fun map_lookups :: "(bytes \<Rightarrow> 'o) \<Rightarrow> ('o \<rightharpoonup> rid) \<Rightarrow> tree_op list \<Rightarrow> rid option list" where
  "map_lookups rank m [] = []"
| "map_lookups rank m (Tree_Insert key val # xs) =
     map_lookups rank (if m (rank key) = None then m(rank key \<mapsto> val) else m) xs"
| "map_lookups rank m (Tree_Get key # xs) = m (rank key) # map_lookups rank m xs"

fun lookups :: "tree_out list \<Rightarrow> rid option list" where
  "lookups [] = []"
| "lookups (Insert_Out b # ys) = lookups ys"
| "lookups (Get_Out v # ys) = v # lookups ys"

lemma lookups_run_keys: "lookups (snd (run_keys rank m xs)) = map_lookups rank m xs"
proof (induction xs arbitrary: m)
  case (Cons x xs)
  then show ?case by (cases x) (simp_all add: split_def Let_def)
qed simp

text \<open>C6. A tree with at most three keys is a map: in a database that has only the header page, in a pool of 2 to 100
  frames, a new tree and any sequence of insertions and lookups that starts with an insertion and has at most three
  different keys in all runs without error, and each lookup returns the value that was first inserted for its key, or
  nothing when the key has not been inserted. Keys have integer columns that are not null, in at most 64 bytes. Nothing
  is said about what \<open>Insert\<close> returns.\<close>

theorem bplus_tree_refines_map:
  assumes "2 \<le> n" and "n \<le> 100" and "K \<le> 64" and "name_ok name" and "length xs + 1 < 2 ^ 64"
    and "tree_ops_ok (stored_key_ok sch K) (key_rank sch) Map.empty (Tree_Insert key val # xs)"
  shows "\<exists>s0 s1 t s ys. NewPage (pt hp) (lru_of hf) (BufferPoolManager n new_disk) = Inr (s0, 0, Some 0)
    \<and> UnpinPage (pt hp) (lru_of hf) s0 0 True = Inr (s1, True)
    \<and> run_tree (tenv (pt hp) (lru_of hf) K (GenericComparator F sch)) (new_BPlusTree name INVALID_PAGE_ID) s1 (Tree_Insert key val # xs)
      = Inr (t, s, ys)
    \<and> lookups ys = map_lookups (key_rank sch) Map.empty (Tree_Insert key val # xs)"
proof -
  have "0 < n" using assms(1) by simp
  then obtain s0 s1 where s: "NewPage (pt hp) (lru_of hf) (BufferPoolManager n new_disk) = Inr (s0, 0, Some 0)"
    "UnpinPage (pt hp) (lru_of hf) s0 0 True = Inr (s1, True)" "resident (pt hp) (one_page 100) (lru_rel (ext_class hf) (one_page 8) 8) s1 1"
    "length (frames s1) = n" "pins s1 0 = 0" "holds_names (datas s1 0) Map.empty" by (rule new_database) (use assms(2) in simp)
  have "\<exists>t s. run_tree (tenv (pt hp) (lru_of hf) K (GenericComparator F sch)) (new_BPlusTree name INVALID_PAGE_ID) s1 (Tree_Insert key val # xs)
      = Inr (t, s, snd (run_keys (key_rank sch) Map.empty (Tree_Insert key val # xs)))"
    using bt.run_new_tree [OF s(3) _ _ _ _ _ s(6), of name sch K key val xs F] assms s(4,5) capacity_ok(1) [OF assms(3)] by auto
  with s(1,2) lookups_run_keys [of "key_rank sch" Map.empty "Tree_Insert key val # xs"] show ?thesis by blast
qed

theorem bplus_tree_refines_map_witness:
  "\<exists>s0 s1 t s ys. NewPage (pt nat) (lru_of id) (BufferPoolManager 50 new_disk) = Inr (s0, 0, Some 0)
    \<and> UnpinPage (pt nat) (lru_of id) s0 0 True = Inr (s1, True)
    \<and> run_tree (tenv (pt nat) (lru_of id) 4 (GenericComparator word_doubles byte_schema)) (new_BPlusTree [105] INVALID_PAGE_ID) s1
        [Tree_Insert (byte_key 7) \<lparr>rid_page = 1, rid_slot = 2\<rparr>, Tree_Insert (byte_key 3) \<lparr>rid_page = 1, rid_slot = 0\<rparr>,
         Tree_Insert (byte_key 7) \<lparr>rid_page = 5, rid_slot = 5\<rparr>, Tree_Get (byte_key 7), Tree_Get (byte_key 5)] = Inr (t, s, ys)
    \<and> lookups ys = [Some \<lparr>rid_page = 1, rid_slot = 2\<rparr>, None]"
proof -
  let ?xs = "[Tree_Insert (byte_key 3) \<lparr>rid_page = 1, rid_slot = 0\<rparr>, Tree_Insert (byte_key 7) \<lparr>rid_page = 5, rid_slot = 5\<rparr>,
      Tree_Get (byte_key 7), Tree_Get (byte_key 5)]"
  have "tree_ops_ok (stored_key_ok byte_schema 4) (key_rank byte_schema) Map.empty (Tree_Insert (byte_key 7) \<lparr>rid_page = 1, rid_slot = 2\<rparr> # ?xs)"
    by (simp add: byte_stored rid_ok_def int32_ok_def card_insert_if)
  then show ?thesis
    using bplus_tree_refines_map [of 50 4 "[105]" ?xs byte_schema "byte_key 7" "\<lparr>rid_page = 1, rid_slot = 2\<rparr>" nat id word_doubles]
    by (simp add: name_ok_def)
qed

subsection \<open>The first split\<close>

lemma same_leaf_trans: "same_leaf K a b \<Longrightarrow> same_leaf K b c \<Longrightarrow> same_leaf K a c"
  unfolding same_leaf_def list_all2_conv_all_nth by simp

lemma leaf_of_set_field:
  assumes "a \<le> 20"
  shows "list_all2 (\<lambda>x y. snd x = snd y \<and> (\<forall>b. 0 \<le> b \<and> b < int K \<longrightarrow> fst x b = fst y b)) (bn_array (leaf_of K (set_field d a v))) (bn_array (leaf_of K d))"
proof -
  have "set_field d a v b = d b" if "24 \<le> b" for b using that assms by (simp add: set_field_def mem_simps)
  moreover have "field (set_field d a v) b = field d b" if "24 \<le> b" for b using that assms by (simp add: field_set_field)
  ultimately show ?thesis by (auto simp: leaf_of_def leaf_entry_def Let_def list_all2_map1 list_all2_map2 intro!: list_all2_refl)
qed

lemma leaf_of_links:
  "int32_ok v \<Longrightarrow> same_leaf K (leaf_of K (set_field d 20 v)) ((leaf_of K d)\<lparr>bn_next := v\<rparr>)"
  "int32_ok v \<Longrightarrow> same_leaf K (leaf_of K (set_field d 12 v)) ((leaf_of K d)\<lparr>bn_parent := v\<rparr>)"
  using leaf_of_set_field [of 20 K d v] leaf_of_set_field [of 12 K d v] by (simp_all add: same_leaf_def field_set_field load_set_field)

context tree_parts
begin

text \<open>Splitting the leaf in frame \<open>q\<close>: it keeps the lower half of its entries.\<close>

lemma split_leaf:
  assumes r: "resident H tok rel s k" "q < k" "k < length (frames s)" "length (frames s) \<le> cap" "length (frames s) \<le> room" "k < 2 ^ 31"
    and n: "page_sizes_ok (leaf_of K (datas s q))" "field (datas s q) 4 \<le> int (leaf_capacity K)" "code_type (load32 (datas s q) 0) = LEAF_PAGE"
  shows "\<exists>s'. tree_Split (tenv H R K cmp) s q = Inr (s', k) \<and> resident H tok rel s' (Suc k) \<and> pins s' = (pins s)(k := 0)
    \<and> length (frames s') = length (frames s) \<and> code_type (load32 (datas s' k) 0) = LEAF_PAGE
    \<and> same_leaf K (leaf_of K (datas s' q)) ((leaf_of K (datas s q))\<lparr>bn_size := int (nat (field (datas s q) 4) div 2), bn_next := int k\<rparr>)"
proof -
  obtain s1 where s1: "NewPage H R s = Inr (s1, int k, Some k)" "resident H tok rel s1 (Suc k)" "pins s1 = (pins s)(k := 1)"
    "\<forall>i. i \<noteq> k \<longrightarrow> datas s1 i = datas s i" "length (frames s1) = length (frames s)" using resident_new [OF r(1,3,4)] by blast
  have len: "k < length (frames s1)" "q < length (frames s1)" "q \<noteq> k" using r s1(5) by auto
  let ?d = "datas s q"
  define g0 where "g0 = leaf_Init (leaf_of K (datas s1 k)) (int k) (field ?d 12)"
  define s2 where "s2 = put_leaf K s1 k g0"
  have d2: "datas s2 = (datas s1)(k := write_leaf K (datas s1 k) g0)" "pins s2 = pins s1" "length (frames s2) = length (frames s1)"
    using len by (simp_all add: s2_def put_leaf_def data_view)
  have fit0: "leaf_fits K g0" using leaf_of_fits [of K "datas s1 k"] r(6) field_ok [of ?d 12, unfolded int32_ok_def] by (simp add: g0_def leaf_Init_def leaf_fits_def int32_ok_def INVALID_PAGE_ID_def)
  define g where "g = leaf_of K (write_leaf K (datas s1 k) g0)"
  have g: "bn_size g = 0" "bn_type g = LEAF_PAGE" using leaf_of_write [OF fit0, of "datas s1 k"] by (auto simp: same_leaf_def g_def g0_def leaf_Init_def)
  have gl: "length (bn_array g) = leaf_capacity K" by (simp add: g_def leaf_of_def)
  define f where "f = leaf_of K ?d"
  define half where "half = nat (field ?d 4) div 2"
  let ?f = "f\<lparr>bn_size := int half\<rparr>" and ?g = "g\<lparr>bn_array := drop half (entries f) @ drop (nat (field ?d 4) - half) (bn_array g)\<rparr>"
  have sizes: "0 \<le> field ?d 4" "nat (field ?d 4) \<le> leaf_capacity K" using n(1,2) by (auto simp: page_sizes_ok_def)
  have m: "MoveHalfTo f g = Inr (?f, ?g)"
    using MoveHalfTo_ok [of f g] n g gl sizes by (simp add: f_def page_sizes_ok_def half_def)
  have lf: "length (entries f) = nat (field ?d 4)" using length_entries [OF n(1)] by (simp add: f_def)
  have "set (entries f) \<subseteq> set (bn_array f)" by (simp add: entries_def set_take_subset)
  then have fit: "leaf_fits K ?f" "leaf_fits K ?g"
    using leaf_of_fits [of K ?d] leaf_of_fits [of K "write_leaf K (datas s1 k) g0"] sizes lf gl field_ok [of ?d 4, unfolded int32_ok_def]
    by (auto simp: f_def [symmetric] g_def [symmetric] leaf_fits_def int32_ok_def half_def dest!: in_set_dropD)
  let ?dg = "write_leaf K (write_leaf K (datas s1 k) g0) ?g" and ?df = "write_leaf K ?d ?f"
  define s3 where "s3 = put_leaf K (put_leaf K s2 k ?g) q ?f"
  have d3: "datas s3 = (datas s2)(k := ?dg, q := ?df)" "pins s3 = pins s2" "length (frames s3) = length (frames s2)"
    using len d2 s1(4) by (simp_all add: s3_def put_leaf_def data_view fun_upd_twist)
  define s4 where "s4 = set_data s3 q (set_field (data_at s3 q) 20 (int k))"
  have d4: "datas s4 = (datas s2)(k := ?dg, q := set_field ?df 20 (int k))" "pins s4 = pins s1" "length (frames s4) = length (frames s1)"
    using len d2 d3 by (simp_all add: s4_def data_view)
  have "resident H tok rel s4 (Suc k)"
    using s1(2) r(2) by (simp add: s4_def s3_def s2_def put_leaf_def resident_set_data)
  then obtain s5 where s5: "UnpinPage H R s4 (int k) True = Inr (s5, True)" "resident H tok rel s5 (Suc k)" "pins s5 = (pins s4)(k := pins s4 k - 1)"
    "datas s5 = datas s4" "length (frames s5) = length (frames s4)"
    using resident_unpin [of s4 "Suc k" k True] d4(2) s1(3) r(3,5) by auto
  have "tree_Split (tenv H R K cmp) s q = Inr (s5, k)"
    using s1(1) s5(1) m len(3) s1(4)
    by (simp add: tree_Split_def Let_def get_leaf_def data_view g0_def [symmetric] s2_def [symmetric] d2(1) f_def [symmetric] g_def [symmetric]
        s3_def [symmetric] s4_def [unfolded data_view, symmetric])
  moreover have "pins s5 = (pins s)(k := 0)" using s5(3) d4(2) s1(3) by (auto simp: fun_eq_iff)
  moreover have "code_type (load32 (datas s5 k) 0) = LEAF_PAGE"
    using leaf_of_write [OF fit(2), of "write_leaf K (datas s1 k) g0"] s5(4) d4(1) len(3) g(2) by (simp add: same_leaf_def)
  moreover have "same_leaf K (leaf_of K (datas s5 q)) (?f\<lparr>bn_next := int k\<rparr>)"
  proof -
    have "same_leaf K (leaf_of K (set_field ?df 20 (int k))) ((leaf_of K ?df)\<lparr>bn_next := int k\<rparr>)" using r(6) by (intro leaf_of_links) (simp add: int32_ok_def)
    moreover have "same_leaf K ((leaf_of K ?df)\<lparr>bn_next := int k\<rparr>) (?f\<lparr>bn_next := int k\<rparr>)" using leaf_of_write [OF fit(1), of ?d] by (simp add: same_leaf_def)
    ultimately show ?thesis using s5(4) d4(1) same_leaf_trans by simp
  qed
  ultimately show ?thesis using s5 d4(3) s1(5) by (auto simp: f_def half_def)
qed

text \<open>A parent for the two halves: a new page, which the tree does not make its root.\<close>

lemma new_parent:
  assumes r: "resident H tok rel s k" "k < length (frames s)" "length (frames s) \<le> cap" "length (frames s) \<le> room" "K \<le> 64"
    and f: "q < k" "g < k" "q \<noteq> g" "field (datas s q) 12 = INVALID_PAGE_ID" "code_type (load32 (datas s g) 0) = LEAF_PAGE"
  shows "\<exists>s'. InsertIntoParent (tenv H R K cmp) s q g = Inr s' \<and> resident H tok rel s' (Suc k) \<and> pins s' = (pins s)(k := 0)
    \<and> length (frames s') = length (frames s) \<and> datas s' q = set_field (datas s q) 12 (int k)"
proof -
  note cap = capacity_ok [OF r(5)]
  obtain midkey where mid: "KeyAt (leaf_of K (datas s g)) 0 = Inr midkey" using cap(1) by (auto simp: KeyAt_def slot_get_def leaf_of_def)
  obtain s1 where s1: "NewPage H R s = Inr (s1, int k, Some k)" "resident H tok rel s1 (Suc k)" "pins s1 = (pins s)(k := 1)"
    "\<forall>i. i \<noteq> k \<longrightarrow> datas s1 i = datas s i" "length (frames s1) = length (frames s)" using resident_new [OF r(1-3)] by blast
  have len: "k < length (frames s1)" "q < length (frames s1)" "g < length (frames s1)" "q \<noteq> k" "g \<noteq> k" using r f s1(5) by auto
  define s2 where "s2 = put_internal K s1 k (internal_Init (internal_of K (datas s1 k)) (int k) INVALID_PAGE_ID)"
  define s3 where "s3 = set_parent (set_parent s2 q (int k)) g (int k)"
  have d2: "\<forall>i. i \<noteq> k \<longrightarrow> datas s2 i = datas s i" "pins s2 = pins s1" "length (frames s2) = length (frames s1)"
    using len s1(4) by (auto simp: s2_def put_internal_def)
  have d3: "datas s3 q = set_field (datas s q) 12 (int k)" "pins s3 = pins s1" "length (frames s3) = length (frames s1)"
    using len d2 f(3) by (auto simp: s3_def set_parent_def data_view)
  obtain n where n: "PopulateNewRoot (internal_of K (datas s3 k)) (field (datas s3 q) 16) midkey (field (datas s3 g) 16) = Inr n"
    using cap(2) by (simp add: PopulateNewRoot_def slot_set_def internal_of_def)
  let ?s4 = "put_internal K s3 k n"
  have d4: "datas ?s4 q = datas s3 q" "pins ?s4 = pins s1" "length (frames ?s4) = length (frames s1)"
    using len d3 by (auto simp: put_internal_def)
  have "resident H tok rel ?s4 (Suc k)"
    using s1(2) f(1,2) by (simp add: s3_def s2_def put_internal_def set_parent_def resident_set_data)
  then obtain s5 where s5: "UnpinPage H R ?s4 (int k) True = Inr (s5, True)" "resident H tok rel s5 (Suc k)" "pins s5 = (pins ?s4)(k := pins ?s4 k - 1)"
    "datas s5 = datas ?s4" "length (frames s5) = length (frames ?s4)"
    using resident_unpin [of ?s4 "Suc k" k True] d4(2) s1(3) r(2,4) by auto
  have "InsertIntoParent (tenv H R K cmp) s q g = Inr s5"
    using f(4,5) mid s1(1) n s5(1)
    by (simp add: InsertIntoParent_def Let_def get_leaf_def data_view s2_def [symmetric] s3_def [symmetric])
  moreover have "pins s5 = (pins s)(k := 0)" using s5(3) d4(2) s1(3) by (auto simp: fun_eq_iff)
  ultimately show ?thesis using s5 d4 d3 s1(5) by auto
qed

end

text \<open>The entries of the smallest keys of a map.\<close>

definition smallest :: "nat \<Rightarrow> ('o :: linorder \<rightharpoonup> 'v) \<Rightarrow> 'o \<rightharpoonup> 'v" where
  "smallest n m r = (if card {x \<in> dom m. x < r} < n then m r else None)"

lemma smallest_take:
  assumes "sorted_wrt (<) (map fst es)"
  shows "map_of (take n es) = smallest n (map_of es)"
proof
  fix r
  show "map_of (take n es) r = smallest n (map_of es) r"
    using assms
  proof (induction es arbitrary: n)
    case (Cons e es)
    obtain a v where e: "e = (a, v)" by (cases e)
    have lt: "\<forall>x\<in>dom (map_of es). a < x" using Cons.prems by (auto simp: e dom_map_of_conv_image_fst)
    have lt': "a < x" if "map_of es x = Some y" for x y using lt that by blast
    show ?case
    proof (cases n)
      case (Suc j)
      have "{x \<in> dom (map_of (e # es)). x < r} = (if a < r then insert a {x \<in> dom (map_of es). x < r} else {})"
        by (auto simp: e dest: lt' less_trans)
      moreover have "a \<notin> {x \<in> dom (map_of es). x < r}" "finite {x \<in> dom (map_of es). x < r}" using lt by (auto simp: finite_dom_map_of)
      ultimately have c: "card {x \<in> dom (map_of (e # es)). x < r} = (if a < r then Suc (card {x \<in> dom (map_of es). x < r}) else 0)"
        by (metis (no_types, lifting) card.empty card_insert_disjoint)
      have "map_of es r = None" if "\<not> a < r" using lt' that by (cases "map_of es r") auto
      moreover have "map_of (take j es) r = smallest j (map_of es) r" using Cons by simp
      moreover have "map_of (take j es) r = None" if "map_of es r = None" using that by (auto simp: map_of_eq_None_iff dest!: in_set_takeD)
      ultimately show ?thesis using c Suc lt unfolding smallest_def by (cases "a = r"; cases "a < r") (auto simp: e not_less)
    qed (simp add: smallest_def)
  qed (simp add: smallest_def)
qed

context tree_parts
begin

lemma fourth_insert:
  assumes h: "tree_leaf H tok rel ok rank K t s k m" "card (dom m) = 3" "btree_size t \<noteq> 0"
    and c: "Suc k < length (frames s)" "length (frames s) \<le> cap" "length (frames s) \<le> room" "K \<le> 64" "Suc k < 2 ^ 31"
    and key: "ok key" "rid_ok val" "m (rank key) = None"
  shows "\<exists>s'. tree_Insert (tenv H R K cmp) t s key val = Inr (t\<lparr>btree_size := btree_size t + 1\<rparr>, s', False)
    \<and> (\<forall>key'. ok key' \<longrightarrow> (\<exists>s''. tree_GetValue (tenv H R K cmp) (t\<lparr>btree_size := btree_size t + 1\<rparr>) s' key'
      = Inr (s'', smallest 2 (m(rank key \<mapsto> val)) (rank key'))))"
proof -
  define q where "q = nat (root_page_id t)"
  have q: "q < k" "0 \<le> pins s q" "root_page_id t = int q" using h(1) by (auto simp: tree_leaf_def q_def)
  have "k \<le> room" using c by simp
  then obtain s1 where s1: "FindLeafPage (tenv H R K cmp) t s key False = Inr (s1, Some q)" "resident H tok rel s1 k" "pins s1 = pins s"
    "datas s1 = datas s" "length (frames s1) = length (frames s)" using find_leaf [OF h(1)] unfolding q_def by blast
  have at: "leaf_at ok rank K (datas s1 q) m" using h s1(4) by (simp add: tree_leaf_def q_def)
  have l: "leaf_Lookup cmp (leaf_of K (datas s1 q)) key = Inr None" using lookup_at [OF at key(1)] key(3) by simp
  let ?n = "leaf_of K (datas s1 q)" and ?m = "m(rank key \<mapsto> val)"
  have n: "leaf_ok ok rank ?n" "bn_type ?n = LEAF_PAGE" "bn_max ?n = 4" "bn_parent ?n = INVALID_PAGE_ID" "leaf_map rank ?n = m"
    using at by (simp_all add: leaf_at_def)
  have sz: "bn_size ?n = 3" using leaf_size [OF n(1)] n(5) h(2) by simp
  have cap: "4 \<le> leaf_capacity K" using capacity_ok(1) [OF c(4)] by simp
  obtain n' where n': "leaf_Insert cmp ?n key val = Inr (n', 4)" "leaf_at ok rank K (write_leaf K (datas s1 q) n') ?m"
    using insert_written [OF leaf_of_fits n(1-4) _ key(1) _ key(2) cap, of "datas s1 q"] sz key(3) n(5) by auto
  let ?d = "write_leaf K (datas s1 q) n'" and ?s2 = "put_leaf K s1 q n'"
  have ql: "q < length (frames s1)" using q(1) s1(5) c(1) by simp
  have d2: "datas ?s2 = (datas s1)(q := ?d)" "pins ?s2 = pins s1" "length (frames ?s2) = length (frames s1)"
    using ql by (simp_all add: put_leaf_def data_view)
  have r2: "resident H tok rel ?s2 k" using resident_set_data [OF q(1) s1(2)] by (simp add: put_leaf_def)
  have lo: "leaf_ok ok rank (leaf_of K ?d)" "leaf_map rank (leaf_of K ?d) = ?m" "field ?d 8 = 4" "field ?d 12 = INVALID_PAGE_ID"
    "code_type (load32 ?d 0) = LEAF_PAGE" using n'(2) by (simp_all add: leaf_at_def)
  have "finite (dom m)" by (rule tree_finite [OF h(1)])
  then have sz4: "field ?d 4 = 4" using leaf_size [OF lo(1)] lo(2) h(2) key(3) by (simp add: domIff)
  obtain s3 where s3: "tree_Split (tenv H R K cmp) ?s2 q = Inr (s3, k)" "resident H tok rel s3 (Suc k)" "pins s3 = (pins ?s2)(k := 0)"
    "length (frames s3) = length (frames ?s2)" "code_type (load32 (datas s3 k) 0) = LEAF_PAGE"
    "same_leaf K (leaf_of K (datas s3 q)) ((leaf_of K ?d)\<lparr>bn_size := 2, bn_next := int k\<rparr>)"
    using split_leaf [OF r2 q(1)] c d2 s1(5) lo sz4 cap by (auto simp: leaf_ok_def)
  have p3: "field (datas s3 q) 12 = INVALID_PAGE_ID" "code_type (load32 (datas s3 q) 0) = LEAF_PAGE" using s3(6) lo by (auto simp: same_leaf_def)
  obtain s4 where s4: "InsertIntoParent (tenv H R K cmp) s3 q k = Inr s4" "resident H tok rel s4 (Suc (Suc k))" "pins s4 = (pins s3)(Suc k := 0)"
    "datas s4 q = set_field (datas s3 q) 12 (int (Suc k))"
    using new_parent [OF s3(2), of q k] c q(1) s3(4,5) d2(3) s1(5) p3(1) by auto
  let ?t = "t\<lparr>btree_size := btree_size t + 1\<rparr>" and ?h = "(leaf_of K ?d)\<lparr>bn_size := 2, bn_next := int k, bn_parent := int (Suc k)\<rparr>"
  have "tree_Insert (tenv H R K cmp) t s key val = Inr (?t, s4, False)"
    using h(3) s1(1) l n'(1) lo(3) s3(1) s4(1) d2(1)
    by (simp add: tree_Insert_def IsEmpty_def InsertIntoLeaf_def Let_def get_leaf_def data_view)
  moreover have "\<exists>s''. tree_GetValue (tenv H R K cmp) ?t s4 key' = Inr (s'', smallest 2 ?m (rank key'))" if k': "ok key'" for key'
  proof -
    have "int32_ok (int (Suc k))" using c(5) by (simp add: int32_ok_def)
    then have "same_leaf K (leaf_of K (datas s4 q)) ((leaf_of K (datas s3 q))\<lparr>bn_parent := int (Suc k)\<rparr>)" unfolding s4(4) by (rule leaf_of_links(2))
    moreover have "same_leaf K ((leaf_of K (datas s3 q))\<lparr>bn_parent := int (Suc k)\<rparr>) ?h" using s3(6) by (simp add: same_leaf_def)
    ultimately have same: "same_leaf K (leaf_of K (datas s4 q)) ?h" by (rule same_leaf_trans)
    have rk: "ranks rank ?h = take 2 (ranks rank (leaf_of K ?d))" "entries ?h = take 2 (entries (leaf_of K ?d))"
      using sz4 by (simp_all add: ranks_def entries_def take_map)
    then have hok: "leaf_ok ok rank ?h" using lo(1) sz4 by (auto simp: leaf_ok_def page_sizes_ok_def take_map [symmetric] sorted_wrt_take dest: in_set_takeD)
    have "leaf_map rank ?h = smallest 2 ?m"
      using lo(1,2) rk(1) smallest_take [of "ranks rank (leaf_of K ?d)" 2] by (simp add: leaf_map_def leaf_ok_def)
    then have lk: "leaf_Lookup cmp (leaf_of K (datas s4 q)) key' = Inr (smallest 2 ?m (rank key'))"
      using lookup_map [OF same_leaf_ok(1) [OF same hok] k'] same_leaf_ok(2) [OF same hok] by simp
    have "pins s4 q = pins s q" "code_type (load32 (datas s4 q) 0) = LEAF_PAGE"
      using s4(3,4) s3(3) d2(2) s1(3) q(1) p3(2) by (simp_all add: load_set_field)
    then obtain s5 where "FindLeafPage (tenv H R K cmp) ?t s4 key' False = Inr (s5, Some q)" "datas s5 = datas s4"
      using find_root [OF s4(2), of q ?t key'] q c by auto
    then show ?thesis using lk by (auto simp: tree_GetValue_def get_leaf_def data_view)
  qed
  ultimately show ?thesis by blast
qed

end

lemma run_tree_append:
  "run_tree E t s (xs @ ys) = then_do (run_tree E t s xs) (\<lambda>(t1, s1, as). then_do (run_tree E t1 s1 ys) (\<lambda>(t2, s2, bs). Inr (t2, s2, as @ bs)))"
proof (induction xs arbitrary: t s)
  case (Cons x xs)
  have "then_do (then_do r f) g = then_do r (\<lambda>x. then_do (f x) g)" for r :: "'a db" and f :: "'a \<Rightarrow> 'b db" and g :: "'b \<Rightarrow> 'c db"
    by (simp add: then_do_def split: sum.splits)
  then show ?case using Cons by (auto simp: then_do_def split: sum.splits prod.splits)
qed (simp add: then_do_def split: sum.splits prod.splits)

text \<open>C38. The fourth key splits the leaf and loses two entries: in a tree with three keys, after the insertion of another one,
  lookups find the two smallest of the four keys only. \<open>MoveHalfTo\<close> drops the upper half, and the new parent does not
  become the root.\<close>

theorem fourth_key_loses_two:
  assumes "4 \<le> n" and "n \<le> 8" and "K \<le> 64" and "name_ok name" and "length xs + 1 < 2 ^ 64"
    and "tree_ops_ok (stored_key_ok sch K) (key_rank sch) Map.empty (Tree_Insert key val # xs)"
    and "fst (run_keys (key_rank sch) Map.empty (Tree_Insert key val # xs)) = m" and "card (dom m) = 3"
    and "stored_key_ok sch K key4" and "rid_ok val4" and "m (key_rank sch key4) = None" and "stored_key_ok sch K key5"
  shows "\<exists>s0 s1 t s. NewPage (pt hp) (lru_of hf) (BufferPoolManager n new_disk) = Inr (s0, 0, Some 0)
    \<and> UnpinPage (pt hp) (lru_of hf) s0 0 True = Inr (s1, True)
    \<and> run_tree (tenv (pt hp) (lru_of hf) K (GenericComparator F sch)) (new_BPlusTree name INVALID_PAGE_ID) s1
        (Tree_Insert key val # xs @ [Tree_Insert key4 val4, Tree_Get key5])
      = Inr (t, s, snd (run_keys (key_rank sch) Map.empty (Tree_Insert key val # xs))
          @ [Insert_Out False, Get_Out (smallest 2 (m(key_rank sch key4 \<mapsto> val4)) (key_rank sch key5))])"
proof -
  let ?E = "tenv (pt hp) (lru_of hf) K (GenericComparator F sch)"
  have "0 < n" using assms(1) by simp
  then obtain s0 s1 where s: "NewPage (pt hp) (lru_of hf) (BufferPoolManager n new_disk) = Inr (s0, 0, Some 0)"
    "UnpinPage (pt hp) (lru_of hf) s0 0 True = Inr (s1, True)" "resident (pt hp) (one_page 100) (lru_rel (ext_class hf) (one_page 8) 8) s1 1"
    "length (frames s1) = n" "pins s1 0 = 0" "holds_names (datas s1 0) Map.empty" by (rule new_database) (use assms(2) in simp)
  obtain t2 s2 where r: "run_tree ?E (new_BPlusTree name INVALID_PAGE_ID) s1 (Tree_Insert key val # xs)
      = Inr (t2, s2, snd (run_keys (key_rank sch) Map.empty (Tree_Insert key val # xs)))"
    "tree_leaf (pt hp) (one_page 100) (lru_rel (ext_class hf) (one_page 8) 8) (stored_key_ok sch K) (key_rank sch) K t2 s2 (Suc 1) m"
    "length (frames s2) = n" "0 < unat (btree_size t2)"
    using bt.run_new_tree [OF s(3) _ _ _ _ _ s(6), of name sch K key val xs F] assms s(4,5) capacity_ok(1) [OF assms(3)] by auto
  have sz: "btree_size t2 \<noteq> 0" using r(4) by auto
  obtain t3 s3 s4 where "tree_Insert ?E t2 s2 key4 val4 = Inr (t3, s3, False)"
    "tree_GetValue ?E t3 s3 key5 = Inr (s4, smallest 2 (m(key_rank sch key4 \<mapsto> val4)) (key_rank sch key5))"
    using bt.fourth_insert [OF r(2) assms(8) sz, of key4 val4 F] r(3) assms by fastforce
  then have "run_tree ?E (new_BPlusTree name INVALID_PAGE_ID) s1 ((Tree_Insert key val # xs) @ [Tree_Insert key4 val4, Tree_Get key5])
      = Inr (t3, s4, snd (run_keys (key_rank sch) Map.empty (Tree_Insert key val # xs))
          @ [Insert_Out False, Get_Out (smallest 2 (m(key_rank sch key4 \<mapsto> val4)) (key_rank sch key5))])"
    unfolding run_tree_append using r(1) by simp
  with s(1,2) show ?thesis unfolding append_Cons by blast
qed

theorem fourth_key_loses_two_witness:
  "\<exists>s0 s1 t s. NewPage (pt nat) (lru_of id) (BufferPoolManager 4 new_disk) = Inr (s0, 0, Some 0)
    \<and> UnpinPage (pt nat) (lru_of id) s0 0 True = Inr (s1, True)
    \<and> run_tree (tenv (pt nat) (lru_of id) 4 (GenericComparator word_doubles byte_schema)) (new_BPlusTree [105] INVALID_PAGE_ID) s1
        [Tree_Insert (byte_key 7) \<lparr>rid_page = 1, rid_slot = 7\<rparr>, Tree_Insert (byte_key 3) \<lparr>rid_page = 1, rid_slot = 3\<rparr>,
         Tree_Insert (byte_key 5) \<lparr>rid_page = 1, rid_slot = 5\<rparr>, Tree_Get (byte_key 7), Tree_Insert (byte_key 1) \<lparr>rid_page = 1, rid_slot = 1\<rparr>, Tree_Get (byte_key 7)]
      = Inr (t, s, [Insert_Out False, Insert_Out False, Insert_Out False, Get_Out (Some \<lparr>rid_page = 1, rid_slot = 7\<rparr>), Insert_Out False, Get_Out None])"
proof -
  let ?xs = "[Tree_Insert (byte_key 3) \<lparr>rid_page = 1, rid_slot = 3\<rparr>, Tree_Insert (byte_key 5) \<lparr>rid_page = 1, rid_slot = 5\<rparr>, Tree_Get (byte_key 7)]"
  let ?x = "Tree_Insert (byte_key 7) \<lparr>rid_page = 1, rid_slot = 7\<rparr>"
  let ?m = "[[7 :: int] \<mapsto> \<lparr>rid_page = 1, rid_slot = 7\<rparr>, [3] \<mapsto> \<lparr>rid_page = 1, rid_slot = 3\<rparr>, [5] \<mapsto> \<lparr>rid_page = 1, rid_slot = 5\<rparr>]"
  have one: "sbits 8 1 = 1" by (simp add: fits_bits_def)
  have ok: "tree_ops_ok (stored_key_ok byte_schema 4) (key_rank byte_schema) Map.empty (?x # ?xs)"
    by (simp add: byte_stored rid_ok_def int32_ok_def card_insert_if)
  have m: "run_keys (key_rank byte_schema) Map.empty (?x # ?xs)
      = (?m, [Insert_Out False, Insert_Out False, Insert_Out False, Get_Out (Some \<lparr>rid_page = 1, rid_slot = 7\<rparr>)])" by simp
  have c: "card (dom ?m) = 3" by (simp add: card_insert_if)
  have "{x \<in> dom (?m([1] \<mapsto> v)). x < [7]} = {[1], [3], [5]}" for v by (auto simp: domIff split: if_splits)
  then have "smallest 2 (?m([1] \<mapsto> v)) [7] = None" for v by (simp add: smallest_def card_insert_if)
  then show ?thesis
    using fourth_key_loses_two [OF _ _ _ _ _ ok, of 4 "[105]" ?m "byte_key 1" "\<lparr>rid_page = 1, rid_slot = 1\<rparr>" "byte_key 7" nat id word_doubles] c one
    unfolding m by (simp add: name_ok_def byte_stored rid_ok_def int32_ok_def)
qed

end
