(* ===== verification/Vtable_Session.thy ===== *)
theory Vtable_Session
  imports Vtable_Props Bplus_Tree_Props
begin

section \<open>A session with the database\<close>

text \<open>
  A new database, a table with an index, an inserted row, a scan and a query by key: the callbacks of the extension over the
  header page, the table heap, the B+ tree, the buffer pool, its hash tables and its replacer.
\<close>

subsection \<open>A table of one page among others\<close>

definition row_page :: "nat \<Rightarrow> slots \<Rightarrow> bytes \<Rightarrow> bool" where
  "row_page p vs d \<longleftrightarrow> holds_slots d vs \<and> links_of d = [word_of_nat p, word_of_int (-1), word_of_int (-1)]"

lemma row_page_links:
  assumes "row_page p vs d" "p < 2 ^ 31"
  shows "GetPageId d = Inr (int p)" "GetNextPageId d = Inr INVALID_PAGE_ID" "slot_rid d j = \<lparr>rid_page = int p, rid_slot = int j\<rparr>"
proof -
  have l: "links_of d = [word_of_nat p, word_of_int (-1), word_of_int (-1)]" using assms(1) by (simp add: row_page_def)
  then show "GetPageId d = Inr (int p)" using sint_small_nat [OF assms(2)] by simp
  show "GetNextPageId d = Inr INVALID_PAGE_ID" by (simp add: next_of_links l INVALID_PAGE_ID_def)
  have "load32 d 0 = word_of_nat p" using l by (simp add: links_of_def)
  then show "slot_rid d j = \<lparr>rid_page = int p, rid_slot = int j\<rparr>" using sint_small_nat [OF assms(2)] by (simp add: slot_rid_def)
qed

text \<open>An iterator at the only row of the page.\<close>

definition at_row :: "('t, 'r) pool \<Rightarrow> nat \<Rightarrow> u8 list \<Rightarrow> table_iterator \<Rightarrow> bool" where
  "at_row s p bs it \<longleftrightarrow> it_rid it = \<lparr>rid_page = int p, rid_slot = 0\<rparr> \<and> \<not> same_iterator it heap_end
     \<and> (\<exists>r. it_tuple it = Some r \<and> ref_bytes s r = bs)"

context pool_parts
begin

text \<open>Fetching a page, changing its bytes, and unpinning it.\<close>

lemma visit:
  assumes r: "resident H tok rel s k" "p < k" "0 \<le> pins s p" "k \<le> room"
  obtains s1 s2 where "FetchPage H R s (int p) = Inr (s1, Some p)" "datas s1 = datas s" "UnpinPage H R (set_data s1 p d) (int p) b = Inr (s2, True)"
    "resident H tok rel s2 k" "pins s2 = pins s" "datas s2 = (datas s)(p := d)" "length (frames s2) = length (frames s)" "p < length (frames s1)"
proof -
  obtain s1 where s1: "FetchPage H R s (int p) = Inr (s1, Some p)" "resident H tok rel s1 k" "pins s1 = (pins s)(p := pins s p + 1)"
    "datas s1 = datas s" "length (frames s1) = length (frames s)" using resident_fetch [OF r(1,2)] by blast
  let ?s = "set_data s1 p d"
  have p: "p < length (frames s1)" using s1(2) r(2) by (simp add: resident_def)
  have v: "datas ?s = (datas s)(p := d)" "pins ?s = pins s1" "length (frames ?s) = length (frames s)" using p s1 by simp_all
  obtain s2 where s2: "UnpinPage H R ?s (int p) b = Inr (s2, True)" "resident H tok rel s2 k" "pins s2 = (pins ?s)(p := pins ?s p - 1)"
    "datas s2 = datas ?s" "length (frames s2) = length (frames ?s)"
    using resident_unpin [OF resident_set_data [OF r(2) s1(2)] r(2) _ r(4), of d b] s1(3) r(3) by auto
  show ?thesis by (rule that [of s1 s2]) (use s1 s2 v p in \<open>auto simp: fun_eq_iff\<close>)
qed

lemma set_same_data: "set_data s p (datas s p) = s"
  by (simp add: set_data_def set_frame_def datas_def)

lemma look:
  assumes r: "resident H tok rel s k" "p < k" "0 \<le> pins s p" "k \<le> room"
  obtains s1 s2 where "FetchPage H R s (int p) = Inr (s1, Some p)" "datas s1 = datas s" "UnpinPage H R s1 (int p) b = Inr (s2, True)"
    "resident H tok rel s2 k" "pins s2 = pins s" "datas s2 = datas s" "length (frames s2) = length (frames s)"
  by (rule visit [OF r, of "datas s p" b]) (use set_same_data in \<open>metis fun_upd_triv that\<close>)

lemma new_table:
  assumes r: "resident H tok rel s k" "k < length (frames s)" "length (frames s) \<le> cap" "Suc k \<le> room" "k < 2 ^ 31"
  shows "\<exists>s'. new_TableHeap H R s INVALID_PAGE_ID = Inr (s', int k) \<and> resident H tok rel s' (Suc k) \<and> pins s' = (pins s)(k := 0)
    \<and> (\<forall>i. i \<noteq> k \<longrightarrow> datas s' i = datas s i) \<and> length (frames s') = length (frames s) \<and> row_page k [] (datas s' k)"
proof -
  obtain s1 where s1: "NewPage H R s = Inr (s1, int k, Some k)" "resident H tok rel s1 (Suc k)" "pins s1 = (pins s)(k := 1)"
    "\<forall>i. i \<noteq> k \<longrightarrow> datas s1 i = datas s i" "length (frames s1) = length (frames s)" using resident_new [OF r(1-3)] by blast
  obtain d where d: "TablePage_Init (datas s1 k) (int k) PAGE_SIZE INVALID_PAGE_ID INVALID_PAGE_ID = Inr d"
    by (simp add: TablePage_Init_def field_defs in_page_def PAGE_SIZE_def)
  have row: "row_page k [] d" using TablePage_Init_holds [OF d] by (simp add: row_page_def INVALID_PAGE_ID_def)
  let ?s = "set_data s1 k d"
  have v: "datas ?s = (datas s1)(k := d)" "pins ?s = pins s1" "length (frames ?s) = length (frames s)" using r(2) s1(5) by simp_all
  obtain s2 where s2: "UnpinPage H R ?s (int k) True = Inr (s2, True)" "resident H tok rel s2 (Suc k)" "pins s2 = (pins ?s)(k := pins ?s k - 1)"
    "datas s2 = datas ?s" "length (frames s2) = length (frames ?s)"
    using resident_unpin [OF resident_set_data [OF lessI s1(2)] lessI _ r(4), of d True] s1(3) by auto
  have "new_TableHeap H R s INVALID_PAGE_ID = Inr (s2, int k)" using s1(1) d s2(1) by (simp add: new_TableHeap_def data_view)
  moreover have "pins s2 = (pins s)(k := 0)" using s2(3) s1(3) v(2) by (simp add: fun_eq_iff)
  ultimately show ?thesis using s1 s2 v row by simp
qed

lemma insert_row:
  assumes r: "resident H tok rel s k" "p < k" "0 \<le> pins s p" "k \<le> room" "p < 2 ^ 31" and h: "row_page p [] (datas s p)" and bs: "tuple_ok bs"
  shows "\<exists>s'. heap_InsertTuple H R s (int p) bs = Inr (s', Some \<lparr>rid_page = int p, rid_slot = 0\<rparr>) \<and> resident H tok rel s' k \<and> pins s' = pins s
    \<and> (\<forall>i. i \<noteq> p \<longrightarrow> datas s' i = datas s i) \<and> row_page p [Some bs] (datas s' p) \<and> length (frames s') = length (frames s)"
proof -
  have "slots_insert [] bs = Some ([Some bs], 0)" using bs by (simp add: slots_insert_def tuple_ok_def free_space_def used_space_def PAGE_SIZE_def)
  then obtain d where d: "InsertTuple (datas s p) bs = Inr (d, Some \<lparr>rid_page = int p, rid_slot = 0\<rparr>)" "row_page p [Some bs] d"
    using InsertTuple_holds [of "datas s p" "[]" bs] h tuple_ok_small [OF bs] sint_small_nat [OF r(5)] by (auto simp: row_page_def)
  obtain s1 s2 where v: "FetchPage H R s (int p) = Inr (s1, Some p)" "datas s1 = datas s" "UnpinPage H R (set_data s1 p d) (int p) True = Inr (s2, True)"
    "resident H tok rel s2 k" "pins s2 = pins s" "datas s2 = (datas s)(p := d)" "length (frames s2) = length (frames s)" "p < length (frames s1)"
    by (rule visit [OF r(1-4), of d True]) blast
  have "heap_insert_loop H R bs s1 p = Some (Inr (set_data s1 p d, p, \<lparr>rid_page = int p, rid_slot = 0\<rparr>))"
    using d(1) v(2) by (subst heap_insert_loop.simps) (simp add: insert_try_def on_page_def data_view)
  moreover have "GetPageId (datas (set_data s1 p d) p) = Inr (int p)" using row_page_links(1) [OF d(2) r(5)] v(8) by (simp del: get_fields)
  ultimately have "heap_InsertTuple H R s (int p) bs = Inr (s2, Some \<lparr>rid_page = int p, rid_slot = 0\<rparr>)"
    using v(1,3) bs by (simp add: heap_InsertTuple_def tuple_ok_def data_view del: get_fields)
  then show ?thesis using v d(2) by auto
qed

lemma get_row:
  assumes r: "resident H tok rel s k" "p < k" "0 \<le> pins s p" "k \<le> room" "p < 2 ^ 31" and h: "row_page p [Some bs] (datas s p)"
  shows "\<exists>s' r. heap_GetTuple H R s \<lparr>rid_page = int p, rid_slot = 0\<rparr> = Inr (s', Some r) \<and> ref_bytes s' r = bs \<and> resident H tok rel s' k
    \<and> pins s' = pins s \<and> datas s' = datas s \<and> length (frames s') = length (frames s)"
proof -
  obtain s1 s2 where v: "FetchPage H R s (int p) = Inr (s1, Some p)" "datas s1 = datas s" "UnpinPage H R s1 (int p) False = Inr (s2, True)"
    "resident H tok rel s2 k" "pins s2 = pins s" "datas s2 = datas s" "length (frames s2) = length (frames s)"
    by (rule look [OF r(1-4), of False])
  obtain t where "GetTuple (datas s p) \<lparr>rid_page = int p, rid_slot = 0\<rparr> = Inr (Some t)" "tuple_bytes (datas s p) t = bs"
    using GetTuple_live [of "datas s p" "[Some bs]" 0 bs] h row_page_links(3) [OF h r(5), of 0] by (auto simp: row_page_def)
  then show ?thesis using v by (simp add: heap_GetTuple_def data_view ref_bytes_def)
qed

lemma at_row_load:
  assumes r: "resident H tok rel s k" "p < k" "0 \<le> pins s p" "k \<le> room" "p < 2 ^ 31" and h: "row_page p [Some bs] (datas s p)"
  shows "\<exists>s' it'. iter_load H R s \<lparr>it_rid = \<lparr>rid_page = int p, rid_slot = 0\<rparr>, it_tuple = None\<rparr> = Inr (s', it') \<and> at_row s' p bs it'
    \<and> resident H tok rel s' k \<and> pins s' = pins s \<and> datas s' = datas s \<and> length (frames s') = length (frames s)"
  using get_row [OF assms] same_end [OF r(5), of 0] by (auto simp: iter_load_def at_row_def same_iterator_def heap_end_def)

lemma scan_begin:
  assumes r: "resident H tok rel s k" "p < k" "0 \<le> pins s p" "k \<le> room" "p < 2 ^ 31" and h: "row_page p [Some bs] (datas s p)"
  shows "\<exists>s' it. heap_begin H R s (int p) = Inr (s', it) \<and> at_row s' p bs it \<and> resident H tok rel s' k \<and> pins s' = pins s \<and> datas s' = datas s
    \<and> length (frames s') = length (frames s)"
proof -
  obtain s1 s2 where v: "FetchPage H R s (int p) = Inr (s1, Some p)" "datas s1 = datas s" "UnpinPage H R s1 (int p) False = Inr (s2, True)"
    "resident H tok rel s2 k" "pins s2 = pins s" "datas s2 = datas s" "length (frames s2) = length (frames s)"
    by (rule look [OF r(1-4), of False])
  have "GetFirstTupleRid (datas s p) = Inr (\<lparr>rid_page = int p, rid_slot = 0\<rparr>, True)"
    using GetFirstTupleRid_holds [of "datas s p" "[Some bs]"] h row_page_links(3) [OF h r(5), of 0] by (simp add: row_page_def next_used_def)
  then have "heap_begin H R s (int p) = iter_load H R s2 \<lparr>it_rid = \<lparr>rid_page = int p, rid_slot = 0\<rparr>, it_tuple = None\<rparr>"
    using v(1-3) by (simp add: heap_begin_def data_view new_TableIterator_def INVALID_PAGE_ID_def)
  then show ?thesis using at_row_load [of s2 k p bs] v r h by simp
qed

lemma scan_next:
  assumes r: "resident H tok rel s k" "p < k" "0 \<le> pins s p" "k \<le> room" "p < 2 ^ 31" and h: "row_page p [Some bs] (datas s p)" and it: "at_row s p bs it"
  shows "\<exists>s' it'. iter_next H R s it = Inr (s', it') \<and> same_iterator it' heap_end"
proof -
  obtain s1 s2 where v: "FetchPage H R s (int p) = Inr (s1, Some p)" "datas s1 = datas s" "UnpinPage H R s1 (int p) False = Inr (s2, True)"
    by (rule look [OF r(1-4), of False])
  have "GetNextTupleRid (datas s p) \<lparr>rid_page = int p, rid_slot = 0\<rparr> = Inr None"
    using GetNextTupleRid_holds [of "datas s p" "[Some bs]" 0] h row_page_links(3) [OF h r(5)] by (simp add: row_page_def next_used_def)
  then have "iter_next_rid H R s1 p \<lparr>rid_page = int p, rid_slot = 0\<rparr> = Inr (s1, invalid_rid)"
    using v(2) row_page_links(2) [OF h r(5)] by (simp add: iter_next_rid_def data_view)
  then show ?thesis using v it by (auto simp: iter_next_def at_row_def Let_def same_iterator_def heap_end_def)
qed

end

subsection \<open>Keys of one integer column\<close>

definition int_decl :: "decl \<Rightarrow> bool" where
  "int_decl d \<longleftrightarrow> is_int (column_type (decl_column d))"

text \<open>The number that a column stores for a value.\<close>

definition arg_num :: "type_id \<Rightarrow> 'd sqlite_value \<Rightarrow> int" where
  "arg_num t a = (if t = BIGINT then sv_int64 a else sbits (int_width t) (sv_int a))"

definition key_arg_ok :: "type_id \<Rightarrow> 'd sqlite_value \<Rightarrow> bool" where
  "key_arg_ok t a \<longleftrightarrow> arg_ok t a \<and> arg_num t a \<noteq> PELOTON_INT_NULL t"

lemma int_column_value:
  assumes "is_int t" "arg_ok t a"
  shows "column_value F w t [a] = Inr (mk_int t (arg_num t a))" "fits_bits (int_width t) (arg_num t a)"
proof -
  consider "t = BIGINT" | "t \<in> {TINYINT, SMALLINT, INTEGER}" using assms(1) by (auto simp: is_int_def)
  then show "column_value F w t [a] = Inr (mk_int t (arg_num t a))"
  proof cases
    case 1
    then have "sbits 64 (sv_int64 a) = sv_int64 a" using assms(2) by (simp add: arg_ok_def)
    then show ?thesis using 1 by (simp add: column_value_def arg_num_def Value_int64_def int_value_def mk_int_def Let_def is_int_def)
  next
    case 2
    then have "sbits 32 (sv_int a) = sv_int a" using assms(2) by (auto simp: arg_ok_def)
    then show ?thesis using 2 by (auto simp: column_value_def arg_num_def Value_int32_def int_value_def mk_int_def Let_def is_int_def)
  qed
  show "fits_bits (int_width t) (arg_num t a)" using assms by (auto simp: arg_num_def arg_ok_def fits_sbits is_int_def)
qed

lemma int_decl_column:
  assumes "decl_ok d" "int_decl d"
  shows "is_inlined (decl_column d)" "fixed_length (decl_column d) = int (int_width (column_type (decl_column d)) div 8)"
    "int_width (column_type (decl_column d)) \<in> {8, 16, 32, 64}"
  using assms by (cases d; auto simp: int_decl_def is_int_def decl_column_def decl_ok_def Let_def GetTypeSize_def type_of_name_def split: if_splits)+

text \<open>The index on the column, and the key that it makes of a tuple with the value of that column.\<close>

lemma int_key:
  assumes c: "is_int (column_type c)" "is_inlined c" "fixed_length c = int (int_width (column_type c) div 8)" "int_width (column_type c) \<in> {8, 16, 32, 64}"
    and x: "fits_bits (int_width (column_type c)) x" "x \<noteq> PELOTON_INT_NULL (column_type c)" and F: "bits_ok (F :: 'd dbl_ops)" and K: "fixed_length c \<le> int K"
    and sch: "new_schema [c] = Inr sch"
  shows "\<exists>t k. new_tuple F junk [mk_int (column_type c) x] sch = Inr t \<and> SetFromKey (int K) junk' t = Inr k
    \<and> stored_key_ok sch K k \<and> key_rank sch k = [x]"
proof -
  let ?v = "mk_int (column_type c) x :: 'd sql_value"
  have v: "col_ok F c ?v" using c x by (auto simp: col_ok_def value_ok_def mk_int_def ser_len_def is_int_def)
  have sz: "fixed_total [c] + var_total [?v] = fixed_length c" "fixed_length c < 2 ^ 31"
    using c by (auto simp: var_size_def mk_int_def is_int_def)
  have l: "list_all2 (col_ok F) [c] [?v]" "fixed_total [c] + var_total [?v] < 2 ^ 31" using v sz by simp_all
  obtain sch' t where t: "new_schema [c] = Inr sch'" "columns sch' = place_columns 0 [c]" "new_tuple F junk [?v] sch' = Inr t" "tuple_size t = fixed_total [c] + var_total [?v]"
    "\<And>u i. i < length [?v] \<Longrightarrow> same_prefix (tuple_size t) (tuple_data u) (tuple_data t) \<Longrightarrow> GetValue F sch' u i = Inr ([?v] ! i)"
    by (rule new_tuple_ok [OF l F, of junk], rule that)
  have s: "sch' = sch" "columns sch = [c\<lparr>column_offset := 0\<rparr>]" using t(1,2) sch by auto
  let ?k = "write_mem (memset junk' 0 0 K) 0 (read_mem (tuple_data t) 0 (nat (tuple_size t)))"
  have ts: "tuple_size t = fixed_length c" using t(4) sz(1) by simp
  have k: "SetFromKey (int K) junk' t = Inr ?k" using K ts c(3) by (simp add: SetFromKey_def tput_def)
  let ?u = "\<lparr>tuple_size = 0, tuple_data = ?k\<rparr>"
  have "same_prefix (tuple_size t) (tuple_data ?u) (tuple_data t)" by (auto simp: same_prefix_def write_mem_apply read_mem_def)
  then have g: "GetValue F sch ?u 0 = Inr ?v" using t(5) [of 0 ?u] s(1) by simp
  have ic: "int_column sch 0" using c s(2) by (simp add: int_column_def)
  have "GetValue F sch ?u 0 = key_ToValue F ?k sch 0" by (simp add: GetValue_def GetDataPtr_def key_ToValue_def Let_def)
  then have "column_num sch ?k 0 = x" using g key_ToValue_int [OF ic, of F ?k] s(2) by (simp add: mk_int_def)
  moreover have "key_fits sch K" using s(2) c K by (simp add: key_fits_def)
  ultimately have "stored_key_ok sch K ?k" "key_rank sch ?k = [x]" using ic x(2) s(2) by (simp_all add: stored_key_ok_def key_ok_def key_rank_def)
  then show ?thesis using t(3) k s(1) by blast
qed

subsection \<open>The statement that declares the index\<close>

lemma place_columns_nth: "i < length cs \<Longrightarrow> \<exists>b'. place_columns b cs ! i = (cs ! i)\<lparr>column_offset := b'\<rparr>"
  by (induction cs arbitrary: b i) (auto simp: nth_Cons' split: nat.splits)

lemma GetColumnID_first:
  "i < length cs \<Longrightarrow> \<forall>j < i. column_name (cs ! j) \<noteq> column_name (cs ! i) \<Longrightarrow> GetColumnID cs k (column_name (cs ! i)) = k + int i"
proof (induction cs arbitrary: i k)
  case (Cons c cs)
  show ?case
  proof (cases i)
    case (Suc n)
    then have "\<forall>j < n. column_name (cs ! j) \<noteq> column_name (cs ! n)" "column_name c \<noteq> column_name (cs ! n)" using Cons.prems(2) by (auto simp: All_less_Suc2)
    then show ?thesis using Cons.IH [of n "k + 1"] Cons.prems(1) Suc by simp
  qed simp
qed simp

lemma decl_name: "column_name (decl_column d) = low (fst d)"
  by (cases d) (simp add: decl_column_def Let_def)

lemma name_piece:
  assumes "decl_ok d"
  shows "piece_ok (low (fst d))"
proof -
  have n: "low (fst d) \<noteq> []" "list_all (\<lambda>c. \<not> isspace c \<and> c \<noteq> CHR '','' \<and> c \<noteq> CHR '' '') (low (fst d))"
    using assms low_name [of "fst d"] by (auto simp: decl_ok_def)
  have "hd (low (fst d)) \<in> set (low (fst d))" "last (low (fst d)) \<in> set (low (fst d))" by (rule hd_in_set [OF n(1)], rule last_in_set [OF n(1)])
  then show ?thesis using n unfolding piece_ok_def list_all_iff by blast
qed

text \<open>The index on column \<open>i\<close>, the first one with its name.\<close>

lemma index_statement:
  assumes ds: "list_all decl_ok ds" "i < length ds" "int_decl (ds ! i)" "\<forall>j < i. low (fst (ds ! j)) \<noteq> low (fst (ds ! i))"
    and sch: "columns sch = place_columns 0 (map decl_column ds)" and name: "CHR '' '' \<notin> set iname"
  obtains meta where "ParseIndexStatement (iname @ CHR '' '' # fst (ds ! i)) tab sch = Inr meta" "im_name meta = low iname" "im_attrs meta = [int i]"
    "new_schema [columns sch ! i] = Inr (im_schema meta)" "im_schema meta = \<lparr>schema_length = fixed_length (columns sch ! i),
      columns = [(columns sch ! i)\<lparr>column_offset := 0\<rparr>], tuple_is_inlined = True, uninlined_columns = []\<rparr>"
proof -
  let ?n = "low (fst (ds ! i))" and ?c = "columns sch ! i"
  have d: "decl_ok (ds ! i)" using ds(1,2) by (simp add: list_all_length)
  note p = name_piece [OF d]
  have ne: "ds \<noteq> []" using ds(2) by (cases ds) simp_all
  have len: "length (columns sch) = length ds" using arg_cong [OF place_columns_types [of 0 "map decl_column ds"], of length] sch by simp
  obtain b where c: "?c = (decl_column (ds ! i))\<lparr>column_offset := b\<rparr>" using place_columns_nth [of i "map decl_column ds" 0] ds(2) sch by auto
  have "column_name (columns sch ! j) = low (fst (ds ! j))" if j: "j < length ds" for j
    using place_columns_nth [of j "map decl_column ds" 0] j sch by (auto simp: decl_name)
  then have id: "GetColumnID (columns sch) 0 ?n = int i" using GetColumnID_first [of i "columns sch" 0] ds(2,4) len by auto
  have "CHR '' '' \<notin> set (low iname)" using name lower_char_simps(3) unfolding list.set_map by (metis imageE)
  then have s: "strchr (low iname @ CHR '' '' # ?n) CHR '' '' = Some (length (low iname))" by (rule strchr_append)
  have sp: "Split ?n CHR '','' = [?n]" using Split_join [of "[?n]" "[]"] p by simp
  have tr: "Trim ?n = ?n" using Trim_piece [of "[]" ?n] p by simp
  let ?k = "\<lparr>schema_length = fixed_length ?c, columns = [?c\<lparr>column_offset := 0\<rparr>], tuple_is_inlined = True, uninlined_columns = []\<rparr>"
  have f: "fixed_length ?c \<in> {1, 2, 4, 8}" "is_inlined ?c" using int_decl_column [OF d ds(3)] c by auto
  then have "sbits 32 (fixed_length ?c) = fixed_length ?c" by (auto simp: fits_bits_def)
  then have k: "new_schema [?c] = Inr ?k" using f(2) by (simp add: new_schema_def Let_def)
  let ?m = "\<lparr>im_name = low iname, im_table = tab, im_attrs = [int i], im_schema = ?k\<rparr>"
  have "low (iname @ CHR '' '' # fst (ds ! i)) = low iname @ CHR '' '' # ?n" by (simp add: lower_char_def)
  then have "ParseIndexStatement (iname @ CHR '' '' # fst (ds ! i)) tab sch = Inr ?m"
    unfolding ParseIndexStatement_def Let_def using s k sp tr id ds(2) len ne by (simp add: new_IndexMetadata_def CopySchema_def)
  then show ?thesis using k by (intro that [of ?m]) simp_all
qed

lemma index_key_size:
  assumes "im_schema meta = \<lparr>schema_length = n, columns = cs, tuple_is_inlined = b, uninlined_columns = []\<rparr>" "n \<le> 64"
  shows "n \<le> int (vi_key_size (ConstructIndex meta r))" "vi_key_size (ConstructIndex meta r) \<le> 64"
  using assms by (auto simp: ConstructIndex_def Let_def)

subsection \<open>The callbacks\<close>

context pool_parts
begin

lemma create_table:
  assumes r: "resident H tok rel s 1" "1 < length (frames s)" "length (frames s) \<le> cap" "2 \<le> room" "0 \<le> pins s 0"
    and M: "holds_names (datas s 0) M" "card (dom M) < 113" "name_ok (header_bytes tab)" "header_bytes tab \<notin> dom M"
    and D: "db_table D = H" "db_replacer D = R"
    and st: "ParseCreateStatement tx = Inr sch" "ParseIndexStatement ix tab sch = Inr meta"
  shows "\<exists>s'. VtabCreate D True s [m, b, tab, ''('' @ tx @ '')'', ''('' @ ix @ '')''] = Inr (\<lparr>vt_schema = sch, vt_first = 1,
      vt_index = Some (ConstructIndex meta INVALID_PAGE_ID)\<rparr>, s') \<and> resident H tok rel s' 2 \<and> pins s' = (pins s)(1 := 0)
    \<and> holds_names (datas s' 0) (M(header_bytes tab \<mapsto> 1)) \<and> row_page 1 [] (datas s' 1) \<and> length (frames s') = length (frames s)"
proof -
  obtain s1 where s1: "FetchPage H R s (int 0) = Inr (s1, Some 0)" "resident H tok rel s1 1" "pins s1 = (pins s)(0 := pins s 0 + 1)"
    "datas s1 = datas s" "length (frames s1) = length (frames s)" using resident_fetch [OF r(1), of 0] by auto
  obtain s2 where s2: "new_TableHeap H R s1 INVALID_PAGE_ID = Inr (s2, int 1)" "resident H tok rel s2 (Suc 1)" "pins s2 = (pins s1)(1 := 0)"
    "\<forall>i. i \<noteq> 1 \<longrightarrow> datas s2 i = datas s1 i" "length (frames s2) = length (frames s1)" "row_page 1 [] (datas s2 1)"
    using new_table [OF s1(2)] r s1(5) by auto
  obtain d where d: "InsertRecord (datas s 0) (header_bytes tab) 1 = Inr (d, True)" "holds_names d (M(header_bytes tab \<mapsto> 1))"
    using header_page_ops(4) [OF M(1,3) _ M(4,2), of 1] by (auto simp: root_ok_def)
  have z: "datas s2 0 = datas s 0" "0 < length (frames s2)" using s2(4,5) s1(4,5) r(2) by (simp_all del: length_greater_0_conv)
  let ?s = "set_data s2 0 d"
  have v: "datas ?s = (datas s2)(0 := d)" "pins ?s = pins s2" "length (frames ?s) = length (frames s2)" using z(2) by simp_all
  obtain s3 where s3: "UnpinPage H R ?s (int 0) True = Inr (s3, True)" "resident H tok rel s3 (Suc 1)" "pins s3 = (pins ?s)(0 := pins ?s 0 - 1)"
    "datas s3 = datas ?s" "length (frames s3) = length (frames ?s)"
    using resident_unpin [OF resident_set_data [OF _ s2(2)], of 0 0 d True] r(4,5) s2(3) s1(3) by auto
  have "VtabCreate D True s [m, b, tab, ''('' @ tx @ '')'', ''('' @ ix @ '')''] = Inr (\<lparr>vt_schema = sch, vt_first = 1,
      vt_index = Some (ConstructIndex meta INVALID_PAGE_ID)\<rparr>, s3)"
    using s1(1) s2(1) s3(1) d(1) st z(1) D
    by (simp add: VtabCreate_def HEADER_PAGE_ID_def strip_quotes_def on_page_def data_view numeral_3_eq_3 numeral_2_eq_2 numeral_eq_Suc)
  moreover have "pins s3 = (pins s)(1 := 0)" using s3(3) v(2) s2(3) s1(3) by (auto simp: fun_eq_iff)
  ultimately show ?thesis using s3 v s2 s1(5) d(2) by (simp add: numeral_2_eq_2)
qed

end

abbreviation dbe :: "(int \<Rightarrow> nat) \<Rightarrow> (nat \<Rightarrow> nat) \<Rightarrow> 'd dbl_ops \<Rightarrow> (page_map, replacer_state, 'd) db_env" where
  "dbe hp hf F \<equiv> \<lparr>db_table = pt hp, db_replacer = lru_of hf, db_doubles = F\<rparr>"

abbreviation resident_on :: "(int \<Rightarrow> nat) \<Rightarrow> (nat \<Rightarrow> nat) \<Rightarrow> (page_map, replacer_state) pool \<Rightarrow> nat \<Rightarrow> bool" where
  "resident_on hp hf \<equiv> resident (pt hp) (one_page 100) (lru_rel (ext_class hf) (one_page 8) 8)"

abbreviation tree_on :: "(int \<Rightarrow> nat) \<Rightarrow> (nat \<Rightarrow> nat) \<Rightarrow> vindex \<Rightarrow> (page_map, replacer_state) pool \<Rightarrow> nat \<Rightarrow> (int list \<rightharpoonup> rid) \<Rightarrow> bool" where
  "tree_on hp hf ix \<equiv> tree_leaf (pt hp) (one_page 100) (lru_rel (ext_class hf) (one_page 8) 8) (stored_key_ok (im_schema (vi_meta ix)) (vi_key_size ix))
     (key_rank (im_schema (vi_meta ix))) (vi_key_size ix) (vi_tree ix)"

text \<open>The first entry of an index.\<close>

lemma first_entry:
  assumes ix: "ix = ConstructIndex meta INVALID_PAGE_ID" "im_attrs meta = [int i]" "vi_key_size ix \<le> 64"
    and r: "resident_on hp hf s 2" "2 < length (frames s)" "length (frames s) \<le> 100" "pins s 0 = 0" "pins s 1 = 0"
    and M: "holds_names (datas s 0) M" "card (dom M) < 113" "name_ok (header_bytes (im_name meta))" "header_bytes (im_name meta) \<notin> dom M"
    and key: "i < length (columns sch)" "GetValue F sch t i = Inr v" "new_tuple F junk1 [v] (im_schema meta) = Inr kt"
      "SetFromKey (int (vi_key_size ix)) junk2 kt = Inr k" "stored_key_ok (im_schema meta) (vi_key_size ix) k" "rid_ok rid"
    and vt: "vt_schema vt = sch" "vt_index vt = Some ix"
  shows "\<exists>ix' s'. vt_InsertEntry (dbe hp hf F) junk1 junk2 vt s t rid = Inr (vt\<lparr>vt_index := Some ix'\<rparr>, s') \<and> vi_meta ix' = meta \<and> vi_key_size ix' = vi_key_size ix
    \<and> tree_on hp hf ix' s' 3 [key_rank (im_schema meta) k \<mapsto> rid] \<and> length (frames s') = length (frames s) \<and> (\<forall>j. j \<noteq> 0 \<longrightarrow> j \<noteq> 2 \<longrightarrow> datas s' j = datas s j)"
proof -
  let ?t = "vi_tree ix" and ?K = "vi_key_size ix"
  have t: "?t = new_BPlusTree (header_bytes (im_name meta)) INVALID_PAGE_ID" "vi_meta ix = meta" by (simp_all add: ix(1) ConstructIndex_def Let_def header_bytes_def)
  have e: "index_env (dbe hp hf F) ix = tenv (pt hp) (lru_of hf) ?K (GenericComparator F (im_schema meta))" by (simp add: index_env_def t(2))
  have kv: "key_values F sch t [int i] = Inr [v]" using key(1,2) by simp
  have pin: "\<forall>j < 2. 0 \<le> pins s j" using r(4,5) by (simp add: numeral_2_eq_2 All_less_Suc)
  obtain s' where s': "StartNewTree (tenv (pt hp) (lru_of hf) ?K (GenericComparator F (im_schema meta))) ?t s k rid = Inr (?t\<lparr>root_page_id := int 2\<rparr>, s')"
    "tree_leaf (pt hp) (one_page 100) (lru_rel (ext_class hf) (one_page 8) 8) (stored_key_ok (im_schema meta) ?K) (key_rank (im_schema meta)) ?K
      (?t\<lparr>root_page_id := int 2\<rparr>) s' (Suc 2) [key_rank (im_schema meta) k \<mapsto> rid]" "length (frames s') = length (frames s)"
    "\<forall>j. j \<noteq> 0 \<longrightarrow> j \<noteq> 2 \<longrightarrow> datas s' j = datas s j"
    using bt.start_new_tree [OF r(1) _ r(2,3) _ pin M(1,2), of ?t "im_schema meta" ?K k rid F] M(3,4) key(5,6) capacity_ok(1) [OF ix(3)] t(1)
    by (auto simp: new_BPlusTree_def)
  let ?t' = "?t\<lparr>root_page_id := 2, btree_size := 1\<rparr>"
  have "tree_Insert (index_env (dbe hp hf F) ix) ?t s k rid = Inr (?t', s', False)"
    unfolding e using s'(1) by (simp add: tree_Insert_def IsEmpty_def t(1)) (simp add: new_BPlusTree_def)
  then have "vt_InsertEntry (dbe hp hf F) junk1 junk2 vt s t rid = Inr (vt\<lparr>vt_index := Some (ix\<lparr>vi_tree := ?t'\<rparr>)\<rparr>, s')"
    using vt kv key(3,4) by (simp add: vt_InsertEntry_def t(2) ix(2) index_InsertEntry_def) (simp add: index_env_def)
  moreover have "tree_on hp hf (ix\<lparr>vi_tree := ?t'\<rparr>) s' 3 [key_rank (im_schema meta) k \<mapsto> rid]"
    using s'(2) t(2) by (simp add: tree_leaf_def numeral_3_eq_3)
  ultimately show ?thesis using s'(3,4) t(2) by (intro exI [of _ "ix\<lparr>vi_tree := ?t'\<rparr>"] exI [of _ s']) simp
qed

text \<open>A query by key.\<close>

lemma query_key:
  assumes h: "tree_on hp hf ix s 3 m" and vt: "vt_index vt = Some ix"
    and k: "ConstructTuple F (junk 0) (im_schema (vi_meta ix)) argv = Inr kt" "SetFromKey (int (vi_key_size ix)) (junk 1) kt = Inr k"
      "stored_key_ok (im_schema (vi_meta ix)) (vi_key_size ix) k"
  shows "\<exists>s'. VtabFilter (dbe hp hf F) junk vt s c 1 argv = Inr (s', c\<lparr>is_index_scan := True,
      cur_results := cur_results c @ (case m (key_rank (im_schema (vi_meta ix)) k) of None \<Rightarrow> [] | Some r \<Rightarrow> [r])\<rparr>)
    \<and> tree_on hp hf ix s' 3 m \<and> datas s' = datas s \<and> length (frames s') = length (frames s)"
proof -
  have e: "index_env (dbe hp hf F) ix = tenv (pt hp) (lru_of hf) (vi_key_size ix) (GenericComparator F (im_schema (vi_meta ix)))" by (simp add: index_env_def)
  obtain s' where s': "tree_GetValue (index_env (dbe hp hf F) ix) (vi_tree ix) s k = Inr (s', m (key_rank (im_schema (vi_meta ix)) k))"
    "tree_on hp hf ix s' 3 m" "datas s' = datas s" "length (frames s') = length (frames s)"
    using bt.get_value [OF h _ k(3), of F] unfolding e by auto
  then show ?thesis using k vt
    by (auto simp: VtabFilter_def index_ScanKey_def index_env_def split: option.splits)
qed

subsection \<open>The session\<close>

text \<open>The bytes of a row, and what a cursor on it returns: every column, the record identifier, and the end after it.\<close>

definition row_size :: "decl list \<Rightarrow> 'd sqlite_value list \<Rightarrow> int" where
  "row_size ds as = fixed_total (map decl_column ds) + sum_list (map (\<lambda>(d, a). arg_size (column_type (decl_column d)) a) (zip ds as))"

definition shows_row :: "('t, 'r, 'd) db_env \<Rightarrow> vtable \<Rightarrow> ('t, 'r) pool \<Rightarrow> cursor \<Rightarrow> decl list \<Rightarrow> 'd sqlite_value list \<Rightarrow> bool" where
  "shows_row D vt s c ds as \<longleftrightarrow> \<not> VtabEof c \<and> VtabRowid c = Inr (2 ^ 32)
     \<and> (\<forall>j < length ds. \<exists>s'. VtabColumn D vt s c j = Inr (s', SQLITE_OK, Some (arg_result (column_type (decl_column (ds ! j))) (as ! j))))
     \<and> (\<exists>s' c'. VtabNext D s c = Inr (s', c') \<and> VtabEof c')"

text \<open>What it takes to show the row: the current tuple has the bytes of the tuple that was made of it.\<close>

definition row_tuple :: "'d dbl_ops \<Rightarrow> schema \<Rightarrow> tuple \<Rightarrow> decl list \<Rightarrow> 'd sqlite_value list \<Rightarrow> bool" where
  "row_tuple F sch t ds as \<longleftrightarrow> 0 \<le> tuple_size t \<and> map column_type (columns sch) = map (\<lambda>d. column_type (decl_column d)) ds
     \<and> (\<forall>j < length ds. \<forall>u. same_prefix (tuple_size t) (tuple_data u) (tuple_data t) \<longrightarrow>
        bnd (GetValue F sch u j) (column_result (column_type (decl_column (ds ! j)))) = Inr (Some (arg_result (column_type (decl_column (ds ! j))) (as ! j))))"

lemma current_columns:
  assumes c: "GetCurrentTuple D s c = Inr (s', Some r)" "ref_bytes s' r = bytes_of_tuple t" and t: "row_tuple (db_doubles D) (vt_schema vt) t ds as" and j: "j < length ds"
  shows "VtabColumn D vt s c j = Inr (s', SQLITE_OK, Some (arg_result (column_type (decl_column (ds ! j))) (as ! j)))"
proof -
  let ?ty = "column_type (decl_column (ds ! j))"
  have ty: "map column_type (columns (vt_schema vt)) = map (\<lambda>d. column_type (decl_column d)) ds" using t by (simp add: row_tuple_def)
  have l: "j < length (columns (vt_schema vt))" "column_type (columns (vt_schema vt) ! j) = ?ty"
    using arg_cong [OF ty, of length] arg_cong [OF ty, of "\<lambda>xs. xs ! j"] j by simp_all
  have "same_prefix (tuple_size t) (tuple_data (tuple_of_ref s' r)) (tuple_data t)" using ref_prefix [OF c(2)] t by (simp add: row_tuple_def)
  then have b: "bnd (GetValue (db_doubles D) (vt_schema vt) (tuple_of_ref s' r) j) (column_result ?ty) = Inr (Some (arg_result ?ty (as ! j)))"
    using t j unfolding row_tuple_def by blast
  then obtain x where "GetValue (db_doubles D) (vt_schema vt) (tuple_of_ref s' r) j = Inr x" "column_result ?ty x = Inr (Some (arg_result ?ty (as ! j)))"
    by (cases "GetValue (db_doubles D) (vt_schema vt) (tuple_of_ref s' r) j") auto
  then show ?thesis using c(1) l by (simp add: VtabColumn_def)
qed

lemma first_rid: "sint (RID_Get \<lparr>rid_page = 1, rid_slot = 0\<rparr>) = 2 ^ 32"
  by (simp add: RID_Get_def push_bit_eq_mult)

lemma scan_shows_row:
  assumes r: "resident_on hp hf s k" "1 < k" "0 \<le> pins s 1" "k \<le> 8" and h: "row_page 1 [Some (bytes_of_tuple t)] (datas s 1)"
    and it: "at_row s 1 (bytes_of_tuple t) it" and t: "row_tuple F (vt_schema vt) t ds as"
  shows "shows_row (dbe hp hf F) vt s \<lparr>cur_results = [], cur_offset = 0, cur_iter = it, is_index_scan = False\<rparr> ds as"
proof -
  let ?c = "\<lparr>cur_results = [], cur_offset = 0, cur_iter = it, is_index_scan = False\<rparr>"
  obtain rf where rf: "it_tuple it = Some rf" "ref_bytes s rf = bytes_of_tuple t" "it_rid it = \<lparr>rid_page = 1, rid_slot = 0\<rparr>" "\<not> same_iterator it heap_end"
    using it by (auto simp: at_row_def)
  have g: "GetCurrentTuple (dbe hp hf F) s ?c = Inr (s, Some rf)" using rf by (simp add: GetCurrentTuple_def iter_deref_def)
  obtain s' it' where n: "iter_next (pt hp) (lru_of hf) s it = Inr (s', it')" "same_iterator it' heap_end" using bpm.scan_next [OF r _ h it] by auto
  have "VtabNext (dbe hp hf F) s ?c = Inr (s', ?c\<lparr>cur_iter := it'\<rparr>)" "VtabEof (?c\<lparr>cur_iter := it'\<rparr>)" using n by (simp_all add: VtabNext_def VtabEof_def)
  then show ?thesis using current_columns [OF g rf(2), of vt ds as] t rf(3,4) first_rid
    unfolding shows_row_def by (auto simp: VtabEof_def VtabRowid_def current_rid_def iter_deref_def)
qed

lemma index_shows_row:
  assumes r: "resident_on hp hf s k" "1 < k" "0 \<le> pins s 1" "k \<le> 8" and h: "row_page 1 [Some (bytes_of_tuple t)] (datas s 1)"
    and t: "row_tuple F (vt_schema vt) t ds as" and c: "is_index_scan c" "cur_offset c = 0" "cur_results c = [\<lparr>rid_page = 1, rid_slot = 0\<rparr>]"
  shows "shows_row (dbe hp hf F) vt s c ds as"
proof -
  obtain s' rf where g: "heap_GetTuple (pt hp) (lru_of hf) s \<lparr>rid_page = int 1, rid_slot = 0\<rparr> = Inr (s', Some rf)" "ref_bytes s' rf = bytes_of_tuple t"
    using bpm.get_row [OF r _ h] by auto
  have "GetCurrentTuple (dbe hp hf F) s c = Inr (s', Some rf)" using g(1) c by (simp add: GetCurrentTuple_def current_rid_def)
  from current_columns [OF this g(2), of vt ds as] show ?thesis using t c first_rid
    unfolding shows_row_def by (auto simp: VtabEof_def VtabRowid_def current_rid_def VtabNext_def)
qed

abbreviation row_ok :: "decl list \<Rightarrow> 'd sqlite_value list \<Rightarrow> bool" where
  "row_ok ds as \<equiv> list_all2 (\<lambda>d a. decl_ok d \<and> arg_ok (column_type (decl_column d)) a) ds as"

lemma row_size_pos:
  assumes "row_ok ds as" "ds \<noteq> []"
  shows "0 < row_size ds as"
proof -
  obtain d ds' where d: "ds = d # ds'" using assms(2) by (cases ds) auto
  have pos: "0 < fixed_length (decl_column e)" if "decl_ok e" for e
    using that by (cases e) (auto simp: decl_column_def decl_ok_def Let_def type_of_name_def GetTypeSize_def split: if_splits)
  have ok: "list_all decl_ok ds" using assms(1) by (auto simp: list_all2_conv_all_nth list_all_length)
  then have "0 \<le> fixed_total (map decl_column ds')" unfolding fixed_total_def using pos by (intro sum_list_nonneg) (force simp: d list_all_iff)
  moreover have "0 \<le> sum_list (map (\<lambda>(d, a). arg_size (column_type (decl_column d)) a) (zip ds as))"
    by (intro sum_list_nonneg) (auto simp: arg_size_def split: option.splits)
  ultimately show ?thesis using pos [of d] ok by (simp add: row_size_def d)
qed

lemma row_made:
  assumes ok: "row_ok ds as" "ds \<noteq> []" and sz: "row_size ds as + 28 \<le> PAGE_SIZE" and F: "bits_ok F"
  obtains sch t where "ParseCreateStatement (join_comma (map decl_text ds)) = Inr sch" "ConstructTuple F junk sch as = Inr t"
    "columns sch = place_columns 0 (map decl_column ds)" "tuple_ok (bytes_of_tuple t)" "row_tuple F sch t ds as"
    "\<And>i. i < length ds \<Longrightarrow> int_decl (ds ! i) \<Longrightarrow> GetValue F sch t i = Inr (mk_int (column_type (decl_column (ds ! i))) (arg_num (column_type (decl_column (ds ! i))) (as ! i)))"
proof -
  let ?w = "\<lparr>vtype = INVALID, vdata = Partly_Set, vlen = PELOTON_VALUE_NULL\<rparr>"
  have lim: "row_size ds as < 2 ^ 31" using sz by (simp add: PAGE_SIZE_def)
  obtain sch t vs where row: "ParseCreateStatement (join_comma (map decl_text ds)) = Inr sch" "ConstructTuple F junk sch as = Inr t" "tuple_size t = row_size ds as"
    "columns sch = place_columns 0 (map decl_column ds)"
    "\<And>i. i < length ds \<Longrightarrow> column_value F ?w (column_type (decl_column (ds ! i))) [as ! i] = Inr (vs ! i)"
    "\<And>i. i < length ds \<Longrightarrow> column_result (column_type (decl_column (ds ! i))) (vs ! i) = Inr (Some (arg_result (column_type (decl_column (ds ! i))) (as ! i)))"
    "\<And>u i. i < length ds \<Longrightarrow> same_prefix (row_size ds as) (tuple_data u) (tuple_data t) \<Longrightarrow> GetValue F sch u i = Inr (vs ! i)"
    by (rule row_stored [OF ok(1) row_size_def [symmetric] lim F, of junk ?w]) blast
  note pos = row_size_pos [OF ok]
  have "tuple_ok (bytes_of_tuple t)" using pos row(3) sz by (auto simp: tuple_ok_def simp flip: length_greater_0_conv)
  moreover have "row_tuple F sch t ds as" using pos row(3,4,6,7) place_columns_types [of 0 "map decl_column ds"] by (simp add: row_tuple_def comp_def)
  moreover have "GetValue F sch t i = Inr (mk_int (column_type (decl_column (ds ! i))) (arg_num (column_type (decl_column (ds ! i))) (as ! i)))"
    if i: "i < length ds" "int_decl (ds ! i)" for i
  proof -
    have "arg_ok (column_type (decl_column (ds ! i))) (as ! i)" using ok(1) i(1) by (simp add: list_all2_conv_all_nth)
    then show ?thesis using int_column_value(1) [of "column_type (decl_column (ds ! i))" "as ! i" F ?w] row(5) [OF i(1)] row(7) [OF i(1), of t] i(2)
      by (simp add: int_decl_def same_prefix_def)
  qed
  ultimately show ?thesis using that row(1,2,4) by blast
qed

text \<open>An index on an integer column: how it makes keys.\<close>

definition makes_keys :: "'d dbl_ops \<Rightarrow> type_id \<Rightarrow> index_metadata \<Rightarrow> nat \<Rightarrow> bool" where
  "makes_keys F ty meta K \<longleftrightarrow> map column_type (columns (im_schema meta)) = [ty] \<and> K \<le> 64
     \<and> (\<forall>(a :: 'd sqlite_value) junk junk'. key_arg_ok ty a \<longrightarrow> (\<exists>kt k. new_tuple F junk [mk_int ty (arg_num ty a)] (im_schema meta) = Inr kt
        \<and> SetFromKey (int K) junk' kt = Inr k \<and> stored_key_ok (im_schema meta) K k \<and> key_rank (im_schema meta) k = [arg_num ty a]))"

lemma index_made:
  assumes ds: "list_all decl_ok ds" "i < length ds" "int_decl (ds ! i)" "\<forall>j < i. low (fst (ds ! j)) \<noteq> low (fst (ds ! i))"
    and sch: "columns sch = place_columns 0 (map decl_column ds)" and name: "CHR '' '' \<notin> set iname" and F: "bits_ok (F :: 'd dbl_ops)"
  obtains meta where "ParseIndexStatement (iname @ CHR '' '' # fst (ds ! i)) tab sch = Inr meta" "im_name meta = low iname" "im_attrs meta = [int i]"
    "makes_keys F (column_type (decl_column (ds ! i))) meta (vi_key_size (ConstructIndex meta INVALID_PAGE_ID))"
proof -
  let ?c = "columns sch ! i" and ?ty = "column_type (decl_column (ds ! i))"
  obtain meta where meta: "ParseIndexStatement (iname @ CHR '' '' # fst (ds ! i)) tab sch = Inr meta" "im_name meta = low iname" "im_attrs meta = [int i]"
    "new_schema [?c] = Inr (im_schema meta)" "im_schema meta = \<lparr>schema_length = fixed_length ?c,
      columns = [?c\<lparr>column_offset := 0\<rparr>], tuple_is_inlined = True, uninlined_columns = []\<rparr>"
    by (rule index_statement [OF ds sch name, of tab])
  let ?K = "vi_key_size (ConstructIndex meta INVALID_PAGE_ID)"
  obtain b where c: "?c = (decl_column (ds ! i))\<lparr>column_offset := b\<rparr>" using place_columns_nth [of i "map decl_column ds" 0] ds(2) sch by auto
  have cols: "is_int (column_type ?c)" "is_inlined ?c" "fixed_length ?c = int (int_width (column_type ?c) div 8)"
    "int_width (column_type ?c) \<in> {8, 16, 32, 64}" "column_type ?c = ?ty"
    using int_decl_column [of "ds ! i"] ds c by (simp_all add: list_all_length int_decl_def)
  have K: "fixed_length ?c \<le> int ?K" "?K \<le> 64" using index_key_size [OF meta(5), of INVALID_PAGE_ID] cols(3,4) by auto
  have "\<exists>kt k. new_tuple F junk [mk_int ?ty (arg_num ?ty a)] (im_schema meta) = Inr kt \<and> SetFromKey (int ?K) junk' kt = Inr k
      \<and> stored_key_ok (im_schema meta) ?K k \<and> key_rank (im_schema meta) k = [arg_num ?ty a]" if a: "key_arg_ok ?ty a" for a :: "'d sqlite_value" and junk junk'
  proof -
    have "fits_bits (int_width ?ty) (arg_num ?ty a)" using int_column_value(2) [of ?ty a] a cols(1,5) by (simp add: key_arg_ok_def)
    then show ?thesis using int_key [OF cols(1-4) _ _ F K(1) meta(4), of "arg_num ?ty a" junk junk'] a cols(5) by (auto simp: key_arg_ok_def)
  qed
  then have "makes_keys F ?ty meta ?K" using meta(5) cols(5) K(2) by (simp add: makes_keys_def)
  then show ?thesis using that meta(1-3) by blast
qed

lemma makes_keysE:
  fixes F :: "'d dbl_ops"
  assumes "makes_keys F ty meta K" "key_arg_ok ty (a :: 'd sqlite_value)"
  obtains kt k where "new_tuple F junk [mk_int ty (arg_num ty a)] (im_schema meta) = Inr kt" "SetFromKey (int K) junk' kt = Inr k"
    "stored_key_ok (im_schema meta) K k" "key_rank (im_schema meta) k = [arg_num ty a]"
  using assms unfolding makes_keys_def by blast

text \<open>A row goes into page 1, its key into the new page 2.\<close>

lemma insert_first_row:
  fixes F :: "'d dbl_ops" and a :: "'d sqlite_value"
  assumes r: "resident_on hp hf s 2" "length (frames s) = 10" "pins s 0 = 0" "pins s 1 = 0" "row_page 1 [] (datas s 1)"
    and M: "holds_names (datas s 0) M" "card (dom M) < 113" "name_ok (header_bytes (im_name meta))" "header_bytes (im_name meta) \<notin> dom M"
    and t: "ConstructTuple F (junk 0) sch as = Inr t" "tuple_ok (bytes_of_tuple t)" "GetValue F sch t i = Inr (mk_int ty (arg_num ty a))" "i < length (columns sch)"
    and k: "makes_keys F ty meta (vi_key_size ix)" "key_arg_ok ty a" "im_attrs meta = [int i]"
    and ix: "ix = ConstructIndex meta INVALID_PAGE_ID" "vt = \<lparr>vt_schema = sch, vt_first = 1, vt_index = Some ix\<rparr>" and nul: "sv_null nul"
  shows "\<exists>ix' s'. VtabUpdate (dbe hp hf F) junk vt s (nul # rowid # as) = Inr (vt\<lparr>vt_index := Some ix'\<rparr>, s') \<and> vi_meta ix' = meta
    \<and> vi_key_size ix' = vi_key_size ix \<and> tree_on hp hf ix' s' 3 [[arg_num ty a] \<mapsto> \<lparr>rid_page = 1, rid_slot = 0\<rparr>] \<and> row_page 1 [Some (bytes_of_tuple t)] (datas s' 1)"
proof -
  let ?D = "dbe hp hf F"
  obtain s1 where s1: "heap_InsertTuple (pt hp) (lru_of hf) s (int 1) (bytes_of_tuple t) = Inr (s1, Some \<lparr>rid_page = int 1, rid_slot = 0\<rparr>)" "resident_on hp hf s1 2" "pins s1 = pins s"
    "\<forall>i. i \<noteq> 1 \<longrightarrow> datas s1 i = datas s i" "row_page 1 [Some (bytes_of_tuple t)] (datas s1 1)" "length (frames s1) = length (frames s)"
    using bpm.insert_row [OF r(1) _ _ _ _ r(5) t(2)] r(4) by auto
  obtain kt key where key: "new_tuple F (junk 1) [mk_int ty (arg_num ty a)] (im_schema meta) = Inr kt" "SetFromKey (int (vi_key_size ix)) (junk 2) kt = Inr key"
    "stored_key_ok (im_schema meta) (vi_key_size ix) key" "key_rank (im_schema meta) key = [arg_num ty a]" by (rule makes_keysE [OF k(1,2)])
  have K: "vi_key_size ix \<le> 64" using k(1) by (simp add: makes_keys_def)
  have "\<exists>ix' s'. vt_InsertEntry ?D (junk 1) (junk 2) vt s1 t \<lparr>rid_page = 1, rid_slot = 0\<rparr> = Inr (vt\<lparr>vt_index := Some ix'\<rparr>, s') \<and> vi_meta ix' = meta
    \<and> vi_key_size ix' = vi_key_size ix \<and> tree_on hp hf ix' s' 3 [key_rank (im_schema meta) key \<mapsto> \<lparr>rid_page = 1, rid_slot = 0\<rparr>]
    \<and> length (frames s') = length (frames s1) \<and> (\<forall>j. j \<noteq> 0 \<longrightarrow> j \<noteq> 2 \<longrightarrow> datas s' j = datas s1 j)"
    by (rule first_entry [OF ix(1) k(3) K s1(2) _ _ _ _ _ M(2-4) t(4,3) key(1-3)])
      (use s1 r M(1) ix(2) in \<open>auto simp: rid_ok_def int32_ok_def\<close>)
  then obtain ix' s' where e: "vt_InsertEntry ?D (junk 1) (junk 2) vt s1 t \<lparr>rid_page = 1, rid_slot = 0\<rparr> = Inr (vt\<lparr>vt_index := Some ix'\<rparr>, s')" "vi_meta ix' = meta"
    "vi_key_size ix' = vi_key_size ix" "tree_on hp hf ix' s' 3 [[arg_num ty a] \<mapsto> \<lparr>rid_page = 1, rid_slot = 0\<rparr>]" "datas s' 1 = datas s1 1"
    unfolding key(4) by auto
  have "VtabUpdate ?D junk vt s (nul # rowid # as) = Inr (vt\<lparr>vt_index := Some ix'\<rparr>, s')"
    using t(1) s1(1) e(1) nul ix(2) by (simp add: VtabUpdate_def vt_InsertTuple_def)
  then show ?thesis using e s1(5) by auto
qed

lemma query_one:
  assumes h: "tree_on hp hf ix s 3 [[x] \<mapsto> rid]" and k: "makes_keys F ty (vi_meta ix) (vi_key_size ix)" "key_arg_ok ty q" and vt: "vt_index vt = Some ix"
  shows "\<exists>s'. VtabFilter (dbe hp hf F) junk vt s c 1 [q] = Inr (s', c\<lparr>is_index_scan := True, cur_results := cur_results c @ (if arg_num ty q = x then [rid] else [])\<rparr>)
    \<and> tree_on hp hf ix s' 3 [[x] \<mapsto> rid] \<and> datas s' = datas s"
proof -
  obtain kt key where key: "new_tuple F (junk 0) [mk_int ty (arg_num ty q)] (im_schema (vi_meta ix)) = Inr kt" "SetFromKey (int (vi_key_size ix)) (junk 1) kt = Inr key"
    "stored_key_ok (im_schema (vi_meta ix)) (vi_key_size ix) key" "key_rank (im_schema (vi_meta ix)) key = [arg_num ty q]" by (rule makes_keysE [OF k])
  have ty: "map column_type (columns (im_schema (vi_meta ix))) = [ty]" using k(1) by (simp add: makes_keys_def)
  then obtain cl where cl: "columns (im_schema (vi_meta ix)) = [cl]" "column_type cl = ty" by auto
  have "is_int ty" using key(3) cl by (simp add: stored_key_ok_def key_ok_def int_column_def)
  then have "column_value F w ty [q] = Inr (mk_int ty (arg_num ty q))" for w using int_column_value(1) [of ty q F w] k(2) by (simp add: key_arg_ok_def)
  then have "ConstructTuple F (junk 0) (im_schema (vi_meta ix)) [q] = Inr kt" using key(1) ty by (simp add: ConstructTuple_def)
  from query_key [OF h vt this key(2,3), of c] show ?thesis unfolding key(4) by (auto split: if_splits)
qed

lemma new_session:
  obtains s0 where "vtable_init (dbe hp hf F) (BufferPoolManager 10 new_disk) False = Inr s0" "resident_on hp hf s0 1"
    "length (frames s0) = 10" "pins s0 0 = 0" "holds_names (datas s0 0) Map.empty"
proof -
  have "0 < (10 :: nat)" by simp
  then obtain s s0 where "NewPage (pt hp) (lru_of hf) (BufferPoolManager 10 new_disk) = Inr (s, 0, Some 0)"
    "UnpinPage (pt hp) (lru_of hf) s 0 True = Inr (s0, True)" "resident_on hp hf s0 1"
    "length (frames s0) = 10" "pins s0 0 = 0" "holds_names (datas s0 0) Map.empty" by (rule new_database) simp
  then show ?thesis by (intro that [of s0]) (simp_all add: vtable_init_def HEADER_PAGE_ID_def)
qed

lemma first_row:
  assumes "row_ok ds as" and "row_size ds as + 28 \<le> PAGE_SIZE" and "bits_ok F"
    and "i < length ds" and "int_decl (ds ! i)" and "\<forall>j < i. low (fst (ds ! j)) \<noteq> low (fst (ds ! i))"
    and "CHR '' '' \<notin> set iname" and "name_ok (header_bytes (low iname))" and "name_ok (header_bytes tab)" and "header_bytes tab \<noteq> header_bytes (low iname)"
    and "ty = column_type (decl_column (ds ! i))" and "key_arg_ok ty (as ! i)" and "sv_null nul"
  obtains s0 s1 s2 vt ix t where "vtable_init (dbe hp hf F) (BufferPoolManager 10 new_disk) False = Inr s0"
    "VtabCreate (dbe hp hf F) True s0
      [modl, db, tab, ''('' @ join_comma (map decl_text ds) @ '')'', ''('' @ (iname @ CHR '' '' # fst (ds ! i)) @ '')''] = Inr (vt, s1)"
    "VtabUpdate (dbe hp hf F) junk vt s1 (nul # rowid # as) = Inr (vt\<lparr>vt_index := Some ix\<rparr>, s2)" "vt_first vt = 1" "row_tuple F (vt_schema vt) t ds as"
    "makes_keys F ty (vi_meta ix) (vi_key_size ix)" "tree_on hp hf ix s2 3 [[arg_num ty (as ! i)] \<mapsto> \<lparr>rid_page = 1, rid_slot = 0\<rparr>]"
    "row_page 1 [Some (bytes_of_tuple t)] (datas s2 1)"
proof -
  let ?D = "dbe hp hf F" and ?rid = "\<lparr>rid_page = 1, rid_slot = 0\<rparr>"
  have ne: "ds \<noteq> []" and dok: "list_all decl_ok ds" using assms(1,4) by (auto simp: list_all2_conv_all_nth list_all_length)
  obtain sch t where row: "ParseCreateStatement (join_comma (map decl_text ds)) = Inr sch" "ConstructTuple F (junk 0) sch as = Inr t"
    "columns sch = place_columns 0 (map decl_column ds)" "tuple_ok (bytes_of_tuple t)" "row_tuple F sch t ds as"
    "GetValue F sch t i = Inr (mk_int ty (arg_num ty (as ! i)))"
    by (rule row_made [OF assms(1) ne assms(2,3), of "junk 0"]) (use assms(4,5,11) in blast)
  obtain meta where meta: "ParseIndexStatement (iname @ CHR '' '' # fst (ds ! i)) tab sch = Inr meta" "im_name meta = low iname" "im_attrs meta = [int i]"
    "makes_keys F ty meta (vi_key_size (ConstructIndex meta INVALID_PAGE_ID))"
    by (rule index_made [OF dok assms(4-6) row(3) assms(7,3), of tab]) (use assms(11) in blast)
  have len: "i < length (columns sch)" using arg_cong [OF place_columns_types [of 0 "map decl_column ds"], of length] row(3) assms(4) by simp
  obtain s0 where s0: "vtable_init ?D (BufferPoolManager 10 new_disk) False = Inr s0" "resident_on hp hf s0 1"
    "length (frames s0) = 10" "pins s0 0 = 0" "holds_names (datas s0 0) Map.empty" by (rule new_session)
  define ix where "ix = ConstructIndex meta INVALID_PAGE_ID"
  define vt where "vt = \<lparr>vt_schema = sch, vt_first = 1, vt_index = Some ix\<rparr>"
  obtain s1 where s1: "VtabCreate ?D True s0 [modl, db, tab, ''('' @ join_comma (map decl_text ds) @ '')'', ''('' @ (iname @ CHR '' '' # fst (ds ! i)) @ '')''] = Inr (vt, s1)"
    "resident_on hp hf s1 2" "pins s1 = (pins s0)(1 := 0)" "holds_names (datas s1 0) [header_bytes tab \<mapsto> 1]" "row_page 1 [] (datas s1 1)" "length (frames s1) = length (frames s0)"
    using bpm.create_table [OF s0(2) _ _ _ _ s0(5) _ assms(9) _ _ _ row(1) meta(1), of ?D modl db] s0(3,4) unfolding vt_def ix_def by auto
  obtain ix' s2 where s2: "VtabUpdate ?D junk vt s1 (nul # rowid # as) = Inr (vt\<lparr>vt_index := Some ix'\<rparr>, s2)" "vi_meta ix' = meta" "vi_key_size ix' = vi_key_size ix"
    "tree_on hp hf ix' s2 3 [[arg_num ty (as ! i)] \<mapsto> ?rid]" "row_page 1 [Some (bytes_of_tuple t)] (datas s2 1)"
    using insert_first_row [where junk = junk and rowid = rowid, OF s1(2) _ _ _ s1(5,4) _ _ _ row(2,4,6) len _ assms(12) meta(3) ix_def vt_def assms(13)] s0(3,4) s1(3,6) meta(2,4) assms(8,10)
    by (auto simp: ix_def)
  show ?thesis
    by (rule that [OF s0(1) s1(1) s2(1)]) (use row(5) meta(4) s2 in \<open>simp_all add: vt_def ix_def\<close>)
qed

text \<open>C4. A session with a new database: the extension starts, a table with an index on an integer column is created, and a row
  is inserted. Then a cursor on the table shows the row, with the values that were inserted (integers at the width of their column),
  and nothing else; and a query by key shows the row when its value is the one of the indexed column, and nothing otherwise.\<close>

theorem create_insert_query:
  assumes "row_ok ds as" and "row_size ds as + 28 \<le> PAGE_SIZE" and "bits_ok F"
    and "i < length ds" and "int_decl (ds ! i)" and "\<forall>j < i. low (fst (ds ! j)) \<noteq> low (fst (ds ! i))"
    and "CHR '' '' \<notin> set iname" and "name_ok (header_bytes (low iname))" and "name_ok (header_bytes tab)" and "header_bytes tab \<noteq> header_bytes (low iname)"
    and "ty = column_type (decl_column (ds ! i))" and "key_arg_ok ty (as ! i)" and "key_arg_ok ty q" and "sv_null nul"
  shows "\<exists>s0 vt s1 vt1 s2 s3 c s4 c1. vtable_init (dbe hp hf F) (BufferPoolManager 10 new_disk) False = Inr s0
    \<and> VtabCreate (dbe hp hf F) True s0
        [modl, db, tab, ''('' @ join_comma (map decl_text ds) @ '')'', ''('' @ (iname @ CHR '' '' # fst (ds ! i)) @ '')''] = Inr (vt, s1)
    \<and> VtabUpdate (dbe hp hf F) junk vt s1 (nul # rowid # as) = Inr (vt1, s2)
    \<and> VtabOpen (dbe hp hf F) vt1 s2 = Inr (s3, c) \<and> shows_row (dbe hp hf F) vt1 s3 c ds as
    \<and> VtabFilter (dbe hp hf F) junk1 vt1 s3 c 1 [q] = Inr (s4, c1)
    \<and> (if arg_num ty q = arg_num ty (as ! i) then shows_row (dbe hp hf F) vt1 s4 c1 ds as else VtabEof c1)"
proof -
  let ?D = "dbe hp hf F" and ?rid = "\<lparr>rid_page = 1, rid_slot = 0\<rparr>"
  obtain s0 s1 s2 vt ix t where s: "vtable_init ?D (BufferPoolManager 10 new_disk) False = Inr s0"
    "VtabCreate ?D True s0 [modl, db, tab, ''('' @ join_comma (map decl_text ds) @ '')'', ''('' @ (iname @ CHR '' '' # fst (ds ! i)) @ '')''] = Inr (vt, s1)"
    "VtabUpdate ?D junk vt s1 (nul # rowid # as) = Inr (vt\<lparr>vt_index := Some ix\<rparr>, s2)" "vt_first vt = 1" "row_tuple F (vt_schema vt) t ds as"
    "makes_keys F ty (vi_meta ix) (vi_key_size ix)" "tree_on hp hf ix s2 3 [[arg_num ty (as ! i)] \<mapsto> ?rid]" "row_page 1 [Some (bytes_of_tuple t)] (datas s2 1)"
    by (rule first_row [OF assms(1-12,14), of hp hf modl db junk rowid])
  let ?vt = "vt\<lparr>vt_index := Some ix\<rparr>"
  have rt: "row_tuple F (vt_schema ?vt) t ds as" using s(5) by simp
  have p2: "resident_on hp hf s2 3" "0 \<le> pins s2 1" using s(7) by (auto simp: tree_leaf_def)
  obtain s3 it where s3: "heap_begin (pt hp) (lru_of hf) s2 (int 1) = Inr (s3, it)" "at_row s3 1 (bytes_of_tuple t) it" "resident_on hp hf s3 3" "pins s3 = pins s2" "datas s3 = datas s2"
    using bpm.scan_begin [OF p2(1) _ p2(2) _ _ s(8)] by auto
  let ?c = "\<lparr>cur_results = [], cur_offset = 0, cur_iter = it, is_index_scan = False\<rparr>"
  have opn: "VtabOpen ?D ?vt s2 = Inr (s3, ?c)" using s3(1) s(4) by (simp add: VtabOpen_def)
  have p3: "0 \<le> pins s3 1" "row_page 1 [Some (bytes_of_tuple t)] (datas s3 1)" using p2(2) s(8) s3(4,5) by simp_all
  have shown: "shows_row ?D ?vt s3 ?c ds as" by (rule scan_shows_row [OF s3(3) _ p3(1) _ p3(2) s3(2) rt]) simp_all
  have tree3: "tree_on hp hf ix s3 3 [[arg_num ty (as ! i)] \<mapsto> ?rid]" using s(7) s3(3-5) by (auto simp: tree_leaf_def)
  obtain s4 where s4: "VtabFilter ?D junk1 ?vt s3 ?c 1 [q] = Inr (s4, ?c\<lparr>is_index_scan := True,
      cur_results := if arg_num ty q = arg_num ty (as ! i) then [?rid] else []\<rparr>)" "tree_on hp hf ix s4 3 [[arg_num ty (as ! i)] \<mapsto> ?rid]" "datas s4 = datas s3"
    using query_one [OF tree3 s(6) assms(13), of ?vt junk1 ?c] by auto
  have p4: "resident_on hp hf s4 3" "0 \<le> pins s4 1" "row_page 1 [Some (bytes_of_tuple t)] (datas s4 1)" using s4(2,3) p3(2) by (auto simp: tree_leaf_def)
  let ?c1 = "?c\<lparr>is_index_scan := True, cur_results := if arg_num ty q = arg_num ty (as ! i) then [?rid] else []\<rparr>"
  have "if arg_num ty q = arg_num ty (as ! i) then shows_row ?D ?vt s4 ?c1 ds as else VtabEof ?c1"
    using index_shows_row [OF p4(1) _ p4(2) _ p4(3) rt, of ?c1] by (simp add: VtabEof_def)
  with s(1-3) opn shown s4(1) show ?thesis by blast
qed

theorem create_insert_query_witness:
  "\<exists>s0 vt s1 vt1 s2 s3 c s4 c1 s5. vtable_init (dbe nat id word_doubles) (BufferPoolManager 10 new_disk) False = Inr s0
    \<and> VtabCreate (dbe nat id word_doubles) True s0 [''vtable'', ''main'', ''foo'', ''(a INT, B varchar(13), c tinyint)'', ''(Foo_pk a)''] = Inr (vt, s1)
    \<and> VtabUpdate (dbe nat id word_doubles) (\<lambda>_ _. 0) vt s1 [\<lparr>sv_null = True, sv_int = 0, sv_int64 = 0, sv_double = 0, sv_text = None\<rparr>,
        \<lparr>sv_null = True, sv_int = 0, sv_int64 = 0, sv_double = 0, sv_text = None\<rparr>, \<lparr>sv_null = False, sv_int = 7, sv_int64 = 7, sv_double = 7, sv_text = None\<rparr>,
        \<lparr>sv_null = False, sv_int = 0, sv_int64 = 0, sv_double = 0, sv_text = Some ''hello''\<rparr>,
        \<lparr>sv_null = False, sv_int = 260, sv_int64 = 260, sv_double = 0, sv_text = None\<rparr>] = Inr (vt1, s2)
    \<and> VtabOpen (dbe nat id word_doubles) vt1 s2 = Inr (s3, c)
    \<and> VtabFilter (dbe nat id word_doubles) (\<lambda>_ _. 1) vt1 s3 c 1 [\<lparr>sv_null = False, sv_int = 7, sv_int64 = 7, sv_double = 7, sv_text = None\<rparr>] = Inr (s4, c1)
    \<and> \<not> VtabEof c1 \<and> VtabColumn (dbe nat id word_doubles) vt1 s4 c1 1 = Inr (s5, SQLITE_OK, Some (Result_Text ''hello''))"
proof -
  let ?nul = "\<lparr>sv_null = True, sv_int = 0, sv_int64 = 0, sv_double = 0, sv_text = None\<rparr> :: u64 sqlite_value"
  let ?q = "\<lparr>sv_null = False, sv_int = 7, sv_int64 = 7, sv_double = 7, sv_text = None\<rparr> :: u64 sqlite_value"
  let ?ds = "[(''a'', ''INT'', None), (''B'', ''varchar'', Some 13), (''c'', ''tinyint'', None)] :: decl list"
  let ?as = "[?q, \<lparr>sv_null = False, sv_int = 0, sv_int64 = 0, sv_double = 0, sv_text = Some ''hello''\<rparr>,
      \<lparr>sv_null = False, sv_int = 260, sv_int64 = 260, sv_double = 0, sv_text = None\<rparr>] :: u64 sqlite_value list"
  have tx: "''('' @ join_comma (map decl_text ?ds) @ '')'' = ''(a INT, B varchar(13), c tinyint)''" "''('' @ (''Foo_pk'' @ CHR '' '' # fst (?ds ! 0)) @ '')'' = ''(Foo_pk a)''"
    by code_simp+
  have d: "list_all decl_ok ?ds" by code_simp
  have ty: "map (column_type \<circ> decl_column) ?ds = [INTEGER, VARCHAR, TINYINT]" by code_simp
  have fx: "fixed_total (map decl_column ?ds) = 9" by code_simp
  have b: "bits_ok word_doubles" by (simp add: bits_ok_def word_doubles_def)
  have ok: "row_ok ?ds ?as" using d ty by (simp add: arg_ok_def fits_bits_def)
  have sz: "row_size ?ds ?as + 28 \<le> PAGE_SIZE" using ty unfolding row_size_def fx by (simp add: arg_size_def PAGE_SIZE_def)
  have nm: "CHR '' '' \<notin> set ''Foo_pk''" "name_ok (header_bytes (low ''Foo_pk''))" "name_ok (header_bytes ''foo'')" "header_bytes ''foo'' \<noteq> header_bytes (low ''Foo_pk'')"
    by code_simp+
  have seven: "sbits 32 7 = 7" by (simp add: fits_bits_def)
  have c: "INTEGER = column_type (decl_column (?ds ! 0))" "int_decl (?ds ! 0)" "key_arg_ok INTEGER (?as ! 0)" "key_arg_ok INTEGER ?q" "sv_null ?nul"
    "0 < length ?ds" "\<forall>j < 0. low (fst (?ds ! j)) \<noteq> low (fst (?ds ! 0))"
    using ty seven by (simp_all add: int_decl_def is_int_def key_arg_ok_def arg_ok_def arg_num_def fits_bits_def PELOTON_INT_NULL_def)
  have res: "arg_result (column_type (decl_column (?ds ! 1))) (?as ! 1) = Result_Text ''hello''" using ty by (simp add: arg_result_def)
  have one: "1 < length ?ds" by simp
  from create_insert_query [OF ok sz b c(6,2,7) nm c(1,3,4,5), of nat id "''vtable''" "''main''" "\<lambda>_ _. 0" ?nul "\<lambda>_ _. 1", unfolded tx]
  obtain s0 vt s1 vt1 s2 s3 c s4 c1 where r: "vtable_init (dbe nat id word_doubles) (BufferPoolManager 10 new_disk) False = Inr s0"
    "VtabCreate (dbe nat id word_doubles) True s0 [''vtable'', ''main'', ''foo'', ''(a INT, B varchar(13), c tinyint)'', ''(Foo_pk a)''] = Inr (vt, s1)"
    "VtabUpdate (dbe nat id word_doubles) (\<lambda>_ _. 0) vt s1 (?nul # ?nul # ?as) = Inr (vt1, s2)" "VtabOpen (dbe nat id word_doubles) vt1 s2 = Inr (s3, c)"
    "VtabFilter (dbe nat id word_doubles) (\<lambda>_ _. 1) vt1 s3 c 1 [?q] = Inr (s4, c1)" "shows_row (dbe nat id word_doubles) vt1 s4 c1 ?ds ?as"
    by auto
  from r(6) one res obtain s5 where "\<not> VtabEof c1" "VtabColumn (dbe nat id word_doubles) vt1 s4 c1 1 = Inr (s5, SQLITE_OK, Some (Result_Text ''hello''))"
    unfolding shows_row_def by metis
  with r(1-5) show ?thesis by blast
qed

end
