(* ===== verification/Spec2Isabelle.thy ===== *)
theory Spec2Isabelle
  imports Mdriver_Props Tsh_Props Bt_Correct Spiffy Rio_Props Tiny Rwmutex Vtable_Session
begin

text \<open>
  Verification of the systems programs of the repository: an allocator and its driver, a shell and a web server (course
  15213), a file-sharing client (course 15441) and a disk-based database behind SQLite (course 15445). File names below are
  relative to \<open>src/\<close>.

  \<^bold>\<open>Conventions.\<close> Machine integers are words, or integers whose wrap-around (\<open>sbits\<close>) or overflow check is written
  out, with three exceptions that are unbounded: the length of a packet queue, the pin counts of the buffer pool and the
  counters of chunks in a download job. Memory is a function from addresses to bytes; structures that the code reaches through pointers live in an explicit
  store. Fallible code returns a sum whose left side is an error of the part concerned: an exception, a failed
  assertion, or undefined behaviour (an access outside an object, a null pointer, signed overflow, \<open>sprintf\<close> into the array it reads). A loop that need not
  end is a \<open>partial_function\<close> in the option type, where \<open>None\<close> means that it does not return; the theorems state that
  the loops return, and two of them that a loop never does. What the source does not contain is an argument: the results of system calls,
  \<open>std::hash\<close>, double arithmetic (\<open>dbl_ops\<close>), the contents of fresh memory, the accessors of SQLite.
  \<open>Prelude\<close> has the types, byte memory and shared lemmas, \<open>Cstr\<close> and \<open>Stdio\<close> the functions of the C library that the
  sources call (\<open>strchr\<close>, \<open>atoi\<close>, \<open>sscanf\<close>, lines and words of input).

  \<^bold>\<open>The allocator\<close> (\<open>15213/malloclab-handout\<close>). \<open>Memlib\<close> models \<open>memlib.c\<close>, \<open>Mm\<close> all of \<open>mm.c\<close> and \<open>Mm_Naive\<close> all of
  \<open>mm-naive.c\<close>. \<open>Mm_Heap\<close> views the heap as a chain of blocks with boundary tags; \<open>Mm_Correct\<close> and \<open>Mm_Free\<close> show that
  \<open>malloc\<close> and \<open>free\<close> keep the chain and all other payloads; \<open>Mm_Limits\<close> has the branch of \<open>coalesce\<close> that writes a wrong
  size and the sizes that wrap around. The locale \<open>allocator\<close> of \<open>Alloc_Spec\<close> states the contract; it is interpreted for both
  packages, and extended by \<open>reclaimer\<close> for the naive one. The driver \<open>mdriver.c\<close> (\<open>Mdriver\<close>, \<open>Mdriver_Eval\<close>) reads traces, checks
  a package and computes the score; \<open>Mdriver_Correct\<close> proves inside the locale that it accepts every package that meets
  the contract, \<open>Mdriver_Props\<close> that it reads back the traces that are written in its format.

  \<^bold>\<open>The shell\<close> (\<open>15213/spring15213-master/tshlab-handout/mytest/tsh.c\<close>). \<open>Tsh_Parse\<close> is the parser, \<open>Tsh_Jobs\<close> the job table with the
  locale \<open>job_table\<close> (a finite map), \<open>Tsh\<close> the evaluation of commands and the signal handlers as a step relation. The start of
  a job, \<open>bg\<close> and \<open>fg\<close> are cut into steps wherever the code has not blocked signals, and a signal may arrive between any two of
  them; a handler runs to its end, and one scan of the job table is one step. \<open>Tsh_Correct\<close> and \<open>Tsh_Props\<close> prove the invariant of
  all reachable states (and its stronger form for executions that are \<open>calm\<close>, where no job is reaped between the test and
  the assignment of its state), that \<open>SIGCHLD\<close> reaps every child that has changed state, and that waiting for a foreground
  job ends; \<open>fg_race\<close> is an execution that is not calm and loses the foreground job. The parser is that of lines shorter than
  the buffer of 1024 bytes; the copy of a longer one is not terminated, which is an error.

  \<^bold>\<open>Input, output and the web server\<close> (\<open>15213/proxylab-handout\<close>). \<open>Rio\<close> models the robust reading and writing of \<open>csapp.c\<close>; its
  locales \<open>reader\<close> and \<open>steady_reader\<close> state what a \<open>read\<close> function promises and are interpreted for the system call
  and for the buffered reader. \<open>Rio_Props\<close> determines the result of every call in any mixture of reads. \<open>Tiny\<close>
  models \<open>tiny.c\<close> and \<open>adder.c\<close>, from the bytes of the request to those of the response: CGI programs are run as the request
  says, while static files, error pages and the page of the adder are built with overlapping \<open>sprintf\<close> calls and undefined.

  \<^bold>\<open>The file-sharing client\<close> (\<open>15441/project2_starter_code\<close>). \<open>Sha1\<close> models every compiled variant of \<open>sha.c\<close>, \<open>Sha1_Spec\<close> is the
  standard, \<open>Sha1_Correct\<close> shows through the locale \<open>streaming_hash\<close> that hashing a stream in pieces gives the
  standard's value. \<open>Chunk\<close> (\<open>chunk.c\<close>, \<open>make_chunks.c\<close>), \<open>Queue\<close> (\<open>queue.c\<close>, with the locale \<open>fifo\<close>), \<open>Bt_Packet\<close>,
  \<open>Bt_Parse\<close>, \<open>Bt_Job\<close> (\<open>job.c\<close>, \<open>processor.c\<close>, \<open>bt_parse.c\<close>, \<open>peer.c\<close>), \<open>Input_Buffer\<close> and \<open>Spiffy\<close> are the rest; \<open>Bt_Correct\<close> shows that the
  packets of a job announce exactly its missing chunks, and that a \<open>GET\<close> of a chunk file with a full hash overruns a buffer before that;
  \<open>Bt_Packet\<close> that the length given to the network layer is byte-swapped. \<open>make-chunks\<close> is correct for files of less than about
  \<open>2 ^ 50\<close> bytes, the number of chunks being rounded as a \<open>double\<close> and converted to \<open>int\<close>.

  \<^bold>\<open>The database\<close> (\<open>15445/src\<close>), from the bottom to the top:
  \<^item> \<open>Disk\<close> (\<open>disk_manager.cpp\<close>); \<open>Db_Spec\<close> with the locales \<open>bounded_map\<close> and \<open>replacer_spec\<close> for the abstract classes
    \<open>HashTable\<close> and \<open>Replacer\<close>; \<open>Ext_Hash\<close> and \<open>Ext_Hash_Correct\<close> (\<open>extendible_hash.cpp\<close>), \<open>Lru\<close> (\<open>lru_replacer.cpp\<close>), which interpret them.
  \<^item> \<open>Buffer_Pool\<close> (\<open>buffer_pool_manager.cpp\<close>); \<open>Buffer_Correct\<close> proves inside \<open>pool_parts\<close>, the union of the two contracts, that the pool shows the pages
    as a map that survives eviction; \<open>Buffer_Props\<close> interprets it on the hash table and the replacer.
  \<^item> \<open>Page_Mem\<close>, \<open>Table_Page\<close> and \<open>Header_Page\<close> (slotted pages, header page): bytes of a page against a list of slots and a map of names.
  \<^item> \<open>Sql_Value\<close>, \<open>Sql_Types\<close>, \<open>Sql_Arith\<close> (\<open>type/\<close>): values with null, casts, comparison and arithmetic; \<open>Sql_Correct\<close>, \<open>Sql_Typed\<close> and \<open>Sql_Props\<close>
    compare them with the integers. \<open>Tuple\<close> (\<open>catalog/\<close>, \<open>table/tuple.cpp\<close>): serialization, and \<open>Tuple_Props\<close> that it can be read back.
  \<^item> \<open>Table_Heap\<close> (\<open>table_heap.cpp\<close>, \<open>table_iterator.cpp\<close>): \<open>Table_Heap_Correct\<close> and \<open>Table_Heap_Props\<close> show that a table over the pool behaves as a list of pages of tuples.
  \<^item> \<open>Bplus_Page\<close> (\<open>page/b_plus_tree_*.cpp\<close>, \<open>generic_key.h\<close>): \<open>Bplus_Correct\<close> shows in the locale \<open>key_order\<close> that a leaf is a sorted map.
    \<open>Bplus_Tree\<close> (\<open>index/b_plus_tree.cpp\<close>, \<open>b_plus_tree_index.cpp\<close>): the tree over the pool, a map as long as it is one leaf;
    \<open>Bplus_Tree_Props\<close> has what the first split does. The locale \<open>tree_parts\<close> joins \<open>pool_parts\<close> and \<open>stored_keys\<close>.
  \<^item> \<open>Vtable\<close> (\<open>vtable/virtual_table.cpp\<close>): the callbacks of the SQLite extension; \<open>Vtable_Parse\<close> the statements, \<open>Vtable_Props\<close> the choice of
    the index and the conversion of rows. \<open>Vtable_Session\<close> composes all parts of the database: a table with an index is created, a row inserted,
    and found by a scan and by its key, in the pool of ten frames that the extension makes.
  \<^item> \<open>Rwmutex\<close> (\<open>common/rwmutex.h\<close>): any number of threads interleaved by a step relation; exclusion, and that the threads can finish.

  \<^bold>\<open>Bounds.\<close> The hash table can lose entries and loop when pages split, so the laws of \<open>bounded_map\<close> hold up to the
  capacity of one page: 100 entries in the page table and 8 in the replacer. The theorems about the pool, the table heap and the tree
  are therefore about pools of at most 100 frames in which at most 8 pages wait in the replacer: the clients of the pool keep to that and to
  three more rules (\<open>client\<close>; without them \<open>fetch_evicts_pinned\<close> loses a page), a table has at most 8 pages. A tree is one leaf up to three keys, since the code sets the maximal size of a leaf to 4. No
  definition uses fuel.

  \<^bold>\<open>Not modelled.\<close> Output for debugging and usage messages; timing (\<open>fcyc.c\<close>, \<open>clock.c\<close>, \<open>ftimer.c\<close>), which depends on the machine; the lifetime of heap
  objects in the C++ sources; the methods of the B+ tree whose bodies are stubs; \<open>proxy.c\<close>, which is unfinished; test programs and drivers
  for them; unfinished copies of \<open>tsh.c\<close>; the Linux kernel modules of \<open>15410\<close>, macros of the kernel; third-party code (\<open>peloton/\<close>, the SQLite shell,
  gmock); the Python exercises.
\<close>

end
